(* ===== verification/Prelude.thy ===== *)
theory Prelude
  imports Main "HOL-Library.AList"
begin

section \<open>Prelude: Go values shared by every component\<close>

text \<open>
  The vocabulary the component theories share: Go's \<open>time.Time\<close> and \<open>time.Duration\<close> as
  nanosecond integers, the ASCII part of the \<open>strings\<close> package, Go maps as association lists
  with laws that hold whatever their internal order, and the interfaces (locales) that more than
  one component provides: a finite map, and the choice of a best element by a comparison.
\<close>

subsection \<open>Collections of the development's rewrite rules\<close>

named_theorems go_time \<open>durations written out in nanoseconds\<close>
named_theorems go_string \<open>equations of the string operations\<close>
named_theorems go_map \<open>lookup laws of the map operations\<close>

subsection \<open>Times and durations\<close>

text \<open>
  A \<open>time.Time\<close> is its number of nanoseconds since the Unix epoch, a \<open>time.Duration\<close> a number
  of nanoseconds. Go's zero \<open>time.Time\<close> (January 1 of year 1) is the value \<open>zero_time\<close>, and
  \<open>t.Unix()\<close> rounds down to a second.
\<close>

type_synonym time = int
type_synonym dur = int

definition second :: dur where [go_time]: "second = 1000000000"
definition millisecond :: dur where [go_time]: "millisecond = 1000000"
definition minute :: dur where [go_time]: "minute = 60000000000"
definition hour :: dur where [go_time]: "hour = 3600000000000"

definition zero_time :: time where [go_time]: "zero_time = - 62135596800000000000"

definition is_zero :: "time \<Rightarrow> bool" where [go_time]: "is_zero t \<longleftrightarrow> t = zero_time"

definition unix :: "time \<Rightarrow> int" where "unix t = t div second"

definition of_unix :: "int \<Rightarrow> time" where "of_unix s = s * second"

lemma unix_of_unix [simp]: "unix (of_unix s) = s"
  by (simp add: unix_def of_unix_def second_def)

lemma second_pos [simp]: "0 < second"
  by (simp add: second_def)

lemma unix_mono: "s \<le> t \<Longrightarrow> unix s \<le> unix t"
  by (simp add: unix_def zdiv_mono1)

lemma unix_le_iff: "unix t < n \<longleftrightarrow> t < of_unix n"
proof -
  have "t div 1000000000 < n \<longleftrightarrow> t < n * (1000000000 :: int)"
    by linarith
  then show ?thesis by (simp add: unix_def of_unix_def second_def)
qed

text \<open>Go's integer division truncates towards zero; Isabelle's rounds down.\<close>

definition go_div :: "int \<Rightarrow> int \<Rightarrow> int" where
  "go_div a b = (if (a < 0) = (b < 0) then \<bar>a\<bar> div \<bar>b\<bar> else - (\<bar>a\<bar> div \<bar>b\<bar>))"

lemma go_div_nonneg: "0 \<le> a \<Longrightarrow> 0 < b \<Longrightarrow> go_div a b = a div b"
  by (simp add: go_div_def)

subsection \<open>Strings\<close>

text \<open>
  A Go string is its list of bytes. \<open>strings.ToLower\<close>, \<open>strings.TrimSpace\<close> and
  \<open>strings.EqualFold\<close> are modelled on ASCII: bytes above 127 are left alone (the strings the
  program normalises are hexadecimal ids, addresses, setting names and the router's error texts).
\<close>

definition lower_char :: "char \<Rightarrow> char" where
  "lower_char c = (if 65 \<le> (of_char c :: nat) \<and> (of_char c :: nat) \<le> 90
     then char_of ((of_char c :: nat) + 32) else c)"

definition to_lower :: "string \<Rightarrow> string" where
  "to_lower s = map lower_char s"

definition is_space :: "char \<Rightarrow> bool" where
  "is_space c \<longleftrightarrow> (let n = (of_char c :: nat) in n = 32 \<or> 9 \<le> n \<and> n \<le> 13)"

definition trim :: "string \<Rightarrow> string" where
  "trim s = rev (dropWhile is_space (rev (dropWhile is_space s)))"

definition equal_fold :: "string \<Rightarrow> string \<Rightarrow> bool" where
  "equal_fold s t \<longleftrightarrow> to_lower s = to_lower t"

definition has_prefix :: "string \<Rightarrow> string \<Rightarrow> bool" where
  "has_prefix s p \<longleftrightarrow> take (length p) s = p"

fun contains :: "string \<Rightarrow> string \<Rightarrow> bool" where
  "contains [] sub = (sub = [])"
| "contains (c # cs) sub = (has_prefix (c # cs) sub \<or> contains cs sub)"

lemma lower_char_idem [simp]: "lower_char (lower_char c) = lower_char c"
  by (auto simp: lower_char_def)

lemma to_lower_idem [simp]: "to_lower (to_lower s) = to_lower s"
  by (simp add: to_lower_def)

lemma length_to_lower [simp]: "length (to_lower s) = length s"
  by (simp add: to_lower_def)

lemma to_lower_Nil [simp]: "to_lower [] = []"
  by (simp add: to_lower_def)

lemma to_lower_append: "to_lower (s @ t) = to_lower s @ to_lower t"
  by (simp add: to_lower_def)

lemma is_space_lower [simp]: "is_space (lower_char c) = is_space c"
proof (cases "65 \<le> (of_char c :: nat) \<and> (of_char c :: nat) \<le> 90")
  case True
  then have "(of_char (lower_char c) :: nat) = of_char c + 32"
    by (auto simp: lower_char_def)
  with True show ?thesis by (simp add: is_space_def Let_def)
next
  case False
  then show ?thesis by (auto simp: lower_char_def)
qed

lemma dropWhile_space_lower:
  "dropWhile is_space (map lower_char s) = map lower_char (dropWhile is_space s)"
  by (induction s) auto

lemma trim_to_lower: "trim (to_lower s) = to_lower (trim s)"
  by (simp add: trim_def to_lower_def dropWhile_space_lower rev_map)

lemma dropWhile_idem: "dropWhile P (dropWhile P s) = dropWhile P s"
  by (induction s) auto

lemma hd_rev_trim: "dropWhile P (rev (dropWhile P (rev (dropWhile P s)))) = rev (dropWhile P (rev (dropWhile P s)))"
proof (cases "dropWhile P (rev (dropWhile P s)) = []")
  case True
  then show ?thesis by (metis dropWhile.simps(1) rev.simps(1))
next
  case False
  let ?u = "dropWhile P s"
  let ?v = "dropWhile P (rev ?u)"
  obtain pre where pre: "rev ?u = pre @ ?v"
    by (metis takeWhile_dropWhile_id)
  then have u: "?u = rev ?v @ rev pre"
    by (metis rev_append rev_rev_ident)
  have "?u \<noteq> []"
  proof
    assume u: "?u = []"
    have "?v = []" unfolding u by simp
    with False show False by (rule notE)
  qed
  then have "\<not> P (hd ?u)" by (rule hd_dropWhile)
  moreover have "hd (rev ?v @ rev pre) = hd (rev ?v)"
    using False by (simp only: hd_append rev_is_Nil_conv if_False)
  ultimately have "\<not> P (hd (rev ?v))"
    using u by metis
  then show ?thesis
    by (metis dropWhile_eq_self_iff)
qed

lemma trim_idem [simp]: "trim (trim s) = trim s"
  by (simp add: trim_def hd_rev_trim dropWhile_idem)

lemma trim_Nil [simp]: "trim [] = []"
  by (simp add: trim_def)

text \<open>White space around a string without any at its ends is trimmed off.\<close>

lemma dropWhile_before: "list_all P xs \<Longrightarrow> s \<noteq> [] \<Longrightarrow> \<not> P (hd s) \<Longrightarrow> dropWhile P (xs @ s @ t) = s @ t"
  by (induction xs) (auto simp: neq_Nil_conv)

lemma trim_pasted:
  assumes "s \<noteq> []" and "\<not> is_space (hd s)" and "\<not> is_space (last s)" and "list_all is_space b" and "list_all is_space a"
  shows "trim (b @ s @ a) = s"
  using dropWhile_before [of is_space b s a] dropWhile_before [of is_space "rev a" "rev s" "[]"] assms
  by (simp add: trim_def hd_rev)

lemma equal_fold_refl [simp]: "equal_fold s s"
  by (simp add: equal_fold_def)

lemma has_prefix_append [simp]: "has_prefix (p @ s) p"
  by (simp add: has_prefix_def)

lemma has_prefixE:
  assumes "has_prefix s p"
  obtains r where "s = p @ r"
  using assms unfolding has_prefix_def by (metis append_take_drop_id)

lemma contains_append: "contains (u @ sub @ v) sub"
  by (induction u; cases sub; cases v) (auto simp: has_prefix_def)

subsection \<open>Go maps\<close>

text \<open>
  A Go map with string keys is an association list whose order stands for the order a \<open>range\<close>
  loop happens to take, which Go leaves open: a theorem about every association list covers every
  iteration order. \<open>mget\<close> is the two-valued read, \<open>mput\<close> the assignment, \<open>mdel\<close>
  \<open>delete\<close>, \<open>mitems\<close> what a \<open>range\<close> loop visits, and \<open>mfilter\<close> a loop that deletes the
  entries failing a test. A \<open>map[string]bool\<close> that only ever holds \<open>true\<close> is a set.
\<close>

type_synonym 'v gomap = "(string \<times> 'v) list"

definition mget :: "('k \<times> 'v) list \<Rightarrow> 'k \<Rightarrow> 'v option" where
  "mget m k = map_of m k"

definition mput :: "'k \<Rightarrow> 'v \<Rightarrow> ('k \<times> 'v) list \<Rightarrow> ('k \<times> 'v) list" where
  "mput k v m = (k, v) # filter (\<lambda>p. fst p \<noteq> k) m"

definition mdel :: "'k \<Rightarrow> ('k \<times> 'v) list \<Rightarrow> ('k \<times> 'v) list" where
  "mdel k m = filter (\<lambda>p. fst p \<noteq> k) m"

definition mitems :: "('k \<times> 'v) list \<Rightarrow> ('k \<times> 'v) list" where
  "mitems m = AList.clearjunk m"

definition mfilter :: "('k \<Rightarrow> 'v \<Rightarrow> bool) \<Rightarrow> ('k \<times> 'v) list \<Rightarrow> ('k \<times> 'v) list" where
  "mfilter P m = filter (\<lambda>(k, v). P k v) (mitems m)"

lemma map_of_filter_key:
  "map_of (filter (\<lambda>p. fst p \<noteq> k) m) j = (if j = k then None else map_of m j)"
  by (induction m) auto

lemma mget_mput [simp, go_map]: "mget (mput k v m) j = (if j = k then Some v else mget m j)"
  by (simp add: mget_def mput_def map_of_filter_key)

lemma mget_mdel [simp, go_map]: "mget (mdel k m) j = (if j = k then None else mget m j)"
  by (simp add: mget_def mdel_def map_of_filter_key)

lemma mget_Nil [simp, go_map]: "mget [] k = None"
  by (simp add: mget_def)

lemma distinct_mitems [simp]: "distinct (map fst (mitems m))"
  by (simp add: mitems_def distinct_clearjunk)

lemma map_of_filter_distinct:
  "distinct (map fst m) \<Longrightarrow>
   map_of (filter (\<lambda>(k, v). P k v) m) j =
     (case map_of m j of None \<Rightarrow> None | Some v \<Rightarrow> if P j v then Some v else None)"
proof (induction m)
  case Nil
  then show ?case by simp
next
  case (Cons p m)
  obtain k v where p: "p = (k, v)" by (cases p)
  from Cons.prems p have "k \<notin> fst ` set m" by simp
  then have "map_of m k = None" by (simp add: map_of_eq_None_iff)
  with Cons p show ?case by (auto split: option.splits)
qed

lemma mget_mitems [simp]: "map_of (mitems m) k = mget m k"
  by (simp add: mget_def mitems_def map_of_clearjunk)

lemma mget_mfilter [simp, go_map]:
  "mget (mfilter P m) k =
     (case mget m k of None \<Rightarrow> None | Some v \<Rightarrow> if P k v then Some v else None)"
  using map_of_filter_distinct [OF distinct_mitems, of P m k]
  by (simp add: mfilter_def mget_def)

lemma mem_mitems: "(k, v) \<in> set (mitems m) \<longleftrightarrow> mget m k = Some v"
  by (metis distinct_mitems map_of_eq_Some_iff mget_mitems)

lemma mget_SomeD: "mget m k = Some v \<Longrightarrow> (k, v) \<in> set m"
  by (simp add: mget_def map_of_SomeD)

definition mkeys :: "('k \<times> 'v) list \<Rightarrow> 'k list" where
  "mkeys m = map fst (mitems m)"

lemma mem_mkeys: "k \<in> set (mkeys m) \<longleftrightarrow> mget m k \<noteq> None"
  by (force simp: mkeys_def mem_mitems [symmetric])

lemma distinct_mkeys [simp]: "distinct (mkeys m)"
  by (simp add: mkeys_def)

lemma mdom_mkeys: "{k. mget m k \<noteq> None} = set (mkeys m)"
  by (rule set_eqI, subst mem_mkeys) (rule mem_Collect_eq)

lemma mget_finite: "finite {k. mget m k \<noteq> None}"
  unfolding mdom_mkeys by (rule finite_set)

text \<open>How many entries a map has, \<open>len(m)\<close>.\<close>

definition mlen :: "('k \<times> 'v) list \<Rightarrow> nat" where
  "mlen m = length (mitems m)"

lemma mlen_card: "mlen m = card {k. mget m k \<noteq> None}"
  unfolding mdom_mkeys
  by (metis distinct_card distinct_mkeys length_map mkeys_def mlen_def)

lemma mlen_mput: "mlen (mput k v m) = (if mget m k = None then Suc (mlen m) else mlen m)"
proof -
  have "{j. mget (mput k v m) j \<noteq> None} = insert k {j. mget m j \<noteq> None}"
    by auto
  then have "mlen (mput k v m) = card (insert k {j. mget m j \<noteq> None})"
    by (simp only: mlen_card)
  then show ?thesis
    by (simp only: mlen_card card_insert_if [OF mget_finite] mem_Collect_eq) simp
qed

lemma mlen_mdel: "mlen (mdel k m) = (if mget m k = None then mlen m else mlen m - 1)"
proof -
  have "{j. mget (mdel k m) j \<noteq> None} = {j. mget m j \<noteq> None} - {k}"
    by auto
  then have "mlen (mdel k m) = card ({j. mget m j \<noteq> None} - {k})"
    by (simp only: mlen_card)
  then show ?thesis
    by (simp only: mlen_card card_Diff_singleton_if mem_Collect_eq) simp
qed

lemma mlen_Nil [simp]: "mlen [] = 0"
  by (simp add: mlen_def mitems_def)

subsection \<open>Doubling schedules\<close>

text \<open>
  Several components wait longer after each failure: the delay starts at a base, doubles, and is
  capped. The laws are the first delay and the step; the closed form and the bounds follow.
\<close>

locale doubling_schedule =
  fixes delay :: "nat \<Rightarrow> int" and base :: int and cap :: int
  assumes base_pos: "0 < base"
    and base_le_cap: "base \<le> cap"
    and delay_0: "delay 0 = base"
    and delay_Suc: "delay (Suc n) = min cap (2 * delay n)"
begin

lemma closed_form: "delay n = min cap (base * 2 ^ n)"
proof (induction n)
  case 0
  then show ?case using base_le_cap by (simp add: delay_0)
next
  case (Suc n)
  then show ?case using base_pos base_le_cap by (auto simp: delay_Suc min_def)
qed

lemma delay_le_cap: "delay n \<le> cap"
  by (simp add: closed_form)

lemma base_le_delay: "base \<le> delay n"
  using base_pos base_le_cap by (simp add: closed_form)

lemma delay_mono: "m \<le> n \<Longrightarrow> delay m \<le> delay n"
  using base_pos by (simp add: closed_form min.coboundedI2 min_le_iff_disj power_increasing)

lemma delay_capped: "cap \<le> base * 2 ^ n \<Longrightarrow> delay n = cap"
  by (simp add: closed_form)

end


subsection \<open>Choosing one of several\<close>

text \<open>
  Several components keep the best of a list by comparing the best so far with each next element.
  When the comparison follows a linear order, the choice is the least element, and with distinct
  keys it does not depend on the order of the list.
\<close>

locale best_choice =
  fixes better :: "'a \<Rightarrow> 'a \<Rightarrow> 'a" and key :: "'a \<Rightarrow> 'k::linorder"
  assumes better_key: "better a b = (if key b < key a then b else a)"
begin

lemma fold_mem: "foldl better b ss \<in> insert b (set ss)"
  by (induction ss arbitrary: b) (auto simp: better_key)

lemma fold_least: "x \<in> insert b (set ss) \<Longrightarrow> key (foldl better b ss) \<le> key x"
proof (induction ss arbitrary: b x)
  case (Cons s ss)
  have "key (better b s) \<le> key b" and "key (better b s) \<le> key s" by (auto simp: better_key)
  then show ?case using Cons.prems Cons.IH [of _ "better b s"] by (auto intro: order_trans)
qed simp

lemma fold_unique:
  assumes "insert b (set ss) = insert c (set ts)" and "inj_on key (insert b (set ss))"
  shows "foldl better b ss = foldl better c ts"
proof -
  have m: "foldl better b ss \<in> insert b (set ss)" "foldl better c ts \<in> insert b (set ss)"
    using fold_mem [of b ss] fold_mem [of c ts] by (simp_all only: assms(1))
  then have "key (foldl better b ss) = key (foldl better c ts)"
    using fold_least [of _ b ss] fold_least [of _ c ts] assms(1) by (intro order_antisym) simp_all
  from inj_onD [OF assms(2) this m] show ?thesis .
qed

end

end
