(* ===== verification/Wallet_Slot.thy ===== *)
theory Wallet_Slot
  imports Prelude
begin

section \<open>The wallet slot (\<open>internal/pool/slot.go\<close>)\<close>

text \<open>
  One slot per process serialises every call that spends from the wallet. A hold is a
  \<open>slotToken\<close>; callers that find the slot taken queue in arrival order and the releasing holder
  hands the slot to the head of the queue through a one-element channel.

  Each definition is one critical section of \<open>walletSlot.mu\<close> (or one receive from a waiter's
  channel); \<open>slot_step\<close> interleaves them freely. A token and a waiter are pointers in the code:
  here they carry their identity (\<open>tok_id\<close>, the waiter number). The watchdog timer is the set of
  tokens whose timer is armed. Not modelled: the wall-clock time kept for the hold-time log line,
  and \<open>callTimeScale\<close>, a test-only divisor of every bound (1 in the program).
\<close>

subsection \<open>Constants, tokens and the slot's state\<close>

definition openSlotWait :: dur where "openSlotWait = 90 * second"
definition slotHoldCap :: dur where "slotHoldCap = 60 * second"
definition openMinPostTime :: dur where "openMinPostTime = 25 * second"
definition readCallTimeout :: dur where "readCallTimeout = 10 * second"
definition closeCallTimeout :: dur where "closeCallTimeout = 30 * second"
definition reconcileReserve :: dur where "reconcileReserve = 10 * second"
definition maxQueuedPerKey :: nat where "maxQueuedPerKey = 2"
definition watchdogSlack :: dur where "watchdogSlack = 5 * second"

record slot_token =
  tok_id :: nat
  tok_key :: string
  tok_acquired :: time
  tok_deadline :: time

record wallet_slot =
  slHolder :: "slot_token option"
  slWaiters :: "(nat \<times> string) list"       \<comment> \<open>waiter and its key, head first\<close>
  slChan :: "(nat \<times> slot_token) list"      \<comment> \<open>tokens handed over, not yet received\<close>
  slNextID :: nat
  slNextWaiter :: nat
  slReleased :: "nat set"                    \<comment> \<open>tokens whose \<open>released\<close> flag is set\<close>
  slArmed :: "nat set"                       \<comment> \<open>tokens whose watchdog timer runs\<close>
  slWatchdogFired :: nat
  slHeld :: int
  slMaxHeld :: int

definition new_slot :: wallet_slot where
  "new_slot = \<lparr>slHolder = None, slWaiters = [], slChan = [], slNextID = 0, slNextWaiter = 0,
     slReleased = {}, slArmed = {}, slWatchdogFired = 0, slHeld = 0, slMaxHeld = 0\<rparr>"

datatype ctx_err = Canceled | DeadlineExceeded
datatype slot_err = CtxErr ctx_err | SlotBusy

subsection \<open>Operations\<close>

definition grantLocked :: "wallet_slot \<Rightarrow> string \<Rightarrow> time \<Rightarrow> slot_token \<times> wallet_slot" where
  "grantLocked s key now =
     (let i = Suc (slNextID s);
          tok = \<lparr>tok_id = i, tok_key = key, tok_acquired = now, tok_deadline = now + slotHoldCap\<rparr>;
          n = slHeld s + 1
      in (tok, s\<lparr>slNextID := i, slHolder := Some tok, slHeld := n,
                 slMaxHeld := (if n > slMaxHeld s then n else slMaxHeld s),
                 slArmed := insert i (slArmed s)\<rparr>))"

definition tryAcquire :: "wallet_slot \<Rightarrow> string \<Rightarrow> time \<Rightarrow> slot_token option \<times> wallet_slot" where
  "tryAcquire s key now =
     (if slHolder s \<noteq> None \<or> slWaiters s \<noteq> [] then (None, s)
      else (case grantLocked s key now of (t, s') \<Rightarrow> (Some t, s')))"

datatype enter = EnterErr slot_err | EnterTok slot_token | EnterWait nat

definition queued_for :: "wallet_slot \<Rightarrow> string \<Rightarrow> nat" where
  "queued_for s key = length (filter (\<lambda>w. snd w = key) (slWaiters s))"

definition acquire_enter ::
  "wallet_slot \<Rightarrow> string \<Rightarrow> ctx_err option \<Rightarrow> time \<Rightarrow> enter \<times> wallet_slot" where
  "acquire_enter s key cerr now =
     (case cerr of
        Some e \<Rightarrow> (EnterErr (CtxErr e), s)
      | None \<Rightarrow>
          if slHolder s = None \<and> slWaiters s = [] then
            (case grantLocked s key now of (t, s') \<Rightarrow> (EnterTok t, s'))
          else if key \<noteq> [] \<and> queued_for s key \<ge> maxQueuedPerKey then (EnterErr SlotBusy, s)
          else (EnterWait (slNextWaiter s),
                s\<lparr>slWaiters := slWaiters s @ [(slNextWaiter s, key)],
                  slNextWaiter := Suc (slNextWaiter s)\<rparr>))"

definition slot_release :: "wallet_slot \<Rightarrow> slot_token option \<Rightarrow> time \<Rightarrow> wallet_slot" where
  "slot_release s t now =
     (case t of
        None \<Rightarrow> s
      | Some tok \<Rightarrow>
          if tok_id tok \<in> slReleased s then s
          else let s1 = s\<lparr>slReleased := insert (tok_id tok) (slReleased s),
                          slArmed := slArmed s - {tok_id tok}\<rparr>
               in if map_option tok_id (slHolder s1) \<noteq> Some (tok_id tok) then s1
                  else let s2 = s1\<lparr>slHeld := slHeld s1 - 1, slHolder := None\<rparr>
                       in (case slWaiters s2 of
                             [] \<Rightarrow> s2
                           | (w, k) # rest \<Rightarrow>
                               (case grantLocked (s2\<lparr>slWaiters := rest\<rparr>) k now of
                                  (t', s3) \<Rightarrow> s3\<lparr>slChan := slChan s3 @ [(w, t')]\<rparr>)))"

text \<open>The waiter's \<open>select\<close>: receive from its channel, or give up (context or timer).\<close>

definition wait_receive :: "wallet_slot \<Rightarrow> nat \<Rightarrow> slot_token option \<times> wallet_slot" where
  "wait_receive s w =
     (case map_of (slChan s) w of
        None \<Rightarrow> (None, s)
      | Some t \<Rightarrow> (Some t, s\<lparr>slChan := filter (\<lambda>c. fst c \<noteq> w) (slChan s)\<rparr>))"

definition wait_abandon :: "wallet_slot \<Rightarrow> nat \<Rightarrow> slot_err \<Rightarrow> time \<Rightarrow> slot_err \<times> wallet_slot" where
  "wait_abandon s w err now =
     (case wait_receive s w of
        (Some t, s') \<Rightarrow> (err, slot_release s' (Some t) now)
      | (None, _) \<Rightarrow> (err, s\<lparr>slWaiters := filter (\<lambda>x. fst x \<noteq> w) (slWaiters s)\<rparr>))"

text \<open>
  \<open>acquire\<close> as one caller sees it. While it waits the other callers run: \<open>wait\<close> gives the slot
  when the wait ends, how it ended (\<open>None\<close>: a token was received) and the time.
\<close>

definition slot_acquire ::
  "(nat \<Rightarrow> wallet_slot \<Rightarrow> wallet_slot \<times> slot_err option \<times> time) \<Rightarrow>
   wallet_slot \<Rightarrow> string \<Rightarrow> ctx_err option \<Rightarrow> time \<Rightarrow> (slot_err + slot_token) \<times> wallet_slot" where
  "slot_acquire wait s key cerr now =
     (case acquire_enter s key cerr now of
        (EnterErr e, s') \<Rightarrow> (Inl e, s')
      | (EnterTok t, s') \<Rightarrow> (Inr t, s')
      | (EnterWait w, s') \<Rightarrow>
          (case wait w s' of
             (s2, Some e, now2) \<Rightarrow>
               (case wait_abandon s2 w e now2 of (e', s3) \<Rightarrow> (Inl e', s3))
           | (s2, None, now2) \<Rightarrow>
               (case wait_receive s2 w of
                  (Some t, s3) \<Rightarrow> (Inr t, s3)
                | (None, s3) \<Rightarrow> (Inl SlotBusy, s3))))"

definition slot_holds :: "wallet_slot \<Rightarrow> slot_token option \<Rightarrow> bool" where
  "slot_holds s t =
     (case t of
        None \<Rightarrow> False
      | Some tok \<Rightarrow> tok_id tok \<notin> slReleased s \<and> map_option tok_id (slHolder s) = Some (tok_id tok))"

definition slot_queued :: "wallet_slot \<Rightarrow> nat" where
  "slot_queued s = length (slWaiters s)"

definition remaining :: "slot_token \<Rightarrow> time \<Rightarrow> dur" where
  "remaining tok now = tok_deadline tok - now"

text \<open>How long a router call made inside the hold may run (\<open>callCtx\<close>).\<close>

definition call_left :: "slot_token \<Rightarrow> dur \<Rightarrow> time \<Rightarrow> dur" where
  "call_left tok per now =
     (let left = remaining tok now;
          left = (if per > 0 \<and> per < left then per else left)
      in if left < 0 then 0 else left)"

text \<open>The watchdog timer of a token fires: it counts a holder that is not released.\<close>

definition watchdog_fire :: "wallet_slot \<Rightarrow> nat \<Rightarrow> wallet_slot" where
  "watchdog_fire s i =
     (if i \<in> slArmed s then
        (let s' = s\<lparr>slArmed := slArmed s - {i}\<rparr>
         in if i \<notin> slReleased s then s'\<lparr>slWatchdogFired := Suc (slWatchdogFired s)\<rparr> else s')
      else s)"

subsection \<open>Interleavings\<close>

text \<open>
  One rule per critical section. A token is released only by a goroutine that has received it:
  it was issued, and it is not still in a waiter's channel.
\<close>

inductive slot_step :: "wallet_slot \<Rightarrow> wallet_slot \<Rightarrow> bool" where
  st_try: "tryAcquire s key now = (r, s') \<Longrightarrow> slot_step s s'"
| st_enter: "acquire_enter s key cerr now = (r, s') \<Longrightarrow> slot_step s s'"
| st_receive: "wait_receive s w = (r, s') \<Longrightarrow> slot_step s s'"
| st_abandon: "wait_abandon s w e now = (r, s') \<Longrightarrow> slot_step s s'"
| st_release: "1 \<le> tok_id t \<Longrightarrow> tok_id t \<le> slNextID s \<Longrightarrow>
     tok_id t \<notin> tok_id ` snd ` set (slChan s) \<Longrightarrow>
     slot_release s (Some t) now = s' \<Longrightarrow> slot_step s s'"
| st_watchdog: "watchdog_fire s i = s' \<Longrightarrow> slot_step s s'"

inductive slot_reachable :: "wallet_slot \<Rightarrow> bool" where
  reach_new: "slot_reachable new_slot"
| reach_step: "slot_reachable s \<Longrightarrow> slot_step s s' \<Longrightarrow> slot_reachable s'"

subsection \<open>The invariant\<close>

text \<open>
  The queue: waiters are distinct, numbered below \<open>slNextWaiter\<close>, and no key but the empty one
  queues more than \<open>maxQueuedPerKey\<close> of them. An idle slot has every token it issued released,
  and nobody queued. A busy slot's holder is the last token issued, every earlier one is
  released, and a token in a channel is the holder's.
\<close>

definition queue_ok :: "wallet_slot \<Rightarrow> bool" where
  "queue_ok s \<longleftrightarrow> distinct (map fst (slWaiters s)) \<and>
     (\<forall>w \<in> fst ` set (slWaiters s). w < slNextWaiter s) \<and>
     (\<forall>key. key \<noteq> [] \<longrightarrow> queued_for s key \<le> maxQueuedPerKey)"

definition slot_idle :: "wallet_slot \<Rightarrow> bool" where
  "slot_idle s \<longleftrightarrow> slHolder s = None \<and> slHeld s = 0 \<and> slMaxHeld s \<le> 1 \<and>
     slReleased s = {1..slNextID s} \<and> slChan s = []"

definition slot_busy :: "wallet_slot \<Rightarrow> slot_token \<Rightarrow> bool" where
  "slot_busy s t \<longleftrightarrow> slHolder s = Some t \<and> slHeld s = 1 \<and> slMaxHeld s \<le> 1 \<and>
     1 \<le> slNextID s \<and> tok_id t = slNextID s \<and> slReleased s = {1..<slNextID s} \<and>
     tok_deadline t = tok_acquired t + slotHoldCap \<and>
     (slChan s = [] \<or> (\<exists>w. slChan s = [(w, t)] \<and> w < slNextWaiter s \<and>
        w \<notin> fst ` set (slWaiters s)))"

definition slot_inv :: "wallet_slot \<Rightarrow> bool" where
  "slot_inv s \<longleftrightarrow> queue_ok s \<and> (slot_idle s \<and> slWaiters s = [] \<or> (\<exists>t. slot_busy s t))"

lemmas slot_defs = tryAcquire_def acquire_enter_def slot_release_def wait_receive_def
  wait_abandon_def watchdog_fire_def grantLocked_def Let_def

lemma slot_inv_new: "slot_inv new_slot"
  by (simp add: slot_inv_def queue_ok_def slot_idle_def new_slot_def queued_for_def)

text \<open>Granting turns an idle slot into a busy one and leaves the queue alone.\<close>

lemma grant_busy:
  assumes "slot_idle s" and "grantLocked s key now = (t, s')"
  shows "slot_busy s' t \<and> tok_key t = key \<and> slWaiters s' = slWaiters s \<and> slChan s' = [] \<and>
    slNextWaiter s' = slNextWaiter s"
  using assms by (auto simp: grantLocked_def Let_def slot_idle_def slot_busy_def)

lemma queue_ok_cong:
  "slWaiters s' = slWaiters s \<Longrightarrow> slNextWaiter s' = slNextWaiter s \<Longrightarrow> queue_ok s' = queue_ok s"
  by (simp add: queue_ok_def queued_for_def)

lemma length_filter_filter_le: "length (filter Q (filter P xs)) \<le> length (filter Q xs)"
  by (induction xs) auto

lemma queue_ok_filter:
  assumes "queue_ok s" and "slWaiters s' = filter P (slWaiters s)"
    and "slNextWaiter s' = slNextWaiter s"
  shows "queue_ok s'"
proof -
  have "queued_for s' key \<le> queued_for s key" for key
    by (simp only: queued_for_def assms(2) length_filter_filter_le)
  with assms show ?thesis
    by (auto simp: queue_ok_def distinct_map_filter intro: le_trans)
qed

lemma queue_ok_tl: "queue_ok s \<Longrightarrow> slWaiters s = x # rest \<Longrightarrow> queue_ok (s\<lparr>slWaiters := rest\<rparr>)"
  by (auto simp: queue_ok_def queued_for_def split: if_splits)

lemma queue_ok_snoc:
  assumes "queue_ok s" and "key = [] \<or> queued_for s key < maxQueuedPerKey"
  shows "queue_ok (s\<lparr>slWaiters := slWaiters s @ [(slNextWaiter s, key)],
    slNextWaiter := Suc (slNextWaiter s)\<rparr>)"
  using assms by (auto simp: queue_ok_def queued_for_def less_Suc_eq)

lemma slot_inv_tryAcquire:
  assumes "slot_inv s" and "tryAcquire s key now = (r, s')"
  shows "slot_inv s'"
proof (cases "slHolder s \<noteq> None \<or> slWaiters s \<noteq> []")
  case True
  with assms show ?thesis by (simp add: tryAcquire_def)
next
  case False
  with assms(1) have "slot_idle s" and q: "queue_ok s"
    by (auto simp: slot_inv_def slot_busy_def)
  with False assms(2) obtain t where t: "grantLocked s key now = (t, s')"
    by (auto simp: tryAcquire_def split: prod.splits)
  from grant_busy [OF \<open>slot_idle s\<close> t] q show ?thesis
    using queue_ok_cong [of s' s] by (auto simp: slot_inv_def)
qed

lemma slot_inv_enter:
  assumes "slot_inv s" and "acquire_enter s key cerr now = (r, s')"
  shows "slot_inv s'"
proof (cases "cerr = None \<and> slHolder s = None \<and> slWaiters s = []")
  case True
  with assms obtain t where "tryAcquire s key now = (Some t, s')"
    by (auto simp: tryAcquire_def acquire_enter_def split: prod.splits)
  with assms(1) show ?thesis by (rule slot_inv_tryAcquire)
next
  case False
  show ?thesis
  proof (cases "s' = s")
    case False
    with assms(2) \<open>\<not> (cerr = None \<and> slHolder s = None \<and> slWaiters s = [])\<close>
    have s': "s' = s\<lparr>slWaiters := slWaiters s @ [(slNextWaiter s, key)],
        slNextWaiter := Suc (slNextWaiter s)\<rparr>"
      and room: "key = [] \<or> queued_for s key < maxQueuedPerKey"
      and busy: "slHolder s \<noteq> None \<or> slWaiters s \<noteq> []"
      by (auto simp: acquire_enter_def not_le split: option.splits if_splits)
    from busy assms(1) obtain t where t: "slot_busy s t" and q: "queue_ok s"
      by (auto simp: slot_inv_def slot_idle_def)
    from t have "slot_busy s' t"
      unfolding s' by (auto simp: slot_busy_def)
    with queue_ok_snoc [OF q room] show ?thesis
      unfolding s' slot_inv_def by blast
  qed (use assms in simp)
qed

lemma slot_inv_receive:
  assumes "slot_inv s" and "wait_receive s w = (r, s')"
  shows "slot_inv s'"
  using assms queue_ok_cong [of s' s]
  by (auto simp: wait_receive_def slot_inv_def slot_idle_def slot_busy_def
      split: option.splits if_splits)

text \<open>A received token is the holder's, and nothing is left in any channel.\<close>

lemma receive_holder:
  assumes "slot_inv s" and "wait_receive s w = (Some t, s')"
  shows "slot_busy s' t \<and> slChan s' = []"
  using assms
  by (auto simp: wait_receive_def slot_inv_def slot_idle_def slot_busy_def
      split: option.splits if_splits)

lemma insert_last: "1 \<le> (n::nat) \<Longrightarrow> insert n {1..<n} = {1..n}"
  by (simp add: atLeastLessThanSuc_atLeastAtMost [symmetric] atLeastLessThanSuc)

lemma unreleased_last:
  assumes "R = {1..n} \<or> R = {1..<n}"
  shows "{i \<in> {1..n}. i \<notin> R} \<subseteq> {n::nat}"
proof
  fix i assume "i \<in> {i \<in> {1..n}. i \<notin> R}"
  then have "1 \<le> i" and "i \<le> n" and "i \<notin> R" by auto
  with assms have "\<not> i < n" by (metis atLeastAtMost_iff atLeastLessThan_iff)
  with \<open>i \<le> n\<close> show "i \<in> {n}" by simp
qed

lemma release_idle:
  assumes "slot_busy s t" and "slChan s = []" and "slWaiters s = []"
  shows "slot_idle (slot_release s (Some t) now) \<and> slWaiters (slot_release s (Some t) now) = []"
proof -
  from assms have "insert (tok_id t) (slReleased s) = {1..slNextID s}"
    using insert_last [of "slNextID s"] by (simp add: slot_busy_def)
  with assms show ?thesis
    by (simp add: slot_release_def Let_def slot_busy_def slot_idle_def)
qed

lemma release_busy:
  assumes "slot_busy s t" and "slChan s = []" and "slWaiters s = (w, k) # rest"
    and "queue_ok s"
  shows "\<exists>t'. slot_busy (slot_release s (Some t) now) t' \<and> tok_key t' = k \<and>
    slWaiters (slot_release s (Some t) now) = rest \<and>
    slChan (slot_release s (Some t) now) = [(w, t')] \<and>
    slNextWaiter (slot_release s (Some t) now) = slNextWaiter s"
  using assms
  by (auto simp: slot_release_def grantLocked_def Let_def slot_busy_def queue_ok_def)

lemma slot_inv_release:
  assumes inv: "slot_inv s" and "1 \<le> tok_id t" and "tok_id t \<le> slNextID s"
    and chan: "tok_id t \<notin> tok_id ` snd ` set (slChan s)"
  shows "slot_inv (slot_release s (Some t) now)"
proof (cases "tok_id t \<in> slReleased s")
  case True
  with inv show ?thesis by (simp add: slot_release_def)
next
  case False
  with inv assms(2,3) obtain h where h: "slot_busy s h" and q: "queue_ok s"
    and same: "tok_id t = tok_id h"
    by (force simp: slot_inv_def slot_idle_def slot_busy_def)
  from same have eq: "slot_release s (Some t) now = slot_release s (Some h) now"
    by (simp add: slot_release_def)
  from chan h same have empty: "slChan s = []"
    by (auto simp: slot_busy_def)
  show ?thesis
  proof (cases "slWaiters s")
    case Nil
    from release_idle [OF h empty Nil, of now] show ?thesis
      unfolding eq by (simp add: slot_inv_def queue_ok_def queued_for_def)
  next
    case (Cons x rest)
    obtain w k where x: "x = (w, k)" by (cases x)
    let ?r = "slot_release s (Some h) now"
    from release_busy [OF h empty Cons [unfolded x] q, of now]
    obtain t' where t': "slot_busy ?r t'" "slWaiters ?r = rest" "slNextWaiter ?r = slNextWaiter s"
      by blast
    then have "queue_ok ?r"
      using queue_ok_tl [OF q Cons] queue_ok_cong [of ?r "s\<lparr>slWaiters := rest\<rparr>"] by simp
    with t'(1) show ?thesis
      unfolding eq slot_inv_def by blast
  qed
qed

lemma slot_inv_abandon:
  assumes "slot_inv s" and "wait_abandon s w e now = (r, s')"
  shows "slot_inv s'"
proof (cases "wait_receive s w")
  case (Pair ot s1)
  show ?thesis
  proof (cases ot)
    case (Some t)
    with Pair assms have s': "s' = slot_release s1 (Some t) now"
      by (simp add: wait_abandon_def)
    from Pair Some have rcv: "wait_receive s w = (Some t, s1)" by simp
    have inv: "slot_inv s1" by (rule slot_inv_receive [OF assms(1) rcv])
    from receive_holder [OF assms(1) rcv] have "slot_busy s1 t" and "slChan s1 = []" by auto
    then show ?thesis
      unfolding s' by (intro slot_inv_release [OF inv]) (auto simp: slot_busy_def)
  next
    case None
    with Pair assms(2) have s': "s' = s\<lparr>slWaiters := filter (\<lambda>x. fst x \<noteq> w) (slWaiters s)\<rparr>"
      by (simp add: wait_abandon_def)
    from assms(1) have "queue_ok s'"
      using queue_ok_filter [of s s' "\<lambda>x. fst x \<noteq> w"] by (simp add: s' slot_inv_def)
    with assms(1) show ?thesis
      unfolding s' by (auto simp: slot_inv_def slot_idle_def slot_busy_def)
  qed
qed

lemma slot_inv_watchdog:
  assumes "slot_inv s"
  shows "slot_inv (watchdog_fire s i)"
  using assms queue_ok_cong [of "watchdog_fire s i" s]
  by (auto simp: watchdog_fire_def Let_def slot_inv_def slot_idle_def slot_busy_def)

lemma slot_step_inv: "slot_step s s' \<Longrightarrow> slot_inv s \<Longrightarrow> slot_inv s'"
  by (induction rule: slot_step.induct)
    (blast intro: slot_inv_tryAcquire slot_inv_enter slot_inv_receive slot_inv_abandon
      slot_inv_release slot_inv_watchdog)+

lemma slot_reachable_inv: "slot_reachable s \<Longrightarrow> slot_inv s"
  by (induction rule: slot_reachable.induct) (auto intro: slot_inv_new slot_step_inv)

subsection \<open>Order of service\<close>

text \<open>What one release does to the queue, whoever calls it.\<close>

lemma release_grant:
  assumes "slot_inv s" and "1 \<le> tok_id t" and "tok_id t \<le> slNextID s"
    and "tok_id t \<notin> tok_id ` snd ` set (slChan s)"
    and "slNextID (slot_release s (Some t) now) \<noteq> slNextID s"
  shows "\<exists>w k rest t'. slWaiters s = (w, k) # rest \<and>
    slWaiters (slot_release s (Some t) now) = rest \<and>
    slChan (slot_release s (Some t) now) = [(w, t')] \<and>
    slHolder (slot_release s (Some t) now) = Some t' \<and> tok_key t' = k"
  using assms
  by (auto simp: slot_inv_def slot_idle_def slot_busy_def slot_release_def grantLocked_def Let_def
      split: if_splits list.splits prod.splits)

lemma abandon_grant:
  assumes "slot_inv s" and "wait_abandon s a e now = (r, s')" and "slNextID s' \<noteq> slNextID s"
  shows "\<exists>w k rest t'. slWaiters s = (w, k) # rest \<and> slWaiters s' = rest \<and>
    slChan s' = [(w, t')] \<and> slHolder s' = Some t' \<and> tok_key t' = k"
proof -
  from assms obtain t s1 where rcv: "wait_receive s a = (Some t, s1)"
    and s': "s' = slot_release s1 (Some t) now"
    by (auto simp: wait_abandon_def split: prod.splits option.splits)
  from rcv have same: "slWaiters s1 = slWaiters s" "slNextID s1 = slNextID s"
    by (auto simp: wait_receive_def split: option.splits)
  have "slot_inv s1" by (rule slot_inv_receive [OF assms(1) rcv])
  moreover from receive_holder [OF assms(1) rcv] have "slot_busy s1 t" and "slChan s1 = []" by auto
  ultimately show ?thesis
    using release_grant [of s1 t now] assms(3) same unfolding s'
    by (auto simp: slot_busy_def)
qed

text \<open>Rounds of service: the holder has its token and releases it.\<close>

definition serve_one :: "time \<Rightarrow> wallet_slot \<Rightarrow> wallet_slot" where
  "serve_one now s = slot_release (s\<lparr>slChan := []\<rparr>) (slHolder s) now"

primrec serve :: "nat \<Rightarrow> time \<Rightarrow> wallet_slot \<Rightarrow> wallet_slot" where
  "serve 0 now s = s"
| "serve (Suc n) now s = serve n now (serve_one now s)"

lemma serve_one_head:
  assumes "slot_inv s" and "slWaiters s = (w, k) # rest"
  shows "slot_inv (serve_one now s) \<and> slWaiters (serve_one now s) = rest \<and>
    (\<exists>t. slChan (serve_one now s) = [(w, t)] \<and> slHolder (serve_one now s) = Some t \<and> tok_key t = k)"
proof -
  let ?s = "s\<lparr>slChan := []\<rparr>"
  from assms obtain h where h: "slot_busy s h" by (auto simp: slot_inv_def)
  then have hs: "slot_busy ?s h" and one: "serve_one now s = slot_release ?s (Some h) now"
    by (auto simp: slot_busy_def serve_one_def)
  from assms(1) have q: "queue_ok ?s" by (simp add: slot_inv_def queue_ok_def queued_for_def)
  from hs q have inv: "slot_inv ?s" by (auto simp: slot_inv_def)
  from release_busy [OF hs _ _ q, of w k rest now] assms(2) show ?thesis
    unfolding one using slot_inv_release [OF inv, of h now] hs
    by (auto simp: slot_busy_def)
qed

lemma serve_nth:
  "slot_inv s \<Longrightarrow> n < length (slWaiters s) \<Longrightarrow> slWaiters s ! n = (w, k) \<Longrightarrow>
   \<exists>t. slChan (serve (Suc n) now s) = [(w, t)] \<and> slHolder (serve (Suc n) now s) = Some t \<and>
     tok_key t = k"
proof (induction n arbitrary: s)
  case 0
  then obtain rest where "slWaiters s = (w, k) # rest" by (cases "slWaiters s") auto
  with serve_one_head [OF 0(1)] show ?case by simp
next
  case (Suc n)
  then obtain v j rest where ws: "slWaiters s = (v, j) # rest" by (cases "slWaiters s") auto
  from serve_one_head [OF Suc.prems(1) ws, of now] have "slot_inv (serve_one now s)"
    and "slWaiters (serve_one now s) = rest" by auto
  with Suc.IH [of "serve_one now s"] Suc.prems(2,3) ws show ?case by simp
qed

subsection \<open>The interface the pool relies on\<close>

text \<open>
  What a client of the slot uses: a non-blocking take, a drop, and \<open>owns s t\<close>, which says that
  the caller has received \<open>t\<close> and it is the current hold. Inside such a bracket nobody else can
  take the slot, and after it the token is spent.
\<close>

locale exclusive_slot =
  fixes inv :: "'s \<Rightarrow> bool"
    and owns :: "'s \<Rightarrow> 't \<Rightarrow> bool"
    and ident :: "'t \<Rightarrow> nat"
    and take_slot :: "'s \<Rightarrow> string \<Rightarrow> time \<Rightarrow> 't option \<times> 's"
    and drop_slot :: "'s \<Rightarrow> 't \<Rightarrow> time \<Rightarrow> 's"
  assumes take_inv: "inv s \<Longrightarrow> take_slot s k now = (r, s') \<Longrightarrow> inv s'"
    and take_owns: "inv s \<Longrightarrow> take_slot s k now = (Some t, s') \<Longrightarrow> owns s' t"
    and take_none: "take_slot s k now = (None, s') \<Longrightarrow> s' = s"
    and take_busy: "inv s \<Longrightarrow> owns s u \<Longrightarrow> take_slot s k now = (None, s)"
    and owns_unique: "owns s t \<Longrightarrow> owns s u \<Longrightarrow> ident t = ident u"
    and drop_inv: "inv s \<Longrightarrow> owns s t \<Longrightarrow> inv (drop_slot s t now)"
    and drop_spent: "inv s \<Longrightarrow> owns s t \<Longrightarrow> ident u = ident t \<Longrightarrow> \<not> owns (drop_slot s t now) u"
begin

text \<open>A bracket: take, and drop when taken.\<close>

lemma bracket_inv:
  "inv s \<Longrightarrow> take_slot s k now = (Some t, s') \<Longrightarrow> inv (drop_slot s' t later)"
  by (blast intro: take_inv take_owns drop_inv)

lemma bracket_excludes:
  assumes "inv s" and "take_slot s k now = (Some t, s')"
  shows "take_slot s' k' now' = (None, s')"
  using assms by (blast intro: take_busy take_inv take_owns)

lemma bracket_spent:
  assumes "inv s" and "take_slot s k now = (Some t, s')"
  shows "\<not> owns (drop_slot s' t later) t"
  by (rule drop_spent [OF take_inv [OF assms] take_owns [OF assms] refl])

lemma taken_while_free: "inv s \<Longrightarrow> take_slot s k now = (Some t, s') \<Longrightarrow> \<not> owns s u"
  using take_busy by fastforce

end

definition slot_owns :: "wallet_slot \<Rightarrow> slot_token \<Rightarrow> bool" where
  "slot_owns s t \<longleftrightarrow> slot_holds s (Some t) \<and> slChan s = []"

lemma busy_owns: "slot_busy s t \<Longrightarrow> slChan s = [] \<Longrightarrow> slot_owns s t"
  by (auto simp: slot_owns_def slot_holds_def slot_busy_def)

lemma owns_busy:
  "slot_inv s \<Longrightarrow> slot_owns s t \<Longrightarrow> \<exists>h. slot_busy s h \<and> tok_id h = tok_id t"
  by (auto simp: slot_owns_def slot_holds_def slot_inv_def slot_idle_def slot_busy_def)

lemma release_not_owned:
  assumes "slot_inv s" and "slot_owns s t" and "tok_id u = tok_id t"
  shows "\<not> slot_owns (slot_release s (Some t) now) u"
  using assms
  by (auto simp: slot_owns_def slot_holds_def slot_release_def grantLocked_def Let_def
      split: list.splits prod.splits)

interpretation slot: exclusive_slot slot_inv slot_owns tok_id tryAcquire
  "\<lambda>s t now. slot_release s (Some t) now"
proof (unfold_locales, goal_cases)
  case (1 s k now r s')
  then show ?case by (rule slot_inv_tryAcquire)
next
  case (2 s k now t s')
  then have "slot_idle s" and g: "grantLocked s k now = (t, s')"
    by (auto simp: tryAcquire_def slot_inv_def slot_busy_def split: if_splits prod.splits)
  with grant_busy [OF this] show ?case by (blast intro: busy_owns)
next
  case (3 s k now s')
  then show ?case by (auto simp: tryAcquire_def split: if_splits prod.splits)
next
  case (4 s u k now)
  then show ?case by (auto simp: tryAcquire_def slot_owns_def slot_holds_def)
next
  case (5 s t u)
  then show ?case by (auto simp: slot_owns_def slot_holds_def)
next
  case (6 s t now)
  then show ?case
    using owns_busy [of s t]
    by (intro slot_inv_release) (auto simp: slot_busy_def slot_owns_def)
next
  case (7 s t u now)
  then show ?case by (intro release_not_owned)
qed

subsection \<open>Properties\<close>

text \<open>
  C1: in every reachable state of the slot, under any interleaving of its critical sections, at
  most one issued token is unreleased (so the counter \<open>maxHeld\<close> the tests watch never passes 1),
  the slot is never idle while somebody waits, and no API key queues more than
  \<open>maxQueuedPerKey\<close> opens.
\<close>

theorem slot_mutual_exclusion:
  assumes "slot_reachable s"
  shows "card {i \<in> {1..slNextID s}. i \<notin> slReleased s} \<le> 1 \<and> slMaxHeld s \<le> 1 \<and>
    (slHolder s = None \<longrightarrow> slWaiters s = []) \<and>
    (\<forall>key. key \<noteq> [] \<longrightarrow> queued_for s key \<le> maxQueuedPerKey)"
proof -
  have inv: "slot_inv s" by (rule slot_reachable_inv [OF assms])
  then have "slReleased s = {1..slNextID s} \<or> slReleased s = {1..<slNextID s}"
    unfolding slot_inv_def slot_idle_def slot_busy_def by blast
  then have "{i \<in> {1..slNextID s}. i \<notin> slReleased s} \<subseteq> {slNextID s}"
    by (rule unreleased_last)
  then have "card {i \<in> {1..slNextID s}. i \<notin> slReleased s} \<le> 1"
    using card_mono [of "{slNextID s}"] by fastforce
  moreover have "slMaxHeld s \<le> 1 \<and> (slHolder s = None \<longrightarrow> slWaiters s = [])"
    using inv unfolding slot_inv_def slot_idle_def slot_busy_def by (elim conjE disjE exE) simp_all
  moreover have "\<forall>key. key \<noteq> [] \<longrightarrow> queued_for s key \<le> maxQueuedPerKey"
    using inv unfolding slot_inv_def queue_ok_def by blast
  ultimately show ?thesis by blast
qed

text \<open>Two opens of key \<open>k\<close> and one of key \<open>j\<close>: the second waits, as does the third.\<close>

definition slot_example :: wallet_slot where
  "slot_example =
     snd (acquire_enter (snd (acquire_enter (snd (acquire_enter new_slot ''k'' None 0))
       ''k'' None 1)) ''j'' None 2)"

lemma slot_example_reachable: "slot_reachable slot_example"
  unfolding slot_example_def
  by (intro reach_step [OF _ st_enter [OF prod.collapse [symmetric]]] reach_new)

lemmas slot_example_simps = slot_example_def acquire_enter_def grantLocked_def Let_def new_slot_def
  queued_for_def maxQueuedPerKey_def

lemma slot_mutual_exclusion_witness:
  "slHolder slot_example \<noteq> None \<and> length (slWaiters slot_example) = 2 \<and> slMaxHeld slot_example \<le> 1 \<and>
   card {i \<in> {1..slNextID slot_example}. i \<notin> slReleased slot_example} \<le> 1"
  using slot_mutual_exclusion [OF slot_example_reachable] by (simp add: slot_example_simps)

text \<open>
  C2: no barging. Whenever a step of a reachable slot issues a token, either nobody was queued,
  or the token goes to the head of the queue (through its channel, under its key), and the rest
  of the queue keeps its order.
\<close>

theorem slot_no_barging:
  assumes "slot_reachable s" and "slot_step s s'" and "slNextID s' \<noteq> slNextID s"
  shows "slWaiters s = [] \<and> slWaiters s' = [] \<or>
    (\<exists>w k rest t. slWaiters s = (w, k) # rest \<and> slWaiters s' = rest \<and>
       slChan s' = [(w, t)] \<and> slHolder s' = Some t \<and> tok_key t = k)"
  using assms(2) slot_reachable_inv [OF assms(1)] assms(3)
proof (cases rule: slot_step.cases)
  case (st_abandon w e now r)
  with abandon_grant [OF slot_reachable_inv [OF assms(1)] st_abandon assms(3)]
  show ?thesis by blast
next
  case (st_release t now)
  with release_grant [OF slot_reachable_inv [OF assms(1)] st_release(1-3), of now] assms(3)
  show ?thesis by blast
qed (auto simp: slot_defs split: if_splits option.splits prod.splits)

lemma slot_no_barging_witness:
  "\<exists>s s' w t. slot_reachable s \<and> slot_step s s' \<and> slChan s' = [(w, t)] \<and> tok_key t = ''k'' \<and>
     slNextID s' \<noteq> slNextID s"
proof -
  let ?t = "the (slHolder slot_example)" and ?s = slot_example
  let ?s' = "slot_release ?s (Some ?t) 5"
  have step: "slot_step ?s ?s'"
    by (rule st_release [OF _ _ _ refl]) (simp_all add: slot_example_simps)
  moreover have next': "slNextID ?s' \<noteq> slNextID ?s"
    by (simp add: slot_example_simps slot_release_def)
  moreover from slot_no_barging [OF slot_example_reachable step next']
  have "\<exists>w t. slChan ?s' = [(w, t)] \<and> tok_key t = ''k''"
    by (simp add: slot_example_simps slot_release_def)
  ultimately show ?thesis using slot_example_reachable by blast
qed

text \<open>
  The hand-over makes progress. In a reachable slot, if every holder eventually releases,
  the waiter at position \<open>n\<close> of the queue holds the slot after \<open>n + 1\<close> releases.
\<close>

theorem slot_handoff:
  assumes "slot_reachable s" and "n < length (slWaiters s)" and "slWaiters s ! n = (w, k)"
  shows "\<exists>t. slChan (serve (Suc n) now s) = [(w, t)] \<and>
    slHolder (serve (Suc n) now s) = Some t \<and> tok_key t = k"
  by (rule serve_nth [OF slot_reachable_inv [OF assms(1)] assms(2,3)])

lemma slot_handoff_witness:
  "\<exists>t. slHolder (serve 2 9 slot_example) = Some t \<and> tok_key t = ''j''"
proof -
  have "1 < length (slWaiters slot_example)" and "slWaiters slot_example ! 1 = (1, ''j'')"
    by (simp_all add: slot_example_simps)
  from slot_handoff [OF slot_example_reachable this, of 9] show ?thesis
    by (auto simp: numeral_2_eq_2)
qed

end
