(* ===== verification/Json.thy ===== *)
theory Json
  imports Prelude
begin

section \<open>JSON documents, as \<open>encoding/json\<close> reads them\<close>

text \<open>
  The part of Go's \<open>encoding/json\<close> the program uses: decoding a text into a value, and reading
  struct fields out of an object. The lexer and the parser are state machines that consume one
  character (token) per step, so both are total. Numbers keep their literal text, as
  \<open>json.RawMessage\<close> and \<open>json.Number\<close> do. Not modelled: the replacement of invalid UTF-8 by
  U+FFFD and the nesting limit of 10000.
\<close>

datatype json =
    JNull
  | JBool bool
  | JNum string
  | JStr string
  | JArr "json list"
  | JObj "(string \<times> json) list"

subsection \<open>Lexer\<close>

datatype jtoken = TPunct char | TStr string | TNum string | TLit string

definition is_digit :: "char \<Rightarrow> bool" where
  "is_digit c \<longleftrightarrow> 48 \<le> (of_char c :: nat) \<and> (of_char c :: nat) \<le> 57"

definition digit_val :: "char \<Rightarrow> nat" where
  "digit_val c = of_char c - 48"

definition is_alpha_lower :: "char \<Rightarrow> bool" where
  "is_alpha_lower c \<longleftrightarrow> 97 \<le> (of_char c :: nat) \<and> (of_char c :: nat) \<le> 122"

definition hex_val :: "char \<Rightarrow> nat option" where
  "hex_val c = (let n = (of_char c :: nat) in
     if 48 \<le> n \<and> n \<le> 57 then Some (n - 48)
     else if 97 \<le> n \<and> n \<le> 102 then Some (n - 87)
     else if 65 \<le> n \<and> n \<le> 70 then Some (n - 55) else None)"

text \<open>UTF-8 bytes of a code point.\<close>

definition utf8 :: "nat \<Rightarrow> string" where
  "utf8 n = (if n < 128 then [char_of n]
     else if n < 2048 then [char_of (192 + n div 64), char_of (128 + n mod 64)]
     else if n < 65536 then [char_of (224 + n div 4096), char_of (128 + n div 64 mod 64),
       char_of (128 + n mod 64)]
     else [char_of (240 + n div 262144), char_of (128 + n div 4096 mod 64),
       char_of (128 + n div 64 mod 64), char_of (128 + n mod 64)])"

text \<open>
  Lexer states: between tokens, inside a string (what was read so far and a pending high
  surrogate), after a backslash, inside \<open>\\uXXXX\<close> (digits read), inside a number or a literal.
\<close>

datatype lexer_state =
    LTop
  | LStr string "nat option"
  | LEsc string "nat option"
  | LHex string "nat option" nat nat
  | LNum string
  | LLit string

definition repl_char :: string where "repl_char = utf8 65533"

text \<open>A pending high surrogate not followed by a low one becomes U+FFFD.\<close>

definition flush :: "string \<Rightarrow> nat option \<Rightarrow> string" where
  "flush acc hi = (case hi of None \<Rightarrow> acc | Some _ \<Rightarrow> acc @ repl_char)"

definition add_code :: "string \<Rightarrow> nat option \<Rightarrow> nat \<Rightarrow> lexer_state" where
  "add_code acc hi n =
     (case hi of
        Some h \<Rightarrow>
          if 56320 \<le> n \<and> n \<le> 57343
          then LStr (acc @ utf8 (65536 + (h - 55296) * 1024 + (n - 56320))) None
          else if 55296 \<le> n \<and> n \<le> 56319 then LStr (acc @ repl_char) (Some n)
          else LStr (acc @ repl_char @ utf8 n) None
      | None \<Rightarrow>
          if 55296 \<le> n \<and> n \<le> 56319 then LStr acc (Some n)
          else if 56320 \<le> n \<and> n \<le> 57343 then LStr (acc @ repl_char) None
          else LStr (acc @ utf8 n) None)"

definition lex_top :: "char \<Rightarrow> (jtoken list \<times> lexer_state) option" where
  "lex_top c =
     (if c \<in> set [CHR '' '', CHR 0x09, CHR 0x0A, CHR 0x0D] then Some ([], LTop)
      else if c \<in> set ''{}[],:'' then Some ([TPunct c], LTop)
      else if c = CHR 0x22 then Some ([], LStr [] None)
      else if is_digit c \<or> c = CHR ''-'' then Some ([], LNum [c])
      else if is_alpha_lower c then Some ([], LLit [c])
      else None)"

definition escape_char :: "char \<Rightarrow> char option" where
  "escape_char c = map_of [(CHR 0x22, CHR 0x22), (CHR 0x5C, CHR 0x5C), (CHR ''/'', CHR ''/''),
     (CHR ''b'', CHR 0x08), (CHR ''f'', CHR 0x0C), (CHR ''n'', CHR 0x0A), (CHR ''r'', CHR 0x0D),
     (CHR ''t'', CHR 0x09)] c"

definition then_top :: "jtoken \<Rightarrow> char \<Rightarrow> (jtoken list \<times> lexer_state) option" where
  "then_top t c = (case lex_top c of None \<Rightarrow> None | Some (ts, st) \<Rightarrow> Some (t # ts, st))"

fun lex_step :: "lexer_state \<Rightarrow> char \<Rightarrow> (jtoken list \<times> lexer_state) option" where
  "lex_step LTop c = lex_top c"
| "lex_step (LStr acc hi) c =
     (if c = CHR 0x22 then Some ([TStr (flush acc hi)], LTop)
      else if c = CHR 0x5C then Some ([], LEsc acc hi)
      else if (of_char c :: nat) < 32 then None
      else Some ([], LStr (flush acc hi @ [c]) None))"
| "lex_step (LEsc acc hi) c =
     (if c = CHR ''u'' then Some ([], LHex acc hi 0 0)
      else case escape_char c of None \<Rightarrow> None
           | Some d \<Rightarrow> Some ([], LStr (flush acc hi @ [d]) None))"
| "lex_step (LHex acc hi k n) c =
     (case hex_val c of None \<Rightarrow> None
      | Some d \<Rightarrow> Some ([], if k = 3 then add_code acc hi (16 * n + d)
                            else LHex acc hi (Suc k) (16 * n + d)))"
| "lex_step (LNum acc) c =
     (if is_digit c \<or> c \<in> set ''+-.eE'' then Some ([], LNum (acc @ [c])) else then_top (TNum acc) c)"
| "lex_step (LLit acc) c =
     (if is_alpha_lower c then Some ([], LLit (acc @ [c])) else then_top (TLit acc) c)"

fun lex_end :: "lexer_state \<Rightarrow> jtoken list option" where
  "lex_end LTop = Some []"
| "lex_end (LNum acc) = Some [TNum acc]"
| "lex_end (LLit acc) = Some [TLit acc]"
| "lex_end _ = None"

fun lex :: "lexer_state \<Rightarrow> string \<Rightarrow> jtoken list option" where
  "lex st [] = lex_end st"
| "lex st (c # cs) =
     (case lex_step st c of None \<Rightarrow> None
      | Some (ts, st') \<Rightarrow> map_option ((@) ts) (lex st' cs))"

subsection \<open>Numbers\<close>

definition all_digits :: "string \<Rightarrow> bool" where
  "all_digits s \<longleftrightarrow> s \<noteq> [] \<and> list_all is_digit s"

definition exp_ok :: "string \<Rightarrow> bool" where
  "exp_ok s = (case s of [] \<Rightarrow> True
     | c # r \<Rightarrow> c \<in> set ''eE'' \<and>
         (case r of [] \<Rightarrow> False
          | d # q \<Rightarrow> if d \<in> set ''+-'' then all_digits q else all_digits r))"

definition frac_ok :: "string \<Rightarrow> bool" where
  "frac_ok s = (case s of [] \<Rightarrow> True
     | c # r \<Rightarrow> if c = CHR ''.''
         then takeWhile is_digit r \<noteq> [] \<and> exp_ok (dropWhile is_digit r)
         else exp_ok s)"

definition unsigned_ok :: "string \<Rightarrow> bool" where
  "unsigned_ok s = (case s of [] \<Rightarrow> False
     | c # r \<Rightarrow> if c = CHR ''0'' then frac_ok r
         else is_digit c \<and> frac_ok (dropWhile is_digit r))"

definition number_ok :: "string \<Rightarrow> bool" where
  "number_ok s = (case s of [] \<Rightarrow> False
     | c # r \<Rightarrow> if c = CHR ''-'' then unsigned_ok r else unsigned_ok s)"

subsection \<open>Parser\<close>

datatype frame = FArr "json list" | FObj "(string \<times> json) list" string

datatype parser_state =
    PVal
  | PValOrClose
  | PKey "(string \<times> json) list" bool   \<comment> \<open>members so far; whether \<open>}\<close> may follow\<close>
  | PColon "(string \<times> json) list" string
  | PDone json

fun scalar :: "jtoken \<Rightarrow> json option" where
  "scalar (TStr s) = Some (JStr s)"
| "scalar (TNum s) = (if number_ok s then Some (JNum s) else None)"
| "scalar (TLit s) = (if s = ''null'' then Some JNull else if s = ''true'' then Some (JBool True)
     else if s = ''false'' then Some (JBool False) else None)"
| "scalar (TPunct c) = None"

definition parse_value :: "frame list \<Rightarrow> jtoken \<Rightarrow> (parser_state \<times> frame list) option" where
  "parse_value fs t =
     (if t = TPunct (CHR ''['') then Some (PValOrClose, FArr [] # fs)
      else if t = TPunct (CHR ''{'') then Some (PKey [] True, fs)
      else map_option (\<lambda>v. (PDone v, fs)) (scalar t))"

fun parse_step :: "parser_state \<Rightarrow> frame list \<Rightarrow> jtoken \<Rightarrow> (parser_state \<times> frame list) option" where
  "parse_step PVal fs t = parse_value fs t"
| "parse_step PValOrClose fs t =
     (case fs of
        FArr vs # gs \<Rightarrow> if t = TPunct (CHR '']'') then Some (PDone (JArr vs), gs) else parse_value fs t
      | _ \<Rightarrow> None)"
| "parse_step (PKey kvs close) fs t =
     (case t of
        TStr k \<Rightarrow> Some (PColon kvs k, fs)
      | _ \<Rightarrow> if close \<and> t = TPunct (CHR ''}'') then Some (PDone (JObj kvs), fs) else None)"
| "parse_step (PColon kvs k) fs t =
     (if t = TPunct (CHR '':'') then Some (PVal, FObj kvs k # fs) else None)"
| "parse_step (PDone v) fs t =
     (case fs of
        FArr vs # gs \<Rightarrow>
          if t = TPunct (CHR '','') then Some (PVal, FArr (vs @ [v]) # gs)
          else if t = TPunct (CHR '']'') then Some (PDone (JArr (vs @ [v])), gs) else None
      | FObj kvs k # gs \<Rightarrow>
          if t = TPunct (CHR '','') then Some (PKey (kvs @ [(k, v)]) False, gs)
          else if t = TPunct (CHR ''}'') then Some (PDone (JObj (kvs @ [(k, v)])), gs) else None
      | [] \<Rightarrow> None)"

fun parse_run :: "parser_state \<Rightarrow> frame list \<Rightarrow> jtoken list \<Rightarrow> json option" where
  "parse_run (PDone v) [] [] = Some v"
| "parse_run _ _ [] = None"
| "parse_run st fs (t # ts) =
     (case parse_step st fs t of None \<Rightarrow> None | Some (st', fs') \<Rightarrow> parse_run st' fs' ts)"

text \<open>\<open>json.Unmarshal\<close>'s syntax check and value: \<open>None\<close> is a syntax error.\<close>

definition json_parse :: "string \<Rightarrow> json option" where
  "json_parse s = (case lex LTop s of None \<Rightarrow> None | Some ts \<Rightarrow> parse_run PVal [] ts)"

lemma json_parse_example:
  "json_parse (''{'' @ [CHR 0x22] @ ''a'' @ [CHR 0x22] @ '': [1, -2.5e3, null]}'') =
     Some (JObj [(''a'', JArr [JNum ''1'', JNum ''-2.5e3'', JNull])])"
  by code_simp

subsection \<open>Struct fields\<close>

text \<open>
  A struct field takes every member whose key matches its name, exactly or ignoring case, in
  order; the last one wins. A field of type \<open>json.RawMessage\<close> holds the member as it is
  (\<open>None\<close>: absent). A field of type \<open>string\<close> is left alone by \<open>null\<close>; any other value that is
  not a string makes \<open>Unmarshal\<close> return an error, with the remaining fields still decoded.
\<close>

definition raw_field :: "string \<Rightarrow> (string \<times> json) list \<Rightarrow> json option" where
  "raw_field name kvs = (case rev (filter (\<lambda>(k, v). equal_fold k name) kvs) of
     [] \<Rightarrow> None | (k, v) # _ \<Rightarrow> Some v)"

definition members :: "string \<Rightarrow> (string \<times> json) list \<Rightarrow> json list" where
  "members name kvs = map snd (filter (\<lambda>(k, v). equal_fold k name) kvs)"

fun str_members :: "json list \<Rightarrow> bool \<times> string \<Rightarrow> bool \<times> string" where
  "str_members [] r = r"
| "str_members (JNull # vs) r = str_members vs r"
| "str_members (JStr s # vs) (ok, _) = str_members vs (ok, s)"
| "str_members (_ # vs) (_, s) = str_members vs (False, s)"

definition str_field :: "string \<Rightarrow> (string \<times> json) list \<Rightarrow> bool \<times> string" where
  "str_field name kvs =
     str_members (map snd (filter (\<lambda>(k, v). equal_fold k name) kvs)) (True, [])"

text \<open>
  Decoding into a struct: an object gives its members, \<open>null\<close> is a no-op (no member), anything
  else is a type error.
\<close>

fun as_object :: "json \<Rightarrow> (string \<times> json) list option" where
  "as_object (JObj kvs) = Some kvs"
| "as_object JNull = Some []"
| "as_object _ = None"

text \<open>Decimal integers: \<open>strconv.ParseInt(s, 10, 64)\<close> and \<open>big.Int.SetString(s, 10)\<close>.\<close>

definition digits_val :: "string \<Rightarrow> int" where
  "digits_val s = foldl (\<lambda>n c. 10 * n + int (digit_val c)) 0 s"

definition parse_decimal :: "string \<Rightarrow> int option" where
  "parse_decimal s = (case s of [] \<Rightarrow> None
     | c # r \<Rightarrow>
         if c = CHR ''-'' then (if all_digits r then Some (- digits_val r) else None)
         else if c = CHR ''+'' then (if all_digits r then Some (digits_val r) else None)
         else if all_digits s then Some (digits_val s) else None)"

definition parse_int64 :: "string \<Rightarrow> int option" where
  "parse_int64 s = (case parse_decimal s of None \<Rightarrow> None
     | Some n \<Rightarrow> if - (2 ^ 63) \<le> n \<and> n < 2 ^ 63 then Some n else None)"

text \<open>
  A field of type \<open>int64\<close> (or \<open>int\<close>, 64 bits wide): \<open>null\<close> is a no-op, a number that is an integer of 64
  bits is stored, anything else is an error.
\<close>

fun int_members :: "json list \<Rightarrow> bool \<times> int \<Rightarrow> bool \<times> int" where
  "int_members [] r = r"
| "int_members (JNull # vs) r = int_members vs r"
| "int_members (JNum t # vs) (ok, n) =
     (case parse_int64 t of None \<Rightarrow> int_members vs (False, n) | Some k \<Rightarrow> int_members vs (ok, k))"
| "int_members (_ # vs) (_, n) = int_members vs (False, n)"

definition int_field :: "string \<Rightarrow> (string \<times> json) list \<Rightarrow> int \<Rightarrow> bool \<times> int" where
  "int_field name kvs n = int_members (members name kvs) (True, n)"

end
