(* ===== verification/Transient.thy ===== *)
theory Transient
  imports Wallet_Slot Json
begin

section \<open>What a failed router call says (\<open>internal/pool/transient.go\<close>)\<close>

text \<open>
  The classification of an error of the router's open-by-bid call decides whether the pool may
  send another open: only an error that proves that no transaction was broadcast lets it. The
  theory models the text tables, \<open>classifyOpenErr\<close>, \<open>isTransientRead\<close>, \<open>chainWaitReason\<close> and
  the backoff and Retry-After arithmetic.

  Go's error values are the datatype \<open>rerr\<close>: the cases the program tells apart with \<open>errors.As\<close>
  and \<open>errors.Is\<close>.
\<close>

subsection \<open>Errors of a router call\<close>

datatype rerr =
    StatusErr int string          \<comment> \<open>\<open>*router.StatusError\<close>: status code and body\<close>
  | UrlErr                        \<comment> \<open>\<open>*url.Error\<close> or \<open>net.Error\<close>: no answer from the router\<close>
  | CtxEnded ctx_err              \<comment> \<open>\<open>context.DeadlineExceeded\<close>, \<open>context.Canceled\<close>\<close>
  | ExistingSession string        \<comment> \<open>\<open>*router.ExistingSessionError\<close>: the session it names\<close>
  | RatedIncomplete               \<comment> \<open>\<open>router.ErrRatedBidsIncomplete\<close>\<close>
  | OtherErr string               \<comment> \<open>anything else, e.g. an unreadable 200 answer\<close>

definition transientBase :: dur where "transientBase = 500 * millisecond"
definition transientCap :: dur where "transientCap = 4 * second"
definition transientMaxRetries :: nat where "transientMaxRetries = 4"
definition transientBudget :: dur where "transientBudget = 15 * second"
definition reconcilePolls :: nat where "reconcilePolls = 3"
definition reconcileGap :: dur where "reconcileGap = 2 * second"
definition attemptSkew :: dur where "attemptSkew = 30 * second"
definition attemptKeep :: dur where "attemptKeep = 13 * minute"
definition stuckKeep :: dur where "stuckKeep = hour"
definition chainWaitRetryAfter :: dur where "chainWaitRetryAfter = 30 * second"
definition chainWaitShowFor :: dur where "chainWaitShowFor = 5 * minute"
definition routerCloseMaxLife :: dur where "routerCloseMaxLife = 10 * minute"
definition maxPendingAttempts :: nat where "maxPendingAttempts = 32"
definition maxWindowRetries :: nat where "maxWindowRetries = 1"
definition preSendProofWindow :: dur where "preSendProofWindow = 18 * second"
definition orphanScanEvery :: dur where "orphanScanEvery = 2 * minute"
definition foreignAdoptWarn :: nat where "foreignAdoptWarn = 3"
definition sweepMaxSkips :: nat where "sweepMaxSkips = 3"
definition orphanAlertAge :: dur where "orphanAlertAge = 10 * minute"
definition orphanAlertCount :: nat where "orphanAlertCount = 3"

datatype open_class = MaybeSent | ProviderFault | TransientPreSend | TransientWindow | WalletFunds

fun open_class_string :: "open_class \<Rightarrow> string" where
  "open_class_string ProviderFault = ''provider_fault''"
| "open_class_string TransientPreSend = ''transient_presend''"
| "open_class_string TransientWindow = ''transient_window''"
| "open_class_string WalletFunds = ''wallet_funds''"
| "open_class_string MaybeSent = ''maybe_sent''"

subsection \<open>The router's texts\<close>

definition providerStageTexts :: "string list" where
  "providerStageTexts =
    [''provider healthcheck ping failed'',
     ''provider request failed'',
     ''failed to connect to provider'',
     ''provider self-reports model'',
     ''failed to initiate session'',
     ''tee attestation failed'',
     ''cannot open session with own bid'']"

definition preSendPrefixes :: "string list" where
  "preSendPrefixes =
    [''failed to parse token supply: '',
     ''failed to parse token budget: '',
     ''failed to get bid: '',
     ''failed to get my address: '',
     ''failed to get provider: '',
     ''failed to get current mor allowance: '',
     ''failed to send transaction: approve mor allowance failed: '',
     ''get wallet address for existing-session check: '',
     ''read bid for existing-session check: '',
     ''check existing live sessions: '']"

definition windowPrefixes :: "string list" where
  "windowPrefixes =
    [''failed to get transactopts: '',
     ''failed to send transaction: open session failed: failed to get initial gas prices: '',
     ''failed to send transaction: open session failed: failed to get nonce: '',
     ''failed to send transaction: open session failed: failed to build transaction: '']"

definition openStagePrefix :: string where
  "openStagePrefix = ''failed to send transaction: open session failed: ''"

definition fundingMarkers :: "string list" where
  "fundingMarkers =
    [''insufficient eth for gas'',
     ''insufficient mor balance'',
     ''insufficient funds for gas'',
     ''insufficient funds for intrinsic transaction cost'',
     ''transfer amount exceeds balance'',
     ''insufficient allowance'']"

definition rateLimitMarkers :: "string list" where
  "rateLimitMarkers =
    [''too many requests'', ''rate limit'', ''usage limit'', ''quota exceeded'',
     ''request limit'', ''daily limit'', ''monthly limit'', ''compute units per second'']"

definition readPrefixes :: "string list" where
  "readPrefixes = [''failed to call contract'']"

text \<open>\<open>\\b429\\b\<close>: the token 429 with no word character on either side.\<close>

definition is_word_char :: "char \<Rightarrow> bool" where
  "is_word_char c \<longleftrightarrow> is_digit c \<or> is_alpha_lower c \<or> c = CHR ''_'' \<or>
     (65 \<le> (of_char c :: nat) \<and> (of_char c :: nat) \<le> 90)"

fun rateLimit429_from :: "bool \<Rightarrow> string \<Rightarrow> bool" where
  "rateLimit429_from boundary [] = False"
| "rateLimit429_from boundary (c # cs) =
     ((boundary \<and> has_prefix (c # cs) ''429'' \<and>
       (case drop 2 cs of [] \<Rightarrow> True | d # _ \<Rightarrow> \<not> is_word_char d)) \<or>
      rateLimit429_from (\<not> is_word_char c) cs)"

definition rateLimit429 :: "string \<Rightarrow> bool" where
  "rateLimit429 s = rateLimit429_from True s"

definition hasFundingMarker :: "string \<Rightarrow> bool" where
  "hasFundingMarker text = list_ex (contains text) fundingMarkers"

definition hasRateLimitMarker :: "string \<Rightarrow> bool" where
  "hasRateLimitMarker rest =
     (if contains rest ''revert'' then False
      else if rateLimit429 rest then True
      else list_ex (contains rest) rateLimitMarkers)"

definition routerErrorText :: "string \<Rightarrow> string" where
  "routerErrorText body0 =
     (let body = trim body0;
          body = (case json_parse body of
                    None \<Rightarrow> body
                  | Some j \<Rightarrow>
                      (case as_object j of
                         None \<Rightarrow> body
                       | Some kvs \<Rightarrow>
                           (case str_field ''error'' kvs of
                              (ok, e) \<Rightarrow> if ok \<and> e \<noteq> [] then e else body)))
      in to_lower (trim body))"

subsection \<open>Classification\<close>

fun isTransportErr :: "rerr \<Rightarrow> bool" where
  "isTransportErr (StatusErr code body) = (code = 502 \<or> code = 503 \<or> code = 504)"
| "isTransportErr UrlErr = True"
| "isTransportErr (CtxEnded e) = True"
| "isTransportErr _ = False"

text \<open>The first prefix of a table that starts the text, with what follows it.\<close>

fun first_prefix :: "string list \<Rightarrow> string \<Rightarrow> string option" where
  "first_prefix [] text = None"
| "first_prefix (p # ps) text =
     (if has_prefix text p then Some (drop (length p) text) else first_prefix ps text)"

definition classify_text :: "string \<Rightarrow> dur \<Rightarrow> bool \<Rightarrow> open_class" where
  "classify_text text elapsed windowOK =
     (if list_ex (contains text) providerStageTexts then ProviderFault
      else case first_prefix preSendPrefixes text of
        Some rest \<Rightarrow> if hasFundingMarker rest then WalletFunds else TransientPreSend
      | None \<Rightarrow>
          (let window = list_ex (has_prefix text) windowPrefixes;
               funds = has_prefix text openStagePrefix \<and>
                       hasFundingMarker (drop (length openStagePrefix) text)
           in if \<not> window \<and> \<not> funds then MaybeSent
              else if \<not> windowOK \<or> elapsed \<ge> preSendProofWindow then MaybeSent
              else if funds then WalletFunds
              else TransientWindow))"

definition classifyOpenErr :: "rerr option \<Rightarrow> dur \<Rightarrow> bool \<Rightarrow> open_class" where
  "classifyOpenErr err elapsed windowOK =
     (case err of
        None \<Rightarrow> MaybeSent
      | Some e \<Rightarrow>
          if isTransportErr e then MaybeSent
          else (case e of
                  StatusErr code body \<Rightarrow> classify_text (routerErrorText body) elapsed windowOK
                | _ \<Rightarrow> MaybeSent))"

definition isTransientRead :: "rerr option \<Rightarrow> bool" where
  "isTransientRead err =
     (case err of
        None \<Rightarrow> False
      | Some e \<Rightarrow>
          if isTransportErr e then True
          else (case e of
                  StatusErr code body \<Rightarrow>
                    if code = 429 then True
                    else let text = routerErrorText body
                         in (case first_prefix readPrefixes text of
                               Some rest \<Rightarrow> hasRateLimitMarker rest
                             | None \<Rightarrow> has_prefix text ''429 '' \<or> has_prefix text ''too many requests'')
                | _ \<Rightarrow> False))"

subsection \<open>Backoff and refusals\<close>

text \<open>The loop doubles while the delay is below the cap.\<close>

fun backoff_loop :: "nat \<Rightarrow> dur \<Rightarrow> dur" where
  "backoff_loop 0 d = d"
| "backoff_loop (Suc n) d = (if d < transientCap then backoff_loop n (d * 2) else d)"

definition backoffStep :: "nat \<Rightarrow> dur" where
  "backoffStep n = (let d = backoff_loop n transientBase
                    in if d > transientCap then transientCap else d)"

text \<open>\<open>rnd m\<close> stands for \<open>rand.Int64N(m)\<close>, a number in \<open>[0, m)\<close>.\<close>

definition jittered :: "(int \<Rightarrow> int) \<Rightarrow> dur \<Rightarrow> dur" where
  "jittered rnd d = (let half = go_div d 2 in if half \<le> 0 then d else half + rnd half)"

datatype reason =
    NoReason | RouterTransient | OpenBusy | ChainCongested | WalletTxPending | StakeInputsUnreadable

definition chainWaitTexts :: "(string \<times> reason) list" where
  "chainWaitTexts =
    [(''replacement transaction underpriced'', WalletTxPending),
     (''transaction not mined after all escalation attempts'', ChainCongested),
     (''transaction could not be confirmed on-chain'', ChainCongested)]"

fun first_reason :: "(string \<times> reason) list \<Rightarrow> string \<Rightarrow> reason" where
  "first_reason [] rest = NoReason"
| "first_reason ((t, r) # ts) rest = (if contains rest t then r else first_reason ts rest)"

definition chainWaitReason :: "rerr option \<Rightarrow> reason" where
  "chainWaitReason err =
     (case err of
        Some (StatusErr code body) \<Rightarrow>
          if isTransportErr (StatusErr code body) then NoReason
          else let text = routerErrorText body
               in if \<not> has_prefix text openStagePrefix then NoReason
                  else first_reason chainWaitTexts (drop (length openStagePrefix) text)
      | _ \<Rightarrow> NoReason)"

text \<open>The pool's refusals (\<open>*NoAvailableError\<close> and the sentinel errors of \<open>failover.go\<close>).\<close>

datatype open_err =
    NoAvailable dur reason          \<comment> \<open>Retry-After (0: none) and reason\<close>
  | NoEligibleProvider
  | WalletNeedsFunds
  | SessionStateUnknown
  | StakeLimitInvalid
  | StakeLimitExceeded "int option" int int   \<comment> \<open>need, cap, duration\<close>
  | NoAlternate
  | WalkExhausted nat rerr          \<comment> \<open>opens tried, last error\<close>
  | RequestEnded ctx_err

definition clampTransient :: "dur \<Rightarrow> dur" where
  "clampTransient d =
     (let sec = go_div (d + second - 1) second;
          sec = (if sec < 1 then 1 else sec);
          c = go_div transientCap second;
          sec = (if sec > c then c else sec)
      in sec * second)"

definition errChainWait :: "reason \<Rightarrow> open_err" where
  "errChainWait r = NoAvailable chainWaitRetryAfter r"

definition errTransient :: "dur \<Rightarrow> open_err" where
  "errTransient d = NoAvailable (clampTransient d) RouterTransient"

definition errOpenBusyRefusal :: open_err where
  "errOpenBusyRefusal = NoAvailable 0 OpenBusy"

subsection \<open>Lemmas\<close>

lemma first_prefix_None: "first_prefix ps text = None \<longleftrightarrow> (\<forall>p \<in> set ps. \<not> has_prefix text p)"
  by (induction ps) auto

lemma classify_transport: "isTransportErr e \<Longrightarrow> classifyOpenErr (Some e) d w = MaybeSent"
  by (simp add: classifyOpenErr_def)

lemma classify_not_status:
  "(\<And>code body. err \<noteq> Some (StatusErr code body)) \<Longrightarrow> classifyOpenErr err d w = MaybeSent"
  by (auto simp: classifyOpenErr_def split: option.splits rerr.splits)

lemma backoff_loop_min:
  "0 < d \<Longrightarrow> min transientCap (backoff_loop n d) = min transientCap (d * 2 ^ n)"
proof (induction n arbitrary: d)
  case 0
  then show ?case by simp
next
  case (Suc n)
  show ?case
  proof (cases "d < transientCap")
    case True
    with Suc show ?thesis by (simp add: mult.assoc)
  next
    case False
    have "d * 1 \<le> d * 2 ^ Suc n"
      using Suc.prems by (intro mult_left_mono one_le_power) simp_all
    with False show ?thesis by simp
  qed
qed

lemma backoffStep_min: "backoffStep n = min transientCap (transientBase * 2 ^ n)"
  using backoff_loop_min [of transientBase n]
  by (auto simp: backoffStep_def Let_def transientBase_def millisecond_def min_def split: if_splits)

interpretation step_backoff: doubling_schedule backoffStep transientBase transientCap
  by unfold_locales
    (auto simp: backoffStep_min transientBase_def transientCap_def millisecond_def second_def min_def)

lemma clampTransient_cases:
  "clampTransient d = (if d \<le> second then second else if transientCap < d then transientCap
     else (d + second - 1) div second * second)"
proof -
  have div: "go_div (d + second - 1) second = (d + second - 1) div second" if "0 < d"
    using that by (intro go_div_nonneg) (simp_all add: second_def)
  have "go_div (d + second - 1) second \<le> 0" if "d \<le> 0"
  proof (cases "d + second - 1 < 0")
    case True
    then show ?thesis by (simp add: go_div_def second_def)
  next
    case False
    with that have "(d + second - 1) div second = 0"
      by (simp add: second_def div_pos_pos_trivial)
    with False show ?thesis by (simp add: go_div_nonneg)
  qed
  then show ?thesis
    using div by (auto simp: clampTransient_def Let_def transientCap_def second_def go_div_def)
qed

subsection \<open>Properties\<close>

text \<open>
  C3: the only errors after which the pool re-sends an open to the same bid are replies of the
  router itself (never a transport error, a deadline or a 502/503/504), free of any
  provider-stage text, that start with a stage that ends before the broadcast; the texts that
  are only conditionally before it also need the operator's RPC and an answer within 18 seconds.
\<close>

theorem resend_only_before_broadcast:
  assumes "classifyOpenErr err elapsed windowOK \<in> {TransientPreSend, TransientWindow}"
  shows "\<exists>code body. err = Some (StatusErr code body) \<and> code \<notin> {502, 503, 504} \<and>
    (\<forall>t \<in> set providerStageTexts. \<not> contains (routerErrorText body) t) \<and>
    ((\<exists>p \<in> set preSendPrefixes. has_prefix (routerErrorText body) p) \<or>
     (\<exists>p \<in> set windowPrefixes. has_prefix (routerErrorText body) p) \<and>
       windowOK \<and> elapsed < preSendProofWindow)"
proof -
  from assms obtain code body where err: "err = Some (StatusErr code body)"
    and code: "\<not> isTransportErr (StatusErr code body)"
    and cls: "classify_text (routerErrorText body) elapsed windowOK \<in> {TransientPreSend, TransientWindow}"
    by (auto simp: classifyOpenErr_def split: option.splits rerr.splits if_splits)
  let ?t = "routerErrorText body"
  from cls have none: "\<forall>t \<in> set providerStageTexts. \<not> contains ?t t"
    by (auto simp: classify_text_def list_ex_iff split: if_splits)
  have "(\<exists>p \<in> set preSendPrefixes. has_prefix ?t p) \<or>
     (\<exists>p \<in> set windowPrefixes. has_prefix ?t p) \<and> windowOK \<and> elapsed < preSendProofWindow"
  proof (cases "first_prefix preSendPrefixes ?t")
    case (Some rest)
    then show ?thesis using first_prefix_None [of preSendPrefixes ?t] by auto
  next
    case None
    with cls show ?thesis
      by (auto simp: classify_text_def Let_def list_ex_iff not_le split: if_splits)
  qed
  with err code none show ?thesis by auto
qed

lemma resend_only_before_broadcast_witness:
  "classifyOpenErr (Some (StatusErr 500 ''failed to get bid: timeout'')) 0 False = TransientPreSend \<and>
   (\<exists>code body. Some (StatusErr 500 ''failed to get bid: timeout'') = Some (StatusErr code body) \<and>
      code \<notin> {502, 503, 504})"
proof -
  have c: "classifyOpenErr (Some (StatusErr 500 ''failed to get bid: timeout'')) 0 False = TransientPreSend"
    by code_simp
  with resend_only_before_broadcast [of "Some (StatusErr 500 ''failed to get bid: timeout'')" 0 False]
  show ?thesis by auto
qed

text \<open>
  The backoff before retry \<open>n\<close> is the base doubled \<open>n\<close> times, capped at four seconds: it
  never decreases and never passes the cap, which it reaches at the third retry.
\<close>

theorem backoffStep_closed_form:
  "backoffStep n = min transientCap (transientBase * 2 ^ n) \<and> transientBase \<le> backoffStep n \<and>
   backoffStep n \<le> backoffStep (Suc n) \<and> backoffStep (n + 3) = transientCap"
proof -
  have "(8::int) \<le> 2 ^ (n + 3)" by (simp add: power_add)
  then have "transientCap \<le> transientBase * 2 ^ (n + 3)"
    by (simp add: transientCap_def transientBase_def second_def millisecond_def)
  then show ?thesis
    using step_backoff.delay_capped step_backoff.closed_form step_backoff.base_le_delay
      step_backoff.delay_mono [of n "Suc n"] by simp
qed

text \<open>
  The Retry-After of a \<open>router_transient\<close> refusal is a whole number of seconds between one
  and four, is never shorter than the delay asked for (below the cap) and less than one second
  longer.
\<close>

theorem clampTransient_bounds:
  "second \<le> clampTransient d \<and> clampTransient d \<le> transientCap \<and> second dvd clampTransient d \<and>
   (second \<le> d \<and> d \<le> transientCap \<longrightarrow> d \<le> clampTransient d \<and> clampTransient d < d + second)"
proof (cases "d \<le> second \<or> transientCap < d")
  case True
  then show ?thesis
    by (auto simp: clampTransient_cases transientCap_def second_def)
next
  case False
  then have eq: "clampTransient d = (d + second - 1) div second * second"
    by (simp add: clampTransient_cases)
  have "(d + 999999999) div 1000000000 \<le> (4 :: int)" and "1 \<le> (d + 999999999) div (1000000000 :: int)"
    using False by (auto simp: transientCap_def second_def)
  moreover have "d \<le> (d + 999999999) div 1000000000 * (1000000000 :: int)"
    and "(d + 999999999) div 1000000000 * (1000000000 :: int) < d + 1000000000"
    by linarith+
  ultimately show ?thesis
    unfolding eq by (simp add: second_def transientCap_def add.commute)
qed

lemma clampTransient_bounds_witness:
  "clampTransient (1500 * millisecond) = 2 * second \<and>
   1500 * millisecond \<le> clampTransient (1500 * millisecond)"
  using clampTransient_bounds [of "1500 * millisecond"]
  by (simp add: clampTransient_cases transientCap_def second_def millisecond_def)

end
