(* ===== verification/Pool_State.thy ===== *)
theory Pool_State
  imports Transient "HOL-Library.List_Lexorder" "HOL-Library.Char_ord"
begin

section \<open>The session pool's state (\<open>internal/pool/pool.go\<close>)\<close>

text \<open>
  The \<open>Pool\<close> struct, split by the mutex that guards each group of fields: \<open>mu_state\<close> is what
  \<open>p.mu\<close> guards, \<open>failover_mem\<close> what \<open>p.fmu\<close> guards, \<open>chain_view\<close> what \<open>p.chainMu\<close>
  guards, \<open>pool_atoms\<close> the atomic fields; \<open>wallet_slot\<close> is the slot of \<open>Wallet_Slot\<close>. A critical
  section of one mutex is a function on that record, so the components below can be composed in
  any interleaving. \<open>pool_log\<close> collects the effects other components observe: the sessions whose
  close was reported (\<open>onClosed\<close>) and the rescan audit events.

  A \<open>map[string]bool\<close> that only holds \<open>true\<close> is a set. An open attempt is a pointer in the
  code: it carries its identity \<open>at_id\<close>. Not modelled: test hooks, the rate limiter of log lines.
\<close>

subsection \<open>Rows of the router\<close>

record rsession =                        \<comment> \<open>\<open>router.Session\<close>\<close>
  rs_ID :: string
  rs_ModelAgentID :: string
  rs_Provider :: string
  rs_BidID :: string
  rs_Stake :: "int option"
  rs_OpenedAt :: int
  rs_EndsAt :: int
  rs_ClosedAt :: int

record rated_bid =                       \<comment> \<open>\<open>router.RatedBid\<close>; the rows come sorted by score\<close>
  rb_ID :: string
  rb_Provider :: string
  rb_PricePerSecond :: "int option"

subsection \<open>Entries, lease state, attempts\<close>

definition expiryBuffer :: dur where "expiryBuffer = 90 * second"
definition adminTimeout :: dur where "adminTimeout = 60 * second"
definition pruneGrace :: dur where "pruneGrace = 2 * adminTimeout"

record entry =
  e_sessionID :: string
  e_expiresAt :: time
  e_stake :: "int option"
  e_provider :: string

record sess_state =
  ss_model :: string
  ss_inflight :: int
  ss_holders :: "time gomap"
  ss_lastUse :: time
  ss_openedAt :: time
  ss_endsAt :: time
  ss_opener :: string
  ss_retired :: bool
  ss_retiredAt :: time
  ss_closing :: bool
  ss_closeFails :: int

record attempt =
  at_id :: nat
  at_model :: string
  at_bid :: string
  at_start :: time
  at_cut :: bool
  at_stuck :: bool

record chain_session =
  cs_ModelID :: string
  cs_SessionID :: string
  cs_StakeWei :: int
  cs_EndsAt :: time
  cs_Usable :: bool
  cs_Pooled :: bool
  cs_BidID :: string

record chain_wait =
  cw_Reason :: reason
  cw_At :: time

record stake_inputs =
  si_Supply :: int
  si_Budget :: int
  si_At :: time

record stake_refusal =
  sr_At :: time
  sr_NeedWei :: "int option"
  sr_CapWei :: "int option"
  sr_DurationSec :: int

subsection \<open>The pool\<close>

datatype gate = NoGate | GateClosed | GateOpen

record mu_state =
  mEntries :: "entry gomap"
  mSess :: "sess_state gomap"
  mDurMax :: int
  mGate :: gate
  mPending :: "attempt list"
  mNextAttempt :: nat
  mKnownDup :: "string set"
  mClosingIDs :: "time gomap"
  mCloseDueAt :: "time gomap"
  mOpened :: "string set"
  mClosedByUs :: "string set"
  mForeignAt :: "time list"
  mSweepSkips :: nat
  mRetiredSkips :: nat
  mStarted :: time
  mWalletAddr :: string
  mChainWait :: chain_wait
  mStakeRefusal :: stake_refusal

record failover_mem =
  fmCooldown :: dur
  fmCooling :: "time gomap"
  fmRetired :: "time gomap"
  fmCutNext :: "string gomap"
  fmExclude :: "string set"

record chain_view =
  cvOpen :: "chain_session list"
  cvFetched :: time
  cvErr :: string

record pool_atoms =
  paDuration :: int
  paGated :: bool
  paStateKnown :: bool
  paScanKick :: bool
  paProvidedRPC :: bool
  paRetiredBusy :: bool
  paStakeLim :: "(int option \<times> bool) option"   \<comment> \<open>cap in wei (\<open>None\<close>: off), invalid\<close>
  paHeldInputs :: "stake_inputs option"

datatype rescan_event = RescanEvent string string string   \<comment> \<open>reason, short id, result\<close>

record pool_log =
  lgClosed :: "string list"
  lgEvents :: "rescan_event list"

record pool =
  plMu :: mu_state
  plFmu :: failover_mem
  plChain :: chain_view
  plSlot :: wallet_slot
  plAtoms :: pool_atoms
  plLog :: pool_log

definition no_chain_wait :: chain_wait where
  "no_chain_wait = \<lparr>cw_Reason = NoReason, cw_At = zero_time\<rparr>"

definition no_stake_refusal :: stake_refusal where
  "no_stake_refusal = \<lparr>sr_At = zero_time, sr_NeedWei = None, sr_CapWei = None, sr_DurationSec = 0\<rparr>"

definition DefaultProviderCooldown :: dur where "DefaultProviderCooldown = 600 * second"

definition new_mu :: "time \<Rightarrow> mu_state" where
  "new_mu now = \<lparr>mEntries = [], mSess = [], mDurMax = 1800, mGate = NoGate, mPending = [],
     mNextAttempt = 0, mKnownDup = {}, mClosingIDs = [], mCloseDueAt = [], mOpened = {},
     mClosedByUs = {}, mForeignAt = [], mSweepSkips = 0, mRetiredSkips = 0, mStarted = now,
     mWalletAddr = [], mChainWait = no_chain_wait, mStakeRefusal = no_stake_refusal\<rparr>"

definition new_pool :: "int \<Rightarrow> time \<Rightarrow> pool" where
  "new_pool durationSec now =
     \<lparr>plMu = new_mu now,
      plFmu = \<lparr>fmCooldown = DefaultProviderCooldown, fmCooling = [], fmRetired = [],
               fmCutNext = [], fmExclude = {}\<rparr>,
      plChain = \<lparr>cvOpen = [], cvFetched = zero_time, cvErr = []\<rparr>,
      plSlot = new_slot,
      plAtoms = \<lparr>paDuration = durationSec, paGated = False, paStateKnown = False,
                 paScanKick = False, paProvidedRPC = False, paRetiredBusy = False,
                 paStakeLim = None, paHeldInputs = None\<rparr>,
      plLog = \<lparr>lgClosed = [], lgEvents = []\<rparr>\<rparr>"

subsection \<open>Small operations of \<open>pool.go\<close>\<close>

definition normModel :: "string \<Rightarrow> string" where "normModel i = to_lower (trim i)"
definition normProv :: "string \<Rightarrow> string" where "normProv s = to_lower (trim s)"

lemma normModel_idem [simp]: "normModel (normModel i) = normModel i"
  by (simp add: normModel_def trim_to_lower)

lemma normProv_idem [simp]: "normProv (normProv i) = normProv i"
  by (simp add: normProv_def trim_to_lower)

definition setChainWait :: "reason \<Rightarrow> time \<Rightarrow> mu_state \<Rightarrow> mu_state" where
  "setChainWait r now m = m\<lparr>mChainWait := \<lparr>cw_Reason = r, cw_At = now\<rparr>\<rparr>"

definition clearChainWait :: "mu_state \<Rightarrow> mu_state" where
  "clearChainWait m = m\<lparr>mChainWait := no_chain_wait\<rparr>"

definition lastChainWait :: "time \<Rightarrow> mu_state \<Rightarrow> chain_wait option" where
  "lastChainWait now m =
     (let cw = mChainWait m
      in if is_zero (cw_At cw) \<or> now - cw_At cw \<ge> chainWaitShowFor then None else Some cw)"

definition DurationSec :: "pool_atoms \<Rightarrow> int" where "DurationSec a = paDuration a"

definition SetDuration :: "int \<Rightarrow> pool_atoms \<Rightarrow> pool_atoms" where
  "SetDuration sec a = a\<lparr>paDuration := sec\<rparr>"

definition Invalidate :: "string \<Rightarrow> mu_state \<Rightarrow> mu_state" where
  "Invalidate modelID m =
     (let key = normModel modelID;
          m1 = (case mget (mEntries m) key of
                  None \<Rightarrow> m
                | Some e \<Rightarrow> m\<lparr>mSess := mdel (e_sessionID e) (mSess m)\<rparr>)
      in m1\<lparr>mEntries := mdel key (mEntries m1)\<rparr>)"

text \<open>The sum of the stakes of the last scan (\<open>StakeWei\<close> is decimal text the scan wrote).\<close>

definition activeStakeWei :: "chain_view \<Rightarrow> int" where
  "activeStakeWei v = sum_list (map cs_StakeWei (cvOpen v))"

record snapshot =
  sn_ModelID :: string
  sn_SessionID :: string
  sn_ExpiresAt :: time
  sn_InFlight :: int
  sn_Holders :: "string list"
  sn_OpenedAt :: time
  sn_EndsAt :: time
  sn_Opener :: string

definition snapshot_of :: "mu_state \<Rightarrow> string \<times> entry \<Rightarrow> snapshot" where
  "snapshot_of m me =
     (case me of (modelID, e) \<Rightarrow>
        (case mget (mSess m) (e_sessionID e) of
           None \<Rightarrow> \<lparr>sn_ModelID = modelID, sn_SessionID = e_sessionID e, sn_ExpiresAt = e_expiresAt e,
                    sn_InFlight = 0, sn_Holders = [], sn_OpenedAt = zero_time,
                    sn_EndsAt = zero_time, sn_Opener = []\<rparr>
         | Some st \<Rightarrow> \<lparr>sn_ModelID = modelID, sn_SessionID = e_sessionID e, sn_ExpiresAt = e_expiresAt e,
                    sn_InFlight = ss_inflight st, sn_Holders = sort (mkeys (ss_holders st)),
                    sn_OpenedAt = ss_openedAt st, sn_EndsAt = ss_endsAt st,
                    sn_Opener = ss_opener st\<rparr>))"

definition Snapshot :: "mu_state \<Rightarrow> snapshot list" where
  "Snapshot m = map (snapshot_of m) (mitems (mEntries m))"

text \<open>
  \<open>closeTargets\<close> empties the pool and lists every pooled and last-scanned session once, comparing
  ids without case.
\<close>

fun add_targets :: "string set \<Rightarrow> (string \<times> string) list \<Rightarrow> (string \<times> string) list" where
  "add_targets seen [] = []"
| "add_targets seen ((i, label) # ts) =
     (if i \<noteq> [] \<and> to_lower i \<notin> seen
      then (i, label) # add_targets (insert (to_lower i) seen) ts
      else add_targets seen ts)"

definition closeTargets :: "mu_state \<Rightarrow> chain_view \<Rightarrow> (string \<times> string) list \<times> mu_state" where
  "closeTargets m v =
     (let pooled = map (\<lambda>k. (case mget (mEntries m) k of None \<Rightarrow> [] | Some e \<Rightarrow> e_sessionID e,
                             ''pooled '' @ k)) (sort (mkeys (mEntries m)));
          listed = map (\<lambda>s. (cs_SessionID s, ''on-chain '' @ cs_ModelID s)) (cvOpen v)
      in (add_targets {} (pooled @ listed), m\<lparr>mEntries := []\<rparr>))"

subsection \<open>Lemmas\<close>

lemma add_targets_set:
  "set (map (to_lower \<circ> fst) (add_targets seen ts)) =
   {to_lower i | i l. (i, l) \<in> set ts \<and> i \<noteq> []} - seen"
proof (induction ts arbitrary: seen)
  case Nil
  then show ?case by simp
next
  case (Cons t ts)
  obtain i l where t: "t = (i, l)" by (cases t)
  show ?case
  proof (cases "i \<noteq> [] \<and> to_lower i \<notin> seen")
    case True
    with Cons [of "insert (to_lower i) seen"] t show ?thesis by auto
  next
    case False
    with Cons [of seen] t show ?thesis by auto
  qed
qed

lemma add_targets_distinct: "distinct (map (to_lower \<circ> fst) (add_targets seen ts))"
proof (induction ts arbitrary: seen)
  case Nil
  then show ?case by simp
next
  case (Cons t ts)
  obtain i l where t: "t = (i, l)" by (cases t)
  have "to_lower i \<notin> set (map (to_lower \<circ> fst) (add_targets (insert (to_lower i) seen) ts))"
    unfolding add_targets_set by simp
  then show ?case
    using Cons t by (simp add: comp_def del: set_map)
qed

end
