(* ===== verification/Lease.thy ===== *)
theory Lease
  imports Pool_State
begin

section \<open>Leases, holders, release (\<open>internal/pool/lease.go\<close>)\<close>

text \<open>
  A request holds a lease on the session it uses; an API key that used a session is one of its
  holders until it releases it. Each definition below is one critical section of \<open>p.mu\<close>. The
  pointer \<open>*sessState\<close> is always the value stored under the session's id in \<open>p.sess\<close>, so the
  operations that take it in the code take the id here.
\<close>

definition maxCloseRetries :: int where "maxCloseRetries = 3"

definition DurationMax :: "mu_state \<Rightarrow> int" where
  "DurationMax m = (if mDurMax m \<le> 0 then 1800 else mDurMax m)"

definition SetDurationMax :: "int \<Rightarrow> mu_state \<Rightarrow> mu_state" where
  "SetDurationMax sec m = m\<lparr>mDurMax := sec\<rparr>"

subsection \<open>State of a session\<close>

definition stateLocked :: "time \<Rightarrow> string \<Rightarrow> entry \<Rightarrow> mu_state \<Rightarrow> sess_state \<times> mu_state" where
  "stateLocked now key e m =
     (case mget (mSess m) (e_sessionID e) of
        Some st \<Rightarrow> (st, m)
      | None \<Rightarrow>
          let st = \<lparr>ss_model = key, ss_inflight = 0, ss_holders = [], ss_lastUse = now,
                    ss_openedAt = now, ss_endsAt = e_expiresAt e + expiryBuffer, ss_opener = [],
                    ss_retired = False, ss_retiredAt = zero_time, ss_closing = False,
                    ss_closeFails = 0\<rparr>
          in (st, m\<lparr>mSess := mput (e_sessionID e) st (mSess m)\<rparr>))"

definition newStateLocked ::
  "time \<Rightarrow> string \<Rightarrow> string \<Rightarrow> time \<Rightarrow> time \<Rightarrow> string \<Rightarrow> mu_state \<Rightarrow> mu_state" where
  "newStateLocked now key sid openedAt endsAt opener m =
     m\<lparr>mSess := mput sid
         \<lparr>ss_model = key, ss_inflight = 0, ss_holders = [], ss_lastUse = now,
          ss_openedAt = openedAt, ss_endsAt = endsAt, ss_opener = opener, ss_retired = False,
          ss_retiredAt = zero_time, ss_closing = False, ss_closeFails = 0\<rparr> (mSess m)\<rparr>"

definition forget :: "string \<Rightarrow> mu_state \<Rightarrow> mu_state" where
  "forget sid m =
     (let m1 = m\<lparr>mSess := mdel sid (mSess m)\<rparr>
      in if sid = [] then m1
         else m1\<lparr>mEntries := mfilter (\<lambda>k e. \<not> equal_fold (e_sessionID e) sid) (mEntries m1)\<rparr>)"

definition markRetired :: "time \<Rightarrow> sess_state \<Rightarrow> sess_state" where
  "markRetired now st =
     (if \<not> ss_retired st then st\<lparr>ss_retired := True, ss_retiredAt := now\<rparr> else st)"

definition unheldSince :: "sess_state \<Rightarrow> time" where
  "unheldSince st = (if ss_lastUse st > ss_retiredAt st then ss_lastUse st else ss_retiredAt st)"

definition closingMarkedLocked :: "string \<Rightarrow> mu_state \<Rightarrow> bool" where
  "closingMarkedLocked sid m \<longleftrightarrow> mget (mClosingIDs m) (to_lower sid) \<noteq> None"

subsection \<open>Taking and ending a lease\<close>

text \<open>The lease handed to the caller is the session's id; \<open>once\<close> is the lease's own flag.\<close>

record lease =
  ls_session :: string
  ls_done :: bool

definition leaseLocked :: "time \<Rightarrow> string \<Rightarrow> string \<Rightarrow> mu_state \<Rightarrow> lease \<times> mu_state" where
  "leaseLocked now sid keyID m =
     (\<lparr>ls_session = sid, ls_done = False\<rparr>,
      case mget (mSess m) sid of
        None \<Rightarrow> m
      | Some st \<Rightarrow>
          m\<lparr>mSess := mput sid
              (st\<lparr>ss_inflight := ss_inflight st + 1,
                  ss_holders := (if keyID \<noteq> [] then mput keyID now (ss_holders st) else ss_holders st),
                  ss_lastUse := now\<rparr>) (mSess m)\<rparr>)"

text \<open>\<open>Done\<close>: the new lease, whether the sweep is asked to run, and the state.\<close>

definition lease_done :: "time \<Rightarrow> lease \<Rightarrow> mu_state \<Rightarrow> (lease \<times> bool) \<times> mu_state" where
  "lease_done now l m =
     (if ls_done l then ((l, False), m)
      else case mget (mSess m) (ls_session l) of
             None \<Rightarrow> ((l\<lparr>ls_done := True\<rparr>, False), m)
           | Some st \<Rightarrow>
               let st' = st\<lparr>ss_inflight := (if ss_inflight st > 0 then ss_inflight st - 1
                                             else ss_inflight st),
                            ss_lastUse := now\<rparr>
               in ((l\<lparr>ls_done := True\<rparr>,
                    ss_inflight st' = 0 \<and> ss_retired st' \<and> \<not> ss_closing st' \<and>
                    ss_closeFails st' < maxCloseRetries),
                   m\<lparr>mSess := mput (ls_session l) st' (mSess m)\<rparr>))"

fun lease_session_loop ::
  "time \<Rightarrow> string \<Rightarrow> string \<Rightarrow> (string \<times> entry) list \<Rightarrow> mu_state \<Rightarrow> lease option \<times> mu_state" where
  "lease_session_loop now sid keyID [] m = (None, m)"
| "lease_session_loop now sid keyID ((key, e) # es) m =
     (if e_sessionID e \<noteq> sid \<or> \<not> now < e_expiresAt e then lease_session_loop now sid keyID es m
      else case stateLocked now key e m of
             (st, m1) \<Rightarrow>
               if ss_retired st \<or> ss_closing st \<or> closingMarkedLocked sid m1 then (None, m1)
               else (case leaseLocked now sid keyID m1 of (l, m2) \<Rightarrow> (Some l, m2)))"

definition LeaseSession :: "time \<Rightarrow> string \<Rightarrow> string \<Rightarrow> mu_state \<Rightarrow> lease option \<times> mu_state" where
  "LeaseSession now sid keyID m = lease_session_loop now sid keyID (mitems (mEntries m)) m"

definition tryPooledLocked :: "time \<Rightarrow> string \<Rightarrow> string \<Rightarrow> mu_state \<Rightarrow> lease option \<times> mu_state" where
  "tryPooledLocked now key keyID m =
     (case mget (mEntries m) key of
        None \<Rightarrow> (None, m)
      | Some e \<Rightarrow>
          if \<not> now < e_expiresAt e then (None, m)
          else if closingMarkedLocked (e_sessionID e) m then (None, m)
          else case stateLocked now key e m of
                 (st, m1) \<Rightarrow>
                   if ss_retired st \<or> ss_closing st then (None, m1)
                   else (case leaseLocked now (e_sessionID e) keyID m1 of (l, m2) \<Rightarrow> (Some l, m2)))"

subsection \<open>Pooling an open's result\<close>

record open_result =
  or_id :: string
  or_provider :: string
  or_adopted :: bool
  or_resumed :: bool
  or_openedAt :: time
  or_endsAt :: time
  or_stake :: "int option"

definition poolOpenedLocked ::
  "time \<Rightarrow> string \<Rightarrow> open_result \<Rightarrow> int \<Rightarrow> string \<Rightarrow> mu_state \<Rightarrow> mu_state" where
  "poolOpenedLocked now key got durSec opener m =
     (let opened = (if or_adopted got then or_openedAt got else now);
          ends = (if or_adopted got then or_endsAt got else now + durSec * second);
          m1 = m\<lparr>mOpened := insert (to_lower (or_id got)) (mOpened m),
                 mEntries := mput key
                   \<lparr>e_sessionID = or_id got, e_expiresAt = ends - expiryBuffer,
                    e_stake = or_stake got, e_provider = normProv (or_provider got)\<rparr> (mEntries m)\<rparr>
      in newStateLocked now key (or_id got) opened ends opener m1)"

definition adoptLocked :: "time \<Rightarrow> string \<Rightarrow> open_result \<Rightarrow> mu_state \<Rightarrow> mu_state" where
  "adoptLocked now key got m =
     (let m1 = m\<lparr>mEntries := mput key
                   \<lparr>e_sessionID = or_id got, e_expiresAt = or_endsAt got - expiryBuffer,
                    e_stake = or_stake got, e_provider = normProv (or_provider got)\<rparr> (mEntries m)\<rparr>
      in (case mget (mSess m1) (or_id got) of
            Some st \<Rightarrow> m1
          | None \<Rightarrow> newStateLocked now key (or_id got) (or_openedAt got) (or_endsAt got) [] m1))"

definition holdsLiveLocked :: "time \<Rightarrow> string \<Rightarrow> mu_state \<Rightarrow> bool" where
  "holdsLiveLocked now key m \<longleftrightarrow>
     list_ex (\<lambda>(sid, st). ss_model st = key \<and> now < ss_endsAt st) (mitems (mSess m))"

subsection \<open>Release\<close>

text \<open>Several operations take a session out of its model's pool slot.\<close>

definition drop_entry :: "string \<Rightarrow> string \<Rightarrow> mu_state \<Rightarrow> mu_state" where
  "drop_entry key sid m =
     (case mget (mEntries m) key of
        Some e \<Rightarrow> if e_sessionID e = sid then m\<lparr>mEntries := mdel key (mEntries m)\<rparr> else m
      | None \<Rightarrow> m)"

datatype release_reason = Shared | InFlightStill | NotHeld | ClosingSoon

text \<open>
  The session \<open>keyID\<close> holds for the model: the pooled one, else the retired one it still holds
  with the least id.
\<close>

definition held_pooled :: "string \<Rightarrow> string \<Rightarrow> mu_state \<Rightarrow> (string \<times> sess_state) option" where
  "held_pooled key keyID m =
     (case mget (mEntries m) key of
        None \<Rightarrow> None
      | Some e \<Rightarrow>
          (case mget (mSess m) (e_sessionID e) of
             None \<Rightarrow> None
           | Some s \<Rightarrow> if \<not> ss_closing s \<and> mget (ss_holders s) keyID \<noteq> None
                       then Some (e_sessionID e, s) else None))"

definition draining_ids :: "string \<Rightarrow> string \<Rightarrow> mu_state \<Rightarrow> string list" where
  "draining_ids key keyID m =
     sort (map fst (filter (\<lambda>(sid, s). mget (ss_holders s) keyID \<noteq> None \<and> ss_model s = key \<and>
                                       \<not> ss_closing s) (mitems (mSess m))))"

definition release_target :: "string \<Rightarrow> string \<Rightarrow> mu_state \<Rightarrow> (string \<times> sess_state) option" where
  "release_target key keyID m =
     (case held_pooled key keyID m of
        Some r \<Rightarrow> Some r
      | None \<Rightarrow>
          (case draining_ids key keyID m of
             [] \<Rightarrow> None
           | sid # _ \<Rightarrow> (case mget (mSess m) sid of None \<Rightarrow> None | Some s \<Rightarrow> Some (sid, s))))"

text \<open>
  The answer (released, reason) and, when the session was retired, the id and end time that
  \<open>retire\<close> and \<open>requestSweep\<close> are then called with.
\<close>

definition Release ::
  "time \<Rightarrow> string \<Rightarrow> string \<Rightarrow> mu_state \<Rightarrow>
   (bool \<times> release_reason \<times> (string \<times> time) option) \<times> mu_state" where
  "Release now modelID keyID m =
     (let key = normModel modelID
      in (case release_target key keyID m of
            None \<Rightarrow> ((False, NotHeld, None), m)
          | Some (sid, st) \<Rightarrow>
              if keyID = [] then ((False, NotHeld, None), m)
              else
                let st1 = st\<lparr>ss_holders := mdel keyID (ss_holders st)\<rparr>;
                    m1 = m\<lparr>mSess := mput sid st1 (mSess m)\<rparr>
                in if mlen (ss_holders st1) > 0 then ((True, Shared, None), m1)
                   else if ss_inflight st1 > 0 then ((True, InFlightStill, None), m1)
                   else
                     let st2 = markRetired now st1;
                         m2 = m1\<lparr>mSess := mput sid st2 (mSess m1)\<rparr>;
                         m3 = drop_entry key sid m2
                     in ((True, ClosingSoon, Some (sid, ss_endsAt st2)), m3)))"

subsection \<open>Retiring for a failover, counters\<close>

definition retireForFailover :: "time \<Rightarrow> string \<Rightarrow> string \<Rightarrow> mu_state \<Rightarrow> bool \<times> mu_state" where
  "retireForFailover now key sid m =
     (let m1 = drop_entry key sid m
      in (case mget (mSess m1) sid of
            None \<Rightarrow> (True, m1)
          | Some st \<Rightarrow>
              let st1 = markRetired now st
              in if ss_inflight st1 > 0 \<or> ss_closing st1
                 then (False, m1\<lparr>mSess := mput sid st1 (mSess m1)\<rparr>)
                 else (True, m1\<lparr>mSess := mput sid (st1\<lparr>ss_closing := True\<rparr>) (mSess m1)\<rparr>)))"

definition failoverCloseFailed :: "string \<Rightarrow> mu_state \<Rightarrow> mu_state" where
  "failoverCloseFailed sid m =
     (case mget (mSess m) sid of
        None \<Rightarrow> m
      | Some st \<Rightarrow> m\<lparr>mSess := mput sid (st\<lparr>ss_closing := False,
                                          ss_closeFails := ss_closeFails st + 1\<rparr>) (mSess m)\<rparr>)"

definition InFlight :: "string \<Rightarrow> mu_state \<Rightarrow> int" where
  "InFlight sid m = (case mget (mSess m) sid of None \<Rightarrow> 0 | Some st \<Rightarrow> ss_inflight st)"

definition TotalInFlight :: "mu_state \<Rightarrow> int" where
  "TotalInFlight m = sum_list (map (\<lambda>(sid, st). ss_inflight st) (mitems (mSess m)))"

text \<open>The sweep's critical sections: choose, mark closing, and put back after a failed close.\<close>

definition sweep_eligible :: "time \<Rightarrow> dur \<Rightarrow> bool \<Rightarrow> mu_state \<Rightarrow> string \<Rightarrow> sess_state \<Rightarrow> bool" where
  "sweep_eligible now grace idle m sid st \<longleftrightarrow>
     \<not> (ss_closing st \<or> ss_inflight st > 0 \<or> closingMarkedLocked sid m) \<and>
     \<not> (\<not> ss_retired st \<and> (\<not> idle \<or> now - ss_lastUse st < grace)) \<and>
     \<not> (ss_retired st \<and> ss_closeFails st \<ge> maxCloseRetries)"

text \<open>
  \<open>cutCloseMarkLocked\<close>: whether a cut close is still pending. It deletes the expired marks it
  meets before the first one that is not.
\<close>

fun cut_marks :: "time \<Rightarrow> (string \<times> time) list \<Rightarrow> time gomap \<Rightarrow> bool \<times> time gomap" where
  "cut_marks now [] c = (False, c)"
| "cut_marks now ((i, expiry) # rest) c =
     (if is_zero expiry then cut_marks now rest c
      else if \<not> now < expiry then cut_marks now rest (mdel i c)
      else (True, c))"

definition cutCloseMarkLocked :: "time \<Rightarrow> mu_state \<Rightarrow> bool \<times> mu_state" where
  "cutCloseMarkLocked now m =
     (case cut_marks now (mitems (mClosingIDs m)) (mClosingIDs m) of
        (b, c) \<Rightarrow> (b, m\<lparr>mClosingIDs := c\<rparr>))"

definition sweep_pick :: "time \<Rightarrow> dur \<Rightarrow> bool \<Rightarrow> mu_state \<Rightarrow> string option \<times> mu_state" where
  "sweep_pick now grace idle m =
     (case cutCloseMarkLocked now m of
        (True, m1) \<Rightarrow> (None, m1)
      | (False, m1) \<Rightarrow>
          (case sort (map fst (filter (\<lambda>(sid, st). sweep_eligible now grace idle m1 sid st)
                                      (mitems (mSess m1)))) of
             [] \<Rightarrow> (None, m1)
           | sid # _ \<Rightarrow> (Some sid, m1)))"

definition sweep_start_close :: "string \<Rightarrow> mu_state \<Rightarrow> time \<times> mu_state" where
  "sweep_start_close sid m =
     (case mget (mSess m) sid of
        None \<Rightarrow> (zero_time, m)
      | Some st \<Rightarrow>
          let m1 = m\<lparr>mSess := mput sid (st\<lparr>ss_closing := True\<rparr>) (mSess m)\<rparr>
          in (ss_endsAt st, drop_entry (ss_model st) sid m1))"

definition sweep_close_failed :: "time \<Rightarrow> string \<Rightarrow> mu_state \<Rightarrow> mu_state" where
  "sweep_close_failed now sid m =
     (case mget (mSess m) sid of
        None \<Rightarrow> m
      | Some st \<Rightarrow>
          let st1 = markRetired now (st\<lparr>ss_closing := False\<rparr>)
          in m\<lparr>mSess := mput sid (st1\<lparr>ss_closeFails := ss_closeFails st1 + 1\<rparr>) (mSess m)\<rparr>)"

subsection \<open>Lemmas: what each critical section leaves alone\<close>

lemma drop_entry_simps [simp]:
  "mSess (drop_entry key sid m) = mSess m"
  "mClosingIDs (drop_entry key sid m) = mClosingIDs m"
  "mget (mEntries (drop_entry key sid m)) k =
     (case mget (mEntries m) k of
        Some e \<Rightarrow> if k = key \<and> e_sessionID e = sid then None else Some e
      | None \<Rightarrow> None)"
  by (auto simp: drop_entry_def split: option.splits)

lemma cutCloseMark_frame:
  "cutCloseMarkLocked now m = (b, m') \<Longrightarrow> mSess m' = mSess m \<and> mEntries m' = mEntries m"
  by (auto simp: cutCloseMarkLocked_def split: prod.splits)

lemma markRetired_simps [simp]:
  "ss_retired (markRetired now st)" "ss_inflight (markRetired now st) = ss_inflight st"
  "ss_closing (markRetired now st) = ss_closing st" "ss_model (markRetired now st) = ss_model st"
  "ss_endsAt (markRetired now st) = ss_endsAt st" "ss_holders (markRetired now st) = ss_holders st"
  "ss_closeFails (markRetired now st) = ss_closeFails st"
  by (simp_all add: markRetired_def)

lemma tryPooled_Some:
  assumes "tryPooledLocked now key k m = (Some l, m')"
  shows "\<exists>e. mget (mEntries m) key = Some e \<and> ls_session l = e_sessionID e \<and> \<not> ls_done l \<and>
    now < e_expiresAt e \<and> \<not> closingMarkedLocked (e_sessionID e) m \<and>
    (\<forall>st. mget (mSess m) (e_sessionID e) = Some st \<longrightarrow> \<not> ss_retired st \<and> \<not> ss_closing st) \<and>
    InFlight (e_sessionID e) m' = InFlight (e_sessionID e) m + 1 \<and> mEntries m' = mEntries m"
  using assms
  by (auto simp: tryPooledLocked_def stateLocked_def leaseLocked_def InFlight_def Let_def
      split: option.splits if_splits)

lemma tryPooled_complete:
  assumes "mget (mEntries m) key = Some e" and "now < e_expiresAt e"
    and "\<not> closingMarkedLocked (e_sessionID e) m"
    and "\<And>st. mget (mSess m) (e_sessionID e) = Some st \<Longrightarrow> \<not> ss_retired st \<and> \<not> ss_closing st"
  shows "\<exists>l m'. tryPooledLocked now key k m = (Some l, m')"
  using assms
  by (auto simp: tryPooledLocked_def stateLocked_def leaseLocked_def Let_def split: option.splits)

subsection \<open>The lease invariant\<close>

text \<open>
  \<open>mo\<close> gives each session id its (normalised) model, a fact of the chain. The invariant: pool
  slots and lease states sit under their session's model; counts are never negative; a session
  that is being closed has nothing in flight and is in no pool slot.
\<close>

definition sess_ok :: "(string \<Rightarrow> string) \<Rightarrow> mu_state \<Rightarrow> string \<Rightarrow> sess_state \<Rightarrow> bool" where
  "sess_ok mo m sid st \<longleftrightarrow> ss_model st = mo sid \<and> 0 \<le> ss_inflight st \<and>
     (ss_closing st \<longrightarrow> ss_inflight st = 0 \<and>
        (\<forall>e. mget (mEntries m) (mo sid) = Some e \<longrightarrow> e_sessionID e \<noteq> sid))"

definition lease_inv :: "(string \<Rightarrow> string) \<Rightarrow> mu_state \<Rightarrow> bool" where
  "lease_inv mo m \<longleftrightarrow>
     (\<forall>key e. mget (mEntries m) key = Some e \<longrightarrow> mo (e_sessionID e) = key) \<and>
     (\<forall>sid st. mget (mSess m) sid = Some st \<longrightarrow> sess_ok mo m sid st)"

lemmas lease_inv_defs = lease_inv_def sess_ok_def

lemma lease_inv_new: "lease_inv mo (new_mu now)"
  by (simp add: lease_inv_def new_mu_def)

text \<open>Two ways a critical section changes the state: one lease state, or fewer pool slots.\<close>

lemma lease_inv_put:
  assumes "lease_inv mo m" and "sess_ok mo m sid st"
  shows "lease_inv mo (m\<lparr>mSess := mput sid st (mSess m)\<rparr>)"
proof -
  have "sess_ok mo (m\<lparr>mSess := mput sid st (mSess m)\<rparr>) i x = sess_ok mo m i x" for i x
    by (simp add: sess_ok_def)
  with assms show ?thesis by (simp add: lease_inv_def)
qed

lemma lease_inv_upd:
  assumes "lease_inv mo m" and "sess_ok mo m sid st"
    and "mSess m' = mput sid st (mSess m)" and "mEntries m' = mEntries m"
  shows "lease_inv mo m'"
  using lease_inv_put [OF assms(1,2)] assms(3,4) by (simp add: lease_inv_defs)

lemma sess_ok_mono:
  assumes "sess_ok mo m sid st"
    and "\<And>k e. mget (mEntries m') k = Some e \<Longrightarrow> mget (mEntries m) k = Some e"
  shows "sess_ok mo m' sid st"
  using assms by (auto simp: sess_ok_def)

lemma lease_inv_less:
  assumes inv: "lease_inv mo m"
    and ent: "\<And>k e. mget (mEntries m') k = Some e \<Longrightarrow> mget (mEntries m) k = Some e"
    and ses: "\<And>k st. mget (mSess m') k = Some st \<Longrightarrow> mget (mSess m) k = Some st"
  shows "lease_inv mo m'"
  unfolding lease_inv_def
proof (intro conjI allI impI)
  fix key e assume "mget (mEntries m') key = Some e"
  from ent [OF this] inv show "mo (e_sessionID e) = key" by (simp add: lease_inv_def)
next
  fix sid st assume "mget (mSess m') sid = Some st"
  from ses [OF this] inv have "sess_ok mo m sid st" by (simp add: lease_inv_def)
  then show "sess_ok mo m' sid st" using ent by (rule sess_ok_mono)
qed

lemma lease_inv_fewer:
  assumes "lease_inv mo m" and "mSess m' = mSess m"
    and "\<And>k e. mget (mEntries m') k = Some e \<Longrightarrow> mget (mEntries m) k = Some e"
  shows "lease_inv mo m'"
  using assms(1) by (rule lease_inv_less) (simp_all add: assms(2,3))

lemma lease_inv_entryD: "lease_inv mo m \<Longrightarrow> mget (mEntries m) key = Some e \<Longrightarrow> mo (e_sessionID e) = key"
  by (simp add: lease_inv_def)

lemma lease_inv_sessD: "lease_inv mo m \<Longrightarrow> mget (mSess m) sid = Some st \<Longrightarrow> sess_ok mo m sid st"
  by (simp add: lease_inv_def)

lemma lease_inv_stateLocked:
  assumes "lease_inv mo m" and "mget (mEntries m) key = Some e" and "stateLocked now key e m = (st, m')"
  shows "lease_inv mo m'" and "mEntries m' = mEntries m" and "mClosingIDs m' = mClosingIDs m"
    and "mget (mSess m') (e_sessionID e) = Some st"
  using assms lease_inv_entryD [OF assms(1,2)]
  by (auto simp: stateLocked_def Let_def sess_ok_def split: option.splits intro!: lease_inv_put)

lemma lease_inv_leaseLocked:
  assumes "lease_inv mo m" and "leaseLocked now sid k m = (l, m')"
    and "\<And>st. mget (mSess m) sid = Some st \<Longrightarrow> \<not> ss_closing st"
  shows "lease_inv mo m'"
  using assms lease_inv_sessD [OF assms(1)]
  by (auto simp: leaseLocked_def sess_ok_def split: option.splits intro!: lease_inv_put)

lemma lease_inv_guarded:
  assumes inv: "lease_inv mo m" and st: "mget (mSess m) sid = Some st"
    and guard: "\<not> c \<Longrightarrow> \<not> ss_closing st"
    and run: "(if c then (None, m) else (case leaseLocked now sid k m of (l, m2) \<Rightarrow> (Some l, m2))) = (r, m')"
  shows "lease_inv mo m'"
proof (cases c)
  case True
  with inv run show ?thesis by simp
next
  case False
  obtain l m2 where l: "leaseLocked now sid k m = (l, m2)" by (meson surj_pair)
  with run False have "m' = m2" by simp
  with lease_inv_leaseLocked [OF inv l] st guard [OF False] show ?thesis by simp
qed

lemma lease_inv_tryPooled:
  assumes inv: "lease_inv mo m" and "tryPooledLocked now key k m = (r, m')"
  shows "lease_inv mo m'"
proof (cases "mget (mEntries m) key")
  case None
  with assms show ?thesis by (simp add: tryPooledLocked_def)
next
  case (Some e)
  obtain st m1 where st: "stateLocked now key e m = (st, m1)" by (meson surj_pair)
  note s = lease_inv_stateLocked [OF inv Some st]
  show ?thesis
  proof (cases "\<not> now < e_expiresAt e \<or> closingMarkedLocked (e_sessionID e) m")
    case True
    with assms(2) Some have "m' = m" by (cases "now < e_expiresAt e") (simp_all add: tryPooledLocked_def)
    with inv show ?thesis by simp
  next
    case False
    with assms(2) Some st have
      "(if ss_retired st \<or> ss_closing st then (None, m1)
        else (case leaseLocked now (e_sessionID e) k m1 of (l, m2) \<Rightarrow> (Some l, m2))) = (r, m')"
      by (simp add: tryPooledLocked_def)
    with s(1,4) _ show ?thesis by (rule lease_inv_guarded) simp
  qed
qed

lemma lease_session_loop_inv:
  assumes "lease_inv mo m" and "\<And>key e. (key, e) \<in> set es \<Longrightarrow> mget (mEntries m) key = Some e"
    and "lease_session_loop now sid k es m = (r, m')"
  shows "lease_inv mo m'"
  using assms
proof (induction now sid k es m rule: lease_session_loop.induct)
  case (2 now sid k key e es m)
  show ?case
  proof (cases "e_sessionID e \<noteq> sid \<or> \<not> now < e_expiresAt e")
    case True
    with 2 show ?thesis by simp
  next
    case False
    obtain st m1 where st: "stateLocked now key e m = (st, m1)" by (meson surj_pair)
    have "mget (mEntries m) key = Some e" using "2.prems"(2) by simp
    note s = lease_inv_stateLocked [OF "2.prems"(1) this st]
    from False have sid: "e_sessionID e = sid" by simp
    from "2.prems"(3) False st have
      "(if ss_retired st \<or> ss_closing st \<or> closingMarkedLocked sid m1 then (None, m1)
        else (case leaseLocked now sid k m1 of (l, m2) \<Rightarrow> (Some l, m2))) = (r, m')"
      by (simp only: lease_session_loop.simps prod.case if_False)
    with s(1) s(4) [unfolded sid] _ show ?thesis by (rule lease_inv_guarded) simp
  qed
qed simp

lemma lease_inv_LeaseSession:
  "lease_inv mo m \<Longrightarrow> LeaseSession now sid k m = (r, m') \<Longrightarrow> lease_inv mo m'"
  unfolding LeaseSession_def
  by (rule lease_session_loop_inv [where es = "mitems (mEntries m)"]) (auto simp: mem_mitems)

lemma lease_inv_done:
  assumes "lease_inv mo m" and "lease_done now l m = (r, m')"
  shows "lease_inv mo m'"
  using assms lease_inv_sessD [OF assms(1)]
  by (auto simp: lease_done_def Let_def sess_ok_def split: option.splits if_splits
      intro!: lease_inv_put)

text \<open>Pooling a session under its own model, with a state that is not closing.\<close>

lemma lease_inv_put_entry:
  assumes "lease_inv mo m" and "mo (e_sessionID e) = key"
    and "\<And>st. mget (mSess m) (e_sessionID e) = Some st \<Longrightarrow> \<not> ss_closing st"
  shows "lease_inv mo (m\<lparr>mEntries := mput key e (mEntries m)\<rparr>)"
  using assms by (auto simp: lease_inv_defs)

lemma lease_inv_newState:
  assumes "lease_inv mo m" and "mo sid = key"
  shows "lease_inv mo (newStateLocked now key sid o1 e1 k m)"
  unfolding newStateLocked_def
  by (rule lease_inv_put [OF assms(1)]) (simp add: sess_ok_def assms(2))

lemma newState_entries [simp]:
  "mEntries (newStateLocked now key sid o1 e1 k m) = mEntries m"
  by (simp add: newStateLocked_def)

lemma newState_sess [simp]:
  "mget (mSess (newStateLocked now key sid o1 e1 k m)) i =
     (if i = sid then Some \<lparr>ss_model = key, ss_inflight = 0, ss_holders = [], ss_lastUse = now,
        ss_openedAt = o1, ss_endsAt = e1, ss_opener = k, ss_retired = False,
        ss_retiredAt = zero_time, ss_closing = False, ss_closeFails = 0\<rparr> else mget (mSess m) i)"
  by (simp add: newStateLocked_def)

lemma lease_inv_poolOpened:
  assumes inv: "lease_inv mo m" and mo: "mo (or_id got) = key"
  shows "lease_inv mo (poolOpenedLocked now key got durSec k m)"
proof -
  let ?m = "poolOpenedLocked now key got durSec k m"
  show ?thesis
    using inv mo
    by (auto simp: poolOpenedLocked_def Let_def lease_inv_defs newStateLocked_def)
qed

lemma lease_inv_adopt:
  assumes inv: "lease_inv mo m" and mo: "mo (or_id got) = key"
    and "\<And>st. mget (mSess m) (or_id got) = Some st \<Longrightarrow> \<not> ss_closing st"
  shows "lease_inv mo (adoptLocked now key got m)"
  using assms
  by (auto simp: adoptLocked_def Let_def split: option.splits
      intro!: lease_inv_newState lease_inv_put_entry)

lemma lease_inv_drop_entry: "lease_inv mo m \<Longrightarrow> lease_inv mo (drop_entry key sid m)"
  by (rule lease_inv_fewer) (auto split: option.splits if_splits)

lemma release_target_state:
  assumes "release_target key k m = Some (sid, st)"
  shows "mget (mSess m) sid = Some st \<and> mget (ss_holders st) k \<noteq> None \<and> \<not> ss_closing st"
proof (cases "held_pooled key k m")
  case (Some r)
  with assms show ?thesis
    by (auto simp: release_target_def held_pooled_def split: option.splits if_splits)
next
  case None
  with assms have "sid \<in> set (draining_ids key k m)" and "mget (mSess m) sid = Some st"
    by (auto simp: release_target_def split: option.splits list.splits)
  then show ?thesis
    by (auto simp: draining_ids_def mem_mitems)
qed

lemma lease_inv_Release:
  assumes inv: "lease_inv mo m" and "Release now modelID k m = (r, m')"
  shows "lease_inv mo m'"
proof (cases "release_target (normModel modelID) k m")
  case None
  with assms show ?thesis by (simp add: Release_def)
next
  case (Some r)
  obtain sid st where r: "r = (sid, st)" by (cases r)
  from release_target_state [OF Some [unfolded r]]
  have st: "mget (mSess m) sid = Some st" and open': "\<not> ss_closing st" by auto
  let ?st1 = "st\<lparr>ss_holders := mdel k (ss_holders st)\<rparr>"
  have ok: "sess_ok mo m sid ?st1" and ok2: "sess_ok mo m sid (markRetired now ?st1)"
    using lease_inv_sessD [OF inv st] open' by (simp_all add: sess_ok_def)
  have twice: "mput sid x (mput sid y (mSess m)) = mput sid x (mSess m)" for x y
    by (simp add: mput_def)
  note put = lease_inv_put [OF inv ok] lease_inv_put [OF inv ok2]
  have "m' = m \<or> m' = m\<lparr>mSess := mput sid ?st1 (mSess m)\<rparr> \<or>
    m' = drop_entry (normModel modelID) sid (m\<lparr>mSess := mput sid (markRetired now ?st1) (mSess m)\<rparr>)"
    using assms(2) Some r by (auto simp: Release_def Let_def twice split: if_splits)
  with inv put lease_inv_drop_entry [OF put(2)] show ?thesis by blast
qed

lemma lease_inv_retire:
  assumes inv: "lease_inv mo m" and "retireForFailover now (mo sid) sid m = (b, m')"
  shows "lease_inv mo m'"
proof -
  let ?m1 = "drop_entry (mo sid) sid m"
  have inv1: "lease_inv mo ?m1" by (rule lease_inv_drop_entry [OF inv])
  show ?thesis
  proof (cases "mget (mSess m) sid")
    case None
    with assms(2) inv1 show ?thesis by (auto simp: retireForFailover_def Let_def)
  next
    case (Some st)
    then have "mget (mSess ?m1) sid = Some st" by simp
    from lease_inv_sessD [OF inv1 this] have
      ok: "sess_ok mo ?m1 sid (markRetired now st)"
      "ss_inflight st \<le> 0 \<Longrightarrow> sess_ok mo ?m1 sid (markRetired now st\<lparr>ss_closing := True\<rparr>)"
      by (auto simp: sess_ok_def split: option.splits if_splits)
    have "m' = ?m1\<lparr>mSess := mput sid (markRetired now st) (mSess ?m1)\<rparr> \<or>
      ss_inflight st \<le> 0 \<and>
      m' = ?m1\<lparr>mSess := mput sid (markRetired now st\<lparr>ss_closing := True\<rparr>) (mSess ?m1)\<rparr>"
      using assms(2) Some by (auto simp: retireForFailover_def Let_def split: if_splits)
    then show ?thesis
      using lease_inv_put [OF inv1 ok(1)] lease_inv_put [OF inv1 ok(2)] by blast
  qed
qed

lemma lease_inv_close_failed: "lease_inv mo m \<Longrightarrow> lease_inv mo (failoverCloseFailed sid m)"
  by (auto simp: failoverCloseFailed_def sess_ok_def split: option.splits
      dest: lease_inv_sessD intro!: lease_inv_put)

lemma lease_inv_sweep_failed: "lease_inv mo m \<Longrightarrow> lease_inv mo (sweep_close_failed now sid m)"
  by (auto simp: sweep_close_failed_def sess_ok_def Let_def split: option.splits
      dest: lease_inv_sessD intro!: lease_inv_put)

lemma sort_hd_mem: "sort xs = x # ys \<Longrightarrow> x \<in> set xs" for x :: string
  by (metis list.set_intros(1) set_sort)

lemma sweep_pick_eligible:
  assumes "sweep_pick now grace idle m = (Some sid, m')"
  shows "\<exists>st. mget (mSess m') sid = Some st \<and> mSess m' = mSess m \<and> mEntries m' = mEntries m \<and>
    sweep_eligible now grace idle m' sid st"
proof -
  from assms obtain m1 where cut: "cutCloseMarkLocked now m = (False, m1)" and m': "m' = m1"
    and "sid \<in> set (map fst (filter (\<lambda>(sid, st). sweep_eligible now grace idle m1 sid st)
       (mitems (mSess m1))))"
    by (auto simp: sweep_pick_def simp del: set_map split: prod.splits bool.splits list.splits
        dest!: sort_hd_mem)
  then obtain st where "(sid, st) \<in> set (mitems (mSess m1))"
    and "sweep_eligible now grace idle m1 sid st" by auto
  with cutCloseMark_frame [OF cut] m' show ?thesis by (auto simp: mem_mitems)
qed

lemma lease_inv_sweep_close:
  assumes inv: "lease_inv mo m" and pick: "sweep_pick now grace idle m = (Some sid, m1)"
    and "sweep_start_close sid m1 = (t, m')"
  shows "lease_inv mo m'"
proof -
  from sweep_pick_eligible [OF pick] obtain st where st: "mget (mSess m1) sid = Some st"
    and same: "mSess m1 = mSess m" "mEntries m1 = mEntries m"
    and el: "sweep_eligible now grace idle m1 sid st" by blast
  have inv1: "lease_inv mo m1" using inv same by (auto simp: lease_inv_defs)
  from lease_inv_sessD [OF inv1 st] el
  have ok: "ss_model st = mo sid" "ss_inflight st = 0"
    by (auto simp: sess_ok_def sweep_eligible_def)
  have m': "m' = drop_entry (mo sid) sid (m1\<lparr>mSess := mput sid (st\<lparr>ss_closing := True\<rparr>) (mSess m1)\<rparr>)"
    using assms(3) st ok by (simp add: sweep_start_close_def Let_def)
  show ?thesis
    unfolding m' using inv1 ok
    by (auto simp: lease_inv_defs split: option.splits if_splits)
qed

end
