(* ===== verification/Scan.thy ===== *)
theory Scan
  imports Lease "HOL-Library.Product_Lexorder"
begin

section \<open>Open attempts and the wallet scan (\<open>internal/pool/sweep.go\<close>)\<close>

text \<open>
  The critical sections of \<open>sweep.go\<close>: the list of open POSTs whose outcome is not known, and
  \<open>applyScan\<close>, which takes one list of the wallet's open sessions and decides, in one critical
  section, what is adopted and which one session the sweep may close. A router row is an
  \<open>rsession\<close>. Left out: the warnings about another opener on the wallet, which are log lines.
\<close>

subsection \<open>Attempts\<close>

definition keepFor :: "attempt \<Rightarrow> dur" where
  "keepFor a = (if at_stuck a then stuckKeep else attemptKeep)"

definition attempt_matches :: "attempt \<Rightarrow> rsession \<Rightarrow> bool" where
  "attempt_matches a s \<longleftrightarrow>
     normModel (rs_ModelAgentID s) = at_model a \<and> equal_fold (trim (rs_BidID s)) (at_bid a) \<and>
     (let op = of_unix (rs_OpenedAt s)
      in \<not> op < at_start a - attemptSkew \<and> \<not> op > at_start a + (keepFor a + attemptSkew))"

definition pruneAttemptsLocked :: "time \<Rightarrow> mu_state \<Rightarrow> mu_state" where
  "pruneAttemptsLocked now m =
     m\<lparr>mPending := filter (\<lambda>a. now < at_start a + (keepFor a + attemptSkew)) (mPending m)\<rparr>"

definition addAttempt :: "time \<Rightarrow> string \<Rightarrow> string \<Rightarrow> mu_state \<Rightarrow> attempt \<times> mu_state" where
  "addAttempt now model bid m =
     (let a = \<lparr>at_id = mNextAttempt m, at_model = normModel model, at_bid = to_lower (trim bid),
               at_start = now, at_cut = False, at_stuck = False\<rparr>;
          m1 = (pruneAttemptsLocked now m)\<lparr>mNextAttempt := Suc (mNextAttempt m)\<rparr>;
          pending = (if length (mPending m1) \<ge> maxPendingAttempts then tl (mPending m1)
                     else mPending m1)
      in (a, m1\<lparr>mPending := pending @ [a]\<rparr>))"

text \<open>An attempt is a pointer: it is found in the list by its identity.\<close>

fun remove_attempt :: "nat \<Rightarrow> attempt list \<Rightarrow> attempt list" where
  "remove_attempt i [] = []"
| "remove_attempt i (x # xs) = (if at_id x = i then xs else x # remove_attempt i xs)"

definition resolveAttemptLocked :: "attempt \<Rightarrow> mu_state \<Rightarrow> mu_state" where
  "resolveAttemptLocked a m = m\<lparr>mPending := remove_attempt (at_id a) (mPending m)\<rparr>"

definition dropAttempt :: "attempt \<Rightarrow> mu_state \<Rightarrow> mu_state" where
  "dropAttempt a m = resolveAttemptLocked a m"

definition markStuck :: "attempt \<Rightarrow> reason \<Rightarrow> mu_state \<Rightarrow> mu_state" where
  "markStuck a r m =
     (if r = WalletTxPending then m\<lparr>mPending := map (\<lambda>x. x\<lparr>at_stuck := True\<rparr>) (mPending m)\<rparr>
      else if r = ChainCongested then
        m\<lparr>mPending := map (\<lambda>x. if at_id x = at_id a then x\<lparr>at_stuck := True\<rparr> else x) (mPending m)\<rparr>
      else m)"

text \<open>\<open>markCut\<close> also asks the sweep to run.\<close>

definition markCut :: "attempt \<Rightarrow> mu_state \<Rightarrow> mu_state" where
  "markCut a m =
     m\<lparr>mPending := map (\<lambda>x. if at_id x = at_id a then x\<lparr>at_cut := True\<rparr> else x) (mPending m)\<rparr>"

definition matchAttemptLocked :: "rsession \<Rightarrow> mu_state \<Rightarrow> attempt option" where
  "matchAttemptLocked s m = List.find (\<lambda>a. attempt_matches a s) (mPending m)"

definition cutBidLocked :: "string \<Rightarrow> mu_state \<Rightarrow> bool" where
  "cutBidLocked bid m \<longleftrightarrow> list_ex (\<lambda>a. at_cut a \<and> equal_fold (at_bid a) (trim bid)) (mPending m)"

subsection \<open>The session to keep\<close>

definition better_row :: "rsession \<Rightarrow> rsession \<Rightarrow> rsession" where
  "better_row best s =
     (if rs_EndsAt s \<noteq> rs_EndsAt best then (if rs_EndsAt s > rs_EndsAt best then s else best)
      else if rs_OpenedAt s \<noteq> rs_OpenedAt best
           then (if rs_OpenedAt s > rs_OpenedAt best then s else best)
      else if to_lower (rs_ID s) < to_lower (rs_ID best) then s else best)"

definition pickOne :: "rsession list \<Rightarrow> rsession" where
  "pickOne ss = foldl better_row (hd ss) (tl ss)"

subsection \<open>The scan\<close>

datatype scan_mode = ScanAdoptOnly | ScanSweep
datatype due_reason = DueExpired | DueDuplicate | DueRetired | DueExcluded

type_synonym cand = "rsession \<times> due_reason"

text \<open>What the loops of \<open>applyScan\<close> carry besides the pool.\<close>

record scan_acc =
  sa_mu :: mu_state
  sa_retired :: "string set"
  sa_due :: "cand list"
  sa_matched :: "rsession list gomap"
  sa_older :: "rsession list gomap"
  sa_hit :: bool
  sa_adopted :: "rsession list"

definition live_models :: "int \<Rightarrow> rsession list \<Rightarrow> string set" where
  "live_models nowUnix open_s =
     set (map (normModel \<circ> rs_ModelAgentID)
            (filter (\<lambda>s. rs_ClosedAt s = 0 \<and> rs_EndsAt s > nowUnix) open_s))"

definition on_chain :: "rsession list \<Rightarrow> string set" where
  "on_chain open_s = set (map (to_lower \<circ> rs_ID) open_s)"

text \<open>Cut closes that are resolved (gone from the list) or whose mark expired.\<close>

definition closed_late :: "string set \<Rightarrow> mu_state \<Rightarrow> string list" where
  "closed_late chain m =
     map fst (filter (\<lambda>(i, expiry). \<not> is_zero expiry \<and> i \<notin> chain) (mitems (mClosingIDs m)))"

definition clear_marks :: "time \<Rightarrow> string set \<Rightarrow> mu_state \<Rightarrow> mu_state" where
  "clear_marks now chain m =
     m\<lparr>mClosingIDs := mfilter (\<lambda>i expiry. is_zero expiry \<or> i \<in> chain \<and> now < expiry) (mClosingIDs m)\<rparr>"

definition idle_retired :: "sess_state \<Rightarrow> bool" where
  "idle_retired st \<longleftrightarrow> ss_retired st \<and> \<not> ss_closing st \<and> ss_inflight st = 0"

definition held_ids :: "mu_state \<Rightarrow> string set" where
  "held_ids m =
     set (map (\<lambda>(k, e). to_lower (e_sessionID e)) (mitems (mEntries m))) \<union>
     set (map (to_lower \<circ> fst) (filter (\<lambda>(i, st). \<not> idle_retired st) (mitems (mSess m))))"

definition usable_entry :: "time \<Rightarrow> mu_state \<Rightarrow> string \<Rightarrow> bool" where
  "usable_entry now m key =
     (case mget (mEntries m) key of
        None \<Rightarrow> False
      | Some e \<Rightarrow>
          if \<not> now < e_expiresAt e \<or> closingMarkedLocked (e_sessionID e) m then False
          else (case mget (mSess m) (e_sessionID e) of
                  Some st \<Rightarrow> \<not> (ss_retired st \<or> ss_closing st)
                | None \<Rightarrow> True))"

definition add_row :: "string \<Rightarrow> rsession \<Rightarrow> rsession list gomap \<Rightarrow> rsession list gomap" where
  "add_row k s g = mput k ((case mget g k of None \<Rightarrow> [] | Some ss \<Rightarrow> ss) @ [s]) g"

text \<open>One row of the list. \<open>held\<close> was computed before the loop.\<close>

definition scan_row ::
  "time \<Rightarrow> string set \<Rightarrow> string set \<Rightarrow> rsession \<Rightarrow> scan_acc \<Rightarrow> scan_acc" where
  "scan_row now excluded held s c =
     (let m = sa_mu c; lid = to_lower (rs_ID s);
          usable = rs_EndsAt s > unix now + go_div expiryBuffer second
      in if closingMarkedLocked (rs_ID s) m then c
         else if lid \<in> held then
           (if \<not> usable \<and> (case mget (mSess m) (rs_ID s) of
                              None \<Rightarrow> True
                            | Some st \<Rightarrow> ss_inflight st = 0 \<and> \<not> ss_closing st \<and> \<not> ss_retired st)
            then c\<lparr>sa_due := sa_due c @ [(s, DueExpired)]\<rparr> else c)
         else (case matchAttemptLocked s m of
             Some a \<Rightarrow>
               let m1 = resolveAttemptLocked a m;
                   c1 = c\<lparr>sa_mu := m1\<lparr>mOpened := insert lid (mOpened m1)\<rparr>, sa_hit := True\<rparr>
               in if usable then c1\<lparr>sa_matched := add_row (at_model a) s (sa_matched c1)\<rparr>
                  else c1\<lparr>sa_due := sa_due c1 @ [(s, DueExpired)]\<rparr>
           | None \<Rightarrow>
               let retired1 = (case mget (mSess m) (rs_ID s) of
                       Some st \<Rightarrow> if ss_retired st then insert lid (sa_retired c) else sa_retired c
                     | None \<Rightarrow> sa_retired c);
                   c1 = c\<lparr>sa_retired := retired1\<rparr>;
                   young = of_unix (rs_OpenedAt s) > now - pruneGrace
               in if \<not> usable then c1\<lparr>sa_due := sa_due c1 @ [(s, DueExpired)]\<rparr>
                  else if lid \<in> mKnownDup m then c1\<lparr>sa_due := sa_due c1 @ [(s, DueDuplicate)]\<rparr>
                  else if young then c1
                  else if lid \<in> retired1 then c1\<lparr>sa_due := sa_due c1 @ [(s, DueRetired)]\<rparr>
                  else if normProv (rs_Provider s) \<in> excluded
                       then c1\<lparr>sa_due := sa_due c1 @ [(s, DueExcluded)]\<rparr>
                  else c1\<lparr>sa_older := add_row (normModel (rs_ModelAgentID s)) s (sa_older c1)\<rparr>))"

definition adopt_row :: "time \<Rightarrow> rsession \<Rightarrow> mu_state \<Rightarrow> mu_state" where
  "adopt_row now s m =
     (let key = normModel (rs_ModelAgentID s); ends = of_unix (rs_EndsAt s);
          m1 = m\<lparr>mEntries := mput key
                 \<lparr>e_sessionID = rs_ID s, e_expiresAt = ends - expiryBuffer, e_stake = rs_Stake s,
                  e_provider = normProv (rs_Provider s)\<rparr> (mEntries m)\<rparr>
      in if mget (mSess m1) (rs_ID s) = None
         then newStateLocked now key (rs_ID s) (of_unix (rs_OpenedAt s)) ends [] m1 else m1)"

definition due_dups :: "rsession list \<Rightarrow> cand list" where
  "due_dups ss = map (\<lambda>s. (s, DueDuplicate)) ss"

definition add_dups :: "rsession list \<Rightarrow> mu_state \<Rightarrow> mu_state" where
  "add_dups ss m = m\<lparr>mKnownDup := mKnownDup m \<union> set (map (to_lower \<circ> rs_ID) ss)\<rparr>"

text \<open>A model with sessions that resolve attempts of this process.\<close>

definition matched_group :: "time \<Rightarrow> string \<times> rsession list \<Rightarrow> scan_acc \<Rightarrow> scan_acc" where
  "matched_group now g c =
     (case g of (key, ss) \<Rightarrow>
        if usable_entry now (sa_mu c) key
        then c\<lparr>sa_mu := add_dups ss (sa_mu c), sa_due := sa_due c @ due_dups ss\<rparr>
        else
          let keep = pickOne ss;
              rest = filter (\<lambda>s. rs_ID s \<noteq> rs_ID keep) ss;
              old = (case mget (sa_older c) key of None \<Rightarrow> [] | Some ss \<Rightarrow> ss)
          in c\<lparr>sa_mu := add_dups rest (adopt_row now keep (sa_mu c)),
               sa_adopted := sa_adopted c @ [keep],
               sa_due := sa_due c @ due_dups rest @ due_dups old,
               sa_older := mdel key (sa_older c)\<rparr>)"

text \<open>A model with older, unheld sessions.\<close>

definition older_group :: "time \<Rightarrow> string \<times> rsession list \<Rightarrow> scan_acc \<Rightarrow> scan_acc" where
  "older_group now g c =
     (case g of (key, ss) \<Rightarrow>
        if usable_entry now (sa_mu c) key then c\<lparr>sa_due := sa_due c @ due_dups ss\<rparr>
        else
          let keep = pickOne ss;
              m1 = adopt_row now keep (sa_mu c);
              m2 = (if to_lower (rs_ID keep) \<notin> mOpened m1 \<and> now - mStarted m1 > pruneGrace
                    then m1\<lparr>mForeignAt := mForeignAt m1 @ [now]\<rparr> else m1)
          in c\<lparr>sa_mu := m2, sa_adopted := sa_adopted c @ [keep],
               sa_due := sa_due c @ due_dups (filter (\<lambda>s. rs_ID s \<noteq> rs_ID keep) ss)\<rparr>)"

text \<open>Pool slots whose session is not in the list, and the memory of duplicates that are gone.\<close>

definition prune_entry :: "time \<Rightarrow> string set \<Rightarrow> mu_state \<Rightarrow> entry \<Rightarrow> bool" where
  "prune_entry scanStart chain m e \<longleftrightarrow>
     to_lower (e_sessionID e) \<notin> chain \<and>
     (case mget (mSess m) (e_sessionID e) of
        None \<Rightarrow> True
      | Some st \<Rightarrow> \<not> (ss_inflight st > 0 \<or> ss_openedAt st > scanStart - pruneGrace))"

definition scan_prune :: "time \<Rightarrow> time \<Rightarrow> string set \<Rightarrow> mu_state \<Rightarrow> mu_state" where
  "scan_prune now scanStart chain m =
     m\<lparr>mForeignAt := filter (\<lambda>t. now - t < hour) (mForeignAt m),
       mEntries := mfilter (\<lambda>k e. \<not> prune_entry scanStart chain m e) (mEntries m),
       mKnownDup := mKnownDup m \<inter> chain\<rparr>"

text \<open>The longest any close-due session has been due.\<close>

definition oldestDueLocked :: "time \<Rightarrow> mu_state \<Rightarrow> dur" where
  "oldestDueLocked now m = foldl (\<lambda>o1 (i, t). if now - t > o1 then now - t else o1) 0 (mitems (mCloseDueAt m))"

definition localDueLocked :: "time \<Rightarrow> mu_state \<Rightarrow> nat \<times> dur" where
  "localDueLocked now m =
     foldl (\<lambda>(n, o1) (i, st).
         if \<not> ss_retired st \<or> ss_closing st \<or> ss_inflight st > 0 \<or> closingMarkedLocked i m then (n, o1)
         else (if mget (mCloseDueAt m) (to_lower i) = None then Suc n else n,
               if now - unheldSince st > o1 then now - unheldSince st else o1))
       (mlen (mCloseDueAt m), oldestDueLocked now m) (mitems (mSess m))"

definition record_due :: "time \<Rightarrow> cand list \<Rightarrow> mu_state \<Rightarrow> mu_state" where
  "record_due now due m =
     (let ids = map (\<lambda>(s, r). to_lower (rs_ID s)) due;
          added = foldl (\<lambda>d i. if mget d i = None then mput i now d else d) (mCloseDueAt m) ids
      in m\<lparr>mCloseDueAt := mfilter (\<lambda>i t. i \<in> set ids) added\<rparr>)"

definition due_key :: "mu_state \<Rightarrow> cand \<Rightarrow> time \<times> string" where
  "due_key m c = (case c of (s, r) \<Rightarrow>
     (case mget (mCloseDueAt m) (to_lower (rs_ID s)) of Some t \<Rightarrow> t | None \<Rightarrow> zero_time,
      to_lower (rs_ID s)))"

definition pick_close :: "time \<Rightarrow> cand list \<Rightarrow> mu_state \<Rightarrow> (string \<times> due_reason) option \<times> mu_state" where
  "pick_close now due m =
     (if due = [] then (None, m)
      else (case cutCloseMarkLocked now m of
              (True, m1) \<Rightarrow> (None, m1)
            | (False, m1) \<Rightarrow>
                (case hd (sort_key (due_key m1) due) of (s, r) \<Rightarrow>
                   (Some (rs_ID s, r),
                    m1\<lparr>mClosingIDs := mput (to_lower (rs_ID s)) zero_time (mClosingIDs m1)\<rparr>))))"

record scan_out =
  so_open :: nat
  so_adopted :: nat
  so_pooled :: nat
  so_close :: "(string \<times> due_reason) option"
  so_due :: nat
  so_oldest :: dur
  so_matched :: bool
  so_live :: "string set"
  so_closedLate :: "string list"

text \<open>The loops, up to and including adoption.\<close>

definition scan_rows ::
  "time \<Rightarrow> string set \<Rightarrow> string set \<Rightarrow> rsession list \<Rightarrow> mu_state \<Rightarrow> scan_acc" where
  "scan_rows now excluded retired open_s m =
     (let m1 = pruneAttemptsLocked now (clear_marks now (on_chain open_s) m)
      in fold (scan_row now excluded (held_ids m1)) open_s
           \<lparr>sa_mu = m1, sa_retired = retired, sa_due = [], sa_matched = [], sa_older = [],
            sa_hit = False, sa_adopted = []\<rparr>)"

definition scan_adopt :: "time \<Rightarrow> scan_acc \<Rightarrow> scan_acc" where
  "scan_adopt now c =
     (let c1 = fold (matched_group now) (mitems (sa_matched c)) c
      in fold (older_group now) (mitems (sa_older c1)) c1)"

definition chain_row :: "time \<Rightarrow> string set \<Rightarrow> rsession \<Rightarrow> chain_session" where
  "chain_row now pooledNow s =
     \<lparr>cs_ModelID = rs_ModelAgentID s, cs_SessionID = rs_ID s,
      cs_StakeWei = (case rs_Stake s of None \<Rightarrow> 0 | Some w \<Rightarrow> w), cs_EndsAt = of_unix (rs_EndsAt s),
      cs_Usable = (rs_EndsAt s > unix now + go_div expiryBuffer second),
      cs_Pooled = (rs_ID s \<in> pooledNow), cs_BidID = rs_BidID s\<rparr>"

definition pooled_ids :: "mu_state \<Rightarrow> string set" where
  "pooled_ids m = set (map (\<lambda>(k, e). e_sessionID e) (mitems (mEntries m)))"

definition applyScan ::
  "time \<Rightarrow> time \<Rightarrow> scan_mode \<Rightarrow> string set \<Rightarrow> string set \<Rightarrow> rsession list \<Rightarrow> mu_state \<Rightarrow>
   (scan_out \<times> chain_session list) \<times> mu_state" where
  "applyScan now scanStart mode excluded retired open_s m =
     (let c = scan_adopt now (scan_rows now excluded retired open_s m);
          m1 = scan_prune now scanStart (on_chain open_s) (sa_mu c);
          m2 = (if mode = ScanSweep then record_due now (sa_due c) m1 else m1)
      in (case (if mode = ScanSweep then pick_close now (sa_due c) m2 else (None, m2)) of
            (picked, m3) \<Rightarrow>
              let rows = map (chain_row now (pooled_ids m3)) open_s
              in ((\<lparr>so_open = length open_s, so_adopted = length (sa_adopted c),
                    so_pooled = length (filter cs_Pooled rows), so_close = picked,
                    so_due = (if mode = ScanSweep then length (sa_due c) else 0),
                    so_oldest = (if mode = ScanSweep then oldestDueLocked now m2 else 0),
                    so_matched = sa_hit c, so_live = live_models (unix now) open_s,
                    so_closedLate = closed_late (on_chain open_s) m\<rparr>, rows), m3)))"


subsection \<open>Lemmas: rows of the list\<close>

lemma closingMarked_cong: "mClosingIDs m' = mClosingIDs m \<Longrightarrow> closingMarkedLocked i m' = closingMarkedLocked i m"
  by (simp add: closingMarkedLocked_def)

text \<open>The order behind \<open>pickOne\<close>: latest end, then later open, then lowest id.\<close>

definition row_key :: "rsession \<Rightarrow> int \<times> int \<times> string" where
  "row_key s = (- rs_EndsAt s, - rs_OpenedAt s, to_lower (rs_ID s))"

interpretation rows: best_choice better_row row_key
  by unfold_locales (auto simp: better_row_def row_key_def)

lemma pickOne_mem: "ss \<noteq> [] \<Longrightarrow> pickOne ss \<in> set ss"
  using rows.fold_mem [of "hd ss" "tl ss"] by (cases ss) (auto simp: pickOne_def)

text \<open>What holds of a row that is adopted, kept as a candidate, or close-due.\<close>

definition unused :: "mu_state \<Rightarrow> string \<Rightarrow> bool" where
  "unused m i \<longleftrightarrow> (case mget (mSess m) i of None \<Rightarrow> True | Some st \<Rightarrow> ss_inflight st = 0 \<and> \<not> ss_closing st)"

definition row_ok :: "mu_state \<Rightarrow> rsession list \<Rightarrow> rsession \<Rightarrow> bool" where
  "row_ok m open_s s \<longleftrightarrow> s \<in> set open_s \<and> unused m (rs_ID s)"

definition groups_ok :: "mu_state \<Rightarrow> rsession list \<Rightarrow> rsession list gomap \<Rightarrow> bool" where
  "groups_ok m open_s g \<longleftrightarrow> (\<forall>k ss. mget g k = Some ss \<longrightarrow> ss \<noteq> [] \<and>
     (\<forall>s \<in> set ss. row_ok m open_s s \<and> normModel (rs_ModelAgentID s) = k))"

definition due_ok :: "mu_state \<Rightarrow> rsession list \<Rightarrow> cand list \<Rightarrow> bool" where
  "due_ok m open_s d \<longleftrightarrow> (\<forall>(s, r) \<in> set d. row_ok m open_s s)"

lemma groups_ok_add:
  assumes "groups_ok m open_s g" and "row_ok m open_s s" and "normModel (rs_ModelAgentID s) = k"
  shows "groups_ok m open_s (add_row k s g)"
  using assms by (cases "mget g k") (simp_all add: groups_ok_def add_row_def)

lemma groups_ok_mdel: "groups_ok m open_s g \<Longrightarrow> groups_ok m open_s (mdel k g)"
  by (auto simp: groups_ok_def)

lemma groups_okD:
  "groups_ok m open_s g \<Longrightarrow> mget g k = Some ss \<Longrightarrow> ss \<noteq> [] \<and>
     (\<forall>s \<in> set ss. row_ok m open_s s \<and> normModel (rs_ModelAgentID s) = k)"
  by (simp add: groups_ok_def)

lemma due_ok_append [simp]: "due_ok m open_s (d @ d') \<longleftrightarrow> due_ok m open_s d \<and> due_ok m open_s d'"
  by (auto simp: due_ok_def)

lemma due_ok_dups [simp]: "due_ok m open_s (due_dups ss) \<longleftrightarrow> (\<forall>s \<in> set ss. row_ok m open_s s)"
  by (auto simp: due_ok_def due_dups_def)

lemma due_ok_single [simp]: "due_ok m open_s [(s, r)] \<longleftrightarrow> row_ok m open_s s"
  by (simp add: due_ok_def)

text \<open>Parts of the pool the loop over the rows leaves alone.\<close>

definition same_lease :: "mu_state \<Rightarrow> mu_state \<Rightarrow> bool" where
  "same_lease m m' \<longleftrightarrow> mSess m' = mSess m \<and> mEntries m' = mEntries m \<and> mClosingIDs m' = mClosingIDs m"

lemma not_held_unused:
  assumes "to_lower i \<notin> held_ids m"
  shows "unused m i"
proof (cases "mget (mSess m) i")
  case None
  then show ?thesis by (simp add: unused_def)
next
  case (Some st)
  have "idle_retired st"
  proof (rule ccontr)
    assume "\<not> idle_retired st"
    with Some have "(i, st) \<in> set (filter (\<lambda>(i, st). \<not> idle_retired st) (mitems (mSess m)))"
      by (simp add: mem_mitems)
    then have "(to_lower \<circ> fst) (i, st) \<in> held_ids m" unfolding held_ids_def by force
    with assms show False by simp
  qed
  with Some show ?thesis by (simp add: unused_def idle_retired_def)
qed

definition acc_ok :: "mu_state \<Rightarrow> rsession list \<Rightarrow> scan_acc \<Rightarrow> bool" where
  "acc_ok m open_s c \<longleftrightarrow> due_ok m open_s (sa_due c) \<and> groups_ok m open_s (sa_matched c) \<and>
     groups_ok m open_s (sa_older c)"

lemma matchAttempt_model:
  "matchAttemptLocked s m = Some a \<Longrightarrow> normModel (rs_ModelAgentID s) = at_model a"
  by (auto simp: matchAttemptLocked_def find_Some_iff attempt_matches_def)

lemma scan_row_ok:
  assumes s: "s \<in> set open_s" and c: "acc_ok m open_s c" and same: "same_lease m (sa_mu c)"
  shows "acc_ok m open_s (scan_row now excluded (held_ids m) s c) \<and>
    same_lease m (sa_mu (scan_row now excluded (held_ids m) s c))"
proof -
  let ?m = "sa_mu c" and ?c' = "scan_row now excluded (held_ids m) s c"
  have sess: "mSess ?m = mSess m" using same by (simp add: same_lease_def)
  have same': "same_lease m (sa_mu ?c')"
    using same by (auto simp: scan_row_def Let_def same_lease_def resolveAttemptLocked_def
        split: option.splits)
  show ?thesis
  proof (cases "closingMarkedLocked (rs_ID s) ?m")
    case True
    then show ?thesis using c same by (simp add: scan_row_def Let_def)
  next
    case open': False
    show ?thesis
    proof (cases "to_lower (rs_ID s) \<in> held_ids m")
      case True
      then have "?c' = c \<or> unused m (rs_ID s) \<and> ?c' = c\<lparr>sa_due := sa_due c @ [(s, DueExpired)]\<rparr>"
        using open' by (auto simp: scan_row_def Let_def sess unused_def split: option.splits)
      with s c same' show ?thesis by (auto simp: acc_ok_def row_ok_def)
    next
      case False
      then have row: "row_ok m open_s s" using s not_held_unused by (simp add: row_ok_def)
      show ?thesis
      proof (cases "matchAttemptLocked s ?m")
        case (Some a)
        then have "acc_ok m open_s ?c'"
          using open' False row c matchAttempt_model [OF Some]
          by (simp add: scan_row_def Let_def acc_ok_def groups_ok_add)
        with same' show ?thesis by simp
      next
        case None
        then have "acc_ok m open_s ?c'"
          using open' False row c by (simp add: scan_row_def Let_def acc_ok_def groups_ok_add)
        with same' show ?thesis by simp
      qed
    qed
  qed
qed

text \<open>The pool the loops start from.\<close>

definition scan_start :: "time \<Rightarrow> rsession list \<Rightarrow> mu_state \<Rightarrow> mu_state" where
  "scan_start now open_s m = pruneAttemptsLocked now (clear_marks now (on_chain open_s) m)"

lemma scan_start_frame [simp]:
  "mSess (scan_start now open_s m) = mSess m" "mEntries (scan_start now open_s m) = mEntries m"
  by (simp_all add: scan_start_def pruneAttemptsLocked_def clear_marks_def)

lemma scan_rows_ok:
  "acc_ok (scan_start now open_s m) open_s (scan_rows now excluded retired open_s m) \<and>
   same_lease (scan_start now open_s m) (sa_mu (scan_rows now excluded retired open_s m))"
  unfolding scan_rows_def Let_def
  unfolding scan_start_def [symmetric]
  by (rule fold_invariant [where Q = "\<lambda>s. s \<in> set open_s"])
    (simp, simp add: acc_ok_def groups_ok_def due_ok_def same_lease_def, rule scan_row_ok, simp_all)

subsection \<open>Lemmas: adoption\<close>

text \<open>
  Adoption only adds lease states, all of them unused, and pool slots that point at rows of the
  list whose session is unused.
\<close>

definition sess_grown :: "mu_state \<Rightarrow> mu_state \<Rightarrow> bool" where
  "sess_grown m m' \<longleftrightarrow> mClosingIDs m' = mClosingIDs m \<and>
     (\<forall>i. mget (mSess m') i = mget (mSess m) i \<or> mget (mSess m) i = None \<and> unused m' i)"

lemma unused_grown: "sess_grown m m' \<Longrightarrow> unused m i \<Longrightarrow> unused m' i"
proof -
  assume "sess_grown m m'" and u: "unused m i"
  then consider "mget (mSess m') i = mget (mSess m) i" | "unused m' i"
    by (auto simp: sess_grown_def)
  then show ?thesis using u by cases (simp_all add: unused_def)
qed

lemma adopt_row_sess:
  "mget (mSess (adopt_row now s m)) i =
     (if i = rs_ID s \<and> mget (mSess m) i = None
      then Some \<lparr>ss_model = normModel (rs_ModelAgentID s), ss_inflight = 0, ss_holders = [],
        ss_lastUse = now, ss_openedAt = of_unix (rs_OpenedAt s), ss_endsAt = of_unix (rs_EndsAt s),
        ss_opener = [], ss_retired = False, ss_retiredAt = zero_time, ss_closing = False,
        ss_closeFails = 0\<rparr>
      else mget (mSess m) i)"
  by (auto simp: adopt_row_def Let_def)

lemma adopt_row_closing [simp]: "mClosingIDs (adopt_row now s m) = mClosingIDs m"
  by (simp add: adopt_row_def Let_def newStateLocked_def)

lemma adopt_row_entries:
  "mget (mEntries (adopt_row now s m)) k = Some e \<Longrightarrow>
     k = normModel (rs_ModelAgentID s) \<and> e_sessionID e = rs_ID s \<or> mget (mEntries m) k = Some e"
  by (auto simp: adopt_row_def Let_def split: if_splits)

lemma sess_grown_adopt:
  assumes "sess_grown m m'"
  shows "sess_grown m (adopt_row now s m')"
proof -
  have "mget (mSess (adopt_row now s m')) i = mget (mSess m) i \<or>
      mget (mSess m) i = None \<and> unused (adopt_row now s m') i" for i
  proof (cases "mget (mSess m') i = mget (mSess m) i")
    case True
    then show ?thesis
      by (cases "i = rs_ID s \<and> mget (mSess m) i = None") (auto simp: adopt_row_sess unused_def)
  next
    case False
    with assms have "mget (mSess m) i = None" and "unused m' i" by (auto simp: sess_grown_def)
    then show ?thesis by (simp add: adopt_row_sess unused_def split: option.splits)
  qed
  with assms show ?thesis by (simp add: sess_grown_def)
qed

lemma sess_grown_cong:
  "sess_grown m m1 \<Longrightarrow> mSess m2 = mSess m1 \<Longrightarrow> mClosingIDs m2 = mClosingIDs m1 \<Longrightarrow> sess_grown m m2"
  by (simp add: sess_grown_def unused_def)

lemma lease_inv_adopt_row:
  assumes "lease_inv mo m" and "mo (rs_ID s) = normModel (rs_ModelAgentID s)" and "unused m (rs_ID s)"
  shows "lease_inv mo (adopt_row now s m)"
  using assms
  by (auto simp: adopt_row_def Let_def unused_def intro!: lease_inv_newState lease_inv_put_entry
      split: option.splits)

lemma lease_inv_cong:
  "lease_inv mo m \<Longrightarrow> mSess m' = mSess m \<Longrightarrow> mEntries m' = mEntries m \<Longrightarrow> lease_inv mo m'"
  by (simp add: lease_inv_defs)

definition group_rows :: "mu_state \<Rightarrow> rsession list \<Rightarrow> string \<times> rsession list \<Rightarrow> bool" where
  "group_rows m open_s g \<longleftrightarrow> snd g \<noteq> [] \<and>
     (\<forall>s \<in> set (snd g). row_ok m open_s s \<and> normModel (rs_ModelAgentID s) = fst g)"

definition adopt_inv :: "mu_state \<Rightarrow> rsession list \<Rightarrow> scan_acc \<Rightarrow> bool" where
  "adopt_inv m open_s c \<longleftrightarrow> acc_ok m open_s c \<and> sess_grown m (sa_mu c) \<and>
     (\<forall>s \<in> set (sa_adopted c). row_ok m open_s s) \<and>
     (\<forall>k e. mget (mEntries (sa_mu c)) k = Some e \<longrightarrow>
        mget (mEntries m) k = Some e \<or> e_sessionID e \<in> rs_ID ` set (sa_adopted c)) \<and>
     (\<forall>i. mget (mSess m) i = None \<and> mget (mSess (sa_mu c)) i \<noteq> None \<longrightarrow>
        i \<in> rs_ID ` set (sa_adopted c))"

lemma mitems_groups: "groups_ok m open_s g \<Longrightarrow> x \<in> set (mitems g) \<Longrightarrow> group_rows m open_s x"
  by (cases x) (auto simp: mem_mitems group_rows_def groups_ok_def)

text \<open>Both kinds of group end in one of two ways: nothing adopted, or one row of the group.\<close>

lemma adopt_inv_due:
  assumes "adopt_inv m open_s c" and "due_ok m open_s d" and "sa_adopted c' = sa_adopted c"
    and "sa_due c' = sa_due c @ d" and "sa_matched c' = sa_matched c" and "sa_older c' = sa_older c"
    and "mSess (sa_mu c') = mSess (sa_mu c)" and "mEntries (sa_mu c') = mEntries (sa_mu c)"
    and "mClosingIDs (sa_mu c') = mClosingIDs (sa_mu c)"
  shows "adopt_inv m open_s c'"
  using assms by (auto simp: adopt_inv_def acc_ok_def intro: sess_grown_cong)

lemma adopt_inv_keep:
  assumes inv: "adopt_inv m open_s c" and keep: "row_ok m open_s s" and "due_ok m open_s d"
    and "sa_adopted c' = sa_adopted c @ [s]" and "sa_due c' = sa_due c @ d"
    and "sa_matched c' = sa_matched c" and "groups_ok m open_s (sa_older c')"
    and same: "mSess (sa_mu c') = mSess (adopt_row now s (sa_mu c))"
      "mEntries (sa_mu c') = mEntries (adopt_row now s (sa_mu c))"
      "mClosingIDs (sa_mu c') = mClosingIDs (sa_mu c)"
  shows "adopt_inv m open_s c'"
proof -
  have "sess_grown m (adopt_row now s (sa_mu c))"
    using inv by (intro sess_grown_adopt) (simp add: adopt_inv_def)
  then have "sess_grown m (sa_mu c')"
    by (rule sess_grown_cong) (simp_all add: same)
  moreover have "mget (mEntries m) k = Some e \<or> e_sessionID e \<in> rs_ID ` set (sa_adopted c')"
    if "mget (mEntries (sa_mu c')) k = Some e" for k e
    using adopt_row_entries [of now s "sa_mu c" k e] that inv assms(4)
    by (auto simp: same adopt_inv_def)
  moreover have "i \<in> rs_ID ` set (sa_adopted c')"
    if "mget (mSess m) i = None" "mget (mSess (sa_mu c')) i \<noteq> None" for i
    using that inv assms(4) by (cases "i = rs_ID s") (auto simp: same adopt_row_sess adopt_inv_def)
  ultimately show ?thesis
    using assms by (simp add: adopt_inv_def acc_ok_def)
qed

lemma matched_group_inv:
  assumes g: "group_rows m open_s g" and inv: "adopt_inv m open_s c"
  shows "adopt_inv m open_s (matched_group now g c)"
proof -
  obtain key ss where g': "g = (key, ss)" by (cases g)
  have rows: "ss \<noteq> []" "\<forall>s \<in> set ss. row_ok m open_s s" using g by (auto simp: g' group_rows_def)
  have older: "groups_ok m open_s (sa_older c)" using inv by (simp add: adopt_inv_def acc_ok_def)
  show ?thesis
  proof (cases "usable_entry now (sa_mu c) key")
    case True
    with rows show ?thesis
      by (intro adopt_inv_due [OF inv, of "due_dups ss"])
        (simp_all add: matched_group_def g' add_dups_def)
  next
    case False
    let ?old = "case mget (sa_older c) key of None \<Rightarrow> [] | Some ss \<Rightarrow> ss"
    let ?rest = "filter (\<lambda>s. rs_ID s \<noteq> rs_ID (pickOne ss)) ss"
    have "\<forall>s \<in> set ?old. row_ok m open_s s"
      using older by (cases "mget (sa_older c) key") (simp_all add: groups_ok_def)
    with False rows pickOne_mem [OF rows(1)] older show ?thesis
      by (intro adopt_inv_keep [OF inv, of "pickOne ss" "due_dups ?rest @ due_dups ?old" _ now])
        (simp_all add: matched_group_def g' add_dups_def Let_def groups_ok_mdel)
  qed
qed

lemma older_group_inv:
  assumes g: "group_rows m open_s g" and inv: "adopt_inv m open_s c"
  shows "adopt_inv m open_s (older_group now g c)"
proof -
  obtain key ss where g': "g = (key, ss)" by (cases g)
  have rows: "ss \<noteq> []" "\<forall>s \<in> set ss. row_ok m open_s s" using g by (auto simp: g' group_rows_def)
  have older: "groups_ok m open_s (sa_older c)" using inv by (simp add: adopt_inv_def acc_ok_def)
  show ?thesis
  proof (cases "usable_entry now (sa_mu c) key")
    case True
    with rows show ?thesis
      by (intro adopt_inv_due [OF inv, of "due_dups ss"]) (simp_all add: older_group_def g')
  next
    case False
    let ?rest = "filter (\<lambda>s. rs_ID s \<noteq> rs_ID (pickOne ss)) ss"
    from False rows pickOne_mem [OF rows(1)] older show ?thesis
      by (intro adopt_inv_keep [OF inv, of "pickOne ss" "due_dups ?rest" _ now])
        (simp_all add: older_group_def g' Let_def)
  qed
qed

lemma scan_adopt_inv:
  assumes ok: "acc_ok m open_s c" and same: "same_lease m (sa_mu c)" and "sa_adopted c = []"
  shows "adopt_inv m open_s (scan_adopt now c)"
proof -
  let ?c1 = "fold (matched_group now) (mitems (sa_matched c)) c"
  have 0: "adopt_inv m open_s c"
    using assms by (auto simp: adopt_inv_def same_lease_def sess_grown_def)
  have g: "groups_ok m open_s (sa_matched c)" using ok by (simp add: acc_ok_def)
  have 1: "adopt_inv m open_s ?c1"
    by (rule fold_invariant [where Q = "group_rows m open_s"])
      (rule mitems_groups [OF g], assumption, rule 0, rule matched_group_inv)
  then have g1: "groups_ok m open_s (sa_older ?c1)"
    by (simp add: adopt_inv_def acc_ok_def)
  show ?thesis
    unfolding scan_adopt_def Let_def
    by (rule fold_invariant [where Q = "group_rows m open_s"])
      (rule mitems_groups [OF g1], assumption, rule 1, rule older_group_inv)
qed

lemma scan_row_adopted [simp]: "sa_adopted (scan_row now excluded h s c) = sa_adopted c"
  by (simp add: scan_row_def Let_def split: option.splits)

lemma scan_rows_adopted [simp]: "sa_adopted (scan_rows now excluded retired open_s m) = []"
  unfolding scan_rows_def Let_def
  by (rule fold_invariant [where Q = "\<lambda>s. True"]) simp_all

text \<open>The state of the scan after the adoptions.\<close>

abbreviation scan_done :: "time \<Rightarrow> string set \<Rightarrow> string set \<Rightarrow> rsession list \<Rightarrow> mu_state \<Rightarrow> scan_acc" where
  "scan_done now excluded retired open_s m \<equiv> scan_adopt now (scan_rows now excluded retired open_s m)"

lemma scan_done_inv:
  "adopt_inv (scan_start now open_s m) open_s (scan_done now excluded retired open_s m)"
  using scan_rows_ok by (intro scan_adopt_inv) simp_all

lemma record_due_frame [simp]:
  "mSess (record_due now d m) = mSess m" "mEntries (record_due now d m) = mEntries m"
  "mClosingIDs (record_due now d m) = mClosingIDs m"
  by (simp_all add: record_due_def Let_def)

lemma scan_prune_frame [simp]:
  "mSess (scan_prune now s0 chain m) = mSess m" "mClosingIDs (scan_prune now s0 chain m) = mClosingIDs m"
  by (simp_all add: scan_prune_def)

lemma scan_prune_entries:
  "mget (mEntries (scan_prune now s0 chain m)) k = Some e \<Longrightarrow> mget (mEntries m) k = Some e"
  by (auto simp: scan_prune_def split: option.splits if_splits)

lemma pick_close_frame:
  "pick_close now due m = (p, m') \<Longrightarrow> mSess m' = mSess m \<and> mEntries m' = mEntries m"
  by (auto simp: pick_close_def dest: cutCloseMark_frame split: prod.splits bool.splits if_splits)

lemma pick_close_Some:
  assumes "pick_close now due m = (Some (i, r), m')"
  shows "\<exists>s. (s, r) \<in> set due \<and> rs_ID s = i \<and> closingMarkedLocked i m'"
proof -
  from assms obtain m1 where ne: "due \<noteq> []" and m1: "cutCloseMarkLocked now m = (False, m1)"
    by (auto simp: pick_close_def split: if_splits prod.splits bool.splits)
  obtain s r' where h: "hd (sort_key (due_key m1) due) = (s, r')" by (meson surj_pair)
  have "hd (sort_key (due_key m1) due) \<in> set (sort_key (due_key m1) due)"
    using ne by (intro hd_in_set) (metis length_0_conv length_sort)
  with h assms ne m1 show ?thesis
    by (auto simp: pick_close_def closingMarkedLocked_def)
qed

text \<open>What \<open>applyScan\<close> computes, in terms of the loops' result.\<close>

lemma applyScan_result:
  assumes "applyScan now s0 mode excluded retired open_s m = ((out, rows), m')"
  defines "c \<equiv> scan_done now excluded retired open_s m"
  shows "mSess m' = mSess (sa_mu c) \<and>
    mEntries m' = mEntries (scan_prune now s0 (on_chain open_s) (sa_mu c)) \<and>
    (so_close out = None \<or> mode = ScanSweep \<and> (\<exists>m2. pick_close now (sa_due c) m2 = (so_close out, m')))"
proof (cases mode)
  case ScanAdoptOnly
  with assms show ?thesis by (auto simp: applyScan_def Let_def)
next
  case ScanSweep
  let ?m2 = "record_due now (sa_due c) (scan_prune now s0 (on_chain open_s) (sa_mu c))"
  obtain p m3 where p: "pick_close now (sa_due c) ?m2 = (p, m3)" by (meson surj_pair)
  with ScanSweep assms have "m' = m3" "so_close out = p" by (auto simp: applyScan_def Let_def)
  with p pick_close_frame [OF p] ScanSweep show ?thesis by auto
qed

subsection \<open>Lemmas: no row is adopted and close-due\<close>

definition rows_of :: "rsession list gomap \<Rightarrow> rsession set" where
  "rows_of g = {s. \<exists>k ss. mget g k = Some ss \<and> s \<in> set ss}"

definition due_rows :: "scan_acc \<Rightarrow> rsession set" where
  "due_rows c = fst ` set (sa_due c)"

lemma fst_due_dups [simp]: "fst ` set (due_dups ss) = set ss"
  by (auto simp: due_dups_def image_image)

definition placed :: "scan_acc \<Rightarrow> rsession set" where
  "placed c = due_rows c \<union> rows_of (sa_matched c) \<union> rows_of (sa_older c)"

definition separate :: "scan_acc \<Rightarrow> bool" where
  "separate c \<longleftrightarrow> due_rows c \<inter> rows_of (sa_matched c) = {} \<and> due_rows c \<inter> rows_of (sa_older c) = {} \<and>
     rows_of (sa_matched c) \<inter> rows_of (sa_older c) = {}"

lemma rows_of_Nil [simp]: "rows_of [] = {}"
  by (simp add: rows_of_def)

lemma rows_ofI: "mget g k = Some ss \<Longrightarrow> s \<in> set ss \<Longrightarrow> s \<in> rows_of g"
  by (auto simp: rows_of_def)

lemma rows_of_add: "rows_of (add_row k s g) = insert s (rows_of g)"
proof
  show "rows_of (add_row k s g) \<subseteq> insert s (rows_of g)"
    by (cases "mget g k") (auto simp: rows_of_def add_row_def split: if_splits)
  let ?l = "(case mget g k of None \<Rightarrow> [] | Some ss \<Rightarrow> ss) @ [s]"
  have k: "mget (add_row k s g) k = Some ?l" by (simp add: add_row_def)
  have "x \<in> rows_of (add_row k s g)" if "mget g j = Some ss" "x \<in> set ss" for x j ss
  proof (cases "j = k")
    case True
    with that k show ?thesis by (intro rows_ofI [OF k]) simp
  next
    case False
    with that have "mget (add_row k s g) j = Some ss" by (simp add: add_row_def)
    then show ?thesis using that(2) by (rule rows_ofI)
  qed
  then show "insert s (rows_of g) \<subseteq> rows_of (add_row k s g)"
    using rows_ofI [OF k, of s] by (auto simp: rows_of_def [of g])
qed

lemma rows_of_mdel: "rows_of (mdel k g) \<subseteq> rows_of g"
  by (auto simp: rows_of_def split: if_splits)

text \<open>One row goes to at most one place.\<close>

lemma scan_row_fields:
  fixes now excluded h s c
  defines "c' \<equiv> scan_row now excluded h s c"
  shows "sa_due c' = sa_due c \<and> sa_matched c' = sa_matched c \<and> sa_older c' = sa_older c \<or>
    (\<exists>r. sa_due c' = sa_due c @ [(s, r)]) \<and> sa_matched c' = sa_matched c \<and> sa_older c' = sa_older c \<or>
    sa_due c' = sa_due c \<and> (\<exists>k. sa_matched c' = add_row k s (sa_matched c)) \<and> sa_older c' = sa_older c \<or>
    sa_due c' = sa_due c \<and> sa_matched c' = sa_matched c \<and> (\<exists>k. sa_older c' = add_row k s (sa_older c))"
proof (cases "closingMarkedLocked (rs_ID s) (sa_mu c)")
  case True
  then show ?thesis by (simp add: c'_def scan_row_def Let_def)
next
  case False
  show ?thesis
  proof (cases "to_lower (rs_ID s) \<in> h")
    case True
    with False show ?thesis by (simp add: c'_def scan_row_def Let_def)
  next
    case nh: False
    show ?thesis
    proof (cases "matchAttemptLocked s (sa_mu c)")
      case None
      then show ?thesis by (simp add: c'_def scan_row_def Let_def False nh) blast
    next
      case (Some a)
      then show ?thesis by (simp add: c'_def scan_row_def Let_def False nh) blast
    qed
  qed
qed

lemma scan_row_place:
  fixes now excluded h s c
  defines "c' \<equiv> scan_row now excluded h s c"
  shows "due_rows c' = due_rows c \<and> rows_of (sa_matched c') = rows_of (sa_matched c) \<and>
      rows_of (sa_older c') = rows_of (sa_older c) \<or>
    due_rows c' = insert s (due_rows c) \<and> rows_of (sa_matched c') = rows_of (sa_matched c) \<and>
      rows_of (sa_older c') = rows_of (sa_older c) \<or>
    due_rows c' = due_rows c \<and> rows_of (sa_matched c') = insert s (rows_of (sa_matched c)) \<and>
      rows_of (sa_older c') = rows_of (sa_older c) \<or>
    due_rows c' = due_rows c \<and> rows_of (sa_matched c') = rows_of (sa_matched c) \<and>
      rows_of (sa_older c') = insert s (rows_of (sa_older c))"
  using scan_row_fields [of now excluded h s c]
  by (elim disjE conjE exE) (simp_all add: c'_def due_rows_def rows_of_add)

lemma separate_step:
  assumes "D' = D \<and> M' = M \<and> O' = O1 \<or> D' = insert s D \<and> M' = M \<and> O' = O1 \<or>
      D' = D \<and> M' = insert s M \<and> O' = O1 \<or> D' = D \<and> M' = M \<and> O' = insert s O1"
    and "D \<inter> M = {} \<and> D \<inter> O1 = {} \<and> M \<inter> O1 = {}" and "s \<notin> D \<union> M \<union> O1"
  shows "(D' \<inter> M' = {} \<and> D' \<inter> O' = {} \<and> M' \<inter> O' = {}) \<and> D' \<union> M' \<union> O' \<subseteq> insert s (D \<union> M \<union> O1)"
  using assms(1)
proof (elim disjE conjE)
qed (use assms(2,3) in auto)

lemma scan_row_separate:
  assumes "separate c" and "s \<notin> placed c"
  shows "separate (scan_row now excluded h s c) \<and> placed (scan_row now excluded h s c) \<subseteq> insert s (placed c)"
  using separate_step [OF scan_row_place [of now excluded h s c]] assms
  unfolding separate_def placed_def by blast

lemma scan_rows_separate_fold:
  assumes "separate c" and "placed c \<inter> set xs = {}" and "distinct xs"
  shows "separate (fold (scan_row now excluded h) xs c)"
  using assms
proof (induction xs arbitrary: c)
  case (Cons s xs)
  then have "s \<notin> placed c" by simp
  note r = scan_row_separate [OF Cons.prems(1) this, of now excluded h]
  with Cons.prems have "placed (scan_row now excluded h s c) \<inter> set xs = {}" by auto
  with r Cons show ?case by simp
qed simp

lemma scan_rows_separate:
  assumes "distinct open_s"
  shows "separate (scan_rows now excluded retired open_s m)"
  unfolding scan_rows_def Let_def
  by (rule scan_rows_separate_fold) (simp_all add: separate_def placed_def due_rows_def assms)

text \<open>The adopted rows, the close-due rows, and the groups still to come.\<close>

definition apart :: "scan_acc \<Rightarrow> bool" where
  "apart c \<longleftrightarrow> set (sa_adopted c) \<inter> due_rows c = {} \<and>
     (set (sa_adopted c) \<union> due_rows c) \<inter> rows_of (sa_older c) = {}"

definition todo_ok :: "rsession set \<Rightarrow> (string \<times> rsession list) list \<Rightarrow> bool" where
  "todo_ok used gs \<longleftrightarrow> distinct (map fst gs) \<and>
     (\<forall>(k, ss) \<in> set gs. ss \<noteq> [] \<and> set ss \<inter> used = {} \<and>
        (\<forall>s \<in> set ss. normModel (rs_ModelAgentID s) = k))"

lemma todo_ok_Cons:
  assumes "todo_ok used ((k, ss) # gs)" and "used' \<subseteq> used \<union> set ss"
  shows "todo_ok used' gs"
  unfolding todo_ok_def
proof (intro conjI ballI)
  show "distinct (map fst gs)" using assms(1) by (simp add: todo_ok_def)
  fix g assume g: "g \<in> set gs"
  obtain j ts where jt: "g = (j, ts)" by (cases g)
  have "j \<in> fst ` set gs" using g jt by (metis fst_conv image_eqI)
  then have "j \<noteq> k" using assms(1) by (auto simp: todo_ok_def)
  moreover have "ts \<noteq> []" "set ts \<inter> used = {}" "\<forall>s \<in> set ts. normModel (rs_ModelAgentID s) = j"
    and "\<forall>s \<in> set ss. normModel (rs_ModelAgentID s) = k"
    using g jt assms(1) unfolding todo_ok_def by (simp_all add: Ball_def)
  moreover from calculation have "set ts \<inter> set ss = {}" by (metis disjoint_iff)
  ultimately have "set ts \<inter> used' = {}" using assms(2) by blast
  with \<open>ts \<noteq> []\<close> \<open>\<forall>s \<in> set ts. normModel (rs_ModelAgentID s) = j\<close> jt
  show "case g of (k, ss) \<Rightarrow> ss \<noteq> [] \<and> set ss \<inter> used' = {} \<and>
      (\<forall>s \<in> set ss. normModel (rs_ModelAgentID s) = k)" by simp
qed

lemma old_rows_apart:
  assumes "groups_ok m open_s g"
  shows "set (case mget g k of None \<Rightarrow> [] | Some ss \<Rightarrow> ss) \<subseteq> rows_of g \<and>
    set (case mget g k of None \<Rightarrow> [] | Some ss \<Rightarrow> ss) \<inter> rows_of (mdel k g) = {}"
proof (cases "mget g k")
  case (Some ss)
  have "normModel (rs_ModelAgentID s) = k" if "s \<in> set ss" for s
    using groups_okD [OF assms Some] that by simp
  moreover have "normModel (rs_ModelAgentID s) \<noteq> k" if "s \<in> rows_of (mdel k g)" for s
    using that groups_okD [OF assms] by (auto simp: rows_of_def split: if_splits)
  ultimately have "set ss \<inter> rows_of (mdel k g) = {}" by auto
  then show ?thesis using Some rows_ofI [OF Some] by auto
qed simp

text \<open>The set algebra of one step.\<close>

lemma apart_step:
  assumes "A \<inter> D = {}" and "(A \<union> D) \<inter> O1 = {}" and "x \<in> S" and "x \<notin> R" and "R \<subseteq> S"
    and "S \<inter> (A \<union> D \<union> O1) = {}" and "L \<subseteq> O1" and "L \<inter> O2 = {}" and "O2 \<subseteq> O1"
  shows "insert x A \<inter> (D \<union> R \<union> L) = {} \<and> (insert x A \<union> (D \<union> R \<union> L)) \<inter> O2 = {} \<and>
    insert x A \<union> (D \<union> R \<union> L) \<union> O2 \<subseteq> A \<union> D \<union> O1 \<union> S"
  using assms by blast

lemma matched_group_apart:
  assumes apart: "apart c" and ok: "groups_ok m open_s (sa_older c)" and todo: "todo_ok (set (sa_adopted c) \<union> due_rows c \<union> rows_of (sa_older c)) (g # gs)"
  shows "apart (matched_group now g c) \<and>
    todo_ok (set (sa_adopted (matched_group now g c)) \<union> due_rows (matched_group now g c) \<union>
      rows_of (sa_older (matched_group now g c))) gs"
proof -
  obtain k ss where g: "g = (k, ss)" by (cases g)
  let ?c' = "matched_group now g c" and ?used = "set (sa_adopted c) \<union> due_rows c \<union> rows_of (sa_older c)"
  from todo have ss: "ss \<noteq> []" "set ss \<inter> ?used = {}" by (auto simp: todo_ok_def g)
  have "apart ?c' \<and> set (sa_adopted ?c') \<union> due_rows ?c' \<union> rows_of (sa_older ?c') \<subseteq> ?used \<union> set ss"
  proof (cases "usable_entry now (sa_mu c) k")
    case True
    with apart ss show ?thesis
      by (auto simp: matched_group_def g apart_def due_rows_def due_dups_def)
  next
    case False
    let ?rest = "set (filter (\<lambda>s. rs_ID s \<noteq> rs_ID (pickOne ss)) ss)"
    let ?old = "set (case mget (sa_older c) k of None \<Rightarrow> [] | Some ss \<Rightarrow> ss)"
    have eqs: "set (sa_adopted ?c') = insert (pickOne ss) (set (sa_adopted c))"
      "due_rows ?c' = due_rows c \<union> ?rest \<union> ?old" "sa_older ?c' = mdel k (sa_older c)"
      using False by (simp_all add: matched_group_def g Let_def due_rows_def image_Un Un_assoc)
    note old = old_rows_apart [OF ok, of k]
    have keep: "pickOne ss \<in> set ss" "pickOne ss \<notin> ?rest" "?rest \<subseteq> set ss"
      using pickOne_mem [OF ss(1)] by auto
    have ap: "set (sa_adopted c) \<inter> due_rows c = {}"
      "(set (sa_adopted c) \<union> due_rows c) \<inter> rows_of (sa_older c) = {}"
      using apart by (simp_all add: apart_def)
    show ?thesis
      unfolding apart_def eqs conj_assoc
      by (rule apart_step [OF ap keep ss(2) _ _ rows_of_mdel]) (use old in blast)+
  qed
  then show ?thesis using todo_ok_Cons [OF todo [unfolded g]] by blast
qed

lemma older_group_apart:
  assumes apart: "set (sa_adopted c) \<inter> due_rows c = {}"
    and todo: "todo_ok (set (sa_adopted c) \<union> due_rows c) (g # gs)"
  shows "set (sa_adopted (older_group now g c)) \<inter> due_rows (older_group now g c) = {} \<and>
    todo_ok (set (sa_adopted (older_group now g c)) \<union> due_rows (older_group now g c)) gs"
proof -
  obtain k ss where g: "g = (k, ss)" by (cases g)
  let ?c' = "older_group now g c" and ?used = "set (sa_adopted c) \<union> due_rows c"
  from todo have ss: "ss \<noteq> []" "set ss \<inter> ?used = {}" by (auto simp: todo_ok_def g)
  have "set (sa_adopted ?c') \<inter> due_rows ?c' = {} \<and> set (sa_adopted ?c') \<union> due_rows ?c' \<subseteq> ?used \<union> set ss"
  proof (cases "usable_entry now (sa_mu c) k")
    case True
    with apart ss show ?thesis
      by (auto simp: older_group_def g due_rows_def due_dups_def)
  next
    case False
    let ?rest = "set (filter (\<lambda>s. rs_ID s \<noteq> rs_ID (pickOne ss)) ss)"
    have eqs: "set (sa_adopted ?c') = insert (pickOne ss) (set (sa_adopted c))"
      "due_rows ?c' = due_rows c \<union> ?rest"
      using False by (simp_all add: older_group_def g Let_def due_rows_def image_Un Un_assoc)
    have keep: "pickOne ss \<in> set ss" "pickOne ss \<notin> ?rest" "?rest \<subseteq> set ss"
      using pickOne_mem [OF ss(1)] by auto
    from keep ss(2) apart show ?thesis unfolding eqs by blast
  qed
  then show ?thesis using todo_ok_Cons [OF todo [unfolded g]] by blast
qed

lemma matched_groups_apart:
  assumes "apart c" and "adopt_inv m open_s c" and "\<forall>g \<in> set gs. group_rows m open_s g"
    and "todo_ok (set (sa_adopted c) \<union> due_rows c \<union> rows_of (sa_older c)) gs"
  shows "apart (fold (matched_group now) gs c)"
  using assms
proof (induction gs arbitrary: c)
  case (Cons g gs)
  from Cons.prems(2) have "groups_ok m open_s (sa_older c)" by (simp add: adopt_inv_def acc_ok_def)
  note a = matched_group_apart [OF Cons.prems(1) this Cons.prems(4), of now]
  have "adopt_inv m open_s (matched_group now g c)"
    using Cons.prems by (intro matched_group_inv) simp_all
  with a Cons show ?case by simp
qed simp

lemma older_groups_apart:
  assumes "set (sa_adopted c) \<inter> due_rows c = {}" and "todo_ok (set (sa_adopted c) \<union> due_rows c) gs"
  shows "set (sa_adopted (fold (older_group now) gs c)) \<inter> due_rows (fold (older_group now) gs c) = {}"
  using assms
proof (induction gs arbitrary: c)
  case (Cons g gs)
  from older_group_apart [OF Cons.prems, of now] Cons.IH show ?case by simp
qed simp

lemma todo_mitems:
  assumes "groups_ok m open_s g" and "used \<inter> rows_of g = {}"
  shows "todo_ok used (mitems g)"
proof -
  have "ss \<noteq> [] \<and> set ss \<inter> used = {} \<and> (\<forall>s \<in> set ss. normModel (rs_ModelAgentID s) = k)"
    if "(k, ss) \<in> set (mitems g)" for k ss
    using that assms(2) groups_okD [OF assms(1), of k ss] by (auto simp: mem_mitems rows_of_def)
  then show ?thesis by (auto simp: todo_ok_def)
qed

lemma scan_apart:
  fixes now excluded retired open_s m
  assumes "distinct open_s"
  defines "c' \<equiv> scan_done now excluded retired open_s m"
  shows "set (sa_adopted c') \<inter> due_rows c' = {}"
proof -
  let ?c = "scan_rows now excluded retired open_s m" and ?m = "scan_start now open_s m"
  let ?c1 = "fold (matched_group now) (mitems (sa_matched ?c)) ?c"
  note ok = scan_rows_ok [of now open_s m excluded retired]
  note sep = scan_rows_separate [OF assms(1), of now excluded retired m]
  have g: "groups_ok ?m open_s (sa_matched ?c)" using ok by (simp add: acc_ok_def)
  have inv: "adopt_inv ?m open_s ?c" using ok by (auto simp: adopt_inv_def same_lease_def sess_grown_def)
  have "apart ?c1"
  proof (rule matched_groups_apart [OF _ inv])
    show "apart ?c" using sep by (auto simp: apart_def separate_def)
    show "\<forall>g \<in> set (mitems (sa_matched ?c)). group_rows ?m open_s g" using mitems_groups [OF g] by blast
    show "todo_ok (set (sa_adopted ?c) \<union> due_rows ?c \<union> rows_of (sa_older ?c)) (mitems (sa_matched ?c))"
      using sep by (intro todo_mitems [OF g]) (auto simp: separate_def)
  qed
  moreover have "adopt_inv ?m open_s ?c1"
    by (rule fold_invariant [where Q = "group_rows ?m open_s"])
      (rule mitems_groups [OF g], assumption, rule inv, rule matched_group_inv)
  then have "groups_ok ?m open_s (sa_older ?c1)" by (simp add: adopt_inv_def acc_ok_def)
  ultimately show ?thesis
    unfolding c'_def scan_adopt_def Let_def
    by (intro older_groups_apart todo_mitems) (auto simp: apart_def)
qed


subsection \<open>Properties\<close>

lemma lease_inv_add_dups [simp]: "lease_inv mo (add_dups ss m) = lease_inv mo m"
  by (simp add: lease_inv_defs add_dups_def)

lemma lease_inv_foreign [simp]: "lease_inv mo (m\<lparr>mForeignAt := x\<rparr>) = lease_inv mo m"
  by (simp add: lease_inv_defs)

lemma lease_inv_groups:
  assumes g: "group_rows m open_s g" and inv: "adopt_inv m open_s c" and li: "lease_inv mo (sa_mu c)"
    and mo: "\<And>s. s \<in> set open_s \<Longrightarrow> mo (rs_ID s) = normModel (rs_ModelAgentID s)"
  shows "lease_inv mo (sa_mu (matched_group now g c)) \<and> lease_inv mo (sa_mu (older_group now g c))"
proof -
  obtain key ss where g': "g = (key, ss)" by (cases g)
  have "pickOne ss \<in> set ss" using g by (simp add: g' group_rows_def pickOne_mem)
  with g have row: "row_ok m open_s (pickOne ss)" by (simp add: g' group_rows_def)
  then have "unused (sa_mu c) (rs_ID (pickOne ss))"
    using inv by (auto simp: adopt_inv_def row_ok_def intro: unused_grown [of m "sa_mu c"])
  with row mo have a: "lease_inv mo (adopt_row now (pickOne ss) (sa_mu c))"
    by (auto simp: row_ok_def intro: lease_inv_adopt_row [OF li])
  show ?thesis
    by (cases "usable_entry now (sa_mu c) key")
      (simp_all add: matched_group_def older_group_def g' Let_def li a)
qed

lemma lease_inv_scan_done:
  assumes li: "lease_inv mo m"
    and mo: "\<And>s. s \<in> set open_s \<Longrightarrow> mo (rs_ID s) = normModel (rs_ModelAgentID s)"
  shows "lease_inv mo (sa_mu (scan_done now excluded retired open_s m))"
proof -
  let ?m = "scan_start now open_s m" and ?c = "scan_rows now excluded retired open_s m"
  note ok = scan_rows_ok [of now open_s m excluded retired]
  have inv: "adopt_inv ?m open_s ?c" using ok by (auto simp: adopt_inv_def same_lease_def sess_grown_def)
  have "lease_inv mo ?m" using li by (rule lease_inv_cong) simp_all
  then have li0: "lease_inv mo (sa_mu ?c)"
    by (rule lease_inv_cong) (use ok in \<open>simp_all add: same_lease_def\<close>)
  have g: "groups_ok ?m open_s (sa_matched ?c)" using ok by (simp add: acc_ok_def)
  let ?P = "\<lambda>c. adopt_inv ?m open_s c \<and> lease_inv mo (sa_mu c)"
  let ?c1 = "fold (matched_group now) (mitems (sa_matched ?c)) ?c"
  have step: "?P (matched_group now x s) \<and> ?P (older_group now x s)"
    if "group_rows ?m open_s x" "?P s" for x s
    using that matched_group_inv [OF that(1), of s now] older_group_inv [OF that(1), of s now]
      lease_inv_groups [OF that(1) _ _ mo, of s now] by simp
  have 1: "?P ?c1"
    by (rule fold_invariant [where Q = "group_rows ?m open_s" and P = ?P])
      (rule mitems_groups [OF g], assumption, rule conjI [OF inv li0], rule step [THEN conjunct1])
  then have g1: "groups_ok ?m open_s (sa_older ?c1)" by (simp add: adopt_inv_def acc_ok_def)
  have "?P (fold (older_group now) (mitems (sa_older ?c1)) ?c1)"
    by (rule fold_invariant [where Q = "group_rows ?m open_s" and P = ?P])
      (rule mitems_groups [OF g1], assumption, rule 1, rule step [THEN conjunct2])
  then show ?thesis by (simp add: scan_adopt_def Let_def)
qed

lemma lease_inv_applyScan:
  assumes "lease_inv mo m" and "\<And>s. s \<in> set open_s \<Longrightarrow> mo (rs_ID s) = normModel (rs_ModelAgentID s)"
    and "applyScan now s0 mode excluded retired open_s m = ((out, rows), m')"
  shows "lease_inv mo m'"
proof -
  let ?c = "scan_done now excluded retired open_s m"
  from applyScan_result [OF assms(3)] have "mSess m' = mSess (sa_mu ?c)"
    and e: "mEntries m' = mEntries (scan_prune now s0 (on_chain open_s) (sa_mu ?c))" by simp_all
  then show ?thesis
    using scan_prune_entries [of now s0 "on_chain open_s" "sa_mu ?c"]
    by (intro lease_inv_fewer [OF lease_inv_scan_done [OF assms(1,2), of open_s now excluded retired]])
      simp_all
qed




text \<open>
  Among several sessions the one kept is a listed one that no other beats: latest end, then
  later open, then lowest id; and the choice does not depend on the order of the list, which comes
  from a Go map or from the router, when the ids differ.
\<close>

theorem pickOne_best:
  assumes "ss \<noteq> []"
  shows "pickOne ss \<in> set ss \<and> (\<forall>s \<in> set ss. row_key (pickOne ss) \<le> row_key s) \<and>
    (\<forall>ts. set ts = set ss \<and> inj_on (to_lower \<circ> rs_ID) (set ss) \<longrightarrow> pickOne ts = pickOne ss)"
proof -
  obtain x xs where ss: "ss = x # xs" using assms by (cases ss) auto
  have "pickOne ts = pickOne ss" if t: "set ts = set ss" and inj: "inj_on (to_lower \<circ> rs_ID) (set ss)" for ts
  proof -
    obtain y ys where ts: "ts = y # ys" using t ss by (cases ts) auto
    have "inj_on row_key (set ss)" using inj by (auto simp: inj_on_def row_key_def)
    with t show ?thesis
      unfolding pickOne_def ss ts list.sel by (intro rows.fold_unique) simp_all
  qed
  moreover have "row_key (pickOne ss) \<le> row_key s" if "s \<in> set ss" for s
    using rows.fold_least [of s x xs] that by (simp add: pickOne_def ss)
  ultimately show ?thesis using pickOne_mem [OF assms] by blast
qed

lemma pickOne_best_witness:
  "let a = \<lparr>rs_ID = ''0xB'', rs_ModelAgentID = ''m'', rs_Provider = ''p'', rs_BidID = ''b'',
             rs_Stake = None, rs_OpenedAt = 5, rs_EndsAt = 9, rs_ClosedAt = 0\<rparr>;
       b = a\<lparr>rs_ID := ''0xa''\<rparr>
   in pickOne [a, b] = b \<and> pickOne [b, a] = b \<and> row_key b \<le> row_key a"
proof -
  let ?a = "\<lparr>rs_ID = ''0xB'', rs_ModelAgentID = ''m'', rs_Provider = ''p'', rs_BidID = ''b'',
             rs_Stake = None, rs_OpenedAt = 5, rs_EndsAt = 9, rs_ClosedAt = 0\<rparr>"
  let ?b = "?a\<lparr>rs_ID := ''0xa''\<rparr>"
  have e: "pickOne [?a, ?b] = ?b" by code_simp
  have "to_lower ''0xB'' \<noteq> to_lower ''0xa''" by code_simp
  then have "inj_on (to_lower \<circ> rs_ID) {?a, ?b}" by simp
  with pickOne_best [of "[?a, ?b]"] e show ?thesis
    by (simp add: Let_def insert_commute)
qed

text \<open>A scan of the status poll, and the end of an open, at the times of the run below.\<close>

definition race_scan :: "mu_state \<Rightarrow> mu_state" where
  "race_scan m = snd (applyScan (of_unix 1000001) (of_unix 1000001) ScanAdoptOnly {} {}
     [\<lparr>rs_ID = ''0xA'', rs_ModelAgentID = ''m'', rs_Provider = ''p'', rs_BidID = ''b'', rs_Stake = None,
       rs_OpenedAt = 1000000, rs_EndsAt = 1003600, rs_ClosedAt = 0\<rparr>] m)"

definition race_open :: "mu_state \<Rightarrow> mu_state" where
  "race_open m = snd (leaseLocked (of_unix 1000003) ''0xA'' ''k1''
     (poolOpenedLocked (of_unix 1000003) ''m''
        \<lparr>or_id = ''0xA'', or_provider = ''p'', or_adopted = False, or_resumed = False,
         or_openedAt = 0, or_endsAt = 0, or_stake = None\<rparr> 3600 ''k1'' m))"


end
