(* ===== verification/Lease_Steps.thy ===== *)
theory Lease_Steps
  imports Scan
begin

section \<open>The critical sections interleaved: what the lease counts mean\<close>

text \<open>
  Requests, releases, failovers, scans and sweeps run concurrently; every change of the lease
  states is one critical section of \<open>p.mu\<close>. \<open>lease_step\<close> runs them in any order. Besides the
  pool it keeps what no field of the pool stores: the session of every lease that was handed out
  and not ended (\<open>lsOut\<close>), and the sessions whose close was reported (\<open>lsGone\<close>). \<open>mo\<close> gives each
  session its model.

  Two steps carry a condition that the code does not check in the critical section itself. An
  open's session is pooled with a fresh state, so it must not be tracked yet
  (\<open>open_race_loses_lease\<close> shows what happens otherwise); a session the router named is leased
  whatever its state, so it must not be retired or closing (\<open>adoptable\<close> saw no state for it).
\<close>

record lease_sys =
  lsMu :: mu_state
  lsOut :: "string list"
  lsGone :: "string set"

definition lease_sys_start :: "time \<Rightarrow> lease_sys" where
  "lease_sys_start now = \<lparr>lsMu = new_mu now, lsOut = [], lsGone = {}\<rparr>"

inductive lease_step :: "(string \<Rightarrow> string) \<Rightarrow> lease_sys \<Rightarrow> lease_sys \<Rightarrow> bool" for mo where
  ls_try: "tryPooledLocked now key k (lsMu s) = (Some l, m') \<Longrightarrow>
     lease_step mo s (s\<lparr>lsMu := m', lsOut := ls_session l # lsOut s\<rparr>)"
| ls_miss: "tryPooledLocked now key k (lsMu s) = (None, m') \<Longrightarrow> lease_step mo s (s\<lparr>lsMu := m'\<rparr>)"
| ls_lease: "LeaseSession now i k (lsMu s) = (Some l, m') \<Longrightarrow>
     lease_step mo s (s\<lparr>lsMu := m', lsOut := ls_session l # lsOut s\<rparr>)"
| ls_lease_miss: "LeaseSession now i k (lsMu s) = (None, m') \<Longrightarrow> lease_step mo s (s\<lparr>lsMu := m'\<rparr>)"
| ls_done: "i \<in> set (lsOut s) \<Longrightarrow>
     lease_done now \<lparr>ls_session = i, ls_done = False\<rparr> (lsMu s) = (r, m') \<Longrightarrow>
     lease_step mo s (s\<lparr>lsMu := m', lsOut := remove1 i (lsOut s)\<rparr>)"
| ls_opened: "mget (mSess (lsMu s)) (or_id got) = None \<Longrightarrow> or_id got \<notin> lsGone s \<Longrightarrow>
     mo (or_id got) = key \<Longrightarrow>
     leaseLocked now (or_id got) k (poolOpenedLocked now key got dur_s k (lsMu s)) = (l, m') \<Longrightarrow>
     lease_step mo s (s\<lparr>lsMu := m', lsOut := or_id got # lsOut s\<rparr>)"
| ls_adopted: "(\<And>st. mget (mSess (lsMu s)) (or_id got) = Some st \<Longrightarrow> \<not> ss_closing st \<and> \<not> ss_retired st) \<Longrightarrow>
     or_id got \<notin> lsGone s \<Longrightarrow> mo (or_id got) = key \<Longrightarrow>
     leaseLocked now (or_id got) k (adoptLocked now key got (lsMu s)) = (l, m') \<Longrightarrow>
     lease_step mo s (s\<lparr>lsMu := m', lsOut := or_id got # lsOut s\<rparr>)"
| ls_release: "Release now modelID k (lsMu s) = (r, m') \<Longrightarrow> lease_step mo s (s\<lparr>lsMu := m'\<rparr>)"
| ls_failover: "retireForFailover now (mo i) i (lsMu s) = (b, m') \<Longrightarrow> lease_step mo s (s\<lparr>lsMu := m'\<rparr>)"
| ls_failover_failed: "lease_step mo s (s\<lparr>lsMu := failoverCloseFailed i (lsMu s)\<rparr>)"
| ls_sweep: "sweep_pick now grace idle (lsMu s) = (Some i, m1) \<Longrightarrow> sweep_start_close i m1 = (t, m') \<Longrightarrow>
     lease_step mo s (s\<lparr>lsMu := m'\<rparr>)"
| ls_sweep_failed: "lease_step mo s (s\<lparr>lsMu := sweep_close_failed now i (lsMu s)\<rparr>)"
| ls_scan: "(\<And>r. r \<in> set open_s \<Longrightarrow> rs_ID r \<notin> lsGone s \<and> mo (rs_ID r) = normModel (rs_ModelAgentID r)) \<Longrightarrow>
     applyScan now s0 mode excluded retired open_s (lsMu s) = (r, m') \<Longrightarrow>
     lease_step mo s (s\<lparr>lsMu := m'\<rparr>)"
| ls_closed: "i \<noteq> [] \<Longrightarrow> lease_step mo s (s\<lparr>lsMu := forget i (lsMu s), lsGone := insert i (lsGone s)\<rparr>)"

inductive lease_reachable :: "(string \<Rightarrow> string) \<Rightarrow> lease_sys \<Rightarrow> bool" for mo where
  lr_start: "lease_reachable mo (lease_sys_start now)"
| lr_step: "lease_reachable mo s \<Longrightarrow> lease_step mo s s' \<Longrightarrow> lease_reachable mo s'"

subsection \<open>The invariant\<close>

definition counted :: "string list \<Rightarrow> string set \<Rightarrow> mu_state \<Rightarrow> string \<Rightarrow> bool" where
  "counted out gone m i \<longleftrightarrow>
     (case mget (mSess m) i of
        Some st \<Rightarrow> ss_inflight st = int (count_list out i) \<and> i \<notin> gone
      | None \<Rightarrow> i \<in> gone \<or> i \<notin> set out)"

definition acct :: "string list \<Rightarrow> string set \<Rightarrow> mu_state \<Rightarrow> bool" where
  "acct out gone m \<longleftrightarrow> (\<forall>i. counted out gone m i) \<and>
     (\<forall>k e. mget (mEntries m) k = Some e \<longrightarrow> e_sessionID e \<notin> gone)"

lemma acct_countedD: "acct out gone m \<Longrightarrow> counted out gone m i"
  by (simp add: acct_def)

lemma acct_entryD: "acct out gone m \<Longrightarrow> mget (mEntries m) k = Some e \<Longrightarrow> e_sessionID e \<notin> gone"
  by (auto simp: acct_def)

text \<open>One lease state changes, and the leases of that session with it.\<close>

lemma acct_put:
  assumes "acct out gone m" and "mSess m' = mput i st (mSess m)"
    and "\<And>k e. mget (mEntries m') k = Some e \<Longrightarrow> mget (mEntries m) k = Some e \<or> e_sessionID e = i"
    and "ss_inflight st = int (count_list out' i)" and "i \<notin> gone"
    and "\<And>j. j \<noteq> i \<Longrightarrow> count_list out' j = count_list out j"
  shows "acct out' gone m'"
proof -
  have "counted out' gone m' j" for j
  proof (cases "j = i")
    case True
    then show ?thesis using assms by (simp add: counted_def)
  next
    case False
    with assms(6) [OF False] have "j \<in> set out' \<longleftrightarrow> j \<in> set out"
      by (metis count_list_0_iff)
    then show ?thesis
      using acct_countedD [OF assms(1), of j] assms(2) assms(6) [OF False] False
      by (simp add: counted_def split: option.splits)
  qed
  moreover have "e_sessionID e \<notin> gone" if "mget (mEntries m') k = Some e" for k e
    using assms(3) [OF that] acct_entryD [OF assms(1)] assms(5) by auto
  ultimately show ?thesis by (simp add: acct_def)
qed

text \<open>The count of no session changes.\<close>

lemma acct_same:
  assumes "acct out gone m"
    and "\<And>i. map_option ss_inflight (mget (mSess m') i) = map_option ss_inflight (mget (mSess m) i) \<or>
       mget (mSess m) i = None \<and> i \<notin> gone \<and> map_option ss_inflight (mget (mSess m') i) = Some 0"
    and "\<And>k e. mget (mEntries m') k = Some e \<Longrightarrow> mget (mEntries m) k = Some e \<or> e_sessionID e \<notin> gone"
  shows "acct out gone m'"
proof -
  have "counted out gone m' i" for i
    using assms(2) [of i] acct_countedD [OF assms(1), of i]
    by (cases "mget (mSess m') i"; cases "mget (mSess m) i") (auto simp: counted_def count_list_0_iff)
  moreover have "e_sessionID e \<notin> gone" if "mget (mEntries m') k = Some e" for k e
    using assms(3) [OF that] acct_entryD [OF assms(1)] by auto
  ultimately show ?thesis by (simp add: acct_def)
qed

lemma acct_stateLocked:
  assumes "acct out gone m" and "mget (mEntries m) key' = Some e" and "stateLocked now key e m = (st, m')"
  shows "acct out gone m' \<and> mget (mSess m') (e_sessionID e) = Some st \<and> mEntries m' = mEntries m"
proof -
  have "acct out gone m'"
    using acct_entryD [OF assms(1,2)] assms(3)
    by (intro acct_same [OF assms(1)]) (auto simp: stateLocked_def Let_def split: option.splits if_splits)
  with assms(3) show ?thesis by (auto simp: stateLocked_def Let_def split: option.splits)
qed

lemma acct_leaseLocked:
  assumes "acct out gone m" and "leaseLocked now i k m = (l, m')" and "mget (mSess m) i \<noteq> None"
  shows "acct (i # out) gone m' \<and> ls_session l = i \<and> mEntries m' = mEntries m"
proof -
  obtain st where st: "mget (mSess m) i = Some st" using assms(3) by auto
  let ?st = "st\<lparr>ss_inflight := ss_inflight st + 1,
    ss_holders := if k \<noteq> [] then mput k now (ss_holders st) else ss_holders st, ss_lastUse := now\<rparr>"
  have m': "m' = m\<lparr>mSess := mput i ?st (mSess m)\<rparr>" and l: "ls_session l = i"
    using assms(2) st by (auto simp: leaseLocked_def)
  have "acct (i # out) gone m'"
    using acct_countedD [OF assms(1), of i] st
    by (intro acct_put [OF assms(1), of m' i ?st]) (simp_all add: m' counted_def)
  with l m' show ?thesis by simp
qed

lemma acct_tryPooled:
  assumes "acct out gone m" and "tryPooledLocked now key k m = (r, m')"
  shows "(case r of None \<Rightarrow> acct out gone m' | Some l \<Rightarrow> acct (ls_session l # out) gone m')"
proof (cases "mget (mEntries m) key")
  case None
  with assms show ?thesis by (auto simp: tryPooledLocked_def)
next
  case (Some e)
  obtain st m1 where st: "stateLocked now key e m = (st, m1)" by (meson surj_pair)
  obtain l m2 where l: "leaseLocked now (e_sessionID e) k m1 = (l, m2)" by (meson surj_pair)
  note a = acct_stateLocked [OF assms(1) Some st]
  have "r = None \<and> m' = m \<or> r = None \<and> m' = m1 \<or> r = Some l \<and> m' = m2"
    using assms(2) Some st l by (auto simp: tryPooledLocked_def split: if_splits)
  with assms(1) a acct_leaseLocked [OF _ l, of out gone] show ?thesis by auto
qed

lemma acct_done:
  assumes a: "acct out gone m" and i: "i \<in> set out"
    and run: "lease_done now \<lparr>ls_session = i, ls_done = False\<rparr> m = (r, m')"
  shows "acct (remove1 i out) gone m'"
proof (cases "mget (mSess m) i")
  case None
  then have m': "m' = m" and g: "i \<in> gone"
    using run i acct_countedD [OF a, of i] by (auto simp: lease_done_def counted_def)
  have "counted (remove1 i out) gone m j" for j
  proof (cases "j = i")
    case False
    then show ?thesis using acct_countedD [OF a, of j] by (simp add: counted_def split: option.splits)
  qed (use None g in \<open>simp add: counted_def\<close>)
  then show ?thesis using a by (simp add: acct_def m')
next
  case (Some st)
  have c: "ss_inflight st = int (count_list out i)" "i \<notin> gone"
    using acct_countedD [OF a, of i] Some by (simp_all add: counted_def)
  have pos: "0 < count_list out i" using i by (simp add: count_list_0_iff zero_less_iff_neq_zero)
  have r1: "count_list (remove1 i out) i = count_list out i - 1" for i :: string
    by (induction out) auto
  have "mSess m' = mput i (st\<lparr>ss_inflight := ss_inflight st - 1, ss_lastUse := now\<rparr>) (mSess m)"
    and "mEntries m' = mEntries m"
    using run Some c pos by (auto simp: lease_done_def Let_def)
  then show ?thesis
    using c pos by (intro acct_put [OF a]) (auto simp: r1)
qed

lemma acct_lease_loop:
  assumes "acct out gone m" and "\<And>key e. (key, e) \<in> set es \<Longrightarrow> mget (mEntries m) key = Some e"
    and "lease_session_loop now sid k es m = (r, m')"
  shows "(case r of None \<Rightarrow> acct out gone m' | Some l \<Rightarrow> acct (ls_session l # out) gone m')"
  using assms
proof (induction now sid k es m rule: lease_session_loop.induct)
  case (2 now sid k key e es m)
  show ?case
  proof (cases "e_sessionID e \<noteq> sid \<or> \<not> now < e_expiresAt e")
    case True
    with 2 show ?thesis by simp
  next
    case False
    then have sid: "e_sessionID e = sid" by simp
    obtain st m1 where st: "stateLocked now key e m = (st, m1)" by (meson surj_pair)
    obtain l m2 where l: "leaseLocked now sid k m1 = (l, m2)" by (meson surj_pair)
    have "mget (mEntries m) key = Some e" using "2.prems"(2) by simp
    note a = acct_stateLocked [OF "2.prems"(1) this st]
    have "r = None \<and> m' = m1 \<or> r = Some l \<and> m' = m2"
      using "2.prems"(3) False st l by (auto split: if_splits)
    with a sid acct_leaseLocked [OF _ l, of out gone] show ?thesis by auto
  qed
qed simp

lemma acct_LeaseSession:
  assumes "acct out gone m" and "LeaseSession now sid k m = (r, m')"
  shows "(case r of None \<Rightarrow> acct out gone m' | Some l \<Rightarrow> acct (ls_session l # out) gone m')"
  using assms(2) unfolding LeaseSession_def
  by (intro acct_lease_loop [OF assms(1), of "mitems (mEntries m)"]) (simp_all add: mem_mitems)

lemma acct_put_fresh:
  assumes "acct out gone m" and "mget (mSess m) i = None" and "i \<notin> gone"
    and "mSess m' = mput i st (mSess m)" and "ss_inflight st = 0"
    and "\<And>k e. mget (mEntries m') k = Some e \<Longrightarrow> mget (mEntries m) k = Some e \<or> e_sessionID e = i"
  shows "acct out gone m'"
  using acct_countedD [OF assms(1), of i] assms
  by (intro acct_put [OF assms(1), of m' i st]) (auto simp: counted_def count_list_0_iff)

lemma acct_poolOpened:
  assumes "acct out gone m" and "mget (mSess m) (or_id got) = None" and "or_id got \<notin> gone"
  shows "acct out gone (poolOpenedLocked now key got dur_s k m)"
  by (rule acct_put_fresh [OF assms])
    (auto simp: poolOpenedLocked_def newStateLocked_def Let_def split: if_splits)

lemma acct_adopt:
  assumes "acct out gone m" and "or_id got \<notin> gone"
  shows "acct out gone (adoptLocked now key got m)"
  using assms(2) by (intro acct_same [OF assms(1)])
    (auto simp: adoptLocked_def newStateLocked_def Let_def split: option.splits if_splits)

lemma adoptLocked_tracked: "mget (mSess (adoptLocked now key got m)) (or_id got) \<noteq> None"
  by (auto simp: adoptLocked_def Let_def split: option.splits)

lemma poolOpened_tracked: "mget (mSess (poolOpenedLocked now key got dur_s k m)) (or_id got) \<noteq> None"
  by (simp add: poolOpenedLocked_def Let_def)

text \<open>The other sections never touch a count and only drop pool slots.\<close>

lemma drop_entry_sub:
  "mget (mEntries (drop_entry key sid m)) k = Some e \<Longrightarrow> mget (mEntries m) k = Some e"
  by (auto split: option.splits if_splits)

lemma acct_Release: "acct out gone m \<Longrightarrow> Release now modelID k m = (r, m') \<Longrightarrow> acct out gone m'"
  by (erule acct_same)
    (auto simp: Release_def Let_def mput_def [symmetric] split: option.splits if_splits prod.splits
      dest!: release_target_state)

lemma acct_retire:
  "acct out gone m \<Longrightarrow> retireForFailover now key sid m = (b, m') \<Longrightarrow> acct out gone m'"
  by (erule acct_same)
    (auto simp: retireForFailover_def Let_def split: option.splits if_splits dest: drop_entry_sub)

lemma acct_close_failed: "acct out gone m \<Longrightarrow> acct out gone (failoverCloseFailed sid m)"
  by (erule acct_same) (auto simp: failoverCloseFailed_def split: option.splits)

lemma acct_sweep_failed: "acct out gone m \<Longrightarrow> acct out gone (sweep_close_failed now sid m)"
  by (erule acct_same) (auto simp: sweep_close_failed_def Let_def split: option.splits)

lemma acct_sweep:
  assumes "acct out gone m" and "sweep_pick now grace idle m = (Some i, m1)"
    and "sweep_start_close i m1 = (t, m')"
  shows "acct out gone m'"
proof -
  from sweep_pick_eligible [OF assms(2)] obtain st where st: "mget (mSess m) i = Some st"
    and same: "mSess m1 = mSess m" "mEntries m1 = mEntries m" by auto
  have m': "m' = drop_entry (ss_model st) i (m1\<lparr>mSess := mput i (st\<lparr>ss_closing := True\<rparr>) (mSess m)\<rparr>)"
    using assms(3) st by (simp add: sweep_start_close_def Let_def same)
  have "mget (mEntries m') k = Some e \<Longrightarrow> mget (mEntries m) k = Some e" for k e
    unfolding m' by (drule drop_entry_sub) (simp add: same)
  then show ?thesis
    using st by (intro acct_same [OF assms(1)]) (simp_all add: m')
qed

lemma acct_scan:
  assumes a: "acct out gone m" and rows: "\<And>r. r \<in> set open_s \<Longrightarrow> rs_ID r \<notin> gone"
    and run: "applyScan now s0 mode excluded retired open_s m = (r, m')"
  shows "acct out gone m'"
proof -
  let ?c = "scan_done now excluded retired open_s m" and ?m = "scan_start now open_s m"
  have inv: "adopt_inv ?m open_s ?c" by (rule scan_done_inv)
  obtain o1 rw where "r = (o1, rw)" by (cases r)
  with applyScan_result run have m': "mSess m' = mSess (sa_mu ?c)"
    "mEntries m' = mEntries (scan_prune now s0 (on_chain open_s) (sa_mu ?c))" by auto
  have gone: "i \<notin> gone" if "i \<in> rs_ID ` set (sa_adopted ?c)" for i
    using that inv rows by (auto simp: adopt_inv_def row_ok_def)
  show ?thesis
  proof (rule acct_same [OF a])
    fix i
    from inv have "mget (mSess (sa_mu ?c)) i = mget (mSess m) i \<or>
       mget (mSess m) i = None \<and> unused (sa_mu ?c) i"
      by (simp add: adopt_inv_def sess_grown_def)
    moreover from inv have "mget (mSess m) i = None \<and> mget (mSess (sa_mu ?c)) i \<noteq> None \<Longrightarrow> i \<notin> gone"
      by (intro gone) (simp add: adopt_inv_def)
    ultimately show "map_option ss_inflight (mget (mSess m') i) = map_option ss_inflight (mget (mSess m) i) \<or>
       mget (mSess m) i = None \<and> i \<notin> gone \<and> map_option ss_inflight (mget (mSess m') i) = Some 0"
      unfolding m'(1) by (elim disjE conjE; cases "mget (mSess (sa_mu ?c)) i") (simp_all add: unused_def)
  next
    fix k e assume "mget (mEntries m') k = Some e"
    then have "mget (mEntries (sa_mu ?c)) k = Some e" unfolding m' by (rule scan_prune_entries)
    with inv have "mget (mEntries m) k = Some e \<or> e_sessionID e \<in> rs_ID ` set (sa_adopted ?c)"
      by (simp add: adopt_inv_def)
    then show "mget (mEntries m) k = Some e \<or> e_sessionID e \<notin> gone"
      using gone by blast
  qed
qed

lemma acct_forget:
  assumes "acct out gone m" and "i \<noteq> []"
  shows "acct out (insert i gone) (forget i m)"
proof -
  have "counted out (insert i gone) (forget i m) j" for j
    using acct_countedD [OF assms(1), of j] assms(2)
    by (auto simp: counted_def forget_def Let_def split: option.splits)
  moreover have "e_sessionID e \<notin> insert i gone" if "mget (mEntries (forget i m)) k = Some e" for k e
    using that assms(2) acct_entryD [OF assms(1), of k e]
    by (auto simp: forget_def Let_def split: option.splits if_splits)
  ultimately show ?thesis by (simp add: acct_def)
qed


definition sys_inv :: "(string \<Rightarrow> string) \<Rightarrow> lease_sys \<Rightarrow> bool" where
  "sys_inv mo s \<longleftrightarrow> lease_inv mo (lsMu s) \<and> acct (lsOut s) (lsGone s) (lsMu s)"

lemma lease_inv_forget: "lease_inv mo m \<Longrightarrow> lease_inv mo (forget i m)"
  by (erule lease_inv_less) (auto simp: forget_def Let_def split: option.splits if_splits)

lemma lease_inv_opened:
  assumes "lease_inv mo m" and "mo (or_id got) = key"
    and "leaseLocked now (or_id got) k (poolOpenedLocked now key got dur_s k m) = (l, m')"
  shows "lease_inv mo m'"
  using lease_inv_poolOpened [OF assms(1,2)] assms(3)
  by (rule lease_inv_leaseLocked) (auto simp: poolOpenedLocked_def Let_def)

lemma lease_inv_adopted:
  assumes "lease_inv mo m" and "mo (or_id got) = key"
    and "\<And>st. mget (mSess m) (or_id got) = Some st \<Longrightarrow> \<not> ss_closing st"
    and "leaseLocked now (or_id got) k (adoptLocked now key got m) = (l, m')"
  shows "lease_inv mo m'"
  using lease_inv_adopt [OF assms(1,2,3)] assms(4)
  by (rule lease_inv_leaseLocked)
    (use assms(3) in \<open>auto simp: adoptLocked_def Let_def split: option.splits\<close>)

lemma sys_inv_step:
  assumes "lease_step mo s s'" and "sys_inv mo s"
  shows "sys_inv mo s'"
proof -
  from assms(2) have li: "lease_inv mo (lsMu s)" and a: "acct (lsOut s) (lsGone s) (lsMu s)"
    by (simp_all add: sys_inv_def)
  from assms(1) show ?thesis
  proof cases
    case ls_try
    with lease_inv_tryPooled [OF li, of _ _ _ "Some _"] acct_tryPooled [OF a, of _ _ _ "Some _"]
    show ?thesis by (simp add: sys_inv_def)
  next
    case ls_miss
    with lease_inv_tryPooled [OF li, of _ _ _ None] acct_tryPooled [OF a, of _ _ _ None]
    show ?thesis by (simp add: sys_inv_def)
  next
    case (ls_lease now i k l m')
    with lease_inv_LeaseSession [OF li] acct_LeaseSession [OF a, of now i k "Some l"]
    show ?thesis by (simp add: sys_inv_def)
  next
    case (ls_lease_miss now i k m')
    with lease_inv_LeaseSession [OF li] acct_LeaseSession [OF a, of now i k None]
    show ?thesis by (simp add: sys_inv_def)
  next
    case ls_done
    with lease_inv_done [OF li] acct_done [OF a] show ?thesis by (simp add: sys_inv_def)
  next
    case (ls_opened got key now k dur_s l m')
    have "acct (or_id got # lsOut s) (lsGone s) m'"
      using acct_leaseLocked [OF acct_poolOpened [OF a ls_opened(2,3)] ls_opened(5) poolOpened_tracked]
      by simp
    then show ?thesis using lease_inv_opened [OF li ls_opened(4,5)] ls_opened(1) by (simp add: sys_inv_def)
  next
    case (ls_adopted got key now k l m')
    have "acct (or_id got # lsOut s) (lsGone s) m'"
      using acct_leaseLocked [OF acct_adopt [OF a ls_adopted(3)] ls_adopted(5) adoptLocked_tracked] by simp
    then show ?thesis
      using lease_inv_adopted [OF li ls_adopted(4) _ ls_adopted(5)] ls_adopted(1,2) by (simp add: sys_inv_def)
  next
    case ls_release
    with lease_inv_Release [OF li] acct_Release [OF a] show ?thesis by (simp add: sys_inv_def)
  next
    case ls_failover
    with lease_inv_retire [OF li] acct_retire [OF a] show ?thesis by (simp add: sys_inv_def)
  next
    case ls_failover_failed
    with lease_inv_close_failed [OF li] acct_close_failed [OF a] show ?thesis by (simp add: sys_inv_def)
  next
    case ls_sweep
    with lease_inv_sweep_close [OF li] acct_sweep [OF a] show ?thesis by (simp add: sys_inv_def)
  next
    case ls_sweep_failed
    with lease_inv_sweep_failed [OF li] acct_sweep_failed [OF a] show ?thesis by (simp add: sys_inv_def)
  next
    case (ls_scan open_s now s0 mode excluded retired r m')
    obtain o1 rw where "r = (o1, rw)" by (cases r)
    with ls_scan lease_inv_applyScan [OF li, of open_s] acct_scan [OF a, of open_s] show ?thesis
      by (simp add: sys_inv_def)
  next
    case ls_closed
    with lease_inv_forget [OF li] acct_forget [OF a] show ?thesis by (simp add: sys_inv_def)
  qed
qed

lemma sys_inv_reachable: "lease_reachable mo s \<Longrightarrow> sys_inv mo s"
proof (induction rule: lease_reachable.induct)
  case (lr_start now)
  then show ?case
    using lease_inv_new [of mo now]
    by (simp add: sys_inv_def lease_sys_start_def acct_def counted_def) (simp add: new_mu_def)
next
  case (lr_step s s')
  then show ?case by (blast intro: sys_inv_step)
qed


subsection \<open>Retired and closed sessions\<close>

definition keeps_retired :: "mu_state \<Rightarrow> mu_state \<Rightarrow> bool" where
  "keeps_retired m m' \<longleftrightarrow> (\<forall>i st. mget (mSess m) i = Some st \<and> ss_retired st \<longrightarrow>
     (\<exists>st'. mget (mSess m') i = Some st' \<and> ss_retired st'))"

lemma keeps_retired_refl: "keeps_retired m m"
  by (simp add: keeps_retired_def)

lemma keeps_retired_trans: "keeps_retired m m1 \<Longrightarrow> keeps_retired m1 m' \<Longrightarrow> keeps_retired m m'"
  unfolding keeps_retired_def by blast

lemma keeps_retired_put:
  "mSess m' = mput i st (mSess m) \<Longrightarrow>
   (\<And>st0. mget (mSess m) i = Some st0 \<Longrightarrow> ss_retired st0 \<Longrightarrow> ss_retired st) \<Longrightarrow> keeps_retired m m'"
  by (auto simp: keeps_retired_def)

lemma keeps_stateLocked: "stateLocked now key e m = (st, m') \<Longrightarrow> keeps_retired m m'"
  by (auto simp: stateLocked_def Let_def keeps_retired_def split: option.splits)

lemma keeps_leaseLocked: "leaseLocked now i k m = (l, m') \<Longrightarrow> keeps_retired m m'"
  by (auto simp: leaseLocked_def keeps_retired_def split: option.splits)

lemma keeps_tryPooled:
  assumes "tryPooledLocked now key k m = (r, m')"
  shows "keeps_retired m m'"
proof (cases "mget (mEntries m) key")
  case None
  with assms show ?thesis by (simp add: tryPooledLocked_def keeps_retired_refl)
next
  case (Some e)
  obtain st m1 where st: "stateLocked now key e m = (st, m1)" by (meson surj_pair)
  obtain l m2 where l: "leaseLocked now (e_sessionID e) k m1 = (l, m2)" by (meson surj_pair)
  have "m' = m \<or> m' = m1 \<or> m' = m2"
    using assms Some st l by (auto simp: tryPooledLocked_def split: if_splits)
  with keeps_stateLocked [OF st] keeps_leaseLocked [OF l] show ?thesis
    by (auto intro: keeps_retired_refl keeps_retired_trans)
qed

lemma lease_loop_retired:
  assumes "lease_session_loop now sid k es m = (r, m')"
  shows "keeps_retired m m' \<and> (r = Some l \<longrightarrow> ls_session l = sid \<and>
    (\<exists>key e. (key, e) \<in> set es \<and> e_sessionID e = sid) \<and>
    (\<forall>st. mget (mSess m) sid = Some st \<longrightarrow> \<not> ss_retired st))"
  using assms
proof (induction now sid k es m rule: lease_session_loop.induct)
  case (2 now sid k key e es m)
  show ?case
  proof (cases "e_sessionID e \<noteq> sid \<or> \<not> now < e_expiresAt e")
    case True
    with 2 show ?thesis by (simp; blast)
  next
    case False
    then have sid: "e_sessionID e = sid" by simp
    obtain st m1 where st: "stateLocked now key e m = (st, m1)" by (meson surj_pair)
    obtain l1 m2 where l: "leaseLocked now sid k m1 = (l1, m2)" by (meson surj_pair)
    have "r = None \<and> m' = m1 \<or> r = Some l1 \<and> m' = m2 \<and> \<not> ss_retired st"
      using "2.prems" False st l by (auto split: if_splits)
    moreover have "ls_session l1 = sid" using l by (auto simp: leaseLocked_def)
    moreover have "ss_retired st0 \<longleftrightarrow> ss_retired st" if "mget (mSess m) sid = Some st0" for st0
      using st that sid by (simp add: stateLocked_def)
    ultimately show ?thesis
      using keeps_stateLocked [OF st] keeps_leaseLocked [OF l] sid keeps_retired_trans by auto
  qed
qed (simp add: keeps_retired_refl)

lemma keeps_done: "lease_done now l m = (r, m') \<Longrightarrow> keeps_retired m m'"
  by (auto simp: lease_done_def Let_def keeps_retired_def split: option.splits if_splits)

lemma keeps_release: "Release now modelID k m = (r, m') \<Longrightarrow> keeps_retired m m'"
  by (auto simp: Release_def Let_def keeps_retired_def split: option.splits if_splits prod.splits
      dest!: release_target_state)

lemma keeps_retire: "retireForFailover now key i m = (b, m') \<Longrightarrow> keeps_retired m m'"
  by (auto simp: retireForFailover_def Let_def keeps_retired_def split: option.splits if_splits)

lemma keeps_close_failed: "keeps_retired m (failoverCloseFailed i m)"
  by (auto simp: failoverCloseFailed_def keeps_retired_def split: option.splits)

lemma keeps_sweep_failed: "keeps_retired m (sweep_close_failed now i m)"
  by (auto simp: sweep_close_failed_def Let_def keeps_retired_def split: option.splits)

lemma keeps_sweep: "sweep_pick now grace idle m = (p, m1) \<Longrightarrow> sweep_start_close i m1 = (t, m') \<Longrightarrow>
    keeps_retired m m'"
  by (auto simp: sweep_pick_def sweep_start_close_def Let_def keeps_retired_def
      split: prod.splits bool.splits list.splits option.splits dest!: cutCloseMark_frame)

lemma keeps_scan:
  assumes "applyScan now s0 mode excluded retired open_s m = (r, m')"
  shows "keeps_retired m m'"
proof -
  let ?c = "scan_done now excluded retired open_s m"
  obtain o1 rw where "r = (o1, rw)" by (cases r)
  with applyScan_result assms have m': "mSess m' = mSess (sa_mu ?c)" by auto
  have "sess_grown (scan_start now open_s m) (sa_mu ?c)"
    using scan_done_inv by (simp add: adopt_inv_def)
  then have "mget (mSess m') i = mget (mSess m) i \<or> mget (mSess m) i = None" for i
    by (auto simp: sess_grown_def m')
  then show ?thesis unfolding keeps_retired_def by (metis option.distinct(1))
qed

definition dead :: "string \<Rightarrow> lease_sys \<Rightarrow> bool" where
  "dead i s \<longleftrightarrow> i \<in> lsGone s \<or> (\<exists>st. mget (mSess (lsMu s)) i = Some st \<and> ss_retired st)"

lemma dead_kept:
  assumes "dead i s" and "keeps_retired (lsMu s) m'" and "lsGone s' = lsGone s" and "lsMu s' = m'"
  shows "dead i s'"
  using assms by (auto simp: dead_def keeps_retired_def)


lemma dead_step:
  assumes step: "lease_step mo s s'" and inv: "sys_inv mo s" and dead: "dead i s"
  shows "dead i s' \<and> count_list (lsOut s') i \<le> count_list (lsOut s) i"
proof -
  from inv have a: "acct (lsOut s) (lsGone s) (lsMu s)" by (simp add: sys_inv_def)
  note keep = dead_kept [OF dead]
  from step show ?thesis
  proof cases
    case (ls_try now key k l m')
    from tryPooled_Some [OF ls_try(2)] have "ls_session l \<noteq> i"
      using dead acct_entryD [OF a] by (auto simp: dead_def)
    with keep [OF keeps_tryPooled [OF ls_try(2)], where s' = s'] ls_try(1) show ?thesis by simp
  next
    case (ls_miss now key k m')
    with keep [OF keeps_tryPooled [OF ls_miss(2)], where s' = s'] show ?thesis by simp
  next
    case (ls_lease now j k l m')
    note r = lease_loop_retired [OF ls_lease(2) [unfolded LeaseSession_def], of l]
    then obtain key e where l: "ls_session l = j" and e: "mget (mEntries (lsMu s)) key = Some e" "e_sessionID e = j"
      and "\<forall>st. mget (mSess (lsMu s)) j = Some st \<longrightarrow> \<not> ss_retired st"
      by (auto simp: mem_mitems)
    moreover have "j \<notin> lsGone s" using acct_entryD [OF a e(1)] e(2) by simp
    ultimately have "ls_session l \<noteq> i" using dead by (auto simp: dead_def)
    with keep [of m' s'] r ls_lease(1) show ?thesis by simp
  next
    case (ls_lease_miss now j k m')
    note r = lease_loop_retired [OF ls_lease_miss(2) [unfolded LeaseSession_def]]
    with keep [of m' s'] ls_lease_miss(1) show ?thesis by simp
  next
    case (ls_done j now r m')
    have "count_list (remove1 j xs) i \<le> count_list xs i" for xs :: "string list"
      by (induction xs) auto
    with keep [OF keeps_done [OF ls_done(3)], where s' = s'] ls_done(1) show ?thesis by simp
  next
    case (ls_opened got key now k dur_s l m')
    have "or_id got \<noteq> i" using dead ls_opened(2,3) by (auto simp: dead_def)
    moreover have "keeps_retired (lsMu s) (poolOpenedLocked now key got dur_s k (lsMu s))"
      using ls_opened(2) by (auto simp: keeps_retired_def poolOpenedLocked_def Let_def)
    with keeps_leaseLocked [OF ls_opened(5)] have "keeps_retired (lsMu s) m'" by (blast intro: keeps_retired_trans)
    ultimately show ?thesis using keep [of m' s'] ls_opened(1) by simp
  next
    case (ls_adopted got key now k l m')
    have "or_id got \<noteq> i" using dead ls_adopted(2,3) by (auto simp: dead_def)
    moreover have "keeps_retired (lsMu s) (adoptLocked now key got (lsMu s))"
      by (auto simp: keeps_retired_def adoptLocked_def Let_def split: option.splits)
    with keeps_leaseLocked [OF ls_adopted(5)] have "keeps_retired (lsMu s) m'" by (blast intro: keeps_retired_trans)
    ultimately show ?thesis using keep [of m' s'] ls_adopted(1) by simp
  next
    case ls_release
    with keep [OF keeps_release, where s' = s'] show ?thesis by simp
  next
    case ls_failover
    with keep [OF keeps_retire, where s' = s'] show ?thesis by simp
  next
    case ls_failover_failed
    with keep [OF keeps_close_failed, where s' = s'] show ?thesis by simp
  next
    case ls_sweep
    with keep [OF keeps_sweep, where s' = s'] show ?thesis by simp
  next
    case ls_sweep_failed
    with keep [OF keeps_sweep_failed, where s' = s'] show ?thesis by simp
  next
    case ls_scan
    with keep [OF keeps_scan, where s' = s'] show ?thesis by simp
  next
    case (ls_closed j)
    have "mget (mSess (forget j m)) i = (if i = j then None else mget (mSess m) i)" for m
      by (simp add: forget_def Let_def)
    with dead ls_closed show ?thesis by (auto simp: dead_def)
  qed
qed

subsection \<open>Properties\<close>



text \<open>
  C7: \<open>Release\<close> answers "closing" exactly when the key held a session of the model as its only
  holder and no request is in flight on it; that session is then retired and out of the pool, and
  every other lease state is unchanged. In every other case the session stays as it is, except
  that the key is no longer a holder.
\<close>

theorem Release_closing_iff:
  assumes "Release now modelID k m = ((released, why, target), m')"
    and "release_target (normModel modelID) k m = Some (i, st)" and "k \<noteq> []"
  shows "released \<and> (why = ClosingSoon \<longleftrightarrow> mlen (mdel k (ss_holders st)) = 0 \<and> ss_inflight st \<le> 0) \<and>
    (target = (if why = ClosingSoon then Some (i, ss_endsAt st) else None)) \<and>
    (\<forall>j. j \<noteq> i \<longrightarrow> mget (mSess m') j = mget (mSess m) j) \<and>
    (\<exists>st'. mget (mSess m') i = Some st' \<and> ss_holders st' = mdel k (ss_holders st) \<and>
       ss_retired st' = (ss_retired st \<or> why = ClosingSoon)) \<and>
    (why = ClosingSoon \<longrightarrow>
       (\<forall>e. mget (mEntries m') (normModel modelID) = Some e \<longrightarrow> e_sessionID e \<noteq> i))"
  using assms
  by (cases "mlen (mdel k (ss_holders st)) = 0"; cases "ss_inflight st \<le> 0")
    (auto simp: Release_def Let_def split: if_splits option.splits simp: markRetired_def)


text \<open>A run: two requests lease one session, the second holder releases it after both ended.\<close>

definition run_open :: open_result where
  "run_open = \<lparr>or_id = ''0xa'', or_provider = ''p'', or_adopted = False, or_resumed = False,
     or_openedAt = 0, or_endsAt = 0, or_stake = None\<rparr>"

definition run1 :: mu_state where
  "run1 = snd (leaseLocked 10 ''0xa'' ''k1'' (poolOpenedLocked 10 ''m'' run_open 3600 ''k1'' (new_mu 0)))"

definition run2 :: mu_state where
  "run2 = snd (lease_done 20 \<lparr>ls_session = ''0xa'', ls_done = False\<rparr> run1)"

definition run3 :: mu_state where "run3 = snd (Release 30 ''M'' ''k1'' run2)"

lemma run_steps:
  "lease_reachable (\<lambda>i. ''m'') \<lparr>lsMu = run1, lsOut = [''0xa''], lsGone = {}\<rparr> \<and>
   lease_reachable (\<lambda>i. ''m'') \<lparr>lsMu = run3, lsOut = [], lsGone = {}\<rparr>"
proof -
  let ?mo = "\<lambda>i. ''m''"
  let ?s1 = "\<lparr>lsMu = run1, lsOut = [''0xa''], lsGone = {}\<rparr>"
  have l: "leaseLocked 10 (or_id run_open) ''k1''
      (poolOpenedLocked 10 ''m'' run_open 3600 ''k1'' (lsMu (lease_sys_start 0))) =
      (\<lparr>ls_session = ''0xa'', ls_done = False\<rparr>, run1)"
    by (simp add: run1_def run_open_def leaseLocked_def lease_sys_start_def)
  have 1: "lease_step ?mo (lease_sys_start 0) ?s1"
    using ls_opened [of "lease_sys_start 0" run_open ?mo, OF _ _ _ l]
    by (simp add: lease_sys_start_def run_open_def new_mu_def)
  have d: "lease_done 20 \<lparr>ls_session = ''0xa'', ls_done = False\<rparr> (lsMu ?s1) =
      (fst (lease_done 20 \<lparr>ls_session = ''0xa'', ls_done = False\<rparr> run1), run2)"
    by (simp add: run2_def)
  have 2: "lease_step ?mo ?s1 \<lparr>lsMu = run2, lsOut = [], lsGone = {}\<rparr>"
    using ls_done [OF _ d, of ?mo] by simp
  have 3: "lease_step ?mo \<lparr>lsMu = run2, lsOut = [], lsGone = {}\<rparr> \<lparr>lsMu = run3, lsOut = [], lsGone = {}\<rparr>"
    using ls_release [of 30 "''M''" "''k1''" "\<lparr>lsMu = run2, lsOut = [], lsGone = {}\<rparr>" _ run3 ?mo]
    by (simp add: run3_def prod_eq_iff)
  show ?thesis using lr_start [of ?mo 0] 1 2 3 by (blast intro: lr_step)
qed



lemma Release_closing_iff_witness:
  "fst (Release 30 ''M'' ''k1'' run2) = (True, ClosingSoon, Some (''0xa'', 10 + 3600 * second)) \<and>
   (\<exists>st'. mget (mSess run3) ''0xa'' = Some st' \<and> ss_retired st')"
proof -
  have e: "fst (Release 30 ''M'' ''k1'' run2) = (True, ClosingSoon, Some (''0xa'', 10 + 3600 * second))"
    by code_simp
  have "map_option fst (release_target (normModel ''M'') ''k1'' run2) = Some ''0xa''" by code_simp
  then obtain st where "release_target (normModel ''M'') ''k1'' run2 = Some (''0xa'', st)" by auto
  from Release_closing_iff [OF _ this, of 30 True ClosingSoon _ run3] e show ?thesis
    by (simp add: run3_def prod_eq_iff) blast
qed

end
