(* ===== verification/Stake.thy ===== *)
theory Stake
  imports Pool_State
begin

section \<open>The stake of a session and the Max stMOR cap (\<open>router/stake.go\<close>, \<open>pool/stake_limit.go\<close>)\<close>

text \<open>
  The router's stake formula in integer arithmetic, the texts that show an amount or a duration,
  and the cap of the pool: the installed limit, the held supply/budget pair and its freshness, and
  the refusal the Status page shows. \<open>*big.Int\<close> values that may be nil are \<open>int option\<close>.
\<close>

subsection \<open>The formula\<close>

datatype stake_err = ErrStakeInputs | ErrDuration

definition stakeInputsOK :: "int option \<Rightarrow> int option \<Rightarrow> int option \<Rightarrow> bool" where
  "stakeInputsOK supply budget pps =
     (case (supply, budget, pps) of
        (Some s, Some b, Some p) \<Rightarrow> 0 < s \<and> 0 < b \<and> 0 < p
      | _ \<Rightarrow> False)"

text \<open>\<open>big.Int.QuoRem\<close> truncates towards zero.\<close>

definition ceilDiv :: "int \<Rightarrow> int \<Rightarrow> int" where
  "ceilDiv num den =
     (let q = go_div num den; m = num - q * den
      in if m > 0 then q + 1 else q)"

definition StMorPerHourWei :: "int option \<Rightarrow> int option \<Rightarrow> int option \<Rightarrow> stake_err + int" where
  "StMorPerHourWei supply budget pps =
     (if \<not> stakeInputsOK supply budget pps then Inl ErrStakeInputs
      else Inr (ceilDiv (the supply * the pps * 3600) (the budget)))"

definition StakeForDurationWei ::
  "int option \<Rightarrow> int option \<Rightarrow> int option \<Rightarrow> int \<Rightarrow> stake_err + int" where
  "StakeForDurationWei supply budget pps durationSec =
     (if \<not> stakeInputsOK supply budget pps then Inl ErrStakeInputs
      else if durationSec \<le> 0 then Inl ErrDuration
      else Inr (ceilDiv (the supply * the pps * (durationSec + 1)) (the budget)))"

definition bidStake :: "rated_bid \<Rightarrow> stake_inputs \<Rightarrow> int \<Rightarrow> int option" where
  "bidStake b inp durationSec =
     (case StakeForDurationWei (Some (si_Supply inp)) (Some (si_Budget inp)) (rb_PricePerSecond b)
             durationSec of
        Inl _ \<Rightarrow> None
      | Inr w \<Rightarrow> Some w)"

subsection \<open>A number of the router's answer\<close>

text \<open>
  \<open>parseBigField\<close> on a decoded answer: a member that is a decimal string or number, or an object
  of strings one of which is a decimal. A Go map keeps the last of equal keys.
\<close>

fun string_values :: "(string \<times> json) list \<Rightarrow> string gomap option" where
  "string_values [] = Some []"
| "string_values ((k, JStr s) # r) = map_option ((#) (k, s)) (string_values r)"
| "string_values ((k, JNull) # r) = map_option ((#) (k, [])) (string_values r)"
| "string_values ((k, _) # r) = None"

fun first_decimal :: "(string \<times> string) list \<Rightarrow> int option" where
  "first_decimal [] = None"
| "first_decimal ((k, v) # r) =
     (case parse_decimal v of Some n \<Rightarrow> Some n | None \<Rightarrow> first_decimal r)"

definition parseBigField :: "json \<Rightarrow> string \<Rightarrow> int option" where
  "parseBigField raw key =
     (case as_object raw of
        None \<Rightarrow> None
      | Some obj \<Rightarrow>
          (case mget (rev obj) key of
             None \<Rightarrow> None
           | Some (JStr s) \<Rightarrow> parse_decimal s
           | Some JNull \<Rightarrow> parse_decimal []
           | Some (JNum s) \<Rightarrow> parse_decimal s
           | Some (JObj kvs) \<Rightarrow>
               (case string_values (rev kvs) of
                  None \<Rightarrow> None
                | Some w \<Rightarrow> first_decimal (mitems w))
           | Some _ \<Rightarrow> None))"

subsection \<open>Texts\<close>

definition digit_char :: "nat \<Rightarrow> char" where "digit_char n = char_of (48 + n)"

fun nat_str :: "nat \<Rightarrow> string" where
  "nat_str n = (if n < 10 then [digit_char n] else nat_str (n div 10) @ [digit_char (n mod 10)])"

declare nat_str.simps [simp del]

definition int_str :: "int \<Rightarrow> string" where
  "int_str i = (if i < 0 then CHR ''-'' # nat_str (nat (- i)) else nat_str (nat i))"

text \<open>\<open>dp\<close> digits of a fraction, most significant first.\<close>

primrec frac_digits :: "nat \<Rightarrow> nat \<Rightarrow> string" where
  "frac_digits 0 n = []"
| "frac_digits (Suc dp) n = frac_digits dp (n div 10) @ [digit_char (n mod 10)]"

text \<open>\<open>big.Rat.FloatString\<close> of \<open>q / 10 ^ dp\<close>, which has no digit to round.\<close>

definition fixed_str :: "int \<Rightarrow> nat \<Rightarrow> string" where
  "fixed_str q dp =
     (let a = nat (abs q)
      in (if q < 0 then ''-'' else []) @ nat_str (a div 10 ^ dp) @ ''.'' @ frac_digits dp a)"

text \<open>A \<open>*big.Rat\<close> in lowest terms.\<close>

definition set_frac :: "int \<Rightarrow> int \<Rightarrow> int \<times> int" where
  "set_frac a b = (a div gcd a b, b div gcd a b)"

definition ceilRat :: "int \<times> int \<Rightarrow> nat \<Rightarrow> string" where
  "ceilRat r dp = (case r of (num, den) \<Rightarrow> fixed_str (ceilDiv (num * 10 ^ dp) den) dp)"

definition FormatMor :: "int option \<Rightarrow> string" where
  "FormatMor wei =
     (case wei of
        None \<Rightarrow> ''?''
      | Some w \<Rightarrow>
          (case set_frac w (10 ^ 18) of
             (num, den) \<Rightarrow> if num * 100 < den then ceilRat (num, den) 6 else ceilRat (num, den) 2))"

definition FormatDuration :: "int \<Rightarrow> string" where
  "FormatDuration sec =
     (let m = go_div (sec + 59) 60; h = go_div m 60; r = m - h * 60
      in if m < 60 then int_str m @ '' min''
         else if r = 0 then int_str h @ '' h''
         else int_str h @ '' h '' @ int_str r @ '' min'')"

subsection \<open>The limit and the held pair\<close>

definition stakeRefusalShowFor :: dur where "stakeRefusalShowFor = chainWaitShowFor"
definition stakeInputsBootFirst :: dur where "stakeInputsBootFirst = 60 * second"
definition stakeInputsBootMax :: dur where "stakeInputsBootMax = 5 * minute"
definition stakeInputsReadTime :: dur where "stakeInputsReadTime = 10 * second"
definition stakeInputsMaxAge :: dur where "stakeInputsMaxAge = hour"

definition SetStakeLimit :: "int option \<Rightarrow> bool \<Rightarrow> pool_atoms \<Rightarrow> pool_atoms" where
  "SetStakeLimit limit invalid a = a\<lparr>paStakeLim := Some (limit, invalid)\<rparr>"

definition StakeLimit :: "pool_atoms \<Rightarrow> int option \<times> bool" where
  "StakeLimit a = (case paStakeLim a of None \<Rightarrow> (None, False) | Some l \<Rightarrow> l)"

definition HeldStakeInputs :: "pool_atoms \<Rightarrow> stake_inputs option" where
  "HeldStakeInputs a = paHeldInputs a"

text \<open>Two times show the same \<open>time.DateOnly\<close> text in UTC when they are on the same day.\<close>

definition utc_day :: "time \<Rightarrow> int" where "utc_day t = t div (24 * hour)"

definition heldFresh :: "time \<Rightarrow> stake_inputs \<Rightarrow> bool" where
  "heldFresh now inp \<longleftrightarrow> now - si_At inp < stakeInputsMaxAge \<and> utc_day now = utc_day (si_At inp)"

definition FreshStakeInputs :: "time \<Rightarrow> pool_atoms \<Rightarrow> stake_inputs option" where
  "FreshStakeInputs now a =
     (case HeldStakeInputs a of
        None \<Rightarrow> None
      | Some inp \<Rightarrow> if \<not> heldFresh now inp then None else Some inp)"

definition SetHeldStakeInputs :: "time \<Rightarrow> int option \<Rightarrow> int option \<Rightarrow> pool_atoms \<Rightarrow> pool_atoms" where
  "SetHeldStakeInputs now supply budget a =
     (case (supply, budget) of
        (Some s, Some b) \<Rightarrow>
          if s \<le> 0 \<or> b \<le> 0 then a
          else a\<lparr>paHeldInputs := Some \<lparr>si_Supply = s, si_Budget = b, si_At = now\<rparr>\<rparr>
      | _ \<Rightarrow> a)"

text \<open>The wait before the retries of \<open>RunStakeInputsBoot\<close> (without the jitter).\<close>

fun boot_wait :: "nat \<Rightarrow> dur" where
  "boot_wait 0 = stakeInputsBootFirst"
| "boot_wait (Suc n) = min (boot_wait n * 2) stakeInputsBootMax"

interpretation boot_backoff: doubling_schedule boot_wait stakeInputsBootFirst stakeInputsBootMax
  by unfold_locales
    (simp_all add: stakeInputsBootFirst_def stakeInputsBootMax_def second_def minute_def)

subsection \<open>The refusal shown on Status\<close>

definition setStakeRefusal ::
  "time \<Rightarrow> int option \<Rightarrow> int option \<Rightarrow> int \<Rightarrow> mu_state \<Rightarrow> mu_state" where
  "setStakeRefusal now need cap durationSec m =
     m\<lparr>mStakeRefusal := \<lparr>sr_At = now, sr_NeedWei = need, sr_CapWei = cap, sr_DurationSec = durationSec\<rparr>\<rparr>"

definition clearStakeRefusal :: "mu_state \<Rightarrow> mu_state" where
  "clearStakeRefusal m = m\<lparr>mStakeRefusal := no_stake_refusal\<rparr>"

definition LastStakeRefusal :: "time \<Rightarrow> mu_state \<Rightarrow> stake_refusal option" where
  "LastStakeRefusal now m =
     (let r = mStakeRefusal m
      in if is_zero (sr_At r) \<or> now - sr_At r \<ge> stakeRefusalShowFor then None else Some r)"

definition openSucceeded :: "mu_state \<Rightarrow> mu_state" where
  "openSucceeded m = clearStakeRefusal (clearChainWait m)"

subsection \<open>Lemmas\<close>

lemma go_rem_nonneg: "0 \<le> a \<Longrightarrow> 0 < b \<Longrightarrow> a - go_div a b * b = a mod b"
  by (simp add: go_div_nonneg minus_div_mult_eq_mod)

text \<open>\<open>ceilDiv\<close> is the least integer whose product with the divisor is not below the dividend.\<close>

lemma ceilDiv_iff:
  assumes "0 \<le> num" and "0 < den"
  shows "ceilDiv num den \<le> k \<longleftrightarrow> num \<le> k * den"
proof -
  let ?q = "num div den" and ?m = "num mod den"
  have q: "go_div num den = ?q" using assms by (rule go_div_nonneg)
  have c: "ceilDiv num den = (if 0 < ?m then ?q + 1 else ?q)"
    unfolding ceilDiv_def Let_def q minus_div_mult_eq_mod by simp
  have dec: "num = ?q * den + ?m" by simp
  show ?thesis
  proof (cases "0 < ?m")
    case True
    then have "num \<noteq> k * den" by auto
    moreover have "?q < k \<longleftrightarrow> num < k * den"
    proof
      assume "?q < k"
      then have "(?q + 1) * den \<le> k * den" using assms(2) by (intro mult_right_mono) simp_all
      then have "?q * den + den \<le> k * den" by (simp only: distrib_right mult_1)
      with dec pos_mod_bound [OF assms(2), of num] show "num < k * den" by linarith
    next
      assume less: "num < k * den"
      show "?q < k"
      proof (rule ccontr)
        assume "\<not> ?q < k"
        then have "k * den \<le> ?q * den" using assms(2) by (intro mult_right_mono) simp_all
        with less dec True show False by linarith
      qed
    qed
    ultimately show ?thesis using True by (auto simp: c)
  next
    case False
    then have "?m = 0" using assms(2) by (simp add: not_less order_antisym)
    then have "num = ?q * den" using dec by simp
    then show ?thesis
      using False assms(2) by (metis c mult_le_cancel_right_pos)
  qed
qed

lemma ceilDiv_least: "0 \<le> num \<Longrightarrow> 0 < den \<Longrightarrow> num \<le> ceilDiv num den * den"
  by (simp flip: ceilDiv_iff)

lemma ceilDiv_less:
  assumes "0 \<le> num" and "0 < den"
  shows "ceilDiv num den * den < num + den"
proof -
  have "\<not> num \<le> (ceilDiv num den - 1) * den"
    using assms by (simp flip: ceilDiv_iff)
  then show ?thesis by (simp add: left_diff_distrib)
qed

lemma ceilDiv_nonneg: "0 \<le> num \<Longrightarrow> 0 < den \<Longrightarrow> 0 \<le> ceilDiv num den"
  using ceilDiv_iff [of num den "- 1"] by fastforce

lemma ceilDiv_mono:
  assumes "0 \<le> a" and "a \<le> b" and "0 < den"
  shows "ceilDiv a den \<le> ceilDiv b den"
  using assms ceilDiv_least [of b den] by (simp add: ceilDiv_iff)

text \<open>Dividing both sides by a common factor changes nothing.\<close>

lemma ceilDiv_cancel:
  assumes "0 \<le> num" and "0 < den" and "0 < g"
  shows "ceilDiv (g * num) (g * den) = ceilDiv num den"
proof -
  have "ceilDiv (g * num) (g * den) \<le> k \<longleftrightarrow> ceilDiv num den \<le> k" for k
    using assms by (simp add: ceilDiv_iff mult.left_commute)
  then show ?thesis by (meson order_antisym order_refl)
qed

lemma StakeForDuration_Inr:
  "StakeForDurationWei (Some s) (Some b) (Some p) d = Inr w \<longleftrightarrow>
     0 < s \<and> 0 < b \<and> 0 < p \<and> 0 < d \<and> w = ceilDiv (s * p * (d + 1)) b"
  by (auto simp: StakeForDurationWei_def stakeInputsOK_def)

subsection \<open>Texts read back\<close>

lemma digit_val_char: "n < 10 \<Longrightarrow> digit_val (digit_char n) = n"
  by (simp add: digit_val_def digit_char_def of_char_of take_bit_eq_mod)

lemma is_digit_char: "n < 10 \<Longrightarrow> is_digit (digit_char n)"
  by (simp add: is_digit_def digit_char_def of_char_of take_bit_eq_mod)

lemma digits_val_snoc: "digits_val (s @ [c]) = 10 * digits_val s + int (digit_val c)"
  by (simp add: digits_val_def)

lemma digits_val_nat_str: "digits_val (nat_str n) = int n"
proof (induction n rule: nat_str.induct)
  case (1 n)
  show ?case
  proof (cases "n < 10")
    case True
    then show ?thesis
      by (subst nat_str.simps) (simp add: digits_val_def digit_val_char)
  next
    case False
    have "int n = 10 * int (n div 10) + int (n mod 10)" by presburger
    with False 1 show ?thesis
      by (subst nat_str.simps) (simp add: digits_val_snoc digit_val_char)
  qed
qed

lemma digits_val_frac: "digits_val (s @ frac_digits dp n) = digits_val s * 10 ^ dp + int (n mod 10 ^ dp)"
proof (induction dp arbitrary: n)
  case 0
  then show ?case by simp
next
  case (Suc dp)
  have "n mod (10 * 10 ^ dp) = 10 * (n div 10 mod 10 ^ dp) + n mod 10"
    by (simp add: mod_mult2_eq)
  then show ?case
    by (simp add: Suc digits_val_snoc digit_val_char flip: append_assoc)
qed

lemma nat_str_digits: "list_all is_digit (nat_str n)"
proof (induction n rule: nat_str.induct)
  case (1 n)
  then show ?case
    by (cases "n < 10"; subst nat_str.simps) (simp_all add: is_digit_char)
qed

lemma frac_digits_digits: "list_all is_digit (frac_digits dp n)"
  by (induction dp arbitrary: n) (simp_all add: is_digit_char)

lemma length_frac_digits [simp]: "length (frac_digits dp n) = dp"
  by (induction dp arbitrary: n) simp_all

lemma filter_dot: "list_all is_digit s \<Longrightarrow> filter (\<lambda>c. c \<noteq> CHR ''.'') s = s"
  by (induction s) (auto simp: is_digit_def)

text \<open>The digits of a shown amount, read back without the point.\<close>

definition shown_value :: "string \<Rightarrow> int" where
  "shown_value s = digits_val (filter (\<lambda>c. c \<noteq> CHR ''.'') s)"

lemma int_div_mod_pow: "int (a div 10 ^ dp) * 10 ^ dp + int (a mod 10 ^ dp) = int a"
proof -
  have "a div 10 ^ dp * 10 ^ dp + a mod 10 ^ dp = a" by (rule div_mult_mod_eq)
  then have "int (a div 10 ^ dp * 10 ^ dp + a mod 10 ^ dp) = int a" by simp
  then show ?thesis by (simp only: of_nat_add of_nat_mult of_nat_power of_nat_numeral)
qed

lemma shown_fixed: "0 \<le> q \<Longrightarrow> shown_value (fixed_str q dp) = q"
  by (simp add: shown_value_def fixed_str_def Let_def filter_dot nat_str_digits frac_digits_digits
      digits_val_frac digits_val_nat_str int_div_mod_pow)

subsection \<open>Properties\<close>

text \<open>
  The stake of a session is the least whole number of wei that covers
  \<open>supply * price * (seconds + 1) / budget\<close>; an answer is given exactly when supply, budget, price
  and duration are all above zero, it is above zero, and a longer session never needs less.
\<close>

theorem stake_least:
  assumes "StakeForDurationWei (Some s) (Some b) (Some p) d = Inr w"
  shows "0 < w \<and> (\<forall>k. w \<le> k \<longleftrightarrow> s * p * (d + 1) \<le> k * b) \<and>
    (\<forall>d'. d \<le> d' \<longrightarrow> (\<exists>w'. StakeForDurationWei (Some s) (Some b) (Some p) d' = Inr w' \<and> w \<le> w'))"
proof -
  from assms have pos: "0 < s" "0 < b" "0 < p" "0 < d" and w: "w = ceilDiv (s * p * (d + 1)) b"
    by (auto simp: StakeForDuration_Inr)
  have num: "0 < s * p * (d + 1)" using pos by simp
  have "\<not> w \<le> 0"
    using num ceilDiv_iff [OF less_imp_le [OF num] pos(2), of 0] unfolding w by linarith
  then have "0 < w" by simp
  moreover have "w \<le> k \<longleftrightarrow> s * p * (d + 1) \<le> k * b" for k
    using num pos by (simp add: w ceilDiv_iff)
  moreover have "\<exists>w'. StakeForDurationWei (Some s) (Some b) (Some p) d' = Inr w' \<and> w \<le> w'"
    if "d \<le> d'" for d'
  proof -
    have "s * p * (d + 1) \<le> s * p * (d' + 1)" using that pos by simp
    with num pos have "w \<le> ceilDiv (s * p * (d' + 1)) b" by (simp add: w ceilDiv_mono)
    with that pos show ?thesis by (simp add: StakeForDuration_Inr)
  qed
  ultimately show ?thesis by blast
qed

lemma stake_least_witness:
  "StakeForDurationWei (Some 1000) (Some 7) (Some 3) 60 = Inr 26143 \<and> (0::int) < 26143 \<and>
   1000 * 3 * 61 \<le> 26143 * (7::int) \<and> \<not> 1000 * 3 * 61 \<le> 26142 * (7::int)"
proof -
  have e: "StakeForDurationWei (Some 1000) (Some 7) (Some 3) 60 = Inr 26143" by code_simp
  have "(26143::int) \<le> k \<longleftrightarrow> 1000 * 3 * (60 + 1) \<le> k * (7::int)" for k
    using stake_least [OF e] by blast
  from this [of 26143] this [of 26142] show ?thesis using e by simp
qed

lemma ceilRat_frac:
  assumes "0 \<le> w" and "set_frac w (10 ^ 18) = (num, den)"
  shows "ceilRat (num, den) dp = fixed_str (ceilDiv (w * 10 ^ dp) (10 ^ 18)) dp \<and>
    (num * 100 < den \<longleftrightarrow> w * 100 < 10 ^ 18)"
proof -
  let ?g = "gcd w (10 ^ 18)"
  have g: "0 < ?g" by simp
  from assms(2) have w: "w = ?g * num" and d: "(10 ^ 18 :: int) = ?g * den"
    by (auto simp: set_frac_def)
  from d g have den: "0 < den" by (metis zero_less_mult_pos zero_less_numeral zero_less_power)
  from w g assms(1) have num: "0 \<le> num" by (metis zero_le_mult_iff not_less)
  have "ceilDiv (?g * (num * 10 ^ dp)) (?g * den) = ceilDiv (num * 10 ^ dp) den"
    using num den g by (intro ceilDiv_cancel) simp_all
  then have "ceilDiv (w * 10 ^ dp) (10 ^ 18) = ceilDiv (num * 10 ^ dp) den"
    using w d by (metis mult.assoc)
  moreover have "num * 100 < den \<longleftrightarrow> ?g * (num * 100) < ?g * den"
    using g by simp
  then have "num * 100 < den \<longleftrightarrow> w * 100 < 10 ^ 18"
    using w d by (metis mult.assoc)
  ultimately show ?thesis by (simp add: ceilRat_def)
qed

lemma FormatMor_eq:
  assumes "0 \<le> w"
  shows "FormatMor (Some w) =
    (if w * 100 < 10 ^ 18 then fixed_str (ceilDiv (w * 10 ^ 6) (10 ^ 18)) 6
     else fixed_str (ceilDiv (w * 10 ^ 2) (10 ^ 18)) 2)"
proof -
  obtain num den where f: "set_frac w (10 ^ 18) = (num, den)" by (meson surj_pair)
  note r = ceilRat_frac [OF assms f]
  show ?thesis
    unfolding FormatMor_def option.case f prod.case using r [of 6] r [of 2] by presburger
qed

text \<open>
  An amount of MOR is never shown below what it is: read back, the shown digits are the amount
  rounded up to 2 decimals, or to 6 decimals when it is under 0.01.
\<close>

theorem FormatMor_rounds_up:
  assumes "0 \<le> w"
  shows "\<exists>dp. dp = (if w < 10 ^ 16 then 6 else 2) \<and>
    w \<le> shown_value (FormatMor (Some w)) * 10 ^ (18 - dp) \<and>
    shown_value (FormatMor (Some w)) * 10 ^ (18 - dp) < w + 10 ^ (18 - dp)"
proof -
  define dp :: nat where "dp = (if w < 10 ^ 16 then 6 else 2)"
  have "FormatMor (Some w) = fixed_str (ceilDiv (w * 10 ^ dp) (10 ^ 18)) dp"
    using assms by (simp add: FormatMor_eq dp_def)
  moreover have "(10 ^ 18 :: int) = 10 ^ (18 - dp) * 10 ^ dp" by (simp add: dp_def)
  ultimately have s: "shown_value (FormatMor (Some w)) = ceilDiv w (10 ^ (18 - dp))"
    using assms ceilDiv_cancel [of w "10 ^ (18 - dp)" "10 ^ dp"] ceilDiv_nonneg [of w "10 ^ (18 - dp)"]
    by (simp add: shown_fixed mult.commute)
  have "0 < (10 ^ (18 - dp) :: int)" by simp
  with assms s ceilDiv_least [of w "10 ^ (18 - dp)"] ceilDiv_less [of w "10 ^ (18 - dp)"]
  show ?thesis by (auto simp: dp_def)
qed

lemma FormatMor_rounds_up_witness:
  "FormatMor (Some 1230000000000000001) = ''1.24'' \<and>
   1230000000000000001 \<le> shown_value ''1.24'' * 10 ^ 16"
proof -
  have "ceilDiv (1230000000000000001 * 10 ^ 2) (10 ^ 18) = 124"
    by (simp add: ceilDiv_def Let_def go_div_nonneg)
  moreover have "fixed_str 124 2 = ''1.24''" by code_simp
  ultimately have e: "FormatMor (Some 1230000000000000001) = ''1.24''"
    by (simp add: FormatMor_eq)
  have "\<exists>dp. dp = (if (1230000000000000001::int) < 10 ^ 16 then 6 else 2) \<and>
    1230000000000000001 \<le> shown_value ''1.24'' * 10 ^ (18 - dp)"
    using FormatMor_rounds_up [of 1230000000000000001] unfolding e by auto
  with e show ?thesis by simp
qed

end
