(* ===== verification/Candidates.thy ===== *)
theory Candidates
  imports Stake
begin

section \<open>Which bids an open may use (\<open>internal/pool/failover.go\<close>, first half)\<close>

text \<open>
  The provider memory under \<open>p.fmu\<close> (cool-downs, exclusions, the pending stream cut, retired
  sessions) and \<open>filterCandidates\<close>, the one pipeline every open goes through: rated rows, kept
  when healthy, not excluded, not avoided. The health feed's answer is an argument (\<open>None\<close>: the
  source failed or is not set).
\<close>

definition MaxBidAttempts :: nat where "MaxBidAttempts = 3"
definition FailoverCloseTimeout :: dur where "FailoverCloseTimeout = 30 * second"
definition MaxRetryAfter :: dur where "MaxRetryAfter = 600 * second"

subsection \<open>Cool-downs\<close>

definition SetProviderCooldown :: "dur \<Rightarrow> failover_mem \<Rightarrow> failover_mem" where
  "SetProviderCooldown d f = f\<lparr>fmCooldown := (if d < 0 then 0 else d)\<rparr>"

definition cool_prefix :: "string \<Rightarrow> string" where
  "cool_prefix modelID = normModel modelID @ ''|''"

definition coolKey :: "string \<Rightarrow> string \<Rightarrow> string" where
  "coolKey modelID provider = cool_prefix modelID @ normProv provider"

definition MarkCooling :: "time \<Rightarrow> string \<Rightarrow> string \<Rightarrow> failover_mem \<Rightarrow> failover_mem" where
  "MarkCooling now modelID provider f =
     (if trim provider = [] then f
      else let c = mfilter (\<lambda>k until. now < until) (fmCooling f)
           in if fmCooldown f \<le> 0 then f\<lparr>fmCooling := c\<rparr>
              else f\<lparr>fmCooling := mput (coolKey modelID provider) (now + fmCooldown f) c\<rparr>)"

definition IsCooling :: "time \<Rightarrow> string \<Rightarrow> string \<Rightarrow> failover_mem \<Rightarrow> bool" where
  "IsCooling now modelID provider f \<longleftrightarrow>
     (if trim provider = [] then False
      else case mget (fmCooling f) (coolKey modelID provider) of
             None \<Rightarrow> False
           | Some until \<Rightarrow> now < until)"

definition coolingProviders :: "time \<Rightarrow> string \<Rightarrow> failover_mem \<Rightarrow> string set" where
  "coolingProviders now modelID f =
     (let pre = cool_prefix modelID
      in set (map (\<lambda>(k, until). drop (length pre) k)
                (filter (\<lambda>(k, until). has_prefix k pre \<and> now < until) (mitems (fmCooling f)))))"

subsection \<open>Exclusions and stream cuts\<close>

definition SetProviderExclude :: "string list \<Rightarrow> failover_mem \<Rightarrow> failover_mem" where
  "SetProviderExclude provs f = f\<lparr>fmExclude := set (filter (\<lambda>p. p \<noteq> []) (map normProv provs))\<rparr>"

definition IsProviderExcluded :: "string \<Rightarrow> failover_mem \<Rightarrow> bool" where
  "IsProviderExcluded provider f \<longleftrightarrow> (if normProv provider = [] then False else normProv provider \<in> fmExclude f)"

definition excludedProviders :: "failover_mem \<Rightarrow> string set" where
  "excludedProviders f = fmExclude f"

definition MarkStreamCut :: "string \<Rightarrow> string \<Rightarrow> failover_mem \<Rightarrow> failover_mem" where
  "MarkStreamCut modelID provider f =
     (if trim provider = [] then f
      else f\<lparr>fmCutNext := mput (normModel modelID) (normProv provider) (fmCutNext f)\<rparr>)"

definition pendingCut :: "string \<Rightarrow> failover_mem \<Rightarrow> string" where
  "pendingCut modelID f = (case mget (fmCutNext f) (normModel modelID) of None \<Rightarrow> [] | Some p \<Rightarrow> p)"

definition clearCut :: "string \<Rightarrow> failover_mem \<Rightarrow> failover_mem" where
  "clearCut modelID f = f\<lparr>fmCutNext := mdel (normModel modelID) (fmCutNext f)\<rparr>"

definition avoidedProviders :: "time \<Rightarrow> string \<Rightarrow> failover_mem \<Rightarrow> string set" where
  "avoidedProviders now modelID f =
     (let out = coolingProviders now modelID f; c = pendingCut modelID f
      in if c \<noteq> [] then insert c out else out)"

subsection \<open>Retired sessions\<close>

definition retire :: "time \<Rightarrow> int \<Rightarrow> string \<Rightarrow> time \<Rightarrow> failover_mem \<Rightarrow> failover_mem" where
  "retire now durationSec sessionID endsAt f =
     (let ends = (if \<not> endsAt > now then now + (durationSec * second + expiryBuffer) else endsAt)
      in f\<lparr>fmRetired := mput sessionID ends (mfilter (\<lambda>i e. now < e) (fmRetired f))\<rparr>)"

definition isRetired :: "string \<Rightarrow> failover_mem \<Rightarrow> bool" where
  "isRetired sessionID f \<longleftrightarrow> mget (fmRetired f) sessionID \<noteq> None"

definition retiredSet :: "failover_mem \<Rightarrow> string set" where
  "retiredSet f = set (map to_lower (mkeys (fmRetired f)))"

subsection \<open>Retry-After\<close>

definition clampRetryAfter :: "dur \<Rightarrow> dur" where
  "clampRetryAfter d0 =
     (if d0 \<le> 0 then second
      else let d = (if d0 > MaxRetryAfter then MaxRetryAfter else d0);
               sec = go_div (d + second - 1) second;
               sec = (if sec < 1 then 1 else sec)
           in sec * second)"

definition retry_best :: "time \<Rightarrow> string \<Rightarrow> rated_bid list \<Rightarrow> failover_mem \<Rightarrow> dur" where
  "retry_best now modelID pool_rows f =
     (let inPool = set (map (normProv \<circ> rb_Provider) pool_rows); pre = cool_prefix modelID
      in foldl (\<lambda>best (k, until).
           if \<not> has_prefix k pre \<or> \<not> now < until then best
           else if drop (length pre) k \<notin> inPool then best
           else if best = 0 \<or> until - now < best then until - now else best)
         0 (mitems (fmCooling f)))"

definition retryAfter :: "time \<Rightarrow> string \<Rightarrow> rated_bid list \<Rightarrow> failover_mem \<Rightarrow> dur" where
  "retryAfter now modelID pool_rows f =
     (let best = retry_best now modelID pool_rows f
      in if best = 0 then 0 else clampRetryAfter best)"

subsection \<open>The pipeline\<close>

definition bid_id :: "rated_bid \<Rightarrow> string" where
  "bid_id b = to_lower (trim (rb_ID b))"

definition bid_prov :: "rated_bid \<Rightarrow> string" where
  "bid_prov b = normProv (rb_Provider b)"

definition filterCandidates ::
  "time \<Rightarrow> string set option \<Rightarrow> string \<Rightarrow> string \<Rightarrow> rated_bid list \<Rightarrow> rerr option \<Rightarrow> failover_mem \<Rightarrow>
   open_err + rated_bid list \<times> rated_bid list" where
  "filterCandidates now healthy_ids modelID extraAvoid rows rerr f =
     (let refuse = (\<lambda>retry. Inl (NoAvailable retry NoReason))
      in if (case rerr of None \<Rightarrow> False | Some RatedIncomplete \<Rightarrow> rows = [] | Some _ \<Rightarrow> True) then refuse 0
         else if rows = [] then refuse 0
         else
           let excluded = excludedProviders f
           in if list_all (\<lambda>b. bid_prov b \<in> excluded) rows then Inl NoEligibleProvider
              else case healthy_ids of
                     None \<Rightarrow> refuse 0
                   | Some h \<Rightarrow>
                       let healthy = filter (\<lambda>b. bid_id b \<in> h) rows
                       in if healthy = [] then refuse 0
                          else
                            let elig = filter (\<lambda>b. bid_prov b \<notin> excluded) healthy
                            in if elig = [] then refuse 0
                               else
                                 let avoid = avoidedProviders now modelID f;
                                     x = normProv extraAvoid;
                                     avoid = (if x \<noteq> [] then insert x avoid else avoid);
                                     cands = filter (\<lambda>b. bid_prov b \<notin> avoid) elig
                                 in if cands = [] then refuse (retryAfter now modelID elig f)
                                    else Inr (cands, elig))"

subsection \<open>Lemmas\<close>

lemma has_prefix_iff: "has_prefix s p \<longleftrightarrow> (\<exists>r. s = p @ r)"
  by (metis has_prefixE has_prefix_append)

lemma mem_coolingProviders:
  "p \<in> coolingProviders now modelID f \<longleftrightarrow>
     (\<exists>until. mget (fmCooling f) (cool_prefix modelID @ p) = Some until \<and> now < until)"
  by (force simp: coolingProviders_def Let_def mem_mitems has_prefix_iff image_iff)

text \<open>A cool-down is remembered for every key at its own time.\<close>

lemma cool_prefix_norm [simp]: "cool_prefix (normModel m) = cool_prefix m"
  by (simp add: cool_prefix_def)

lemma coolKey_inj: "coolKey m p = coolKey m q \<longleftrightarrow> normProv p = normProv q"
  by (simp add: coolKey_def)

lemma normProv_Nil: "normProv p = [] \<longleftrightarrow> trim p = []"
  by (auto simp: normProv_def to_lower_def)

subsection \<open>Properties\<close>

text \<open>
  A candidate bid is a rated row that the health feed marks healthy, whose provider is neither
  excluded, nor cooling for the model, nor the one that cut the model's last stream, nor the one
  the caller avoids; the rows keep the router's order, every row that passes is kept, and a list
  of candidates is never empty. The rows a Retry-After looks at are the healthy, not excluded ones.
\<close>

theorem filterCandidates_spec:
  assumes "filterCandidates now healthy_ids modelID extraAvoid rows rerr f = Inr (cands, elig)"
  shows "\<exists>h. healthy_ids = Some h \<and>
    elig = filter (\<lambda>b. bid_id b \<in> h \<and> bid_prov b \<notin> fmExclude f) rows \<and> cands \<noteq> [] \<and>
    cands = filter (\<lambda>b. bid_id b \<in> h \<and> bid_prov b \<notin> fmExclude f \<and>
       bid_prov b \<notin> coolingProviders now modelID f \<and>
       (bid_prov b = [] \<or> bid_prov b \<noteq> pendingCut modelID f \<and> bid_prov b \<noteq> normProv extraAvoid)) rows"
proof -
  from assms obtain h where h: "healthy_ids = Some h"
    by (auto simp: filterCandidates_def Let_def split: if_splits option.splits)
  let ?x = "normProv extraAvoid"
  let ?av = "if ?x \<noteq> [] then insert ?x (avoidedProviders now modelID f) else avoidedProviders now modelID f"
  from assms have elig: "elig = filter (\<lambda>b. bid_prov b \<notin> fmExclude f) (filter (\<lambda>b. bid_id b \<in> h) rows)"
    and cands: "cands = filter (\<lambda>b. bid_prov b \<notin> ?av) elig" and ne: "cands \<noteq> []"
    by (auto simp: filterCandidates_def Let_def h excludedProviders_def split: if_splits)
  have av: "bid_prov b \<notin> ?av \<longleftrightarrow> bid_prov b \<notin> coolingProviders now modelID f \<and>
      (bid_prov b = [] \<or> bid_prov b \<noteq> pendingCut modelID f \<and> bid_prov b \<noteq> ?x)" for b
    by (auto simp: avoidedProviders_def Let_def)
  have "elig = filter (\<lambda>b. bid_id b \<in> h \<and> bid_prov b \<notin> fmExclude f) rows"
    unfolding elig filter_filter by (intro filter_cong) auto
  with h ne cands show ?thesis
    unfolding av by (auto simp: conj_assoc intro!: filter_cong)
qed

text \<open>
  An open is refused for good (\<open>ErrNoEligibleProvider\<close>) exactly when the router rated at least
  one bid, readably, and every rated provider is excluded by configuration: a configured exclusion
  is never overridden, and cool-downs or health never make the refusal final.
\<close>

theorem no_eligible_iff_all_excluded:
  "filterCandidates now healthy_ids modelID extraAvoid rows rerr f = Inl NoEligibleProvider \<longleftrightarrow>
     (rerr = None \<or> rerr = Some RatedIncomplete) \<and> rows \<noteq> [] \<and> bid_prov ` set rows \<subseteq> fmExclude f"
  by (auto simp: filterCandidates_def Let_def excludedProviders_def list_all_iff
      split: option.splits rerr.splits)

text \<open>
  After a provider fails on a model it is avoided by every open for that model until its
  cool-down ends, and the cool-down of no other provider of the model that still runs is touched;
  with the cool-down set to 0 nothing is remembered.
\<close>

theorem MarkCooling_avoided:
  assumes "trim p \<noteq> []"
  shows "(0 < fmCooldown f \<longrightarrow>
      (IsCooling t m p (MarkCooling now m p f) \<longleftrightarrow> t < now + fmCooldown f) \<and>
      (t < now + fmCooldown f \<longrightarrow> normProv p \<in> avoidedProviders t m (MarkCooling now m p f))) \<and>
    (now \<le> t \<and> (fmCooldown f \<le> 0 \<or> normProv q \<noteq> normProv p) \<longrightarrow>
      IsCooling t m q (MarkCooling now m p f) = IsCooling t m q f)"
proof -
  have key: "cool_prefix m @ normProv p = coolKey m p" by (simp add: coolKey_def)
  show ?thesis
    using assms
    by (auto simp: MarkCooling_def IsCooling_def avoidedProviders_def Let_def mem_coolingProviders
        coolKey_inj key split: option.splits)
qed

lemma MarkCooling_avoided_witness:
  "normProv ''0xP'' \<in> avoidedProviders 5 ''m'' (MarkCooling 0 ''m'' ''0xP'' (plFmu (new_pool 0 0)))"
proof -
  have "trim ''0xP'' \<noteq> []" by code_simp
  from MarkCooling_avoided [OF this, of "plFmu (new_pool 0 0)" 5 "''m''" 0]
  show ?thesis by (simp add: new_pool_def DefaultProviderCooldown_def second_def)
qed

lemma filterCandidates_spec_witness:
  "let b = (\<lambda>i p. \<lparr>rb_ID = i, rb_Provider = p, rb_PricePerSecond = None\<rparr>);
       f = plFmu (new_pool 0 0)\<lparr>fmExclude := {''0xc''}\<rparr>
   in filterCandidates 0 (Some {''b1'', ''b2'', ''b3''}) ''m'' ''0xA''
        [b ''B1'' ''0xA'', b ''B2'' ''0xB'', b ''B3'' ''0xC'', b ''B4'' ''0xD''] None f =
      Inr ([b ''B2'' ''0xB''], [b ''B1'' ''0xA'', b ''B2'' ''0xB''])"
proof -
  let ?b = "\<lambda>i p. \<lparr>rb_ID = i, rb_Provider = p, rb_PricePerSecond = None\<rparr>"
  let ?f = "plFmu (new_pool 0 0)\<lparr>fmExclude := {''0xc''}\<rparr>"
  let ?rows = "[?b ''B1'' ''0xA'', ?b ''B2'' ''0xB'', ?b ''B3'' ''0xC'', ?b ''B4'' ''0xD'']"
  have e: "filterCandidates 0 (Some {''b1'', ''b2'', ''b3''}) ''m'' ''0xA'' ?rows None ?f =
      Inr ([?b ''B2'' ''0xB''], [?b ''B1'' ''0xA'', ?b ''B2'' ''0xB''])" by code_simp
  from filterCandidates_spec [OF e] e show ?thesis by (simp add: Let_def)
qed

text \<open>
  The Retry-After of a refusal is whole seconds between one second and ten minutes, never
  shorter than the cool-down it stands for (below the cap) and less than a second longer.
\<close>

theorem clampRetryAfter_bounds:
  "second \<le> clampRetryAfter d \<and> clampRetryAfter d \<le> MaxRetryAfter \<and> second dvd clampRetryAfter d \<and>
   (0 < d \<and> d \<le> MaxRetryAfter \<longrightarrow> d \<le> clampRetryAfter d \<and> clampRetryAfter d < d + second)"
proof (cases "0 < d")
  case False
  then show ?thesis by (simp add: clampRetryAfter_def MaxRetryAfter_def second_def)
next
  case True
  define e where "e = (if d > MaxRetryAfter then MaxRetryAfter else d)"
  have e: "0 < e" "e \<le> 600 * 1000000000" "d \<le> MaxRetryAfter \<Longrightarrow> e = d"
    using True by (auto simp: e_def MaxRetryAfter_def second_def)
  have "go_div (e + second - 1) second = (e + 999999999) div 1000000000"
    using e by (simp add: go_div_nonneg second_def)
  moreover have "1 \<le> (e + 999999999) div (1000000000 :: int)" using e by linarith
  ultimately have c: "clampRetryAfter d = (e + 999999999) div 1000000000 * 1000000000"
    using True by (simp add: clampRetryAfter_def Let_def flip: e_def) (simp add: second_def)
  have "(e + 999999999) div 1000000000 \<le> (600 :: int)" using e by auto
  moreover have "e \<le> (e + 999999999) div 1000000000 * 1000000000"
    and "(e + 999999999) div 1000000000 * 1000000000 < e + 1000000000"
    by linarith+
  ultimately show ?thesis
    using e c \<open>1 \<le> (e + 999999999) div 1000000000\<close>
    by (cases "d \<le> MaxRetryAfter") (simp_all add: MaxRetryAfter_def second_def)
qed

lemma clampRetryAfter_bounds_witness:
  "clampRetryAfter (1500 * millisecond) = 2 * second \<and> 1500 * millisecond \<le> clampRetryAfter (1500 * millisecond)"
proof -
  have "clampRetryAfter (1500 * millisecond) = 2 * second" by code_simp
  with clampRetryAfter_bounds [of "1500 * millisecond"] show ?thesis
    by (simp add: MaxRetryAfter_def second_def millisecond_def)
qed

end
