(* ===== verification/State_Rules.thy ===== *)
theory State_Rules
  imports Prelude "HOL-Library.State_Monad"
begin

section \<open>A program logic for handlers\<close>

text \<open>
  Every handler is a computation in the library's state monad. Here are the two judgements the handler
  theories share: \<open>triple\<close> (pre- and postcondition) and \<open>keeps\<close> (an invariant, proved by the rules
  collected in \<open>keeps_intro\<close>).
\<close>

abbreviation ret :: "'a \<Rightarrow> ('s, 'a) state" where "ret \<equiv> State_Monad.return"

text \<open>
  \<open>triple P f Q\<close>: started in a state of \<open>P\<close>, the computation ends (every computation here does)
  with a result and a state of \<open>Q\<close>.
\<close>

definition triple :: "('s \<Rightarrow> bool) \<Rightarrow> ('s, 'a) state \<Rightarrow> ('a \<Rightarrow> 's \<Rightarrow> bool) \<Rightarrow> bool" where
  "triple P f Q \<longleftrightarrow> (\<forall>s. P s \<longrightarrow> (case run_state f s of (a, s') \<Rightarrow> Q a s'))"

lemma tripleD: "triple P f Q \<Longrightarrow> P s \<Longrightarrow> run_state f s = (a, s') \<Longrightarrow> Q a s'"
  by (auto simp: triple_def)

lemma triple_ret: "(\<And>s. P s \<Longrightarrow> Q a s) \<Longrightarrow> triple P (ret a) Q"
  by (simp add: triple_def)

lemma triple_bind:
  assumes "triple P f R" and "\<And>a. triple (R a) (g a) Q"
  shows "triple P (f \<bind> g) Q"
  using assms by (fastforce simp: triple_def State_Monad.bind_def split: prod.splits)

lemma triple_weaken:
  "triple P' f Q' \<Longrightarrow> (\<And>s. P s \<Longrightarrow> P' s) \<Longrightarrow> (\<And>a s. Q' a s \<Longrightarrow> Q a s) \<Longrightarrow> triple P f Q"
  unfolding triple_def by (auto split: prod.splits) blast

lemma run_bindE:
  assumes "run_state (f \<bind> g) s = (b, s')"
  obtains a s1 where "run_state f s = (a, s1)" and "run_state (g a) s1 = (b, s')"
  using assms by (auto simp: State_Monad.bind_def split: prod.splits)

declare State_Monad.run_state_bind [simp del]

text \<open>A computation that keeps an invariant of the state, whatever its result.\<close>

definition keeps :: "('s \<Rightarrow> bool) \<Rightarrow> ('s, 'a) state \<Rightarrow> bool" where
  "keeps P f \<longleftrightarrow> (\<forall>s. P s \<longrightarrow> P (snd (run_state f s)))"

named_theorems keeps_intro \<open>computations that keep an invariant\<close>

lemma keeps_ret [keeps_intro]: "keeps P (ret a)"
  by (simp add: keeps_def)

lemma keeps_bind [keeps_intro]:
  assumes "keeps P f" and "\<And>a. keeps P (g a)"
  shows "keeps P (f \<bind> g)"
  using assms by (auto simp: keeps_def State_Monad.bind_def split: prod.splits)

lemma keeps_if [keeps_intro]: "(b \<Longrightarrow> keeps P f) \<Longrightarrow> (\<not> b \<Longrightarrow> keeps P g) \<Longrightarrow> keeps P (if b then f else g)"
  by simp

lemma keeps_option [keeps_intro]:
  "keeps P f \<Longrightarrow> (\<And>x. keeps P (g x)) \<Longrightarrow> keeps P (case r of None \<Rightarrow> f | Some x \<Rightarrow> g x)"
  by (cases r) simp_all

lemma keeps_sum [keeps_intro]:
  "(\<And>x. keeps P (f x)) \<Longrightarrow> (\<And>x. keeps P (g x)) \<Longrightarrow> keeps P (case r of Inl x \<Rightarrow> f x | Inr x \<Rightarrow> g x)"
  by (cases r) simp_all

lemma keeps_prod [keeps_intro]: "(\<And>x y. keeps P (f x y)) \<Longrightarrow> keeps P (case r of (x, y) \<Rightarrow> f x y)"
  by (cases r) simp

text \<open>The two together: a computation whose result does not matter, and case distinctions.\<close>

lemma keepsD: "keeps P f \<Longrightarrow> P s \<Longrightarrow> run_state f s = (a, s') \<Longrightarrow> P s'"
  by (auto simp: keeps_def)

lemma triple_keeps: "keeps P f \<Longrightarrow> triple P f (\<lambda>_. P)"
  by (auto simp: keeps_def triple_def split: prod.splits)

lemma triple_seq: "keeps P f \<Longrightarrow> (\<And>a. triple P (g a) Q) \<Longrightarrow> triple P (f \<bind> g) Q"
  by (rule triple_bind [OF triple_keeps])

lemma triple_true: "triple P f (\<lambda>_ _. True)"
  by (simp add: triple_def split: prod.split)

lemma triple_if: "(b \<Longrightarrow> triple P f Q) \<Longrightarrow> (\<not> b \<Longrightarrow> triple P g Q) \<Longrightarrow> triple P (if b then f else g) Q"
  by simp

lemma triple_option:
  "(r = None \<Longrightarrow> triple P f Q) \<Longrightarrow> (\<And>x. r = Some x \<Longrightarrow> triple P (g x) Q) \<Longrightarrow>
   triple P (case r of None \<Rightarrow> f | Some x \<Rightarrow> g x) Q"
  by (cases r) simp_all

lemma triple_prod: "(\<And>x y. r = (x, y) \<Longrightarrow> triple P (f x y) Q) \<Longrightarrow> triple P (case r of (x, y) \<Rightarrow> f x y) Q"
  by (cases r) simp

lemma triple_pure: "(C \<Longrightarrow> triple P f Q) \<Longrightarrow> triple (\<lambda>s. C \<and> P s) f Q"
  by (auto simp: triple_def)

lemma triple_bool: "(b \<Longrightarrow> triple P f Q) \<Longrightarrow> (\<not> b \<Longrightarrow> triple P g Q) \<Longrightarrow> triple P (case b of True \<Rightarrow> f | False \<Rightarrow> g) Q"
  by (cases b) simp_all

lemma triple_conj: "triple P f Q \<Longrightarrow> triple P' f Q' \<Longrightarrow> triple (\<lambda>s. P s \<and> P' s) f (\<lambda>a s. Q a s \<and> Q' a s)"
  by (auto simp: triple_def split: prod.splits)

lemma triple_given: "(C \<Longrightarrow> triple (\<lambda>_. True) f Q) \<Longrightarrow> triple (\<lambda>_. C) f Q"
  by (auto simp: triple_def)

end
