(* ===== verification/Router_Env.thy ===== *)
theory Router_Env
  imports Candidates Scan State_Rules
begin

section \<open>Handlers: the pool, the router and the other goroutines\<close>

text \<open>
  A handler of the pool runs critical sections and router calls in sequence while other goroutines
  run. It is a computation in the state monad over \<open>sys\<close>: the pool, the world (whatever decides
  the clock, the router's answers, the request context) and the log of the router calls that can
  move stake. Two fields are bookkeeping of the model: the wallet-slot tokens this handler holds
  (\<open>sy_mine\<close>), and how many of the logged calls it made while holding none (\<open>sy_bare\<close>). \<open>env\<close> is the interface to the outside: the router client and the clock are not
  code of the pool, and the theorems hold for every \<open>env\<close>. Before every critical section, clock
  read and router call the other goroutines take any number of steps (\<open>en_others\<close>).

  A router call gets the time it may take; an error comes back as an \<open>rerr\<close>. A computation that
  runs under \<open>context.WithoutCancel\<close> has \<open>cx = False\<close>: the request's end does not reach it.
\<close>

datatype call =
    OpenCall string int bool "rerr + string"   \<comment> \<open>bid, seconds, \<open>rejectExisting\<close>, answer\<close>
  | CloseCall string "rerr option"

record 'w sys =
  sy_pool :: pool
  sy_world :: 'w
  sy_calls :: "call list"
  sy_mine :: "nat list"
  sy_bare :: nat

record 'w env =
  en_now :: "'w \<Rightarrow> time"
  en_others :: "pool \<Rightarrow> 'w \<Rightarrow> pool \<times> 'w"
  en_ctx :: "'w \<Rightarrow> ctx_err option"
  en_sleep :: "dur \<Rightarrow> 'w \<Rightarrow> bool \<times> 'w"
  en_rand :: "'w \<Rightarrow> int \<Rightarrow> int"
  en_wait :: "nat \<Rightarrow> pool \<Rightarrow> 'w \<Rightarrow> slot_err option \<times> pool \<times> 'w"
  en_gate :: "pool \<Rightarrow> 'w \<Rightarrow> ctx_err option \<times> pool \<times> 'w"
  en_text :: "rerr \<Rightarrow> string"
  en_open :: "string \<Rightarrow> int \<Rightarrow> bool \<Rightarrow> dur \<Rightarrow> 'w \<Rightarrow> (rerr + string) \<times> 'w"
  en_list :: "string \<Rightarrow> dur \<Rightarrow> 'w \<Rightarrow> (rerr + rsession list) \<times> 'w"
  en_wallet :: "dur \<Rightarrow> 'w \<Rightarrow> (rerr + string) \<times> 'w"
  en_get :: "string \<Rightarrow> dur \<Rightarrow> 'w \<Rightarrow> (rerr + rsession) \<times> 'w"
  en_close :: "string \<Rightarrow> dur \<Rightarrow> 'w \<Rightarrow> rerr option \<times> 'w"
  en_rated :: "string \<Rightarrow> dur \<Rightarrow> 'w \<Rightarrow> (rated_bid list \<times> rerr option) \<times> 'w"
  en_supply :: "dur \<Rightarrow> 'w \<Rightarrow> (rerr + int option) \<times> 'w"
  en_budget :: "dur \<Rightarrow> 'w \<Rightarrow> (rerr + int option) \<times> 'w"
  en_healthy :: "string \<Rightarrow> 'w \<Rightarrow> string set option \<times> 'w"

type_synonym ('w, 'a) act = "('w sys, 'a) state"

subsection \<open>Primitives\<close>

definition others :: "'w env \<Rightarrow> ('w, unit) act" where
  "others E = State (\<lambda>s. case en_others E (sy_pool s) (sy_world s) of
     (p, w) \<Rightarrow> ((), s\<lparr>sy_pool := p, sy_world := w\<rparr>))"

definition in_world :: "('w \<Rightarrow> 'a \<times> 'w) \<Rightarrow> ('w, 'a) act" where
  "in_world f = State (\<lambda>s. case f (sy_world s) of (a, w) \<Rightarrow> (a, s\<lparr>sy_world := w\<rparr>))"

definition ask :: "'w env \<Rightarrow> ('w \<Rightarrow> 'a \<times> 'w) \<Rightarrow> ('w, 'a) act" where
  "ask E f = do { _ \<leftarrow> others E; in_world f }"

definition clock :: "'w env \<Rightarrow> ('w, time) act" where
  "clock E = ask E (\<lambda>w. (en_now E w, w))"

definition check_ctx :: "'w env \<Rightarrow> bool \<Rightarrow> ('w, ctx_err option) act" where
  "check_ctx E cx = (if cx then ask E (\<lambda>w. (en_ctx E w, w)) else ret None)"

definition pause :: "'w env \<Rightarrow> bool \<Rightarrow> dur \<Rightarrow> ('w, bool) act" where
  "pause E cx d = do { ended \<leftarrow> ask E (en_sleep E d); ret (cx \<and> ended) }"

definition on_pool :: "'w env \<Rightarrow> (time \<Rightarrow> pool \<Rightarrow> 'a \<times> pool) \<Rightarrow> ('w, 'a) act" where
  "on_pool E f = do {
     _ \<leftarrow> others E;
     State (\<lambda>s. case f (en_now E (sy_world s)) (sy_pool s) of (a, p) \<Rightarrow> (a, s\<lparr>sy_pool := p\<rparr>)) }"

definition with_mu :: "'w env \<Rightarrow> (time \<Rightarrow> mu_state \<Rightarrow> 'a \<times> mu_state) \<Rightarrow> ('w, 'a) act" where
  "with_mu E f = on_pool E (\<lambda>t p. case f t (plMu p) of (a, m) \<Rightarrow> (a, p\<lparr>plMu := m\<rparr>))"

definition with_fmu :: "'w env \<Rightarrow> (time \<Rightarrow> failover_mem \<Rightarrow> 'a \<times> failover_mem) \<Rightarrow> ('w, 'a) act" where
  "with_fmu E f = on_pool E (\<lambda>t p. case f t (plFmu p) of (a, m) \<Rightarrow> (a, p\<lparr>plFmu := m\<rparr>))"

definition with_atoms :: "'w env \<Rightarrow> (time \<Rightarrow> pool_atoms \<Rightarrow> 'a \<times> pool_atoms) \<Rightarrow> ('w, 'a) act" where
  "with_atoms E f = on_pool E (\<lambda>t p. case f t (plAtoms p) of (a, m) \<Rightarrow> (a, p\<lparr>plAtoms := m\<rparr>))"

definition with_chain :: "'w env \<Rightarrow> (time \<Rightarrow> chain_view \<Rightarrow> 'a \<times> chain_view) \<Rightarrow> ('w, 'a) act" where
  "with_chain E f = on_pool E (\<lambda>t p. case f t (plChain p) of (a, m) \<Rightarrow> (a, p\<lparr>plChain := m\<rparr>))"

definition with_slot :: "'w env \<Rightarrow> (time \<Rightarrow> wallet_slot \<Rightarrow> 'a \<times> wallet_slot) \<Rightarrow> ('w, 'a) act" where
  "with_slot E f = on_pool E (\<lambda>t p. case f t (plSlot p) of (a, m) \<Rightarrow> (a, p\<lparr>plSlot := m\<rparr>))"

text \<open>Sections that only change or only read.\<close>

abbreviation mu_do :: "'w env \<Rightarrow> (time \<Rightarrow> mu_state \<Rightarrow> mu_state) \<Rightarrow> ('w, unit) act" where
  "mu_do E f \<equiv> with_mu E (\<lambda>t m. ((), f t m))"

abbreviation mu_get :: "'w env \<Rightarrow> (time \<Rightarrow> mu_state \<Rightarrow> 'a) \<Rightarrow> ('w, 'a) act" where
  "mu_get E f \<equiv> with_mu E (\<lambda>t m. (f t m, m))"

abbreviation fmu_do :: "'w env \<Rightarrow> (time \<Rightarrow> failover_mem \<Rightarrow> failover_mem) \<Rightarrow> ('w, unit) act" where
  "fmu_do E f \<equiv> with_fmu E (\<lambda>t m. ((), f t m))"

abbreviation fmu_get :: "'w env \<Rightarrow> (time \<Rightarrow> failover_mem \<Rightarrow> 'a) \<Rightarrow> ('w, 'a) act" where
  "fmu_get E f \<equiv> with_fmu E (\<lambda>t m. (f t m, m))"

abbreviation atoms_get :: "'w env \<Rightarrow> (time \<Rightarrow> pool_atoms \<Rightarrow> 'a) \<Rightarrow> ('w, 'a) act" where
  "atoms_get E f \<equiv> with_atoms E (\<lambda>t m. (f t m, m))"

definition requestSweep :: "'w env \<Rightarrow> ('w, unit) act" where
  "requestSweep E = with_atoms E (\<lambda>t a. ((), a\<lparr>paScanKick := True\<rparr>))"

text \<open>The two router calls that can move stake; each is logged with its answer.\<close>

definition log_call :: "call \<Rightarrow> ('w, unit) act" where
  "log_call c = State (\<lambda>s. ((), s\<lparr>sy_calls := sy_calls s @ [c],
     sy_bare := sy_bare s + (if sy_mine s = [] then 1 else 0)\<rparr>))"

definition post_open :: "'w env \<Rightarrow> string \<Rightarrow> int \<Rightarrow> bool \<Rightarrow> dur \<Rightarrow> ('w, rerr + string) act" where
  "post_open E bid durationSec reject left = do {
     r \<leftarrow> ask E (en_open E bid durationSec reject left);
     _ \<leftarrow> log_call (OpenCall bid durationSec reject r);
     ret r }"

definition post_close :: "'w env \<Rightarrow> string \<Rightarrow> dur \<Rightarrow> ('w, rerr option) act" where
  "post_close E i left = do {
     r \<leftarrow> ask E (en_close E i left);
     _ \<leftarrow> log_call (CloseCall i r);
     ret r }"

subsection \<open>The boot gate as a handler uses it\<close>

text \<open>
  While the gate is closed a handler waits: the environment says how the wait ends (the request's
  end, for a wait bound to it, or the gate's opening). A wait that is not bound to the request
  (\<open>cx = False\<close>) goes on when the environment says it ended.
\<close>

definition gateClosed :: "'w env \<Rightarrow> ('w, bool) act" where
  "gateClosed E = mu_get E (\<lambda>t m. mGate m = GateClosed)"

definition wait_gate :: "'w env \<Rightarrow> bool \<Rightarrow> ('w, ctx_err option) act" where
  "wait_gate E cx = do {
     closed \<leftarrow> gateClosed E;
     if \<not> closed then ret None
     else do {
       e \<leftarrow> State (\<lambda>s. case en_gate E (sy_pool s) (sy_world s) of
              (e, p, w) \<Rightarrow> (e, s\<lparr>sy_pool := p, sy_world := w\<rparr>));
       ret (if cx then e else None) } }"

text \<open>The per-model open lock: the other goroutines run until the handler has it.\<close>

definition open_lock :: "'w env \<Rightarrow> string \<Rightarrow> ('w, unit) act" where
  "open_lock E key = others E"

subsection \<open>The wallet slot as a handler uses it\<close>

definition took :: "slot_token \<Rightarrow> ('w, slot_token) act" where
  "took t = State (\<lambda>s. (t, s\<lparr>sy_mine := tok_id t # sy_mine s\<rparr>))"

definition slot_acquire_act :: "'w env \<Rightarrow> bool \<Rightarrow> string \<Rightarrow> ('w, slot_err + slot_token) act" where
  "slot_acquire_act E cx key = do {
     c \<leftarrow> check_ctx E cx;
     r \<leftarrow> with_slot E (\<lambda>t s. acquire_enter s key c t);
     (case r of
        EnterErr e \<Rightarrow> ret (Inl e)
      | EnterTok t \<Rightarrow> do { t' \<leftarrow> took t; ret (Inr t') }
      | EnterWait n \<Rightarrow> do {
          ended \<leftarrow> State (\<lambda>s. case en_wait E n (sy_pool s) (sy_world s) of
                     (e, p, w) \<Rightarrow> (e, s\<lparr>sy_pool := p, sy_world := w\<rparr>));
          (case ended of
             Some e \<Rightarrow> do { e' \<leftarrow> with_slot E (\<lambda>t s. wait_abandon s n e t); ret (Inl e') }
           | None \<Rightarrow> do {
               got \<leftarrow> with_slot E (\<lambda>t s. wait_receive s n);
               (case got of
                  Some t \<Rightarrow> do { t' \<leftarrow> took t; ret (Inr t') }
                | None \<Rightarrow> ret (Inl SlotBusy)) }) }) }"

definition slot_try_act :: "'w env \<Rightarrow> string \<Rightarrow> ('w, slot_token option) act" where
  "slot_try_act E key = do {
     r \<leftarrow> with_slot E (\<lambda>t s. tryAcquire s key t);
     (case r of
        None \<Rightarrow> ret None
      | Some t \<Rightarrow> do { t' \<leftarrow> took t; ret (Some t') }) }"

definition slot_release_act :: "'w env \<Rightarrow> slot_token \<Rightarrow> ('w, unit) act" where
  "slot_release_act E tok = do {
     _ \<leftarrow> with_slot E (\<lambda>t s. ((), slot_release s (Some tok) t));
     State (\<lambda>s. ((), s\<lparr>sy_mine := remove1 (tok_id tok) (sy_mine s)\<rparr>)) }"

definition slot_left :: "'w env \<Rightarrow> slot_token \<Rightarrow> ('w, dur) act" where
  "slot_left E tok = do { t \<leftarrow> clock E; ret (remaining tok t) }"

definition call_time :: "'w env \<Rightarrow> slot_token \<Rightarrow> dur \<Rightarrow> ('w, dur) act" where
  "call_time E tok per = do { t \<leftarrow> clock E; ret (call_left tok per t) }"

subsection \<open>Calls that move stake\<close>

text \<open>Computations that make no call that moves stake.\<close>

definition quiet :: "('w, 'a) act \<Rightarrow> bool" where
  "quiet f \<longleftrightarrow> (\<forall>c. keeps (\<lambda>s. sy_calls s = c) f)"

named_theorems quiet_intro \<open>computations that log no call\<close>

lemma quietD: "quiet f \<Longrightarrow> run_state f s = (a, s') \<Longrightarrow> sy_calls s' = sy_calls s"
  unfolding quiet_def keeps_def by (metis snd_conv)

lemma quietI: "(\<And>s a s'. run_state f s = (a, s') \<Longrightarrow> sy_calls s' = sy_calls s) \<Longrightarrow> quiet f"
  by (simp add: quiet_def keeps_def) (metis prod.collapse)

lemma quiet_ret [quiet_intro]: "quiet (ret a)"
  by (simp add: quiet_def keeps_intro)

lemma quiet_bind [quiet_intro]: "quiet f \<Longrightarrow> (\<And>a. quiet (g a)) \<Longrightarrow> quiet (f \<bind> g)"
  by (simp add: quiet_def keeps_bind)

lemma quiet_if [quiet_intro]: "quiet f \<Longrightarrow> quiet g \<Longrightarrow> quiet (if b then f else g)"
  by simp

lemma quiet_option [quiet_intro]:
  "quiet f \<Longrightarrow> (\<And>x. quiet (g x)) \<Longrightarrow> quiet (case r of None \<Rightarrow> f | Some x \<Rightarrow> g x)"
  by (cases r) simp_all

lemma quiet_sum [quiet_intro]:
  "(\<And>x. quiet (f x)) \<Longrightarrow> (\<And>x. quiet (g x)) \<Longrightarrow> quiet (case r of Inl x \<Rightarrow> f x | Inr x \<Rightarrow> g x)"
  by (cases r) simp_all

lemma quiet_prod [quiet_intro]: "(\<And>x y. quiet (f x y)) \<Longrightarrow> quiet (case r of (x, y) \<Rightarrow> f x y)"
  by (cases r) simp

lemma quiet_enter [quiet_intro]:
  "(\<And>x. quiet (f x)) \<Longrightarrow> (\<And>x. quiet (g x)) \<Longrightarrow> (\<And>x. quiet (h x)) \<Longrightarrow>
   quiet (case r of EnterErr x \<Rightarrow> f x | EnterTok x \<Rightarrow> g x | EnterWait x \<Rightarrow> h x)"
  by (cases r) simp_all

lemma quiet_others [quiet_intro]: "quiet (others E)"
  by (rule quietI) (auto simp: others_def split: prod.splits)

lemma quiet_in_world [quiet_intro]: "quiet (in_world f)"
  by (rule quietI) (auto simp: in_world_def split: prod.splits)

lemma quiet_ask [quiet_intro]: "quiet (ask E f)"
  unfolding ask_def by (intro quiet_intro)

lemma quiet_on_pool [quiet_intro]: "quiet (on_pool E f)"
  unfolding on_pool_def by (intro quiet_intro, rule quietI) (auto split: prod.splits)

lemma quiet_clock [quiet_intro]: "quiet (clock E)"
  unfolding clock_def by (intro quiet_intro)

lemma quiet_ctx [quiet_intro]: "quiet (check_ctx E cx)"
  unfolding check_ctx_def by (intro quiet_intro)

lemma quiet_pause [quiet_intro]: "quiet (pause E cx d)"
  unfolding pause_def by (intro quiet_intro)

lemma quiet_sections [quiet_intro]:
  "quiet (with_mu E f1)" "quiet (with_fmu E f2)" "quiet (with_atoms E f3)" "quiet (with_chain E f4)"
  "quiet (with_slot E f5)" "quiet (requestSweep E)"
  unfolding with_mu_def with_fmu_def with_atoms_def with_chain_def with_slot_def requestSweep_def
  by (rule quiet_on_pool)+

lemma quiet_took [quiet_intro]: "quiet (took t)"
  by (rule quietI) (auto simp: took_def)

lemma quiet_slot_acquire [quiet_intro]: "quiet (slot_acquire_act E cx key)"
  unfolding slot_acquire_act_def by (intro quiet_intro, rule quietI, auto split: prod.splits)

lemma quiet_gate [quiet_intro]: "quiet (gateClosed E)" "quiet (wait_gate E cx)" "quiet (open_lock E key)"
  unfolding gateClosed_def wait_gate_def open_lock_def
  by (intro quiet_intro | rule quietI, auto split: prod.splits)+

lemma quiet_slot [quiet_intro]:
  "quiet (slot_try_act E key)" "quiet (slot_release_act E tok)" "quiet (slot_left E tok)"
  "quiet (call_time E tok per)"
  unfolding slot_try_act_def slot_release_act_def slot_left_def call_time_def
  by (intro quiet_intro | rule quietI, auto)+

lemma run_post_open:
  "run_state (post_open E bid d reject left) s = (r, s') \<Longrightarrow>
     sy_calls s' = sy_calls s @ [OpenCall bid d reject r]"
  unfolding post_open_def
  by (auto simp: State_Monad.bind_def log_call_def split: prod.splits dest!: quietD [OF quiet_ask])

lemma run_post_close:
  "run_state (post_close E i left) s = (r, s') \<Longrightarrow> sy_calls s' = sy_calls s @ [CloseCall i r]"
  unfolding post_close_def
  by (auto simp: State_Monad.bind_def log_call_def split: prod.splits dest!: quietD [OF quiet_ask])

end
