(* ===== verification/Open_Op.thy ===== *)
theory Open_Op
  imports Router_Env
begin

section \<open>One open operation (\<open>internal/pool/failover.go\<close>, \<open>openOp\<close>)\<close>

text \<open>
  An open operation holds the wallet slot. It reads the rated bids, filters them, and walks the
  candidates by bid; each answer is classified, and after an open that may have been sent the
  wallet's sessions are polled instead of sending another. The retry loops carry the number of
  retries left, so that they end by construction: \<open>backoff\<close> refuses once \<open>transientMaxRetries\<close>
  are used (\<open>same_bid_fuel\<close>), so the bound is the code's own.
\<close>

record open_op =
  op_tok :: slot_token
  op_model :: string
  op_start :: time
  op_retries :: nat
  op_windowRetries :: nat
  op_reject :: bool

definition newOpenOp :: "time \<Rightarrow> slot_token \<Rightarrow> string \<Rightarrow> open_op" where
  "newOpenOp now tok modelID = \<lparr>op_tok = tok, op_model = modelID, op_start = now, op_retries = 0,
     op_windowRetries = 0, op_reject = False\<rparr>"

definition retries_left :: "open_op \<Rightarrow> nat" where
  "retries_left op = transientMaxRetries - op_retries op"

subsection \<open>Reads\<close>

definition backoff :: "'w env \<Rightarrow> bool \<Rightarrow> open_op \<Rightarrow> ('w, dur \<times> bool \<times> open_op) act" where
  "backoff E cx op = (let d = backoffStep (op_retries op) in do {
     rpc \<leftarrow> atoms_get E (\<lambda>t a. paProvidedRPC a);
     if \<not> rpc then ret (d, False, op)
     else do {
       now \<leftarrow> clock E;
       c \<leftarrow> check_ctx E cx;
       if op_retries op \<ge> transientMaxRetries \<or> now - op_start op + d > transientBudget \<or>
          now + d > tok_deadline (op_tok op) \<or> c \<noteq> None
       then ret (d, False, op)
       else do {
         rnd \<leftarrow> in_world (\<lambda>w. (en_rand E w, w));
         ended \<leftarrow> pause E cx (jittered rnd d);
         ret (if ended then (d, False, op)
              else (d, True, op\<lparr>op_retries := Suc (op_retries op)\<rparr>)) } } })"

text \<open>The refusal when a retry is not allowed: the request's own end comes first.\<close>

definition give_up :: "'w env \<Rightarrow> bool \<Rightarrow> dur \<Rightarrow> ('w, open_err) act" where
  "give_up E cx d = do {
     c \<leftarrow> check_ctx E cx;
     ret (case c of Some e \<Rightarrow> RequestEnded e | None \<Rightarrow> errTransient d) }"

text \<open>After \<open>backoff\<close>: go on with \<open>again\<close> when it allowed a retry.\<close>

definition retry_or ::
  "'w env \<Rightarrow> bool \<Rightarrow> (open_op \<Rightarrow> ('w, open_op \<times> 'r) act) option \<Rightarrow> (open_err \<Rightarrow> 'r) \<Rightarrow>
   dur \<times> bool \<times> open_op \<Rightarrow> ('w, open_op \<times> 'r) act" where
  "retry_or E cx again wrap b =
     (case b of (d, ok, op) \<Rightarrow>
        (case (if ok then again else None) of
           Some k \<Rightarrow> k op
         | None \<Rightarrow> do { e \<leftarrow> give_up E cx d; ret (op, wrap e) }))"

text \<open>One read of the rated bids; \<open>again\<close> runs after a backoff that allowed another.\<close>

type_synonym cands = "open_err + rated_bid list \<times> rated_bid list"

definition candidates_try ::
  "'w env \<Rightarrow> bool \<Rightarrow> string \<Rightarrow> (open_op \<Rightarrow> ('w, open_op \<times> cands) act) option \<Rightarrow> open_op \<Rightarrow>
   ('w, open_op \<times> cands) act" where
  "candidates_try E cx extraAvoid again op = do {
     c \<leftarrow> check_ctx E cx;
     (case c of
        Some e \<Rightarrow> ret (op, Inl (RequestEnded e))
      | None \<Rightarrow> do {
          left \<leftarrow> call_time E (op_tok op) readCallTimeout;
          answer \<leftarrow> ask E (en_rated E (op_model op) left);
          (case answer of (rows, rerr) \<Rightarrow> do {
             c2 \<leftarrow> check_ctx E cx;
             (case (if rerr = None then None else c2) of
                Some e \<Rightarrow> ret (op, Inl (RequestEnded e))
              | None \<Rightarrow>
                  if isTransientRead rerr then do {
                    b \<leftarrow> backoff E cx op;
                    retry_or E cx again Inl b }
                  else do {
                    h \<leftarrow> ask E (en_healthy E (op_model op));
                    r \<leftarrow> fmu_get E (\<lambda>t f. filterCandidates t h (op_model op) extraAvoid rows rerr f);
                    ret (op, r) }) }) }) }"

fun candidates_loop ::
  "'w env \<Rightarrow> bool \<Rightarrow> string \<Rightarrow> nat \<Rightarrow> open_op \<Rightarrow> ('w, open_op \<times> cands) act" where
  "candidates_loop E cx extraAvoid 0 op = candidates_try E cx extraAvoid None op"
| "candidates_loop E cx extraAvoid (Suc n) op =
     candidates_try E cx extraAvoid (Some (candidates_loop E cx extraAvoid n)) op"

definition op_candidates :: "'w env \<Rightarrow> bool \<Rightarrow> string \<Rightarrow> open_op \<Rightarrow> ('w, open_op \<times> cands) act" where
  "op_candidates E cx extraAvoid op = candidates_loop E cx extraAvoid (retries_left op) op"

definition ReadStakeInputs :: "'w env \<Rightarrow> dur \<Rightarrow> ('w, rerr + stake_inputs) act" where
  "ReadStakeInputs E left = do {
     s \<leftarrow> ask E (en_supply E left);
     (case s of
        Inl e \<Rightarrow> ret (Inl e)
      | Inr sv \<Rightarrow> do {
          b \<leftarrow> ask E (en_budget E left);
          (case b of
             Inl e \<Rightarrow> ret (Inl e)
           | Inr bv \<Rightarrow>
               (case (sv, bv) of
                  (Some x, Some y) \<Rightarrow>
                    if x \<le> 0 \<or> y \<le> 0 then ret (Inl (OtherErr ''supply or budget not above zero''))
                    else do {
                      _ \<leftarrow> with_atoms E (\<lambda>t a. ((), SetHeldStakeInputs t (Some x) (Some y) a));
                      t \<leftarrow> clock E;
                      ret (Inr \<lparr>si_Supply = x, si_Budget = y, si_At = t\<rparr>) }
                | _ \<Rightarrow> ret (Inl (OtherErr ''supply or budget not above zero'')))) }) }"

definition EnsureStakeInputs :: "'w env \<Rightarrow> dur \<Rightarrow> ('w, rerr + stake_inputs) act" where
  "EnsureStakeInputs E left = do {
     h \<leftarrow> atoms_get E FreshStakeInputs;
     (case h of Some inp \<Rightarrow> ret (Inr inp) | None \<Rightarrow> ReadStakeInputs E left) }"

definition stakeInputsForOpen :: "'w env \<Rightarrow> bool \<Rightarrow> open_op \<Rightarrow> ('w, open_err + stake_inputs) act" where
  "stakeInputsForOpen E cx op = do {
     h \<leftarrow> atoms_get E FreshStakeInputs;
     (case h of
        Some inp \<Rightarrow> ret (Inr inp)
      | None \<Rightarrow> do {
          left \<leftarrow> call_time E (op_tok op) readCallTimeout;
          r \<leftarrow> ReadStakeInputs E left;
          (case r of
             Inr inp \<Rightarrow> ret (Inr inp)
           | Inl e \<Rightarrow> do {
               c \<leftarrow> check_ctx E cx;
               ret (Inl (case c of Some ce \<Rightarrow> RequestEnded ce
                                 | None \<Rightarrow> NoAvailable 0 StakeInputsUnreadable)) }) }) }"

text \<open>The wallet's open sessions: the wallet's address is read once.\<close>

definition readOpen :: "'w env \<Rightarrow> ('w, dur) act \<Rightarrow> ('w, rerr + rsession list \<times> string) act" where
  "readOpen E mk = do {
     addr \<leftarrow> mu_get E (\<lambda>t m. mWalletAddr m);
     got \<leftarrow> (if addr \<noteq> [] then ret (Inr addr)
            else do {
              left \<leftarrow> mk;
              r \<leftarrow> ask E (en_wallet E left);
              (case r of
                 Inl e \<Rightarrow> ret (Inl e)
               | Inr a \<Rightarrow> do { _ \<leftarrow> mu_do E (\<lambda>t m. m\<lparr>mWalletAddr := a\<rparr>); ret (Inr a) }) });
     (case got of
        Inl e \<Rightarrow> ret (Inl e)
      | Inr a \<Rightarrow> do {
          left \<leftarrow> mk;
          r \<leftarrow> ask E (en_list E a left);
          ret (case r of Inl e \<Rightarrow> Inl e | Inr open_s \<Rightarrow> Inr (open_s, a)) }) }"

subsection \<open>Finding the session of an open\<close>

definition open_of_row :: "bool \<Rightarrow> rsession \<Rightarrow> open_result" where
  "open_of_row resumed s = \<lparr>or_id = rs_ID s, or_provider = rs_Provider s, or_adopted = True,
     or_resumed = resumed, or_openedAt = of_unix (rs_OpenedAt s), or_endsAt = of_unix (rs_EndsAt s),
     or_stake = rs_Stake s\<rparr>"

definition ending :: "time \<Rightarrow> rsession \<Rightarrow> bool" where
  "ending now s \<longleftrightarrow> rs_EndsAt s \<le> unix now + go_div expiryBuffer second"

text \<open>\<open>at\<close> is the attempt as the pool's list holds it (it may have been marked since).\<close>

definition current_attempt :: "attempt \<Rightarrow> mu_state \<Rightarrow> attempt" where
  "current_attempt a m = (case List.find (\<lambda>x. at_id x = at_id a) (mPending m) of Some x \<Rightarrow> x | None \<Rightarrow> a)"

definition matchOpen :: "attempt \<Rightarrow> rsession list \<Rightarrow> time \<Rightarrow> mu_state \<Rightarrow> open_result option \<times> mu_state" where
  "matchOpen att open_s now m =
     (let ms = filter (\<lambda>s. attempt_matches (current_attempt att m) s \<and> \<not> closingMarkedLocked (rs_ID s) m \<and>
                           mget (mSess m) (rs_ID s) = None \<and> \<not> ending now s) open_s
      in if ms = [] then (None, m)
         else let keep = pickOne ms;
                  m1 = m\<lparr>mKnownDup := mKnownDup m \<union>
                         set (map (to_lower \<circ> rs_ID) (filter (\<lambda>s. rs_ID s \<noteq> rs_ID keep) ms))\<rparr>
              in (Some (open_of_row False keep), resolveAttemptLocked att m1))"

fun reconcile_polls ::
  "'w env \<Rightarrow> bool \<Rightarrow> open_op \<Rightarrow> attempt \<Rightarrow> bool \<Rightarrow> nat \<Rightarrow> ('w, open_result option) act" where
  "reconcile_polls E cx op att first 0 = ret None"
| "reconcile_polls E cx op att first (Suc n) = do {
     stop \<leftarrow> (if first then ret False
              else do {
                left \<leftarrow> slot_left E (op_tok op);
                if left < reconcileGap + go_div readCallTimeout 2 then ret True
                else pause E cx reconcileGap });
     if stop then ret None
     else do {
       left \<leftarrow> slot_left E (op_tok op);
       if left \<le> 0 then ret None
       else do {
         r \<leftarrow> readOpen E (call_time E (op_tok op) readCallTimeout);
         (case r of
            Inl e \<Rightarrow> reconcile_polls E cx op att False n
          | Inr (open_s, a) \<Rightarrow> do {
              got \<leftarrow> with_mu E (matchOpen att open_s);
              (case got of
                 Some g \<Rightarrow> do { _ \<leftarrow> mu_do E (\<lambda>t m. openSucceeded m); ret (Some g) }
               | None \<Rightarrow> reconcile_polls E cx op att False n) }) } } }"

definition reconcile ::
  "'w env \<Rightarrow> bool \<Rightarrow> open_op \<Rightarrow> attempt \<Rightarrow> reason \<Rightarrow> ('w, open_err + open_result) act" where
  "reconcile E cx op att r = do {
     got \<leftarrow> reconcile_polls E cx op att True reconcilePolls;
     (case got of
        Some g \<Rightarrow> ret (Inr g)
      | None \<Rightarrow> do {
          _ \<leftarrow> requestSweep E;
          if r \<noteq> NoReason then do {
            _ \<leftarrow> mu_do E (\<lambda>t m. setChainWait r t m);
            ret (Inl (errChainWait r)) }
          else ret (Inl (errTransient transientCap)) }) }"

text \<open>Why a session the router named is not adopted; \<open>Usable\<close>: it is.\<close>

datatype why_not = Usable | OtherModel | ClosedAlready | Ending | NotUsable | ExcludedProvider

definition adoptable ::
  "string \<Rightarrow> rsession \<Rightarrow> bool \<Rightarrow> bool \<Rightarrow> time \<Rightarrow> mu_state \<Rightarrow> (open_result option \<times> why_not) \<times> mu_state" where
  "adoptable model s retired excluded now m =
     (let lid = to_lower (rs_ID s) in
      if normModel (rs_ModelAgentID s) \<noteq> model then ((None, OtherModel), m)
      else if rs_ClosedAt s \<noteq> 0 then ((None, ClosedAlready), m)
      else if ending now s then ((None, Ending), m)
      else if retired \<or> closingMarkedLocked (rs_ID s) m \<or> lid \<in> mKnownDup m \<or> mget (mSess m) (rs_ID s) \<noteq> None
           then ((None, NotUsable), m)
      else if excluded then ((None, ExcludedProvider), m)
      else (case matchAttemptLocked s m of
              None \<Rightarrow> ((Some (open_of_row True s), Usable), m)
            | Some a \<Rightarrow>
                let m1 = resolveAttemptLocked a m
                in ((Some (open_of_row False s), Usable), m1\<lparr>mOpened := insert lid (mOpened m1)\<rparr>)))"

definition adoptExisting :: "'w env \<Rightarrow> bool \<Rightarrow> open_op \<Rightarrow> string \<Rightarrow> ('w, open_err + open_result) act" where
  "adoptExisting E cx op sessionID = do {
     left \<leftarrow> call_time E (op_tok op) readCallTimeout;
     r \<leftarrow> ask E (en_get E sessionID left);
     (case r of
        Inl e \<Rightarrow> do {
          c \<leftarrow> check_ctx E cx;
          (case c of
             Some ce \<Rightarrow> ret (Inl (RequestEnded ce))
           | None \<Rightarrow> do { _ \<leftarrow> requestSweep E; ret (Inl (errTransient transientCap)) }) }
      | Inr s0 \<Rightarrow>
          let s = (if rs_ID s0 = [] then s0\<lparr>rs_ID := sessionID\<rparr> else s0) in do {
            retired \<leftarrow> fmu_get E (\<lambda>t f. isRetired (rs_ID s) f);
            excluded \<leftarrow> fmu_get E (\<lambda>t f. IsProviderExcluded (rs_Provider s) f);
            got \<leftarrow> with_mu E (adoptable (op_model op) s retired excluded);
            (case got of
               (Some g, _) \<Rightarrow> ret (Inr g)
             | (None, _) \<Rightarrow> do { _ \<leftarrow> requestSweep E; ret (Inl (errTransient transientCap)) }) }) }"

subsection \<open>The walk\<close>

datatype bid_outcome = BidDone "open_err + open_result" | BidFault rerr

text \<open>What the class of an open error leads to.\<close>

definition after_class ::
  "'w env \<Rightarrow> bool \<Rightarrow> rated_bid \<Rightarrow> attempt \<Rightarrow> (open_op \<Rightarrow> ('w, open_op \<times> bid_outcome) act) option \<Rightarrow>
   open_op \<Rightarrow> rerr \<Rightarrow> open_class \<Rightarrow> ('w, open_op \<times> bid_outcome) act" where
  "after_class E cx b att again op err cls =
     (case cls of
        WalletFunds \<Rightarrow> do {
          _ \<leftarrow> mu_do E (\<lambda>t m. dropAttempt att m);
          ret (op, BidDone (Inl WalletNeedsFunds)) }
      | ProviderFault \<Rightarrow> do {
          _ \<leftarrow> mu_do E (\<lambda>t m. dropAttempt att m);
          _ \<leftarrow> fmu_do E (\<lambda>t f. MarkCooling t (op_model op) (rb_Provider b) f);
          ret (op, BidFault err) }
      | TransientWindow \<Rightarrow> do {
          bk \<leftarrow> backoff E cx (op\<lparr>op_windowRetries := Suc (op_windowRetries op)\<rparr>);
          retry_or E cx again (\<lambda>e. BidDone (Inl e)) bk }
      | TransientPreSend \<Rightarrow> do {
          _ \<leftarrow> mu_do E (\<lambda>t m. dropAttempt att m);
          bk \<leftarrow> backoff E cx op;
          retry_or E cx again (\<lambda>e. BidDone (Inl e)) bk }
      | MaybeSent \<Rightarrow> do {
          _ \<leftarrow> (if isTransportErr err
                then do { _ \<leftarrow> mu_do E (\<lambda>t m. markCut att m); requestSweep E }
                else ret ());
          _ \<leftarrow> (if chainWaitReason (Some err) \<noteq> NoReason
                then mu_do E (\<lambda>t m. markStuck att (chainWaitReason (Some err)) m) else ret ());
          g \<leftarrow> reconcile E False op att (chainWaitReason (Some err));
          ret (op, BidDone g) })"

text \<open>What one answer of the open call leads to.\<close>

definition after_open ::
  "'w env \<Rightarrow> bool \<Rightarrow> rated_bid \<Rightarrow> attempt \<Rightarrow> dur \<Rightarrow> (open_op \<Rightarrow> ('w, open_op \<times> bid_outcome) act) option \<Rightarrow>
   open_op \<Rightarrow> rerr + string \<Rightarrow> ('w, open_op \<times> bid_outcome) act" where
  "after_open E cx b att elapsed again op answer =
     (case answer of
        Inr i \<Rightarrow> do {
          _ \<leftarrow> mu_do E (\<lambda>t m. dropAttempt att m);
          _ \<leftarrow> mu_do E (\<lambda>t m. openSucceeded m);
          ret (op, BidDone (Inr \<lparr>or_id = i, or_provider = rb_Provider b, or_adopted = False, or_resumed = False,
                or_openedAt = zero_time, or_endsAt = zero_time, or_stake = None\<rparr>)) }
      | Inl err \<Rightarrow>
          (case err of
             ExistingSession i \<Rightarrow> do {
               _ \<leftarrow> mu_do E (\<lambda>t m. dropAttempt att m);
               r \<leftarrow> adoptExisting E cx op i;
               ret (op, BidDone r) }
           | _ \<Rightarrow> do {
               rpc \<leftarrow> atoms_get E (\<lambda>t a. paProvidedRPC a);
               after_class E cx b att again op err
                 (classifyOpenErr (Some err) elapsed (rpc \<and> op_windowRetries op < maxWindowRetries)) }))"

definition same_bid_try ::
  "'w env \<Rightarrow> bool \<Rightarrow> int \<Rightarrow> rated_bid \<Rightarrow> (open_op \<Rightarrow> ('w, open_op \<times> bid_outcome) act) option \<Rightarrow> open_op \<Rightarrow>
   ('w, open_op \<times> bid_outcome) act" where
  "same_bid_try E cx durationSec b again op = do {
     c \<leftarrow> check_ctx E cx;
     (case c of
        Some e \<Rightarrow> ret (op, BidDone (Inl (RequestEnded e)))
      | None \<Rightarrow> do {
          left \<leftarrow> slot_left E (op_tok op);
          if left < openMinPostTime + reconcileReserve
          then ret (op, BidDone (Inl (errTransient transientCap)))
          else do {
            att \<leftarrow> with_mu E (\<lambda>t m. addAttempt t (op_model op) (rb_ID b) m);
            t0 \<leftarrow> clock E;
            left2 \<leftarrow> slot_left E (op_tok op);
            answer \<leftarrow> post_open E (rb_ID b) durationSec (op_reject op) (left2 - reconcileReserve);
            t1 \<leftarrow> clock E;
            after_open E cx b att (t1 - t0) again op answer } }) }"

fun same_bid ::
  "'w env \<Rightarrow> bool \<Rightarrow> int \<Rightarrow> rated_bid \<Rightarrow> nat \<Rightarrow> open_op \<Rightarrow> ('w, open_op \<times> bid_outcome) act" where
  "same_bid E cx durationSec b 0 op = same_bid_try E cx durationSec b None op"
| "same_bid E cx durationSec b (Suc n) op =
     same_bid_try E cx durationSec b (Some (same_bid E cx durationSec b n)) op"

record walk =
  wk_tried :: "string set"
  wk_attempts :: nat
  wk_skipped :: nat
  wk_need :: "int option"
  wk_last :: "rerr option"

definition walk_start :: walk where
  "walk_start = \<lparr>wk_tried = {}, wk_attempts = 0, wk_skipped = 0, wk_need = None, wk_last = None\<rparr>"

text \<open>Whether the cap skips a bid, and its stake.\<close>

definition over_cap :: "(int \<times> stake_inputs) option \<Rightarrow> int \<Rightarrow> rated_bid \<Rightarrow> bool" where
  "over_cap cap durationSec b =
     (case cap of
        None \<Rightarrow> False
      | Some (limit, inp) \<Rightarrow>
          (case bidStake b inp durationSec of None \<Rightarrow> True | Some st \<Rightarrow> st > limit))"

definition skip_bid :: "(int \<times> stake_inputs) option \<Rightarrow> int \<Rightarrow> rated_bid \<Rightarrow> walk \<Rightarrow> walk" where
  "skip_bid cap durationSec b w =
     (let st = (case cap of None \<Rightarrow> None | Some (limit, inp) \<Rightarrow> bidStake b inp durationSec)
      in w\<lparr>wk_skipped := Suc (wk_skipped w),
           wk_need := (case (st, wk_need w) of
                         (None, n) \<Rightarrow> n
                       | (Some s, None) \<Rightarrow> Some s
                       | (Some s, Some n) \<Rightarrow> if s < n then Some s else Some n)\<rparr>)"

definition walk_end ::
  "'w env \<Rightarrow> (int \<times> stake_inputs) option \<Rightarrow> int \<Rightarrow> walk \<Rightarrow> ('w, open_err + open_result) act" where
  "walk_end E cap durationSec w =
     (if wk_skipped w > 0 then
        (let lim = (case cap of None \<Rightarrow> 0 | Some (l, _) \<Rightarrow> l) in do {
           _ \<leftarrow> mu_do E (\<lambda>t m. setStakeRefusal t (wk_need w) (Some lim) durationSec m);
           ret (Inl (StakeLimitExceeded (wk_need w) lim durationSec)) })
      else ret (Inl (case wk_last w of None \<Rightarrow> NoAlternate | Some e \<Rightarrow> WalkExhausted (wk_attempts w) e)))"

fun open_walk ::
  "'w env \<Rightarrow> bool \<Rightarrow> int \<Rightarrow> (int \<times> stake_inputs) option \<Rightarrow> rated_bid list \<Rightarrow> walk \<Rightarrow> open_op \<Rightarrow>
   ('w, open_op \<times> (open_err + open_result)) act" where
  "open_walk E cx durationSec cap [] w op = do { r \<leftarrow> walk_end E cap durationSec w; ret (op, r) }"
| "open_walk E cx durationSec cap (b # bs) w op =
     (if wk_attempts w \<ge> MaxBidAttempts then do { r \<leftarrow> walk_end E cap durationSec w; ret (op, r) }
      else if bid_prov b \<in> wk_tried w then open_walk E cx durationSec cap bs w op
      else if over_cap cap durationSec b then
        open_walk E cx durationSec cap bs (skip_bid cap durationSec b w) op
      else do {
        r \<leftarrow> same_bid E cx durationSec b (retries_left op) op;
        (case r of
           (op', BidDone g) \<Rightarrow> ret (op', g)
         | (op', BidFault e) \<Rightarrow>
             open_walk E cx durationSec cap bs
               (w\<lparr>wk_tried := insert (bid_prov b) (wk_tried w), wk_attempts := Suc (wk_attempts w),
                  wk_last := Some e\<rparr>) op') })"

definition openExcluding ::
  "'w env \<Rightarrow> bool \<Rightarrow> int \<Rightarrow> rated_bid list \<Rightarrow> open_op \<Rightarrow> ('w, open_op \<times> (open_err + open_result)) act" where
  "openExcluding E cx durationSec alts op = do {
     l \<leftarrow> atoms_get E (\<lambda>t a. StakeLimit a);
     (case l of (limit, invalid) \<Rightarrow>
        if invalid then ret (op, Inl StakeLimitInvalid)
        else (case limit of
                None \<Rightarrow> open_walk E cx durationSec None alts walk_start op
              | Some lim \<Rightarrow> do {
                  r \<leftarrow> stakeInputsForOpen E cx op;
                  (case r of
                     Inl e \<Rightarrow> ret (op, Inl e)
                   | Inr inp \<Rightarrow> open_walk E cx durationSec (Some (lim, inp)) alts walk_start op) })) }"

definition openAvoidingCooling ::
  "'w env \<Rightarrow> bool \<Rightarrow> int \<Rightarrow> open_op \<Rightarrow> ('w, open_op \<times> (open_err + open_result)) act" where
  "openAvoidingCooling E cx durationSec op = do {
     cut \<leftarrow> fmu_get E (\<lambda>t f. pendingCut (op_model op) f);
     (let clear = (if cut \<noteq> [] then fmu_do E (\<lambda>t f. clearCut (op_model op) f) else ret ()) in do {
        r \<leftarrow> op_candidates E cx [] op;
        (case r of
           (op1, Inl e) \<Rightarrow> do { _ \<leftarrow> clear; ret (op1, Inl e) }
         | (op1, Inr (cands, elig)) \<Rightarrow> do {
             g \<leftarrow> openExcluding E cx durationSec cands op1;
             (case g of
                (op2, Inl (WalkExhausted n e)) \<Rightarrow> do {
                  _ \<leftarrow> clear;
                  ra \<leftarrow> fmu_get E (\<lambda>t f. retryAfter t (op_model op) elig f);
                  ret (op2, Inl (NoAvailable ra NoReason)) }
              | (op2, Inl e) \<Rightarrow> ret (op2, Inl e)
              | (op2, Inr got) \<Rightarrow> do { _ \<leftarrow> clear; ret (op2, Inr got) }) }) }) }"

end
