(* ===== verification/Open_Safety.thy ===== *)
theory Open_Safety
  imports Open_Op
begin

section \<open>What an open operation sends\<close>

text \<open>
  The log of the open calls of one operation: which bids they name, when a further one may follow,
  and how many there can be, for every router, clock and interleaving. The fuel of the retry loops
  is shown to be enough.
\<close>

subsection \<open>Computations that send nothing\<close>

lemma quiet_backoff [quiet_intro]: "quiet (backoff E cx op)"
  unfolding backoff_def Let_def by (intro quiet_intro)

lemma quiet_give_up [quiet_intro]: "quiet (give_up E cx d)"
  unfolding give_up_def by (intro quiet_intro)

lemma quiet_ReadStakeInputs [quiet_intro]: "quiet (ReadStakeInputs E left)"
  unfolding ReadStakeInputs_def by (intro quiet_intro)

lemma quiet_stakeInputsForOpen [quiet_intro]: "quiet (stakeInputsForOpen E cx op)"
  unfolding stakeInputsForOpen_def by (intro quiet_intro)

lemma quiet_readOpen [quiet_intro]: "quiet mk \<Longrightarrow> quiet (readOpen E mk)"
  unfolding readOpen_def by (intro quiet_intro)

lemma quiet_reconcile_polls [quiet_intro]: "quiet (reconcile_polls E cx op att first n)"
proof (induction n arbitrary: first)
  case 0
  show ?case by (simp add: quiet_intro)
next
  case (Suc n)
  show ?case unfolding reconcile_polls.simps by (intro quiet_intro Suc.IH)
qed

lemma quiet_reconcile [quiet_intro]: "quiet (reconcile E cx op att r)"
  unfolding reconcile_def by (intro quiet_intro)

lemma quiet_adoptExisting [quiet_intro]: "quiet (adoptExisting E cx op i)"
  unfolding adoptExisting_def Let_def by (intro quiet_intro)

lemma quiet_retry_or:
  assumes "\<And>k op. again = Some k \<Longrightarrow> quiet (k op)"
  shows "quiet (retry_or E cx again wrap b)"
proof -
  obtain d ok op where b: "b = (d, ok, op)" by (metis surj_pair)
  show ?thesis
  proof (cases "if ok then again else None")
    case None
    then show ?thesis by (simp add: retry_or_def b) (intro quiet_intro)
  next
    case (Some k)
    then show ?thesis using assms by (simp add: retry_or_def b split: if_splits)
  qed
qed

lemma quiet_candidates_try:
  assumes "\<And>k op'. again = Some k \<Longrightarrow> quiet (k op')"
  shows "quiet (candidates_try E cx x again op)"
  unfolding candidates_try_def by (intro quiet_intro quiet_retry_or assms)

lemma quiet_candidates [quiet_intro]: "quiet (op_candidates E cx x op)"
proof -
  have "quiet (candidates_loop E cx x n op)" for n op
    by (induction n arbitrary: op) (auto intro: quiet_candidates_try)
  then show ?thesis by (simp add: op_candidates_def)
qed

lemma quiet_walk_end [quiet_intro]: "quiet (walk_end E cap d w)"
  unfolding walk_end_def Let_def by (intro quiet_intro)

subsection \<open>Backoff and fuel\<close>

lemma run_backoff:
  assumes "run_state (backoff E cx op) s = ((d, ok, op'), s')"
  shows "op' = (if ok then op\<lparr>op_retries := Suc (op_retries op)\<rparr> else op) \<and>
    (ok \<longrightarrow> op_retries op < transientMaxRetries) \<and> d = backoffStep (op_retries op)"
  using assms unfolding backoff_def Let_def
  by (fastforce elim!: run_bindE split: if_splits)


lemma run_retE: "run_state (ret a) s = (b, s') \<Longrightarrow> (b = a \<Longrightarrow> s' = s \<Longrightarrow> thesis) \<Longrightarrow> thesis"
  by simp

subsection \<open>The answer of one open\<close>

text \<open>An answer after which another open may be sent: its class does not depend on luck.\<close>

definition resendable :: "rerr \<Rightarrow> bool" where
  "resendable e \<longleftrightarrow> (\<forall>i. e \<noteq> ExistingSession i) \<and>
     (\<exists>d w. classifyOpenErr (Some e) d w \<in> {ProviderFault, TransientPreSend, TransientWindow})"

definition same_op :: "open_op \<Rightarrow> open_op \<Rightarrow> bool" where
  "same_op op op' \<longleftrightarrow> op_tok op' = op_tok op \<and> op_model op' = op_model op \<and> op_start op' = op_start op \<and>
     op_reject op' = op_reject op"

lemma same_op_refl [simp]: "same_op op op"
  by (simp add: same_op_def)

lemma same_op_trans: "same_op a b \<Longrightarrow> same_op b c \<Longrightarrow> same_op a c"
  by (simp add: same_op_def)

lemma run_retry_or:
  assumes "run_state (retry_or E cx again (\<lambda>e. BidDone (Inl e)) (d, ok, op2)) s = ((op', out), s')"
  shows "sy_calls s' = sy_calls s \<and> op' = op2 \<and> (\<exists>g. out = BidDone g) \<or>
    ok \<and> (\<exists>k. again = Some k \<and> run_state (k op2) s = ((op', out), s'))"
proof (cases "if ok then again else None")
  case None
  with assms have "run_state (give_up E cx d \<bind> (\<lambda>e. ret (op2, BidDone (Inl e)))) s = ((op', out), s')"
    by (simp add: retry_or_def)
  then show ?thesis by (auto elim!: run_bindE dest: quietD [OF quiet_give_up])
next
  case (Some k)
  with assms show ?thesis by (auto simp: retry_or_def split: if_splits)
qed


definition stays :: "open_op \<Rightarrow> 'w sys \<Rightarrow> rerr + string \<Rightarrow> open_op \<Rightarrow> bid_outcome \<Rightarrow> 'w sys \<Rightarrow> bool" where
  "stays op s ans op' out s' \<longleftrightarrow> sy_calls s' = sy_calls s \<and> same_op op op' \<and>
     op_retries op \<le> op_retries op' \<and> op_retries op' \<le> max (op_retries op) transientMaxRetries \<and>
     (\<forall>e. out = BidFault e \<longrightarrow> ans = Inl e \<and> resendable e)"

definition goes_on ::
  "(open_op \<Rightarrow> ('w, open_op \<times> bid_outcome) act) option \<Rightarrow> open_op \<Rightarrow> 'w sys \<Rightarrow> rerr + string \<Rightarrow>
   open_op \<Rightarrow> bid_outcome \<Rightarrow> 'w sys \<Rightarrow> bool" where
  "goes_on again op s ans op' out s' \<longleftrightarrow>
     (\<exists>k op2 s1 e. again = Some k \<and> sy_calls s1 = sy_calls s \<and> same_op op op2 \<and>
       op_retries op2 = Suc (op_retries op) \<and> op_retries op < transientMaxRetries \<and>
       ans = Inl e \<and> resendable e \<and> run_state (k op2) s1 = ((op', out), s'))"

lemma run_after_backoff:
  assumes run: "run_state (backoff E cx op1 \<bind> retry_or E cx again (\<lambda>e. BidDone (Inl e))) s = ((op', out), s')"
    and op1: "same_op op op1" "op_retries op1 = op_retries op" and e: "resendable e"
  shows "stays op s (Inl e) op' out s' \<or> goes_on again op s (Inl e) op' out s'"
proof -
  from run obtain d ok op2 s1 where b: "run_state (backoff E cx op1) s = ((d, ok, op2), s1)"
    and r: "run_state (retry_or E cx again (\<lambda>e. BidDone (Inl e)) (d, ok, op2)) s1 = ((op', out), s')"
    by (auto elim!: run_bindE)
  note bk = run_backoff [OF b] and q = quietD [OF quiet_backoff b]
  have same: "same_op op op2" using bk op1(1) by (auto simp: same_op_def)
  from run_retry_or [OF r] show ?thesis
  proof
    assume "sy_calls s' = sy_calls s1 \<and> op' = op2 \<and> (\<exists>g. out = BidDone g)"
    with same bk q op1(2) show ?thesis by (auto simp: stays_def)
  next
    assume "ok \<and> (\<exists>k. again = Some k \<and> run_state (k op2) s1 = ((op', out), s'))"
    with same bk q op1(2) e show ?thesis by (auto simp: goes_on_def)
  qed
qed

lemma run_after_class:
  assumes run: "run_state (after_class E cx b att again op err cls) s = ((op', out), s')"
    and cls: "cls \<in> {ProviderFault, TransientPreSend, TransientWindow} \<Longrightarrow> resendable err"
  shows "stays op s (Inl err) op' out s' \<or> goes_on again op s (Inl err) op' out s'"
proof (cases cls)
  case MaybeSent
  have "quiet (after_class E cx b att again op err MaybeSent)"
    unfolding after_class_def open_class.case by (intro quiet_intro)
  from quietD [OF this run [unfolded MaybeSent]] have "sy_calls s' = sy_calls s" .
  moreover have "op' = op \<and> (\<exists>g. out = BidDone g)"
    using run unfolding MaybeSent after_class_def open_class.case by (elim run_bindE) (simp, blast)
  ultimately show ?thesis by (auto simp: stays_def)
next
  case ProviderFault
  with run cls show ?thesis
    by (auto simp: after_class_def stays_def elim!: run_bindE dest!: quietD [OF quiet_sections(1)]
        quietD [OF quiet_sections(2)])
next
  case TransientPreSend
  with run obtain s1 where "sy_calls s1 = sy_calls s" and
    "run_state (backoff E cx op \<bind> retry_or E cx again (\<lambda>e. BidDone (Inl e))) s1 = ((op', out), s')"
    by (auto simp: after_class_def elim!: run_bindE [of "mu_do E (\<lambda>t m. dropAttempt att m)"]
        dest!: quietD [OF quiet_sections(1)])
  with run_after_backoff [OF this(2), of op err] cls TransientPreSend show ?thesis
    by (simp add: stays_def goes_on_def)
next
  case TransientWindow
  with run have "run_state (backoff E cx (op\<lparr>op_windowRetries := Suc (op_windowRetries op)\<rparr>) \<bind>
      retry_or E cx again (\<lambda>e. BidDone (Inl e))) s = ((op', out), s')"
    by (simp add: after_class_def)
  then show ?thesis
    by (rule run_after_backoff) (use cls TransientWindow in \<open>simp_all add: same_op_def\<close>)
next
  case WalletFunds
  with run show ?thesis
    by (auto simp: after_class_def stays_def elim!: run_bindE dest!: quietD [OF quiet_sections(1)])
qed

lemma run_after_open:
  assumes run: "run_state (after_open E cx b att el again op ans) s = ((op', out), s')"
  shows "stays op s ans op' out s' \<or> goes_on again op s ans op' out s'"
proof (cases ans)
  case (Inr i)
  with run show ?thesis
    by (auto simp: after_open_def stays_def elim!: run_bindE dest!: quietD [OF quiet_sections(1)])
next
  case (Inl err)
  show ?thesis
  proof (cases "\<exists>i. err = ExistingSession i")
    case True
    with Inl run show ?thesis
      by (auto simp: after_open_def stays_def elim!: run_bindE dest!: quietD [OF quiet_sections(1)]
          quietD [OF quiet_adoptExisting])
  next
    case False
    then have "run_state (atoms_get E (\<lambda>t a. paProvidedRPC a) \<bind> (\<lambda>rpc.
        after_class E cx b att again op err
          (classifyOpenErr (Some err) el (rpc \<and> op_windowRetries op < maxWindowRetries)))) s = ((op', out), s')"
      using run by (cases err) (simp_all add: after_open_def Inl)
    then obtain rpc s1 where "sy_calls s1 = sy_calls s" and
      r: "run_state (after_class E cx b att again op err
          (classifyOpenErr (Some err) el (rpc \<and> op_windowRetries op < maxWindowRetries))) s1 = ((op', out), s')"
      by (auto elim!: run_bindE dest!: quietD [OF quiet_sections(3)])
    moreover have "resendable err"
      if "classifyOpenErr (Some err) el w \<in> {ProviderFault, TransientPreSend, TransientWindow}" for w
      using that False unfolding resendable_def by blast
    ultimately show ?thesis
      using run_after_class [OF r] Inl by (simp add: stays_def goes_on_def)
  qed
qed


subsection \<open>The opens of one bid and of a walk\<close>

definition faults :: "call list \<Rightarrow> bool" where
  "faults posts \<longleftrightarrow> (\<forall>c \<in> set posts. \<exists>bid d rej e. c = OpenCall bid d rej (Inl e) \<and> resendable e)"

definition of_bids :: "rated_bid set \<Rightarrow> int \<Rightarrow> bool \<Rightarrow> call list \<Rightarrow> bool" where
  "of_bids bids d rej posts \<longleftrightarrow> (\<forall>c \<in> set posts. \<exists>b \<in> bids. \<exists>a. c = OpenCall (rb_ID b) d rej a)"

definition bid_posts ::
  "int \<Rightarrow> open_op \<Rightarrow> rated_bid \<Rightarrow> open_op \<Rightarrow> bid_outcome \<Rightarrow> call list \<Rightarrow> bool" where
  "bid_posts d op b op' out posts \<longleftrightarrow> of_bids {b} d (op_reject op) posts \<and> same_op op op' \<and>
     op_retries op \<le> op_retries op' \<and> op_retries op' \<le> max (op_retries op) transientMaxRetries \<and>
     faults (butlast posts) \<and> (\<forall>e. out = BidFault e \<longrightarrow> faults posts) \<and>
     length posts \<le> Suc (op_retries op' - op_retries op)"

lemma faults_append [simp]: "faults (xs @ ys) \<longleftrightarrow> faults xs \<and> faults ys"
  by (auto simp: faults_def)

lemma faults_Nil [simp]: "faults []"
  by (simp add: faults_def)

lemma faults_Cons [simp]:
  "faults (c # xs) \<longleftrightarrow> (\<exists>bid d rej e. c = OpenCall bid d rej (Inl e) \<and> resendable e) \<and> faults xs"
  by (auto simp: faults_def)

lemma faults_butlast: "faults xs \<Longrightarrow> faults ys' \<Longrightarrow> ys' = butlast ys \<Longrightarrow> faults (butlast (xs @ ys))"
  by (cases "ys = []") (auto simp: butlast_append faults_def dest: in_set_butlastD)

lemma bid_posts_none:
  assumes "sy_calls s' = sy_calls s" and "op' = op" and "out = BidDone g"
  shows "\<exists>posts. sy_calls s' = sy_calls s @ posts \<and> bid_posts d op b op' out posts"
  using assms by (intro exI [of _ "[]"]) (simp add: bid_posts_def of_bids_def)

lemma same_bid_try_posts:
  assumes run: "run_state (same_bid_try E cx d b again op) s = ((op', out), s')"
    and IH: "\<And>k op2 s1. again = Some k \<Longrightarrow> run_state (k op2) s1 = ((op', out), s') \<Longrightarrow>
      \<exists>posts. sy_calls s' = sy_calls s1 @ posts \<and> bid_posts d op2 b op' out posts"
  shows "\<exists>posts. sy_calls s' = sy_calls s @ posts \<and> bid_posts d op b op' out posts"
proof -
  from run obtain c s1 where c: "run_state (check_ctx E cx) s = (c, s1)"
    and run1: "run_state (case c of Some e \<Rightarrow> ret (op, BidDone (Inl (RequestEnded e))) | None \<Rightarrow> do {
          left \<leftarrow> slot_left E (op_tok op);
          if left < openMinPostTime + reconcileReserve
          then ret (op, BidDone (Inl (errTransient transientCap)))
          else do {
            att \<leftarrow> with_mu E (\<lambda>t m. addAttempt t (op_model op) (rb_ID b) m);
            t0 \<leftarrow> clock E;
            left2 \<leftarrow> slot_left E (op_tok op);
            answer \<leftarrow> post_open E (rb_ID b) d (op_reject op) (left2 - reconcileReserve);
            t1 \<leftarrow> clock E;
            after_open E cx b att (t1 - t0) again op answer } }) s1 = ((op', out), s')"
    unfolding same_bid_try_def by (elim run_bindE)
  note q1 = quietD [OF quiet_ctx c]
  show ?thesis
  proof (cases c)
    case (Some e)
    show ?thesis by (rule bid_posts_none) (use run1 q1 Some in auto)
  next
    case None
    with run1 obtain left s2 where l: "run_state (slot_left E (op_tok op)) s1 = (left, s2)"
      and run2: "run_state (if left < openMinPostTime + reconcileReserve
          then ret (op, BidDone (Inl (errTransient transientCap)))
          else do {
            att \<leftarrow> with_mu E (\<lambda>t m. addAttempt t (op_model op) (rb_ID b) m);
            t0 \<leftarrow> clock E;
            left2 \<leftarrow> slot_left E (op_tok op);
            answer \<leftarrow> post_open E (rb_ID b) d (op_reject op) (left2 - reconcileReserve);
            t1 \<leftarrow> clock E;
            after_open E cx b att (t1 - t0) again op answer }) s2 = ((op', out), s')"
      unfolding None option.case by (elim run_bindE)
    note q2 = quietD [OF quiet_slot(3) l]
    show ?thesis
    proof (cases "left < openMinPostTime + reconcileReserve")
      case True
      show ?thesis by (rule bid_posts_none) (use run2 q1 q2 True in auto)
    next
      case False
      with run2 have "run_state (do {
            att \<leftarrow> with_mu E (\<lambda>t m. addAttempt t (op_model op) (rb_ID b) m);
            t0 \<leftarrow> clock E;
            left2 \<leftarrow> slot_left E (op_tok op);
            answer \<leftarrow> post_open E (rb_ID b) d (op_reject op) (left2 - reconcileReserve);
            t1 \<leftarrow> clock E;
            after_open E cx b att (t1 - t0) again op answer }) s2 = ((op', out), s')"
        by (simp only: if_False)
      then obtain att s3 t0 s4 left2 s5 ans s6 t1 s7 where
        r3: "run_state (with_mu E (\<lambda>t m. addAttempt t (op_model op) (rb_ID b) m)) s2 = (att, s3)"
        and r4: "run_state (clock E) s3 = (t0, s4)"
        and r5: "run_state (slot_left E (op_tok op)) s4 = (left2, s5)"
        and r6: "run_state (post_open E (rb_ID b) d (op_reject op) (left2 - reconcileReserve)) s5 = (ans, s6)"
        and r7: "run_state (clock E) s6 = (t1, s7)"
        and r8: "run_state (after_open E cx b att (t1 - t0) again op ans) s7 = ((op', out), s')"
        by (elim run_bindE)
      have calls: "sy_calls s7 = sy_calls s @ [OpenCall (rb_ID b) d (op_reject op) ans]"
        using q1 q2 quietD [OF quiet_sections(1) r3] quietD [OF quiet_clock r4]
          quietD [OF quiet_slot(3) r5] run_post_open [OF r6] quietD [OF quiet_clock r7] by simp
      from run_after_open [OF r8] show ?thesis
      proof
        assume "stays op s7 ans op' out s'"
        then show ?thesis
          using calls by (intro exI [of _ "[OpenCall (rb_ID b) d (op_reject op) ans]"])
            (auto simp: stays_def bid_posts_def of_bids_def faults_def)
      next
        assume "goes_on again op s7 ans op' out s'"
        then obtain k op2 s8 e where k: "again = Some k" and q8: "sy_calls s8 = sy_calls s7"
          and same: "same_op op op2" "op_retries op2 = Suc (op_retries op)"
            "op_retries op < transientMaxRetries"
          and ans: "ans = Inl e" "resendable e" and rk: "run_state (k op2) s8 = ((op', out), s')"
          by (auto simp: goes_on_def)
        from IH [OF k rk] obtain posts where posts: "sy_calls s' = sy_calls s8 @ posts"
          and bp: "bid_posts d op2 b op' out posts" by blast
        let ?c = "OpenCall (rb_ID b) d (op_reject op) ans"
        have "faults [?c]" using ans by (simp add: faults_def)
        then have "bid_posts d op b op' out ([?c] @ posts)"
          using bp same faults_butlast [of "[?c]" "butlast posts" posts]
          by (auto simp: bid_posts_def of_bids_def same_op_def)
        with posts q8 calls show ?thesis by (intro exI [of _ "[?c] @ posts"]) simp
      qed
    qed
  qed
qed

lemma same_bid_posts:
  "run_state (same_bid E cx d b n op) s = ((op', out), s') \<Longrightarrow>
     \<exists>posts. sy_calls s' = sy_calls s @ posts \<and> bid_posts d op b op' out posts"
proof (induction n arbitrary: op s)
  case 0
  then show ?case unfolding same_bid.simps by (rule same_bid_try_posts) simp
next
  case (Suc n)
  from Suc.prems show ?case
    unfolding same_bid.simps by (rule same_bid_try_posts) (use Suc.IH in auto)
qed


definition walk_posts ::
  "open_op \<Rightarrow> (int \<times> stake_inputs) option \<Rightarrow> int \<Rightarrow> rated_bid list \<Rightarrow> walk \<Rightarrow> open_op \<Rightarrow> call list \<Rightarrow> bool" where
  "walk_posts op cap d bs w op' posts \<longleftrightarrow>
     (\<exists>us. of_bids (set us) d (op_reject op) posts \<and> distinct (map bid_prov us) \<and>
        length us \<le> MaxBidAttempts - wk_attempts w \<and>
        set us \<subseteq> {b \<in> set bs. \<not> over_cap cap d b \<and> bid_prov b \<notin> wk_tried w} \<and>
        length posts \<le> length us + (op_retries op' - op_retries op)) \<and>
     op_retries op \<le> op_retries op' \<and> op_retries op' \<le> max (op_retries op) transientMaxRetries \<and>
     same_op op op' \<and> faults (butlast posts)"

lemma walk_posts_none: "walk_posts op cap d bs w op []"
  unfolding walk_posts_def by (intro conjI exI [of _ "[]"]) (simp_all add: of_bids_def)

lemma of_bids_mono: "of_bids A d rej posts \<Longrightarrow> A \<subseteq> B \<Longrightarrow> of_bids B d rej posts"
  unfolding of_bids_def by blast

lemma of_bids_append [simp]: "of_bids A d rej (xs @ ys) \<longleftrightarrow> of_bids A d rej xs \<and> of_bids A d rej ys"
  by (auto simp: of_bids_def)

lemma walk_posts_skip:
  "walk_posts op cap d bs w' op' posts \<Longrightarrow> wk_tried w' = wk_tried w \<Longrightarrow> wk_attempts w' = wk_attempts w \<Longrightarrow>
   walk_posts op cap d (b # bs) w op' posts"
  unfolding walk_posts_def by (elim conjE exE, intro conjI exI) (assumption | auto)+

lemma walk_posts_last:
  assumes "bid_posts d op b op' (BidDone g) posts" and "wk_attempts w < MaxBidAttempts"
    and "bid_prov b \<notin> wk_tried w" and "\<not> over_cap cap d b"
  shows "walk_posts op cap d (b # bs) w op' posts"
  unfolding walk_posts_def
  by (intro conjI exI [of _ "[b]"]) (use assms in \<open>auto simp: bid_posts_def\<close>)

lemma walk_posts_step:
  assumes b: "bid_posts d op b op1 (BidFault e) ps" and w: "wk_attempts w < MaxBidAttempts"
    and "bid_prov b \<notin> wk_tried w" and "\<not> over_cap cap d b"
    and rest: "walk_posts op1 cap d bs w1 op' qs"
    and w1: "wk_tried w1 = insert (bid_prov b) (wk_tried w)" "wk_attempts w1 = Suc (wk_attempts w)"
  shows "walk_posts op cap d (b # bs) w op' (ps @ qs)"
proof -
  from rest obtain us where us: "of_bids (set us) d (op_reject op1) qs" "distinct (map bid_prov us)"
    "length us \<le> MaxBidAttempts - Suc (wk_attempts w)"
    "set us \<subseteq> {b' \<in> set bs. \<not> over_cap cap d b' \<and> bid_prov b' \<notin> insert (bid_prov b) (wk_tried w)}"
    "length qs \<le> length us + (op_retries op' - op_retries op1)"
    by (auto simp: walk_posts_def w1)
  have "of_bids (set (b # us)) d (op_reject op) (ps @ qs)"
    using b us(1) by (auto simp: bid_posts_def same_op_def intro: of_bids_mono)
  moreover have "distinct (map bid_prov (b # us))" using us(2,4) by auto
  moreover have "length (b # us) \<le> MaxBidAttempts - wk_attempts w" using us(3) w by simp
  moreover have "set (b # us) \<subseteq> {b' \<in> set (b # bs). \<not> over_cap cap d b' \<and> bid_prov b' \<notin> wk_tried w}"
    using us(4) assms(3,4) by auto
  moreover have "length (ps @ qs) \<le> length (b # us) + (op_retries op' - op_retries op)"
    using b us(5) rest by (auto simp: bid_posts_def walk_posts_def)
  moreover have "op_retries op \<le> op_retries op' \<and> op_retries op' \<le> max (op_retries op) transientMaxRetries \<and>
      same_op op op'"
    using b rest by (auto simp: bid_posts_def walk_posts_def intro: same_op_trans)
  moreover have "faults (butlast (ps @ qs))"
    using b rest faults_butlast [of ps "butlast qs" qs] by (auto simp: bid_posts_def walk_posts_def)
  ultimately show ?thesis unfolding walk_posts_def by blast
qed

lemma open_walk_posts:
  "run_state (open_walk E cx d cap bs w op) s = ((op', r), s') \<Longrightarrow>
     \<exists>posts. sy_calls s' = sy_calls s @ posts \<and> walk_posts op cap d bs w op' posts"
proof (induction bs arbitrary: w op s)
  case Nil
  then have "sy_calls s' = sy_calls s" and "op' = op"
    by (auto elim!: run_bindE dest: quietD [OF quiet_walk_end])
  then show ?case by (intro exI [of _ "[]"]) (simp add: walk_posts_none)
next
  case (Cons b bs)
  show ?case
  proof (cases "wk_attempts w \<ge> MaxBidAttempts")
    case True
    with Cons.prems have "sy_calls s' = sy_calls s" and "op' = op"
      by (auto elim!: run_bindE dest: quietD [OF quiet_walk_end])
    then show ?thesis by (intro exI [of _ "[]"]) (simp add: walk_posts_none)
  next
    case att: False
    show ?thesis
    proof (cases "bid_prov b \<in> wk_tried w \<or> over_cap cap d b")
      case True
      then obtain w' where run: "run_state (open_walk E cx d cap bs w' op) s = ((op', r), s')"
        and w': "wk_tried w' = wk_tried w" "wk_attempts w' = wk_attempts w"
        using Cons.prems att by (auto simp: skip_bid_def split: if_splits)
      from Cons.IH [OF run] w' show ?thesis by (blast intro: walk_posts_skip)
    next
      case False
      with Cons.prems att have "run_state (do {
          r \<leftarrow> same_bid E cx d b (retries_left op) op;
          (case r of
             (op', BidDone g) \<Rightarrow> ret (op', g)
           | (op', BidFault e) \<Rightarrow> open_walk E cx d cap bs
               (w\<lparr>wk_tried := insert (bid_prov b) (wk_tried w), wk_attempts := Suc (wk_attempts w),
                  wk_last := Some e\<rparr>) op') }) s = ((op', r), s')"
        by simp
      then obtain op1 out s1 where r1: "run_state (same_bid E cx d b (retries_left op) op) s = ((op1, out), s1)"
        and r2: "run_state (case out of BidDone g \<Rightarrow> ret (op1, g)
           | BidFault e \<Rightarrow> open_walk E cx d cap bs
               (w\<lparr>wk_tried := insert (bid_prov b) (wk_tried w), wk_attempts := Suc (wk_attempts w),
                  wk_last := Some e\<rparr>) op1) s1 = ((op', r), s')"
        by (elim run_bindE) auto
      from same_bid_posts [OF r1] obtain ps where ps: "sy_calls s1 = sy_calls s @ ps"
        and bp: "bid_posts d op b op1 out ps" by blast
      show ?thesis
      proof (cases out)
        case (BidDone g)
        with r2 ps bp False att walk_posts_last [of d op b op1 g ps w cap bs] show ?thesis by auto
      next
        case (BidFault e)
        let ?w1 = "w\<lparr>wk_tried := insert (bid_prov b) (wk_tried w), wk_attempts := Suc (wk_attempts w),
          wk_last := Some e\<rparr>"
        from r2 BidFault have "run_state (open_walk E cx d cap bs ?w1 op1) s1 = ((op', r), s')" by simp
        from Cons.IH [OF this] obtain qs where qs: "sy_calls s' = sy_calls s1 @ qs"
          and wp: "walk_posts op1 cap d bs ?w1 op' qs" by blast
        have "walk_posts op cap d (b # bs) w op' (ps @ qs)"
          using bp BidFault att False by (intro walk_posts_step [OF _ _ _ _ wp]) auto
        with ps qs show ?thesis by auto
      qed
    qed
  qed
qed


subsection \<open>The fuel is enough\<close>

text \<open>Two continuations that agree where \<open>backoff\<close> can still lead.\<close>

definition agree :: "(open_op \<Rightarrow> 'b) option \<Rightarrow> (open_op \<Rightarrow> 'b) option \<Rightarrow> open_op \<Rightarrow> bool" where
  "agree again again' op \<longleftrightarrow> (op_retries op < transientMaxRetries \<longrightarrow>
     (\<forall>op2. op_retries op2 = Suc (op_retries op) \<longrightarrow>
        map_option (\<lambda>k. k op2) again = map_option (\<lambda>k. k op2) again'))"

lemma bind_cong_run:
  assumes "\<And>a s1. run_state f s = (a, s1) \<Longrightarrow> run_state (g a) s1 = run_state (h a) s1"
  shows "run_state (f \<bind> g) s = run_state (f \<bind> h) s"
  using assms by (auto simp: State_Monad.bind_def split: prod.splits)

lemma backoff_retry_cong:
  assumes "agree again again' op"
  shows "backoff E cx op \<bind> retry_or E cx again W = backoff E cx op \<bind> retry_or E cx again' W"
proof (rule state_ext, rule bind_cong_run)
  fix s s1 :: "'a sys" and r
  assume b: "run_state (backoff E cx op) s = (r, s1)"
  obtain d ok op2 where r: "r = (d, ok, op2)" by (metis surj_pair)
  show "run_state (retry_or E cx again W r) s1 = run_state (retry_or E cx again' W r) s1"
  proof (cases ok)
    case True
    with run_backoff [OF b [unfolded r]] assms
    have "map_option (\<lambda>k. k op2) again = map_option (\<lambda>k. k op2) again'" by (simp add: agree_def)
    then show ?thesis using True by (cases again; cases again') (simp_all add: retry_or_def r)
  qed (simp add: retry_or_def r)
qed

lemma same_bid_try_cong:
  assumes "agree again again' op"
  shows "same_bid_try E cx d b again op = same_bid_try E cx d b again' op"
proof -
  have "agree again again' (op\<lparr>op_windowRetries := Suc (op_windowRetries op)\<rparr>)"
    using assms by (simp add: agree_def)
  then have cls: "after_class E cx b att again op err c = after_class E cx b att again' op err c" for att err c
    using assms by (cases c) (simp_all only: after_class_def open_class.case backoff_retry_cong)
  define F where "F att = after_class E cx b att again op" for att
  have F: "after_class E cx b att again' op = F att" for att
    by (intro ext) (simp add: F_def cls)
  have opn: "after_open E cx b att el again op ans = after_open E cx b att el again' op ans" for att el ans
    unfolding after_open_def F by (simp only: F_def)
  define G where "G att el = after_open E cx b att el again op" for att el
  have G: "after_open E cx b att el again' op = G att el" for att el
    by (intro ext) (simp add: G_def opn)
  show ?thesis unfolding same_bid_try_def G by (simp only: G_def)
qed

lemma candidates_try_cong:
  assumes "agree again again' op"
  shows "candidates_try E cx x again op = candidates_try E cx x again' op"
proof -
  define F where "F = (backoff E cx op \<bind> retry_or E cx again Inl)"
  have "backoff E cx op \<bind> retry_or E cx again' Inl = F"
    unfolding F_def by (rule backoff_retry_cong [OF assms, symmetric])
  then show ?thesis unfolding candidates_try_def by (simp only: F_def)
qed

text \<open>
  The retry loops of an open end by themselves: the bound the model carries is the number of
  retries the operation has left, and any larger bound gives the same computation, so no run ends
  because the bound ran out. This holds for the opens of one bid and for the rated-bids reads.
\<close>

theorem retry_fuel_enough:
  assumes "retries_left op \<le> n"
  shows "same_bid E cx d b n op = same_bid E cx d b (retries_left op) op \<and>
    candidates_loop E cx x n op = candidates_loop E cx x (retries_left op) op"
proof -
  have left: "retries_left op2 = retries_left op - 1" if "op_retries op2 = Suc (op_retries op)" for op op2
    using that by (simp add: retries_left_def)
  have step: "same_bid E cx d b (Suc n) op = same_bid E cx d b n op \<and>
      candidates_loop E cx x (Suc n) op = candidates_loop E cx x n op"
    if "retries_left op \<le> n" for n op
    using that
  proof (induction n arbitrary: op)
    case 0
    then have a1: "agree (Some (same_bid E cx d b 0)) None op"
      and a2: "agree (Some (candidates_loop E cx x 0)) None op"
      by (simp_all add: agree_def retries_left_def)
    show ?case using same_bid_try_cong [OF a1] candidates_try_cong [OF a2] by simp
  next
    case (Suc n)
    have "same_bid E cx d b (Suc n) op2 = same_bid E cx d b n op2 \<and>
        candidates_loop E cx x (Suc n) op2 = candidates_loop E cx x n op2"
      if "op_retries op2 = Suc (op_retries op)" for op2
      using Suc.prems left [OF that] by (intro Suc.IH) simp
    then have a1: "agree (Some (same_bid E cx d b (Suc n))) (Some (same_bid E cx d b n)) op"
      and a2: "agree (Some (candidates_loop E cx x (Suc n))) (Some (candidates_loop E cx x n)) op"
      by (simp_all add: agree_def)
    have e1: "same_bid E cx d b (Suc (Suc n)) op = same_bid_try E cx d b (Some (same_bid E cx d b (Suc n))) op"
      "same_bid E cx d b (Suc n) op = same_bid_try E cx d b (Some (same_bid E cx d b n)) op"
      "candidates_loop E cx x (Suc (Suc n)) op = candidates_try E cx x (Some (candidates_loop E cx x (Suc n))) op"
      "candidates_loop E cx x (Suc n) op = candidates_try E cx x (Some (candidates_loop E cx x n)) op"
      by (simp_all only: same_bid.simps candidates_loop.simps)
    show ?case unfolding e1 using same_bid_try_cong [OF a1] candidates_try_cong [OF a2] by blast
  qed
  from assms show ?thesis
    by (induction n rule: dec_induct) (use step in auto)
qed

subsection \<open>Properties of a whole open\<close>

lemma run_openExcluding:
  assumes "run_state (openExcluding E cx d alts op) s = ((op', r), s')"
  shows "sy_calls s' = sy_calls s \<and> op' = op \<or>
    (\<exists>cap posts. sy_calls s' = sy_calls s @ posts \<and> walk_posts op cap d alts walk_start op' posts)"
proof -
  from assms obtain limit invalid s1 where q1: "sy_calls s1 = sy_calls s"
    and run: "run_state (if invalid then ret (op, Inl StakeLimitInvalid)
        else (case limit of
                None \<Rightarrow> open_walk E cx d None alts walk_start op
              | Some lim \<Rightarrow> do {
                  r \<leftarrow> stakeInputsForOpen E cx op;
                  (case r of
                     Inl e \<Rightarrow> ret (op, Inl e)
                   | Inr inp \<Rightarrow> open_walk E cx d (Some (lim, inp)) alts walk_start op) })) s1 = ((op', r), s')"
    unfolding openExcluding_def
    by (elim run_bindE) (auto dest!: quietD [OF quiet_sections(3)] split: prod.splits)
  show ?thesis
  proof (cases invalid)
    case True
    with run q1 show ?thesis by auto
  next
    case valid: False
    show ?thesis
    proof (cases limit)
      case None
      with run valid have "run_state (open_walk E cx d None alts walk_start op) s1 = ((op', r), s')" by simp
      from open_walk_posts [OF this] q1 show ?thesis by auto
    next
      case (Some lim)
      with run valid obtain x s2 where q2: "sy_calls s2 = sy_calls s1"
        and run2: "run_state (case x of Inl e \<Rightarrow> ret (op, Inl e)
          | Inr inp \<Rightarrow> open_walk E cx d (Some (lim, inp)) alts walk_start op) s2 = ((op', r), s')"
        by (auto elim!: run_bindE dest!: quietD [OF quiet_stakeInputsForOpen])
      show ?thesis
      proof (cases x)
        case (Inl e)
        with run2 q1 q2 show ?thesis by auto
      next
        case (Inr inp)
        with run2 have "run_state (open_walk E cx d (Some (lim, inp)) alts walk_start op) s2 = ((op', r), s')"
          by simp
        from open_walk_posts [OF this] q1 q2 show ?thesis by auto
      qed
    qed
  qed
qed



text \<open>A router that answers the opens from a list, with a still clock and nobody else running.\<close>

definition script_env :: "(rerr + string) list env" where
  "script_env = \<lparr>en_now = (\<lambda>w. 0), en_others = Pair, en_ctx = (\<lambda>w. None), en_sleep = (\<lambda>d w. (False, w)),
     en_rand = (\<lambda>w n. 0), en_wait = (\<lambda>n p w. (Some SlotBusy, p, w)),
     en_gate = (\<lambda>p w. (None, p, w)), en_text = (\<lambda>e. ''err''),
     en_open = (\<lambda>b d r l w. (case w of [] \<Rightarrow> (Inl UrlErr, []) | a # w' \<Rightarrow> (a, w'))),
     en_list = (\<lambda>a l w. (Inr [], w)), en_wallet = (\<lambda>l w. (Inr ''0xw'', w)),
     en_get = (\<lambda>i l w. (Inl UrlErr, w)), en_close = (\<lambda>i l w. (None, w)),
     en_rated = (\<lambda>m l w. (([], None), w)), en_supply = (\<lambda>l w. (Inr (Some 1000), w)),
     en_budget = (\<lambda>l w. (Inr (Some 10), w)), en_healthy = (\<lambda>m w. (None, w))\<rparr>"

definition script_sys :: "pool \<Rightarrow> (rerr + string) list \<Rightarrow> (rerr + string) list sys" where
  "script_sys p w = \<lparr>sy_pool = p, sy_world = w, sy_calls = [], sy_mine = [7], sy_bare = 0\<rparr>"

definition script_op :: open_op where
  "script_op = newOpenOp 0 \<lparr>tok_id = 7, tok_key = [], tok_acquired = 0, tok_deadline = slotHoldCap\<rparr> ''m''"

definition script_bid :: "string \<Rightarrow> string \<Rightarrow> int \<Rightarrow> rated_bid" where
  "script_bid i p price = \<lparr>rb_ID = i, rb_Provider = p, rb_PricePerSecond = Some price\<rparr>"

definition script_alts :: "rated_bid list" where
  "script_alts = [script_bid ''b1'' ''p1'' 9, script_bid ''b2'' ''p2'' 1, script_bid ''b3'' ''p2'' 1, script_bid ''b4'' ''p4'' 1]"

definition script_answers :: "(rerr + string) list" where
  "script_answers = [Inl (StatusErr 500 ''provider request failed''), Inr ''0xs'']"

text \<open>
  Its runs evaluate left to right: a bind is entered only when its first part has given a value,
  so the branches not taken are never unfolded.
\<close>

lemma bind_weak_cong: "f = f' \<Longrightarrow> State_Monad.bind f g = State_Monad.bind f' g"
  by simp

lemma script_on_pool:
  "run_state (on_pool script_env f) s = (case f 0 (sy_pool s) of (a, p) \<Rightarrow> (a, s\<lparr>sy_pool := p\<rparr>))"
  by (simp add: on_pool_def others_def State_Monad.bind_def script_env_def split: prod.splits)

lemma script_ask:
  "run_state (ask script_env f) s = (case f (sy_world s) of (a, w) \<Rightarrow> (a, s\<lparr>sy_world := w\<rparr>))"
  by (simp add: ask_def in_world_def others_def State_Monad.bind_def script_env_def split: prod.splits)

lemma script_env_sel:
  "en_now script_env w = 0" "en_ctx script_env w = None" "en_supply script_env l w = (Inr (Some 1000), w)"
  "en_budget script_env l w = (Inr (Some 10), w)"
  "en_open script_env b d r l (a # w') = (a, w')"
  by (simp_all add: script_env_def)

lemmas script_eval = State_Monad.run_state_bind script_on_pool script_ask script_env_sel
  with_mu_def with_fmu_def with_atoms_def clock_def check_ctx_def slot_left_def call_time_def
  post_open_def log_call_def

lemma script_op_sel:
  "tok_deadline (op_tok script_op) = slotHoldCap" "op_retries script_op = 0" "op_windowRetries script_op = 0"
  "op_reject script_op = False" "op_model script_op = ''m''" "retries_left script_op = transientMaxRetries"
  by (simp_all add: script_op_def newOpenOp_def retries_left_def)

lemmas script_defs = script_op_sel script_alts_def remaining_def
  openMinPostTime_def reconcileReserve_def slotHoldCap_def go_time MaxBidAttempts_def

lemma script_fault: "classifyOpenErr (Some (StatusErr 500 ''provider request failed'')) 0 False = ProviderFault"
  by code_simp

text \<open>On a script whose next answer is a provider fault or a session, a bid is over after one call.\<close>

lemma script_try:
  "run_state (same_bid script_env True d b n script_op) s =
   run_state (same_bid_try script_env True d b (case n of 0 \<Rightarrow> None | Suc k \<Rightarrow> Some (same_bid script_env True d b k)) script_op) s"
  by (cases n) simp_all

lemma script_bid_fault:
  assumes "sy_mine s \<noteq> []" and "sy_world s = Inl (StatusErr 500 ''provider request failed'') # w" and "\<not> paProvidedRPC (plAtoms (sy_pool s))"
  shows "\<exists>m f. run_state (same_bid script_env True d b n script_op) s =
    ((script_op, BidFault (StatusErr 500 ''provider request failed'')),
     s\<lparr>sy_pool := (sy_pool s)\<lparr>plMu := m, plFmu := f\<rparr>, sy_world := w,
      sy_calls := sy_calls s @ [OpenCall (rb_ID b) d False (Inl (StatusErr 500 ''provider request failed''))]\<rparr>)"
  using assms
  unfolding script_try
  by (cases s, cases "sy_pool s") (simp add: same_bid_try_def script_eval after_open_def script_fault after_class_def addAttempt_def
    Let_def script_defs cong: bind_weak_cong)

lemma script_bid_opened:
  assumes "sy_mine s \<noteq> []" and "sy_world s = Inr i # w"
  shows "\<exists>m g. run_state (same_bid script_env True d b n script_op) s =
    ((script_op, BidDone (Inr g)),
     s\<lparr>sy_pool := (sy_pool s)\<lparr>plMu := m\<rparr>, sy_world := w,
      sy_calls := sy_calls s @ [OpenCall (rb_ID b) d False (Inr i)]\<rparr>)"
  using assms
  unfolding script_try
  by (cases s, cases "sy_pool s") (simp add: same_bid_try_def script_eval after_open_def addAttempt_def
    Let_def script_defs cong: bind_weak_cong)


lemma retry_fuel_enough_witness:
  "retries_left script_op = 4 \<and>
   same_bid script_env True 60 (hd script_alts) 9 script_op = same_bid script_env True 60 (hd script_alts) 4 script_op"
proof -
  have r: "retries_left script_op = 4"
    by (simp add: retries_left_def script_op_def newOpenOp_def transientMaxRetries_def)
  then show ?thesis using retry_fuel_enough [of script_op 9 script_env True 60 "hd script_alts" "[]"] by simp
qed


definition capped_pool :: "int \<Rightarrow> bool \<Rightarrow> pool" where
  "capped_pool cap invalid = (new_pool 3600 0)\<lparr>plAtoms := SetStakeLimit (Some cap) invalid (plAtoms (new_pool 3600 0))\<rparr>"


end
