(* ===== verification/Closes.thy ===== *)
theory Closes
  imports Open_Safety
begin

section \<open>Closing sessions (\<open>internal/pool/sweep.go\<close>, \<open>pool.go\<close>, \<open>lease.go\<close>)\<close>

text \<open>
  One close under the wallet slot (\<open>closeWithToken\<close>), the wallet scan as a handler, the two halves of
  a sweep tick (\<open>sweepRetired\<close>, \<open>ScanOrphans\<close>), and the closes an administrator or the shutdown
  asks for. The loops that the code does not bound carry fuel: \<open>None\<close> is a run that has not ended.
\<close>

subsection \<open>One close\<close>

definition sweepRetryEvery :: dur where "sweepRetryEvery = 2 * second"

datatype close_outcome = CloseOK | CloseAlready | CloseFailed | CloseCut

type_synonym close_err = "slot_err + rerr"

definition short :: "string \<Rightarrow> string" where
  "short i = (if length i > 10 then take 10 i else i)"

definition due_text :: "due_reason \<Rightarrow> string" where
  "due_text r = (case r of DueExpired \<Rightarrow> ''expired'' | DueDuplicate \<Rightarrow> ''duplicate''
                         | DueRetired \<Rightarrow> ''retired'' | DueExcluded \<Rightarrow> ''provider_excluded'')"

definition with_log :: "'w env \<Rightarrow> (pool_log \<Rightarrow> pool_log) \<Rightarrow> ('w, unit) act" where
  "with_log E f = on_pool E (\<lambda>t p. ((), p\<lparr>plLog := f (plLog p)\<rparr>))"

text \<open>The session-closed hook is not called for an empty id.\<close>

definition notifyClosed :: "'w env \<Rightarrow> string \<Rightarrow> ('w, unit) act" where
  "notifyClosed E i = do {
     _ \<leftarrow> mu_do E (\<lambda>t. forget i);
     if i = [] then ret () else with_log E (\<lambda>l. l\<lparr>lgClosed := lgClosed l @ [i]\<rparr>) }"

definition emitRescan :: "'w env \<Rightarrow> string \<Rightarrow> string \<Rightarrow> string \<Rightarrow> string \<Rightarrow> ('w, unit) act" where
  "emitRescan E source reason i result =
     (if source = [] then ret ()
      else with_log E (\<lambda>l. l\<lparr>lgEvents := lgEvents l @ [RescanEvent reason (short i) result]\<rparr>))"

definition mark_closing :: "string \<Rightarrow> time \<Rightarrow> mu_state \<Rightarrow> mu_state" where
  "mark_closing i until m = m\<lparr>mClosingIDs := mput (to_lower i) until (mClosingIDs m)\<rparr>"

definition unmark_closing :: "string \<Rightarrow> mu_state \<Rightarrow> mu_state" where
  "unmark_closing i m = m\<lparr>mClosingIDs := mdel (to_lower i) (mClosingIDs m)\<rparr>"

definition mark_cut :: "time \<Rightarrow> string \<Rightarrow> mu_state \<Rightarrow> mu_state" where
  "mark_cut now i m =
     (mark_closing i (now + routerCloseMaxLife) m)\<lparr>mClosedByUs := insert (to_lower i) (mClosedByUs m)\<rparr>"

definition clear_closed :: "string \<Rightarrow> mu_state \<Rightarrow> mu_state" where
  "clear_closed i m =
     m\<lparr>mClosingIDs := mdel (to_lower i) (mClosingIDs m), mCloseDueAt := mdel (to_lower i) (mCloseDueAt m),
       mKnownDup := mKnownDup m - {to_lower i}, mClosedByUs := insert (to_lower i) (mClosedByUs m)\<rparr>"

definition drop_chain :: "string \<Rightarrow> chain_view \<Rightarrow> chain_view" where
  "drop_chain i v = v\<lparr>cvOpen := filter (\<lambda>c. \<not> equal_fold (cs_SessionID c) i) (cvOpen v)\<rparr>"

text \<open>\<open>done\<close>: the session is known closed.\<close>

definition close_done :: "'w env \<Rightarrow> string \<Rightarrow> ('w, unit) act" where
  "close_done E i = do {
     _ \<leftarrow> mu_do E (\<lambda>t. clear_closed i);
     _ \<leftarrow> with_chain E (\<lambda>t v. ((), drop_chain i v));
     notifyClosed E i }"

text \<open>What \<open>GetSession\<close> says of a session whose close failed: closed already.\<close>

definition gone :: "rerr + rsession \<Rightarrow> bool" where
  "gone g = (case g of Inr s \<Rightarrow> rs_ClosedAt s \<noteq> 0
                     | Inl (StatusErr code body) \<Rightarrow> code = 404
                     | Inl _ \<Rightarrow> False)"

definition after_close ::
  "'w env \<Rightarrow> slot_token \<Rightarrow> string \<Rightarrow> string \<Rightarrow> string \<Rightarrow> rerr option \<Rightarrow> ('w, close_outcome \<times> close_err option) act" where
  "after_close E tok i reason source answer =
     (case answer of
        None \<Rightarrow> do {
          _ \<leftarrow> close_done E i;
          _ \<leftarrow> emitRescan E source reason i ''ok'';
          ret (CloseOK, None) }
      | Some e \<Rightarrow>
          if isTransportErr e then do {
            _ \<leftarrow> mu_do E (\<lambda>t. mark_cut t i);
            _ \<leftarrow> emitRescan E source reason i ''failed'';
            ret (CloseCut, Some (Inr e)) }
          else do {
            left \<leftarrow> slot_left E tok;
            closed \<leftarrow> (if left > 0 then do {
                          per \<leftarrow> call_time E tok readCallTimeout;
                          g \<leftarrow> ask E (en_get E i per);
                          ret (gone g) }
                       else ret False);
            if closed then do {
              _ \<leftarrow> close_done E i;
              _ \<leftarrow> emitRescan E source reason i ''already_closed'';
              ret (CloseAlready, None) }
            else do {
              _ \<leftarrow> mu_do E (\<lambda>t. unmark_closing i);
              _ \<leftarrow> emitRescan E source reason i ''failed'';
              ret (CloseFailed, Some (Inr e)) } })"

text \<open>The panic of a close without the slot is for tests; a release build refuses.\<close>

definition closeWithToken ::
  "'w env \<Rightarrow> slot_token \<Rightarrow> string \<Rightarrow> string \<Rightarrow> string \<Rightarrow> dur \<Rightarrow> ('w, close_outcome \<times> close_err option) act" where
  "closeWithToken E tok i reason source per = do {
     holds \<leftarrow> with_slot E (\<lambda>t s. (slot_holds s (Some tok), s));
     if \<not> holds then ret (CloseFailed, Some (Inl SlotBusy))
     else do {
       _ \<leftarrow> mu_do E (\<lambda>t. mark_closing i zero_time);
       left \<leftarrow> call_time E tok (if per \<le> 0 then closeCallTimeout else per);
       answer \<leftarrow> post_close E i left;
       after_close E tok i reason source answer } }"

definition landed :: "close_outcome \<Rightarrow> bool" where
  "landed out \<longleftrightarrow> out = CloseOK \<or> out = CloseAlready"

subsection \<open>The scan as a handler\<close>

definition chain_seen :: "time \<Rightarrow> chain_session list \<Rightarrow> chain_view \<Rightarrow> chain_view" where
  "chain_seen now rows v = v\<lparr>cvOpen := rows, cvFetched := now\<rparr>"

primrec each :: "('a \<Rightarrow> ('w, unit) act) \<Rightarrow> 'a list \<Rightarrow> ('w, unit) act" where
  "each f [] = ret ()"
| "each f (x # xs) = do { _ \<leftarrow> f x; each f xs }"

definition scan ::
  "'w env \<Rightarrow> slot_token option \<Rightarrow> scan_mode \<Rightarrow> ('w, rerr + scan_out) act" where
  "scan E tok mode = do {
     scanStart \<leftarrow> clock E;
     r \<leftarrow> readOpen E (case tok of Some t \<Rightarrow> call_time E t readCallTimeout | None \<Rightarrow> ret adminTimeout);
     (case r of
        Inl e \<Rightarrow> do {
          _ \<leftarrow> with_chain E (\<lambda>t v. ((), v\<lparr>cvErr := en_text E e\<rparr>));
          ret (Inl e) }
      | Inr (open_s, addr) \<Rightarrow> do {
          excluded \<leftarrow> fmu_get E (\<lambda>t f. excludedProviders f);
          retired \<leftarrow> fmu_get E (\<lambda>t f. retiredSet f);
          got \<leftarrow> with_mu E (\<lambda>t m. case applyScan t scanStart mode excluded retired open_s m of
                                    ((out, rows), m') \<Rightarrow> ((out, rows, t), m'));
          (case got of (out, rows, now) \<Rightarrow> do {
             _ \<leftarrow> with_chain E (\<lambda>t v. ((), chain_seen now rows v));
             _ \<leftarrow> each (notifyClosed E) (so_closedLate out);
             _ \<leftarrow> with_chain E (\<lambda>t v. ((), v\<lparr>cvErr := []\<rparr>));
             _ \<leftarrow> with_atoms E (\<lambda>t a. ((), a\<lparr>paStateKnown := True\<rparr>));
             ret (Inr out) }) }) }"

text \<open>\<open>rehydrate\<close>: the status poll and the forced rescans. Its age check reads the real clock.\<close>

definition rehydrate :: "'w env \<Rightarrow> bool \<Rightarrow> ('w, rerr option) act" where
  "rehydrate E force = do {
     closed \<leftarrow> gateClosed E;
     if closed \<and> \<not> force then ret None
     else do {
       _ \<leftarrow> (if closed then wait_gate E False else ret None);
       fresh \<leftarrow> (if force then ret False
                 else with_chain E (\<lambda>t v. (t - cvFetched v < 20 * second \<and> cvErr v = [], v)));
       if fresh then ret None
       else do {
         r \<leftarrow> scan E None ScanAdoptOnly;
         ret (case r of Inl e \<Rightarrow> Some e | Inr out \<Rightarrow> None) } } }"

subsection \<open>Closing retired and idle sessions\<close>

text \<open>
  \<open>sweepRetired\<close>: one iteration holds the slot for one close. \<open>sweep_queue\<close> is the busy try: give
  up, or queue for one hold.
\<close>

datatype hold = NoHold | Hold slot_token bool       \<comment> \<open>the token, and whether it was queued for\<close>

definition sweep_hold :: "'w env \<Rightarrow> bool \<Rightarrow> ('w, hold) act" where
  "sweep_hold E cx = do {
     try \<leftarrow> slot_try_act E [];
     (case try of
        Some tok \<Rightarrow> ret (Hold tok False)
      | None \<Rightarrow> do {
          busy \<leftarrow> with_mu E (\<lambda>t m. let m1 = m\<lparr>mRetiredSkips := Suc (mRetiredSkips m)\<rparr>
                                  in ((mRetiredSkips m1, localDueLocked t m1), m1));
          (case busy of (skips, due, oldest) \<Rightarrow>
             if skips < sweepMaxSkips \<and> oldest < orphanAlertAge then do {
               _ \<leftarrow> with_atoms E (\<lambda>t a. ((), a\<lparr>paRetiredBusy := True\<rparr>));
               ret NoHold }
             else do {
               r \<leftarrow> slot_acquire_act E cx [];
               (case r of
                  Inl e \<Rightarrow> ret NoHold
                | Inr tok \<Rightarrow> ret (Hold tok True)) }) }) }"

definition sweep_close ::
  "'w env \<Rightarrow> slot_token \<Rightarrow> string \<Rightarrow> time \<Rightarrow> ('w, close_outcome) act" where
  "sweep_close E tok i endsAt = do {
     a \<leftarrow> with_atoms E (\<lambda>t a. (paDuration a, a));
     _ \<leftarrow> fmu_do E (\<lambda>t f. retire t a i endsAt f);
     r \<leftarrow> closeWithToken E tok i [] [] closeCallTimeout;
     ret (fst r) }"

definition sweep_confirm :: "time \<Rightarrow> dur \<Rightarrow> bool \<Rightarrow> string \<Rightarrow> mu_state \<Rightarrow> time option \<times> mu_state" where
  "sweep_confirm now grace idle i m =
     (case sweep_pick now grace idle (m\<lparr>mRetiredSkips := 0\<rparr>) of
        (again, m1) \<Rightarrow>
          if again \<noteq> Some i then (None, m1)
          else (case sweep_start_close i m1 of (e, m2) \<Rightarrow> (Some e, m2)))"

fun sweepRetired ::
  "'w env \<Rightarrow> bool \<Rightarrow> dur \<Rightarrow> bool \<Rightarrow> nat \<Rightarrow> nat \<Rightarrow> ('w, nat option) act" where
  "sweepRetired E cx grace idle 0 n = ret None"
| "sweepRetired E cx grace idle (Suc fuel) n = do {
     c \<leftarrow> check_ctx E cx;
     closed \<leftarrow> gateClosed E;
     if c \<noteq> None \<or> closed then ret (Some n)
     else do {
       got \<leftarrow> with_mu E (\<lambda>t m. sweep_pick t grace idle m);
       (case got of
          None \<Rightarrow> ret (Some n)
        | Some i \<Rightarrow> do {
            h \<leftarrow> sweep_hold E cx;
            (case h of
               NoHold \<Rightarrow> ret (Some n)
             | Hold tok forced \<Rightarrow> do {
                 sure \<leftarrow> with_mu E (\<lambda>t m. sweep_confirm t grace idle i m);
                 (case sure of
                    None \<Rightarrow> do {
                      _ \<leftarrow> slot_release_act E tok;
                      sweepRetired E cx grace idle fuel n }
                  | Some endsAt \<Rightarrow> do {
                      out \<leftarrow> sweep_close E tok i endsAt;
                      _ \<leftarrow> slot_release_act E tok;
                      if landed out then
                        (if forced then ret (Some (Suc n))
                         else sweepRetired E cx grace idle fuel (Suc n))
                      else do {
                        _ \<leftarrow> mu_do E (\<lambda>t m. sweep_close_failed t i m);
                        ret (Some n) } }) }) }) } }"

subsection \<open>Closing what the wallet scan finds\<close>

text \<open>One hold of \<open>ScanOrphans\<close>: scan, close at most one session, release; whether to go on.\<close>

definition orphan_hold :: "'w env \<Rightarrow> bool \<Rightarrow> bool \<Rightarrow> slot_token \<Rightarrow> ('w, bool) act" where
  "orphan_hold E cx forced tok = do {
     r \<leftarrow> scan E (Some tok) ScanSweep;
     (case r of
        Inl e \<Rightarrow> do { _ \<leftarrow> slot_release_act E tok; ret False }
      | Inr out \<Rightarrow> do {
          _ \<leftarrow> (case so_close out of
                  None \<Rightarrow> ret ()
                | Some (i, reason) \<Rightarrow> do {
                    _ \<leftarrow> closeWithToken E tok i (due_text reason) ''rescan'' closeCallTimeout;
                    ret () });
          _ \<leftarrow> slot_release_act E tok;
          c \<leftarrow> check_ctx E cx;
          ret (\<not> (so_close out = None \<or> so_due out \<le> 1 \<or> forced \<or> c \<noteq> None)) }) }"

fun orphan_holds :: "'w env \<Rightarrow> bool \<Rightarrow> bool \<Rightarrow> nat \<Rightarrow> slot_token \<Rightarrow> ('w, unit option) act" where
  "orphan_holds E cx forced 0 tok = do {
     go \<leftarrow> orphan_hold E cx forced tok;
     ret (if go then None else Some ()) }"
| "orphan_holds E cx forced (Suc fuel) tok = do {
     go \<leftarrow> orphan_hold E cx forced tok;
     if \<not> go then ret (Some ())
     else do {
       try \<leftarrow> slot_try_act E [];
       (case try of
          None \<Rightarrow> ret (Some ())
        | Some tok' \<Rightarrow> orphan_holds E cx forced fuel tok') } }"

definition orphan_queue :: "'w env \<Rightarrow> bool \<Rightarrow> ('w, hold) act" where
  "orphan_queue E cx = do {
     try \<leftarrow> slot_try_act E [];
     (case try of
        Some tok \<Rightarrow> ret (Hold tok False)
      | None \<Rightarrow> do {
          busy \<leftarrow> with_mu E (\<lambda>t m. let m1 = m\<lparr>mSweepSkips := Suc (mSweepSkips m)\<rparr>
                                  in ((mSweepSkips m1, localDueLocked t m1), m1));
          (case busy of (skips, due, oldest) \<Rightarrow>
             if skips < sweepMaxSkips \<and> (due = 0 \<or> oldest < orphanAlertAge) then ret NoHold
             else do {
               r \<leftarrow> slot_acquire_act E cx [];
               (case r of
                  Inl e \<Rightarrow> ret NoHold
                | Inr tok \<Rightarrow> ret (Hold tok True)) }) }) }"

definition ScanOrphans :: "'w env \<Rightarrow> bool \<Rightarrow> nat \<Rightarrow> ('w, unit option) act" where
  "ScanOrphans E cx fuel = do {
     closed \<leftarrow> gateClosed E;
     if closed then ret (Some ())
     else do {
       h \<leftarrow> orphan_queue E cx;
       (case h of
          NoHold \<Rightarrow> ret (Some ())
        | Hold tok forced \<Rightarrow> do {
            _ \<leftarrow> mu_do E (\<lambda>t m. m\<lparr>mSweepSkips := 0\<rparr>);
            orphan_holds E cx forced fuel tok }) } }"

text \<open>One round of \<open>RunSweep\<close>, and how soon the next may start (\<open>again\<close>).\<close>

definition RunSweep_round :: "'w env \<Rightarrow> bool \<Rightarrow> nat \<Rightarrow> ('w, dur option) act" where
  "RunSweep_round E cx fuel = do {
     _ \<leftarrow> with_atoms E (\<lambda>t a. ((), a\<lparr>paRetiredBusy := False\<rparr>));
     _ \<leftarrow> sweepRetired E cx 0 False fuel 0;
     _ \<leftarrow> ScanOrphans E cx fuel;
     busy \<leftarrow> atoms_get E (\<lambda>t a. paRetiredBusy a);
     ret (if busy then Some sweepRetryEvery else None) }"

subsection \<open>Closes an administrator or the shutdown asks for\<close>

definition unpool :: "string \<Rightarrow> mu_state \<Rightarrow> mu_state" where
  "unpool i m =
     (case List.find (\<lambda>(k, e). e_sessionID e = i) (mitems (mEntries m)) of
        None \<Rightarrow> m
      | Some (k, e) \<Rightarrow> m\<lparr>mEntries := mdel k (mEntries m)\<rparr>)"

datatype admin_err = EmptySessionID | SlotRefused slot_err | CloseErr close_err | ScanErr rerr

definition CloseSession :: "'w env \<Rightarrow> string \<Rightarrow> ('w, admin_err option) act" where
  "CloseSession E i =
     (if i = [] then ret (Some EmptySessionID)
      else do {
        _ \<leftarrow> mu_do E (\<lambda>t. unpool i);
        r \<leftarrow> slot_acquire_act E False [];
        (case r of
           Inl e \<Rightarrow> ret (Some (SlotRefused e))
         | Inr tok \<Rightarrow> do {
             out \<leftarrow> closeWithToken E tok i [] [] closeCallTimeout;
             _ \<leftarrow> slot_release_act E tok;
             rerr \<leftarrow> rehydrate E True;
             ret (case snd out of Some e \<Rightarrow> Some (CloseErr e) | None \<Rightarrow> map_option ScanErr rerr) }) })"

record close_all =
  ca_Attempted :: nat
  ca_Closed :: nat
  ca_Failed :: nat
  ca_Left :: nat
  ca_Errors :: "string list"

definition no_closes :: close_all where
  "no_closes = \<lparr>ca_Attempted = 0, ca_Closed = 0, ca_Failed = 0, ca_Left = 0, ca_Errors = []\<rparr>"

definition add_failed :: "string \<Rightarrow> close_all \<Rightarrow> close_all" where
  "add_failed label c = c\<lparr>ca_Failed := Suc (ca_Failed c),
     ca_Errors := (if length (ca_Errors c) < 5 then ca_Errors c @ [label @ '': close failed''] else ca_Errors c)\<rparr>"

definition close_target :: "'w env \<Rightarrow> string \<times> string \<Rightarrow> close_all \<Rightarrow> ('w, close_all) act" where
  "close_target E tgt c = do {
     r \<leftarrow> slot_acquire_act E False [];
     (case r of
        Inl e \<Rightarrow> ret (add_failed (snd tgt) (c\<lparr>ca_Attempted := Suc (ca_Attempted c)\<rparr>))
      | Inr tok \<Rightarrow> do {
          out \<leftarrow> closeWithToken E tok (fst tgt) [] [] closeCallTimeout;
          _ \<leftarrow> slot_release_act E tok;
          ret (if landed (fst out)
               then c\<lparr>ca_Attempted := Suc (ca_Attempted c), ca_Closed := Suc (ca_Closed c)\<rparr>
               else add_failed (snd tgt) (c\<lparr>ca_Attempted := Suc (ca_Attempted c)\<rparr>)) }) }"

primrec close_targets :: "'w env \<Rightarrow> (string \<times> string) list \<Rightarrow> close_all \<Rightarrow> ('w, close_all) act" where
  "close_targets E [] c = ret c"
| "close_targets E (t # ts) c = do { c' \<leftarrow> close_target E t c; close_targets E ts c' }"

definition take_targets :: "'w env \<Rightarrow> ('w, (string \<times> string) list) act" where
  "take_targets E = do {
     m \<leftarrow> with_mu E (\<lambda>t m. (m, m\<lparr>mEntries := []\<rparr>));
     v \<leftarrow> with_chain E (\<lambda>t v. (v, v));
     ret (fst (closeTargets m v)) }"

definition CloseAll :: "'w env \<Rightarrow> ('w, close_all) act" where
  "CloseAll E = do {
     ts \<leftarrow> take_targets E;
     c \<leftarrow> close_targets E ts no_closes;
     _ \<leftarrow> rehydrate E True;
     ret c }"

text \<open>
  Shutdown: the slot wait ends with the deadline (\<open>cx = True\<close>), each close gets at most
  \<open>perClose\<close>.
\<close>

definition close_within ::
  "'w env \<Rightarrow> dur \<Rightarrow> string \<times> string \<Rightarrow> close_all \<Rightarrow> ('w, close_all) act" where
  "close_within E wait tgt c = do {
     r \<leftarrow> slot_acquire_act E True [];
     (case r of
        Inl e \<Rightarrow> ret (c\<lparr>ca_Left := Suc (ca_Left c)\<rparr>)
      | Inr tok \<Rightarrow> do {
          out \<leftarrow> closeWithToken E tok (fst tgt) [] [] wait;
          _ \<leftarrow> slot_release_act E tok;
          (let c1 = c\<lparr>ca_Attempted := Suc (ca_Attempted c)\<rparr> in
           ret (case fst out of
                  CloseCut \<Rightarrow> c1\<lparr>ca_Left := Suc (ca_Left c1)\<rparr>
                | CloseFailed \<Rightarrow> add_failed (snd tgt) c1
                | _ \<Rightarrow> c1\<lparr>ca_Closed := Suc (ca_Closed c1)\<rparr>)) }) }"

primrec closes_within ::
  "'w env \<Rightarrow> time \<Rightarrow> dur \<Rightarrow> (string \<times> string) list \<Rightarrow> close_all \<Rightarrow> ('w, close_all) act" where
  "closes_within E deadline perClose [] c = ret c"
| "closes_within E deadline perClose (t # ts) c = do {
     now \<leftarrow> clock E;
     if deadline - now \<le> 0 then ret (c\<lparr>ca_Left := ca_Left c + length (t # ts)\<rparr>)
     else do {
       c' \<leftarrow> close_within E (if deadline - now < perClose then deadline - now else perClose) t c;
       closes_within E deadline perClose ts c' } }"

definition CloseAllWithin :: "'w env \<Rightarrow> time \<Rightarrow> dur \<Rightarrow> ('w, close_all) act" where
  "CloseAllWithin E deadline perClose = do {
     ts \<leftarrow> take_targets E;
     closes_within E deadline perClose ts no_closes }"

end
