(* ===== verification/Close_Props.thy ===== *)
theory Close_Props
  imports Closes
begin

section \<open>What a close leaves behind\<close>

text \<open>
  The effect of one close on the pool for every answer of the router, the end of a sweep pass, and
  a tick of \<open>ScanOrphans\<close> that does not end.
\<close>

subsection \<open>Runs without interference\<close>

definition still :: "'w env \<Rightarrow> bool" where
  "still E \<longleftrightarrow> (\<forall>p w. en_others E p w = (p, w))"

lemma still_on_pool:
  "still E \<Longrightarrow> run_state (on_pool E f) s =
     (case f (en_now E (sy_world s)) (sy_pool s) of (a, p) \<Rightarrow> (a, s\<lparr>sy_pool := p\<rparr>))"
  by (simp add: on_pool_def others_def still_def State_Monad.bind_def split: prod.splits)

lemma still_ask:
  "still E \<Longrightarrow> run_state (ask E f) s = (case f (sy_world s) of (a, w) \<Rightarrow> (a, s\<lparr>sy_world := w\<rparr>))"
  by (simp add: ask_def in_world_def others_def still_def State_Monad.bind_def split: prod.splits)

lemmas still_eval = State_Monad.run_state_bind still_on_pool still_ask with_mu_def with_fmu_def
  with_atoms_def with_chain_def with_slot_def with_log_def clock_def slot_left_def call_time_def
  check_ctx_def log_call_def post_close_def

subsection \<open>One close\<close>

lemma run_close_done:
  assumes "still E"
  shows "\<exists>l. run_state (close_done E i) s = ((), s\<lparr>sy_pool := (sy_pool s)\<lparr>
    plMu := forget i (clear_closed i (plMu (sy_pool s))), plChain := drop_chain i (plChain (sy_pool s)),
    plLog := l\<rparr>\<rparr>)"
  using assms by (cases "sy_pool s") (auto simp: close_done_def notifyClosed_def still_eval)

lemma run_emit:
  assumes "still E"
  shows "\<exists>l. run_state (emitRescan E src reason i res) s = ((), s\<lparr>sy_pool := (sy_pool s)\<lparr>plLog := l\<rparr>\<rparr>)"
  using assms by (cases s, cases "sy_pool s") (auto simp: emitRescan_def still_eval)

definition closed_away :: "string \<Rightarrow> pool \<Rightarrow> bool" where
  "closed_away i p \<longleftrightarrow> \<not> closingMarkedLocked i (plMu p) \<and> mget (mSess (plMu p)) i = None \<and>
     mget (mCloseDueAt (plMu p)) (to_lower i) = None \<and> to_lower i \<in> mClosedByUs (plMu p) \<and>
     (\<forall>c \<in> set (cvOpen (plChain p)). \<not> equal_fold (cs_SessionID c) i) \<and>
     (i = [] \<or> (\<forall>(k, e) \<in> set (mitems (mEntries (plMu p))). \<not> equal_fold (e_sessionID e) i))"

lemma closed_away_done:
  "closed_away i (p\<lparr>plMu := forget i (clear_closed i m), plChain := drop_chain i v, plLog := l\<rparr>)"
  by (auto simp: closed_away_def forget_def clear_closed_def drop_chain_def closingMarkedLocked_def Let_def
      mem_mitems split: option.splits if_splits)

text \<open>
  What a close changed: nothing but the closing mark (\<open>CloseFailed\<close>: no mark; \<open>CloseCut\<close>: a mark that
  outlives the router's own call).
\<close>

definition same_sessions :: "mu_state \<Rightarrow> mu_state \<Rightarrow> bool" where
  "same_sessions m m' \<longleftrightarrow> mSess m' = mSess m \<and> mEntries m' = mEntries m \<and> mCloseDueAt m' = mCloseDueAt m \<and>
     mKnownDup m' = mKnownDup m \<and> mOpened m' = mOpened m \<and> mPending m' = mPending m"

lemma run_landed:
  assumes still: "still E"
    and run: "run_state (close_done E i \<bind> (\<lambda>_. emitRescan E src reason i res \<bind> (\<lambda>_. ret (out', None)))) s = (r, s')"
  shows "sy_calls s' = sy_calls s \<and> closed_away i (sy_pool s') \<and> r = (out', None)"
proof -
  obtain l where l: "run_state (close_done E i) s = ((), s\<lparr>sy_pool := (sy_pool s)\<lparr>
    plMu := forget i (clear_closed i (plMu (sy_pool s))), plChain := drop_chain i (plChain (sy_pool s)),
    plLog := l\<rparr>\<rparr>)" using run_close_done [OF still] by blast
  let ?s1 = "s\<lparr>sy_pool := (sy_pool s)\<lparr>plMu := forget i (clear_closed i (plMu (sy_pool s))),
    plChain := drop_chain i (plChain (sy_pool s)), plLog := l\<rparr>\<rparr>"
  obtain l' where "run_state (emitRescan E src reason i res) ?s1 = ((), ?s1\<lparr>sy_pool := (sy_pool ?s1)\<lparr>plLog := l'\<rparr>\<rparr>)"
    using run_emit [OF still] by blast
  with run l show ?thesis by (auto simp: State_Monad.run_state_bind intro: closed_away_done)
qed

lemma run_marked:
  assumes still: "still E"
    and run: "run_state (mu_do E f \<bind> (\<lambda>_. emitRescan E src reason i res \<bind> (\<lambda>_. ret (out', e)))) s = (r, s')"
  shows "sy_calls s' = sy_calls s \<and> sy_world s' = sy_world s \<and> r = (out', e) \<and>
    plMu (sy_pool s') = f (en_now E (sy_world s)) (plMu (sy_pool s))"
proof -
  let ?s1 = "s\<lparr>sy_pool := (sy_pool s)\<lparr>plMu := f (en_now E (sy_world s)) (plMu (sy_pool s))\<rparr>\<rparr>"
  obtain l where "run_state (emitRescan E src reason i res) ?s1 = ((), ?s1\<lparr>sy_pool := (sy_pool ?s1)\<lparr>plLog := l\<rparr>\<rparr>)"
    using run_emit [OF still] by blast
  with run show ?thesis by (auto simp: still_eval still)
qed

text \<open>The two ends of a close that got a definite error.\<close>

lemma run_after_error:
  assumes still: "still E" and e: "\<not> isTransportErr e"
    and run: "run_state (after_close E tok i reason src (Some e)) s = (r, s')"
  shows "(\<exists>s1. sy_calls s1 = sy_calls s \<and> sy_pool s1 = sy_pool s \<and>
      run_state (close_done E i \<bind> (\<lambda>_. emitRescan E src reason i ''already_closed'' \<bind>
        (\<lambda>_. ret (CloseAlready, None)))) s1 = (r, s')) \<or>
    (\<exists>s1. sy_calls s1 = sy_calls s \<and> sy_pool s1 = sy_pool s \<and>
      run_state (mu_do E (\<lambda>t. unmark_closing i) \<bind> (\<lambda>_. emitRescan E src reason i ''failed'' \<bind>
        (\<lambda>_. ret (CloseFailed, Some (Inr e))))) s1 = (r, s'))"
proof -
  have w: "s\<lparr>sy_world := sy_world s\<rparr> = s" by simp
  obtain g w2 where g: "en_get E i (call_left tok readCallTimeout (en_now E (sy_world s))) (sy_world s) = (g, w2)"
    by (metis surj_pair)
  define s1 where "s1 = (if 0 < remaining tok (en_now E (sy_world s)) then s\<lparr>sy_world := w2\<rparr> else s)"
  have s1: "sy_calls s1 = sy_calls s" "sy_pool s1 = sy_pool s" by (simp_all add: s1_def)
  show ?thesis
  proof (cases "0 < remaining tok (en_now E (sy_world s)) \<and> gone g")
    case True
    with run e have "run_state (close_done E i \<bind> (\<lambda>_. emitRescan E src reason i ''already_closed'' \<bind>
        (\<lambda>_. ret (CloseAlready, None)))) s1 = (r, s')"
      by (simp add: after_close_def still_eval still w g s1_def)
    with s1 show ?thesis by blast
  next
    case False
    with run e have "run_state (mu_do E (\<lambda>t. unmark_closing i) \<bind> (\<lambda>_. emitRescan E src reason i ''failed'' \<bind>
        (\<lambda>_. ret (CloseFailed, Some (Inr e))))) s1 = (r, s')"
      by (cases "0 < remaining tok (en_now E (sy_world s))") (simp_all add: after_close_def still_eval still w g s1_def)
    with s1 show ?thesis by blast
  qed
qed

lemma run_closeWithToken:
  assumes still: "still E" and holds: "slot_holds (plSlot (sy_pool s)) (Some tok)"
    and run: "run_state (closeWithToken E tok i reason src per) s = (a, s')"
  shows "\<exists>r s1. run_state (after_close E tok i reason src r) s1 = (a, s') \<and>
    r = fst (en_close E i (call_left tok (if per \<le> 0 then closeCallTimeout else per)
      (en_now E (sy_world s))) (sy_world s)) \<and>
    sy_calls s1 = sy_calls s @ [CloseCall i r] \<and>
    sy_pool s1 = (sy_pool s)\<lparr>plMu := mark_closing i zero_time (plMu (sy_pool s))\<rparr>"
proof -
  obtain r w where r: "en_close E i (call_left tok (if per \<le> 0 then closeCallTimeout else per)
      (en_now E (sy_world s))) (sy_world s) = (r, w)" by (metis surj_pair)
  let ?s1 = "s\<lparr>sy_pool := (sy_pool s)\<lparr>plMu := mark_closing i zero_time (plMu (sy_pool s))\<rparr>, sy_world := w,
    sy_calls := sy_calls s @ [CloseCall i r], sy_bare := sy_bare s + (if sy_mine s = [] then 1 else 0)\<rparr>"
  have "run_state (after_close E tok i reason src r) ?s1 = (a, s')"
    using run holds r by (simp add: closeWithToken_def still_eval still)
  then show ?thesis using r by (intro exI [of _ r] exI [of _ ?s1]) simp
qed

text \<open>
  A close made while holding the wallet slot sends exactly one close call for the session, and
  its outcome says what is left. The call gets at most its own limit and what is left of the hold. Closed (now or already): the session is in no lease table, pool
  slot, due list or wallet view and has no mark. Cut (no answer): nothing changed but a mark that
  stays for the router's longest close life, so nothing leases or adopts the session meanwhile.
  Failed: the mark is gone, so a later sweep may try again.
\<close>

theorem close_outcome:
  assumes still: "still E" and holds: "slot_holds (plSlot (sy_pool s)) (Some tok)"
    and run: "run_state (closeWithToken E tok i reason src per) s = ((out, err), s')"
  shows "\<exists>r. r = fst (en_close E i (call_left tok (if per \<le> 0 then closeCallTimeout else per)
      (en_now E (sy_world s))) (sy_world s)) \<and>
    sy_calls s' = sy_calls s @ [CloseCall i r] \<and> (err = None \<longleftrightarrow> landed out) \<and>
    (case out of
       CloseOK \<Rightarrow> r = None \<and> closed_away i (sy_pool s')
     | CloseAlready \<Rightarrow> (\<exists>e. r = Some e \<and> \<not> isTransportErr e) \<and> closed_away i (sy_pool s')
     | CloseCut \<Rightarrow> (\<exists>e. r = Some e \<and> isTransportErr e) \<and> same_sessions (plMu (sy_pool s)) (plMu (sy_pool s')) \<and>
         mget (mClosingIDs (plMu (sy_pool s'))) (to_lower i) = Some (en_now E (sy_world s') + routerCloseMaxLife)
     | CloseFailed \<Rightarrow> (\<exists>e. r = Some e \<and> \<not> isTransportErr e) \<and> same_sessions (plMu (sy_pool s)) (plMu (sy_pool s')) \<and>
         \<not> closingMarkedLocked i (plMu (sy_pool s')))"
proof -
  obtain r s1 where after: "run_state (after_close E tok i reason src r) s1 = ((out, err), s')"
    and r: "r = fst (en_close E i (call_left tok (if per \<le> 0 then closeCallTimeout else per)
      (en_now E (sy_world s))) (sy_world s))"
    and s1: "sy_calls s1 = sy_calls s @ [CloseCall i r]"
      "sy_pool s1 = (sy_pool s)\<lparr>plMu := mark_closing i zero_time (plMu (sy_pool s))\<rparr>"
    using run_closeWithToken [OF still holds run] by blast
  have "sy_calls s' = sy_calls s @ [CloseCall i r] \<and> (err = None \<longleftrightarrow> landed out) \<and>
    (case out of
       CloseOK \<Rightarrow> r = None \<and> closed_away i (sy_pool s')
     | CloseAlready \<Rightarrow> (\<exists>e. r = Some e \<and> \<not> isTransportErr e) \<and> closed_away i (sy_pool s')
     | CloseCut \<Rightarrow> (\<exists>e. r = Some e \<and> isTransportErr e) \<and> same_sessions (plMu (sy_pool s)) (plMu (sy_pool s')) \<and>
         mget (mClosingIDs (plMu (sy_pool s'))) (to_lower i) = Some (en_now E (sy_world s') + routerCloseMaxLife)
     | CloseFailed \<Rightarrow> (\<exists>e. r = Some e \<and> \<not> isTransportErr e) \<and> same_sessions (plMu (sy_pool s)) (plMu (sy_pool s')) \<and>
         \<not> closingMarkedLocked i (plMu (sy_pool s')))" (is ?M)
  proof (cases r)
    case None
    with after have "run_state (close_done E i \<bind> (\<lambda>_. emitRescan E src reason i ''ok'' \<bind> (\<lambda>_. ret (CloseOK, None)))) s1
        = ((out, err), s')" by (simp add: after_close_def)
    from run_landed [OF still this] s1 None show ?M by (auto simp: landed_def)
  next
    case (Some e)
    show ?M
    proof (cases "isTransportErr e")
      case True
      with after Some have "run_state (mu_do E (\<lambda>t. mark_cut t i) \<bind> (\<lambda>_. emitRescan E src reason i ''failed'' \<bind>
          (\<lambda>_. ret (CloseCut, Some (Inr e))))) s1 = ((out, err), s')" by (simp add: after_close_def)
      from run_marked [OF still this] s1 Some True show ?M
        by (auto simp: landed_def same_sessions_def mark_cut_def mark_closing_def)
    next
      case False
      from run_after_error [OF still False after [unfolded Some]] show ?M
      proof (elim disjE exE conjE)
        fix s2 assume "sy_calls s2 = sy_calls s1" and "run_state (close_done E i \<bind> (\<lambda>_.
          emitRescan E src reason i ''already_closed'' \<bind> (\<lambda>_. ret (CloseAlready, None)))) s2 = ((out, err), s')"
        with run_landed [OF still this(2)] s1 Some False show ?M by (auto simp: landed_def)
      next
        fix s2 assume "sy_calls s2 = sy_calls s1" "sy_pool s2 = sy_pool s1" and
          "run_state (mu_do E (\<lambda>t. unmark_closing i) \<bind> (\<lambda>_. emitRescan E src reason i ''failed'' \<bind>
            (\<lambda>_. ret (CloseFailed, Some (Inr e))))) s2 = ((out, err), s')"
        with run_marked [OF still this(3)] s1 Some False show ?M
          by (auto simp: landed_def same_sessions_def unmark_closing_def mark_closing_def closingMarkedLocked_def)
      qed
    qed
  qed
  with r show ?thesis by blast
qed

text \<open>A pool whose wallet slot the first caller holds.\<close>

definition held_tok :: slot_token where
  "held_tok = (case tryAcquire new_slot [] 0 of (Some t, s) \<Rightarrow> t | (None, s) \<Rightarrow> undefined)"

definition held_pool :: pool where
  "held_pool = (new_pool 3600 0)\<lparr>plSlot := snd (tryAcquire new_slot [] 0)\<rparr>"

lemma close_outcome_witness:
  "\<exists>err s'. run_state (closeWithToken script_env held_tok ''0xA'' [] [] 0) (script_sys held_pool []) = ((CloseOK, err), s') \<and>
     sy_calls s' = [CloseCall ''0xA'' None] \<and> closed_away ''0xA'' (sy_pool s')"
proof -
  let ?s = "script_sys held_pool []"
  obtain out err s' where e: "run_state (closeWithToken script_env held_tok ''0xA'' [] [] 0) ?s = ((out, err), s')"
    by (metis surj_pair)
  have st: "still script_env" by (simp add: still_def script_env_def)
  have h: "slot_holds (plSlot (sy_pool ?s)) (Some held_tok)" unfolding script_sys_def by code_simp
  have "fst (en_close script_env i l w) = None" for i l w by (simp add: script_env_def)
  with close_outcome [OF st h e] have "sy_calls s' = [CloseCall ''0xA'' None]" "out = CloseOK"
    "closed_away ''0xA'' (sy_pool s')"
    by (auto simp: script_sys_def split: close_outcome.splits)
  with e show ?thesis by blast
qed

subsection \<open>A tick that does not end\<close>

text \<open>
  A router that lists the same two ended sessions and answers every close with a definite error,
  with a clock that stands still: the worst case of a router that cannot close.
\<close>

definition spin_row :: "string \<Rightarrow> rsession" where
  "spin_row i = \<lparr>rs_ID = i, rs_ModelAgentID = ''m'', rs_Provider = ''p'', rs_BidID = ''b'', rs_Stake = None,
     rs_OpenedAt = 1000, rs_EndsAt = 2000, rs_ClosedAt = 0\<rparr>"

definition spin_env :: "unit env" where
  "spin_env = \<lparr>en_now = (\<lambda>w. of_unix 9000), en_others = Pair, en_ctx = (\<lambda>w. None), en_sleep = (\<lambda>d w. (False, w)),
     en_rand = (\<lambda>w n. 0), en_wait = (\<lambda>n p w. (Some SlotBusy, p, w)),
     en_gate = (\<lambda>p w. (None, p, w)), en_text = (\<lambda>e. ''err''),
     en_open = (\<lambda>b d r l w. (Inl UrlErr, w)),
     en_list = (\<lambda>a l w. (Inr [spin_row ''0xa'', spin_row ''0xb''], w)), en_wallet = (\<lambda>l w. (Inr ''0xw'', w)),
     en_get = (\<lambda>i l w. (Inr (spin_row i), w)), en_close = (\<lambda>i l w. (Some (StatusErr 500 ''close reverted''), w)),
     en_rated = (\<lambda>m l w. (([], None), w)), en_supply = (\<lambda>l w. (Inr (Some 1000), w)),
     en_budget = (\<lambda>l w. (Inr (Some 10), w)), en_healthy = (\<lambda>m w. (None, w))\<rparr>"

definition spin_scan :: "mu_state \<Rightarrow> (scan_out \<times> chain_session list) \<times> mu_state" where
  "spin_scan m = applyScan (of_unix 9000) (of_unix 9000) ScanSweep {} {} [spin_row ''0xa'', spin_row ''0xb''] m"

text \<open>The pool state such a tick comes back to: one scan, one failed close.\<close>

definition spin_mu :: mu_state where
  "spin_mu = unmark_closing ''0xa'' (snd (spin_scan ((new_mu (of_unix 0))\<lparr>mWalletAddr := ''0xw''\<rparr>)))"

lemma spin_fix: "unmark_closing ''0xa'' (mark_closing ''0xa'' zero_time (snd (spin_scan spin_mu))) = spin_mu"
  by code_simp

lemma spin_out:
  "so_close (fst (fst (spin_scan spin_mu))) = Some (''0xa'', DueExpired)"
  "so_due (fst (fst (spin_scan spin_mu))) = 2" "so_closedLate (fst (fst (spin_scan spin_mu))) = []"
  by code_simp+

lemma spin_mu_wallet: "mWalletAddr spin_mu = ''0xw''"
  by code_simp

lemma spin_answers: "\<not> isTransportErr (StatusErr 500 ''close reverted'')" "\<not> gone (Inr (spin_row i))"
  by (code_simp, simp add: gone_def spin_row_def)

lemma spin_sel:
  "still spin_env" "en_now spin_env w = of_unix 9000" "en_ctx spin_env w = None"
  "en_list spin_env a l w = (Inr [spin_row ''0xa'', spin_row ''0xb''], w)"
  "en_get spin_env i l w = (Inr (spin_row i), w)"
  "en_close spin_env i l w = (Some (StatusErr 500 ''close reverted''), w)"
  by (simp_all add: spin_env_def still_def)

definition spin_ready :: "unit sys \<Rightarrow> bool" where
  "spin_ready s \<longleftrightarrow> plMu (sy_pool s) = spin_mu \<and> fmExclude (plFmu (sy_pool s)) = {} \<and>
     fmRetired (plFmu (sy_pool s)) = []"

definition spin_close :: call where
  "spin_close = CloseCall ''0xa'' (Some (StatusErr 500 ''close reverted''))"

lemma spin_scan_run:
  assumes "spin_ready s" and "spin_scan spin_mu = ((out, rows), m)"
  shows "\<exists>v a. run_state (scan spin_env (Some tok) ScanSweep) s =
    (Inr out, s\<lparr>sy_pool := (sy_pool s)\<lparr>plMu := m, plChain := v, plAtoms := a\<rparr>\<rparr>)"
proof -
  obtain mu f v sl a l where p: "sy_pool s = \<lparr>plMu = mu, plFmu = f, plChain = v, plSlot = sl, plAtoms = a, plLog = l\<rparr>"
    by (cases "sy_pool s")
  with assms have m: "mu = spin_mu" "fmExclude f = {}" "fmRetired f = []" by (simp_all add: spin_ready_def)
  have c: "so_closedLate out = []" using spin_out assms(2) by simp
  have sp: "applyScan (of_unix 9000) (of_unix 9000) ScanSweep {} {} [spin_row ''0xa'', spin_row ''0xb''] spin_mu =
    ((out, rows), m)" using assms(2) by (simp add: spin_scan_def)
  have r: "excludedProviders f = {}" "retiredSet f = {}"
    by (simp_all add: excludedProviders_def retiredSet_def m mkeys_def mitems_def)
  show ?thesis
    using p by (cases s) (simp add: scan_def readOpen_def still_eval spin_sel m(1) spin_mu_wallet r sp c
      cong: bind_weak_cong)
qed

lemma spin_hold_run:
  assumes ready: "spin_ready s" and holds: "slot_holds (plSlot (sy_pool s)) (Some tok)"
    and time: "of_unix 9000 < tok_deadline tok"
  shows "\<exists>s'. run_state (orphan_hold spin_env False False tok) s = (True, s') \<and> spin_ready s' \<and>
    plSlot (sy_pool s') = slot_release (plSlot (sy_pool s)) (Some tok) (of_unix 9000) \<and>
    sy_calls s' = sy_calls s @ [spin_close]"
proof -
  obtain out rows m where sp: "spin_scan spin_mu = ((out, rows), m)" by (metis surj_pair)
  then have out: "so_close out = Some (''0xa'', DueExpired)" "so_due out = 2" using spin_out by simp_all
  have refix: "unmark_closing ''0xa'' (mark_closing ''0xa'' zero_time m) = spin_mu" using spin_fix sp by simp
  obtain v a where sc: "run_state (scan spin_env (Some tok) ScanSweep) s =
      (Inr out, s\<lparr>sy_pool := (sy_pool s)\<lparr>plMu := m, plChain := v, plAtoms := a\<rparr>\<rparr>)"
    using spin_scan_run [OF ready sp] by blast
  have rem: "0 < remaining tok (of_unix 9000)" using time by (simp add: remaining_def)
  show ?thesis
    using ready holds
    by (simp add: orphan_hold_def sc out closeWithToken_def after_close_def emitRescan_def slot_release_act_def still_eval
      spin_sel spin_answers refix rem spin_ready_def spin_close_def cong: bind_weak_cong)
qed

text \<open>A free slot whose next token is fresh.\<close>

definition spin_free :: "wallet_slot \<Rightarrow> bool" where
  "spin_free sl \<longleftrightarrow> slHolder sl = None \<and> slWaiters sl = [] \<and> (\<forall>i \<in> slReleased sl. i \<le> slNextID sl)"

lemma spin_try_run:
  assumes "spin_ready s" and "spin_free (plSlot (sy_pool s))"
  shows "\<exists>tok s'. run_state (slot_try_act spin_env []) s = (Some tok, s') \<and> spin_ready s' \<and>
    sy_calls s' = sy_calls s \<and> slot_holds (plSlot (sy_pool s')) (Some tok) \<and> of_unix 9000 < tok_deadline tok \<and>
    spin_free (slot_release (plSlot (sy_pool s')) (Some tok) (of_unix 9000))"
  using assms
  by (fastforce simp: slot_try_act_def still_eval spin_sel tryAcquire_def grantLocked_def took_def Let_def spin_ready_def
    spin_free_def slot_holds_def slot_release_def slotHoldCap_def go_time)

lemma spin_holds_run:
  assumes "spin_ready s" and "slot_holds (plSlot (sy_pool s)) (Some tok)" and "of_unix 9000 < tok_deadline tok"
    and "spin_free (slot_release (plSlot (sy_pool s)) (Some tok) (of_unix 9000))"
  shows "\<exists>s'. run_state (orphan_holds spin_env False False fuel tok) s = (None, s') \<and>
    sy_calls s' = sy_calls s @ replicate (Suc fuel) spin_close"
  using assms
proof (induction fuel arbitrary: s tok)
  case 0
  from spin_hold_run [OF 0(1-3)] show ?case by (auto simp: State_Monad.run_state_bind)
next
  case (Suc fuel)
  from spin_hold_run [OF Suc.prems(1-3)] obtain s1 where 1: "run_state (orphan_hold spin_env False False tok) s = (True, s1)"
    "spin_ready s1" "sy_calls s1 = sy_calls s @ [spin_close]" "spin_free (plSlot (sy_pool s1))"
    using Suc.prems(4) by auto
  from spin_try_run [OF 1(2,4)] obtain tok' s2 where 2: "run_state (slot_try_act spin_env []) s1 = (Some tok', s2)"
    "spin_ready s2" "sy_calls s2 = sy_calls s1" "slot_holds (plSlot (sy_pool s2)) (Some tok')"
    "of_unix 9000 < tok_deadline tok'" "spin_free (slot_release (plSlot (sy_pool s2)) (Some tok') (of_unix 9000))"
    by blast
  from Suc.IH [OF 2(2,4,5,6)] show ?case
    by (auto simp: State_Monad.run_state_bind 1(1,3) 2(1,3) replicate_append_same)
qed

definition spin_sys :: "unit sys" where
  "spin_sys = \<lparr>sy_pool = (new_pool 3600 0)\<lparr>plMu := spin_mu\<rparr>, sy_world = (), sy_calls = [], sy_mine = [], sy_bare = 0\<rparr>"

text \<open>
  C10: with two sessions close-due and a router that refuses every close with a definite error, one
  tick of \<open>ScanOrphans\<close> never ends: whatever number of holds it is given it has not ended, and each
  hold sends one more close for the same session, with no wait in between.
\<close>

theorem ScanOrphans_spins:
  "fst (run_state (ScanOrphans spin_env False fuel) spin_sys) = None \<and>
   sy_calls (snd (run_state (ScanOrphans spin_env False fuel) spin_sys)) = replicate (Suc fuel) spin_close"
proof -
  have g: "mGate spin_mu = NoGate" "spin_mu\<lparr>mSweepSkips := 0\<rparr> = spin_mu" by code_simp+
  have "spin_ready spin_sys" "spin_free (plSlot (sy_pool spin_sys))"
    by (simp_all add: spin_ready_def spin_sys_def new_pool_def spin_free_def new_slot_def)
  then obtain tok s1 where 1: "run_state (slot_try_act spin_env []) spin_sys = (Some tok, s1)" "spin_ready s1"
    "sy_calls s1 = []" "slot_holds (plSlot (sy_pool s1)) (Some tok)" "of_unix 9000 < tok_deadline tok"
    "spin_free (slot_release (plSlot (sy_pool s1)) (Some tok) (of_unix 9000))"
    using spin_try_run by (metis spin_sys_def sys.select_convs(3))
  from spin_holds_run [OF 1(2,4-6)] obtain s' where 2: "run_state (orphan_holds spin_env False False fuel tok) s1 = (None, s')"
    "sy_calls s' = sy_calls s1 @ replicate (Suc fuel) spin_close" by blast
  have s1: "s1\<lparr>sy_pool := (sy_pool s1)\<lparr>plMu := spin_mu\<rparr>\<rparr> = s1"
    using 1(2) by (cases s1, cases "sy_pool s1") (simp add: spin_ready_def)
  have q: "run_state (orphan_queue spin_env False) spin_sys = (Hold tok False, s1)"
    by (simp add: orphan_queue_def State_Monad.run_state_bind 1(1) cong: bind_weak_cong)
  have "run_state (gateClosed spin_env) spin_sys = (False, spin_sys)"
    by (simp add: gateClosed_def still_eval spin_sel spin_sys_def g)
  then have "run_state (ScanOrphans spin_env False fuel) spin_sys = (None, s')"
    using 1(2) by (simp add: ScanOrphans_def q still_eval spin_sel spin_ready_def g s1 2 cong: bind_weak_cong)
  with 1(3) 2(2) show ?thesis by simp
qed

end
