(* ===== verification/Acquire.thy ===== *)
theory Acquire
  imports Closes
begin

section \<open>Handing out sessions (\<open>internal/pool/lease.go\<close>, \<open>failover.go\<close>)\<close>

text \<open>
  \<open>AcquireCtx\<close> (pooled, adopted from the wallet, or opened) and \<open>FailoverCtx\<close> (retire the failed
  session, close it, open on another provider) as whole handlers over the operations below them.
\<close>

subsection \<open>Acquire\<close>

record acquire_result =
  ar_SessionID :: string
  ar_Opened :: bool
  ar_DurationSec :: int

type_synonym acquired = "open_err + lease \<times> acquire_result"

definition try_pooled :: "'w env \<Rightarrow> string \<Rightarrow> string \<Rightarrow> ('w, lease option) act" where
  "try_pooled E key keyID = with_mu E (\<lambda>t m. tryPooledLocked t key keyID m)"

definition from_pool :: "lease \<Rightarrow> int \<Rightarrow> acquired" where
  "from_pool l durationSec =
     Inr (l, \<lparr>ar_SessionID = ls_session l, ar_Opened = False, ar_DurationSec = durationSec\<rparr>)"

definition duration_or_default :: "'w env \<Rightarrow> int \<Rightarrow> ('w, int) act" where
  "duration_or_default E asked = (if asked \<le> 0 then atoms_get E (\<lambda>t a. DurationSec a) else ret asked)"

definition cap_duration :: "int \<Rightarrow> int \<Rightarrow> int" where
  "cap_duration mx d = (if mx > 0 \<and> d > mx then mx else d)"

text \<open>Pool an open's result and lease it, in one critical section.\<close>

definition pool_and_lease ::
  "time \<Rightarrow> string \<Rightarrow> open_result \<Rightarrow> int \<Rightarrow> string \<Rightarrow> mu_state \<Rightarrow> lease \<times> mu_state" where
  "pool_and_lease now key got durSec keyID m =
     leaseLocked now (or_id got) keyID
       (if or_resumed got then adoptLocked now key got m
        else poolOpenedLocked now key got durSec keyID m)"

definition opened_result :: "open_result \<Rightarrow> int \<Rightarrow> int \<Rightarrow> lease \<Rightarrow> acquired" where
  "opened_result got durationSec openDur l =
     (if or_resumed got
      then Inr (l, \<lparr>ar_SessionID = or_id got, ar_Opened = False, ar_DurationSec = durationSec\<rparr>)
      else if or_adopted got
      then Inr (l, \<lparr>ar_SessionID = or_id got, ar_Opened = True,
                    ar_DurationSec = go_div (or_endsAt got - or_openedAt got) second\<rparr>)
      else Inr (l, \<lparr>ar_SessionID = or_id got, ar_Opened = True, ar_DurationSec = openDur\<rparr>))"

text \<open>A scan that failed: the request's own end, or the state unknown since boot.\<close>

definition scan_refusal :: "'w env \<Rightarrow> rerr + scan_out \<Rightarrow> ('w, open_err option) act" where
  "scan_refusal E sc =
     (case sc of
        Inr out \<Rightarrow> ret None
      | Inl e \<Rightarrow> do {
          c \<leftarrow> check_ctx E True;
          (case c of
             Some ce \<Rightarrow> ret (Some (RequestEnded ce))
           | None \<Rightarrow> do {
               unknown \<leftarrow> atoms_get E (\<lambda>t a. paGated a \<and> \<not> paStateKnown a);
               ret (if unknown then Some SessionStateUnknown else None) }) })"

definition acquire_open ::
  "'w env \<Rightarrow> string \<Rightarrow> string \<Rightarrow> int \<Rightarrow> slot_token \<Rightarrow> rerr + scan_out \<Rightarrow> ('w, acquired) act" where
  "acquire_open E modelID keyID durationSec tok sc = do {
     mx \<leftarrow> mu_get E (\<lambda>t m. DurationMax m);
     now \<leftarrow> clock E;
     holds \<leftarrow> mu_get E (\<lambda>t m. holdsLiveLocked t (normModel modelID) m);
     (let openDur = cap_duration mx durationSec;
          listed = (case sc of Inr out \<Rightarrow> normModel modelID \<in> so_live out | Inl e \<Rightarrow> False);
          op = (newOpenOp now tok modelID)\<lparr>op_reject := \<not> holds \<and> \<not> listed\<rparr>
      in do {
        r \<leftarrow> openAvoidingCooling E True openDur op;
        (case snd r of
           Inl e \<Rightarrow> ret (Inl e)
         | Inr got \<Rightarrow> do {
             l \<leftarrow> with_mu E (\<lambda>t m. pool_and_lease t (normModel modelID) got openDur keyID m);
             ret (opened_result got durationSec openDur l) }) }) }"

definition acquire_held ::
  "'w env \<Rightarrow> string \<Rightarrow> string \<Rightarrow> int \<Rightarrow> slot_token \<Rightarrow> ('w, acquired) act" where
  "acquire_held E modelID keyID durationSec tok = do {
     hit \<leftarrow> try_pooled E (normModel modelID) keyID;
     (case hit of
        Some l \<Rightarrow> ret (from_pool l durationSec)
      | None \<Rightarrow> do {
          sc \<leftarrow> scan E (Some tok) ScanAdoptOnly;
          refusal \<leftarrow> scan_refusal E sc;
          (case refusal of
             Some e \<Rightarrow> ret (Inl e)
           | None \<Rightarrow> do {
               hit2 \<leftarrow> try_pooled E (normModel modelID) keyID;
               (case hit2 of
                  Some l \<Rightarrow> ret (from_pool l durationSec)
                | None \<Rightarrow> acquire_open E modelID keyID durationSec tok sc) }) }) }"

definition slot_refusal :: "slot_err \<Rightarrow> open_err" where
  "slot_refusal e = (case e of SlotBusy \<Rightarrow> errOpenBusyRefusal | CtxErr c \<Rightarrow> RequestEnded c)"

definition AcquireCtx :: "'w env \<Rightarrow> string \<Rightarrow> string \<Rightarrow> int \<Rightarrow> ('w, acquired) act" where
  "AcquireCtx E modelID keyID asked = do {
     durationSec \<leftarrow> duration_or_default E asked;
     hit \<leftarrow> try_pooled E (normModel modelID) keyID;
     (case hit of
        Some l \<Rightarrow> ret (from_pool l durationSec)
      | None \<Rightarrow> do {
          ended \<leftarrow> wait_gate E True;
          (case ended of
             Some e \<Rightarrow> ret (Inl (RequestEnded e))
           | None \<Rightarrow> do {
               _ \<leftarrow> open_lock E (normModel modelID);
               hit2 \<leftarrow> try_pooled E (normModel modelID) keyID;
               (case hit2 of
                  Some l \<Rightarrow> ret (from_pool l durationSec)
                | None \<Rightarrow> do {
                    r \<leftarrow> slot_acquire_act E True keyID;
                    (case r of
                       Inl e \<Rightarrow> ret (Inl (slot_refusal e))
                     | Inr tok \<Rightarrow> do {
                         a \<leftarrow> acquire_held E modelID keyID durationSec tok;
                         _ \<leftarrow> slot_release_act E tok;
                         ret a }) }) }) }) }"

subsection \<open>Release as a handler\<close>

definition ReleaseModel :: "'w env \<Rightarrow> string \<Rightarrow> string \<Rightarrow> ('w, bool \<times> release_reason) act" where
  "ReleaseModel E modelID keyID = do {
     r \<leftarrow> with_mu E (\<lambda>t m. Release t modelID keyID m);
     (case r of (released, why, closing) \<Rightarrow>
        (case closing of
           None \<Rightarrow> ret (released, why)
         | Some (i, ends) \<Rightarrow> do {
             a \<leftarrow> atoms_get E (\<lambda>t a. paDuration a);
             _ \<leftarrow> fmu_do E (\<lambda>t. retire t a i ends);
             _ \<leftarrow> requestSweep E;
             ret (released, why) })) }"

subsection \<open>Failover\<close>

record failover_result =
  fr_SessionID :: string
  fr_Opened :: bool
  fr_Replaced :: bool
  fr_FailedProvider :: string
  fr_Provider :: string
  fr_CloseFailed :: bool
  fr_CloseDeferred :: bool
  fr_DurationSec :: int
  fr_Lease :: "lease option"

definition no_failover :: "int \<Rightarrow> failover_result" where
  "no_failover d = \<lparr>fr_SessionID = [], fr_Opened = False, fr_Replaced = False, fr_FailedProvider = [],
     fr_Provider = [], fr_CloseFailed = False, fr_CloseDeferred = False, fr_DurationSec = d, fr_Lease = None\<rparr>"

type_synonym failover_answer = "failover_result \<times> open_err option"

text \<open>The provider behind a session: the pool's, else the router's answer.\<close>

definition pooled_provider :: "string \<Rightarrow> string \<Rightarrow> mu_state \<Rightarrow> (string \<times> time) option" where
  "pooled_provider modelID i m =
     (case mget (mEntries m) (normModel modelID) of
        None \<Rightarrow> None
      | Some e \<Rightarrow> if e_sessionID e = i \<and> e_provider e \<noteq> []
                  then Some (e_provider e, e_expiresAt e + expiryBuffer) else None)"

definition sessionProvider :: "'w env \<Rightarrow> string \<Rightarrow> string \<Rightarrow> ('w, string \<times> time) act" where
  "sessionProvider E modelID i = do {
     p \<leftarrow> mu_get E (\<lambda>t m. pooled_provider modelID i m);
     (case p of
        Some r \<Rightarrow> ret r
      | None \<Rightarrow> do {
          g \<leftarrow> ask E (en_get E i adminTimeout);
          ret (case g of
                 Inl e \<Rightarrow> ([], zero_time)
               | Inr s \<Rightarrow> (rs_Provider s, if rs_EndsAt s > 0 then of_unix (rs_EndsAt s) else zero_time)) }) }"

definition MarkSessionCooling :: "'w env \<Rightarrow> string \<Rightarrow> string \<Rightarrow> ('w, string) act" where
  "MarkSessionCooling E modelID i = do {
     p \<leftarrow> sessionProvider E modelID i;
     _ \<leftarrow> fmu_do E (\<lambda>t f. MarkCooling t modelID (fst p) f);
     ret (fst p) }"

definition failoverOpen ::
  "'w env \<Rightarrow> string \<Rightarrow> string \<Rightarrow> (open_op \<Rightarrow> ('w, open_op \<times> (open_err + 'r)) act) \<Rightarrow> ('w, open_err + 'r) act" where
  "failoverOpen E keyID modelID f = do {
     r \<leftarrow> slot_acquire_act E True keyID;
     (case r of
        Inl e \<Rightarrow> do {
          c \<leftarrow> check_ctx E True;
          ret (Inl (case c of Some ce \<Rightarrow> RequestEnded ce | None \<Rightarrow> errOpenBusyRefusal)) }
      | Inr tok \<Rightarrow> do {
          now \<leftarrow> clock E;
          a \<leftarrow> f (newOpenOp now tok modelID);
          _ \<leftarrow> slot_release_act E tok;
          ret (snd a) }) }"

definition closeBounded :: "'w env \<Rightarrow> string \<Rightarrow> ('w, bool) act" where
  "closeBounded E i = do {
     r \<leftarrow> slot_acquire_act E False [];
     (case r of
        Inl e \<Rightarrow> ret False
      | Inr tok \<Rightarrow> do {
          out \<leftarrow> closeWithToken E tok i [] [] FailoverCloseTimeout;
          _ \<leftarrow> slot_release_act E tok;
          ret (landed (fst out)) }) }"

definition finishFailoverOpen ::
  "'w env \<Rightarrow> string \<Rightarrow> string \<Rightarrow> open_err + open_result \<Rightarrow> int \<Rightarrow> failover_result \<Rightarrow> ('w, failover_answer) act" where
  "finishFailoverOpen E key keyID got durationSec res =
     (case got of
        Inl e \<Rightarrow> ret (res, Some e)
      | Inr g \<Rightarrow> do {
          l \<leftarrow> with_mu E (\<lambda>t m. leaseLocked t (or_id g) keyID (poolOpenedLocked t key g durationSec keyID m));
          ret (res\<lparr>fr_Lease := Some l, fr_SessionID := or_id g, fr_Provider := or_provider g, fr_Opened := True\<rparr>,
               None) })"

text \<open>Someone else already swapped the session: the replacement, leased if it may be.\<close>

definition already_swapped ::
  "time \<Rightarrow> string \<Rightarrow> string \<Rightarrow> string \<Rightarrow> bool \<Rightarrow> failover_result \<Rightarrow> mu_state \<Rightarrow> failover_result option \<times> mu_state" where
  "already_swapped now key failedID keyID reopen res m =
     (case mget (mEntries m) key of
        None \<Rightarrow> (None, m)
      | Some cur \<Rightarrow>
          if e_sessionID cur = failedID \<or> \<not> now < e_expiresAt cur then (None, m)
          else
            let res1 = res\<lparr>fr_SessionID := e_sessionID cur, fr_Replaced := True, fr_Provider := e_provider cur\<rparr>
            in if \<not> reopen then (Some res1, m)
               else (case stateLocked now key cur m of (st, m1) \<Rightarrow>
                       if ss_retired st \<or> ss_closing st then (Some res1, m1)
                       else (case leaseLocked now (e_sessionID cur) keyID m1 of (l, m2) \<Rightarrow>
                               (Some (res1\<lparr>fr_Lease := Some l\<rparr>), m2))))"

text \<open>Steps 4 to 6: retire and close the failed session, then open on another provider.\<close>

definition failover_close :: "'w env \<Rightarrow> string \<Rightarrow> string \<Rightarrow> time \<Rightarrow> failover_result \<Rightarrow> ('w, failover_result) act" where
  "failover_close E key failedID endsAt res = do {
     a \<leftarrow> atoms_get E (\<lambda>t a. paDuration a);
     _ \<leftarrow> fmu_do E (\<lambda>t f. retire t a failedID endsAt f);
     now_close \<leftarrow> with_mu E (\<lambda>t m. retireForFailover t key failedID m);
     if now_close then do {
       ok \<leftarrow> closeBounded E failedID;
       if ok then ret res
       else do {
         _ \<leftarrow> mu_do E (\<lambda>t m. failoverCloseFailed failedID m);
         ret (res\<lparr>fr_CloseFailed := True\<rparr>) } }
     else ret (res\<lparr>fr_CloseDeferred := True\<rparr>) }"

definition failover_swap ::
  "'w env \<Rightarrow> string \<Rightarrow> string \<Rightarrow> string \<Rightarrow> int \<Rightarrow> bool \<Rightarrow> string \<Rightarrow> time \<Rightarrow> rated_bid list \<Rightarrow> failover_result \<Rightarrow>
   ('w, failover_answer) act" where
  "failover_swap E modelID failedID keyID durationSec reopen failedProv endsAt cands res = do {
     res1 \<leftarrow> failover_close E (normModel modelID) failedID endsAt res;
     if \<not> reopen then do {
       _ \<leftarrow> fmu_do E (\<lambda>t f. MarkStreamCut modelID failedProv f);
       ret (res1, None) }
     else do {
       got \<leftarrow> failoverOpen E keyID modelID (openExcluding E True durationSec cands);
       finishFailoverOpen E (normModel modelID) keyID got durationSec res1 } }"

definition failover_away ::
  "'w env \<Rightarrow> string \<Rightarrow> string \<Rightarrow> string \<Rightarrow> int \<Rightarrow> bool \<Rightarrow> failover_result \<Rightarrow> ('w, failover_answer) act" where
  "failover_away E modelID failedID keyID durationSec reopen res0 = do {
     p \<leftarrow> sessionProvider E modelID failedID;
     (let failedProv = fst p; res = res0\<lparr>fr_FailedProvider := failedProv\<rparr> in
      if failedProv = [] then ret (res, Some NoAlternate)
      else do {
        _ \<leftarrow> fmu_do E (\<lambda>t f. MarkCooling t modelID failedProv f);
        c \<leftarrow> failoverOpen E keyID modelID (op_candidates E True failedProv);
        (case c of
           Inl e \<Rightarrow> ret (res, Some NoAlternate)
         | Inr (cands, elig) \<Rightarrow>
             if cands = [] then ret (res, Some NoAlternate)
             else failover_swap E modelID failedID keyID durationSec reopen failedProv (snd p) cands res) }) }"

definition failover_again ::
  "'w env \<Rightarrow> string \<Rightarrow> string \<Rightarrow> int \<Rightarrow> bool \<Rightarrow> failover_result \<Rightarrow> ('w, failover_answer) act" where
  "failover_again E modelID keyID durationSec reopen res0 =
     (let res = res0\<lparr>fr_Replaced := True\<rparr> in
      if \<not> reopen then ret (res, None)
      else do {
        got \<leftarrow> failoverOpen E keyID modelID (openAvoidingCooling E True durationSec);
        finishFailoverOpen E (normModel modelID) keyID got durationSec res })"

definition FailoverCtx ::
  "'w env \<Rightarrow> string \<Rightarrow> string \<Rightarrow> string \<Rightarrow> int \<Rightarrow> bool \<Rightarrow> ('w, failover_answer) act" where
  "FailoverCtx E modelID failedID keyID asked reopen = do {
     d \<leftarrow> duration_or_default E asked;
     mx \<leftarrow> mu_get E (\<lambda>t m. DurationMax m);
     (let durationSec = cap_duration mx d; res = no_failover durationSec; key = normModel modelID in do {
        _ \<leftarrow> open_lock E key;
        _ \<leftarrow> wait_gate E False;
        swapped \<leftarrow> with_mu E (\<lambda>t m. already_swapped t key failedID keyID reopen res m);
        (case swapped of
           Some r \<Rightarrow> ret (r, None)
         | None \<Rightarrow> do {
             old \<leftarrow> fmu_get E (\<lambda>t f. isRetired failedID f);
             if old then failover_again E modelID keyID durationSec reopen res
             else failover_away E modelID failedID keyID durationSec reopen res }) }) }"

end
