(* ===== verification/Handlers.thy ===== *)
theory Handlers
  imports Acquire
begin

section \<open>What every handler does with the wallet slot\<close>

text \<open>
  The pool makes one wallet call at a time: each open and each close is sent by a goroutine that
  holds the wallet slot, and every handler gives back what it takes on all its paths. The judgement
  \<open>tidy\<close> has one rule per combinator and per primitive; each handler is a derivation.
\<close>

subsection \<open>The discipline of the wallet slot\<close>

text \<open>
  \<open>tidy P M f\<close>: a handler that holds the tokens \<open>M\<close> holds exactly them again after \<open>f\<close>, and the calls
  that move stake which \<open>f\<close> makes all satisfy \<open>P\<close> and are made while holding a token.
\<close>

definition grows :: "(call \<Rightarrow> bool) \<Rightarrow> 'w sys \<Rightarrow> 'w sys \<Rightarrow> bool" where
  "grows P s s' \<longleftrightarrow> sy_bare s' = sy_bare s \<and> (\<exists>cs. sy_calls s' = sy_calls s @ cs \<and> list_all P cs)"

definition tidy :: "(call \<Rightarrow> bool) \<Rightarrow> nat list \<Rightarrow> ('w, 'a) act \<Rightarrow> bool" where
  "tidy P M f \<longleftrightarrow> (\<forall>s a s'. run_state f s = (a, s') \<longrightarrow> sy_mine s = M \<longrightarrow> sy_mine s' = M \<and> grows P s s')"

lemma grows_refl [simp]: "grows P s s"
  by (simp add: grows_def)

lemma grows_trans: "grows P s s1 \<Longrightarrow> grows P s1 s2 \<Longrightarrow> grows P s s2"
  by (auto simp: grows_def)

lemma grows_same: "sy_bare s' = sy_bare s \<Longrightarrow> sy_calls s' = sy_calls s \<Longrightarrow> grows P s s'"
  by (simp add: grows_def)

named_theorems tidy_intro \<open>computations that keep the slot's discipline\<close>

lemma tidyI:
  "(\<And>s a s'. run_state f s = (a, s') \<Longrightarrow> sy_mine s = M \<Longrightarrow> sy_mine s' = M \<and> grows P s s') \<Longrightarrow> tidy P M f"
  by (simp add: tidy_def)

text \<open>A computation that touches neither the bookkeeping nor the log.\<close>

lemma tidy_still:
  "(\<And>s a s'. run_state f s = (a, s') \<Longrightarrow>
     sy_mine s' = sy_mine s \<and> sy_bare s' = sy_bare s \<and> sy_calls s' = sy_calls s) \<Longrightarrow> tidy P M f"
  by (simp add: tidy_def grows_same)

lemma tidyD:
  "tidy P M f \<Longrightarrow> run_state f s = (a, s') \<Longrightarrow> sy_mine s = M \<Longrightarrow> sy_mine s' = M \<and> grows P s s'"
  by (simp add: tidy_def)

lemma tidy_ret [tidy_intro]: "tidy P M (ret a)"
  by (simp add: tidy_def)

lemma tidy_bind [tidy_intro]:
  assumes f: "tidy P M f" and g: "\<And>a. tidy P M (g a)"
  shows "tidy P M (f \<bind> g)"
proof (rule tidyI, elim run_bindE)
  fix s a s' b s1
  assume 1: "run_state f s = (b, s1)" and 2: "run_state (g b) s1 = (a, s')" and M: "sy_mine s = M"
  from tidyD [OF f 1 M] tidyD [OF g 2] show "sy_mine s' = M \<and> grows P s s'"
    by (blast intro: grows_trans)
qed

lemma tidy_if [tidy_intro]: "tidy P M f \<Longrightarrow> tidy P M g \<Longrightarrow> tidy P M (if b then f else g)"
  by simp

lemma tidy_option [tidy_intro]:
  "tidy P M f \<Longrightarrow> (\<And>x. tidy P M (g x)) \<Longrightarrow> tidy P M (case r of None \<Rightarrow> f | Some x \<Rightarrow> g x)"
  by (cases r) simp_all

lemma tidy_sum [tidy_intro]:
  "(\<And>x. tidy P M (f x)) \<Longrightarrow> (\<And>x. tidy P M (g x)) \<Longrightarrow> tidy P M (case r of Inl x \<Rightarrow> f x | Inr x \<Rightarrow> g x)"
  by (cases r) simp_all

lemma tidy_prod [tidy_intro]: "(\<And>x y. tidy P M (f x y)) \<Longrightarrow> tidy P M (case r of (x, y) \<Rightarrow> f x y)"
  by (cases r) simp

lemma tidy_others [tidy_intro]: "tidy P M (others E)"
  by (rule tidy_still) (auto simp: others_def split: prod.splits)

lemma tidy_in_world [tidy_intro]: "tidy P M (in_world f)"
  by (rule tidy_still) (auto simp: in_world_def split: prod.splits)

lemma tidy_ask [tidy_intro]: "tidy P M (ask E f)"
  unfolding ask_def by (intro tidy_intro)

lemma tidy_on_pool [tidy_intro]: "tidy P M (on_pool E f)"
  unfolding on_pool_def by (intro tidy_intro, rule tidy_still) (auto split: prod.splits)

lemma tidy_sections [tidy_intro]:
  "tidy P M (with_mu E f1)" "tidy P M (with_fmu E f2)" "tidy P M (with_atoms E f3)" "tidy P M (with_chain E f4)"
  "tidy P M (with_slot E f5)" "tidy P M (requestSweep E)"
  unfolding with_mu_def with_fmu_def with_atoms_def with_chain_def with_slot_def requestSweep_def
  by (rule tidy_on_pool)+

lemma tidy_reads [tidy_intro]:
  "tidy P M (clock E)" "tidy P M (check_ctx E cx)" "tidy P M (pause E cx d)" "tidy P M (gateClosed E)"
  "tidy P M (open_lock E key)" "tidy P M (slot_left E tok)" "tidy P M (call_time E tok per)"
  unfolding clock_def check_ctx_def pause_def gateClosed_def open_lock_def slot_left_def call_time_def
  by (intro tidy_intro)+

lemma tidy_wait_gate [tidy_intro]: "tidy P M (wait_gate E cx)"
  unfolding wait_gate_def by (intro tidy_intro, rule tidy_still, auto split: prod.splits)

text \<open>A call is made only by a holder.\<close>

lemma tidy_log: "M \<noteq> [] \<Longrightarrow> P c \<Longrightarrow> tidy P M (log_call c)"
  by (rule tidyI) (auto simp: log_call_def grows_def)

lemma tidy_post_open [tidy_intro]:
  "M \<noteq> [] \<Longrightarrow> (\<And>r. P (OpenCall bid d reject r)) \<Longrightarrow> tidy P M (post_open E bid d reject left)"
  unfolding post_open_def by (intro tidy_intro tidy_log)

lemma tidy_post_close [tidy_intro]:
  "M \<noteq> [] \<Longrightarrow> (\<And>r. P (CloseCall i r)) \<Longrightarrow> tidy P M (post_close E i left)"
  unfolding post_close_def by (intro tidy_intro tidy_log)

text \<open>Taking the slot adds a token, releasing it takes the token away; neither makes a call.\<close>

lemma still_section:
  "run_state (with_slot E f) s = (a, s') \<Longrightarrow>
     sy_mine s' = sy_mine s \<and> sy_bare s' = sy_bare s \<and> sy_calls s' = sy_calls s"
  by (auto simp: with_slot_def on_pool_def others_def elim!: run_bindE split: prod.splits)

lemma run_slot_acquire:
  assumes "run_state (slot_acquire_act E cx key) s = (r, s')"
  shows "sy_bare s' = sy_bare s \<and> sy_calls s' = sy_calls s \<and>
    sy_mine s' = (case r of Inl e \<Rightarrow> sy_mine s | Inr t \<Rightarrow> tok_id t # sy_mine s)"
  using assms unfolding slot_acquire_act_def
proof (elim run_bindE, goal_cases)
  case (1 c s1 en s2)
  from 1(1) have "sy_mine s1 = sy_mine s \<and> sy_bare s1 = sy_bare s \<and> sy_calls s1 = sy_calls s"
    by (auto simp: check_ctx_def ask_def others_def in_world_def elim!: run_bindE split: prod.splits if_splits)
  with still_section [OF 1(2)]
  have q: "sy_mine s2 = sy_mine s" "sy_bare s2 = sy_bare s" "sy_calls s2 = sy_calls s" by simp_all
  show ?case
  proof (cases en)
    case (EnterWait n)
    from 1(3) [unfolded EnterWait enter.case] show ?thesis
    proof (elim run_bindE, goal_cases)
      case (1 ended s3)
      from 1(1) q have q3: "sy_mine s3 = sy_mine s" "sy_bare s3 = sy_bare s" "sy_calls s3 = sy_calls s"
        by (auto split: prod.splits)
      from 1(2) q3 show ?case
        by (auto simp: took_def split: option.splits elim!: run_bindE dest!: still_section)
    qed
  qed (use 1(3) q in \<open>auto simp: took_def elim!: run_bindE\<close>)
qed

lemma run_slot_try:
  assumes "run_state (slot_try_act E key) s = (r, s')"
  shows "sy_bare s' = sy_bare s \<and> sy_calls s' = sy_calls s \<and>
    sy_mine s' = (case r of None \<Rightarrow> sy_mine s | Some t \<Rightarrow> tok_id t # sy_mine s)"
  using assms unfolding slot_try_act_def
  by (auto simp: took_def split: option.splits elim!: run_bindE dest!: still_section)

lemma run_slot_release:
  assumes "run_state (slot_release_act E tok) s = (r, s')"
  shows "sy_bare s' = sy_bare s \<and> sy_calls s' = sy_calls s \<and> sy_mine s' = remove1 (tok_id tok) (sy_mine s)"
  using assms unfolding slot_release_act_def
  by (auto elim!: run_bindE dest!: still_section)

text \<open>A computation that starts with one more token than it ends with: it releases that token.\<close>

definition gives_back :: "(call \<Rightarrow> bool) \<Rightarrow> slot_token \<Rightarrow> nat list \<Rightarrow> ('w, 'a) act \<Rightarrow> bool" where
  "gives_back P tok M f \<longleftrightarrow> (\<forall>s a s'. run_state f s = (a, s') \<longrightarrow> sy_mine s = tok_id tok # M \<longrightarrow>
     sy_mine s' = M \<and> grows P s s')"

lemma gives_backI:
  "(\<And>s a s'. run_state f s = (a, s') \<Longrightarrow> sy_mine s = tok_id tok # M \<Longrightarrow> sy_mine s' = M \<and> grows P s s') \<Longrightarrow>
   gives_back P tok M f"
  by (simp add: gives_back_def)

lemma gives_backD:
  "gives_back P tok M f \<Longrightarrow> run_state f s = (a, s') \<Longrightarrow> sy_mine s = tok_id tok # M \<Longrightarrow>
   sy_mine s' = M \<and> grows P s s'"
  by (simp add: gives_back_def)

lemma gives_back_bind:
  assumes f: "tidy P (tok_id tok # M) f" and g: "\<And>a. gives_back P tok M (g a)"
  shows "gives_back P tok M (f \<bind> g)"
proof (rule gives_backI, elim run_bindE)
  fix s a s' b s1
  assume 1: "run_state f s = (b, s1)" and 2: "run_state (g b) s1 = (a, s')" and M: "sy_mine s = tok_id tok # M"
  from tidyD [OF f 1 M] gives_backD [OF g 2] show "sy_mine s' = M \<and> grows P s s'"
    by (blast intro: grows_trans)
qed

lemma gives_back_then:
  assumes f: "gives_back P tok M f" and g: "\<And>a. tidy P M (g a)"
  shows "gives_back P tok M (f \<bind> g)"
proof (rule gives_backI, elim run_bindE)
  fix s a s' b s1
  assume 1: "run_state f s = (b, s1)" and 2: "run_state (g b) s1 = (a, s')" and M: "sy_mine s = tok_id tok # M"
  from gives_backD [OF f 1 M] tidyD [OF g 2] show "sy_mine s' = M \<and> grows P s s'"
    by (blast intro: grows_trans)
qed

lemma gives_back_release: "gives_back P tok M (slot_release_act E tok)"
  by (auto simp: gives_back_def grows_same dest!: run_slot_release)

lemma gives_back_if: "gives_back P tok M f \<Longrightarrow> gives_back P tok M g \<Longrightarrow> gives_back P tok M (if b then f else g)"
  by simp

lemma gives_back_option:
  "gives_back P tok M f \<Longrightarrow> (\<And>x. gives_back P tok M (g x)) \<Longrightarrow>
   gives_back P tok M (case r of None \<Rightarrow> f | Some x \<Rightarrow> g x)"
  by (cases r) simp_all

lemma gives_back_sum:
  "(\<And>x. gives_back P tok M (f x)) \<Longrightarrow> (\<And>x. gives_back P tok M (g x)) \<Longrightarrow>
   gives_back P tok M (case r of Inl x \<Rightarrow> f x | Inr x \<Rightarrow> g x)"
  by (cases r) simp_all

text \<open>Taking the slot: with it, a computation that gives it back; without it, one that is tidy.\<close>

lemma tidy_acquire:
  assumes "\<And>e. tidy P M (k (Inl e))" and "\<And>t. gives_back P t M (k (Inr t))"
  shows "tidy P M (slot_acquire_act E cx key \<bind> k)"
proof (rule tidyI, elim run_bindE)
  fix s a s' r s1
  assume 1: "run_state (slot_acquire_act E cx key) s = (r, s1)" and k: "run_state (k r) s1 = (a, s')"
    and M: "sy_mine s = M"
  note q = run_slot_acquire [OF 1]
  then have "grows P s s1" by (simp add: grows_same)
  moreover have "sy_mine s' = M \<and> grows P s1 s'"
    using k q M tidyD [OF assms(1)] assms(2) by (cases r) (auto simp: gives_back_def)
  ultimately show "sy_mine s' = M \<and> grows P s s'" using grows_trans by blast
qed

lemma tidy_try:
  assumes "tidy P M (k None)" and "\<And>t. gives_back P t M (k (Some t))"
  shows "tidy P M (slot_try_act E key \<bind> k)"
proof (rule tidyI, elim run_bindE)
  fix s a s' r s1
  assume 1: "run_state (slot_try_act E key) s = (r, s1)" and k: "run_state (k r) s1 = (a, s')"
    and M: "sy_mine s = M"
  note q = run_slot_try [OF 1]
  then have "grows P s s1" by (simp add: grows_same)
  moreover have "sy_mine s' = M \<and> grows P s1 s'"
    using k q M tidyD [OF assms(1)] assms(2) by (cases r) (auto simp: gives_back_def)
  ultimately show "sy_mine s' = M \<and> grows P s s'" using grows_trans by blast
qed

lemma tidy_acquire_case:
  "(\<And>e. tidy P M (f e)) \<Longrightarrow> (\<And>t. gives_back P t M (g t)) \<Longrightarrow>
   tidy P M (slot_acquire_act E cx key \<bind> (\<lambda>r. case r of Inl e \<Rightarrow> f e | Inr t \<Rightarrow> g t))"
  by (rule tidy_acquire) simp_all

lemma tidy_try_case:
  "tidy P M f \<Longrightarrow> (\<And>t. gives_back P t M (g t)) \<Longrightarrow>
   tidy P M (slot_try_act E key \<bind> (\<lambda>r. case r of None \<Rightarrow> f | Some t \<Rightarrow> g t))"
  by (rule tidy_try) simp_all

text \<open>The two ways a sweep takes the slot.\<close>

definition takes :: "('w, hold) act \<Rightarrow> bool" where
  "takes f \<longleftrightarrow> (\<forall>s h s'. run_state f s = (h, s') \<longrightarrow> sy_bare s' = sy_bare s \<and> sy_calls s' = sy_calls s \<and>
     sy_mine s' = (case h of NoHold \<Rightarrow> sy_mine s | Hold t b \<Rightarrow> tok_id t # sy_mine s))"

lemma tidy_takes:
  assumes "takes f" and "tidy P M (k NoHold)" and "\<And>t b. gives_back P t M (k (Hold t b))"
  shows "tidy P M (f \<bind> k)"
proof (rule tidyI, elim run_bindE)
  fix s a s' h s1
  assume 1: "run_state f s = (h, s1)" and k: "run_state (k h) s1 = (a, s')" and M: "sy_mine s = M"
  from assms(1) 1 have q: "sy_bare s1 = sy_bare s" "sy_calls s1 = sy_calls s"
    "sy_mine s1 = (case h of NoHold \<Rightarrow> sy_mine s | Hold t b \<Rightarrow> tok_id t # sy_mine s)"
    by (auto simp: takes_def)
  then have "grows P s s1" by (simp add: grows_same)
  moreover have "sy_mine s' = M \<and> grows P s1 s'"
    using k q M tidyD [OF assms(2)] assms(3) by (cases h) (auto simp: gives_back_def)
  ultimately show "sy_mine s' = M \<and> grows P s s'" using grows_trans by blast
qed


lemma tidy_takes_case:
  "takes f \<Longrightarrow> tidy P M g \<Longrightarrow> (\<And>t b. gives_back P t M (h t b)) \<Longrightarrow>
   tidy P M (f \<bind> (\<lambda>r. case r of NoHold \<Rightarrow> g | Hold t b \<Rightarrow> h t b))"
  by (rule tidy_takes) simp_all

subsection \<open>Opens\<close>

lemma tidy_case_rerr [tidy_intro]:
  assumes "\<And>i. tidy P M (f i)" and "tidy P M g"
  shows "tidy P M (case e of ExistingSession i \<Rightarrow> f i | _ \<Rightarrow> g)"
  using assms by (cases e) simp_all

lemma tidy_case_class [tidy_intro]:
  assumes "tidy P M a" "tidy P M b" "tidy P M c" "tidy P M d" "tidy P M e"
  shows "tidy P M (case cls of ProviderFault \<Rightarrow> a | TransientPreSend \<Rightarrow> b | TransientWindow \<Rightarrow> c
    | WalletFunds \<Rightarrow> d | MaybeSent \<Rightarrow> e)"
  using assms by (cases cls) simp_all

lemma tidy_reads_of_open [tidy_intro]:
  "tidy P M (backoff E cx op)" "tidy P M (give_up E cx d)" "tidy P M (ReadStakeInputs E left)"
  "tidy P M (walk_end E cap d w)"
  unfolding backoff_def give_up_def ReadStakeInputs_def walk_end_def Let_def by (intro tidy_intro)+

lemma tidy_stakeInputsForOpen [tidy_intro]: "tidy P M (stakeInputsForOpen E cx op)"
  unfolding stakeInputsForOpen_def by (intro tidy_intro)

lemma tidy_readOpen [tidy_intro]: "tidy P M mk \<Longrightarrow> tidy P M (readOpen E mk)"
  unfolding readOpen_def by (intro tidy_intro)

lemma tidy_reconcile_polls [tidy_intro]: "tidy P M (reconcile_polls E cx op att first n)"
proof (induction n arbitrary: first)
  case 0
  show ?case by (simp add: tidy_intro)
next
  case (Suc n)
  show ?case unfolding reconcile_polls.simps by (intro tidy_intro Suc.IH)
qed

lemma tidy_reconcile [tidy_intro]: "tidy P M (reconcile E cx op att r)"
  unfolding reconcile_def by (intro tidy_intro)

lemma tidy_adoptExisting [tidy_intro]: "tidy P M (adoptExisting E cx op i)"
  unfolding adoptExisting_def Let_def by (intro tidy_intro)

lemma tidy_retry_or:
  assumes "\<And>k op'. again = Some k \<Longrightarrow> tidy P M (k op')"
  shows "tidy P M (retry_or E cx again wrap b)"
proof -
  obtain d ok op where b: "b = (d, ok, op)" by (metis surj_pair)
  show ?thesis
    using assms by (cases again) (auto simp: retry_or_def b intro!: tidy_intro split: if_splits)
qed

lemma tidy_candidates_try:
  assumes "\<And>k op'. again = Some k \<Longrightarrow> tidy P M (k op')"
  shows "tidy P M (candidates_try E cx x again op)"
  unfolding candidates_try_def by (intro tidy_intro tidy_retry_or assms)

lemma tidy_candidates [tidy_intro]: "tidy P M (op_candidates E cx x op)"
proof -
  have "tidy P M (candidates_loop E cx x n op)" for n op
    by (induction n arbitrary: op) (auto intro: tidy_candidates_try)
  then show ?thesis by (simp add: op_candidates_def)
qed

text \<open>The open calls, whose form the caller's \<open>P\<close> must allow.\<close>

definition opens_for :: "int \<Rightarrow> (call \<Rightarrow> bool) \<Rightarrow> bool" where
  "opens_for d P \<longleftrightarrow> (\<forall>bid rej r. P (OpenCall bid d rej r))"

lemma tidy_after_class:
  assumes "\<And>k op'. again = Some k \<Longrightarrow> tidy P M (k op')"
  shows "tidy P M (after_class E cx b att again op err cls)"
  unfolding after_class_def by (intro tidy_intro tidy_retry_or assms)

lemma tidy_same_bid_try:
  assumes "\<And>k op'. again = Some k \<Longrightarrow> tidy P M (k op')" and "M \<noteq> []" and "opens_for d P"
  shows "tidy P M (same_bid_try E cx d b again op)"
  using assms(2,3) unfolding same_bid_try_def after_open_def opens_for_def
  by (intro tidy_intro tidy_after_class assms(1)) auto

lemma tidy_same_bid: "M \<noteq> [] \<Longrightarrow> opens_for d P \<Longrightarrow> tidy P M (same_bid E cx d b n op)"
  by (induction n arbitrary: op) (auto intro: tidy_same_bid_try)

lemma tidy_case_outcome:
  "(\<And>g. tidy P M (f g)) \<Longrightarrow> (\<And>e. tidy P M (h e)) \<Longrightarrow>
   tidy P M (case r of BidDone g \<Rightarrow> f g | BidFault e \<Rightarrow> h e)"
  by (cases r) simp_all

lemma tidy_open_walk: "M \<noteq> [] \<Longrightarrow> opens_for d P \<Longrightarrow> tidy P M (open_walk E cx d cap bs w op)"
proof (induction bs arbitrary: w op)
  case Nil
  show ?case unfolding open_walk.simps by (intro tidy_intro)
next
  case (Cons b bs)
  show ?case unfolding open_walk.simps
    by (intro tidy_intro tidy_same_bid tidy_case_outcome Cons.IH Cons.prems)
qed

lemma tidy_openExcluding: "M \<noteq> [] \<Longrightarrow> opens_for d P \<Longrightarrow> tidy P M (openExcluding E cx d alts op)"
  unfolding openExcluding_def by (intro tidy_intro tidy_open_walk)

lemma tidy_case_open_err [tidy_intro]:
  assumes "\<And>x y. tidy P M (f1 x y)" "tidy P M f2" "tidy P M f3" "tidy P M f4" "tidy P M f5"
    "\<And>x y z. tidy P M (f6 x y z)" "tidy P M f7" "\<And>x y. tidy P M (f8 x y)" "\<And>x. tidy P M (f9 x)"
  shows "tidy P M (case e of NoAvailable x y \<Rightarrow> f1 x y | NoEligibleProvider \<Rightarrow> f2 | WalletNeedsFunds \<Rightarrow> f3
    | SessionStateUnknown \<Rightarrow> f4 | StakeLimitInvalid \<Rightarrow> f5 | StakeLimitExceeded x y z \<Rightarrow> f6 x y z
    | NoAlternate \<Rightarrow> f7 | WalkExhausted x y \<Rightarrow> f8 x y | RequestEnded x \<Rightarrow> f9 x)"
  using assms by (cases e) simp_all

lemma tidy_openAvoidingCooling:
  "M \<noteq> [] \<Longrightarrow> opens_for d P \<Longrightarrow> tidy P M (openAvoidingCooling E cx d op)"
  unfolding openAvoidingCooling_def Let_def by (intro tidy_intro tidy_openExcluding)

subsection \<open>Closes\<close>

definition closes_of :: "string \<Rightarrow> (call \<Rightarrow> bool) \<Rightarrow> bool" where
  "closes_of i P \<longleftrightarrow> (\<forall>r. P (CloseCall i r))"

lemma tidy_notes [tidy_intro]:
  "tidy P M (with_log E f)" "tidy P M (notifyClosed E i)" "tidy P M (emitRescan E src reason i res)"
  unfolding with_log_def notifyClosed_def emitRescan_def by (intro tidy_intro)+

lemma tidy_close_done [tidy_intro]: "tidy P M (close_done E i)"
  unfolding close_done_def by (intro tidy_intro)

lemma tidy_after_close [tidy_intro]: "tidy P M (after_close E tok i reason src answer)"
  unfolding after_close_def with_log_def by (intro tidy_intro)

lemma tidy_closeWithToken: "M \<noteq> [] \<Longrightarrow> closes_of i P \<Longrightarrow> tidy P M (closeWithToken E tok i reason src per)"
  unfolding closeWithToken_def closes_of_def by (intro tidy_intro) auto

lemma tidy_each [tidy_intro]: "(\<And>x. tidy P M (f x)) \<Longrightarrow> tidy P M (each f xs)"
  by (induction xs) (simp_all add: tidy_intro)

lemma tidy_scan [tidy_intro]: "tidy P M (scan E tok mode)"
  unfolding scan_def by (intro tidy_intro)

lemma tidy_rehydrate [tidy_intro]: "tidy P M (rehydrate E force)"
  unfolding rehydrate_def by (intro tidy_intro)

text \<open>The slot taken, the body run, the slot released.\<close>

lemma gives_back_body:
  assumes "tidy P (tok_id tok # M) f" and "\<And>a. tidy P M (g a)"
  shows "gives_back P tok M (f \<bind> (\<lambda>a. slot_release_act E tok \<bind> (\<lambda>_. g a)))"
  by (intro gives_back_bind gives_back_then gives_back_release assms)

lemma takesD:
  "takes f \<Longrightarrow> run_state f s = (h, s') \<Longrightarrow> sy_bare s' = sy_bare s \<and> sy_calls s' = sy_calls s \<and>
     sy_mine s' = (case h of NoHold \<Rightarrow> sy_mine s | Hold t b \<Rightarrow> tok_id t # sy_mine s)"
  by (simp add: takes_def)

lemma takes_none: "takes (ret NoHold)"
  by (simp add: takes_def)

lemma takes_after:
  assumes f: "\<And>M. tidy (\<lambda>_. False) M f" and g: "\<And>a. takes (g a)"
  shows "takes (f \<bind> g)"
  unfolding takes_def
proof (intro allI impI, elim run_bindE)
  fix s h s' a s1
  assume 1: "run_state f s = (a, s1)" and 2: "run_state (g a) s1 = (h, s')"
  from tidyD [OF f 1 refl] have "sy_mine s1 = sy_mine s" "sy_bare s1 = sy_bare s" "sy_calls s1 = sy_calls s"
    by (auto simp: grows_def list_all_iff)
  with takesD [OF g 2] show "sy_bare s' = sy_bare s \<and> sy_calls s' = sy_calls s \<and>
      sy_mine s' = (case h of NoHold \<Rightarrow> sy_mine s | Hold t b \<Rightarrow> tok_id t # sy_mine s)"
    by (cases h) simp_all
qed

lemma takes_try:
  assumes "takes (k None)" and "\<And>t. k (Some t) = ret (Hold t b)"
  shows "takes (slot_try_act E key \<bind> k)"
  unfolding takes_def
proof (intro allI impI, elim run_bindE)
  fix s h s' r s1
  assume 1: "run_state (slot_try_act E key) s = (r, s1)" and 2: "run_state (k r) s1 = (h, s')"
  show "sy_bare s' = sy_bare s \<and> sy_calls s' = sy_calls s \<and>
      sy_mine s' = (case h of NoHold \<Rightarrow> sy_mine s | Hold t b \<Rightarrow> tok_id t # sy_mine s)"
  proof (cases r)
    case None
    with 2 have "run_state (k None) s1 = (h, s')" by simp
    from takesD [OF assms(1) this] run_slot_try [OF 1] None show ?thesis by (cases h) simp_all
  next
    case (Some t)
    with 2 run_slot_try [OF 1] show ?thesis by (auto simp: assms(2))
  qed
qed

lemma takes_acquire:
  assumes "\<And>e. k (Inl e) = ret NoHold" and "\<And>t. k (Inr t) = ret (Hold t b)"
  shows "takes (slot_acquire_act E cx key \<bind> k)"
  unfolding takes_def
proof (intro allI impI, elim run_bindE)
  fix s h s' r s1
  assume 1: "run_state (slot_acquire_act E cx key) s = (r, s1)" and 2: "run_state (k r) s1 = (h, s')"
  show "sy_bare s' = sy_bare s \<and> sy_calls s' = sy_calls s \<and>
      sy_mine s' = (case h of NoHold \<Rightarrow> sy_mine s | Hold t b \<Rightarrow> tok_id t # sy_mine s)"
    using run_slot_acquire [OF 1] 2 by (cases r) (auto simp: assms)
qed

lemma takes_if: "takes f \<Longrightarrow> takes g \<Longrightarrow> takes (if b then f else g)"
  by simp

lemma takes_sweep_hold: "takes (sweep_hold E cx)"
  unfolding sweep_hold_def
  by (rule takes_try; (simp (no_asm_simp) only: option.case)?)
    (auto intro!: takes_after takes_acquire takes_none tidy_intro split: prod.split)

lemma takes_orphan_queue: "takes (orphan_queue E cx)"
  unfolding orphan_queue_def
  by (rule takes_try; (simp (no_asm_simp) only: option.case)?)
    (auto intro!: takes_after takes_acquire takes_none tidy_intro split: prod.split)

subsection \<open>The handlers\<close>

lemma tidy_sweep_close: "M \<noteq> [] \<Longrightarrow> closes_of i P \<Longrightarrow> tidy P M (sweep_close E tok i ends)"
  unfolding sweep_close_def by (intro tidy_intro tidy_closeWithToken)

definition any_close :: "(call \<Rightarrow> bool) \<Rightarrow> bool" where
  "any_close P \<longleftrightarrow> (\<forall>i. closes_of i P)"

lemma tidy_sweepRetired: "any_close P \<Longrightarrow> tidy P M (sweepRetired E cx grace idle fuel n)"
proof (induction fuel arbitrary: n)
  case 0
  show ?case by (simp add: tidy_intro)
next
  case (Suc fuel)
  have close: "closes_of i P" for i using Suc.prems by (simp add: any_close_def)
  show ?case unfolding sweepRetired.simps
    apply (intro tidy_takes_case [OF takes_sweep_hold] tidy_intro)
    apply (rule gives_back_bind, intro tidy_intro)
    apply (intro gives_back_option gives_back_body gives_back_then gives_back_release tidy_sweep_close close
        tidy_intro Suc.IH Suc.prems)
    apply simp
    done
qed

lemma gives_back_orphan_hold: "any_close P \<Longrightarrow> gives_back P tok M (orphan_hold E cx forced tok)"
  unfolding orphan_hold_def
  apply (rule gives_back_bind, intro tidy_intro)
  apply (rule gives_back_sum)
   apply (intro gives_back_then gives_back_release tidy_intro)
  apply (rule gives_back_body)
   apply (intro tidy_intro tidy_closeWithToken)
    apply simp
   apply (simp add: any_close_def)
  apply (intro tidy_intro)
  done

lemma gives_back_orphan_holds: "any_close P \<Longrightarrow> gives_back P tok M (orphan_holds E cx forced fuel tok)"
proof (induction fuel arbitrary: tok)
  case 0
  then show ?case unfolding orphan_holds.simps
    by (intro gives_back_then gives_back_orphan_hold tidy_intro)
next
  case (Suc fuel)
  show ?case unfolding orphan_holds.simps
    by (intro gives_back_then gives_back_orphan_hold tidy_if tidy_ret tidy_try_case Suc.IH Suc.prems)
qed

lemma tidy_ScanOrphans: "any_close P \<Longrightarrow> tidy P M (ScanOrphans E cx fuel)"
  unfolding ScanOrphans_def
  by (intro tidy_takes_case [OF takes_orphan_queue] gives_back_bind gives_back_orphan_holds tidy_intro)

lemma tidy_RunSweep_round: "any_close P \<Longrightarrow> tidy P M (RunSweep_round E cx fuel)"
  unfolding RunSweep_round_def by (intro tidy_intro tidy_sweepRetired tidy_ScanOrphans)

lemma tidy_CloseSession: "closes_of i P \<Longrightarrow> tidy P M (CloseSession E i)"
  unfolding CloseSession_def
  by (intro tidy_acquire_case gives_back_body tidy_closeWithToken tidy_intro) simp

lemma tidy_close_targets: "any_close P \<Longrightarrow> tidy P M (close_targets E ts c)"
proof (induction ts arbitrary: c)
  case (Cons t ts)
  then show ?case unfolding close_targets.simps close_target_def
    by (intro tidy_bind tidy_acquire_case gives_back_body tidy_closeWithToken tidy_intro Cons.IH)
      (auto simp: any_close_def)
qed (simp add: tidy_intro)

lemma tidy_take_targets [tidy_intro]: "tidy P M (take_targets E)"
  unfolding take_targets_def by (intro tidy_intro)

lemma tidy_CloseAll: "any_close P \<Longrightarrow> tidy P M (CloseAll E)"
  unfolding CloseAll_def by (intro tidy_intro tidy_close_targets)

lemma tidy_closes_within: "any_close P \<Longrightarrow> tidy P M (closes_within E deadline per ts c)"
proof (induction ts arbitrary: c)
  case (Cons t ts)
  then have "tidy P M (close_within E w t c)" for w c
    unfolding close_within_def Let_def
    by (intro tidy_acquire_case gives_back_body tidy_closeWithToken tidy_intro) (auto simp: any_close_def)
  with Cons show ?case unfolding closes_within.simps by (intro tidy_intro)
qed (simp add: tidy_intro)

lemma tidy_CloseAllWithin: "any_close P \<Longrightarrow> tidy P M (CloseAllWithin E deadline per)"
  unfolding CloseAllWithin_def by (intro tidy_intro tidy_closes_within)

definition any_open :: "(call \<Rightarrow> bool) \<Rightarrow> bool" where
  "any_open P \<longleftrightarrow> (\<forall>d. opens_for d P)"

lemma tidy_acquire_held: "M \<noteq> [] \<Longrightarrow> any_open P \<Longrightarrow> tidy P M (acquire_held E modelID keyID d tok)"
  unfolding acquire_held_def acquire_open_def try_pooled_def scan_refusal_def Let_def
  by (intro tidy_openAvoidingCooling tidy_intro) (auto simp: any_open_def)

lemma tidy_duration [tidy_intro]: "tidy P M (duration_or_default E asked)"
  unfolding duration_or_default_def by (intro tidy_intro)

lemma tidy_AcquireCtx: "any_open P \<Longrightarrow> tidy P M (AcquireCtx E modelID keyID asked)"
  unfolding AcquireCtx_def try_pooled_def
  by (intro tidy_acquire_case gives_back_body tidy_acquire_held tidy_intro) simp

lemma tidy_ReleaseModel: "tidy P M (ReleaseModel E modelID keyID)"
  unfolding ReleaseModel_def by (intro tidy_intro)

lemma tidy_failoverOpen:
  assumes "\<And>(t :: slot_token) op. tidy P (tok_id t # M) (f op)"
  shows "tidy P M (failoverOpen E keyID modelID f)"
  unfolding failoverOpen_def
  by (intro tidy_acquire_case gives_back_bind [where f = "clock E"] gives_back_body tidy_intro) (rule assms)

lemma tidy_closeBounded: "closes_of i P \<Longrightarrow> tidy P M (closeBounded E i)"
  unfolding closeBounded_def
  by (intro tidy_acquire_case gives_back_body tidy_closeWithToken tidy_intro) simp

lemma tidy_sessionProvider [tidy_intro]: "tidy P M (sessionProvider E modelID i)"
  unfolding sessionProvider_def by (intro tidy_intro)

lemma tidy_finish [tidy_intro]: "tidy P M (finishFailoverOpen E key keyID got d res)"
  unfolding finishFailoverOpen_def by (intro tidy_intro)

lemma tidy_FailoverCtx:
  "any_open P \<Longrightarrow> closes_of failedID P \<Longrightarrow> tidy P M (FailoverCtx E modelID failedID keyID asked reopen)"
  unfolding FailoverCtx_def failover_again_def failover_away_def failover_swap_def failover_close_def Let_def
  by (intro tidy_failoverOpen tidy_openExcluding tidy_openAvoidingCooling tidy_closeBounded tidy_intro)
    (auto simp: any_open_def)

end
