(* ===== verification/Sweep_Props.thy ===== *)
theory Sweep_Props
  imports Close_Props Handlers
begin

section \<open>One failing close ends a sweep of retired sessions\<close>

text \<open>
  How many closes a pass of \<open>sweepRetired\<close> sends, for every router and interleaving.
\<close>

lemma quiet_close_notes [quiet_intro]:
  "quiet (with_log E f)" "quiet (notifyClosed E i)" "quiet (emitRescan E src reason i res)"
  unfolding with_log_def notifyClosed_def emitRescan_def by (intro quiet_intro)+

lemma quiet_after_close [quiet_intro]: "quiet (after_close E tok i reason src answer)"
  unfolding after_close_def close_done_def by (intro quiet_intro)

text \<open>One close sends at most one call, and exactly one when it lands.\<close>

lemma closeWithToken_posts:
  assumes "run_state (closeWithToken E tok i reason src per) s = ((out, err), s')"
  shows "\<exists>cs. sy_calls s' = sy_calls s @ cs \<and> (cs = [] \<and> \<not> landed out \<or> (\<exists>r. cs = [CloseCall i r]))"
proof -
  from assms obtain h s1 where h: "run_state (with_slot E (\<lambda>t sl. (slot_holds sl (Some tok), sl))) s = (h, s1)"
    and r: "run_state (if \<not> h then ret (CloseFailed, Some (Inl SlotBusy))
      else do {
        _ \<leftarrow> mu_do E (\<lambda>t. mark_closing i zero_time);
        left \<leftarrow> call_time E tok (if per \<le> 0 then closeCallTimeout else per);
        answer \<leftarrow> post_close E i left;
        after_close E tok i reason src answer }) s1 = ((out, err), s')"
    unfolding closeWithToken_def by (elim run_bindE)
  note q = quietD [OF quiet_sections(5) h]
  show ?thesis
  proof (cases h)
    case False
    with r q show ?thesis by (intro exI [of _ "[]"]) (simp add: landed_def)
  next
    case True
    with r q show ?thesis
      by (auto elim!: run_bindE dest!: quietD [OF quiet_sections(1)] quietD [OF quiet_slot(4)] run_post_close
          quietD [OF quiet_after_close])
  qed
qed

lemma closeWithToken_calls:
  assumes "run_state (closeWithToken E tok i reason src per) s = ((out, err), s')"
  shows "\<exists>cs. sy_calls s' = sy_calls s @ cs \<and> length cs \<le> 1 \<and> (landed out \<longrightarrow> length cs = 1)"
  using closeWithToken_posts [OF assms] by force

lemma sweep_close_calls:
  assumes "run_state (sweep_close E tok i ends) s = (out, s')"
  shows "\<exists>cs. sy_calls s' = sy_calls s @ cs \<and> length cs \<le> 1 \<and> (landed out \<longrightarrow> length cs = 1)"
  using assms unfolding sweep_close_def
  by (auto elim!: run_bindE dest!: quietD [OF quiet_sections(3)] quietD [OF quiet_sections(2)] closeWithToken_calls)

definition sweep_count :: "nat \<Rightarrow> nat option \<Rightarrow> 'w sys \<Rightarrow> 'w sys \<Rightarrow> bool" where
  "sweep_count n r s s' \<longleftrightarrow> (\<exists>cs. sy_calls s' = sy_calls s @ cs \<and>
     (\<forall>k. r = Some k \<longrightarrow> n \<le> k \<and> k \<le> n + length cs \<and> n + length cs \<le> Suc k))"

definition counted :: "nat \<Rightarrow> ('w, nat option) act \<Rightarrow> bool" where
  "counted n f \<longleftrightarrow> (\<forall>s r s'. run_state f s = (r, s') \<longrightarrow> sweep_count n r s s')"

named_theorems counted_intro \<open>computations whose closes are counted\<close>

lemma counted_ret [counted_intro]: "counted n (ret (Some n))" "counted n (ret None)"
  by (simp_all add: counted_def sweep_count_def)

lemma counted_quiet:
  assumes "quiet f" and "\<And>a. counted n (g a)"
  shows "counted n (f \<bind> g)"
  unfolding counted_def
proof (intro allI impI, elim run_bindE)
  fix s r s' a s1
  assume 1: "run_state f s = (a, s1)" and 2: "run_state (g a) s1 = (r, s')"
  from assms(2) 2 have "sweep_count n r s1 s'" by (simp add: counted_def)
  with quietD [OF assms(1) 1] show "sweep_count n r s s'" by (simp add: sweep_count_def)
qed

lemma counted_if [counted_intro]: "counted n f \<Longrightarrow> counted n g \<Longrightarrow> counted n (if b then f else g)"
  by simp

lemma counted_option [counted_intro]:
  "counted n f \<Longrightarrow> (\<And>x. counted n (g x)) \<Longrightarrow> counted n (case r of None \<Rightarrow> f | Some x \<Rightarrow> g x)"
  by (cases r) simp_all

lemma counted_hold [counted_intro]:
  "counted n f \<Longrightarrow> (\<And>t b. counted n (g t b)) \<Longrightarrow> counted n (case h of NoHold \<Rightarrow> f | Hold t b \<Rightarrow> g t b)"
  by (cases h) simp_all

text \<open>A close that lands counts for the rest; one that does not must be the last.\<close>

lemma counted_close:
  assumes land: "\<And>out. landed out \<Longrightarrow> counted (Suc n) (g out)"
    and fail: "\<And>out. \<not> landed out \<Longrightarrow> \<exists>f. quiet f \<and> g out = f \<bind> (\<lambda>_ :: unit. ret (Some n))"
  shows "counted n (sweep_close E tok i ends \<bind> g)"
  unfolding counted_def
proof (intro allI impI, elim run_bindE)
  fix s r s' out s1
  assume 1: "run_state (sweep_close E tok i ends) s = (out, s1)" and 2: "run_state (g out) s1 = (r, s')"
  from sweep_close_calls [OF 1] obtain cs where cs: "sy_calls s1 = sy_calls s @ cs" "length cs \<le> 1"
    "landed out \<longrightarrow> length cs = 1" by blast
  show "sweep_count n r s s'"
  proof (cases "landed out")
    case True
    with land 2 have "sweep_count (Suc n) r s1 s'" by (simp add: counted_def)
    then obtain ds where "sy_calls s' = sy_calls s1 @ ds"
      "\<forall>k. r = Some k \<longrightarrow> Suc n \<le> k \<and> k \<le> Suc n + length ds \<and> Suc n + length ds \<le> Suc k"
      unfolding sweep_count_def by blast
    with cs True show ?thesis unfolding sweep_count_def by (intro exI [of _ "cs @ ds"]) auto
  next
    case False
    from fail [OF False] obtain f where f: "quiet f" "g out = f \<bind> (\<lambda>_ :: unit. ret (Some n))" by blast
    with 2 have "sy_calls s' = sy_calls s1" "r = Some n" by (auto elim!: run_bindE dest: quietD)
    with cs show ?thesis unfolding sweep_count_def by (intro exI [of _ cs]) auto
  qed
qed

lemma quiet_sweep_hold [quiet_intro]: "quiet (sweep_hold E cx)"
  unfolding sweep_hold_def Let_def by (intro quiet_intro)

lemma counted_sweepRetired: "counted n (sweepRetired E cx grace idle fuel n)"
proof (induction fuel arbitrary: n)
  case 0
  show ?case by (simp add: counted_intro)
next
  case (Suc fuel)
  have close: "counted n (sweep_close E tok i ends \<bind> (\<lambda>out. slot_release_act E tok \<bind> (\<lambda>_.
      if landed out then if forced then ret (Some (Suc n)) else sweepRetired E cx grace idle fuel (Suc n)
      else mu_do E (\<lambda>t m. sweep_close_failed t i m) \<bind> (\<lambda>_. ret (Some n)))))" for tok i ends forced
  proof (rule counted_close)
    fix out assume "landed out"
    then show "counted (Suc n) (slot_release_act E tok \<bind> (\<lambda>_. if landed out
        then if forced then ret (Some (Suc n)) else sweepRetired E cx grace idle fuel (Suc n)
        else mu_do E (\<lambda>t m. sweep_close_failed t i m) \<bind> (\<lambda>_. ret (Some n))))"
      by (auto intro!: counted_quiet quiet_intro counted_intro Suc.IH)
  next
    fix out assume "\<not> landed out"
    then show "\<exists>f. quiet f \<and> slot_release_act E tok \<bind> (\<lambda>_. if landed out
        then if forced then ret (Some (Suc n)) else sweepRetired E cx grace idle fuel (Suc n)
        else mu_do E (\<lambda>t m. sweep_close_failed t i m) \<bind> (\<lambda>_. ret (Some n))) = f \<bind> (\<lambda>_ :: unit. ret (Some n))"
      by (intro exI [of _ "slot_release_act E tok \<bind> (\<lambda>_. mu_do E (\<lambda>t m. sweep_close_failed t i m))"] conjI
          quiet_intro) simp
  qed
  show ?case unfolding sweepRetired.simps
    by (intro close counted_intro counted_quiet quiet_intro Suc.IH)
qed

text \<open>
  A pass of \<open>sweepRetired\<close> that reports \<open>k\<close> sessions closed sent at least \<open>k\<close> closes and at most one
  more: a close that fails ends the pass, so a router that cannot close is asked once per pass. All
  of them are closes, made by a goroutine that holds the wallet slot, which is free again after.
\<close>

theorem sweepRetired_stops:
  "(let s' = snd (run_state (sweepRetired E cx grace idle fuel 0) s) in
    \<exists>cs. sy_calls s' = sy_calls s @ cs \<and> list_all (\<lambda>c. \<exists>i r. c = CloseCall i r) cs \<and>
      sy_mine s' = sy_mine s \<and> sy_bare s' = sy_bare s \<and>
      (case fst (run_state (sweepRetired E cx grace idle fuel 0) s) of
         None \<Rightarrow> True | Some k \<Rightarrow> k \<le> length cs \<and> length cs \<le> Suc k))"
proof -
  let ?f = "sweepRetired E cx grace idle fuel 0"
  obtain r s' where run: "run_state ?f s = (r, s')" by (metis surj_pair)
  have "tidy (\<lambda>c. \<exists>i r. c = CloseCall i r) (sy_mine s) ?f"
    by (rule tidy_sweepRetired) (simp add: any_close_def closes_of_def)
  from tidyD [OF this run refl] obtain cs where cs: "sy_calls s' = sy_calls s @ cs"
    "list_all (\<lambda>c. \<exists>i r. c = CloseCall i r) cs" "sy_mine s' = sy_mine s" "sy_bare s' = sy_bare s"
    by (auto simp: grows_def)
  from counted_sweepRetired [of 0 E cx grace idle fuel] run have "sweep_count 0 r s s'" by (simp add: counted_def)
  with cs show ?thesis by (auto simp: run sweep_count_def split: option.split)
qed

end
