(* ===== verification/Silent.thy ===== *)
theory Silent
  imports Acquire
begin

section \<open>Steps that send nothing, under an invariant of the pool\<close>

text \<open>
  \<open>mute J Q f\<close>: started in a pool of \<open>J\<close>, with other goroutines that keep \<open>J\<close> (\<open>env_keeps\<close>), \<open>f\<close> ends in
  a pool of \<open>J\<close> with a result of \<open>Q\<close> and sends no call that moves stake. The locales collect what an
  invariant has to survive for the steps of an acquisition to be mute.
\<close>

subsection \<open>The judgement\<close>

definition env_keeps :: "'w env \<Rightarrow> (pool \<Rightarrow> bool) \<Rightarrow> bool" where
  "env_keeps E J \<longleftrightarrow> (\<forall>p w. J p \<longrightarrow> J (fst (en_others E p w)) \<and> (\<forall>n. J (fst (snd (en_wait E n p w)))) \<and>
     J (fst (snd (en_gate E p w))))"

definition mute :: "(pool \<Rightarrow> bool) \<Rightarrow> ('a \<Rightarrow> bool) \<Rightarrow> ('w, 'a) act \<Rightarrow> bool" where
  "mute J Q f \<longleftrightarrow> (\<forall>s r s'. J (sy_pool s) \<longrightarrow> run_state f s = (r, s') \<longrightarrow>
     J (sy_pool s') \<and> Q r \<and> sy_calls s' = sy_calls s)"

named_theorems mute_intro \<open>steps that keep an invariant of the pool and send nothing\<close>

lemma muteI:
  "(\<And>s r s'. J (sy_pool s) \<Longrightarrow> run_state f s = (r, s') \<Longrightarrow> J (sy_pool s') \<and> Q r \<and> sy_calls s' = sy_calls s) \<Longrightarrow>
   mute J Q f"
  unfolding mute_def by blast

lemma muteD:
  "mute J Q f \<Longrightarrow> J (sy_pool s) \<Longrightarrow> run_state f s = (r, s') \<Longrightarrow> J (sy_pool s') \<and> Q r \<and> sy_calls s' = sy_calls s"
  unfolding mute_def by blast

abbreviation silent :: "(pool \<Rightarrow> bool) \<Rightarrow> ('w, 'a) act \<Rightarrow> bool" where
  "silent J f \<equiv> mute J (\<lambda>_. True) f"

lemma mute_ret: "Q a \<Longrightarrow> mute J Q (ret a)"
  by (simp add: mute_def)

lemma mute_bind:
  assumes f: "mute J Q f" and g: "\<And>a. Q a \<Longrightarrow> mute J R (g a)"
  shows "mute J R (f \<bind> g)"
proof (rule muteI, elim run_bindE)
  fix s r s' a s1
  assume J: "J (sy_pool s)" and 1: "run_state f s = (a, s1)" and 2: "run_state (g a) s1 = (r, s')"
  from muteD [OF f J 1] muteD [OF g _ 2] show "J (sy_pool s') \<and> R r \<and> sy_calls s' = sy_calls s" by simp
qed

lemma mute_if: "mute J Q f \<Longrightarrow> mute J Q g \<Longrightarrow> mute J Q (if b then f else g)"
  by simp

lemma mute_option:
  "(r = None \<Longrightarrow> mute J Q f) \<Longrightarrow> (\<And>x. r = Some x \<Longrightarrow> mute J Q (g x)) \<Longrightarrow>
   mute J Q (case r of None \<Rightarrow> f | Some x \<Rightarrow> g x)"
  by (cases r) simp_all

lemma mute_sum:
  "(\<And>x. r = Inl x \<Longrightarrow> mute J Q (f x)) \<Longrightarrow> (\<And>x. r = Inr x \<Longrightarrow> mute J Q (g x)) \<Longrightarrow>
   mute J Q (case r of Inl x \<Rightarrow> f x | Inr x \<Rightarrow> g x)"
  by (cases r) simp_all

lemma mute_prod: "(\<And>x y. mute J Q (f x y)) \<Longrightarrow> mute J Q (case r of (x, y) \<Rightarrow> f x y)"
  by (cases r) simp

lemma mute_on_pool:
  assumes "env_keeps E J" and "\<And>t p. J p \<Longrightarrow> J (snd (f t p)) \<and> Q (fst (f t p))"
  shows "mute J Q (on_pool E f)"
proof (rule muteI)
  fix s r s' assume J: "J (sy_pool s)" and run: "run_state (on_pool E f) s = (r, s')"
  let ?o = "en_others E (sy_pool s) (sy_world s)"
  from J assms(1) have "J (fst ?o)" by (simp add: env_keeps_def)
  from assms(2) [OF this, of "en_now E (snd ?o)"] run show "J (sy_pool s') \<and> Q r \<and> sy_calls s' = sy_calls s"
    by (auto simp: on_pool_def others_def State_Monad.bind_def split: prod.splits)
qed

lemma mute_ask:
  assumes "env_keeps E J" and "\<And>w. Q (fst (f w))"
  shows "mute J Q (ask E f)"
proof (rule muteI)
  fix s r s' assume J: "J (sy_pool s)" and run: "run_state (ask E f) s = (r, s')"
  let ?o = "en_others E (sy_pool s) (sy_world s)"
  from J assms(1) have "J (fst ?o)" by (simp add: env_keeps_def)
  with assms(2) [of "snd ?o"] run show "J (sy_pool s') \<and> Q r \<and> sy_calls s' = sy_calls s"
    by (auto simp: ask_def in_world_def others_def State_Monad.bind_def split: prod.splits)
qed

lemma mute_waits:
  assumes E: "env_keeps E J"
  shows "mute J (\<lambda>_. True) (State (\<lambda>s. case en_wait E n (sy_pool s) (sy_world s) of (e, p, w) \<Rightarrow>
      (e, s\<lparr>sy_pool := p, sy_world := w\<rparr>)))"
    "mute J (\<lambda>_. True) (State (\<lambda>s. case en_gate E (sy_pool s) (sy_world s) of (e, p, w) \<Rightarrow>
      (e, s\<lparr>sy_pool := p, sy_world := w\<rparr>)))"
  using E unfolding env_keeps_def mute_def by (auto split: prod.splits) (metis fst_conv snd_conv)+

lemma mute_took: "mute J (\<lambda>_. True) (took t)"
  by (simp add: mute_def took_def)

lemma mute_weaken: "mute J Q f \<Longrightarrow> (\<And>a. Q a \<Longrightarrow> R a) \<Longrightarrow> mute J R f"
  unfolding mute_def by blast

lemma mute_get:
  assumes "env_keeps E J"
  shows "(\<And>t p. J p \<Longrightarrow> Q (f t (plMu p))) \<Longrightarrow> mute J Q (mu_get E f)"
    "(\<And>t p. J p \<Longrightarrow> Q (g t (plFmu p))) \<Longrightarrow> mute J Q (fmu_get E g)"
    "(\<And>t p. J p \<Longrightarrow> Q (h t (plAtoms p))) \<Longrightarrow> mute J Q (atoms_get E h)"
  unfolding with_mu_def with_fmu_def with_atoms_def by (rule mute_on_pool [OF assms], simp)+

lemma mute_reads:
  assumes "env_keeps E J"
  shows "silent J (clock E)" "silent J (check_ctx E cx)" "silent J (slot_left E tok)"
    "silent J (call_time E tok per)" "silent J (gateClosed E)" "silent J (wait_gate E cx)"
  unfolding clock_def check_ctx_def slot_left_def call_time_def gateClosed_def wait_gate_def
  by (intro mute_bind mute_if mute_ret mute_ask mute_waits mute_get assms TrueI
      mute_bind [OF mute_ask [where Q = "\<lambda>_. True"]] mute_bind [OF mute_get(1) [where Q = "\<lambda>_. True"]]
      mute_bind [OF mute_waits(2)])+

text \<open>
  The critical sections an acquire runs before it opens, as an interface: an invariant of the pool
  that each of them keeps. \<open>wallet_frame\<close> is enough up to the wallet listing, \<open>scan_frame\<close> for a whole
  scan.
\<close>

locale wallet_frame =
  fixes J :: "pool \<Rightarrow> bool"
  assumes keeps_pooled: "J p \<Longrightarrow> J (p\<lparr>plMu := snd (tryPooledLocked t key k (plMu p))\<rparr>)"
    and keeps_addr: "J p \<Longrightarrow> J (p\<lparr>plMu := (plMu p)\<lparr>mWalletAddr := a\<rparr>\<rparr>)"
    and keeps_chain: "J p \<Longrightarrow> J (p\<lparr>plChain := v\<rparr>)"
    and keeps_slot: "J p \<Longrightarrow> J (p\<lparr>plSlot := sl\<rparr>)"
begin

lemma silent_pooled: "env_keeps E J \<Longrightarrow> silent J (try_pooled E key k)"
  unfolding try_pooled_def with_mu_def
proof (erule mute_on_pool)
  fix t p assume "J p"
  from keeps_pooled [OF this, of t key k]
  show "J (snd (case tryPooledLocked t key k (plMu p) of (a, m) \<Rightarrow> (a, p\<lparr>plMu := m\<rparr>))) \<and> True"
    by (cases "tryPooledLocked t key k (plMu p)") simp
qed

lemma silent_chain: "env_keeps E J \<Longrightarrow> silent J (with_chain E f)"
  unfolding with_chain_def by (rule mute_on_pool) (auto simp: keeps_chain split: prod.splits)

lemma silent_slot: "env_keeps E J \<Longrightarrow> silent J (with_slot E f)"
  unfolding with_slot_def by (rule mute_on_pool) (auto simp: keeps_slot split: prod.splits)

lemma silent_lock: "env_keeps E J \<Longrightarrow> silent J (open_lock E key)"
  by (auto simp: mute_def open_lock_def others_def env_keeps_def split: prod.splits)
    (metis fst_conv)

lemma silent_acquire:
  assumes E: "env_keeps E J" shows "silent J (slot_acquire_act E cx key)"
proof -
  have enter: "silent J (case r of EnterErr e \<Rightarrow> f e | EnterTok t \<Rightarrow> g t | EnterWait n \<Rightarrow> h n)"
    if "\<And>e. silent J (f e)" "\<And>t. silent J (g t)" "\<And>n. silent J (h n)" for r and f g h
    using that by (cases r) simp_all
  show ?thesis unfolding slot_acquire_act_def
    by (rule mute_bind [OF mute_reads(2) [OF E]], rule mute_bind [OF silent_slot [OF E]], rule enter)
      (intro mute_ret TrueI mute_option mute_bind [OF mute_took] mute_bind [OF mute_waits(1) [OF E]]
        mute_bind [OF silent_slot [OF E]])+
qed

lemma silent_release: "env_keeps E J \<Longrightarrow> silent J (slot_release_act E tok)"
  unfolding slot_release_act_def
  by (rule mute_bind [OF silent_slot], assumption) (simp add: mute_def)

lemma silent_readOpen:
  assumes E: "env_keeps E J" and mk: "silent J mk" and rows: "\<And>a l w. Q (fst (en_list E a l w))"
    and none: "\<And>e. R (Inl e)" and some: "\<And>x a. Q (Inr x) \<Longrightarrow> R (Inr (x, a))"
  shows "mute J R (readOpen E mk)"
proof -
  have addr: "silent J (mu_do E (\<lambda>t m. m\<lparr>mWalletAddr := a\<rparr>))" for a
    unfolding with_mu_def by (rule mute_on_pool [OF E]) (simp add: keeps_addr)
  have "silent J (mu_get E (\<lambda>t m. mWalletAddr m))" by (rule mute_get [OF E]) simp
  then show ?thesis unfolding readOpen_def
  proof (rule mute_bind)
    fix addr0 :: string
    have "silent J (if addr0 \<noteq> [] then ret (Inr addr0)
        else do { left \<leftarrow> mk; r \<leftarrow> ask E (en_wallet E left);
          (case r of Inl e \<Rightarrow> ret (Inl e)
           | Inr a \<Rightarrow> do { _ \<leftarrow> mu_do E (\<lambda>t m. m\<lparr>mWalletAddr := a\<rparr>); ret (Inr a) }) })"
      by (intro mute_if mute_ret TrueI mute_bind [OF mk] mute_bind [OF mute_ask [OF E, where Q = "\<lambda>_. True"]]
          mute_sum mute_bind [OF addr])
    then show "mute J R (do { got \<leftarrow> (if addr0 \<noteq> [] then ret (Inr addr0)
        else do { left \<leftarrow> mk; r \<leftarrow> ask E (en_wallet E left);
          (case r of Inl e \<Rightarrow> ret (Inl e)
           | Inr a \<Rightarrow> do { _ \<leftarrow> mu_do E (\<lambda>t m. m\<lparr>mWalletAddr := a\<rparr>); ret (Inr a) }) });
        (case got of Inl e \<Rightarrow> ret (Inl e)
         | Inr a \<Rightarrow> do { left \<leftarrow> mk; r \<leftarrow> ask E (en_list E a left);
             ret (case r of Inl e \<Rightarrow> Inl e | Inr open_s \<Rightarrow> Inr (open_s, a)) }) })"
      by (rule mute_bind)
        (intro mute_sum mute_ret none mute_bind [OF mk] mute_bind [OF mute_ask [OF E, where Q = Q]] rows,
         auto split: sum.split intro: none some)
  qed
qed

end

locale scan_frame = wallet_frame +
  assumes keeps_scan: "J p \<Longrightarrow> J (p\<lparr>plMu := snd (applyScan t t0 mode ex ret_ids rows (plMu p))\<rparr>)"
    and keeps_forget: "J p \<Longrightarrow> J (p\<lparr>plMu := forget i (plMu p)\<rparr>)"
    and keeps_log: "J p \<Longrightarrow> J (p\<lparr>plLog := l\<rparr>)"
    and keeps_known: "J p \<Longrightarrow> J (p\<lparr>plAtoms := (plAtoms p)\<lparr>paStateKnown := True\<rparr>\<rparr>)"
begin

lemma silent_notify: "env_keeps E J \<Longrightarrow> silent J (notifyClosed E i)"
  unfolding notifyClosed_def with_mu_def with_log_def
  by (intro mute_bind mute_if mute_ret TrueI mute_on_pool) (simp_all add: keeps_forget keeps_log)

lemma silent_each: "(\<And>x. silent J (f x)) \<Longrightarrow> silent J (each f xs)"
  by (induction xs) (auto intro: mute_ret mute_bind)

lemma silent_scan:
  assumes E: "env_keeps E J" shows "silent J (scan E tok mode)"
proof -
  have mk: "silent J (case tok of Some t \<Rightarrow> call_time E t readCallTimeout | None \<Rightarrow> ret adminTimeout)"
    by (cases tok) (simp_all add: mute_ret mute_reads [OF E])
  have ap: "silent J (with_mu E (\<lambda>t m. case applyScan t t0 mode ex re rows m of ((out, rows), m') \<Rightarrow> ((out, rows, t), m')))"
    for t0 ex re rows unfolding with_mu_def
  proof (rule mute_on_pool [OF E])
    fix t p assume "J p"
    from keeps_scan [OF this, of t t0 mode ex re rows]
    show "J (snd (case (case applyScan t t0 mode ex re rows (plMu p) of ((out, rows), m') \<Rightarrow> ((out, rows, t), m')) of
        (a, m) \<Rightarrow> (a, p\<lparr>plMu := m\<rparr>))) \<and> True"
      by (cases "applyScan t t0 mode ex re rows (plMu p)") (auto split: prod.split)
  qed
  have known: "silent J (with_atoms E (\<lambda>t a. ((), a\<lparr>paStateKnown := True\<rparr>)))"
    unfolding with_atoms_def by (rule mute_on_pool [OF E]) (simp add: keeps_known)
  have f: "silent J (fmu_get E (\<lambda>t f. excludedProviders f))" "silent J (fmu_get E (\<lambda>t f. retiredSet f))"
    by (rule mute_get [OF E], simp)+
  show ?thesis unfolding scan_def
    by (rule mute_bind [OF mute_reads(1) [OF E]],
        rule mute_bind [OF silent_readOpen [OF E mk, where Q = "\<lambda>_. True" and R = "\<lambda>_. True"]])
      (intro TrueI mute_sum mute_prod mute_ret mute_bind [OF silent_chain [OF E]] mute_bind [OF f(1)]
        mute_bind [OF f(2)] mute_bind [OF ap] mute_bind [OF silent_each [OF silent_notify [OF E]]] mute_bind [OF known])+
qed

end

end
