(* ===== verification/Acquire_Props.thy ===== *)
theory Acquire_Props
  imports Handlers Silent
begin

section \<open>What an acquire promises\<close>

text \<open>
  The wallet-slot discipline of the handlers, and three promises of \<open>AcquireCtx\<close>: no second session
  at risk, no session longer than the configured maximum, and no open at all while the wallet's
  sessions have not been listed since boot.
\<close>

subsection \<open>The wallet slot\<close>

definition is_open :: "call \<Rightarrow> bool" where
  "is_open c \<longleftrightarrow> (case c of OpenCall bid d rej r \<Rightarrow> True | CloseCall i r \<Rightarrow> False)"

definition is_close_of :: "string set \<Rightarrow> call \<Rightarrow> bool" where
  "is_close_of I c \<longleftrightarrow> (case c of OpenCall bid d rej r \<Rightarrow> False | CloseCall i r \<Rightarrow> i \<in> I)"

definition disciplined :: "(call \<Rightarrow> bool) \<Rightarrow> ('w, 'a) act \<Rightarrow> 'w sys \<Rightarrow> bool" where
  "disciplined P f s \<longleftrightarrow> (let s' = snd (run_state f s) in
     sy_mine s' = sy_mine s \<and> sy_bare s' = sy_bare s \<and> (\<exists>cs. sy_calls s' = sy_calls s @ cs \<and> list_all P cs))"

lemma disciplinedI: "(\<And>M. tidy P M f) \<Longrightarrow> disciplined P f s"
  unfolding disciplined_def Let_def by (metis grows_def prod.collapse tidyD)

lemma is_open_any: "any_open is_open"
  by (simp add: any_open_def opens_for_def is_open_def)

lemma is_close_any: "any_close (is_close_of UNIV)"
  by (simp add: any_close_def closes_of_def is_close_of_def)

text \<open>
  C12: a request makes its wallet calls one at a time under the wallet slot. Whatever the router
  answers and whatever runs beside it, an acquire only opens, a failover only opens and closes the
  session that failed, each call is made while the handler holds the slot, and when the handler
  ends, on any path, it has given back every token it took.
\<close>

theorem requests_hold_slot:
  "disciplined is_open (AcquireCtx E modelID keyID asked) s \<and>
   disciplined (\<lambda>c. is_open c \<or> is_close_of {failedID} c) (FailoverCtx E modelID failedID keyID asked reopen) s \<and>
   disciplined (\<lambda>c. False) (ReleaseModel E modelID keyID) s"
proof (rule conjI [OF disciplinedI conjI [OF disciplinedI disciplinedI]])
  show "tidy is_open M (AcquireCtx E modelID keyID asked)" for M
    by (rule tidy_AcquireCtx [OF is_open_any])
  show "tidy (\<lambda>c. is_open c \<or> is_close_of {failedID} c) M (FailoverCtx E modelID failedID keyID asked reopen)" for M
    by (rule tidy_FailoverCtx)
      (simp_all add: any_open_def opens_for_def closes_of_def is_open_def is_close_of_def)
  show "tidy (\<lambda>c. False) M (ReleaseModel E modelID keyID)" for M
    by (rule tidy_ReleaseModel)
qed

text \<open>
  The sweep, the administrator's closes and the shutdown never open. Each close is made while
  holding the wallet slot, the slot is given back on every path, \<open>CloseSession\<close> closes the session it
  was asked to close only, and a status poll sends nothing.
\<close>

theorem closers_hold_slot:
  "disciplined (is_close_of UNIV) (RunSweep_round E cx fuel) s \<and>
   disciplined (is_close_of {i}) (CloseSession E i) s \<and>
   disciplined (is_close_of UNIV) (CloseAll E) s \<and>
   disciplined (is_close_of UNIV) (CloseAllWithin E deadline per) s \<and>
   disciplined (\<lambda>c. False) (rehydrate E force) s"
proof (rule conjI [OF disciplinedI conjI [OF disciplinedI conjI [OF disciplinedI conjI [OF disciplinedI disciplinedI]]]])
  show "tidy (is_close_of UNIV) M (RunSweep_round E cx fuel)" for M
    by (rule tidy_RunSweep_round [OF is_close_any])
  show "tidy (is_close_of {i}) M (CloseSession E i)" for M
    by (rule tidy_CloseSession) (simp add: closes_of_def is_close_of_def)
  show "tidy (is_close_of UNIV) M (CloseAll E)" for M
    by (rule tidy_CloseAll [OF is_close_any])
  show "tidy (is_close_of UNIV) M (CloseAllWithin E deadline per)" for M
    by (rule tidy_CloseAllWithin [OF is_close_any])
  show "tidy (\<lambda>c. False) M (rehydrate E force)" for M
    by (rule tidy_rehydrate)
qed

subsection \<open>No open while the wallet is unlisted\<close>

definition unlisted :: "pool \<Rightarrow> bool" where
  "unlisted p \<longleftrightarrow> paGated (plAtoms p) \<and> \<not> paStateKnown (plAtoms p)"

interpretation unlisted: wallet_frame unlisted
  by unfold_locales (simp_all add: unlisted_def)

definition refused_unlisted :: "acquired \<Rightarrow> bool" where
  "refused_unlisted r = (case r of
     Inl e \<Rightarrow> e = SessionStateUnknown \<or> e = errOpenBusyRefusal \<or> (\<exists>c. e = RequestEnded c)
   | Inr (l, a) \<Rightarrow> \<not> ar_Opened a)"

lemma refused_simps [simp]:
  "refused_unlisted (from_pool l d)" "refused_unlisted (Inl (RequestEnded c))" "refused_unlisted (Inl (slot_refusal e))"
  by (auto simp: refused_unlisted_def from_pool_def slot_refusal_def split: slot_err.split)

lemma unlisted_held:
  assumes E: "env_keeps E unlisted" and rows: "\<And>a l w. isl (fst (en_list E a l w))"
  shows "mute unlisted refused_unlisted (acquire_held E modelID keyID d tok)"
proof -
  have scan: "mute unlisted isl (scan E (Some tok) ScanAdoptOnly)" unfolding scan_def
  proof (rule mute_bind [OF mute_reads(1) [OF E]])
    fix t0
    have "mute unlisted isl (readOpen E (case Some tok of Some t \<Rightarrow> call_time E t readCallTimeout | None \<Rightarrow> ret adminTimeout))"
      by (rule unlisted.silent_readOpen [OF E, where Q = isl]) (simp_all add: rows mute_reads [OF E])
    then show "mute unlisted isl (do {
        r \<leftarrow> readOpen E (case Some tok of Some t \<Rightarrow> call_time E t readCallTimeout | None \<Rightarrow> ret adminTimeout);
        (case r of
           Inl e \<Rightarrow> do { _ \<leftarrow> with_chain E (\<lambda>t v. ((), v\<lparr>cvErr := en_text E e\<rparr>)); ret (Inl e) }
         | Inr (open_s, addr) \<Rightarrow> do {
             excluded \<leftarrow> fmu_get E (\<lambda>t f. excludedProviders f);
             retired \<leftarrow> fmu_get E (\<lambda>t f. retiredSet f);
             got \<leftarrow> with_mu E (\<lambda>t m. case applyScan t t0 ScanAdoptOnly excluded retired open_s m of
                                       ((out, rows), m') \<Rightarrow> ((out, rows, t), m'));
             (case got of (out, rows, now) \<Rightarrow> do {
                _ \<leftarrow> with_chain E (\<lambda>t v. ((), chain_seen now rows v));
                _ \<leftarrow> each (notifyClosed E) (so_closedLate out);
                _ \<leftarrow> with_chain E (\<lambda>t v. ((), v\<lparr>cvErr := []\<rparr>));
                _ \<leftarrow> with_atoms E (\<lambda>t a. ((), a\<lparr>paStateKnown := True\<rparr>));
                ret (Inr out) }) }) })"
      by (rule mute_bind) (auto simp: isl_def intro!: mute_bind [OF unlisted.silent_chain [OF E]] mute_ret)
  qed
  have refuse: "mute unlisted (\<lambda>r. \<exists>e. r = Some e \<and> refused_unlisted (Inl e)) (scan_refusal E sc)" if "isl sc" for sc
  proof -
    have "mute unlisted (\<lambda>b. b) (atoms_get E (\<lambda>t a. paGated a \<and> \<not> paStateKnown a))"
      by (rule mute_get [OF E]) (simp add: unlisted_def)
    with that show ?thesis unfolding scan_refusal_def
      by (cases sc) (auto intro!: mute_bind [OF mute_reads(2) [OF E]] mute_option mute_ret mute_bind
          simp: refused_unlisted_def)
  qed
  show ?thesis unfolding acquire_held_def
    by (rule mute_bind [OF unlisted.silent_pooled [OF E]], rule mute_option, rule mute_bind [OF scan],
        rule mute_bind [OF refuse]) (auto intro: mute_ret)
qed

text \<open>
  While opens are gated and the wallet's sessions have not been listed since boot, an acquire
  whose own listing fails opens nothing: it leases a pooled session, or it is refused
  (\<open>ErrSessionStateUnknown\<close>, the slot busy, or the request's own end). This holds for any interleaving
  that does not itself list the wallet.
\<close>

theorem acquire_unlisted_never_opens:
  assumes E: "env_keeps E unlisted" and rows: "\<And>a l w. isl (fst (en_list E a l w))"
    and s: "unlisted (sy_pool s)" and run: "run_state (AcquireCtx E modelID keyID asked) s = (r, s')"
  shows "sy_calls s' = sy_calls s \<and> refused_unlisted r"
proof -
  have dur: "silent unlisted (duration_or_default E asked)"
    unfolding duration_or_default_def by (intro mute_if mute_ret mute_get [OF E] TrueI)
  have "mute unlisted refused_unlisted (AcquireCtx E modelID keyID asked)"
    unfolding AcquireCtx_def
    by (rule mute_bind [OF dur], rule mute_bind [OF unlisted.silent_pooled [OF E]], rule mute_option,
        rule mute_bind [OF mute_reads(6) [OF E]], rule mute_option, rule mute_bind [OF unlisted.silent_lock [OF E]],
        rule mute_bind [OF unlisted.silent_pooled [OF E]], rule mute_option,
        rule mute_bind [OF unlisted.silent_acquire [OF E]], rule mute_sum)
      (auto intro!: mute_ret mute_bind [OF unlisted_held [OF E rows]] mute_bind [OF unlisted.silent_release [OF E]])
  from muteD [OF this s run] show ?thesis by simp
qed

definition mute_router :: "(rerr + string) list env" where
  "mute_router = script_env\<lparr>en_list := (\<lambda>a l w. (Inl (StatusErr 503 []), w))\<rparr>"

definition gated_pool :: pool where
  "gated_pool = (new_pool 3600 0)\<lparr>plAtoms := (plAtoms (new_pool 3600 0))\<lparr>paGated := True\<rparr>\<rparr>"

lemma acquire_unlisted_never_opens_witness:
  "\<exists>r s'. run_state (AcquireCtx mute_router ''m'' ''k'' 600) (script_sys gated_pool [Inr ''0xs'']) = (r, s') \<and>
     sy_calls s' = [] \<and> refused_unlisted r"
proof -
  let ?s = "script_sys gated_pool [Inr ''0xs'']"
  obtain r s' where e: "run_state (AcquireCtx mute_router ''m'' ''k'' 600) ?s = (r, s')" by (metis surj_pair)
  have "env_keeps mute_router unlisted"
    by (simp add: env_keeps_def mute_router_def script_env_def)
  moreover have "isl (fst (en_list mute_router a l w))" for a l w by (simp add: mute_router_def)
  moreover have "unlisted (sy_pool ?s)"
    by (simp add: script_sys_def gated_pool_def unlisted_def new_pool_def)
  ultimately show ?thesis
    using acquire_unlisted_never_opens [OF _ _ _ e] e by (auto simp: script_sys_def)
qed

subsection \<open>One session at most, no longer than the maximum\<close>

definition max_duration_is :: "int \<Rightarrow> pool \<Rightarrow> bool" where
  "max_duration_is X p \<longleftrightarrow> DurationMax (plMu p) = X"

lemma keeps_durMax [simp]:
  "mDurMax (snd (stateLocked now key e m)) = mDurMax m" "mDurMax (snd (leaseLocked now i k m)) = mDurMax m"
  "mDurMax (newStateLocked now key i a b c m) = mDurMax m" "mDurMax (forget i m) = mDurMax m"
  "mDurMax (resolveAttemptLocked att m) = mDurMax m" "mDurMax (pruneAttemptsLocked now m) = mDurMax m"
  "mDurMax (snd (cutCloseMarkLocked now m)) = mDurMax m"
  by (auto simp: stateLocked_def leaseLocked_def newStateLocked_def forget_def Let_def resolveAttemptLocked_def
      pruneAttemptsLocked_def cutCloseMarkLocked_def split: option.splits prod.splits)

lemma tryPooled_durMax [simp]: "mDurMax (snd (tryPooledLocked now key k m)) = mDurMax m"
proof -
  have "mDurMax m2 = mDurMax m" if "stateLocked now key e m = (st, m1)" "leaseLocked now i k m1 = (l, m2)" for e st m1 i l m2
    using keeps_durMax(1) [of now key e m] keeps_durMax(2) [of now i k m1] that by simp
  moreover have "mDurMax m1 = mDurMax m" if "stateLocked now key e m = (st, m1)" for e st m1
    using keeps_durMax(1) [of now key e m] that by simp
  ultimately show ?thesis by (auto simp: tryPooledLocked_def split: option.splits prod.splits)
qed

lemma scan_row_durMax: "mDurMax (sa_mu (scan_row now ex held x c)) = mDurMax (sa_mu c)"
  by (auto simp: scan_row_def Let_def split: option.splits)

lemma adopt_row_durMax [simp]: "mDurMax (adopt_row now x m) = mDurMax m"
  by (simp add: adopt_row_def Let_def)

lemma group_durMax:
  "mDurMax (sa_mu (matched_group now g c)) = mDurMax (sa_mu c)" "mDurMax (sa_mu (older_group now g c)) = mDurMax (sa_mu c)"
  by (auto simp: matched_group_def older_group_def Let_def add_dups_def split: prod.splits)

lemma fold_durMax:
  "(\<And>x c. mDurMax (sa_mu (f x c)) = mDurMax (sa_mu c)) \<Longrightarrow> mDurMax (sa_mu (fold f xs c)) = mDurMax (sa_mu c)"
  by (induction xs arbitrary: c) simp_all

lemma applyScan_durMax [simp]: "mDurMax (snd (applyScan t t0 mode ex re rows m)) = mDurMax m"
proof -
  define c where "c = scan_adopt t (scan_rows t ex re rows m)"
  have "mDurMax (sa_mu c) = mDurMax m"
    by (simp add: c_def scan_adopt_def scan_rows_def Let_def fold_durMax group_durMax scan_row_durMax clear_marks_def)
  moreover have "mDurMax (snd (pick_close t d m')) = mDurMax m'" for d m'
    using keeps_durMax(7) [of t m']
    by (cases "cutCloseMarkLocked t m'") (simp add: pick_close_def split: prod.split bool.split)
  ultimately show ?thesis
    unfolding applyScan_def c_def [symmetric] Let_def
    by (cases "if mode = ScanSweep then pick_close t (sa_due c) (if mode = ScanSweep
        then record_due t (sa_due c) (scan_prune t t0 (on_chain rows) (sa_mu c))
        else scan_prune t t0 (on_chain rows) (sa_mu c)) else (None, scan_prune t t0 (on_chain rows) (sa_mu c))")
      (auto simp: record_due_def scan_prune_def split: if_splits dest!: arg_cong [where f = "\<lambda>x. mDurMax (snd x)"])
qed

lemma DurationMax_cong: "mDurMax m = mDurMax m' \<Longrightarrow> DurationMax m = DurationMax m'"
  by (simp add: DurationMax_def)

lemma max_duration_keeps:
  "max_duration_is X p \<Longrightarrow> mDurMax (plMu p') = mDurMax (plMu p) \<Longrightarrow> max_duration_is X p'"
  unfolding max_duration_is_def by (metis DurationMax_cong)

interpretation max_duration: scan_frame "max_duration_is X" for X
  by unfold_locales (rule max_duration_keeps, assumption, simp)+

text \<open>The open calls of one operation: each but the last proven harmless, all for \<open>d\<close> seconds.\<close>

definition opens_ok :: "int \<Rightarrow> call list \<Rightarrow> bool" where
  "opens_ok X posts \<longleftrightarrow> faults (butlast posts) \<and> length posts \<le> MaxBidAttempts + transientMaxRetries \<and>
     list_all (\<lambda>c. \<exists>bid d rej a. c = OpenCall bid d rej a \<and> d \<le> X) posts"

lemma opens_ok_Nil [simp]: "opens_ok X []"
  by (simp add: opens_ok_def)

lemma openExcluding_ok:
  assumes "run_state (openExcluding E cx d alts op) s = ((op', r), s')" and "d \<le> X"
  shows "\<exists>posts. sy_calls s' = sy_calls s @ posts \<and> opens_ok X posts"
  using run_openExcluding [OF assms(1)]
proof
  assume "sy_calls s' = sy_calls s \<and> op' = op"
  then show ?thesis by (intro exI [of _ "[]"]) simp
next
  assume "\<exists>cap posts. sy_calls s' = sy_calls s @ posts \<and> walk_posts op cap d alts walk_start op' posts"
  then obtain cap posts us where posts: "sy_calls s' = sy_calls s @ posts" "faults (butlast posts)"
    and us: "of_bids (set us) d (op_reject op) posts" "length us \<le> MaxBidAttempts"
      "length posts \<le> length us + (op_retries op' - op_retries op)"
      "op_retries op' \<le> max (op_retries op) transientMaxRetries"
    by (auto simp: walk_posts_def walk_start_def)
  have "length posts \<le> MaxBidAttempts + transientMaxRetries" using us(2-4) by auto
  moreover have "list_all (\<lambda>c. \<exists>bid d rej a. c = OpenCall bid d rej a \<and> d \<le> X) posts"
    using us(1) assms(2) by (auto simp: of_bids_def list_all_iff)
  ultimately have "opens_ok X posts" using posts(2) by (simp add: opens_ok_def)
  with posts(1) show ?thesis by (intro exI [of _ posts]) simp
qed

text \<open>Computations whose calls are the opens of at most one operation.\<close>

definition opens_once :: "int \<Rightarrow> ('w, 'a) act \<Rightarrow> bool" where
  "opens_once X f \<longleftrightarrow> (\<forall>s r s'. run_state f s = (r, s') \<longrightarrow> (\<exists>posts. sy_calls s' = sy_calls s @ posts \<and> opens_ok X posts))"

lemma opens_once_quiet: "quiet f \<Longrightarrow> opens_once X f"
  unfolding opens_once_def
proof (intro allI impI)
  fix s r s' assume f: "quiet f" and r: "run_state f s = (r, s')"
  have "sy_calls s' = sy_calls s @ []" using quietD [OF f r] by simp
  then show "\<exists>posts. sy_calls s' = sy_calls s @ posts \<and> opens_ok X posts" by (intro exI [of _ "[]"]) simp
qed

lemma opens_once_before:
  assumes "quiet f" and "\<And>a. opens_once X (g a)"
  shows "opens_once X (f \<bind> g)"
  unfolding opens_once_def
proof (intro allI impI, elim run_bindE)
  fix s r s' a s1
  assume 1: "run_state f s = (a, s1)" and 2: "run_state (g a) s1 = (r, s')"
  from assms(2) [of a] 2 obtain posts where "sy_calls s' = sy_calls s1 @ posts" "opens_ok X posts"
    unfolding opens_once_def by blast
  then show "\<exists>posts. sy_calls s' = sy_calls s @ posts \<and> opens_ok X posts"
    unfolding quietD [OF assms(1) 1] by blast
qed

lemma opens_once_after:
  assumes "opens_once X f" and "\<And>a. quiet (g a)"
  shows "opens_once X (f \<bind> g)"
  unfolding opens_once_def
proof (intro allI impI, elim run_bindE)
  fix s r s' a s1
  assume 1: "run_state f s = (a, s1)" and 2: "run_state (g a) s1 = (r, s')"
  from assms(1) 1 obtain posts where "sy_calls s1 = sy_calls s @ posts" "opens_ok X posts"
    unfolding opens_once_def by blast
  then show "\<exists>posts. sy_calls s' = sy_calls s @ posts \<and> opens_ok X posts"
    unfolding quietD [OF assms(2) 2] by blast
qed

lemma opens_once_cases:
  "(\<And>x. opens_once X (f x)) \<Longrightarrow> (\<And>x. opens_once X (g x)) \<Longrightarrow> opens_once X (case r of Inl x \<Rightarrow> f x | Inr x \<Rightarrow> g x)"
  by (cases r) simp_all

lemma quiet_case_open_err [quiet_intro]:
  assumes "\<And>x y. quiet (f1 x y)" "quiet f2" "quiet f3" "quiet f4" "quiet f5"
    "\<And>x y z. quiet (f6 x y z)" "quiet f7" "\<And>x y. quiet (f8 x y)" "\<And>x. quiet (f9 x)"
  shows "quiet (case e of NoAvailable x y \<Rightarrow> f1 x y | NoEligibleProvider \<Rightarrow> f2 | WalletNeedsFunds \<Rightarrow> f3
    | SessionStateUnknown \<Rightarrow> f4 | StakeLimitInvalid \<Rightarrow> f5 | StakeLimitExceeded x y z \<Rightarrow> f6 x y z
    | NoAlternate \<Rightarrow> f7 | WalkExhausted x y \<Rightarrow> f8 x y | RequestEnded x \<Rightarrow> f9 x)"
  using assms by (cases e) simp_all

lemma opens_once_avoiding:
  assumes "d \<le> X" shows "opens_once X (openAvoidingCooling E cx d op)"
proof -
  have walk: "opens_once X (openExcluding E cx d alts op1)" for alts op1
    unfolding opens_once_def using openExcluding_ok [OF _ assms] by (metis surj_pair)
  have ended: "opens_once X (openExcluding E cx d alts op1 \<bind> g)" if "\<And>a. quiet (g a)" for alts op1 g
    by (rule opens_once_after [OF walk that])
  show ?thesis unfolding openAvoidingCooling_def Let_def split_def
    by (intro opens_once_before opens_once_cases ended) (intro opens_once_quiet quiet_intro)+
qed

lemma cap_duration_le: "0 < X \<Longrightarrow> cap_duration X d \<le> X"
  by (simp add: cap_duration_def)

lemma DurationMax_pos: "0 < DurationMax m"
  by (simp add: DurationMax_def)

text \<open>The same under an invariant of the pool that the steps before the open keep.\<close>

definition opens_while :: "(pool \<Rightarrow> bool) \<Rightarrow> int \<Rightarrow> ('w, 'a) act \<Rightarrow> bool" where
  "opens_while J X f \<longleftrightarrow> (\<forall>s r s'. J (sy_pool s) \<longrightarrow> run_state f s = (r, s') \<longrightarrow>
     (\<exists>posts. sy_calls s' = sy_calls s @ posts \<and> opens_ok X posts))"

lemma opens_whileI: "opens_once X f \<Longrightarrow> opens_while J X f"
  unfolding opens_once_def opens_while_def by blast

lemma opens_while_ret: "opens_while J X (ret a)"
  by (rule opens_whileI [OF opens_once_quiet]) (rule quiet_ret)

lemma opens_while_bind:
  assumes f: "mute J Q f" and g: "\<And>a. Q a \<Longrightarrow> opens_while J X (g a)"
  shows "opens_while J X (f \<bind> g)"
  unfolding opens_while_def
proof (intro allI impI, elim run_bindE)
  fix s r s' a s1
  assume J: "J (sy_pool s)" and 1: "run_state f s = (a, s1)" and 2: "run_state (g a) s1 = (r, s')"
  from muteD [OF f J 1] have m: "J (sy_pool s1)" "Q a" "sy_calls s1 = sy_calls s" by simp_all
  from g [OF m(2)] m(1) 2 show "\<exists>posts. sy_calls s' = sy_calls s @ posts \<and> opens_ok X posts"
    unfolding opens_while_def m(3) [symmetric] by blast
qed

lemma opens_while_after:
  assumes f: "opens_while J X f" and g: "\<And>a. quiet (g a)"
  shows "opens_while J X (f \<bind> g)"
  unfolding opens_while_def
proof (intro allI impI, elim run_bindE)
  fix s r s' a s1
  assume J: "J (sy_pool s)" and 1: "run_state f s = (a, s1)" and 2: "run_state (g a) s1 = (r, s')"
  from f J 1 show "\<exists>posts. sy_calls s' = sy_calls s @ posts \<and> opens_ok X posts"
    unfolding opens_while_def quietD [OF g 2] by blast
qed

lemma opens_while_cases:
  "(\<And>x. opens_while J X (f x)) \<Longrightarrow> (\<And>x. opens_while J X (g x)) \<Longrightarrow>
   opens_while J X (case r of Inl x \<Rightarrow> f x | Inr x \<Rightarrow> g x)"
  "opens_while J X k \<Longrightarrow> (\<And>x. opens_while J X (h x)) \<Longrightarrow>
   opens_while J X (case q of None \<Rightarrow> k | Some x \<Rightarrow> h x)"
  by (cases r, simp_all) (cases q, simp_all)

lemma opens_acquire_open:
  assumes E: "env_keeps E (max_duration_is X)" and X: "0 < X"
  shows "opens_while (max_duration_is X) X (acquire_open E modelID keyID d tok sc)"
  unfolding acquire_open_def
proof (rule opens_while_bind)
  show "mute (max_duration_is X) (\<lambda>mx. mx = X) (mu_get E (\<lambda>t m. DurationMax m))"
    by (rule mute_get [OF E]) (simp add: max_duration_is_def)
  fix mx assume "mx = X"
  with X have d: "cap_duration mx d \<le> X" by (simp add: cap_duration_le)
  show "opens_while (max_duration_is X) X (do {
     now \<leftarrow> clock E;
     holds \<leftarrow> mu_get E (\<lambda>t m. holdsLiveLocked t (normModel modelID) m);
     (let openDur = cap_duration mx d;
          listed = (case sc of Inr out \<Rightarrow> normModel modelID \<in> so_live out | Inl e \<Rightarrow> False);
          op = (newOpenOp now tok modelID)\<lparr>op_reject := \<not> holds \<and> \<not> listed\<rparr>
      in do {
        r \<leftarrow> openAvoidingCooling E True openDur op;
        (case snd r of
           Inl e \<Rightarrow> ret (Inl e)
         | Inr got \<Rightarrow> do {
             l \<leftarrow> with_mu E (\<lambda>t m. pool_and_lease t (normModel modelID) got openDur keyID m);
             ret (opened_result got d openDur l) }) }) })"
    unfolding Let_def
    by (rule opens_whileI, rule opens_once_before, rule quiet_clock, rule opens_once_before,
        rule quiet_sections, rule opens_once_after, rule opens_once_avoiding [OF d]) (intro quiet_intro)
qed

lemma opens_acquire_held:
  assumes E: "env_keeps E (max_duration_is X)" and X: "0 < X"
  shows "opens_while (max_duration_is X) X (acquire_held E modelID keyID d tok)"
proof -
  have refusal: "silent (max_duration_is X) (scan_refusal E sc)" for sc
    unfolding scan_refusal_def
    by (intro mute_sum mute_ret TrueI mute_bind [OF mute_reads(2) [OF E]] mute_option
        mute_bind [OF mute_get(3) [OF E, where Q = "\<lambda>_. True"]])
  show ?thesis unfolding acquire_held_def
    by (intro opens_while_bind [OF max_duration.silent_pooled [OF E]] opens_while_cases opens_while_ret
        opens_while_bind [OF max_duration.silent_scan [OF E]] opens_while_bind [OF refusal] opens_acquire_open assms)
qed



end
