(* ===== verification/Reconcile.thy ===== *)
theory Reconcile
  imports Closes
begin

section \<open>The boot reconcile (\<open>internal/pool/reconcile.go\<close>)\<close>

text \<open>
  The plan for the sessions a restart finds open (\<open>PlanReconcile\<close>, a pure function), the pass that
  lists the wallet and applies it (\<open>plan\<close>, \<open>runCloses\<close>), and the loop that retries the pass while the
  gate holds opens back (\<open>StartupReconcile\<close>).
\<close>

subsection \<open>The plan\<close>

definition MaxBootCloses :: nat where "MaxBootCloses = 20"

datatype plan_action = ActAdopt | ActClose | ActSkip

datatype plan_reason =
  ReasonUsable | ReasonExpired | ReasonDuplicate | ReasonUnconfigured | ReasonExcluded | ReasonYoung

record decision =
  rd_Session :: rsession
  rd_Action :: plan_action
  rd_Reason :: plan_reason

definition decide :: "rsession \<Rightarrow> plan_action \<Rightarrow> plan_reason \<Rightarrow> decision" where
  "decide s a r = \<lparr>rd_Session = s, rd_Action = a, rd_Reason = r\<rparr>"

text \<open>The configured ids, \<open>cfg\<close>: a \<open>false\<close> entry does not count.\<close>

definition cfg_ids :: "bool gomap \<Rightarrow> string set" where
  "cfg_ids configured = set (map (\<lambda>p. normModel (fst p)) (filter snd (mitems configured)))"

definition kept_over :: "rsession \<Rightarrow> rsession \<Rightarrow> bool" where
  "kept_over a b \<longleftrightarrow> rs_ID (pickOne [b, a]) = rs_ID a \<and> rs_ID a \<noteq> rs_ID b"

text \<open>The first pass: one row's decision, and the index of its model's best row so far.\<close>

definition plan_row ::
  "time \<Rightarrow> bool \<Rightarrow> string set \<Rightarrow> string set \<Rightarrow> rsession \<Rightarrow> plan_action \<times> plan_reason" where
  "plan_row now useCatalog cfg excluded s =
     (if rs_EndsAt s \<le> unix now + go_div expiryBuffer second then (ActClose, ReasonExpired)
      else if normProv (rs_Provider s) \<in> excluded then (ActClose, ReasonExcluded)
      else if useCatalog \<and> normModel (rs_ModelAgentID s) \<notin> cfg then (ActSkip, ReasonUnconfigured)
      else (ActAdopt, ReasonUsable))"

definition best_row ::
  "rsession list \<Rightarrow> plan_action \<Rightarrow> nat \<Rightarrow> rsession \<Rightarrow> nat gomap \<Rightarrow> nat gomap" where
  "best_row rows act i s best =
     (let m = normModel (rs_ModelAgentID s) in
      if act \<noteq> ActAdopt then best
      else (case mget best m of
              None \<Rightarrow> mput m i best
            | Some j \<Rightarrow> if kept_over s (rows ! j) then mput m i best else best))"

fun plan_first ::
  "(rsession \<Rightarrow> plan_action \<times> plan_reason) \<Rightarrow> rsession list \<Rightarrow> nat \<Rightarrow> rsession list \<Rightarrow> nat gomap \<Rightarrow> nat gomap" where
  "plan_first f rows i [] best = best"
| "plan_first f rows i (s # ss) best = plan_first f rows (Suc i) ss (best_row rows (fst (f s)) i s best)"

text \<open>The second pass: the adopted rows that are not their model's best.\<close>

definition plan_second ::
  "time \<Rightarrow> nat gomap \<Rightarrow> nat \<times> rsession \<Rightarrow> plan_action \<times> plan_reason \<Rightarrow> decision" where
  "plan_second now best is ar =
     (case is of (i, s) \<Rightarrow>
        if fst ar = ActAdopt \<and> mget best (normModel (rs_ModelAgentID s)) \<noteq> Some i
        then (if rs_OpenedAt s > unix (now - pruneGrace) then decide s ActSkip ReasonYoung
              else decide s ActClose ReasonDuplicate)
        else decide s (fst ar) (snd ar))"

definition PlanReconcile ::
  "rsession list \<Rightarrow> time \<Rightarrow> bool gomap \<Rightarrow> bool \<Rightarrow> string set \<Rightarrow> decision list" where
  "PlanReconcile rows now configured catalogKnown excluded =
     (let cfg = cfg_ids configured;
          f = plan_row now (catalogKnown \<and> cfg \<noteq> {}) cfg excluded;
          best = plan_first f rows 0 rows []
      in map (\<lambda>is. plan_second now best is (f (snd is))) (enumerate 0 rows))"

definition verifiable :: "rsession list \<Rightarrow> bool" where
  "verifiable rows \<longleftrightarrow> list_all (\<lambda>s. trim (rs_ID s) \<noteq> [] \<and> trim (rs_ModelAgentID s) \<noteq> [] \<and>
     \<not> rs_EndsAt s \<le> 0 \<and> rs_ClosedAt s = 0) rows"

definition ConfiguredFrom :: "'e + string list \<Rightarrow> bool gomap \<times> bool" where
  "ConfiguredFrom listed =
     (case listed of
        Inl e \<Rightarrow> ([], False)
      | Inr ids \<Rightarrow>
          (let got = fold (\<lambda>i m. if normModel i \<noteq> [] then mput (normModel i) True m else m) ids []
           in if mlen got = 0 then ([], False) else (got, True)))"

subsection \<open>One pass\<close>

record rec_result =
  rr_Open :: nat
  rr_Adopted :: nat
  rr_Closed :: nat
  rr_Failed :: nat
  rr_Skipped :: nat
  rr_Deferred :: nat
  rr_Attempts :: nat
  rr_Late :: bool
  rr_Catalog :: int

text \<open>The audit events the pass emits: an adoption, a close with its result, the cap with its count.\<close>

datatype boot_event =
    AdoptEvent string
  | CloseEvent plan_reason string bool
  | CapEvent nat

datatype plan_err = WalletErr rerr | ListErr rerr | ErrUnverifiable

definition new_result :: "nat \<Rightarrow> bool \<Rightarrow> bool gomap \<times> bool \<Rightarrow> rec_result" where
  "new_result n late cat = \<lparr>rr_Open = n, rr_Adopted = 0, rr_Closed = 0, rr_Failed = 0, rr_Skipped = 0,
     rr_Deferred = 0, rr_Attempts = 0, rr_Late = late, rr_Catalog = (if snd cat then int (mlen (fst cat)) else -1)\<rparr>"

record sorted_plan =
  pl_res :: rec_result
  pl_expired :: "decision list"
  pl_excl :: "decision list"
  pl_dups :: "decision list"
  pl_events :: "boot_event list"

text \<open>An adoption keeps a pool slot that already ends later.\<close>

definition adopt_planned :: "rsession \<Rightarrow> mu_state \<Rightarrow> bool \<times> mu_state" where
  "adopt_planned s m =
     (let usableUntil = of_unix (rs_EndsAt s) - expiryBuffer;
          key = normModel (rs_ModelAgentID s);
          put = m\<lparr>mEntries := mput key \<lparr>e_sessionID = rs_ID s, e_expiresAt = usableUntil,
                                      e_stake = rs_Stake s, e_provider = rs_Provider s\<rparr> (mEntries m)\<rparr>
      in (case mget (mEntries m) key of
            None \<Rightarrow> (True, put)
          | Some e \<Rightarrow> if e_expiresAt e > usableUntil then (False, m) else (True, put)))"

definition count_skip :: "sorted_plan \<Rightarrow> sorted_plan" where
  "count_skip a = a\<lparr>pl_res := (pl_res a)\<lparr>rr_Skipped := Suc (rr_Skipped (pl_res a))\<rparr>\<rparr>"

definition count_adopt :: "rsession \<Rightarrow> sorted_plan \<Rightarrow> sorted_plan" where
  "count_adopt s a = a\<lparr>pl_res := (pl_res a)\<lparr>rr_Adopted := Suc (rr_Adopted (pl_res a))\<rparr>,
     pl_events := pl_events a @ [AdoptEvent (short (rs_ID s))]\<rparr>"

definition sort_decision :: "bool \<Rightarrow> decision \<Rightarrow> sorted_plan \<Rightarrow> sorted_plan" where
  "sort_decision late d a =
     (if rd_Action d = ActClose \<and> rd_Reason d = ReasonExpired then a\<lparr>pl_expired := pl_expired a @ [d]\<rparr>
      else if rd_Action d = ActClose \<and> rd_Reason d = ReasonExcluded then a\<lparr>pl_excl := pl_excl a @ [d]\<rparr>
      else if rd_Action d = ActClose \<and> rd_Reason d = ReasonDuplicate \<and> \<not> late
           then a\<lparr>pl_dups := pl_dups a @ [d]\<rparr>
      else count_skip a)"

definition apply_decision :: "'w env \<Rightarrow> bool \<Rightarrow> decision \<Rightarrow> sorted_plan \<Rightarrow> ('w, sorted_plan) act" where
  "apply_decision E late d a =
     (if rd_Action d = ActAdopt then do {
        adopted \<leftarrow> with_mu E (\<lambda>t. adopt_planned (rd_Session d));
        ret (if adopted then count_adopt (rd_Session d) a else count_skip a) }
      else ret (sort_decision late d a))"

primrec apply_decisions :: "'w env \<Rightarrow> bool \<Rightarrow> decision list \<Rightarrow> sorted_plan \<Rightarrow> ('w, sorted_plan) act" where
  "apply_decisions E late [] a = ret a"
| "apply_decisions E late (d # ds) a = do { a' \<leftarrow> apply_decision E late d a; apply_decisions E late ds a' }"

text \<open>The closes to run: expired first, then excluded providers, then duplicates, cut at the cap.\<close>

definition all_closes :: "sorted_plan \<Rightarrow> decision list" where
  "all_closes a = pl_expired a @ pl_excl a @ pl_dups a"

definition capped :: "sorted_plan \<Rightarrow> rec_result \<times> decision list \<times> boot_event list" where
  "capped a =
     (let closes = all_closes a; over = length closes - MaxBootCloses in
      if length closes > MaxBootCloses
      then ((pl_res a)\<lparr>rr_Deferred := over\<rparr>, take MaxBootCloses closes, pl_events a @ [CapEvent over])
      else (pl_res a, closes, pl_events a))"

definition mark_planned :: "string \<Rightarrow> decision list \<Rightarrow> mu_state \<Rightarrow> mu_state" where
  "mark_planned addr closes m =
     (fold (\<lambda>d. mark_closing (rs_ID (rd_Session d)) zero_time) closes m)\<lparr>mWalletAddr := addr\<rparr>"

type_synonym 'w catalog = "('w \<Rightarrow> (bool gomap \<times> bool) \<times> 'w) option"

definition ask_catalog :: "'w env \<Rightarrow> 'w catalog \<Rightarrow> ('w, bool gomap \<times> bool) act" where
  "ask_catalog E configured = (case configured of None \<Rightarrow> ret ([], False) | Some f \<Rightarrow> ask E f)"

definition plan_listed ::
  "'w env \<Rightarrow> 'w catalog \<Rightarrow> bool \<Rightarrow> string \<Rightarrow> rsession list \<Rightarrow> ('w, rec_result \<times> decision list \<times> boot_event list) act" where
  "plan_listed E configured late addr rows = do {
     cat \<leftarrow> ask_catalog E configured;
     now \<leftarrow> clock E;
     excluded \<leftarrow> fmu_get E (\<lambda>t f. excludedProviders f);
     a \<leftarrow> apply_decisions E late (PlanReconcile rows now (fst cat) (snd cat) excluded)
           \<lparr>pl_res = new_result (length rows) late cat, pl_expired = [], pl_excl = [], pl_dups = [], pl_events = []\<rparr>;
     _ \<leftarrow> mu_do E (\<lambda>t. mark_planned addr (fst (snd (capped a))));
     _ \<leftarrow> with_atoms E (\<lambda>t at. ((), at\<lparr>paStateKnown := True\<rparr>));
     ret (capped a) }"

definition plan ::
  "'w env \<Rightarrow> 'w catalog \<Rightarrow> bool \<Rightarrow> ('w, plan_err + rec_result \<times> decision list \<times> boot_event list) act" where
  "plan E configured late = do {
     w \<leftarrow> ask E (en_wallet E adminTimeout);
     (case w of
        Inl e \<Rightarrow> ret (Inl (WalletErr e))
      | Inr addr \<Rightarrow> do {
          l \<leftarrow> ask E (en_list E addr adminTimeout);
          (case l of
             Inl e \<Rightarrow> ret (Inl (ListErr e))
           | Inr rows \<Rightarrow>
               if \<not> verifiable rows then ret (Inl ErrUnverifiable)
               else do { r \<leftarrow> plan_listed E configured late addr rows; ret (Inr r) }) }) }"

subsection \<open>The closes of a pass\<close>

definition plan_text :: "plan_reason \<Rightarrow> string" where
  "plan_text r = (case r of ReasonUsable \<Rightarrow> ''usable'' | ReasonExpired \<Rightarrow> ''expired''
     | ReasonDuplicate \<Rightarrow> ''duplicate'' | ReasonUnconfigured \<Rightarrow> ''unconfigured''
     | ReasonExcluded \<Rightarrow> ''provider_excluded'' | ReasonYoung \<Rightarrow> ''young'')"

definition unmark_planned :: "decision list \<Rightarrow> mu_state \<Rightarrow> mu_state" where
  "unmark_planned ds m =
     fold (\<lambda>d m. if mget (mClosingIDs m) (to_lower (rs_ID (rd_Session d))) = Some zero_time
                 then unmark_closing (rs_ID (rd_Session d)) m else m) ds m"

definition defer_closes :: "'w env \<Rightarrow> decision list \<Rightarrow> rec_result \<Rightarrow> ('w, rec_result) act" where
  "defer_closes E ds res = do {
     _ \<leftarrow> mu_do E (\<lambda>t. unmark_planned ds);
     _ \<leftarrow> requestSweep E;
     ret (res\<lparr>rr_Deferred := rr_Deferred res + length ds\<rparr>) }"

definition count_close :: "close_outcome \<Rightarrow> rec_result \<Rightarrow> rec_result" where
  "count_close oc res = (if landed oc then res\<lparr>rr_Closed := Suc (rr_Closed res)\<rparr>
                         else res\<lparr>rr_Failed := Suc (rr_Failed res)\<rparr>)"

fun runCloses ::
  "'w env \<Rightarrow> decision list \<Rightarrow> rec_result \<Rightarrow> boot_event list \<Rightarrow> ('w, rec_result \<times> boot_event list) act" where
  "runCloses E [] res evs = ret (res, evs)"
| "runCloses E (d # ds) res evs = do {
     hold \<leftarrow> with_mu E (\<lambda>t m. cutCloseMarkLocked t m);
     if hold then do { r \<leftarrow> defer_closes E (d # ds) res; ret (r, evs) }
     else do {
       try \<leftarrow> slot_try_act E [];
       (case try of
          None \<Rightarrow> do { r \<leftarrow> defer_closes E (d # ds) res; ret (r, evs) }
        | Some tok \<Rightarrow> do {
            oc \<leftarrow> closeWithToken E tok (rs_ID (rd_Session d)) (plan_text (rd_Reason d)) [] closeCallTimeout;
            _ \<leftarrow> slot_release_act E tok;
            runCloses E ds (count_close (fst oc) res)
              (evs @ [CloseEvent (rd_Reason d) (short (rs_ID (rd_Session d))) (landed (fst oc))]) }) } }"

definition reconcileOnce :: "'w env \<Rightarrow> 'w catalog \<Rightarrow> ('w, plan_err + rec_result) act" where
  "reconcileOnce E configured = do {
     p \<leftarrow> plan E configured False;
     (case p of
        Inl e \<Rightarrow> ret (Inl e)
      | Inr (res, closes, evs) \<Rightarrow> do {
          r \<leftarrow> runCloses E closes res [];
          ret (Inr (fst r)) }) }"

subsection \<open>The gate and the boot loop\<close>

text \<open>\<open>close_gate\<close> is the code's \<open>Gate\<close>, less its status callback.\<close>

definition close_gate :: "pool \<Rightarrow> pool" where
  "close_gate p = p\<lparr>plMu := (if mGate (plMu p) = NoGate then (plMu p)\<lparr>mGate := GateClosed\<rparr> else plMu p),
                    plAtoms := (plAtoms p)\<lparr>paGated := True\<rparr>\<rparr>"

definition ReleaseGate :: "mu_state \<Rightarrow> mu_state" where
  "ReleaseGate m = (if mGate m = NoGate then m else m\<lparr>mGate := GateOpen\<rparr>)"

definition opensHeld :: "pool_atoms \<Rightarrow> bool" where
  "opensHeld a \<longleftrightarrow> paGated a \<and> \<not> paStateKnown a"

datatype rec_phase = RecPending | RecReconciling | RecClosing | RecOk | RecPartial | RecDeferred | RecRetrying

record rec_state =
  rc_State :: rec_phase
  rc_Attempts :: nat
  rc_Result :: rec_result
  rc_LastError :: "plan_err option"

record rec_config =
  cf_Backoff :: dur
  cf_BackoffMax :: dur
  cf_GateFor :: dur
  cf_RetryEvery :: dur

definition or_default :: "dur \<Rightarrow> dur \<Rightarrow> dur" where "or_default d x = (if x \<le> 0 then d else x)"

definition rec_defaults :: "rec_config \<Rightarrow> rec_config" where
  "rec_defaults c = \<lparr>cf_Backoff = or_default (2 * second) (cf_Backoff c),
     cf_BackoffMax = or_default (15 * second) (cf_BackoffMax c),
     cf_GateFor = or_default (60 * second) (cf_GateFor c),
     cf_RetryEvery = or_default (30 * second) (cf_RetryEvery c)\<rparr>"

text \<open>The retry state of the loop between two attempts.\<close>

record boot =
  bt_attempts :: nat
  bt_delay :: dur
  bt_gated :: bool
  bt_deadline :: time
  bt_status :: rec_state

definition failed_phase :: "boot \<Rightarrow> bool \<Rightarrow> rec_phase" where
  "failed_phase b gated =
     (if gated then RecReconciling
      else if bt_attempts b > 1 \<and> rc_State (bt_status b) = RecDeferred then RecRetrying else RecDeferred)"

text \<open>After a failed pass at time \<open>now\<close>: whether the gate is given up, and the state and the wait that follow.\<close>

definition gives_up :: "time \<Rightarrow> boot \<Rightarrow> bool" where
  "gives_up now b \<longleftrightarrow> bt_gated b \<and> now + bt_delay b > bt_deadline b"

definition after_failure :: "rec_config \<Rightarrow> time \<Rightarrow> plan_err \<Rightarrow> boot \<Rightarrow> boot \<times> dur" where
  "after_failure cfg now e b =
     (let gated = (bt_gated b \<and> \<not> gives_up now b);
          wait = (if gated then bt_delay b else cf_RetryEvery cfg);
          st = (bt_status b)\<lparr>rc_State := failed_phase b gated, rc_Attempts := bt_attempts b, rc_LastError := Some e\<rparr>
      in (b\<lparr>bt_gated := gated, bt_status := st,
            bt_delay := (if gated then min (cf_BackoffMax cfg) (2 * bt_delay b) else bt_delay b)\<rparr>, wait))"

definition passed_status :: "nat \<Rightarrow> rec_result \<Rightarrow> rec_state" where
  "passed_status n res = \<lparr>rc_State = (if rr_Failed res > 0 \<or> rr_Deferred res > 0 then RecPartial else RecOk),
     rc_Attempts = n, rc_Result = res, rc_LastError = None\<rparr>"

definition boot_passed ::
  "'w env \<Rightarrow> boot \<Rightarrow> rec_result \<times> decision list \<times> boot_event list \<Rightarrow> ('w, rec_state \<times> boot_event list) act" where
  "boot_passed E b p =
     (case p of (res, closes, evs) \<Rightarrow> do {
        _ \<leftarrow> mu_do E (\<lambda>t. ReleaseGate);
        r \<leftarrow> runCloses E closes (res\<lparr>rr_Attempts := bt_attempts b\<rparr>) evs;
        ret (passed_status (bt_attempts b) (fst r), snd r) })"

text \<open>
  The loop, with fuel for its attempts; \<open>Some\<close> with the last status when it returns: a pass went
  through, or the context ended in the wait between two attempts. The gate is released either way.
\<close>

fun boot_loop :: "'w env \<Rightarrow> 'w catalog \<Rightarrow> rec_config \<Rightarrow> nat \<Rightarrow> boot \<Rightarrow> ('w, (rec_state \<times> boot_event list) option) act" where
  "boot_loop E configured cfg 0 b = ret None"
| "boot_loop E configured cfg (Suc fuel) b0 = do {
     (let b = b0\<lparr>bt_attempts := Suc (bt_attempts b0)\<rparr> in do {
        p \<leftarrow> plan E configured (\<not> bt_gated b);
        (case p of
           Inr r \<Rightarrow> do { st \<leftarrow> boot_passed E b r; ret (Some st) }
         | Inl e \<Rightarrow> do {
             now \<leftarrow> clock E;
             _ \<leftarrow> (if gives_up now b then mu_do E (\<lambda>t. ReleaseGate) else ret ());
             (case after_failure cfg now e b of (b1, wait) \<Rightarrow> do {
                ended \<leftarrow> pause E True wait;
                if ended then do { _ \<leftarrow> mu_do E (\<lambda>t. ReleaseGate); ret (Some (bt_status b1, [])) }
                else boot_loop E configured cfg fuel b1 }) }) }) }"

definition StartupReconcile ::
  "'w env \<Rightarrow> 'w catalog \<Rightarrow> rec_config \<Rightarrow> nat \<Rightarrow> rec_state \<Rightarrow> ('w, (rec_state \<times> boot_event list) option) act" where
  "StartupReconcile E configured cfg0 fuel st0 = do {
     now \<leftarrow> clock E;
     (let cfg = rec_defaults cfg0 in
      boot_loop E configured cfg fuel
        \<lparr>bt_attempts = 0, bt_delay = cf_Backoff cfg, bt_gated = True, bt_deadline = now + cf_GateFor cfg,
         bt_status = st0\<lparr>rc_State := RecReconciling\<rparr>\<rparr>) }"

end
