(* ===== verification/Plan_Props.thy ===== *)
theory Plan_Props
  imports Reconcile
begin

section \<open>What the boot plan decides\<close>

subsection \<open>The plan, row by row\<close>

text \<open>
  The reference: each row's decision on its own, from the whole list. A usable row is adopted when it
  is the one \<open>pickOne\<close> keeps of its model's usable rows.
\<close>

definition usable_rows :: "(rsession \<Rightarrow> plan_action \<times> plan_reason) \<Rightarrow> string \<Rightarrow> rsession list \<Rightarrow> rsession list" where
  "usable_rows f m rows = filter (\<lambda>s. fst (f s) = ActAdopt \<and> normModel (rs_ModelAgentID s) = m) rows"

definition row_decision ::
  "(rsession \<Rightarrow> plan_action \<times> plan_reason) \<Rightarrow> time \<Rightarrow> rsession list \<Rightarrow> rsession \<Rightarrow> decision" where
  "row_decision f now rows s =
     (if fst (f s) \<noteq> ActAdopt then decide s (fst (f s)) (snd (f s))
      else if s = pickOne (usable_rows f (normModel (rs_ModelAgentID s)) rows) then decide s ActAdopt ReasonUsable
      else if rs_OpenedAt s > unix (now - pruneGrace) then decide s ActSkip ReasonYoung
      else decide s ActClose ReasonDuplicate)"

lemma pickOne_snoc: "xs \<noteq> [] \<Longrightarrow> pickOne (xs @ [s]) = better_row (pickOne xs) s"
  by (cases xs) (simp_all add: pickOne_def)

lemma better_row_either: "better_row b s = b \<or> better_row b s = s"
  by (simp add: better_row_def)

lemma kept_over_better:
  assumes "rs_ID s \<noteq> rs_ID b"
  shows "kept_over s b \<longleftrightarrow> better_row b s = s"
  using better_row_either [of b s] assms by (auto simp: kept_over_def pickOne_def)

text \<open>The table of the first pass holds, for each model, the index of what \<open>pickOne\<close> keeps so far.\<close>

definition best_of :: "(rsession \<Rightarrow> plan_action \<times> plan_reason) \<Rightarrow> rsession list \<Rightarrow> rsession list \<Rightarrow> nat gomap \<Rightarrow> bool" where
  "best_of f rows pre best \<longleftrightarrow> (\<forall>m. case mget best m of
     None \<Rightarrow> usable_rows f m pre = []
   | Some j \<Rightarrow> j < length pre \<and> usable_rows f m pre \<noteq> [] \<and> rows ! j = pickOne (usable_rows f m pre))"

lemma best_ofD:
  "best_of f rows pre best \<Longrightarrow> mget best m = Some j \<Longrightarrow>
   j < length pre \<and> usable_rows f m pre \<noteq> [] \<and> rows ! j = pickOne (usable_rows f m pre)"
  "best_of f rows pre best \<Longrightarrow> mget best m = None \<Longrightarrow> usable_rows f m pre = []"
  unfolding best_of_def by (auto dest: spec [of _ m])

lemma best_row_step:
  assumes inv: "best_of f rows pre best" and rows: "rows = pre @ s # ss" and ids: "distinct (map rs_ID rows)"
  shows "best_of f rows (pre @ [s]) (best_row rows (fst (f s)) (length pre) s best)"
proof (cases "fst (f s) = ActAdopt")
  case False
  then show ?thesis using inv unfolding best_of_def
    by (fastforce simp: best_row_def usable_rows_def split: option.splits)
next
  case True
  let ?m = "normModel (rs_ModelAgentID s)"
  have other: "usable_rows f m (pre @ [s]) = usable_rows f m pre" if "m \<noteq> ?m" for m
    using that by (auto simp: usable_rows_def)
  have own: "usable_rows f ?m (pre @ [s]) = usable_rows f ?m pre @ [s]"
    using True by (simp add: usable_rows_def)
  have new: "mget (best_row rows (fst (f s)) (length pre) s best) m = mget best m" if "m \<noteq> ?m" for m
    using that by (auto simp: best_row_def Let_def split: option.splits)
  have s: "rows ! length pre = s" using rows by simp
  show ?thesis unfolding best_of_def
  proof
    fix m
    show "case mget (best_row rows (fst (f s)) (length pre) s best) m of
        None \<Rightarrow> usable_rows f m (pre @ [s]) = []
      | Some j \<Rightarrow> j < length (pre @ [s]) \<and> usable_rows f m (pre @ [s]) \<noteq> [] \<and>
          rows ! j = pickOne (usable_rows f m (pre @ [s]))"
    proof (cases "m = ?m")
      case False
      with inv show ?thesis unfolding best_of_def new [OF False] other [OF False]
        by (auto dest: spec [of _ m] split: option.splits)
    next
      case m: True
      show ?thesis
      proof (cases "mget best ?m")
        case None
        with best_ofD(2) [OF inv None] s True show ?thesis
          by (simp add: m own best_row_def pickOne_def)
      next
        case (Some j)
        note j = best_ofD(1) [OF inv Some]
        have "rows ! j \<in> set pre" using j rows by (simp add: nth_append)
        with ids rows have "rs_ID s \<noteq> rs_ID (rows ! j)" by auto
        then have k: "kept_over s (rows ! j) \<longleftrightarrow> better_row (rows ! j) s = s" by (rule kept_over_better)
        have ne: "usable_rows f ?m pre \<noteq> []" and rj: "pickOne (usable_rows f ?m pre) = rows ! j" using j by simp_all
        have p: "pickOne (usable_rows f ?m (pre @ [s])) = better_row (rows ! j) s"
          by (simp only: own pickOne_snoc [OF ne] rj)
        show ?thesis
        proof (cases "better_row (rows ! j) s = s")
          case b: True
          with k Some True have "mget (best_row rows (fst (f s)) (length pre) s best) m = Some (length pre)"
            by (simp add: m best_row_def)
          with p b s show ?thesis by (simp add: m own)
        next
          case False
          with k Some True have "mget (best_row rows (fst (f s)) (length pre) s best) m = Some j"
            by (simp add: m best_row_def)
          with p False better_row_either [of "rows ! j" s] j show ?thesis by (simp add: m own)
        qed
      qed
    qed
  qed
qed

lemma plan_first_best:
  assumes "best_of f rows pre best" and "rows = pre @ ss" and "distinct (map rs_ID rows)"
  shows "best_of f rows rows (plan_first f rows (length pre) ss best)"
  using assms
proof (induction ss arbitrary: pre best)
  case (Cons s ss)
  from best_row_step [OF Cons.prems]
  have "best_of f rows (pre @ [s]) (best_row rows (fst (f s)) (length pre) s best)" .
  from Cons.IH [OF this] Cons.prems show ?case by simp
qed simp

lemma plan_first_all:
  "distinct (map rs_ID rows) \<Longrightarrow> best_of f rows rows (plan_first f rows 0 rows [])"
  using plan_first_best [of f rows "[]" "[]" rows] by (simp add: best_of_def usable_rows_def)

lemma plan_second_row:
  assumes ids: "distinct (map rs_ID rows)" and i: "i < length rows"
    and r: "fst (f (rows ! i)) = ActAdopt \<Longrightarrow> snd (f (rows ! i)) = ReasonUsable"
  shows "plan_second now (plan_first f rows 0 rows []) (i, rows ! i) (f (rows ! i)) = row_decision f now rows (rows ! i)"
proof (cases "fst (f (rows ! i)) = ActAdopt")
  case False
  then show ?thesis by (simp add: plan_second_def row_decision_def)
next
  case True
  let ?s = "rows ! i" and ?best = "plan_first f rows 0 rows []"
  let ?m = "normModel (rs_ModelAgentID ?s)"
  note inv = plan_first_all [OF ids, of f]
  have "?s \<in> set (usable_rows f ?m rows)" using True i by (simp add: usable_rows_def)
  then have "mget ?best ?m \<noteq> None" using best_ofD(2) [OF inv, of ?m] by (metis empty_iff empty_set)
  then obtain j where j: "mget ?best ?m = Some j" by blast
  note b = best_ofD(1) [OF inv j]
  have "j = i \<longleftrightarrow> rows ! j = ?s"
    using b i ids by (metis distinct_map nth_eq_iff_index_eq)
  then have "mget ?best ?m = Some i \<longleftrightarrow> ?s = pickOne (usable_rows f ?m rows)" using j b by auto
  then show ?thesis using True r by (auto simp: plan_second_def row_decision_def)
qed


definition boot_row :: "string \<Rightarrow> string \<Rightarrow> int \<Rightarrow> rsession" where
  "boot_row i m ends = \<lparr>rs_ID = i, rs_ModelAgentID = m, rs_Provider = ''p'', rs_BidID = ''b'', rs_Stake = Some 5,
     rs_OpenedAt = 10, rs_EndsAt = ends, rs_ClosedAt = 0\<rparr>"


text \<open>
  A row the listing repeats (a session opened between two pages shifts the rest by one) is
  planned twice: the first copy is adopted into the pool and the second is closed as a duplicate of
  it, so the session the pool is about to serve is closed.
\<close>

theorem PlanReconcile_repeated_row:
  assumes "\<not> rs_EndsAt s \<le> unix now + go_div expiryBuffer second" and "normProv (rs_Provider s) \<notin> excluded"
    and "\<not> known" and "rs_OpenedAt s \<le> unix (now - pruneGrace)"
  shows "PlanReconcile [s, s] now configured known excluded =
    [decide s ActAdopt ReasonUsable, decide s ActClose ReasonDuplicate]"
  using assms
  by (simp add: PlanReconcile_def Let_def plan_row_def best_row_def plan_second_def kept_over_def pickOne_def)

lemma PlanReconcile_repeated_row_witness:
  "PlanReconcile [boot_row ''a'' ''m'' 5000, boot_row ''a'' ''m'' 5000] (1000 * second) [] False {} =
    [decide (boot_row ''a'' ''m'' 5000) ActAdopt ReasonUsable, decide (boot_row ''a'' ''m'' 5000) ActClose ReasonDuplicate]"
  by (rule PlanReconcile_repeated_row) code_simp+

end
