(* ===== verification/Boot_Props.thy ===== *)
theory Boot_Props
  imports Plan_Props Acquire_Props Sweep_Props
begin

section \<open>What the boot reconcile promises\<close>

subsection \<open>One pass\<close>

definition is_close_for :: "plan_reason \<Rightarrow> decision \<Rightarrow> bool" where
  "is_close_for r d \<longleftrightarrow> rd_Action d = ActClose \<and> rd_Reason d = r"

text \<open>The closes of a plan in the order they run: a late pass leaves the duplicates.\<close>

definition boot_closes :: "bool \<Rightarrow> decision list \<Rightarrow> decision list" where
  "boot_closes late ds = filter (is_close_for ReasonExpired) ds @ filter (is_close_for ReasonExcluded) ds @
     (if late then [] else filter (is_close_for ReasonDuplicate) ds)"

text \<open>What the loop over the decisions has collected and counted.\<close>

definition sorted_ok :: "bool \<Rightarrow> decision list \<Rightarrow> sorted_plan \<Rightarrow> sorted_plan \<Rightarrow> bool" where
  "sorted_ok late ds a a' \<longleftrightarrow>
     pl_expired a' = pl_expired a @ filter (is_close_for ReasonExpired) ds \<and>
     pl_excl a' = pl_excl a @ filter (is_close_for ReasonExcluded) ds \<and>
     pl_dups a' = pl_dups a @ (if late then [] else filter (is_close_for ReasonDuplicate) ds) \<and>
     rr_Adopted (pl_res a') + rr_Skipped (pl_res a') + length (boot_closes late ds) =
       rr_Adopted (pl_res a) + rr_Skipped (pl_res a) + length ds \<and>
     rr_Open (pl_res a') = rr_Open (pl_res a) \<and> rr_Deferred (pl_res a') = rr_Deferred (pl_res a) \<and>
     rr_Closed (pl_res a') = rr_Closed (pl_res a) \<and> rr_Failed (pl_res a') = rr_Failed (pl_res a)"

lemma sorted_ok_Nil: "sorted_ok late [] a a"
  by (simp add: sorted_ok_def boot_closes_def)

lemma sorted_ok_trans: "sorted_ok late [d] a a1 \<Longrightarrow> sorted_ok late ds a1 a2 \<Longrightarrow> sorted_ok late (d # ds) a a2"
  by (simp add: sorted_ok_def boot_closes_def split: if_splits)

lemma apply_decision_sorted:
  assumes "run_state (apply_decision E late d a) s = (a', s')"
  shows "sorted_ok late [d] a a'"
proof (cases "rd_Action d = ActAdopt")
  case True
  with assms have "a' = count_adopt (rd_Session d) a \<or> a' = count_skip a"
    by (auto simp: apply_decision_def elim!: run_bindE split: if_splits)
  with True show ?thesis
    by (auto simp: sorted_ok_def boot_closes_def is_close_for_def count_adopt_def count_skip_def)
next
  case False
  with assms have a': "a' = sort_decision late d a" by (simp add: apply_decision_def)
  show ?thesis unfolding a'
    by (cases "rd_Reason d") (simp_all add: sort_decision_def sorted_ok_def boot_closes_def is_close_for_def count_skip_def)
qed

lemma apply_decisions_sorted:
  "run_state (apply_decisions E late ds a) s = (a', s') \<Longrightarrow> sorted_ok late ds a a'"
proof (induction ds arbitrary: a s)
  case Nil
  then show ?case by (simp add: sorted_ok_Nil)
next
  case (Cons d ds)
  from Cons.prems obtain a1 s1 where "run_state (apply_decision E late d a) s = (a1, s1)"
    and "run_state (apply_decisions E late ds a1) s1 = (a', s')"
    by (auto elim: run_bindE)
  from sorted_ok_trans [OF apply_decision_sorted [OF this(1)] Cons.IH [OF this(2)]] show ?case .
qed

text \<open>A plan of a listing: some verifiable rows, planned with some clock, catalog and exclusions.\<close>

definition is_plan :: "decision list \<Rightarrow> rsession list \<Rightarrow> bool" where
  "is_plan ds rows \<longleftrightarrow> verifiable rows \<and>
     (\<exists>now configured known excluded. ds = PlanReconcile rows now configured known excluded)"

lemma length_PlanReconcile [simp]: "length (PlanReconcile rows now configured known excluded) = length rows"
  by (simp add: PlanReconcile_def Let_def)

lemma plan_collects:
  assumes "run_state (plan E configured late) s = (Inr (res, closes, evs), s')"
  shows "\<exists>rows ds. is_plan ds rows \<and> closes = take MaxBootCloses (boot_closes late ds) \<and>
    rr_Open res = length rows \<and> rr_Deferred res = length (boot_closes late ds) - MaxBootCloses \<and>
    rr_Closed res = 0 \<and> rr_Failed res = 0 \<and>
    rr_Adopted res + rr_Skipped res + rr_Deferred res + length closes = rr_Open res"
proof -
  from assms obtain addr rows s1 where v: "verifiable rows"
    and r: "run_state (plan_listed E configured late addr rows) s1 = ((res, closes, evs), s')"
    by (auto simp: plan_def elim!: run_bindE split: sum.splits if_splits)
  from r obtain cat now excl a s2 s3 where
    a: "run_state (apply_decisions E late (PlanReconcile rows now (fst cat) (snd cat) excl)
      \<lparr>pl_res = new_result (length rows) late cat, pl_expired = [], pl_excl = [], pl_dups = [], pl_events = []\<rparr>) s2 = (a, s3)"
    and c: "capped a = (res, closes, evs)"
    unfolding plan_listed_def by (elim run_bindE) (auto simp del: apply_decisions.simps)
  let ?ds = "PlanReconcile rows now (fst cat) (snd cat) excl"
  note ok = apply_decisions_sorted [OF a, unfolded sorted_ok_def]
  have all: "all_closes a = boot_closes late ?ds" using ok by (simp add: all_closes_def boot_closes_def)
  have "is_plan ?ds rows" using v by (auto simp: is_plan_def)
  moreover have "closes = take MaxBootCloses (boot_closes late ?ds)"
    and "rr_Deferred res = length (boot_closes late ?ds) - MaxBootCloses"
    and "rr_Open res = length rows \<and> rr_Closed res = 0 \<and> rr_Failed res = 0"
    and "rr_Adopted res + rr_Skipped res + length (boot_closes late ?ds) = length rows"
    using c ok by (auto simp: capped_def Let_def all new_result_def split: if_splits)
  ultimately show ?thesis by (intro exI [of _ rows] exI [of _ ?ds]) (simp add: min_def)
qed

subsection \<open>The closes of a pass\<close>

definition ids_of :: "decision list \<Rightarrow> string set" where
  "ids_of ds = (\<lambda>d. rs_ID (rd_Session d)) ` set ds"

text \<open>
  What running the closes sends and counts: at most one call per planned close, and each planned
  close is counted closed, failed or deferred.
\<close>

definition accounted :: "decision list \<Rightarrow> rec_result \<Rightarrow> rec_result \<Rightarrow> call list \<Rightarrow> bool" where
  "accounted ds res res' cs \<longleftrightarrow> list_all (is_close_of (ids_of ds)) cs \<and> length cs \<le> length ds \<and>
     rr_Closed res' + rr_Failed res' + rr_Deferred res' = rr_Closed res + rr_Failed res + rr_Deferred res + length ds \<and>
     rr_Open res' = rr_Open res \<and> rr_Adopted res' = rr_Adopted res \<and> rr_Skipped res' = rr_Skipped res"

lemma accounted_Nil: "accounted [] res res []"
  by (simp add: accounted_def)

lemma is_close_mono: "I \<subseteq> J \<Longrightarrow> is_close_of I c \<Longrightarrow> is_close_of J c"
  by (auto simp: is_close_of_def split: call.splits)

lemma accounted_Cons:
  assumes c1: "cs1 = [] \<or> (\<exists>r. cs1 = [CloseCall (rs_ID (rd_Session d)) r])"
    and rest: "accounted ds (count_close oc res) res' cs2"
  shows "accounted (d # ds) res res' (cs1 @ cs2)"
proof -
  have "list_all (is_close_of (ids_of (d # ds))) cs2"
    using rest is_close_mono [of "ids_of ds" "ids_of (d # ds)"]
    by (auto simp: accounted_def ids_of_def list_all_iff)
  moreover have "list_all (is_close_of (ids_of (d # ds))) cs1"
    using c1 by (auto simp: is_close_of_def ids_of_def)
  moreover have "length cs1 \<le> 1" using c1 by auto
  ultimately show ?thesis using rest
    by (simp add: accounted_def count_close_def split: if_splits)
qed

lemma quiet_defer [quiet_intro]: "quiet (defer_closes E ds res)"
  unfolding defer_closes_def by (intro quiet_intro)

lemma defer_result:
  "run_state (defer_closes E ds res) s = (r, s') \<Longrightarrow> r = res\<lparr>rr_Deferred := rr_Deferred res + length ds\<rparr>"
  unfolding defer_closes_def by (auto elim!: run_bindE)

lemma accounted_defer: "accounted ds res (res\<lparr>rr_Deferred := rr_Deferred res + length ds\<rparr>) []"
  by (simp add: accounted_def)

lemma runCloses_accounted:
  "run_state (runCloses E ds res evs) s = ((res', evs'), s') \<Longrightarrow>
   \<exists>cs. sy_calls s' = sy_calls s @ cs \<and> accounted ds res res' cs"
proof (induction ds arbitrary: res evs s)
  case Nil
  then show ?case by (simp add: accounted_Nil)
next
  case (Cons d ds)
  from Cons.prems obtain hold s1 where h: "run_state (with_mu E (\<lambda>t m. cutCloseMarkLocked t m)) s = (hold, s1)"
    and r: "run_state (if hold then do { r \<leftarrow> defer_closes E (d # ds) res; ret (r, evs) }
     else do {
       try \<leftarrow> slot_try_act E [];
       (case try of
          None \<Rightarrow> do { r \<leftarrow> defer_closes E (d # ds) res; ret (r, evs) }
        | Some tok \<Rightarrow> do {
            oc \<leftarrow> closeWithToken E tok (rs_ID (rd_Session d)) (plan_text (rd_Reason d)) [] closeCallTimeout;
            _ \<leftarrow> slot_release_act E tok;
            runCloses E ds (count_close (fst oc) res)
              (evs @ [CloseEvent (rd_Reason d) (short (rs_ID (rd_Session d))) (landed (fst oc))]) }) }) s1 = ((res', evs'), s')"
    unfolding runCloses.simps by (elim run_bindE)
  note q = quietD [OF quiet_sections(1) h]
  have deferred: ?case if "run_state (do { r \<leftarrow> defer_closes E (d # ds) res; ret (r, evs) }) s2 = ((res', evs'), s')"
    "sy_calls s2 = sy_calls s" for s2
  proof -
    from that(1) obtain r1 s3 where r1: "run_state (defer_closes E (d # ds) res) s2 = (r1, s3)"
      and e: "res' = r1" "s' = s3" by (auto elim!: run_bindE)
    have "sy_calls s' = sy_calls s @ []" using quietD [OF quiet_defer r1] e(2) that(2) by simp
    with accounted_defer [of "d # ds" res] defer_result [OF r1] e(1) show ?thesis by blast
  qed
  show ?case
  proof (cases hold)
    case True
    with r q show ?thesis by (intro deferred [of s1]) simp_all
  next
    case False
    with r obtain got s2 where t: "run_state (slot_try_act E []) s1 = (got, s2)"
      and k: "run_state (case got of
          None \<Rightarrow> do { r \<leftarrow> defer_closes E (d # ds) res; ret (r, evs) }
        | Some tok \<Rightarrow> do {
            oc \<leftarrow> closeWithToken E tok (rs_ID (rd_Session d)) (plan_text (rd_Reason d)) [] closeCallTimeout;
            _ \<leftarrow> slot_release_act E tok;
            runCloses E ds (count_close (fst oc) res)
              (evs @ [CloseEvent (rd_Reason d) (short (rs_ID (rd_Session d))) (landed (fst oc))]) }) s2 = ((res', evs'), s')"
      by (auto elim: run_bindE)
    note q2 = quietD [OF quiet_slot(1) t]
    show ?thesis
    proof (cases got)
      case None
      with k q q2 show ?thesis by (intro deferred [of s2]) simp_all
    next
      case (Some tok)
      with k obtain out err s3 s4 u where
        c: "run_state (closeWithToken E tok (rs_ID (rd_Session d)) (plan_text (rd_Reason d)) [] closeCallTimeout) s2 = ((out, err), s3)"
        and rel: "run_state (slot_release_act E tok) s3 = (u, s4)"
        and more: "run_state (runCloses E ds (count_close out res)
              (evs @ [CloseEvent (rd_Reason d) (short (rs_ID (rd_Session d))) (landed out)])) s4 = ((res', evs'), s')"
        by (auto elim!: run_bindE)
      from closeWithToken_posts [OF c] obtain cs1 where 1: "sy_calls s3 = sy_calls s2 @ cs1"
        "cs1 = [] \<or> (\<exists>r. cs1 = [CloseCall (rs_ID (rd_Session d)) r])" by blast
      from Cons.IH [OF more] obtain cs2 where 2: "sy_calls s' = sy_calls s4 @ cs2"
        "accounted ds (count_close out res) res' cs2" by blast
      have "sy_calls s' = sy_calls s @ cs1 @ cs2"
        using 1(1) 2(1) q q2 quietD [OF quiet_slot(2) rel] by simp
      with accounted_Cons [OF 1(2) 2(2)] show ?thesis by blast
    qed
  qed
qed

subsection \<open>The boot loop\<close>

definition closed_ids :: "decision list \<Rightarrow> string set" where
  "closed_ids ds = (\<lambda>d. rs_ID (rd_Session d)) ` {d \<in> set ds. rd_Action d = ActClose}"

definition adopted_ids :: "decision list \<Rightarrow> string set" where
  "adopted_ids ds = (\<lambda>d. rs_ID (rd_Session d)) ` {d \<in> set ds. rd_Action d = ActAdopt}"

text \<open>The calls of a boot: none, or the closes one plan decided, at most the cap of them.\<close>

definition boot_calls :: "call list \<Rightarrow> bool" where
  "boot_calls cs \<longleftrightarrow> length cs \<le> MaxBootCloses \<and>
     (cs \<noteq> [] \<longrightarrow> (\<exists>ds rows. is_plan ds rows \<and> list_all (is_close_of (closed_ids ds)) cs \<and>
        (distinct (map rs_ID rows) \<longrightarrow> closed_ids ds \<inter> adopted_ids ds = {})))"

lemma boot_calls_Nil [simp]: "boot_calls []"
  by (simp add: boot_calls_def)

lemma sessions_PlanReconcile:
  "map rd_Session (PlanReconcile rows now configured known excluded) = rows"
  by (rule nth_equalityI)
    (auto simp: PlanReconcile_def Let_def nth_enumerate_eq plan_second_def decide_def)

lemma plan_ids_apart:
  assumes "is_plan ds rows" and "distinct (map rs_ID rows)"
  shows "closed_ids ds \<inter> adopted_ids ds = {}"
proof -
  from assms(1) have "map rd_Session ds = rows" by (auto simp: is_plan_def sessions_PlanReconcile)
  then have "map (\<lambda>d. rs_ID (rd_Session d)) ds = map rs_ID rows" by auto
  with assms(2) have "distinct (map (\<lambda>d. rs_ID (rd_Session d)) ds)" by simp
  then have "inj_on (\<lambda>d. rs_ID (rd_Session d)) (set ds)" by (simp only: distinct_map)
  then show ?thesis unfolding closed_ids_def adopted_ids_def
    by (auto dest!: inj_onD)
qed

lemma ids_of_boot_closes: "ids_of (take n (boot_closes late ds)) \<subseteq> closed_ids ds"
proof -
  have "set (boot_closes late ds) \<subseteq> {d \<in> set ds. rd_Action d = ActClose}"
    by (auto simp: boot_closes_def is_close_for_def)
  then show ?thesis using set_take_subset [of n "boot_closes late ds"]
    unfolding ids_of_def closed_ids_def by blast
qed

lemma accounted_boot_calls:
  assumes p: "is_plan ds rows" and c: "accounted (take MaxBootCloses (boot_closes late ds)) res res' cs"
  shows "boot_calls cs"
proof -
  from c have "length cs \<le> MaxBootCloses" by (simp add: accounted_def)
  moreover have "list_all (is_close_of (closed_ids ds)) cs"
    using c is_close_mono [OF ids_of_boot_closes [of MaxBootCloses late ds]]
    by (auto simp: accounted_def list_all_iff)
  ultimately show ?thesis using p plan_ids_apart [OF p] unfolding boot_calls_def by blast
qed

lemma plan_quiet [quiet_intro]: "quiet (plan E configured late)"
proof -
  have d: "quiet (apply_decisions E late ds a)" for ds a
    by (induction ds arbitrary: a) (auto simp: apply_decision_def intro!: quiet_intro)
  show ?thesis
    unfolding plan_def plan_listed_def ask_catalog_def by (intro quiet_intro d)
qed

lemma boot_passed_calls:
  assumes p: "run_state (plan E configured late) s = (Inr r, s1)" and b: "run_state (boot_passed E b r) s1 = (st, s')"
  shows "\<exists>cs. sy_calls s' = sy_calls s @ cs \<and> boot_calls cs"
proof -
  obtain res closes evs where r: "r = (res, closes, evs)" by (cases r)
  from plan_collects [OF p [unfolded r]] obtain rows ds where
    ds: "is_plan ds rows" "closes = take MaxBootCloses (boot_closes late ds)" by blast
  from b obtain u s2 res' evs' s3 where g: "run_state (mu_do E (\<lambda>t. ReleaseGate)) s1 = (u, s2)"
    and c: "run_state (runCloses E closes (res\<lparr>rr_Attempts := bt_attempts b\<rparr>) evs) s2 = ((res', evs'), s3)" and "s' = s3"
    unfolding boot_passed_def r by (auto elim!: run_bindE simp del: runCloses.simps)
  from runCloses_accounted [OF c] obtain cs where
    "sy_calls s3 = sy_calls s2 @ cs" "accounted closes (res\<lparr>rr_Attempts := bt_attempts b\<rparr>) res' cs" by blast
  with accounted_boot_calls [OF ds(1)] ds(2) quietD [OF plan_quiet p] quietD [OF quiet_sections(1) g] \<open>s' = s3\<close>
  show ?thesis by auto
qed

lemma boot_loop_calls:
  "run_state (boot_loop E configured cfg fuel b) s = (r, s') \<Longrightarrow> \<exists>cs. sy_calls s' = sy_calls s @ cs \<and> boot_calls cs"
proof (induction fuel arbitrary: b s)
  case 0
  then show ?case by simp
next
  case (Suc fuel)
  let ?b = "b\<lparr>bt_attempts := Suc (bt_attempts b)\<rparr>"
  from Suc.prems obtain p s1 where p: "run_state (plan E configured (\<not> bt_gated ?b)) s = (p, s1)"
    and k: "run_state (case p of
           Inr r \<Rightarrow> do { st \<leftarrow> boot_passed E ?b r; ret (Some st) }
         | Inl e \<Rightarrow> do {
             now \<leftarrow> clock E;
             _ \<leftarrow> (if gives_up now ?b then mu_do E (\<lambda>t. ReleaseGate) else ret ());
             (case after_failure cfg now e ?b of (b1, wait) \<Rightarrow> do {
                ended \<leftarrow> pause E True wait;
                if ended then do { _ \<leftarrow> mu_do E (\<lambda>t. ReleaseGate); ret (Some (bt_status b1, [])) }
                else boot_loop E configured cfg fuel b1 }) }) s1 = (r, s')"
    unfolding boot_loop.simps Let_def by (elim run_bindE)
  show ?case
  proof (cases p)
    case (Inr x)
    with k obtain st where "run_state (boot_passed E ?b x) s1 = (st, s')"
      by (auto elim!: run_bindE simp del: bt_attempts_update_def)
    from boot_passed_calls [OF p [unfolded Inr] this] show ?thesis .
  next
    case (Inl e)
    with k obtain now s2 u s3 where t: "run_state (clock E) s1 = (now, s2)"
      and g: "run_state (if gives_up now ?b then mu_do E (\<lambda>t. ReleaseGate) else ret ()) s2 = (u, s3)"
      and k3: "run_state (case after_failure cfg now e ?b of (b1, wait) \<Rightarrow> do {
                ended \<leftarrow> pause E True wait;
                if ended then do { _ \<leftarrow> mu_do E (\<lambda>t. ReleaseGate); ret (Some (bt_status b1, [])) }
                else boot_loop E configured cfg fuel b1 }) s3 = (r, s')"
      by (auto elim!: run_bindE)
    obtain b1 wait where b1: "after_failure cfg now e ?b = (b1, wait)" by (cases "after_failure cfg now e ?b")
    from k3 [unfolded b1 prod.case] obtain ended s4 where w: "run_state (pause E True wait) s3 = (ended, s4)"
      and k4: "run_state (if ended then do { _ \<leftarrow> mu_do E (\<lambda>t. ReleaseGate); ret (Some (bt_status b1, [])) }
                else boot_loop E configured cfg fuel b1) s4 = (r, s')"
      by (elim run_bindE)
    have g': "quiet (if gives_up now ?b then mu_do E (\<lambda>t. ReleaseGate) else ret ())" by (intro quiet_intro)
    have q: "sy_calls s4 = sy_calls s"
      using quietD [OF plan_quiet p] quietD [OF quiet_clock t] quietD [OF g' g] quietD [OF quiet_pause w] by simp
    show ?thesis
    proof (cases ended)
      case True
      with k4 have "sy_calls s' = sy_calls s4 @ []"
        by (auto elim!: run_bindE dest!: quietD [OF quiet_sections(1)])
      with q show ?thesis using boot_calls_Nil by metis
    next
      case False
      with k4 Suc.IH [of b1 s4] q show ?thesis by simp
    qed
  qed
qed


subsection \<open>A pass that cannot list the wallet\<close>

text \<open>
  A pass that fails changes nothing. When the wallet, the listing or a row of it cannot be
  trusted, the pass sends no call and keeps every property of the pool that the other goroutines
  keep: nothing is adopted, marked closing, or taken for known.
\<close>

theorem plan_fails_safe:
  assumes E: "env_keeps E J" and J: "J (sy_pool s)" and run: "run_state (plan E configured late) s = (Inl e, s')"
  shows "J (sy_pool s') \<and> sy_calls s' = sy_calls s"
proof -
  from run obtain w s1 where 1: "run_state (ask E (en_wallet E adminTimeout)) s = (w, s1)"
    and k: "run_state (case w of
        Inl e \<Rightarrow> ret (Inl (WalletErr e))
      | Inr addr \<Rightarrow> do {
          l \<leftarrow> ask E (en_list E addr adminTimeout);
          (case l of
             Inl e \<Rightarrow> ret (Inl (ListErr e))
           | Inr rows \<Rightarrow>
               if \<not> verifiable rows then ret (Inl ErrUnverifiable)
               else do { r \<leftarrow> plan_listed E configured late addr rows; ret (Inr r) }) }) s1 = (Inl e, s')"
    unfolding plan_def by (elim run_bindE)
  have m1: "J (sy_pool s1) \<and> sy_calls s1 = sy_calls s"
    using muteD [OF mute_ask [OF E, where Q = "\<lambda>_. True"] J 1] by simp
  show ?thesis
  proof (cases w)
    case (Inl x)
    with k m1 show ?thesis by simp
  next
    case (Inr addr)
    with k obtain l s2 where 2: "run_state (ask E (en_list E addr adminTimeout)) s1 = (l, s2)" and "s' = s2"
      by (auto elim!: run_bindE split: sum.splits if_splits)
    with muteD [OF mute_ask [OF E, where Q = "\<lambda>_. True"] _ 2] m1 show ?thesis by simp
  qed
qed

lemma plan_fails_safe_witness:
  "\<exists>s'. run_state (plan mute_router None False) (script_sys gated_pool []) = (Inl (ListErr (StatusErr 503 [])), s') \<and>
     unlisted (sy_pool s')"
proof -
  let ?s = "script_sys gated_pool []"
  have r: "run_state (plan mute_router None False) ?s = (Inl (ListErr (StatusErr 503 [])), ?s)"
    by (simp add: plan_def mute_router_def script_env_def script_sys_def State_Monad.run_state_bind ask_def
        others_def in_world_def cong: bind_weak_cong)
  have "env_keeps mute_router unlisted" by (simp add: env_keeps_def mute_router_def script_env_def)
  moreover have "unlisted (sy_pool ?s)"
    by (simp add: script_sys_def gated_pool_def unlisted_def new_pool_def)
  ultimately show ?thesis using plan_fails_safe [OF _ _ r] r by blast
qed

text \<open>
  Every row of a listing is accounted for. A pass that goes through sends nothing itself; each row
  is adopted, skipped, planned for closing, or deferred, at most \<open>MaxBootCloses\<close> closes are planned,
  expired sessions before those of excluded providers before duplicates, and a late pass leaves the
  duplicates.
\<close>

theorem plan_accounts:
  "case run_state (plan E configured late) s of (r, s') \<Rightarrow> sy_calls s' = sy_calls s \<and>
     (case r of Inl e \<Rightarrow> True
      | Inr (res, closes, evs) \<Rightarrow> \<exists>rows ds. is_plan ds rows \<and> closes = take MaxBootCloses (boot_closes late ds) \<and>
          rr_Open res = length rows \<and> rr_Deferred res = length (boot_closes late ds) - MaxBootCloses \<and>
          rr_Adopted res + rr_Skipped res + rr_Deferred res + length closes = rr_Open res)"
proof -
  obtain r s' where run: "run_state (plan E configured late) s = (r, s')" by (metis surj_pair)
  show ?thesis
  proof (cases r)
    case (Inl e)
    with run quietD [OF plan_quiet run] show ?thesis by simp
  next
    case (Inr x)
    obtain res closes evs where x: "x = (res, closes, evs)" by (cases x)
    from plan_collects [OF run [unfolded Inr x]] quietD [OF plan_quiet run] run Inr x show ?thesis by auto
  qed
qed

subsection \<open>The gate\<close>

definition gate_open :: "pool \<Rightarrow> bool" where
  "gate_open p \<longleftrightarrow> mGate (plMu p) \<noteq> GateClosed"

text \<open>A computation that leaves the gate open once it is open.\<close>

definition stays_open :: "'w env \<Rightarrow> ('w, 'a) act \<Rightarrow> bool" where
  "stays_open E f \<longleftrightarrow> (env_keeps E gate_open \<longrightarrow> keeps (\<lambda>s. gate_open (sy_pool s)) f)"

named_theorems open_intro \<open>computations that leave the gate open\<close>

lemma stays_openI: "(env_keeps E gate_open \<Longrightarrow> keeps (\<lambda>s. gate_open (sy_pool s)) f) \<Longrightarrow> stays_open E f"
  by (simp add: stays_open_def)

lemma stays_open_silent: "(env_keeps E gate_open \<Longrightarrow> silent gate_open f) \<Longrightarrow> stays_open E f"
  by (rule stays_openI) (auto simp: keeps_def dest: muteD [OF _ _ prod.collapse [symmetric]])

lemma stays_open_monad [open_intro]:
  "stays_open E (ret a)"
  "stays_open E f \<Longrightarrow> (\<And>a. stays_open E (g a)) \<Longrightarrow> stays_open E (f \<bind> g)"
  "stays_open E f1 \<Longrightarrow> stays_open E f2 \<Longrightarrow> stays_open E (if b then f1 else f2)"
  "stays_open E f1 \<Longrightarrow> (\<And>x. stays_open E (h x)) \<Longrightarrow> stays_open E (case q of None \<Rightarrow> f1 | Some x \<Rightarrow> h x)"
  by (auto simp: stays_open_def intro: keeps_intro split: option.split)

lemma stays_open_with_mu:
  assumes "\<And>t m. mGate m \<noteq> GateClosed \<Longrightarrow> mGate (snd (f t m)) \<noteq> GateClosed"
  shows "stays_open E (with_mu E f)"
proof (rule stays_open_silent)
  assume "env_keeps E gate_open"
  then show "silent gate_open (with_mu E f)" unfolding with_mu_def
  proof (rule mute_on_pool)
    fix t p assume "gate_open p"
    with assms [of "plMu p" t] show "gate_open (snd (case f t (plMu p) of (a, m) \<Rightarrow> (a, p\<lparr>plMu := m\<rparr>))) \<and> True"
      by (cases "f t (plMu p)") (simp add: gate_open_def)
  qed
qed

lemma stays_open_sections [open_intro]:
  "stays_open E (with_fmu E f2)" "stays_open E (with_atoms E f3)" "stays_open E (with_chain E f4)"
  "stays_open E (with_slot E f5)" "stays_open E (requestSweep E)" "stays_open E (with_log E f6)"
  unfolding with_fmu_def with_atoms_def with_chain_def with_slot_def with_log_def requestSweep_def
  by (rule stays_open_silent, rule mute_on_pool, assumption, auto simp: gate_open_def split: prod.splits)+

lemma stays_open_reads [open_intro]:
  "stays_open E (clock E)" "stays_open E (check_ctx E cx)" "stays_open E (slot_left E tok)" "stays_open E (call_time E tok per)"
  "stays_open E (ask E f)" "stays_open E (mu_get E h)"
  by (rule stays_open_silent, rule mute_reads mute_ask mute_get(1), assumption, simp?)+

lemma stays_open_state:
  "(\<And>s. sy_pool (snd (run_state f s)) = sy_pool s) \<Longrightarrow> stays_open E f"
  by (rule stays_openI) (simp add: keeps_def)

lemma mGate_sections [simp]:
  "mGate (forget i m) = mGate m" "mGate (snd (cutCloseMarkLocked t m)) = mGate m"
  "mGate (mark_closing i u m) = mGate m" "mGate (unmark_closing i m) = mGate m" "mGate (mark_cut t i m) = mGate m"
  "mGate (clear_closed i m) = mGate m" "mGate (unmark_planned ds m) = mGate m"
proof -
  show "mGate (unmark_planned ds m) = mGate m" unfolding unmark_planned_def
    by (induction ds arbitrary: m) (simp_all add: unmark_closing_def)
qed (simp_all add: forget_def cutCloseMarkLocked_def mark_closing_def unmark_closing_def mark_cut_def
  clear_closed_def Let_def split: prod.split)

lemma stays_open_log_call [open_intro]: "stays_open E (log_call c)"
  by (rule stays_open_state) (simp add: log_call_def)

lemma stays_open_notify [open_intro]:
  "stays_open E (notifyClosed E i)" "stays_open E (emitRescan E src reason i res)" "stays_open E (close_done E i)"
  unfolding notifyClosed_def emitRescan_def close_done_def
  by (intro open_intro stays_open_with_mu; simp)+

lemma stays_open_close [open_intro]: "stays_open E (closeWithToken E tok i reason src per)"
proof -
  have "stays_open E (after_close E tok i reason src answer)" for answer
    unfolding after_close_def by (intro open_intro stays_open_with_mu; simp)
  then show ?thesis unfolding closeWithToken_def post_close_def
    by (intro open_intro stays_open_with_mu; simp)
qed

lemma stays_open_slot [open_intro]: "stays_open E (slot_try_act E key)" "stays_open E (slot_release_act E tok)"
  unfolding slot_try_act_def slot_release_act_def took_def
  by (intro open_intro stays_open_state; simp)+

lemma stays_open_runCloses [open_intro]: "stays_open E (runCloses E ds res evs)"
proof (induction ds arbitrary: res evs)
  case Nil
  show ?case by (simp add: open_intro)
next
  case (Cons d ds)
  show ?case unfolding runCloses.simps defer_closes_def
    by (intro open_intro stays_open_with_mu Cons.IH; simp)
qed

text \<open>Releasing opens it, whatever it was.\<close>

lemma mGate_ReleaseGate [simp]: "mGate (ReleaseGate m) \<noteq> GateClosed"
  by (simp add: ReleaseGate_def)

lemma run_ReleaseGate:
  "run_state (mu_do E (\<lambda>t. ReleaseGate)) s = (u, s') \<Longrightarrow> gate_open (sy_pool s')"
  by (cases "en_others E (sy_pool s) (sy_world s)")
    (auto simp: with_mu_def on_pool_def others_def State_Monad.run_state_bind gate_open_def)

lemma stays_openD:
  "stays_open E f \<Longrightarrow> env_keeps E gate_open \<Longrightarrow> gate_open (sy_pool s) \<Longrightarrow> run_state f s = (a, s') \<Longrightarrow> gate_open (sy_pool s')"
  unfolding stays_open_def keeps_def by (metis snd_conv)

lemma boot_loop_opens:
  assumes E: "env_keeps E gate_open"
  shows "run_state (boot_loop E configured cfg fuel b) s = (Some r, s') \<Longrightarrow> gate_open (sy_pool s')"
proof (induction fuel arbitrary: b s)
  case 0
  then show ?case by simp
next
  case (Suc fuel)
  let ?b = "b\<lparr>bt_attempts := Suc (bt_attempts b)\<rparr>"
  from Suc.prems obtain p s1 where k: "run_state (case p of
           Inr r \<Rightarrow> do { st \<leftarrow> boot_passed E ?b r; ret (Some st) }
         | Inl e \<Rightarrow> do {
             now \<leftarrow> clock E;
             _ \<leftarrow> (if gives_up now ?b then mu_do E (\<lambda>t. ReleaseGate) else ret ());
             (case after_failure cfg now e ?b of (b1, wait) \<Rightarrow> do {
                ended \<leftarrow> pause E True wait;
                if ended then do { _ \<leftarrow> mu_do E (\<lambda>t. ReleaseGate); ret (Some (bt_status b1, [])) }
                else boot_loop E configured cfg fuel b1 }) }) s1 = (Some r, s')"
    unfolding boot_loop.simps Let_def by (elim run_bindE)
  show ?case
  proof (cases p)
    case (Inr x)
    with k obtain u s2 res evs where g: "run_state (mu_do E (\<lambda>t. ReleaseGate)) s1 = (u, s2)"
      and c: "run_state (runCloses E (fst (snd x)) ((fst x)\<lparr>rr_Attempts := bt_attempts ?b\<rparr>) (snd (snd x))) s2 = ((res, evs), s')"
      unfolding boot_passed_def by (cases x) (auto elim!: run_bindE simp del: runCloses.simps)
    show ?thesis by (rule stays_openD [OF stays_open_runCloses E run_ReleaseGate [OF g] c])
  next
    case (Inl e)
    with k obtain now s2 u s3 where k3: "run_state (case after_failure cfg now e ?b of (b1, wait) \<Rightarrow> do {
                ended \<leftarrow> pause E True wait;
                if ended then do { _ \<leftarrow> mu_do E (\<lambda>t. ReleaseGate); ret (Some (bt_status b1, [])) }
                else boot_loop E configured cfg fuel b1 }) s3 = (Some r, s')"
      by (auto elim!: run_bindE)
    obtain b1 wait where b1: "after_failure cfg now e ?b = (b1, wait)" by (cases "after_failure cfg now e ?b")
    from k3 [unfolded b1 prod.case] obtain ended s4 where
      k4: "run_state (if ended then do { _ \<leftarrow> mu_do E (\<lambda>t. ReleaseGate); ret (Some (bt_status b1, [])) }
                else boot_loop E configured cfg fuel b1) s4 = (Some r, s')"
      by (elim run_bindE)
    show ?thesis
    proof (cases ended)
      case True
      with k4 show ?thesis by (auto elim!: run_bindE dest: run_ReleaseGate)
    next
      case False
      with k4 Suc.IH show ?thesis by simp
    qed
  qed
qed

text \<open>
  C15: when \<open>StartupReconcile\<close> returns, opens may proceed: the gate is open on every path out of it, after a
  pass that went through, after a gate given up, and after the program's context ended.
\<close>

theorem startup_releases_gate:
  assumes "env_keeps E gate_open" and "run_state (StartupReconcile E configured cfg fuel st0) s = (Some r, s')"
  shows "gate_open (sy_pool s')"
  using assms(2) unfolding StartupReconcile_def Let_def
  by (auto elim!: run_bindE intro: boot_loop_opens [OF assms(1)])

lemma startup_releases_gate_witness:
  "\<exists>r s'. run_state (StartupReconcile script_env None
      \<lparr>cf_Backoff = 0, cf_BackoffMax = 0, cf_GateFor = 0, cf_RetryEvery = 0\<rparr> 3 (passed_status 0 (new_result 0 False ([], False))))
      (script_sys (close_gate (new_pool 3600 0)) []) = (Some r, s') \<and> gate_open (sy_pool s') \<and>
   \<not> gate_open (close_gate (new_pool 3600 0))"
proof -
  let ?run = "run_state (StartupReconcile script_env None
      \<lparr>cf_Backoff = 0, cf_BackoffMax = 0, cf_GateFor = 0, cf_RetryEvery = 0\<rparr> 3 (passed_status 0 (new_result 0 False ([], False))))
      (script_sys (close_gate (new_pool 3600 0)) [])"
  obtain q s' where e: "?run = (q, s')" by (metis surj_pair)
  have wallet: "en_wallet script_env l w = (Inr ''0xw'', w)" "en_list script_env a l w = (Inr [], w)" for a l w
    by (simp_all add: script_env_def)
  have 3: "(3 :: nat) = Suc 2" by simp
  from e have "q \<noteq> None"
    unfolding StartupReconcile_def Let_def 3 boot_loop.simps plan_def plan_listed_def ask_catalog_def boot_passed_def
    by (auto simp: script_eval wallet verifiable_def PlanReconcile_def capped_def all_closes_def script_sys_def
        split: prod.splits)
  then obtain r where q: "q = Some r" by blast
  have "env_keeps script_env gate_open" by (simp add: env_keeps_def script_env_def)
  from startup_releases_gate [OF this e [unfolded q]] e q show ?thesis
    by (auto simp: gate_open_def close_gate_def new_pool_def new_mu_def)
qed

subsection \<open>How long the gate stays closed\<close>

text \<open>Attempts that fail, at the given times, each no sooner than the wait after the one before.\<close>

fun boot_after :: "rec_config \<Rightarrow> plan_err \<Rightarrow> boot \<Rightarrow> time list \<Rightarrow> boot" where
  "boot_after cfg e b [] = b"
| "boot_after cfg e b (t # ts) =
     boot_after cfg e (fst (after_failure cfg t e (b\<lparr>bt_attempts := Suc (bt_attempts b)\<rparr>))) ts"

fun spaced :: "rec_config \<Rightarrow> plan_err \<Rightarrow> time \<Rightarrow> boot \<Rightarrow> time list \<Rightarrow> bool" where
  "spaced cfg e t0 b [] = True"
| "spaced cfg e t0 b (t # ts) = (t0 \<le> t \<and>
     (case after_failure cfg t e (b\<lparr>bt_attempts := Suc (bt_attempts b)\<rparr>) of (b1, wait) \<Rightarrow> spaced cfg e (t + wait) b1 ts))"

definition first_boot :: "rec_config \<Rightarrow> time \<Rightarrow> rec_state \<Rightarrow> boot" where
  "first_boot cfg now st = \<lparr>bt_attempts = 0, bt_delay = cf_Backoff cfg, bt_gated = True, bt_deadline = now + cf_GateFor cfg,
     bt_status = st\<rparr>"

lemma after_failure_gated:
  assumes "after_failure cfg t e b = (b1, wait)" and "bt_gated b1"
  shows "bt_gated b \<and> wait = bt_delay b \<and> t + wait \<le> bt_deadline b \<and> bt_deadline b1 = bt_deadline b \<and>
    bt_delay b1 = min (cf_BackoffMax cfg) (2 * bt_delay b)"
  using assms by (auto simp: after_failure_def gives_up_def Let_def)

lemma ungated_stays: "\<not> bt_gated b \<Longrightarrow> \<not> bt_gated (boot_after cfg e b ts)"
proof (induction ts arbitrary: b)
  case (Cons t ts)
  then show ?case by (simp add: after_failure_def Let_def)
qed simp

lemma gated_attempts:
  assumes "bt_gated (boot_after cfg e b ts)" and "spaced cfg e t0 b ts" and "t0 \<le> bt_deadline b"
    and "0 < d" and "d \<le> bt_delay b" and "d \<le> cf_BackoffMax cfg"
  shows "t0 + int (length ts) * d \<le> bt_deadline b"
  using assms
proof (induction ts arbitrary: t0 b)
  case Nil
  then show ?case by simp
next
  case (Cons t ts)
  let ?b = "b\<lparr>bt_attempts := Suc (bt_attempts b)\<rparr>"
  obtain b1 wait where f: "after_failure cfg t e ?b = (b1, wait)" by (cases "after_failure cfg t e ?b")
  from Cons.prems(1) f have g: "bt_gated (boot_after cfg e b1 ts)" by simp
  then have "bt_gated b1" using ungated_stays by blast
  note a = after_failure_gated [OF f this]
  from Cons.prems(2) f have sp: "t0 \<le> t" "spaced cfg e (t + wait) b1 ts" by simp_all
  have "t + wait + int (length ts) * d \<le> bt_deadline b1"
    using a Cons.prems(4-6) by (intro Cons.IH [OF g sp(2)]) simp_all
  moreover have "d \<le> wait" using a Cons.prems(5) by simp
  ultimately show ?case using sp(1) a by (simp add: distrib_right)
qed

text \<open>
  Opens are not held back longer than configured. While the gate is still closed after some failed
  attempts, the attempts and the waits between them fit into \<open>GateFor\<close>: with \<open>d\<close> the smaller of the first
  delay and the delay cap, there were at most \<open>GateFor / d\<close> of them (30 with the defaults).
\<close>

theorem gate_bounded:
  assumes "cfg = rec_defaults cfg0" and "spaced cfg e now (first_boot cfg now st) ts"
    and "bt_gated (boot_after cfg e (first_boot cfg now st) ts)"
  shows "int (length ts) * min (cf_Backoff cfg) (cf_BackoffMax cfg) \<le> cf_GateFor cfg"
proof -
  have "0 < min (cf_Backoff cfg) (cf_BackoffMax cfg)" and "0 \<le> cf_GateFor cfg"
    by (auto simp: assms(1) rec_defaults_def or_default_def second_def)
  from gated_attempts [OF assms(3,2) _ this(1)] this(2) show ?thesis by (simp add: first_boot_def)
qed

lemma gate_bounded_witness:
  "let cfg = rec_defaults \<lparr>cf_Backoff = 0, cf_BackoffMax = 0, cf_GateFor = 0, cf_RetryEvery = 0\<rparr>;
       ts = [0, 2 * second, 6 * second, 14 * second]; b = first_boot cfg 0 (passed_status 0 (new_result 0 False ([], False)))
   in bt_gated (boot_after cfg ErrUnverifiable b ts) \<and> \<not> bt_gated (boot_after cfg ErrUnverifiable b (ts @ [50 * second])) \<and>
      4 * min (cf_Backoff cfg) (cf_BackoffMax cfg) \<le> cf_GateFor cfg"
proof -
  let ?c = "rec_defaults \<lparr>cf_Backoff = 0, cf_BackoffMax = 0, cf_GateFor = 0, cf_RetryEvery = 0\<rparr>"
  let ?b = "first_boot ?c 0 (passed_status 0 (new_result 0 False ([], False)))"
  let ?ts = "[0, 2 * second, 6 * second, 14 * second]"
  have "spaced ?c ErrUnverifiable 0 ?b ?ts" by code_simp
  moreover have g: "bt_gated (boot_after ?c ErrUnverifiable ?b ?ts)" by code_simp
  ultimately have "int (length ?ts) * min (cf_Backoff ?c) (cf_BackoffMax ?c) \<le> cf_GateFor ?c"
    by (rule gate_bounded [OF refl])
  moreover have "\<not> bt_gated (boot_after ?c ErrUnverifiable ?b (?ts @ [50 * second]))" by code_simp
  ultimately show ?thesis using g unfolding Let_def by simp
qed

end
