(* ===== verification/Admin_Sessions.thy ===== *)
theory Admin_Sessions
  imports Prelude
begin

section \<open>Admin sessions (\<open>internal/adminauth/session.go\<close>)\<close>

text \<open>
  The store of logged-in admin sessions, keyed by the hex form of the token's hash. The hash
  (\<open>sha256.Sum256\<close>) is a parameter \<open>H\<close>, the token's 32 random bytes are an input of \<open>Create\<close>, and each
  operation runs under the store's mutex at a time \<open>now\<close>. Hex coding is modelled as the code uses it
  (\<open>encoding/hex\<close>).
\<close>

subsection \<open>Hex\<close>

definition hex_digit :: "nat \<Rightarrow> char" where
  "hex_digit n = (if n < 10 then char_of (48 + n) else char_of (87 + n))"

definition hex_val :: "char \<Rightarrow> nat option" where
  "hex_val c = (let n = (of_char c :: nat) in
     if 48 \<le> n \<and> n \<le> 57 then Some (n - 48)
     else if 97 \<le> n \<and> n \<le> 102 then Some (n - 87)
     else if 65 \<le> n \<and> n \<le> 70 then Some (n - 55)
     else None)"

fun hex_encode :: "string \<Rightarrow> string" where
  "hex_encode [] = []"
| "hex_encode (c # cs) = hex_digit (of_char c div 16) # hex_digit (of_char c mod 16) # hex_encode cs"

fun hex_decode :: "string \<Rightarrow> string option" where
  "hex_decode [] = Some []"
| "hex_decode [c] = None"
| "hex_decode (a # b # cs) =
     (case (hex_val a, hex_val b, hex_decode cs) of
        (Some x, Some y, Some r) \<Rightarrow> Some (char_of (16 * x + y) # r)
      | _ \<Rightarrow> None)"

lemma hex_val_digit: "n < 16 \<Longrightarrow> hex_val (hex_digit n) = Some n"
  by (auto simp: hex_val_def hex_digit_def Let_def)

lemma hex_decode_encode [simp]: "hex_decode (hex_encode s) = Some s"
proof (induction s)
  case (Cons c s)
  have "(of_char c :: nat) < 256" by (rule nat_of_char_less_256)
  then have "(of_char c :: nat) div 16 < 16" by (simp add: less_mult_imp_div_less)
  then show ?case using Cons by (simp add: hex_val_digit)
qed simp

subsection \<open>Sessions\<close>

record admin_session =
  as_Hash :: string
  as_CreatedAt :: time
  as_LastSeen :: time
  as_IP :: string
  as_StepUpAt :: time

definition SessionAbsolute :: dur where "SessionAbsolute = 12 * hour"
definition SessionIdle :: dur where "SessionIdle = 4 * hour"
definition MaxSessions :: nat where "MaxSessions = 10"

definition Fresh :: "time \<Rightarrow> dur \<Rightarrow> admin_session \<Rightarrow> bool" where
  "Fresh now maxAge s =
     (let at = (if as_StepUpAt s > as_CreatedAt s then as_StepUpAt s else as_CreatedAt s) in now - at \<le> maxAge)"

text \<open>The oldest entry in the map's order: the first one with the least creation time.\<close>

fun oldest_of :: "(string \<times> time) option \<Rightarrow> (string \<times> admin_session) list \<Rightarrow> (string \<times> time) option" where
  "oldest_of b [] = b"
| "oldest_of b ((h, s) # es) =
     oldest_of (case b of None \<Rightarrow> Some (h, as_CreatedAt s)
                | Some (k, t) \<Rightarrow> if as_CreatedAt s < t then Some (h, as_CreatedAt s) else b) es"

lemma oldest_of_mem:
  "oldest_of b es = Some (k, t) \<Longrightarrow> b = Some (k, t) \<or> (\<exists>s. (k, s) \<in> set es)"
proof (induction b es rule: oldest_of.induct)
  case (2 b h s es)
  from "2.IH" "2.prems" show ?case by (auto split: option.splits if_splits)
qed simp

lemma oldest_of_some: "b \<noteq> None \<or> es \<noteq> [] \<Longrightarrow> oldest_of b es \<noteq> None"
  by (induction b es rule: oldest_of.induct) (auto split: option.splits)

lemma mlen_mdel_less:
  assumes "mget m k \<noteq> None" shows "mlen (mdel k m) < mlen m"
proof -
  from assms obtain v where "(k, v) \<in> set (mitems m)" by (auto simp: mem_mitems)
  then have "0 < mlen m" by (cases "mitems m") (auto simp: mlen_def)
  with assms show ?thesis by (simp add: mlen_mdel)
qed

text \<open>\<open>Create\<close> drops the oldest sessions until there is room.\<close>

function evict_sessions :: "admin_session gomap \<Rightarrow> admin_session gomap" where
  "evict_sessions m =
     (if mlen m \<ge> MaxSessions
      then (case oldest_of None (mitems m) of None \<Rightarrow> m | Some (h, t) \<Rightarrow> evict_sessions (mdel h m))
      else m)"
  by pat_completeness auto

termination
proof (relation "measure mlen")
  fix m :: "admin_session gomap" and x h t
  assume "oldest_of None (mitems m) = Some x" and "(h, t) = x"
  then have "mget m h \<noteq> None" using oldest_of_mem [of None "mitems m" h t] by (auto simp: mem_mitems)
  from mlen_mdel_less [OF this] show "(mdel h m, m) \<in> measure mlen" by simp
qed simp

declare evict_sessions.simps [simp del]

definition Create :: "(string \<Rightarrow> string) \<Rightarrow> time \<Rightarrow> string \<Rightarrow> string \<Rightarrow> admin_session gomap \<Rightarrow> string \<times> admin_session gomap" where
  "Create H now ip raw m =
     (let h = hex_encode (H raw)
      in (hex_encode raw,
          mput h \<lparr>as_Hash = h, as_CreatedAt = now, as_LastSeen = now, as_IP = ip, as_StepUpAt = zero_time\<rparr> (evict_sessions m)))"

definition hashRaw :: "(string \<Rightarrow> string) \<Rightarrow> string \<Rightarrow> string option" where
  "hashRaw H tok = (case hex_decode tok of
     None \<Rightarrow> None | Some raw \<Rightarrow> if length raw \<noteq> 32 then None else Some (hex_encode (H raw)))"

definition Lookup ::
  "(string \<Rightarrow> string) \<Rightarrow> time \<Rightarrow> string \<Rightarrow> bool \<Rightarrow> admin_session gomap \<Rightarrow> admin_session option \<times> admin_session gomap" where
  "Lookup H now tok extendIdle m =
     (case hashRaw H tok of
        None \<Rightarrow> (None, m)
      | Some h \<Rightarrow>
          (case mget m h of
             None \<Rightarrow> (None, m)
           | Some s \<Rightarrow>
               if now - as_CreatedAt s > SessionAbsolute then (None, mdel h m)
               else if now - as_LastSeen s > SessionIdle then (None, mdel h m)
               else let s1 = (if extendIdle then s\<lparr>as_LastSeen := now\<rparr> else s) in (Some s1, mput h s1 m)))"

definition RevokeRaw :: "(string \<Rightarrow> string) \<Rightarrow> string \<Rightarrow> admin_session gomap \<Rightarrow> admin_session gomap" where
  "RevokeRaw H tok m = (case hex_decode tok of None \<Rightarrow> m | Some raw \<Rightarrow> mdel (hex_encode (H raw)) m)"

definition StampStepUp ::
  "(string \<Rightarrow> string) \<Rightarrow> time \<Rightarrow> string \<Rightarrow> admin_session gomap \<Rightarrow> time option \<times> admin_session gomap" where
  "StampStepUp H now tok m =
     (case hashRaw H tok of
        None \<Rightarrow> (None, m)
      | Some h \<Rightarrow> (case mget m h of
          None \<Rightarrow> (None, m)
        | Some s \<Rightarrow> (Some now, mput h (s\<lparr>as_StepUpAt := now\<rparr>) m)))"

definition ObserveIP ::
  "(string \<Rightarrow> string) \<Rightarrow> string \<Rightarrow> string \<Rightarrow> admin_session gomap \<Rightarrow> string option \<times> admin_session gomap" where
  "ObserveIP H tok ip m =
     (case hashRaw H tok of
        None \<Rightarrow> (None, m)
      | Some h \<Rightarrow>
          if ip = [] then (None, m)
          else (case mget m h of
                  None \<Rightarrow> (None, m)
                | Some s \<Rightarrow> if as_IP s = ip then (None, m) else (Some (as_IP s), mput h (s\<lparr>as_IP := ip\<rparr>) m)))"

definition RevokeAllExcept :: "(string \<Rightarrow> string) \<Rightarrow> string \<Rightarrow> admin_session gomap \<Rightarrow> nat \<times> admin_session gomap" where
  "RevokeAllExcept H keepRaw m =
     (let keep = (case hashRaw H keepRaw of None \<Rightarrow> [] | Some h \<Rightarrow> h)
      in (length (filter (\<lambda>p. fst p \<noteq> keep) (mitems m)), mfilter (\<lambda>h s. h = keep) m))"

definition RevokeAll :: "admin_session gomap \<Rightarrow> nat \<times> admin_session gomap" where
  "RevokeAll m = (mlen m, [])"

subsection \<open>The cookie\<close>

record cookie =
  ck_Name :: string
  ck_Value :: string
  ck_Path :: string
  ck_HttpOnly :: bool
  ck_Strict :: bool
  ck_Secure :: bool
  ck_MaxAge :: int

definition CookieName :: "bool \<Rightarrow> string" where
  "CookieName devHTTP = (if devHTTP then ''uplink_admin_dev'' else ''__Host-uplink_admin'')"

definition SetSessionCookie :: "string \<Rightarrow> bool \<Rightarrow> cookie" where
  "SetSessionCookie tok devHTTP = \<lparr>ck_Name = CookieName devHTTP, ck_Value = tok, ck_Path = ''/'', ck_HttpOnly = True,
     ck_Strict = True, ck_Secure = (\<not> devHTTP), ck_MaxAge = go_div SessionAbsolute second\<rparr>"

definition ClearSessionCookie :: "bool \<Rightarrow> cookie" where
  "ClearSessionCookie devHTTP = \<lparr>ck_Name = CookieName devHTTP, ck_Value = [], ck_Path = ''/'', ck_HttpOnly = True,
     ck_Strict = True, ck_Secure = (\<not> devHTTP), ck_MaxAge = -1\<rparr>"

subsection \<open>Executions\<close>

datatype as_op =
    OpCreate string string          \<comment> \<open>address, random bytes\<close>
  | OpLookup string bool
  | OpRevoke string
  | OpStamp string
  | OpObserve string string
  | OpRevokeOthers string
  | OpRevokeAll

fun as_step :: "(string \<Rightarrow> string) \<Rightarrow> time \<Rightarrow> as_op \<Rightarrow> admin_session gomap \<Rightarrow> admin_session gomap" where
  "as_step H now (OpCreate ip raw) m = snd (Create H now ip raw m)"
| "as_step H now (OpLookup tok ext) m = snd (Lookup H now tok ext m)"
| "as_step H now (OpRevoke tok) m = RevokeRaw H tok m"
| "as_step H now (OpStamp tok) m = snd (StampStepUp H now tok m)"
| "as_step H now (OpObserve tok ip) m = snd (ObserveIP H tok ip m)"
| "as_step H now (OpRevokeOthers tok) m = snd (RevokeAllExcept H tok m)"
| "as_step H now OpRevokeAll m = snd (RevokeAll m)"

fun as_run :: "(string \<Rightarrow> string) \<Rightarrow> (time \<times> as_op) list \<Rightarrow> admin_session gomap \<Rightarrow> admin_session gomap" where
  "as_run H [] m = m"
| "as_run H ((t, op) # ops) m = as_run H ops (as_step H t op m)"

subsection \<open>Eviction makes room\<close>

lemma evict_sessions_less: "mlen (evict_sessions m) < MaxSessions"
proof (induction m rule: evict_sessions.induct)
  case (1 m)
  show ?case
  proof (cases "mlen m \<ge> MaxSessions")
    case True
    then have "mitems m \<noteq> []" by (auto simp: mlen_def MaxSessions_def)
    then obtain h t where o: "oldest_of None (mitems m) = Some (h, t)"
      using oldest_of_some [of None "mitems m"] by auto
    from 1(1) [OF True o refl] True o show ?thesis by (simp add: evict_sessions.simps [of m])
  qed (simp add: evict_sessions.simps [of m])
qed

lemma evict_sessions_sub: "mget (evict_sessions m) h = Some s \<Longrightarrow> mget m h = Some s"
proof (induction m rule: evict_sessions.induct)
  case (1 m)
  show ?case
  proof (cases "mlen m \<ge> MaxSessions \<and> oldest_of None (mitems m) \<noteq> None")
    case True
    then obtain k t where o: "oldest_of None (mitems m) = Some (k, t)" by auto
    with True 1 have "mget (mdel k m) h = Some s" by (simp add: evict_sessions.simps [of m])
    then show ?thesis by (simp split: if_splits)
  next
    case False
    with 1(2) show ?thesis by (auto simp: evict_sessions.simps [of m] split: if_splits option.splits prod.splits)
  qed
qed

lemma mlen_mfilter_le: "mlen (mfilter P m) \<le> mlen m"
proof -
  have "{k. mget (mfilter P m) k \<noteq> None} \<subseteq> {k. mget m k \<noteq> None}" by (auto split: option.splits)
  from card_mono [OF mget_finite this] show ?thesis by (simp only: mlen_card)
qed

text \<open>
  Every entry was made by a login in the execution: it is filed under its own hash, with the login's
  time as its creation time.
\<close>

definition made_by :: "(string \<Rightarrow> string) \<Rightarrow> (time \<times> as_op) list \<Rightarrow> string \<Rightarrow> admin_session \<Rightarrow> bool" where
  "made_by H ops h s \<longleftrightarrow> as_Hash s = h \<and>
     (\<exists>ip raw. (as_CreatedAt s, OpCreate ip raw) \<in> set ops \<and> hex_encode (H raw) = h)"

definition as_ok :: "(string \<Rightarrow> string) \<Rightarrow> (time \<times> as_op) list \<Rightarrow> admin_session gomap \<Rightarrow> bool" where
  "as_ok H ops m \<longleftrightarrow> mlen m \<le> MaxSessions \<and> (\<forall>h s. mget m h = Some s \<longrightarrow> made_by H ops h s)"

lemma made_by_more: "made_by H ops h s \<Longrightarrow> made_by H (ops @ later) h s"
  by (auto simp: made_by_def)

lemma made_by_same:
  "made_by H ops h s \<Longrightarrow> as_Hash s' = as_Hash s \<Longrightarrow> as_CreatedAt s' = as_CreatedAt s \<Longrightarrow> made_by H ops h s'"
  by (simp add: made_by_def)

lemma as_ok_sub:
  assumes "as_ok H ops m" and "mlen m' \<le> mlen m" and "\<And>h s. mget m' h = Some s \<Longrightarrow> mget m h = Some s"
  shows "as_ok H (ops @ later) m'"
  using assms made_by_more by (fastforce simp: as_ok_def)

lemma as_ok_update:
  assumes "as_ok H ops m" and "mget m h = Some s" and "as_Hash s' = as_Hash s" and "as_CreatedAt s' = as_CreatedAt s"
  shows "as_ok H (ops @ later) (mput h s' m)"
  using assms made_by_more made_by_same by (fastforce simp: as_ok_def mlen_mput)

lemma mlen_mdel_le: "mlen (mdel k m) \<le> mlen m"
  by (simp add: mlen_mdel)

lemma as_step_ok:
  assumes ok: "as_ok H ops m" shows "as_ok H (ops @ [(t, op)]) (as_step H t op m)"
proof -
  have same: "as_ok H (ops @ [(t, op)]) m" by (rule as_ok_sub [OF ok]) simp_all
  have del: "as_ok H (ops @ [(t, op)]) (mdel h m)" for h
    by (rule as_ok_sub [OF ok mlen_mdel_le]) (simp split: if_splits)
  note upd = as_ok_update [OF ok]
  show ?thesis
  proof (cases op)
    case (OpCreate ip raw)
    let ?h = "hex_encode (H raw)"
    have "made_by H (ops @ [(t, op)]) h s" if "mget (as_step H t op m) h = Some s" for h s
    proof (cases "h = ?h")
      case True
      with that OpCreate have "as_Hash s = h" and "(as_CreatedAt s, OpCreate ip raw) \<in> set (ops @ [(t, op)])"
        by (auto simp: Create_def Let_def)
      with True show ?thesis unfolding made_by_def by blast
    next
      case False
      with that OpCreate have "mget m h = Some s" by (auto simp: Create_def Let_def dest: evict_sessions_sub)
      with ok show ?thesis by (auto simp: as_ok_def intro: made_by_more)
    qed
    then show ?thesis
      using OpCreate evict_sessions_less [of m] by (simp add: as_ok_def Create_def Let_def mlen_mput)
  next
    case (OpLookup tok ext)
    show ?thesis
    proof (cases "hashRaw H tok")
      case None
      with OpLookup same show ?thesis by (simp add: Lookup_def)
    next
      case (Some h)
      with OpLookup same del upd [of h] show ?thesis
        by (cases "mget m h") (simp_all add: Lookup_def Let_def)
    qed
  next
    case (OpStamp tok)
    with same upd show ?thesis by (auto simp: StampStepUp_def split: option.split)
  next
    case (OpObserve tok ip)
    with same upd show ?thesis by (auto simp: ObserveIP_def split: option.split)
  next
    case (OpRevoke tok)
    with same del show ?thesis by (auto simp: RevokeRaw_def split: option.split)
  next
    case (OpRevokeOthers tok)
    then show ?thesis
      by (auto simp: RevokeAllExcept_def Let_def intro!: as_ok_sub [OF ok] mlen_mfilter_le split: option.splits if_splits)
  next
    case OpRevokeAll
    then show ?thesis by (auto simp: RevokeAll_def mlen_def mitems_def intro!: as_ok_sub [OF ok])
  qed
qed

lemma as_run_ok: "as_ok H done_ops m \<Longrightarrow> as_ok H (done_ops @ ops) (as_run H ops m)"
proof (induction ops arbitrary: done_ops m)
  case (Cons x ops)
  obtain t op where x: "x = (t, op)" by (cases x)
  from Cons.IH [OF as_step_ok [OF Cons.prems, of t op]] show ?case by (simp add: x)
qed simp

text \<open>
  At most ten admins are logged in, and a token is good for what it was issued for. After any
  sequence of operations the store holds at most \<open>MaxSessions\<close> sessions; a token that is accepted names a
  session some login of that token's hash made, at most 12 hours ago, and seen in the last 4 hours.
\<close>

theorem sessions_sound:
  "let m = as_run H ops [] in mlen m \<le> MaxSessions \<and>
     (case fst (Lookup H now tok ext m) of
        None \<Rightarrow> True
      | Some s \<Rightarrow> hashRaw H tok = Some (as_Hash s) \<and> made_by H ops (as_Hash s) s \<and>
          now - as_CreatedAt s \<le> SessionAbsolute \<and>
          (\<exists>s0. mget m (as_Hash s) = Some s0 \<and> now - as_LastSeen s0 \<le> SessionIdle))"
proof -
  have "as_ok H [] []" by (simp add: as_ok_def)
  from as_run_ok [OF this, of ops] have ok: "as_ok H ops (as_run H ops [])" by simp
  then show ?thesis
    by (auto simp: Let_def as_ok_def Lookup_def made_by_def split: option.splits)
qed

text \<open>
  A login's cookie works. The token \<open>Create\<close> hands out is found again while the session is not idle,
  with its address and creation time, for every hash function; the hex form of the 32 bytes decodes to them.
\<close>

theorem session_roundtrip:
  assumes raw: "length raw = 32" and c: "Create H now ip raw m = (tok, m1)" and idle: "now' - now \<le> SessionIdle"
  shows "hex_decode tok = Some raw \<and>
    (\<exists>s. fst (Lookup H now' tok ext m1) = Some s \<and> as_CreatedAt s = now \<and> as_IP s = ip \<and> as_Hash s = hex_encode (H raw))"
proof -
  from c have tok: "tok = hex_encode raw" and m1: "m1 = mput (hex_encode (H raw)) \<lparr>as_Hash = hex_encode (H raw),
      as_CreatedAt = now, as_LastSeen = now, as_IP = ip, as_StepUpAt = zero_time\<rparr> (evict_sessions m)"
    by (auto simp: Create_def Let_def)
  from idle have "now' - now \<le> SessionAbsolute" by (simp add: SessionIdle_def SessionAbsolute_def hour_def)
  with idle raw show ?thesis unfolding tok m1 by (simp add: Lookup_def hashRaw_def Let_def)
qed

definition ex_raw :: "char \<Rightarrow> string" where "ex_raw c = replicate 32 c"

lemma ex_raw_facts [simp]: "length (ex_raw c) = 32" "ex_raw c = ex_raw d \<longleftrightarrow> c = d"
  by (simp_all add: ex_raw_def)

lemma hex_encode_inj [simp]: "hex_encode a = hex_encode b \<longleftrightarrow> a = b"
  by (metis hex_decode_encode option.inject)

lemma session_roundtrip_witness:
  "let r = Create id 5 ''ip'' (ex_raw CHR ''x'') [] in
     \<exists>s. fst (Lookup id (6 + hour) (fst r) True (snd r)) = Some s \<and> as_IP s = ''ip''"
proof -
  let ?r = "Create id 5 ''ip'' (ex_raw CHR ''x'') []"
  have "?r = (fst ?r, snd ?r)" by simp
  moreover have "6 + hour - 5 \<le> SessionIdle" by code_simp
  ultimately have "\<exists>s. fst (Lookup id (6 + hour) (fst ?r) True (snd ?r)) = Some s \<and> as_IP s = ''ip''"
    using session_roundtrip [of "ex_raw CHR ''x''" id 5 "''ip''" "[]" "fst ?r" "snd ?r" "6 + hour" True] ex_raw_facts(1) by blast
  then show ?thesis by (simp add: Let_def)
qed

text \<open>A token's hash that is not in the store stays out of it until a login makes it again.\<close>

definition makes :: "(string \<Rightarrow> string) \<Rightarrow> string \<Rightarrow> as_op \<Rightarrow> bool" where
  "makes H h op \<longleftrightarrow> (case op of OpCreate ip raw \<Rightarrow> hex_encode (H raw) = h | _ \<Rightarrow> False)"

lemma as_step_absent:
  assumes "mget m h = None" and "\<not> makes H h op"
  shows "mget (as_step H t op m) h = None"
proof (cases op)
  case (OpCreate ip raw)
  have "mget (evict_sessions m) h = None" using assms(1) evict_sessions_sub [of m h] by (cases "mget (evict_sessions m) h") auto
  with assms OpCreate show ?thesis by (auto simp: makes_def Create_def Let_def)
next
  case (OpLookup tok ext)
  show ?thesis
  proof (cases "hashRaw H tok")
    case None
    with OpLookup assms show ?thesis by (simp add: Lookup_def)
  next
    case (Some k)
    with OpLookup assms show ?thesis by (cases "mget m k") (auto simp: Lookup_def Let_def)
  qed
qed (use assms in \<open>auto simp: RevokeRaw_def StampStepUp_def ObserveIP_def RevokeAllExcept_def RevokeAll_def Let_def
  split: option.split\<close>)

lemma as_run_absent:
  "mget m h = None \<Longrightarrow> list_all (\<lambda>x. \<not> makes H h (snd x)) ops \<Longrightarrow> mget (as_run H ops m) h = None"
proof (induction ops arbitrary: m)
  case (Cons x ops)
  then show ?case using as_step_absent [of m h H "snd x" "fst x"] by (cases x) auto
qed simp

text \<open>
  A revoked token stays revoked. After a logout of a token, a revocation of all sessions, or of all but
  another one, no later lookup accepts it, whatever happens in between, until a login draws a token with
  the same hash again.
\<close>

theorem revoked_stays_out:
  assumes tok: "hashRaw H tok = Some h" and op: "op = OpRevoke tok \<or> op = OpRevokeAll \<or>
      (op = OpRevokeOthers keep \<and> hashRaw H keep \<noteq> Some h \<and> h \<noteq> [])"
    and later: "list_all (\<lambda>x. \<not> makes H h (snd x)) ops"
  shows "fst (Lookup H now tok ext (as_run H ops (as_step H t op m))) = None"
proof -
  from op have "mget (as_step H t op m) h = None"
  proof (elim disjE conjE)
    assume "op = OpRevoke tok"
    with tok show ?thesis by (auto simp: RevokeRaw_def hashRaw_def split: option.splits if_splits)
  qed (auto simp: RevokeAll_def RevokeAllExcept_def Let_def split: option.split)
  from as_run_absent [OF this later] tok show ?thesis by (simp add: Lookup_def)
qed

lemma revoked_stays_out_witness:
  "let r = Create id 5 ''ip'' (ex_raw CHR ''x'') [] in
     fst (Lookup id 6 (fst r) True (as_run id [(6, OpCreate ''ip'' (ex_raw CHR ''y''))] (as_step id 6 OpRevokeAll (snd r)))) = None \<and>
     fst (Lookup id 6 (fst r) True (snd r)) \<noteq> None"
proof -
  let ?r = "Create id 5 ''ip'' (ex_raw CHR ''x'') []" and ?h = "hex_encode (ex_raw CHR ''x'')"
  have h: "hashRaw id (fst ?r) = Some ?h" by (simp add: hashRaw_def Create_def Let_def)
  have "list_all (\<lambda>x. \<not> makes id ?h (snd x)) [(6, OpCreate ''ip'' (ex_raw CHR ''y''))]"
    by (simp add: makes_def)
  from revoked_stays_out [OF h _ this, of OpRevokeAll "[]" 6 True 6 "snd ?r"]
  have "fst (Lookup id 6 (fst ?r) True (as_run id [(6, OpCreate ''ip'' (ex_raw CHR ''y''))] (as_step id 6 OpRevokeAll (snd ?r)))) = None"
    by simp
  moreover have "fst (Lookup id 6 (fst ?r) True (snd ?r)) \<noteq> None"
    using h by (simp add: Lookup_def Create_def Let_def SessionAbsolute_def SessionIdle_def hour_def)
  ultimately show ?thesis by (simp add: Let_def)
qed

end
