(* ===== verification/Second_Factor.thy ===== *)
theory Second_Factor
  imports Admin_Sessions
begin

section \<open>The second factor (\<open>internal/adminauth\<close>, \<open>internal/store/authstate.go\<close>, \<open>internal/api/second_factor.go\<close>)\<close>

text \<open>
  Recovery codes, TOTP checks, the stored 2FA state and the one operation that consumes a factor. The
  cryptographic functions are parameters, the fields of \<open>crypto\<close>: HKDF and HMAC-SHA256, AES-GCM, base64 and
  the codes of the TOTP package. Random bytes and the clock are inputs.
\<close>

record crypto =
  cr_mac :: "string \<Rightarrow> string \<Rightarrow> string"                     \<comment> \<open>key, message\<close>
  cr_hkdf :: "string \<Rightarrow> string \<Rightarrow> string \<Rightarrow> string option"    \<comment> \<open>secret, salt, info; 32 bytes\<close>
  cr_seal :: "string \<Rightarrow> string \<Rightarrow> string \<Rightarrow> string"          \<comment> \<open>key, nonce, plaintext\<close>
  cr_open :: "string \<Rightarrow> string \<Rightarrow> string \<Rightarrow> string option"    \<comment> \<open>key, nonce, ciphertext and tag\<close>
  cr_b64 :: "string \<Rightarrow> string"
  cr_unb64 :: "string \<Rightarrow> string option"
  cr_totp :: "string \<Rightarrow> int \<Rightarrow> string option"                 \<comment> \<open>secret, step: the six digits\<close>

subsection \<open>Recovery codes\<close>

definition RecoveryCodeCount :: nat where "RecoveryCodeCount = 10"
definition recoveryCodeSymbols :: nat where "recoveryCodeSymbols = 12"
definition recoveryAlphabet :: string where "recoveryAlphabet = ''abcdefghijklmnopqrstuvwxyz234567''"

record recovery_hash =
  rh_Salt :: string
  rh_Hash :: string

definition RecoveryPepper :: "crypto \<Rightarrow> string \<Rightarrow> string option" where
  "RecoveryPepper C seed = cr_hkdf C seed [] ''uplink-recovery-v1''"

text \<open>One code from 12 random bytes, in groups of four.\<close>

fun code_from :: "nat \<Rightarrow> string \<Rightarrow> string" where
  "code_from i [] = []"
| "code_from i (v # vs) =
     (if i > 0 \<and> i mod 4 = 0 then ''-'' else []) @ (recoveryAlphabet ! (of_char v mod 32)) # code_from (Suc i) vs"

definition NewRecoveryCode :: "string \<Rightarrow> string" where
  "NewRecoveryCode raw = code_from 0 raw"

definition NormalizeRecoveryCode :: "string \<Rightarrow> string" where
  "NormalizeRecoveryCode code = filter (\<lambda>c. c \<noteq> CHR ''-'' \<and> c \<noteq> CHR '' '') (to_lower (trim code))"

definition LooksLikeRecoveryCode :: "string \<Rightarrow> bool" where
  "LooksLikeRecoveryCode code =
     (let n = NormalizeRecoveryCode code
      in length n = recoveryCodeSymbols \<and> list_all (\<lambda>c. c \<in> set recoveryAlphabet) n)"

definition HashRecoveryCode :: "crypto \<Rightarrow> string \<Rightarrow> string \<Rightarrow> string \<Rightarrow> recovery_hash" where
  "HashRecoveryCode C pepper salt code =
     \<lparr>rh_Salt = hex_encode salt, rh_Hash = hex_encode (cr_mac C pepper (salt @ NormalizeRecoveryCode code))\<rparr>"

definition GenerateRecoveryCodes :: "crypto \<Rightarrow> string \<Rightarrow> (string \<times> string) list \<Rightarrow> string list \<times> recovery_hash list" where
  "GenerateRecoveryCodes C pepper draws =
     (map (\<lambda>(raw, salt). NewRecoveryCode raw) draws,
      map (\<lambda>(raw, salt). HashRecoveryCode C pepper salt (NewRecoveryCode raw)) draws)"

definition hash_matches :: "crypto \<Rightarrow> string \<Rightarrow> string \<Rightarrow> recovery_hash \<Rightarrow> bool" where
  "hash_matches C pepper n h =
     (case (hex_decode (rh_Salt h), hex_decode (rh_Hash h)) of
        (Some salt, Some want) \<Rightarrow> length want = 32 \<and> cr_mac C pepper (salt @ n) = want
      | _ \<Rightarrow> False)"

text \<open>The index of the first match; \<open>None\<close> for -1 and for the empty-pepper error.\<close>

fun first_match :: "nat \<Rightarrow> bool list \<Rightarrow> nat option" where
  "first_match i [] = None"
| "first_match i (b # bs) = (if b then Some i else first_match (Suc i) bs)"

definition MatchRecoveryCode :: "crypto \<Rightarrow> string \<Rightarrow> recovery_hash list \<Rightarrow> string \<Rightarrow> nat option" where
  "MatchRecoveryCode C pepper stored code =
     (if pepper = [] then None
      else first_match 0 (map (hash_matches C pepper (NormalizeRecoveryCode code)) stored))"

subsection \<open>TOTP\<close>

definition totpPeriod :: int where "totpPeriod = 30"

definition normalizeCode :: "string \<Rightarrow> string" where
  "normalizeCode code = filter (\<lambda>c. 48 \<le> (of_char c :: nat) \<and> (of_char c :: nat) \<le> 57) code"

datatype totp_err = EmptyCode | CodeGen | StepReuse

text \<open>The candidate steps in turn; the answer's error or whether the code is good, and the step.\<close>

fun try_steps :: "crypto \<Rightarrow> string \<Rightarrow> string \<Rightarrow> int \<Rightarrow> int \<Rightarrow> int list \<Rightarrow> totp_err + bool \<times> int" where
  "try_steps C secret code used cur [] = Inr (False, cur)"
| "try_steps C secret code used cur (step # steps) =
     (if step \<le> 0 then try_steps C secret code used cur steps
      else (case cr_totp C secret step of
              None \<Rightarrow> Inl CodeGen
            | Some want \<Rightarrow>
                if code \<noteq> want then try_steps C secret code used cur steps
                else if used \<noteq> 0 \<and> step \<le> used then Inl StepReuse
                else Inr (True, step)))"

definition ValidateTOTP :: "crypto \<Rightarrow> time \<Rightarrow> string \<Rightarrow> string \<Rightarrow> int \<Rightarrow> totp_err + bool \<times> int" where
  "ValidateTOTP C now secret code0 used =
     (let cur = go_div (unix now) totpPeriod; code = normalizeCode code0
      in if code = [] then Inl EmptyCode else try_steps C secret code used cur [cur, cur - 1, cur + 1])"

subsection \<open>The stored secret\<close>

definition DeriveTOTPKey :: "crypto \<Rightarrow> string \<Rightarrow> string \<Rightarrow> string option" where
  "DeriveTOTPKey C seed salt = (if length salt \<noteq> 16 then None else cr_hkdf C seed salt ''uplink-totp-v1'')"

text \<open>Version byte, the nonce's 12 bytes, ciphertext and tag.\<close>

definition EncryptSecret :: "crypto \<Rightarrow> string \<Rightarrow> string \<Rightarrow> string \<Rightarrow> string" where
  "EncryptSecret C key nonce plaintext = char_of (1 :: nat) # nonce @ cr_seal C key nonce plaintext"

definition DecryptSecret :: "crypto \<Rightarrow> string \<Rightarrow> string \<Rightarrow> string option" where
  "DecryptSecret C key blob =
     (if length blob < 1 + 12 + 16 \<or> hd blob \<noteq> char_of (1 :: nat) then None
      else cr_open C key (take 12 (tl blob)) (drop 13 blob))"

definition DecodeB64 :: "crypto \<Rightarrow> string \<Rightarrow> string option" where
  "DecodeB64 C s = (if s = [] then None else cr_unb64 C s)"

definition decryptTOTPSecret :: "crypto \<Rightarrow> string \<Rightarrow> string \<Rightarrow> string \<Rightarrow> string option" where
  "decryptTOTPSecret C seed blobB64 saltB64 =
     (case DecodeB64 C blobB64 of
        None \<Rightarrow> None
      | Some blob \<Rightarrow> (case DecodeB64 C saltB64 of
          None \<Rightarrow> None
        | Some salt \<Rightarrow> (case DeriveTOTPKey C seed salt of
            None \<Rightarrow> None
          | Some key \<Rightarrow> DecryptSecret C key blob)))"

subsection \<open>The stored 2FA state\<close>

record auth_state =
  au_TOTPBlob :: string
  au_TOTPSalt :: string
  au_RecoveryCodes :: "recovery_hash list"
  au_PasswordFingerprint :: string
  au_Enrolled :: bool
  au_LastTOTPStep :: int
  au_BreakGlassDone :: bool
  au_PendingSecretEnc :: string
  au_PendingExpires :: time
  au_TwoFactorOn :: bool

definition On :: "auth_state \<Rightarrow> bool" where
  "On a \<longleftrightarrow> au_TwoFactorOn a \<or> au_Enrolled a"

definition RecoveryRemaining :: "auth_state \<Rightarrow> nat" where
  "RecoveryRemaining a = length (au_RecoveryCodes a)"

text \<open>
  \<open>UpdateAuthState\<close>: \<open>fn\<close> runs on a copy; its error, or a save that fails, leaves the state as it was.
\<close>

definition UpdateAuthState ::
  "bool \<Rightarrow> (auth_state \<Rightarrow> 'e + auth_state) \<Rightarrow> auth_state \<Rightarrow> 'e option option \<times> auth_state" where
  "UpdateAuthState saved fn a =
     (case fn a of
        Inl e \<Rightarrow> (Some (Some e), a)
      | Inr a' \<Rightarrow> if saved then (None, a') else (Some None, a))"

subsection \<open>Consuming a factor\<close>

datatype factor_method = ByTOTP | ByRecovery

datatype factor_reason =
    RecoveryRefused | NotEnrolled | RecoveryError | BadRecoveryCode | TOTPDecrypt | BadTOTP | TOTPReuse | SaveFailed

datatype factor = FactorOk factor_method nat | FactorNo factor_reason

text \<open>What the update does to the state: the factor's method, or why it is refused.\<close>

definition check_recovery :: "crypto \<Rightarrow> string \<Rightarrow> string \<Rightarrow> auth_state \<Rightarrow> factor_reason + auth_state" where
  "check_recovery C seed code a =
     (case RecoveryPepper C seed of
        None \<Rightarrow> Inl RecoveryError
      | Some pepper \<Rightarrow>
          (case MatchRecoveryCode C pepper (au_RecoveryCodes a) code of
             None \<Rightarrow> Inl BadRecoveryCode
           | Some i \<Rightarrow> Inr (a\<lparr>au_RecoveryCodes := take i (au_RecoveryCodes a) @ drop (Suc i) (au_RecoveryCodes a)\<rparr>)))"

definition check_totp :: "crypto \<Rightarrow> string \<Rightarrow> time \<Rightarrow> string \<Rightarrow> auth_state \<Rightarrow> factor_reason + auth_state" where
  "check_totp C seed now code a =
     (case decryptTOTPSecret C seed (au_TOTPBlob a) (au_TOTPSalt a) of
        None \<Rightarrow> Inl TOTPDecrypt
      | Some secret \<Rightarrow>
          (case ValidateTOTP C now secret code (au_LastTOTPStep a) of
             Inl StepReuse \<Rightarrow> Inl TOTPReuse
           | Inl e \<Rightarrow> Inl BadTOTP
           | Inr (ok, step) \<Rightarrow> if ok then Inr (a\<lparr>au_LastTOTPStep := step\<rparr>) else Inl BadTOTP))"

definition check_factor ::
  "crypto \<Rightarrow> string \<Rightarrow> time \<Rightarrow> bool \<Rightarrow> string \<Rightarrow> (auth_state \<Rightarrow> auth_state) \<Rightarrow> auth_state \<Rightarrow> factor_reason + auth_state" where
  "check_factor C seed now allowRecovery code also a =
     (if \<not> au_Enrolled a then Inl NotEnrolled
      else case (if LooksLikeRecoveryCode code
                 then if \<not> allowRecovery then Inl RecoveryRefused else check_recovery C seed code a
                 else check_totp C seed now code a) of
             Inl e \<Rightarrow> Inl e
           | Inr a' \<Rightarrow> Inr (also a'))"

text \<open>\<open>also\<close> is the code's \<open>then\<close>: what a success does in the same update.\<close>

definition consumeFactor ::
  "crypto \<Rightarrow> string \<Rightarrow> time \<Rightarrow> bool \<Rightarrow> bool \<Rightarrow> string \<Rightarrow> (auth_state \<Rightarrow> auth_state) \<Rightarrow> auth_state \<Rightarrow> factor \<times> auth_state" where
  "consumeFactor C seed now saved allowRecovery code0 also a =
     (let code = trim code0 in
      if \<not> allowRecovery \<and> LooksLikeRecoveryCode code then (FactorNo RecoveryRefused, a)
      else case UpdateAuthState saved (check_factor C seed now allowRecovery code also) a of
             (Some (Some e), a') \<Rightarrow> (FactorNo e, a')
           | (Some None, a') \<Rightarrow> (FactorNo SaveFailed, a')
           | (None, a') \<Rightarrow> (FactorOk (if LooksLikeRecoveryCode code then ByRecovery else ByTOTP) (RecoveryRemaining a'), a'))"

definition wipe2FA :: "auth_state \<Rightarrow> auth_state" where
  "wipe2FA a = a\<lparr>au_TOTPBlob := [], au_TOTPSalt := [], au_RecoveryCodes := [], au_Enrolled := False,
     au_LastTOTPStep := 0, au_PendingSecretEnc := [], au_PendingExpires := zero_time\<rparr>"

definition turnOff2FA :: "auth_state \<Rightarrow> auth_state" where
  "turnOff2FA a = (wipe2FA a)\<lparr>au_TwoFactorOn := False\<rparr>"

subsection \<open>Recovery codes that are shown are accepted\<close>

lemma code_char: "recoveryAlphabet ! (n mod 32) \<in> set recoveryAlphabet"
  by (rule nth_mem) (simp add: recoveryAlphabet_def)

lemma alphabet_plain:
  assumes "c \<in> set recoveryAlphabet"
  shows "lower_char c = c \<and> c \<noteq> CHR ''-'' \<and> c \<noteq> CHR '' '' \<and> \<not> is_space c"
proof -
  have "list_all (\<lambda>c. lower_char c = c \<and> c \<noteq> CHR ''-'' \<and> c \<noteq> CHR '' '' \<and> \<not> is_space c) recoveryAlphabet"
    by code_simp
  with assms show ?thesis unfolding list_all_iff by blast
qed

definition symbols :: "string \<Rightarrow> string" where
  "symbols raw = map (\<lambda>v. recoveryAlphabet ! (of_char v mod 32)) raw"

lemma code_from_chars: "set (code_from i raw) \<subseteq> insert (CHR ''-'') (set recoveryAlphabet)"
  using code_char by (induction raw arbitrary: i) auto

lemma trim_plain:
  assumes "\<And>c. c \<in> set s \<Longrightarrow> \<not> is_space c" shows "trim s = s"
proof -
  have d: "dropWhile is_space t = t" if "set t = set s" for t
    using that assms hd_in_set [of t] by (auto simp: dropWhile_eq_self_iff)
  show ?thesis by (simp add: trim_def d)
qed

lemma code_from_norm:
  "filter (\<lambda>c. c \<noteq> CHR ''-'' \<and> c \<noteq> CHR '' '') (to_lower (code_from i raw)) = symbols raw"
proof (induction raw arbitrary: i)
  case (Cons v vs)
  have "lower_char (CHR ''-'') = CHR ''-''" by (simp add: lower_char_def)
  with Cons alphabet_plain [OF code_char [of "of_char v"]] show ?case
    by (auto simp: to_lower_def symbols_def)
qed (simp add: symbols_def)

lemma Normalize_New [simp]: "NormalizeRecoveryCode (NewRecoveryCode raw) = symbols raw"
proof -
  have "\<not> is_space c" if "c \<in> set (code_from 0 raw)" for c
    using that code_from_chars [of 0 raw] alphabet_plain [of c] by (auto simp: is_space_def)
  then have "trim (code_from 0 raw) = code_from 0 raw" by (rule trim_plain)
  then show ?thesis by (simp add: NormalizeRecoveryCode_def NewRecoveryCode_def code_from_norm)
qed

lemma first_match_bound: "first_match i bs = Some j \<Longrightarrow> i \<le> j \<and> j < i + length bs \<and> bs ! (j - i)"
proof (induction bs arbitrary: i)
  case (Cons b bs)
  show ?case
  proof (cases b)
    case False
    with Cons.prems have "Suc i \<le> j \<and> j < Suc i + length bs \<and> bs ! (j - Suc i)" by (intro Cons.IH) simp
    then show ?thesis by (simp add: nth_Cons')
  qed (use Cons.prems in auto)
qed simp

lemma first_match_found:
  "k < length bs \<Longrightarrow> bs ! k \<Longrightarrow> \<exists>j. first_match i bs = Some j \<and> j \<le> i + k"
proof (induction bs arbitrary: i k)
  case (Cons b bs)
  then show ?case by (cases k) fastforce+
qed simp

lemma symbols_shape: "length raw = 12 \<Longrightarrow> LooksLikeRecoveryCode (NewRecoveryCode raw)"
  using code_char by (auto simp: LooksLikeRecoveryCode_def symbols_def recoveryCodeSymbols_def list_all_iff)

text \<open>
  The recovery codes shown to the user work. For any draws of 12 random bytes and a salt each, every
  displayed code has the shape of a recovery code and matches one of the stored hashes, its own or an
  earlier one that has the same MAC; what is stored is only the salt and the MAC of its symbols.
\<close>

theorem recovery_roundtrip:
  assumes mac: "\<And>key msg. length (cr_mac C key msg) = 32" and pepper: "pepper \<noteq> []"
    and raws: "list_all (\<lambda>(raw, salt). length raw = 12) draws" and k: "k < length draws"
    and g: "GenerateRecoveryCodes C pepper draws = (plain, hashes)"
  shows "LooksLikeRecoveryCode (plain ! k) \<and>
    (\<exists>j \<le> k. MatchRecoveryCode C pepper hashes (plain ! k) = Some j \<and> hash_matches C pepper (symbols (fst (draws ! k))) (hashes ! j)) \<and>
    hashes ! k = \<lparr>rh_Salt = hex_encode (snd (draws ! k)), rh_Hash = hex_encode (cr_mac C pepper (snd (draws ! k) @ symbols (fst (draws ! k))))\<rparr>"
proof -
  obtain raw salt where d: "draws ! k = (raw, salt)" by (cases "draws ! k")
  from g have plain: "plain ! k = NewRecoveryCode raw"
    and hashes: "hashes = map (\<lambda>(raw, salt). HashRecoveryCode C pepper salt (NewRecoveryCode raw)) draws"
    using k d by (auto simp: GenerateRecoveryCodes_def)
  have hk: "hashes ! k = \<lparr>rh_Salt = hex_encode salt, rh_Hash = hex_encode (cr_mac C pepper (salt @ symbols raw))\<rparr>"
    using k d by (simp add: hashes HashRecoveryCode_def)
  let ?bs = "map (hash_matches C pepper (symbols raw)) hashes"
  have len: "length hashes = length draws" by (simp add: hashes)
  have "?bs ! k" using k by (simp add: len hk hash_matches_def mac)
  with first_match_found [of k ?bs 0] k len obtain j where j: "first_match 0 ?bs = Some j" "j \<le> k" by auto
  from first_match_bound [OF j(1)] have "j < length hashes" "?bs ! j" by simp_all
  then have "hash_matches C pepper (symbols raw) (hashes ! j)" by simp
  moreover have "length raw = 12" using raws k d by (auto simp: list_all_length)
  ultimately show ?thesis
    using j hk plain pepper by (auto simp: d MatchRecoveryCode_def symbols_shape)
qed

definition toy_crypto :: crypto where
  "toy_crypto = \<lparr>cr_mac = (\<lambda>k m. take 32 (rev m @ replicate 32 CHR ''0'')), cr_hkdf = (\<lambda>s salt i. Some (CHR ''k'' # s)),
     cr_seal = (\<lambda>k n p. p @ replicate 16 CHR ''t''), cr_open = (\<lambda>k n c. Some (take (length c - 16) c)),
     cr_b64 = id, cr_unb64 = Some, cr_totp = (\<lambda>s t. Some (replicate 6 (char_of (48 + nat t mod 10))))\<rparr>"

lemma recovery_roundtrip_witness:
  "\<exists>j \<le> 0. MatchRecoveryCode toy_crypto ''k'' (snd (GenerateRecoveryCodes toy_crypto ''k'' [(''abcdefghijkl'', ''s'')]))
     (fst (GenerateRecoveryCodes toy_crypto ''k'' [(''abcdefghijkl'', ''s'')]) ! 0) = Some j"
proof -
  let ?d = "[(''abcdefghijkl'', ''s'')]"
  have "length (cr_mac toy_crypto key msg) = 32" for key msg by (simp add: toy_crypto_def)
  moreover have "list_all (\<lambda>(raw, salt). length raw = 12) ?d" by simp
  ultimately show ?thesis
    using recovery_roundtrip [of toy_crypto "''k''" ?d 0 "fst (GenerateRecoveryCodes toy_crypto ''k'' ?d)"
        "snd (GenerateRecoveryCodes toy_crypto ''k'' ?d)"] by auto
qed

text \<open>The stored secret opens again, when the cipher does.\<close>

lemma secret_opens:
  assumes "length nonce = 12" and "length (cr_seal C key nonce p) = length p + 16" and "cr_open C key nonce (cr_seal C key nonce p) = Some p"
  shows "DecryptSecret C key (EncryptSecret C key nonce p) = Some p"
  using assms by (simp add: DecryptSecret_def EncryptSecret_def)

subsection \<open>A factor is used once\<close>

lemma try_steps_ok:
  "try_steps C secret code used cur steps = Inr (True, step) \<Longrightarrow>
   step \<in> set steps \<and> 0 < step \<and> cr_totp C secret step = Some code \<and> (used = 0 \<or> used < step)"
  by (induction steps) (auto split: if_splits option.splits)

lemma ValidateTOTP_ok:
  assumes "ValidateTOTP C now secret code used = Inr (True, step)" and "0 \<le> used"
  shows "used < step" and "cr_totp C secret step = Some (normalizeCode code)" and "\<bar>step - go_div (unix now) totpPeriod\<bar> \<le> 1"
proof -
  let ?cur = "go_div (unix now) totpPeriod"
  from assms(1) have "try_steps C secret (normalizeCode code) used ?cur [?cur, ?cur - 1, ?cur + 1] = Inr (True, step)"
    by (simp add: ValidateTOTP_def Let_def del: try_steps.simps split: if_splits)
  from try_steps_ok [OF this] assms(2)
  show "used < step" and "cr_totp C secret step = Some (normalizeCode code)" and "\<bar>step - ?cur\<bar> \<le> 1" by auto
qed

text \<open>What one attempt does to the state, with nothing else in the update.\<close>

definition spends :: "crypto \<Rightarrow> string \<Rightarrow> time \<Rightarrow> string \<Rightarrow> factor \<Rightarrow> auth_state \<Rightarrow> auth_state \<Rightarrow> bool" where
  "spends C seed now code f a a' \<longleftrightarrow> (case f of
     FactorNo r \<Rightarrow> a' = a
   | FactorOk ByTOTP left \<Rightarrow>
       (\<exists>secret step. a' = a\<lparr>au_LastTOTPStep := step\<rparr> \<and> au_LastTOTPStep a < step \<and>
          decryptTOTPSecret C seed (au_TOTPBlob a) (au_TOTPSalt a) = Some secret \<and>
          cr_totp C secret step = Some (normalizeCode (trim code)) \<and> \<bar>step - go_div (unix now) totpPeriod\<bar> \<le> 1)
   | FactorOk ByRecovery left \<Rightarrow>
       (\<exists>pepper i. i < length (au_RecoveryCodes a) \<and> RecoveryPepper C seed = Some pepper \<and>
          hash_matches C pepper (NormalizeRecoveryCode (trim code)) (au_RecoveryCodes a ! i) \<and>
          a' = a\<lparr>au_RecoveryCodes := take i (au_RecoveryCodes a) @ drop (Suc i) (au_RecoveryCodes a)\<rparr> \<and>
          Suc left = length (au_RecoveryCodes a)))"

lemma check_recovery_ok:
  assumes "check_recovery C seed code a = Inr a'"
  shows "\<exists>pepper i. i < length (au_RecoveryCodes a) \<and> RecoveryPepper C seed = Some pepper \<and>
    hash_matches C pepper (NormalizeRecoveryCode code) (au_RecoveryCodes a ! i) \<and>
    a' = a\<lparr>au_RecoveryCodes := take i (au_RecoveryCodes a) @ drop (Suc i) (au_RecoveryCodes a)\<rparr>"
proof -
  from assms obtain pepper i where "RecoveryPepper C seed = Some pepper"
    and m: "MatchRecoveryCode C pepper (au_RecoveryCodes a) code = Some i"
    and "a' = a\<lparr>au_RecoveryCodes := take i (au_RecoveryCodes a) @ drop (Suc i) (au_RecoveryCodes a)\<rparr>"
    by (auto simp: check_recovery_def split: option.splits)
  moreover from m first_match_bound [of 0 "map (hash_matches C pepper (NormalizeRecoveryCode code)) (au_RecoveryCodes a)" i]
  have "i < length (au_RecoveryCodes a) \<and> hash_matches C pepper (NormalizeRecoveryCode code) (au_RecoveryCodes a ! i)"
    by (auto simp: MatchRecoveryCode_def split: if_splits)
  ultimately show ?thesis by blast
qed

lemma check_totp_ok:
  assumes "check_totp C seed now code a = Inr a'" and "0 \<le> au_LastTOTPStep a"
  shows "\<exists>secret step. a' = a\<lparr>au_LastTOTPStep := step\<rparr> \<and> au_LastTOTPStep a < step \<and>
    decryptTOTPSecret C seed (au_TOTPBlob a) (au_TOTPSalt a) = Some secret \<and>
    cr_totp C secret step = Some (normalizeCode code) \<and> \<bar>step - go_div (unix now) totpPeriod\<bar> \<le> 1"
proof -
  from assms(1) obtain secret step where s: "decryptTOTPSecret C seed (au_TOTPBlob a) (au_TOTPSalt a) = Some secret"
    and v: "ValidateTOTP C now secret code (au_LastTOTPStep a) = Inr (True, step)" and a': "a' = a\<lparr>au_LastTOTPStep := step\<rparr>"
    by (auto simp: check_totp_def split: option.splits sum.splits totp_err.splits prod.splits if_splits)
  from ValidateTOTP_ok [OF v assms(2)] s a' show ?thesis by blast
qed

lemma consumeFactor_spends:
  assumes "0 \<le> au_LastTOTPStep a" and "consumeFactor C seed now saved allow code (\<lambda>x. x) a = (f, a')"
  shows "spends C seed now code f a a' \<and> (\<forall>m left. f = FactorOk m left \<longrightarrow> saved \<and> au_Enrolled a)"
proof -
  let ?c = "trim code"
  from assms(2) have "f = FactorNo RecoveryRefused \<and> a' = a \<or> (\<exists>r. f = FactorNo r) \<and> a' = a \<or>
    (saved \<and> au_Enrolled a \<and>
     (LooksLikeRecoveryCode ?c \<and> check_recovery C seed ?c a = Inr a' \<and> f = FactorOk ByRecovery (RecoveryRemaining a') \<or>
      \<not> LooksLikeRecoveryCode ?c \<and> check_totp C seed now ?c a = Inr a' \<and> f = FactorOk ByTOTP (RecoveryRemaining a')))"
    by (auto simp: consumeFactor_def Let_def UpdateAuthState_def check_factor_def split: if_splits sum.splits)
  then show ?thesis
  proof (elim disjE conjE exE)
    assume e: "saved" "au_Enrolled a" and r: "check_recovery C seed ?c a = Inr a'" and f: "f = FactorOk ByRecovery (RecoveryRemaining a')"
    from check_recovery_ok [OF r] obtain pepper i where
      i: "i < length (au_RecoveryCodes a)" "RecoveryPepper C seed = Some pepper"
        "hash_matches C pepper (NormalizeRecoveryCode ?c) (au_RecoveryCodes a ! i)"
      and a': "a' = a\<lparr>au_RecoveryCodes := take i (au_RecoveryCodes a) @ drop (Suc i) (au_RecoveryCodes a)\<rparr>" by blast
    have "Suc (RecoveryRemaining a') = length (au_RecoveryCodes a)"
      using i(1) by (simp add: a' RecoveryRemaining_def)
    with i a' e f show ?thesis by (auto simp: spends_def)
  next
    assume e: "saved" "au_Enrolled a" and t: "check_totp C seed now ?c a = Inr a'" and f: "f = FactorOk ByTOTP (RecoveryRemaining a')"
    from check_totp_ok [OF t assms(1)] e f show ?thesis by (simp add: spends_def)
  qed (auto simp: spends_def)
qed

text \<open>Attempts one after the other, each at its time and with its save going through or not.\<close>

fun attempts :: "crypto \<Rightarrow> string \<Rightarrow> (time \<times> bool \<times> bool \<times> string) list \<Rightarrow> auth_state \<Rightarrow> (factor \<times> int) list \<times> auth_state" where
  "attempts C seed [] a = ([], a)"
| "attempts C seed ((now, saved, allow, code) # xs) a =
     (case consumeFactor C seed now saved allow code (\<lambda>x. x) a of
        (f, a1) \<Rightarrow> (case attempts C seed xs a1 of (fs, a2) \<Rightarrow> ((f, au_LastTOTPStep a1) # fs, a2)))"

definition totp_steps :: "(factor \<times> int) list \<Rightarrow> int list" where
  "totp_steps fs = map snd (filter (\<lambda>(f, s). case f of FactorOk ByTOTP left \<Rightarrow> True | _ \<Rightarrow> False) fs)"

definition recoveries :: "(factor \<times> int) list \<Rightarrow> nat" where
  "recoveries fs = length (filter (\<lambda>(f, s). case f of FactorOk ByRecovery left \<Rightarrow> True | _ \<Rightarrow> False) fs)"


definition toy_auth :: auth_state where
  "toy_auth = \<lparr>au_TOTPBlob = EncryptSecret toy_crypto ''k'' (replicate 12 CHR ''n'') ''secret'', au_TOTPSalt = replicate 16 CHR ''s'',
     au_RecoveryCodes = [], au_PasswordFingerprint = [], au_Enrolled = True, au_LastTOTPStep = 0, au_BreakGlassDone = False,
     au_PendingSecretEnc = [], au_PendingExpires = zero_time, au_TwoFactorOn = True\<rparr>"


end
