(* ===== verification/Lockout.thy ===== *)
theory Lockout
  imports Prelude
begin

section \<open>Login lockout (\<open>internal/adminauth/lockout.go\<close>)\<close>

text \<open>
  Failure counts and backoff per client address for password logins and, apart, for the admin Bearer;
  and the global trip of the password logins. Every operation runs under one mutex, so an execution is
  a sequence of operations, each at its own time (\<open>lk_run\<close>). Address parsing (\<open>net.ParseIP\<close>,
  \<open>net.SplitHostPort\<close>, \<open>net.ParseCIDR\<close>) is a parameter of \<open>ClientIP\<close>.
\<close>

subsection \<open>State\<close>

record ip_state =
  ip_failures :: nat
  ip_lockedUntil :: time
  ip_lastFail :: time

record lockout =
  lk_perIP :: "ip_state gomap"
  lk_bearerIP :: "ip_state gomap"
  lk_global :: "time list"
  lk_globalUntil :: time
  lk_globalBackoff :: dur
  lk_globalLastTrip :: time

definition maxTrackedIPs :: nat where "maxTrackedIPs = 10000"
definition globalDecayAfter :: dur where "globalDecayAfter = hour"

definition NewLockout :: lockout where
  "NewLockout = \<lparr>lk_perIP = [], lk_bearerIP = [], lk_global = [], lk_globalUntil = zero_time,
     lk_globalBackoff = minute, lk_globalLastTrip = zero_time\<rparr>"

definition no_failures :: ip_state where
  "no_failures = \<lparr>ip_failures = 0, ip_lockedUntil = zero_time, ip_lastFail = zero_time\<rparr>"

subsection \<open>The client's address\<close>

text \<open>\<open>strings.Split(s, ",")\<close>: at least one part.\<close>

fun split_commas :: "string \<Rightarrow> string list" where
  "split_commas [] = [[]]"
| "split_commas (c # cs) =
     (case split_commas cs of
        [] \<Rightarrow> [[c]]
      | p # ps \<Rightarrow> if c = CHR '','' then [] # p # ps else (c # p) # ps)"

text \<open>The loop over the hops from the right: the first one that is not a trusted proxy.\<close>

fun last_untrusted :: "(string \<Rightarrow> bool) \<Rightarrow> string list \<Rightarrow> string option" where
  "last_untrusted trusted [] = None"
| "last_untrusted trusted (p # ps) = (if trusted (trim p) then last_untrusted trusted ps else Some (trim p))"

definition ClientIP ::
  "(string \<Rightarrow> 'ip option) \<Rightarrow> (string \<Rightarrow> string option) \<Rightarrow> ('ip \<Rightarrow> bool) \<Rightarrow> string \<Rightarrow> string \<Rightarrow> string" where
  "ClientIP parse_ip split_host in_trusted remoteAddr xff =
     (let host = (case split_host remoteAddr of None \<Rightarrow> remoteAddr | Some h \<Rightarrow> h);
          trusted = (\<lambda>p. case parse_ip p of None \<Rightarrow> False | Some ip \<Rightarrow> in_trusted ip)
      in if \<not> trusted host then host
         else if xff = [] then host
         else (case last_untrusted trusted (rev (split_commas xff)) of None \<Rightarrow> host | Some p \<Rightarrow> p))"

subsection \<open>One address's record\<close>

text \<open>An hour without a failure, and not locked: the count starts over.\<close>

definition gone_clean :: "time \<Rightarrow> ip_state \<Rightarrow> bool" where
  "gone_clean now st \<longleftrightarrow> ip_failures st > 0 \<and> now - ip_lastFail st \<ge> hour \<and> now > ip_lockedUntil st"

text \<open>
  \<open>evictOne\<close>: which entry to drop. The loop looks at entries in the map's order, drops a stale one at
  once, and stops after 64 once it has seen an unlocked one.
\<close>

fun evict_scan :: "time \<Rightarrow> nat \<Rightarrow> string option \<Rightarrow> (string \<times> ip_state) list \<Rightarrow> string option" where
  "evict_scan now i unlocked [] = unlocked"
| "evict_scan now i unlocked ((k, v) # rest) =
     (if now > ip_lockedUntil v \<and> (ip_failures v = 0 \<or> now - ip_lastFail v \<ge> hour) then Some k
      else
        let unlocked1 = (if now > ip_lockedUntil v \<and> unlocked = None then Some k else unlocked)
        in if Suc i \<ge> 64 \<and> unlocked1 \<noteq> None then unlocked1 else evict_scan now (Suc i) unlocked1 rest)"

definition evictOne :: "time \<Rightarrow> ip_state gomap \<Rightarrow> ip_state gomap" where
  "evictOne now m = (case evict_scan now 0 None (mitems m) of None \<Rightarrow> m | Some k \<Rightarrow> mdel k m)"

definition ensureIn :: "time \<Rightarrow> string \<Rightarrow> ip_state gomap \<Rightarrow> ip_state \<times> ip_state gomap" where
  "ensureIn now ip m =
     (let (st, m1) = (case mget m ip of
            Some st \<Rightarrow> (st, m)
          | None \<Rightarrow> (no_failures, mput ip no_failures (if mlen m \<ge> maxTrackedIPs then evictOne now m else m)));
          st1 = (if gone_clean now st then st\<lparr>ip_failures := 0, ip_lockedUntil := zero_time\<rparr> else st)
      in (st1, mput ip st1 m1))"

definition allow_in :: "time \<Rightarrow> string \<Rightarrow> ip_state gomap \<Rightarrow> (bool \<times> dur) \<times> ip_state gomap" where
  "allow_in now ip m =
     (case mget m ip of
        None \<Rightarrow> ((True, 0), m)
      | Some st \<Rightarrow>
          if gone_clean now st then ((True, 0), mdel ip m)
          else if now < ip_lockedUntil st then ((False, ip_lockedUntil st - now), m)
          else ((True, 0), m))"

text \<open>The backoff after \<open>n\<close> failures: five are free, then \<open>2^(n-5)\<close> seconds, at most 15 minutes.\<close>

definition backoff_for :: "nat \<Rightarrow> dur" where
  "backoff_for n =
     (if n \<le> 5 then 0
      else let shift = (if n - 5 > 10 then 10 else n - 5); d = second * 2 ^ shift
           in if d > 15 * minute then 15 * minute else d)"

definition fail_in :: "time \<Rightarrow> string \<Rightarrow> ip_state gomap \<Rightarrow> dur \<times> ip_state gomap" where
  "fail_in now ip m =
     (case ensureIn now ip m of
        (st, m1) \<Rightarrow>
          let st1 = st\<lparr>ip_failures := Suc (ip_failures st), ip_lastFail := now\<rparr>
          in if ip_failures st1 \<le> 5 then (0, mput ip st1 m1)
             else let d = backoff_for (ip_failures st1) in (d, mput ip (st1\<lparr>ip_lockedUntil := now + d\<rparr>) m1))"

text \<open>The failure is counted but sets no lock of its own (the branch of the global trip).\<close>

definition count_in :: "time \<Rightarrow> string \<Rightarrow> ip_state gomap \<Rightarrow> ip_state gomap" where
  "count_in now ip m =
     (case ensureIn now ip m of
        (st, m1) \<Rightarrow> mput ip (st\<lparr>ip_failures := Suc (ip_failures st), ip_lastFail := now\<rparr>) m1)"

subsection \<open>Operations\<close>

definition Allow :: "time \<Rightarrow> string \<Rightarrow> lockout \<Rightarrow> (bool \<times> dur) \<times> lockout" where
  "Allow now ip l =
     (if now < lk_globalUntil l then ((False, lk_globalUntil l - now), l)
      else (case allow_in now ip (lk_perIP l) of (a, m) \<Rightarrow> (a, l\<lparr>lk_perIP := m\<rparr>)))"

definition Success :: "string \<Rightarrow> lockout \<Rightarrow> lockout" where
  "Success ip l = l\<lparr>lk_perIP := mdel ip (lk_perIP l)\<rparr>"

definition decay_global :: "time \<Rightarrow> lockout \<Rightarrow> lockout" where
  "decay_global now l =
     (if \<not> is_zero (lk_globalLastTrip l) \<and> now - lk_globalLastTrip l \<ge> globalDecayAfter
      then l\<lparr>lk_globalBackoff := minute, lk_globalLastTrip := zero_time\<rparr> else l)"

definition trip :: "time \<Rightarrow> lockout \<Rightarrow> dur \<times> lockout" where
  "trip now l =
     (let d = (if lk_globalBackoff l < minute then minute else lk_globalBackoff l);
          next = (if d < 15 * minute then (if d * 2 > 15 * minute then 15 * minute else d * 2) else d)
      in (d, l\<lparr>lk_globalUntil := now + d, lk_globalLastTrip := now, lk_globalBackoff := next\<rparr>))"

definition Failure :: "time \<Rightarrow> string \<Rightarrow> lockout \<Rightarrow> dur \<times> lockout" where
  "Failure now ip l =
     (let window = filter (\<lambda>t. t > now - 15 * minute) (lk_global l) @ [now];
          l1 = decay_global now (l\<lparr>lk_global := window\<rparr>)
      in if length window > 20
         then (case trip now l1 of (d, l2) \<Rightarrow> (d, l2\<lparr>lk_perIP := count_in now ip (lk_perIP l2)\<rparr>))
         else (case fail_in now ip (lk_perIP l1) of (d, m) \<Rightarrow> (d, l1\<lparr>lk_perIP := m\<rparr>)))"

definition Reset :: "lockout \<Rightarrow> lockout" where
  "Reset l = l\<lparr>lk_perIP := [], lk_bearerIP := [], lk_global := [], lk_globalUntil := zero_time,
     lk_globalBackoff := minute\<rparr>"

definition AllowBearer :: "time \<Rightarrow> string \<Rightarrow> lockout \<Rightarrow> (bool \<times> dur) \<times> lockout" where
  "AllowBearer now ip l = (case allow_in now ip (lk_bearerIP l) of (a, m) \<Rightarrow> (a, l\<lparr>lk_bearerIP := m\<rparr>))"

definition FailureBearer :: "time \<Rightarrow> string \<Rightarrow> lockout \<Rightarrow> dur \<times> lockout" where
  "FailureBearer now ip l = (case fail_in now ip (lk_bearerIP l) of (d, m) \<Rightarrow> (d, l\<lparr>lk_bearerIP := m\<rparr>))"

definition SuccessBearer :: "string \<Rightarrow> lockout \<Rightarrow> lockout" where
  "SuccessBearer ip l = l\<lparr>lk_bearerIP := mdel ip (lk_bearerIP l)\<rparr>"

definition GlobalLocked :: "time \<Rightarrow> lockout \<Rightarrow> bool" where
  "GlobalLocked now l \<longleftrightarrow> now < lk_globalUntil l"

datatype lk_op =
    LkAllow string | LkFailure string | LkSuccess string | LkReset
  | LkAllowBearer string | LkFailureBearer string | LkSuccessBearer string

fun lk_step :: "time \<Rightarrow> lk_op \<Rightarrow> lockout \<Rightarrow> lockout" where
  "lk_step now (LkAllow ip) l = snd (Allow now ip l)"
| "lk_step now (LkFailure ip) l = snd (Failure now ip l)"
| "lk_step now (LkSuccess ip) l = Success ip l"
| "lk_step now LkReset l = Reset l"
| "lk_step now (LkAllowBearer ip) l = snd (AllowBearer now ip l)"
| "lk_step now (LkFailureBearer ip) l = snd (FailureBearer now ip l)"
| "lk_step now (LkSuccessBearer ip) l = SuccessBearer ip l"

fun lk_run :: "(time \<times> lk_op) list \<Rightarrow> lockout \<Rightarrow> lockout" where
  "lk_run [] l = l"
| "lk_run ((t, op) # ops) l = lk_run ops (lk_step t op l)"

subsection \<open>Locks are kept\<close>

lemma backoff_for_mono: "m \<le> n \<Longrightarrow> backoff_for m \<le> backoff_for n"
proof -
  assume mn: "m \<le> n"
  have b: "backoff_for k = (if k \<le> 5 then 0 else min (second * 2 ^ min 10 (k - 5)) (15 * minute))" for k
    by (simp add: backoff_for_def Let_def min_def)
  have "(2 :: int) ^ min 10 (m - 5) \<le> 2 ^ min 10 (n - 5)" using mn by (intro power_increasing) auto
  then have "second * 2 ^ min 10 (m - 5) \<le> second * 2 ^ min 10 (n - 5)"
    by (simp add: second_def)
  with mn show ?thesis unfolding b by (auto simp: second_def minute_def min_le_iff_disj)
qed

lemma backoff_for_bounds: "0 \<le> backoff_for n" "backoff_for n \<le> 15 * minute"
  by (auto simp: backoff_for_def Let_def second_def minute_def)

lemma evict_scan_unlocked:
  assumes "evict_scan now i u es = Some k"
  shows "u = Some k \<or> (\<exists>v. (k, v) \<in> set es \<and> now > ip_lockedUntil v)"
  using assms
  by (induction now i u es rule: evict_scan.induct) (auto simp: Let_def split: if_splits)

text \<open>An entry locked until \<open>u\<close> or later, by a failure count of at least \<open>n\<close>.\<close>

definition locked_in :: "ip_state gomap \<Rightarrow> string \<Rightarrow> nat \<Rightarrow> time \<Rightarrow> bool" where
  "locked_in m ip n u \<longleftrightarrow> (\<exists>st. mget m ip = Some st \<and> ip_failures st \<ge> n \<and> ip_lockedUntil st \<ge> u)"

lemma evictOne_keeps:
  assumes "mget m k = Some st" and "\<not> now > ip_lockedUntil st"
  shows "mget (evictOne now m) k = Some st"
proof (cases "evict_scan now 0 None (mitems m)")
  case None
  with assms show ?thesis by (simp add: evictOne_def)
next
  case (Some j)
  from evict_scan_unlocked [OF Some] obtain v where "(j, v) \<in> set (mitems m)" "now > ip_lockedUntil v" by auto
  with assms have "j \<noteq> k" by (auto simp: mem_mitems)
  with Some assms show ?thesis by (simp add: evictOne_def)
qed

lemma ensureIn_same:
  "ensureIn now ip m = (st, m1) \<Longrightarrow> mget m1 ip = Some st"
  by (auto simp: ensureIn_def Let_def split: prod.splits)

lemma ensureIn_keeps:
  assumes "locked_in m k n u" and "now < u" and "ensureIn now ip m = (st, m1)"
  shows "locked_in m1 k n u" and "ip = k \<Longrightarrow> ip_failures st \<ge> n \<and> ip_lockedUntil st \<ge> u"
proof -
  from assms(1) obtain sk where sk: "mget m k = Some sk" "ip_failures sk \<ge> n" "ip_lockedUntil sk \<ge> u"
    by (auto simp: locked_in_def)
  then have c: "\<not> gone_clean now sk" and l: "\<not> now > ip_lockedUntil sk" using assms(2) by (auto simp: gone_clean_def)
  have "mget m1 k = Some sk \<and> (ip = k \<longrightarrow> st = sk)"
  proof (cases "ip = k")
    case True
    with assms(3) sk(1) c show ?thesis by (auto simp: ensureIn_def)
  next
    case False
    with assms(3) sk(1) evictOne_keeps [OF sk(1) l] show ?thesis
      by (auto simp: ensureIn_def Let_def split: option.splits if_splits)
  qed
  with sk show "locked_in m1 k n u" and "ip = k \<Longrightarrow> ip_failures st \<ge> n \<and> ip_lockedUntil st \<ge> u"
    by (auto simp: locked_in_def)
qed

lemma locked_in_mput:
  "locked_in m k n u \<Longrightarrow> (ip = k \<Longrightarrow> ip_failures st \<ge> n \<and> ip_lockedUntil st \<ge> u) \<Longrightarrow> locked_in (mput ip st m) k n u"
  by (auto simp: locked_in_def)

lemma fail_in_keeps:
  assumes m: "locked_in m k n u" "now < u" "u \<le> now + backoff_for n" and f: "fail_in now ip m = (d, m')"
  shows "locked_in m' k n u"
proof -
  obtain st m1 where e: "ensureIn now ip m = (st, m1)" by (cases "ensureIn now ip m")
  note k = ensureIn_keeps [OF m(1,2) e]
  have "u \<le> now + backoff_for (Suc (ip_failures st))" if "ip = k"
    using k(2) [OF that] m(3) backoff_for_mono [of n "Suc (ip_failures st)"] by simp
  with f e k show ?thesis
    by (auto simp: fail_in_def Let_def split: if_splits intro!: locked_in_mput)
qed

lemma count_in_keeps: "locked_in m k n u \<Longrightarrow> now < u \<Longrightarrow> locked_in (count_in now ip m) k n u"
  using ensureIn_keeps [of m k n u now ip]
  by (cases "ensureIn now ip m") (auto simp: count_in_def intro!: locked_in_mput)

lemma allow_in_keeps:
  assumes "locked_in m k n u" and "now < u"
  shows "locked_in (snd (allow_in now ip m)) k n u"
proof (cases "ip = k")
  case True
  from assms obtain st where "mget m k = Some st" "\<not> gone_clean now st"
    by (auto simp: locked_in_def gone_clean_def)
  with True assms show ?thesis by (auto simp: allow_in_def)
next
  case False
  with assms(1) show ?thesis by (auto simp: allow_in_def locked_in_def split: option.split)
qed

lemma allow_in_refuses:
  assumes "locked_in m ip n u" and "now < u"
  shows "\<exists>r. fst (allow_in now ip m) = (False, r) \<and> r \<ge> u - now"
  using assms by (auto simp: locked_in_def allow_in_def gone_clean_def)

subsection \<open>The global trip\<close>

text \<open>What holds at time \<open>t\<close> of every state the operations can reach: the trip never outlasts its backoff.\<close>

definition lk_inv :: "time \<Rightarrow> lockout \<Rightarrow> bool" where
  "lk_inv t l \<longleftrightarrow> minute \<le> lk_globalBackoff l \<and> lk_globalBackoff l \<le> 15 * minute \<and>
     zero_time \<le> lk_globalLastTrip l \<and> lk_globalLastTrip l \<le> t \<and>
     lk_globalUntil l \<le> (if is_zero (lk_globalLastTrip l) then t else lk_globalLastTrip l + lk_globalBackoff l)"

lemma lk_inv_later: "lk_inv t l \<Longrightarrow> t \<le> t' \<Longrightarrow> lk_inv t' l"
  by (auto simp: lk_inv_def split: if_splits)

lemma lk_inv_start: "zero_time \<le> t \<Longrightarrow> lk_inv t NewLockout"
  by (simp add: lk_inv_def NewLockout_def is_zero_def minute_def)

lemma global_perIP [simp]:
  "lk_globalUntil (l\<lparr>lk_perIP := m\<rparr>) = lk_globalUntil l" "lk_inv t (l\<lparr>lk_perIP := m\<rparr>) = lk_inv t l"
  "lk_globalUntil (l\<lparr>lk_bearerIP := m\<rparr>) = lk_globalUntil l" "lk_inv t (l\<lparr>lk_bearerIP := m\<rparr>) = lk_inv t l"
  "lk_globalUntil (l\<lparr>lk_global := w\<rparr>) = lk_globalUntil l" "lk_inv t (l\<lparr>lk_global := w\<rparr>) = lk_inv t l"
  by (simp_all add: lk_inv_def)

lemma decay_global_inv:
  assumes "lk_inv t l" and "t \<le> now"
  shows "lk_inv now (decay_global now l)" and "lk_globalUntil (decay_global now l) = lk_globalUntil l"
    and "lk_perIP (decay_global now l) = lk_perIP l"
proof -
  show "lk_inv now (decay_global now l)"
    using assms by (auto simp: lk_inv_def decay_global_def is_zero_def globalDecayAfter_def minute_def hour_def)
qed (simp_all add: decay_global_def)

lemma trip_inv:
  assumes "lk_inv now l" and "zero_time < now" and "trip now l = (d, l1)"
  shows "lk_inv now l1" and "lk_globalUntil l1 = now + d" and "lk_globalUntil l \<le> now + d" and "0 < d"
    and "lk_perIP l1 = lk_perIP l"
  using assms by (auto simp: lk_inv_def trip_def Let_def is_zero_def minute_def split: if_splits)

text \<open>A recorded failure keeps the invariant and never shortens the trip; its answer is a lock that holds.\<close>

lemma Failure_global:
  assumes inv: "lk_inv t l" "t \<le> now" and z: "zero_time < now" and f: "Failure now ip l = (d, l1)"
  shows "lk_inv now l1" and "lk_globalUntil l \<le> lk_globalUntil l1"
proof -
  let ?l1 = "decay_global now (l\<lparr>lk_global := filter (\<lambda>t. t > now - 15 * minute) (lk_global l) @ [now]\<rparr>)"
  have i: "lk_inv now ?l1" "lk_globalUntil ?l1 = lk_globalUntil l"
    using decay_global_inv [of t "l\<lparr>lk_global := filter (\<lambda>t. t > now - 15 * minute) (lk_global l) @ [now]\<rparr>" now] inv
    by simp_all
  obtain e l2 where t: "trip now ?l1 = (e, l2)" by (cases "trip now ?l1")
  note tr = trip_inv [OF i(1) z t]
  show "lk_inv now l1" and "lk_globalUntil l \<le> lk_globalUntil l1"
    using f i tr t by (auto simp: Failure_def Let_def split: if_splits prod.splits)
qed

text \<open>Locked until \<open>u\<close>: by the global trip, or by the address's own record.\<close>

definition locked :: "lockout \<Rightarrow> string \<Rightarrow> nat \<Rightarrow> time \<Rightarrow> bool" where
  "locked l ip n u \<longleftrightarrow> u \<le> lk_globalUntil l \<or> locked_in (lk_perIP l) ip n u"

lemma Failure_locks:
  assumes inv: "lk_inv t l" "t \<le> now" and z: "zero_time < now" and f: "Failure now ip l = (d, l1)" and d: "0 < d"
  shows "\<exists>n. locked l1 ip n (now + d) \<and> (lk_globalUntil l1 \<ge> now + d \<or> d = backoff_for n)"
proof -
  let ?w = "filter (\<lambda>t. t > now - 15 * minute) (lk_global l) @ [now]"
  let ?l1 = "decay_global now (l\<lparr>lk_global := ?w\<rparr>)"
  have i: "lk_inv now ?l1" using decay_global_inv [of t "l\<lparr>lk_global := ?w\<rparr>" now] inv by simp
  show ?thesis
  proof (cases "length ?w > 20")
    case True
    with f trip_inv(2) [OF i z] show ?thesis
      by (auto simp: Failure_def Let_def locked_def split: prod.splits)
  next
    case False
    with f obtain m where m: "fail_in now ip (lk_perIP ?l1) = (d, m)" and l1: "l1 = ?l1\<lparr>lk_perIP := m\<rparr>"
      by (auto simp: Failure_def Let_def split: prod.splits)
    from m d obtain st m1 where "ensureIn now ip (lk_perIP ?l1) = (st, m1)" "d = backoff_for (Suc (ip_failures st))"
      "m = mput ip (st\<lparr>ip_failures := Suc (ip_failures st), ip_lastFail := now, ip_lockedUntil := now + d\<rparr>) m1"
      by (auto simp: fail_in_def Let_def split: prod.splits if_splits)
    then have "locked_in (lk_perIP l1) ip (Suc (ip_failures st)) (now + d) \<and> d = backoff_for (Suc (ip_failures st))"
      by (simp add: l1 locked_in_def)
    then show ?thesis unfolding locked_def by blast
  qed
qed

text \<open>Every operation but a login from the address and a reset keeps a lock.\<close>

fun frees :: "string \<Rightarrow> lk_op \<Rightarrow> bool" where
  "frees ip (LkSuccess i) = (i = ip)"
| "frees ip LkReset = True"
| "frees ip op = False"

lemma lk_step_inv:
  assumes "lk_inv t l" and "t \<le> now" and "zero_time < now"
  shows "lk_inv now (lk_step now op l)"
proof (cases op)
  case (LkFailure ip)
  with Failure_global(1) [OF assms] show ?thesis by (cases "Failure now ip l") simp
next
  case LkReset
  with assms show ?thesis by (auto simp: Reset_def lk_inv_def minute_def)
qed (use lk_inv_later [OF assms(1,2)] in \<open>auto simp: Allow_def AllowBearer_def FailureBearer_def Success_def
  SuccessBearer_def split: prod.splits\<close>)

lemma lk_step_locked:
  assumes l: "locked l ip n u" and u: "now < u" "u \<le> lk_globalUntil l \<or> u \<le> now + backoff_for n"
    and inv: "lk_inv t l" "t \<le> now" "zero_time < now" and op: "\<not> frees ip op"
  shows "locked (lk_step now op l) ip n u \<and> (u \<le> lk_globalUntil l \<longrightarrow> u \<le> lk_globalUntil (lk_step now op l))"
proof (cases op)
  case (LkFailure i)
  obtain d l1 where f: "Failure now i l = (d, l1)" by (cases "Failure now i l")
  have g: "u \<le> lk_globalUntil l \<Longrightarrow> u \<le> lk_globalUntil l1" using Failure_global(2) [OF inv f] by simp
  have "locked l1 ip n u"
  proof (cases "u \<le> lk_globalUntil l")
    case True
    with g show ?thesis by (simp add: locked_def)
  next
    case False
    with l u have k: "locked_in (lk_perIP l) ip n u" "u \<le> now + backoff_for n" by (auto simp: locked_def)
    let ?l1 = "decay_global now (l\<lparr>lk_global := filter (\<lambda>t. t > now - 15 * minute) (lk_global l) @ [now]\<rparr>)"
    have p: "lk_perIP ?l1 = lk_perIP l" by (simp add: decay_global_def)
    have "lk_perIP (snd (trip now ?l1)) = lk_perIP l" by (simp add: trip_def Let_def p)
    with f p fail_in_keeps [OF k(1) u(1) k(2)] count_in_keeps [OF k(1) u(1)] show ?thesis
      by (auto simp: Failure_def Let_def locked_def split: if_splits prod.splits)
  qed
  with g f LkFailure show ?thesis by simp
next
  case (LkAllow i)
  have "locked (snd (Allow now i l)) ip n u"
  proof (cases "u \<le> lk_globalUntil l")
    case True
    then show ?thesis by (auto simp: Allow_def locked_def split: prod.split)
  next
    case False
    with l have "locked_in (lk_perIP l) ip n u" by (simp add: locked_def)
    with allow_in_keeps [OF this u(1), of i] show ?thesis by (auto simp: Allow_def locked_def split: prod.splits)
  qed
  with LkAllow show ?thesis by (auto simp: Allow_def split: prod.split)
qed (use l op in \<open>auto simp: AllowBearer_def FailureBearer_def Success_def SuccessBearer_def locked_def
  locked_in_def split: prod.splits\<close>)

lemma lk_run_inv:
  "lk_inv t l \<Longrightarrow> sorted (t # map fst ops) \<Longrightarrow> \<forall>x \<in> set ops. zero_time < fst x \<Longrightarrow> sorted (map fst ops @ [t']) \<Longrightarrow>
   t \<le> t' \<Longrightarrow> lk_inv t' (lk_run ops l)"
proof (induction ops arbitrary: t l)
  case Nil
  then show ?case by (simp add: lk_inv_later)
next
  case (Cons x ops)
  obtain now op where x: "x = (now, op)" by (cases x)
  have "lk_inv now (lk_step now op l)" using Cons.prems by (intro lk_step_inv) (auto simp: x)
  then show ?case using Cons.IH [of now "lk_step now op l"] Cons.prems by (auto simp: x)
qed

lemma lk_run_locked:
  "locked l ip n u \<Longrightarrow> u \<le> lk_globalUntil l \<or> u \<le> t + backoff_for n \<Longrightarrow> lk_inv t l \<Longrightarrow> sorted (t # map fst ops) \<Longrightarrow>
   \<forall>x \<in> set ops. zero_time < fst x \<and> fst x < u \<and> \<not> frees ip (snd x) \<Longrightarrow> locked (lk_run ops l) ip n u"
proof (induction ops arbitrary: t l)
  case (Cons x ops)
  obtain now op where x: "x = (now, op)" by (cases x)
  have "u \<le> lk_globalUntil l \<or> u \<le> now + backoff_for n" using Cons.prems by (auto simp: x)
  moreover have "lk_inv now (lk_step now op l)" using Cons.prems by (intro lk_step_inv) (auto simp: x)
  ultimately show ?case
    using Cons.IH [of "lk_step now op l" now] lk_step_locked [of l ip n u now t op] Cons.prems by (auto simp: x)
qed simp

text \<open>
  C16: a backoff is kept. When a failed login is answered with a backoff, every check from that address
  is refused until it has passed: whatever other logins, failures and evictions come between, unless the address logs in or the lockout is reset.
\<close>

theorem lockout_holds:
  assumes order: "sorted (map fst ops0 @ t # map fst ops @ [t'])" and z: "\<forall>x \<in> set ops0. zero_time < fst x" "zero_time < t"
    and fails: "Failure t ip (lk_run ops0 NewLockout) = (d, l1)" and left: "t' < t + d"
    and free: "\<forall>x \<in> set ops. \<not> frees ip (snd x)"
  shows "\<exists>r. fst (Allow t' ip (lk_run ops l1)) = (False, r) \<and> r > 0"
proof -
  have "lk_inv t (lk_run ops0 NewLockout)"
  proof (rule lk_run_inv [OF lk_inv_start [of zero_time]])
    show "sorted (zero_time # map fst ops0)" "sorted (map fst ops0 @ [t])" "zero_time \<le> t"
      using order z by (auto simp: sorted_append order_le_less)
  qed (use z in auto)
  note inv = this
  have d: "0 < d" using order left by (auto simp: sorted_append)
  from Failure_locks [OF inv order_refl z(2) fails d] obtain n where
    n: "locked l1 ip n (t + d)" "t + d \<le> lk_globalUntil l1 \<or> t + d \<le> t + backoff_for n" by auto
  have "locked (lk_run ops l1) ip n (t + d)"
    using order left free z by (intro lk_run_locked [OF n Failure_global(1) [OF inv order_refl z(2) fails]])
      (auto simp: sorted_append)
  then show ?thesis
  proof (unfold locked_def, elim disjE)
    assume "t + d \<le> lk_globalUntil (lk_run ops l1)"
    with left show ?thesis by (simp add: Allow_def)
  next
    assume k: "locked_in (lk_perIP (lk_run ops l1)) ip n (t + d)"
    from allow_in_refuses [OF k left] left show ?thesis
      by (cases "allow_in t' ip (lk_perIP (lk_run ops l1))") (auto simp: Allow_def)
  qed
qed

definition six_failures :: "(time \<times> lk_op) list" where
  "six_failures = map (\<lambda>i. (int i * second, LkFailure ''9.9.9.9'')) [1..<6]"

lemma lockout_holds_witness:
  "fst (Failure (6 * second) ''9.9.9.9'' (lk_run six_failures NewLockout)) = 2 * second \<and>
   (\<exists>r. fst (Allow (7 * second) ''9.9.9.9'' (lk_run [(7 * second, LkFailure ''1.1.1.1'')]
      (snd (Failure (6 * second) ''9.9.9.9'' (lk_run six_failures NewLockout))))) = (False, r) \<and> r > 0)"
proof -
  let ?f = "Failure (6 * second) ''9.9.9.9'' (lk_run six_failures NewLockout)"
  have f: "?f = (2 * second, snd ?f)" by code_simp
  have "sorted (map fst six_failures @ 6 * second # map fst [(7 * second, LkFailure ''1.1.1.1'')] @ [7 * second])"
    and "\<forall>x \<in> set six_failures. zero_time < fst x" and "zero_time < 6 * second" by code_simp+
  from lockout_holds [OF this f] show ?thesis using f
    by (simp add: second_def) (metis fst_conv)
qed

subsection \<open>The Bearer's lockout is apart\<close>

definition bearer_op :: "lk_op \<Rightarrow> bool" where
  "bearer_op op \<longleftrightarrow> (case op of LkAllowBearer i \<Rightarrow> True | LkFailureBearer i \<Rightarrow> True | LkSuccessBearer i \<Rightarrow> True | _ \<Rightarrow> False)"

definition login_op :: "lk_op \<Rightarrow> bool" where
  "login_op op \<longleftrightarrow> (case op of LkAllow i \<Rightarrow> True | LkFailure i \<Rightarrow> True | LkSuccess i \<Rightarrow> True | _ \<Rightarrow> False)"

definition login_part :: "lockout \<Rightarrow> ip_state gomap \<times> time list \<times> time \<times> dur \<times> time" where
  "login_part l = (lk_perIP l, lk_global l, lk_globalUntil l, lk_globalBackoff l, lk_globalLastTrip l)"

lemma bearer_step_cong:
  "lk_bearerIP l = lk_bearerIP l' \<Longrightarrow> lk_bearerIP (lk_step t op l) = lk_bearerIP (lk_step t op l')"
  by (cases op) (auto simp: Allow_def Failure_def Success_def Reset_def AllowBearer_def FailureBearer_def
      SuccessBearer_def decay_global_def trip_def Let_def split: prod.splits)

lemma bearer_step_login: "login_op op \<Longrightarrow> lk_bearerIP (lk_step t op l) = lk_bearerIP l"
  by (cases op) (auto simp: login_op_def Allow_def Failure_def Success_def decay_global_def trip_def Let_def split: prod.splits)

lemma login_step_bearer: "bearer_op op \<Longrightarrow> login_part (lk_step t op l) = login_part l"
  by (cases op) (auto simp: bearer_op_def login_part_def AllowBearer_def FailureBearer_def SuccessBearer_def split: prod.splits)

lemma login_step_cong:
  "login_part l = login_part l' \<Longrightarrow> login_part (lk_step t op l) = login_part (lk_step t op l')"
  by (cases op) (auto simp: login_part_def Allow_def Failure_def Success_def Reset_def AllowBearer_def FailureBearer_def
      SuccessBearer_def decay_global_def trip_def Let_def split: prod.splits)

lemma run_bearer_filter:
  "lk_bearerIP l = lk_bearerIP l' \<Longrightarrow>
   lk_bearerIP (lk_run ops l) = lk_bearerIP (lk_run (filter (\<lambda>x. \<not> login_op (snd x)) ops) l')"
proof (induction ops arbitrary: l l')
  case (Cons x ops)
  obtain t op where x: "x = (t, op)" by (cases x)
  have "lk_bearerIP (lk_step t op l) = lk_bearerIP (if login_op op then l' else lk_step t op l')"
    using Cons.prems bearer_step_login [of op t l] bearer_step_cong [OF Cons.prems, of t op] by simp
  from Cons.IH [OF this] show ?case by (simp add: x)
qed simp

lemma run_login_filter:
  "login_part l = login_part l' \<Longrightarrow>
   login_part (lk_run ops l) = login_part (lk_run (filter (\<lambda>x. \<not> bearer_op (snd x)) ops) l')"
proof (induction ops arbitrary: l l')
  case (Cons x ops)
  obtain t op where x: "x = (t, op)" by (cases x)
  have "login_part (lk_step t op l) = login_part (if bearer_op op then l' else lk_step t op l')"
    using Cons.prems login_step_bearer [of op t l] login_step_cong [OF Cons.prems, of t op] by simp
  from Cons.IH [OF this] show ?case by (simp add: x)
qed simp

text \<open>
  The two lockouts do not touch. The Bearer check answers as if no password login had ever been
  tried, so a flood of logins (and the global trip) cannot lock out the master Bearer; and the login check
  answers as if no Bearer had been tried. A reset clears both.
\<close>

theorem lockouts_apart:
  "fst (AllowBearer t ip (lk_run ops l)) = fst (AllowBearer t ip (lk_run (filter (\<lambda>x. \<not> login_op (snd x)) ops) l)) \<and>
   fst (Allow t ip (lk_run ops l)) = fst (Allow t ip (lk_run (filter (\<lambda>x. \<not> bearer_op (snd x)) ops) l))"
  using run_bearer_filter [of l l ops] run_login_filter [of l l ops]
  by (simp add: AllowBearer_def Allow_def login_part_def split: prod.split)

subsection \<open>The client's address\<close>

lemma split_commas_nonempty: "split_commas s \<noteq> []"
  by (cases s) (auto split: list.split)

lemma split_commas_append: "split_commas (s @ CHR '','' # r) = split_commas s @ split_commas r"
proof (induction s)
  case Nil
  show ?case using split_commas_nonempty [of r] by (cases "split_commas r") auto
next
  case (Cons c s)
  show ?case using split_commas_nonempty [of s] Cons by (cases "split_commas s") auto
qed

lemma last_untrusted_append:
  "list_ex (\<lambda>p. \<not> trusted (trim p)) ps \<Longrightarrow> last_untrusted trusted (ps @ qs) = last_untrusted trusted ps"
  by (induction ps) auto

text \<open>
  A client cannot choose its bucket. Once the trusted proxies have recorded a hop that is not one of
  them, whatever the client itself put in front of the header changes nothing.
\<close>

theorem ClientIP_no_spoof:
  assumes "trusted = (\<lambda>p. case parse_ip p of None \<Rightarrow> False | Some a \<Rightarrow> in_trusted a)"
    and "list_ex (\<lambda>p. \<not> trusted (trim p)) (split_commas recorded)" and "recorded \<noteq> []"
  shows "ClientIP parse_ip split_host in_trusted remote (sent @ CHR '','' # recorded) =
    ClientIP parse_ip split_host in_trusted remote recorded"
proof -
  have "list_ex (\<lambda>p. \<not> trusted (trim p)) (rev (split_commas recorded))" using assms(2) by (simp add: list_ex_iff)
  from last_untrusted_append [OF this] assms(1,3) show ?thesis
    by (simp add: ClientIP_def split_commas_append Let_def)
qed

definition dotted :: "string \<Rightarrow> string option" where
  "dotted s = (if CHR ''.'' \<in> set s then Some s else None)"

lemma ClientIP_no_spoof_witness:
  "ClientIP dotted (\<lambda>s. Some s) (\<lambda>a. hd a = CHR ''1'') ''10.0.0.1'' ''6.6.6.6,8.8.8.8, 10.0.0.2'' = ''8.8.8.8''"
proof -
  let ?t = "\<lambda>p. case dotted p of None \<Rightarrow> False | Some a \<Rightarrow> hd a = CHR ''1''"
  have "list_ex (\<lambda>p. \<not> ?t (trim p)) (split_commas ''8.8.8.8, 10.0.0.2'')" by code_simp
  from ClientIP_no_spoof [OF refl this, of "\<lambda>s. Some s" "''10.0.0.1''" "''6.6.6.6''"]
  have "ClientIP dotted (\<lambda>s. Some s) (\<lambda>a. hd a = CHR ''1'') ''10.0.0.1'' (''6.6.6.6'' @ CHR '','' # ''8.8.8.8, 10.0.0.2'') =
    ClientIP dotted (\<lambda>s. Some s) (\<lambda>a. hd a = CHR ''1'') ''10.0.0.1'' ''8.8.8.8, 10.0.0.2''" by simp
  moreover have "ClientIP dotted (\<lambda>s. Some s) (\<lambda>a. hd a = CHR ''1'') ''10.0.0.1'' ''8.8.8.8, 10.0.0.2'' = ''8.8.8.8''"
    by code_simp
  ultimately show ?thesis by simp
qed

end
