(* ===== verification/Admin_Api.thy ===== *)
theory Admin_Api
  imports Second_Factor Lockout State_Rules
begin

section \<open>The admin routes (\<open>internal/api/admin_login.go\<close>, \<open>totp_handlers.go\<close>, \<open>stepup.go\<close>, \<open>csrf.go\<close>)\<close>

text \<open>
  Login, the session and admin gates, step-up and the 2FA handlers, over the lockout, the admin sessions
  and the stored 2FA state. Each of the three has its own mutex: a handler is a sequence of their
  critical sections in the state monad, and before each section the other requests take any number of
  steps (\<open>ad_others\<close>). Random bytes, the clock and the saving of the state file are the world's.
\<close>

subsection \<open>The server's admin state\<close>

datatype audit = Audit string string string string      \<comment> \<open>event, address, result, reason\<close>

record 'w adm =
  ad_lock :: lockout
  ad_sess :: "admin_session gomap"
  ad_auth :: auth_state
  ad_audit :: "audit list"
  ad_world :: 'w

record admin_cfg =
  cg_Password :: string
  cg_Seed :: string
  cg_MasterKeyAdmin :: bool
  cg_MasterKey :: string
  cg_DevHTTP :: bool
  cg_Reset2FA :: bool

record 'w adm_env =
  av_now :: "'w \<Rightarrow> time"
  av_others :: "'w adm \<Rightarrow> 'w adm"
  av_rand :: "nat \<Rightarrow> 'w \<Rightarrow> string option \<times> 'w"
  av_secret :: "'w \<Rightarrow> string option \<times> 'w"          \<comment> \<open>\<open>totp.Generate\<close>\<close>
  av_save :: "'w \<Rightarrow> bool \<times> 'w"
  av_hash :: "string \<Rightarrow> string"                   \<comment> \<open>\<open>sha256.Sum256\<close>\<close>
  av_crypto :: crypto
  av_cfg :: admin_cfg

type_synonym ('w, 'a) adm_act = "('w adm, 'a) state"

definition adm_do :: "'w adm_env \<Rightarrow> (time \<Rightarrow> 'w adm \<Rightarrow> 'a \<times> 'w adm) \<Rightarrow> ('w, 'a) adm_act" where
  "adm_do V f = State (\<lambda>s. let s1 = av_others V s in f (av_now V (ad_world s1)) s1)"

definition on_lock :: "'w adm_env \<Rightarrow> (time \<Rightarrow> lockout \<Rightarrow> 'a \<times> lockout) \<Rightarrow> ('w, 'a) adm_act" where
  "on_lock V f = adm_do V (\<lambda>t s. case f t (ad_lock s) of (a, l) \<Rightarrow> (a, s\<lparr>ad_lock := l\<rparr>))"

definition on_sess :: "'w adm_env \<Rightarrow> (time \<Rightarrow> admin_session gomap \<Rightarrow> 'a \<times> admin_session gomap) \<Rightarrow> ('w, 'a) adm_act" where
  "on_sess V f = adm_do V (\<lambda>t s. case f t (ad_sess s) of (a, m) \<Rightarrow> (a, s\<lparr>ad_sess := m\<rparr>))"

text \<open>\<open>f\<close> gets the time and whether a save would go through.\<close>

definition on_auth :: "'w adm_env \<Rightarrow> (time \<Rightarrow> bool \<Rightarrow> auth_state \<Rightarrow> 'a \<times> auth_state) \<Rightarrow> ('w, 'a) adm_act" where
  "on_auth V f = adm_do V (\<lambda>t s. case av_save V (ad_world s) of
     (saved, w) \<Rightarrow> (case f t saved (ad_auth s) of (a, x) \<Rightarrow> (a, s\<lparr>ad_auth := x, ad_world := w\<rparr>)))"

definition get_auth :: "'w adm_env \<Rightarrow> ('w, auth_state) adm_act" where
  "get_auth V = adm_do V (\<lambda>t s. (ad_auth s, s))"

definition draw :: "'w adm_env \<Rightarrow> ('w \<Rightarrow> 'a \<times> 'w) \<Rightarrow> ('w, 'a) adm_act" where
  "draw V f = adm_do V (\<lambda>t s. case f (ad_world s) of (a, w) \<Rightarrow> (a, s\<lparr>ad_world := w\<rparr>))"

definition the_time :: "'w adm_env \<Rightarrow> ('w, time) adm_act" where
  "the_time V = adm_do V (\<lambda>t s. (t, s))"

text \<open>\<open>strconv.Itoa\<close>.\<close>

fun itoa :: "nat \<Rightarrow> string" where
  "itoa n = (if n < 10 then [char_of (48 + n)] else itoa (n div 10) @ [char_of (48 + n mod 10)])"

declare itoa.simps [simp del]

text \<open>An event is handed to the audit; its stream, aggregation and writing are not part of the state here.\<close>

definition auditEvent :: "'w adm_env \<Rightarrow> string \<Rightarrow> string \<Rightarrow> string \<Rightarrow> string \<Rightarrow> ('w, unit) adm_act" where
  "auditEvent V event ip result reason = adm_do V (\<lambda>t s. ((), s\<lparr>ad_audit := ad_audit s @ [Audit event ip result reason]\<rparr>))"

subsection \<open>Requests and answers\<close>

text \<open>A request as the handlers see it: its client address is resolved (\<open>ClientIP\<close>), its body decoded or not.\<close>

datatype meth = GET | HEAD | OPTIONS | OtherMethod

text \<open>An \<open>Origin\<close> header or \<open>WEB_PUBLIC_URL\<close> after \<open>url.Parse\<close>: empty, not a URL, or its scheme and host.\<close>

datatype origin = NoOrigin | BadURL | Origin string string

record request =
  rq_IP :: string
  rq_Method :: meth
  rq_Authorization :: "string list"
  rq_BasicAuth :: bool
  rq_Cookie :: string
  rq_Poll :: bool
  rq_FetchSite :: string
  rq_Origin :: origin
  rq_Path :: string
  rq_Body :: "(string \<times> string) option"            \<comment> \<open>password and code\<close>

text \<open>An answer; \<open>bad body\<close> stands for each route's usage text.\<close>

datatype answer =
    Refused nat string "int option"                 \<comment> \<open>status, text, \<open>Retry-After\<close>\<close>
  | Done "cookie option" "string list"               \<comment> \<open>200; the cookie set; the codes or secret shown\<close>

definition authHeader :: "request \<Rightarrow> string" where
  "authHeader r = (case rq_Authorization r of [] \<Rightarrow> [] | h # hs \<Rightarrow> h)"

definition originsMatch :: "origin \<Rightarrow> origin \<Rightarrow> bool" where
  "originsMatch o1 w = (case (o1, w) of
     (Origin os oh, Origin ws wh) \<Rightarrow> equal_fold os ws \<and> equal_fold oh wh
   | _ \<Rightarrow> False)"

definition checkCSRF :: "origin \<Rightarrow> request \<Rightarrow> bool" where
  "checkCSRF webPublic r =
     (if rq_Method r = GET \<or> rq_Method r = HEAD \<or> rq_Method r = OPTIONS then True
      else if rq_FetchSite r \<noteq> ''same-origin'' then False
      else if rq_Origin r = NoOrigin \<or> webPublic = NoOrigin then False
      else originsMatch (rq_Origin r) webPublic)"

definition subtleCompare :: "string \<Rightarrow> string \<Rightarrow> bool" where
  "subtleCompare a b \<longleftrightarrow> length a = length b \<and> a = b"

definition retry_after :: "dur \<Rightarrow> int" where
  "retry_after d = go_div d second + 1"

definition sanitizeAuditPath :: "string \<Rightarrow> string" where
  "sanitizeAuditPath p = map (\<lambda>c. if (of_char c :: nat) < 33 \<or> (of_char c :: nat) > 126 then CHR ''_'' else c) (take 256 p)"

subsection \<open>Failed checks\<close>

text \<open>\<open>failAuth\<close>: counts the failure; 429 once the lockout trips.\<close>

definition failAuth :: "'w adm_env \<Rightarrow> string \<Rightarrow> string \<Rightarrow> string \<Rightarrow> string \<Rightarrow> ('w, answer) adm_act" where
  "failAuth V event ip reason msg = do {
     d \<leftarrow> on_lock V (\<lambda>t. Failure t ip);
     _ \<leftarrow> auditEvent V event ip ''fail'' reason;
     if d > 0 then do {
       _ \<leftarrow> auditEvent V ''login_lockout'' ip ''blocked'' ''lockout'';
       ret (Refused 429 ''too many failed logins'' (Some (retry_after d))) }
     else ret (Refused 401 msg None) }"

definition lockedOut :: "'w adm_env \<Rightarrow> string \<Rightarrow> ('w, answer option) adm_act" where
  "lockedOut V ip = do {
     a \<leftarrow> on_lock V (\<lambda>t. Allow t ip);
     (case a of
        (True, retry) \<Rightarrow> ret None
      | (False, retry) \<Rightarrow> do {
          _ \<leftarrow> auditEvent V ''login_lockout'' ip ''blocked'' ''lockout'';
          ret (Some (Refused 429 ''too many failed logins'' (Some (retry_after retry)))) }) }"

subsection \<open>Login and logout\<close>

definition reason_text :: "factor_reason \<Rightarrow> string" where
  "reason_text r = (case r of RecoveryRefused \<Rightarrow> ''recovery_code_refused'' | NotEnrolled \<Rightarrow> ''not_enrolled''
     | RecoveryError \<Rightarrow> ''recovery_error'' | BadRecoveryCode \<Rightarrow> ''bad_recovery_code'' | TOTPDecrypt \<Rightarrow> ''totp_decrypt''
     | BadTOTP \<Rightarrow> ''bad_totp'' | TOTPReuse \<Rightarrow> ''totp_reuse'' | SaveFailed \<Rightarrow> ''save_failed'')"

definition consume ::
  "'w adm_env \<Rightarrow> bool \<Rightarrow> string \<Rightarrow> (auth_state \<Rightarrow> auth_state) \<Rightarrow> ('w, factor) adm_act" where
  "consume V allowRecovery code also =
     on_auth V (\<lambda>t saved a. consumeFactor (av_crypto V) (cg_Seed (av_cfg V)) t saved allowRecovery code also a)"

definition auditRecoveryUse :: "'w adm_env \<Rightarrow> string \<Rightarrow> factor \<Rightarrow> ('w, unit) adm_act" where
  "auditRecoveryUse V ip f = (case f of
     FactorOk ByRecovery left \<Rightarrow> auditEvent V ''recovery_code_used'' ip ''ok'' (''remaining='' @ itoa left)
   | _ \<Rightarrow> ret ())"

definition new_session :: "'w adm_env \<Rightarrow> string \<Rightarrow> ('w, string option) adm_act" where
  "new_session V ip = do {
     raw \<leftarrow> draw V (av_rand V 32);
     (case raw of
        None \<Rightarrow> ret None
      | Some bytes \<Rightarrow> do { tok \<leftarrow> on_sess V (\<lambda>t. Create (av_hash V) t ip bytes); ret (Some tok) }) }"

definition finish_login :: "'w adm_env \<Rightarrow> string \<Rightarrow> ('w, answer) adm_act" where
  "finish_login V ip = do {
     _ \<leftarrow> on_lock V (\<lambda>t l. ((), Success ip l));
     tok \<leftarrow> new_session V ip;
     (case tok of
        None \<Rightarrow> ret (Refused 500 ''session create failed'' None)
      | Some raw \<Rightarrow> do {
          _ \<leftarrow> auditEvent V ''login'' ip ''ok'' [];
          ret (Done (Some (SetSessionCookie raw (cg_DevHTTP (av_cfg V)))) []) }) }"

definition handleLogin :: "'w adm_env \<Rightarrow> request \<Rightarrow> ('w, answer) adm_act" where
  "handleLogin V r = do {
     locked \<leftarrow> lockedOut V (rq_IP r);
     (case locked of
        Some a \<Rightarrow> ret a
      | None \<Rightarrow>
          (case rq_Body r of
             None \<Rightarrow> ret (Refused 400 ''bad body'' None)
           | Some (password, code) \<Rightarrow>
               if password = [] then ret (Refused 400 ''bad body'' None)
               else if password \<noteq> cg_Password (av_cfg V) then failAuth V ''login'' (rq_IP r) ''bad_password'' ''unauthorized''
               else do {
                 auth \<leftarrow> get_auth V;
                 if \<not> au_Enrolled auth then finish_login V (rq_IP r)
                 else if code = [] then do {
                   _ \<leftarrow> auditEvent V ''login'' (rq_IP r) ''fail'' ''2fa_required'';
                   ret (Refused 401 ''unauthorized'' None) }
                 else do {
                   f \<leftarrow> consume V True code (\<lambda>a. a);
                   (case f of
                      FactorNo e \<Rightarrow> failAuth V ''login'' (rq_IP r) (reason_text e) ''unauthorized''
                    | FactorOk m left \<Rightarrow> do {
                        _ \<leftarrow> auditRecoveryUse V (rq_IP r) f;
                        finish_login V (rq_IP r) }) } })) }"

definition handleLogout :: "'w adm_env \<Rightarrow> request \<Rightarrow> ('w, answer) adm_act" where
  "handleLogout V r = do {
     _ \<leftarrow> (if rq_Cookie r \<noteq> [] then on_sess V (\<lambda>t m. ((), RevokeRaw (av_hash V) (rq_Cookie r) m)) else ret ());
     _ \<leftarrow> auditEvent V ''session_logout'' (rq_IP r) ''ok'' [];
     ret (Done (Some (ClearSessionCookie (cg_DevHTTP (av_cfg V)))) []) }"

definition revoke_all :: "'w adm_env \<Rightarrow> ('w, nat) adm_act" where
  "revoke_all V = on_sess V (\<lambda>t. RevokeAll)"

definition handleRevokeAllSessions :: "'w adm_env \<Rightarrow> request \<Rightarrow> ('w, answer) adm_act" where
  "handleRevokeAllSessions V r = do {
     n \<leftarrow> revoke_all V;
     _ \<leftarrow> auditEvent V ''session_revoke_all'' (rq_IP r) ''ok'' [];
     ret (Done (Some (ClearSessionCookie (cg_DevHTTP (av_cfg V)))) []) }"

subsection \<open>The gates\<close>

definition observed :: "'w adm_env \<Rightarrow> request \<Rightarrow> admin_session \<Rightarrow> ('w, (string \<times> admin_session) option) adm_act" where
  "observed V r s = do {
     changed \<leftarrow> on_sess V (\<lambda>t. ObserveIP (av_hash V) (rq_Cookie r) (rq_IP r));
     (case changed of
        None \<Rightarrow> ret (Some (rq_Cookie r, s))
      | Some prev \<Rightarrow> do {
          _ \<leftarrow> auditEvent V ''admin_session_ip_change'' (rq_IP r) ''ok'' (''previous='' @ prev);
          ret (Some (rq_Cookie r, s\<lparr>as_IP := rq_IP r\<rparr>)) }) }"

definition cookieSession :: "'w adm_env \<Rightarrow> request \<Rightarrow> ('w, (string \<times> admin_session) option) adm_act" where
  "cookieSession V r = do {
     found \<leftarrow> on_sess V (\<lambda>t. Lookup (av_hash V) t (rq_Cookie r) (\<not> rq_Poll r));
     (case found of None \<Rightarrow> ret None | Some s \<Rightarrow> observed V r s) }"

datatype admitted = ByBearer | BySession string admin_session

definition requireSession ::
  "'w adm_env \<Rightarrow> origin \<Rightarrow> request \<Rightarrow> (admitted \<Rightarrow> ('w, answer) adm_act) \<Rightarrow> ('w, answer) adm_act" where
  "requireSession V web r nxt =
     (if rq_Authorization r \<noteq> [] then ret (Refused 401 ''unauthorized'' None)
      else do {
        c \<leftarrow> cookieSession V r;
        (case c of
           None \<Rightarrow> ret (Refused 401 ''unauthorized'' None)
         | Some (raw, s) \<Rightarrow>
             if \<not> checkCSRF web r then ret (Refused 403 ''forbidden'' None)
             else nxt (BySession raw s)) })"

text \<open>The Bearer branch: its own lockout, checked before the key is compared.\<close>

definition bearer_admin ::
  "'w adm_env \<Rightarrow> request \<Rightarrow> string \<Rightarrow> (admitted \<Rightarrow> ('w, answer) adm_act) \<Rightarrow> ('w, answer) adm_act" where
  "bearer_admin V r token nxt = do {
     a \<leftarrow> on_lock V (\<lambda>t. AllowBearer t (rq_IP r));
     (case a of
        (False, retry) \<Rightarrow> do {
          _ \<leftarrow> auditEvent V ''admin_bearer_reject'' (rq_IP r) ''blocked'' (''lockout path='' @ sanitizeAuditPath (rq_Path r));
          ret (Refused 429 ''too many failed attempts'' (Some (retry_after retry))) }
      | (True, retry) \<Rightarrow>
          if cg_MasterKeyAdmin (av_cfg V) \<and> token = cg_MasterKey (av_cfg V) then do {
            _ \<leftarrow> on_lock V (\<lambda>t l. ((), SuccessBearer (rq_IP r) l));
            _ \<leftarrow> auditEvent V ''admin_key_use'' (rq_IP r) ''ok'' (sanitizeAuditPath (rq_Path r));
            nxt ByBearer }
          else do {
            _ \<leftarrow> on_lock V (\<lambda>t. FailureBearer t (rq_IP r));
            _ \<leftarrow> auditEvent V ''admin_bearer_reject'' (rq_IP r) ''fail'' (''path='' @ sanitizeAuditPath (rq_Path r));
            ret (Refused 401 ''unauthorized'' None) }) }"

definition requireAdmin ::
  "'w adm_env \<Rightarrow> origin \<Rightarrow> request \<Rightarrow> (admitted \<Rightarrow> ('w, answer) adm_act) \<Rightarrow> ('w, answer) adm_act" where
  "requireAdmin V web r nxt =
     (if rq_BasicAuth r then ret (Refused 401 ''unauthorized'' None)
      else if has_prefix (authHeader r) ''Bearer '' then bearer_admin V r (drop 7 (authHeader r)) nxt
      else do {
        c \<leftarrow> cookieSession V r;
        (case c of
           None \<Rightarrow> ret (Refused 401 ''unauthorized'' None)
         | Some (raw, s) \<Rightarrow>
             if \<not> checkCSRF web r then ret (Refused 403 ''forbidden'' None)
             else do {
               auth \<leftarrow> get_auth V;
               if On auth \<and> \<not> au_Enrolled auth then ret (Refused 403 ''2fa enrollment required'' None)
               else nxt (BySession raw s) }) })"

subsection \<open>Enrolment\<close>

text \<open>Lockout, body and password: the start of every credential route. \<open>event\<close> and \<open>msg\<close> are the failure's.\<close>

definition with_password ::
  "'w adm_env \<Rightarrow> request \<Rightarrow> string \<Rightarrow> string \<Rightarrow> (string \<Rightarrow> ('w, answer) adm_act) \<Rightarrow> ('w, answer) adm_act" where
  "with_password V r event msg k = do {
     locked \<leftarrow> lockedOut V (rq_IP r);
     (case locked of
        Some a \<Rightarrow> ret a
      | None \<Rightarrow>
          (case rq_Body r of
             None \<Rightarrow> ret (Refused 400 ''bad body'' None)
           | Some (password, code) \<Rightarrow>
               if \<not> subtleCompare password (cg_Password (av_cfg V)) then failAuth V event (rq_IP r) ''bad_password'' msg
               else k code)) }"

datatype enroll_err = AlreadyEnrolled | NoPending | BadCode | EnrollFailed

definition pend_secret :: "crypto \<Rightarrow> string \<Rightarrow> string \<Rightarrow> time \<Rightarrow> auth_state \<Rightarrow> enroll_err + auth_state" where
  "pend_secret C salt enc expires a =
     (if au_Enrolled a then Inl AlreadyEnrolled
      else Inr (a\<lparr>au_TOTPSalt := cr_b64 C salt, au_PendingSecretEnc := cr_b64 C enc, au_PendingExpires := expires\<rparr>))"

definition handleTOTPEnrollStart :: "'w adm_env \<Rightarrow> request \<Rightarrow> ('w, answer) adm_act" where
  "handleTOTPEnrollStart V r = with_password V r ''2fa_enroll'' ''invalid password'' (\<lambda>code. do {
     secret \<leftarrow> draw V (av_secret V);
     (case secret of
        None \<Rightarrow> ret (Refused 500 ''totp generate failed'' None)
      | Some sec \<Rightarrow> do {
          salt \<leftarrow> draw V (av_rand V 16);
          (case salt of
             None \<Rightarrow> ret (Refused 500 ''salt failed'' None)
           | Some slt \<Rightarrow>
               (case DeriveTOTPKey (av_crypto V) (cg_Seed (av_cfg V)) slt of
                  None \<Rightarrow> ret (Refused 500 ''derive failed'' None)
                | Some key \<Rightarrow> do {
                    nonce \<leftarrow> draw V (av_rand V 12);
                    (case nonce of
                       None \<Rightarrow> ret (Refused 500 ''encrypt failed'' None)
                     | Some n \<Rightarrow> do {
                         now \<leftarrow> the_time V;
                         e \<leftarrow> on_auth V (\<lambda>t saved. UpdateAuthState saved
                               (pend_secret (av_crypto V) slt (EncryptSecret (av_crypto V) key n sec) (now + 10 * minute)));
                         ret (case e of
                                 None \<Rightarrow> Done None [sec]
                               | Some (Some AlreadyEnrolled) \<Rightarrow> Refused 409 ''already enrolled'' None
                               | Some _ \<Rightarrow> Refused 500 ''save failed'' None) }) })) }) })"

text \<open>The update of the confirmation: the code against the pending secret, then enrolled with new recovery codes.\<close>

definition enroll :: "crypto \<Rightarrow> string \<Rightarrow> time \<Rightarrow> string \<Rightarrow> string \<Rightarrow> recovery_hash list \<Rightarrow> auth_state \<Rightarrow> enroll_err + auth_state" where
  "enroll C seed now nonce code hashes a =
     (if au_Enrolled a then Inl AlreadyEnrolled
      else if au_PendingSecretEnc a = [] \<or> now > au_PendingExpires a then Inl NoPending
      else (case (DecodeB64 C (au_PendingSecretEnc a), DecodeB64 C (au_TOTPSalt a)) of
              (Some blob, Some salt) \<Rightarrow>
                (case DeriveTOTPKey C seed salt of
                   None \<Rightarrow> Inl EnrollFailed
                 | Some key \<Rightarrow>
                     (case DecryptSecret C key blob of
                        None \<Rightarrow> Inl EnrollFailed
                      | Some secret \<Rightarrow>
                          (case ValidateTOTP C now secret code 0 of
                             Inr (True, step) \<Rightarrow>
                               Inr (a\<lparr>au_TOTPBlob := cr_b64 C (EncryptSecret C key nonce secret), au_RecoveryCodes := hashes,
                                      au_Enrolled := True, au_TwoFactorOn := True, au_LastTOTPStep := step,
                                      au_PendingSecretEnc := [], au_PendingExpires := zero_time\<rparr>)
                           | _ \<Rightarrow> Inl BadCode)))
            | _ \<Rightarrow> Inl EnrollFailed))"

primrec draw_codes :: "'w adm_env \<Rightarrow> nat \<Rightarrow> ('w, (string \<times> string) list option) adm_act" where
  "draw_codes V 0 = ret (Some [])"
| "draw_codes V (Suc n) = do {
     raw \<leftarrow> draw V (av_rand V recoveryCodeSymbols);
     salt \<leftarrow> draw V (av_rand V 16);
     rest \<leftarrow> draw_codes V n;
     ret (case (raw, salt, rest) of (Some x, Some s, Some ds) \<Rightarrow> Some ((x, s) # ds) | _ \<Rightarrow> None) }"

definition issueRecoveryCodes :: "'w adm_env \<Rightarrow> ('w, (string list \<times> recovery_hash list) option) adm_act" where
  "issueRecoveryCodes V =
     (case RecoveryPepper (av_crypto V) (cg_Seed (av_cfg V)) of
        None \<Rightarrow> ret None
      | Some pepper \<Rightarrow> do {
          ds \<leftarrow> draw_codes V RecoveryCodeCount;
          ret (map_option (GenerateRecoveryCodes (av_crypto V) pepper) ds) })"

definition enrolled_answer :: "'w adm_env \<Rightarrow> request \<Rightarrow> string list \<Rightarrow> ('w, answer) adm_act" where
  "enrolled_answer V r codes = do {
     _ \<leftarrow> on_lock V (\<lambda>t l. ((), Success (rq_IP r) l));
     n \<leftarrow> revoke_all V;
     tok \<leftarrow> new_session V (rq_IP r);
     _ \<leftarrow> auditEvent V ''2fa_enroll'' (rq_IP r) ''ok'' (''sessions_revoked='' @ itoa n);
     _ \<leftarrow> auditEvent V ''recovery_codes_issued'' (rq_IP r) ''ok'' (''count='' @ itoa (length codes));
     ret (Done (Some (case tok of Some raw \<Rightarrow> SetSessionCookie raw (cg_DevHTTP (av_cfg V))
                               | None \<Rightarrow> ClearSessionCookie (cg_DevHTTP (av_cfg V)))) codes) }"

definition handleTOTPEnrollConfirm :: "'w adm_env \<Rightarrow> request \<Rightarrow> ('w, answer) adm_act" where
  "handleTOTPEnrollConfirm V r = do {
     locked \<leftarrow> lockedOut V (rq_IP r);
     (case locked of
        Some a \<Rightarrow> ret a
      | None \<Rightarrow>
          (case rq_Body r of
             None \<Rightarrow> ret (Refused 400 ''bad body'' None)
           | Some (password, code) \<Rightarrow>
               if code = [] then ret (Refused 400 ''bad body'' None)
               else if \<not> subtleCompare password (cg_Password (av_cfg V))
               then failAuth V ''2fa_enroll'' (rq_IP r) ''bad_password'' ''invalid password''
               else do {
                 issued \<leftarrow> issueRecoveryCodes V;
                 (case issued of
                    None \<Rightarrow> ret (Refused 500 ''recovery codes failed'' None)
                  | Some (codes, hashes) \<Rightarrow> do {
                      nonce \<leftarrow> draw V (av_rand V 12);
                      e \<leftarrow> on_auth V (\<lambda>t saved. UpdateAuthState saved (\<lambda>a.
                            case enroll (av_crypto V) (cg_Seed (av_cfg V)) t (case nonce of Some n \<Rightarrow> n | None \<Rightarrow> []) code hashes a of
                              Inr a' \<Rightarrow> if nonce = None then Inl EnrollFailed else Inr a'
                            | Inl e \<Rightarrow> Inl e));
                      (case e of
                         None \<Rightarrow> enrolled_answer V r codes
                       | Some (Some BadCode) \<Rightarrow> failAuth V ''login'' (rq_IP r) ''bad_totp_enroll'' ''invalid code''
                       | Some (Some AlreadyEnrolled) \<Rightarrow> ret (Refused 409 ''already enrolled'' None)
                       | Some (Some NoPending) \<Rightarrow> ret (Refused 400 ''no pending enrollment'' None)
                       | Some _ \<Rightarrow> ret (Refused 500 ''enroll failed'' None)) }) })) }"

subsection \<open>Password and factor\<close>

definition passwordAndFactor ::
  "'w adm_env \<Rightarrow> request \<Rightarrow> string \<Rightarrow> bool \<Rightarrow> (auth_state \<Rightarrow> auth_state) \<Rightarrow> ('w, answer) adm_act \<Rightarrow> ('w, answer) adm_act" where
  "passwordAndFactor V r event allowRecovery also k = with_password V r event ''unauthorized'' (\<lambda>code. do {
     auth \<leftarrow> get_auth V;
     if \<not> au_Enrolled auth then ret (Refused 400 ''not enrolled'' None)
     else if \<not> allowRecovery \<and> LooksLikeRecoveryCode (trim code)
     then failAuth V event (rq_IP r) ''recovery_code_refused'' ''authenticator code required (recovery codes are not accepted here)''
     else do {
       f \<leftarrow> consume V allowRecovery code also;
       (case f of
          FactorNo NotEnrolled \<Rightarrow> ret (Refused 400 ''not enrolled'' None)
        | FactorNo e \<Rightarrow> failAuth V event (rq_IP r) (reason_text e) ''unauthorized''
        | FactorOk m left \<Rightarrow> do {
            _ \<leftarrow> on_lock V (\<lambda>t l. ((), Success (rq_IP r) l));
            _ \<leftarrow> auditRecoveryUse V (rq_IP r) f;
            k }) } })"

definition signed_out :: "'w adm_env \<Rightarrow> request \<Rightarrow> string \<Rightarrow> ('w, answer) adm_act" where
  "signed_out V r event = do {
     n \<leftarrow> revoke_all V;
     _ \<leftarrow> auditEvent V event (rq_IP r) ''ok'' (''sessions_revoked='' @ itoa n);
     ret (Done (Some (ClearSessionCookie (cg_DevHTTP (av_cfg V)))) []) }"

definition handleTOTPRemove :: "'w adm_env \<Rightarrow> request \<Rightarrow> ('w, answer) adm_act" where
  "handleTOTPRemove V r = passwordAndFactor V r ''2fa_remove'' True turnOff2FA (signed_out V r ''2fa_remove'')"

definition handleTOTPReset :: "'w adm_env \<Rightarrow> request \<Rightarrow> ('w, answer) adm_act" where
  "handleTOTPReset V r = passwordAndFactor V r ''2fa_reset'' True wipe2FA (signed_out V r ''2fa_reset'')"

definition handleRecoveryRegen :: "'w adm_env \<Rightarrow> request \<Rightarrow> ('w, answer) adm_act" where
  "handleRecoveryRegen V r = do {
     issued \<leftarrow> issueRecoveryCodes V;
     (case issued of
        None \<Rightarrow> ret (Refused 500 ''failed'' None)
      | Some (codes, hashes) \<Rightarrow>
          passwordAndFactor V r ''recovery_codes_regenerated'' False (\<lambda>a. a\<lparr>au_RecoveryCodes := hashes\<rparr>) (do {
            _ \<leftarrow> auditEvent V ''recovery_codes_regenerated'' (rq_IP r) ''ok'' (''count='' @ itoa (length codes));
            ret (Done None codes) })) }"

subsection \<open>Step-up\<close>

definition StepUpMaxAge :: dur where "StepUpMaxAge = 30 * minute"

definition stamp_step_up :: "'w adm_env \<Rightarrow> request \<Rightarrow> string \<Rightarrow> string \<Rightarrow> ('w, answer) adm_act" where
  "stamp_step_up V r raw how = do {
     at \<leftarrow> on_sess V (\<lambda>t. StampStepUp (av_hash V) t raw);
     (case at of
        None \<Rightarrow> ret (Refused 401 ''unauthorized'' None)
      | Some t \<Rightarrow> do {
          _ \<leftarrow> on_lock V (\<lambda>t l. ((), Success (rq_IP r) l));
          _ \<leftarrow> auditEvent V ''step_up'' (rq_IP r) ''ok'' (''method='' @ how);
          ret (Done None []) }) }"

definition handleStepUp :: "'w adm_env \<Rightarrow> request \<Rightarrow> admitted \<Rightarrow> ('w, answer) adm_act" where
  "handleStepUp V r who = do {
     locked \<leftarrow> lockedOut V (rq_IP r);
     (case locked of
        Some a \<Rightarrow> ret a
      | None \<Rightarrow>
          (case who of
             ByBearer \<Rightarrow> ret (Refused 401 ''unauthorized'' None)
           | BySession raw s \<Rightarrow>
               if raw = [] then ret (Refused 401 ''unauthorized'' None)
               else (case rq_Body r of
                  None \<Rightarrow> ret (Refused 400 ''bad body'' None)
                | Some (password, code0) \<Rightarrow>
                    if \<not> subtleCompare password (cg_Password (av_cfg V)) then failAuth V ''step_up'' (rq_IP r) ''bad_password'' ''unauthorized''
                    else do {
                      auth \<leftarrow> get_auth V;
                      (let code = trim code0 in
                       if \<not> au_Enrolled auth then stamp_step_up V r raw ''password''
                       else if code = [] then failAuth V ''step_up'' (rq_IP r) ''code_required'' ''unauthorized''
                       else if LooksLikeRecoveryCode code
                       then failAuth V ''step_up'' (rq_IP r) ''recovery_code_refused'' ''authenticator code required (recovery codes are not accepted here)''
                       else do {
                         f \<leftarrow> consume V False code (\<lambda>a. a);
                         (case f of
                            FactorNo e \<Rightarrow> failAuth V ''step_up'' (rq_IP r) (reason_text e) ''unauthorized''
                          | FactorOk m left \<Rightarrow> stamp_step_up V r raw ''totp'') }) }))) }"

text \<open>The gate before a key reveal: any \<open>Authorization\<close> header is refused.\<close>

definition refuseRevealOverBearer ::
  "'w adm_env \<Rightarrow> request \<Rightarrow> bool \<Rightarrow> ('w, answer) adm_act \<Rightarrow> ('w, answer) adm_act" where
  "refuseRevealOverBearer V r reveal nxt =
     (if reveal \<and> rq_Authorization r \<noteq> [] then do {
        _ \<leftarrow> (if has_prefix (authHeader r) ''Bearer '' \<and> drop 7 (authHeader r) = cg_MasterKey (av_cfg V)
              then auditEvent V ''admin_key_use'' (rq_IP r) ''blocked'' ''reveal_refused'' else ret ());
        ret (Refused 403 ''key reveal needs an admin session'' None) }
      else nxt)"

subsection \<open>At boot\<close>

definition PasswordFingerprint :: "'w adm_env \<Rightarrow> string" where
  "PasswordFingerprint V = hex_encode (cr_mac (av_crypto V) (cg_Seed (av_cfg V)) (cg_Password (av_cfg V)))"

definition set_auth :: "'w adm_env \<Rightarrow> auth_state \<Rightarrow> ('w, unit) adm_act" where
  "set_auth V a = on_auth V (\<lambda>t saved x. ((), a))"

definition ensurePasswordFingerprint :: "'w adm_env \<Rightarrow> ('w, unit) adm_act" where
  "ensurePasswordFingerprint V = do {
     auth \<leftarrow> get_auth V;
     (let fp = PasswordFingerprint V in
      if au_PasswordFingerprint auth = [] then set_auth V (auth\<lparr>au_PasswordFingerprint := fp\<rparr>)
      else if au_PasswordFingerprint auth \<noteq> fp then do {
        _ \<leftarrow> auditEvent V ''password_change'' [] ''ok'' [];
        set_auth V (auth\<lparr>au_PasswordFingerprint := fp\<rparr>) }
      else ret ()) }"

definition fresh_auth :: auth_state where
  "fresh_auth = \<lparr>au_TOTPBlob = [], au_TOTPSalt = [], au_RecoveryCodes = [], au_PasswordFingerprint = [], au_Enrolled = False,
     au_LastTOTPStep = 0, au_BreakGlassDone = False, au_PendingSecretEnc = [], au_PendingExpires = zero_time,
     au_TwoFactorOn = False\<rparr>"

definition applyBreakGlass :: "'w adm_env \<Rightarrow> ('w, unit) adm_act" where
  "applyBreakGlass V = do {
     auth \<leftarrow> get_auth V;
     if \<not> cg_Reset2FA (av_cfg V) then
       (if au_BreakGlassDone auth then set_auth V (auth\<lparr>au_BreakGlassDone := False\<rparr>) else ret ())
     else if au_BreakGlassDone auth then auditEvent V ''2fa_reset_breakglass'' [] ''blocked'' ''already wiped; remove UPLINK_RESET_2FA''
     else do {
       _ \<leftarrow> set_auth V (fresh_auth\<lparr>au_BreakGlassDone := True, au_PasswordFingerprint := PasswordFingerprint V\<rparr>);
       _ \<leftarrow> revoke_all V;
       _ \<leftarrow> on_lock V (\<lambda>t l. ((), Reset l));
       auditEvent V ''2fa_reset_breakglass'' [] ''ok'' ''wiped'' } }"

end
