(* ===== verification/Admin_Props.thy ===== *)
theory Admin_Props
  imports Admin_Api
begin

section \<open>What the admin routes guarantee\<close>

text \<open>
  Theorems on the handlers of \<open>Admin_Api\<close>: what a login and the removal of 2FA need, that a lockout is
  looked at before any credential, and what the admin gate lets through. The other requests are
  described by a relation \<open>R\<close> their steps stay in (\<open>others_only\<close>); a theorem holds for every such \<open>R\<close>,
  so also for the relation of the steps the other handlers really make.
\<close>

subsection \<open>The other requests\<close>

definition others_only :: "'w adm_env \<Rightarrow> ('w adm \<Rightarrow> 'a) \<Rightarrow> ('a \<Rightarrow> 'a \<Rightarrow> bool) \<Rightarrow> bool" where
  "others_only V g R \<longleftrightarrow> reflp R \<and> transp R \<and> (\<forall>s. R (g s) (g (av_others V s)))"

lemma others_refl: "others_only V g R \<Longrightarrow> R x x"
  by (auto simp: others_only_def reflp_def)

lemma others_trans: "others_only V g R \<Longrightarrow> R x y \<Longrightarrow> R y z \<Longrightarrow> R x z"
  unfolding others_only_def by (blast dest: transpD)

lemma keeps_adm_do:
  assumes V: "others_only V g R" and f: "\<And>t s. R (g s) (g (snd (f t s)))"
  shows "keeps (\<lambda>s. R x (g s)) (adm_do V f)"
  unfolding keeps_def
proof (intro allI impI)
  fix s assume "R x (g s)"
  moreover have "R (g s) (g (av_others V s))" using V by (simp add: others_only_def)
  ultimately show "R x (g (snd (run_state (adm_do V f) s)))"
    using f [of "av_others V s"] others_trans [OF V] unfolding adm_do_def Let_def by (metis state.sel)
qed

text \<open>The sections that do not touch the 2FA state, and those that do not touch the admin sessions.\<close>

lemma idle_auth:
  assumes "others_only V ad_auth R"
  shows "keeps (\<lambda>s. R x (ad_auth s)) (on_lock V f)" "keeps (\<lambda>s. R x (ad_auth s)) (on_sess V g)"
    "keeps (\<lambda>s. R x (ad_auth s)) (draw V h)" "keeps (\<lambda>s. R x (ad_auth s)) (get_auth V)"
    "keeps (\<lambda>s. R x (ad_auth s)) (the_time V)" "keeps (\<lambda>s. R x (ad_auth s)) (auditEvent V e ip res why)"
  unfolding on_lock_def on_sess_def draw_def get_auth_def the_time_def auditEvent_def
  by (rule keeps_adm_do [OF assms], simp add: others_refl [OF assms] split: prod.split)+

lemma idle_sess:
  assumes "others_only V ad_sess R"
  shows "keeps (\<lambda>s. R x (ad_sess s)) (on_lock V f)" "keeps (\<lambda>s. R x (ad_sess s)) (on_auth V g)"
    "keeps (\<lambda>s. R x (ad_sess s)) (draw V h)" "keeps (\<lambda>s. R x (ad_sess s)) (get_auth V)"
    "keeps (\<lambda>s. R x (ad_sess s)) (the_time V)" "keeps (\<lambda>s. R x (ad_sess s)) (auditEvent V e ip res why)"
  unfolding on_lock_def on_auth_def draw_def get_auth_def the_time_def auditEvent_def
  by (rule keeps_adm_do [OF assms], simp add: others_refl [OF assms] split: prod.split)+

lemma keeps_bool [keeps_intro]: "keeps P f \<Longrightarrow> keeps P g \<Longrightarrow> keeps P (case b of True \<Rightarrow> f | False \<Rightarrow> g)"
  by (cases b) simp_all

lemma keeps_factor [keeps_intro]:
  "(\<And>m n. keeps P (f m n)) \<Longrightarrow> (\<And>e. keeps P (g e)) \<Longrightarrow> keeps P (case r of FactorOk m n \<Rightarrow> f m n | FactorNo e \<Rightarrow> g e)"
  by (cases r) simp_all

lemma keeps_method [keeps_intro]: "keeps P f \<Longrightarrow> keeps P g \<Longrightarrow> keeps P (case m of ByTOTP \<Rightarrow> f | ByRecovery \<Rightarrow> g)"
  by (cases m) simp_all

lemma keeps_enroll_err [keeps_intro]:
  "keeps P a \<Longrightarrow> keeps P b \<Longrightarrow> keeps P c \<Longrightarrow> keeps P d \<Longrightarrow>
   keeps P (case e of AlreadyEnrolled \<Rightarrow> a | NoPending \<Rightarrow> b | BadCode \<Rightarrow> c | EnrollFailed \<Rightarrow> d)"
  by (cases e) simp_all

lemma keeps_reason [keeps_intro]:
  "keeps P a \<Longrightarrow> keeps P b \<Longrightarrow> keeps P c \<Longrightarrow> keeps P d \<Longrightarrow> keeps P e \<Longrightarrow> keeps P f \<Longrightarrow> keeps P g \<Longrightarrow> keeps P h \<Longrightarrow>
   keeps P (case r of RecoveryRefused \<Rightarrow> a | NotEnrolled \<Rightarrow> b | RecoveryError \<Rightarrow> c | BadRecoveryCode \<Rightarrow> d
     | TOTPDecrypt \<Rightarrow> e | BadTOTP \<Rightarrow> f | TOTPReuse \<Rightarrow> g | SaveFailed \<Rightarrow> h)"
  by (cases r) simp_all

lemma keeps_admitted [keeps_intro]:
  "keeps P f \<Longrightarrow> (\<And>raw s. keeps P (g raw s)) \<Longrightarrow> keeps P (case w of ByBearer \<Rightarrow> f | BySession raw s \<Rightarrow> g raw s)"
  by (cases w) simp_all

lemma keeps_Let [keeps_intro]: "keeps P (f x) \<Longrightarrow> keeps P (Let x f)"
  by simp

lemma calm_auth:
  assumes "others_only V ad_auth R"
  shows "keeps (\<lambda>s. R x (ad_auth s)) (lockedOut V ip)" "keeps (\<lambda>s. R x (ad_auth s)) (failAuth V ev ip why msg)"
    "keeps (\<lambda>s. R x (ad_auth s)) (new_session V ip)" "keeps (\<lambda>s. R x (ad_auth s)) (finish_login V ip)"
    "keeps (\<lambda>s. R x (ad_auth s)) (revoke_all V)" "keeps (\<lambda>s. R x (ad_auth s)) (auditRecoveryUse V ip fct)"
    "keeps (\<lambda>s. R x (ad_auth s)) (stamp_step_up V r raw how)" "keeps (\<lambda>s. R x (ad_auth s)) (cookieSession V r)"
  unfolding lockedOut_def failAuth_def new_session_def finish_login_def revoke_all_def auditRecoveryUse_def
    stamp_step_up_def cookieSession_def observed_def
  by (intro keeps_intro idle_auth assms)+

lemma calm_issue:
  assumes "others_only V ad_auth R"
  shows "keeps (\<lambda>s. R x (ad_auth s)) (draw_codes V n)" "keeps (\<lambda>s. R x (ad_auth s)) (issueRecoveryCodes V)"
    "keeps (\<lambda>s. R x (ad_auth s)) (signed_out V r ev)" "keeps (\<lambda>s. R x (ad_auth s)) (enrolled_answer V r codes)"
proof -
  show d: "keeps (\<lambda>s. R x (ad_auth s)) (draw_codes V n)" for n
    by (induction n) (auto intro!: keeps_intro idle_auth assms)
  show "keeps (\<lambda>s. R x (ad_auth s)) (issueRecoveryCodes V)" "keeps (\<lambda>s. R x (ad_auth s)) (signed_out V r ev)"
    "keeps (\<lambda>s. R x (ad_auth s)) (enrolled_answer V r codes)"
    unfolding issueRecoveryCodes_def signed_out_def enrolled_answer_def
    by (intro keeps_intro idle_auth calm_auth d assms)+
qed

subsection \<open>Passing a credential check\<close>

text \<open>A factor was consumed at some moment \<open>b\<close> of the request, the 2FA state went on from \<open>b'\<close>.\<close>

definition factor_spent ::
  "'w adm_env \<Rightarrow> (auth_state \<Rightarrow> auth_state \<Rightarrow> bool) \<Rightarrow> bool \<Rightarrow> string \<Rightarrow> (auth_state \<Rightarrow> auth_state) \<Rightarrow> auth_state \<Rightarrow> auth_state \<Rightarrow> bool" where
  "factor_spent V R allow code also x x' \<longleftrightarrow> (\<exists>b b' t m left. R x b \<and> R b' x' \<and>
     consumeFactor (av_crypto V) (cg_Seed (av_cfg V)) t True allow code also b = (FactorOk m left, b'))"

lemma consumeFactor_saved:
  "consumeFactor C seed t saved allow code also b = (FactorOk m left, b') \<Longrightarrow> saved"
  by (auto simp: consumeFactor_def Let_def UpdateAuthState_def split: if_splits sum.splits)

lemma consumeFactor_kept:
  "consumeFactor C seed t saved allow code also b = (FactorNo e, b') \<Longrightarrow> b' = b"
  by (auto simp: consumeFactor_def Let_def UpdateAuthState_def split: if_splits sum.splits)

lemma consume_spends:
  fixes V :: "'w adm_env"
  assumes V: "others_only V ad_auth R"
  shows "triple (\<lambda>s. R x (ad_auth s)) (consume V allow code also)
    (\<lambda>f s. case f of FactorNo e \<Rightarrow> R x (ad_auth s) | FactorOk m left \<Rightarrow> factor_spent V R allow code also x (ad_auth s))"
  unfolding triple_def
proof (intro allI impI)
  fix s :: "'w adm" assume x: "R x (ad_auth s)"
  let ?s = "av_others V s"
  obtain saved w where w: "av_save V (ad_world ?s) = (saved, w)" by (cases "av_save V (ad_world ?s)")
  let ?t = "av_now V (ad_world ?s)"
  obtain f b where f: "consumeFactor (av_crypto V) (cg_Seed (av_cfg V)) ?t saved allow code also (ad_auth ?s) = (f, b)"
    by fastforce
  have R: "R x (ad_auth ?s)" using x V others_trans [OF V] unfolding others_only_def by blast
  have run: "run_state (consume V allow code also) s = (f, ?s\<lparr>ad_auth := b, ad_world := w\<rparr>)"
    using f w by (simp add: consume_def on_auth_def adm_do_def Let_def)
  show "case run_state (consume V allow code also) s of (f, s) \<Rightarrow>
      case f of FactorNo e \<Rightarrow> R x (ad_auth s) | FactorOk m left \<Rightarrow> factor_spent V R allow code also x (ad_auth s)"
  proof (cases f)
    case (FactorOk m left)
    with f consumeFactor_saved [of "av_crypto V" _ ?t saved] have "saved" by metis
    with f R FactorOk others_refl [OF V, of b] have "factor_spent V R allow code also x b" unfolding factor_spent_def by (intro exI conjI) auto
    with FactorOk show ?thesis by (simp add: run)
  next
    case (FactorNo e)
    with f consumeFactor_kept have "b = ad_auth ?s" by metis
    with R FactorNo show ?thesis by (simp add: run)
  qed
qed

lemma factor_spent_step: "others_only V ad_auth R \<Longrightarrow> factor_spent V R allow code also x y \<Longrightarrow> R y z \<Longrightarrow> factor_spent V R allow code also x z"
  unfolding factor_spent_def using others_trans by fast

lemma get_auth_sees:
  assumes "others_only V ad_auth R"
  shows "triple (\<lambda>s. R x (ad_auth s)) (get_auth V) (\<lambda>a s. R x a \<and> R a (ad_auth s))"
  using assms others_refl [OF assms] others_trans [OF assms]
  by (auto simp: triple_def get_auth_def adm_do_def Let_def others_only_def)

lemma keeps_spent:
  assumes V: "others_only V ad_auth R" and f: "\<And>x. keeps (\<lambda>s. R x (ad_auth s)) f"
  shows "keeps (\<lambda>s. factor_spent V R allow code also x (ad_auth s)) f"
  using f factor_spent_step [OF V] others_refl [OF V] unfolding keeps_def by blast

text \<open>What a handler's answer is worth: \<open>Q\<close> when it grants, nothing when it refuses.\<close>

definition granted :: "('s \<Rightarrow> bool) \<Rightarrow> answer \<Rightarrow> 's \<Rightarrow> bool" where
  "granted Q a s \<longleftrightarrow> (case a of Refused st m ra \<Rightarrow> True | Done ck shown \<Rightarrow> Q s)"

definition refusing :: "('s, answer) state \<Rightarrow> bool" where
  "refusing f \<longleftrightarrow> triple (\<lambda>s. True) f (\<lambda>a s. \<exists>st m ra. a = Refused st m ra)"

lemma refusing_failAuth: "refusing (failAuth V ev ip why msg)"
  unfolding refusing_def failAuth_def
  by (intro triple_bind [where R = "\<lambda>_ _. True"] triple_true triple_if triple_ret) auto

lemma refusing_ret: "refusing (ret (Refused st m ra))"
  by (simp add: refusing_def triple_def)

lemma refusing_seq: "(\<And>a. refusing (g a)) \<Longrightarrow> refusing (f \<bind> g)"
  unfolding refusing_def by (rule triple_bind [OF triple_true])

lemma triple_refusing: "refusing f \<Longrightarrow> triple P f (granted Q)"
  by (fastforce simp: refusing_def triple_def granted_def split: prod.splits answer.splits)

lemma refusals:
  "triple P (failAuth V ev ip why msg) (granted Q)" "triple P (ret (Refused st m ra)) (granted Q)"
  "triple P (auditEvent V e ip res why \<bind> (\<lambda>_. ret (Refused st m ra))) (granted Q)"
  by (intro triple_refusing refusing_failAuth refusing_ret refusing_seq)+

lemma granted_refused [simp]: "granted Q (Refused st m ra) s"
  by (simp add: granted_def)

lemma finish_login_ends:
  assumes "keeps Q (finish_login V ip)" shows "triple Q (finish_login V ip) (granted Q)"
  using assms by (auto simp: keeps_def triple_def granted_def split: prod.splits answer.splits)

lemma lockedOut_refuses:
  assumes V: "others_only V ad_auth R"
  shows "triple (\<lambda>s. R x (ad_auth s)) (lockedOut V ip) (\<lambda>a s. (\<forall>y. a = Some y \<longrightarrow> (\<exists>st m ra. y = Refused st m ra)) \<and> R x (ad_auth s))"
  unfolding lockedOut_def
proof (rule triple_seq [OF idle_auth(1) [OF V]])
  fix a :: "bool \<times> dur"
  show "triple (\<lambda>s. R x (ad_auth s)) (case a of (True, retry) \<Rightarrow> ret None
      | (False, retry) \<Rightarrow> auditEvent V ''login_lockout'' ip ''blocked'' ''lockout'' \<bind>
          (\<lambda>_. ret (Some (Refused 429 ''too many failed logins'' (Some (retry_after retry))))))
      (\<lambda>a s. (\<forall>y. a = Some y \<longrightarrow> (\<exists>st m ra. y = Refused st m ra)) \<and> R x (ad_auth s))"
    by (cases a; cases "fst a") (auto intro!: triple_seq [OF idle_auth(6) [OF V]] triple_ret)
qed

lemma locked_first:
  assumes V: "others_only V ad_auth R" and k: "triple (\<lambda>s. R x (ad_auth s)) k (granted Q)"
  shows "triple (\<lambda>s. R x (ad_auth s)) (lockedOut V ip \<bind> (\<lambda>l. case l of None \<Rightarrow> k | Some a \<Rightarrow> ret a)) (granted Q)"
  by (rule triple_bind [OF lockedOut_refuses [OF V]])
    (auto intro!: triple_pure k triple_ret split: option.split)

text \<open>
  C18: logging in takes the password and, once 2FA is enrolled, a factor. Whatever the other requests do, a
  login that is granted gave the configured password, and at some moment of the request either nobody was
  enrolled, or the submitted code was accepted as a factor and used up in the same store update.
\<close>

theorem login_needs_factor:
  assumes V: "others_only V ad_auth R" and run: "run_state (handleLogin V r) s = (Done ck shown, s')"
  shows "\<exists>code. rq_Body r = Some (cg_Password (av_cfg V), code) \<and>
    ((\<exists>b. R (ad_auth s) b \<and> \<not> au_Enrolled b \<and> R b (ad_auth s')) \<or>
     factor_spent V R True code (\<lambda>a. a) (ad_auth s) (ad_auth s'))" (is "\<exists>code. ?body code \<and> ?proof code")
proof -
  let ?P = "\<lambda>s'. R (ad_auth s) (ad_auth s')"
  define Q where "Q = (\<lambda>s' :: 'a adm. \<exists>code. ?body code \<and> ((\<exists>b. R (ad_auth s) b \<and> \<not> au_Enrolled b \<and> R b (ad_auth s')) \<or>
     factor_spent V R True code (\<lambda>a. a) (ad_auth s) (ad_auth s')))"
  have spent: "triple ?P (consume V True code (\<lambda>a. a) \<bind> (\<lambda>f. case f of
        FactorNo e \<Rightarrow> failAuth V ''login'' (rq_IP r) (reason_text e) ''unauthorized''
      | FactorOk m left \<Rightarrow> do { _ \<leftarrow> auditRecoveryUse V (rq_IP r) f; finish_login V (rq_IP r) })) (granted Q)"
    if "?body code" for code
  proof (rule triple_bind [OF consume_spends [OF V]])
    fix f
    let ?S = "\<lambda>s'. factor_spent V R True code (\<lambda>a. a) (ad_auth s) (ad_auth s')"
    note k = keeps_spent [OF V]
    have fin: "triple ?S (finish_login V (rq_IP r)) (granted Q)"
      by (rule triple_weaken [OF finish_login_ends [OF k [OF calm_auth(4) [OF V]]]])
        (use that in \<open>auto simp: granted_def Q_def split: answer.splits\<close>)
    show "triple (\<lambda>s'. case f of FactorNo e \<Rightarrow> ?P s' | FactorOk m left \<Rightarrow> ?S s')
      (case f of FactorNo e \<Rightarrow> failAuth V ''login'' (rq_IP r) (reason_text e) ''unauthorized''
      | FactorOk m left \<Rightarrow> do { _ \<leftarrow> auditRecoveryUse V (rq_IP r) f; finish_login V (rq_IP r) }) (granted Q)"
      by (cases f) (auto intro!: triple_refusing refusing_failAuth triple_seq [OF k [OF calm_auth(6) [OF V]]] fin)
  qed
  have plain: "triple (\<lambda>s'. R (ad_auth s) b \<and> R b (ad_auth s')) (finish_login V (rq_IP r)) (granted Q)"
    if "?body code" "\<not> au_Enrolled b" for code b
    by (rule triple_pure, rule triple_weaken [OF finish_login_ends [OF calm_auth(4) [OF V]]])
      (use that in \<open>auto simp: granted_def Q_def split: answer.splits\<close>)
  have "triple ?P (handleLogin V r) (granted Q)"
    unfolding handleLogin_def
  proof (intro locked_first V triple_option triple_prod triple_if refusals
      triple_bind [OF get_auth_sees [OF V]])
    fix x pw code a
    assume b: "rq_Body r = Some x" "x = (pw, code)" "\<not> pw \<noteq> cg_Password (av_cfg V)"
    then have body: "?body code" by simp
    show "triple (\<lambda>s'. R (ad_auth s) a \<and> R a (ad_auth s')) (finish_login V (rq_IP r)) (granted Q)" if "\<not> au_Enrolled a"
      by (rule plain [OF body that])
    show "triple (\<lambda>s'. R (ad_auth s) a \<and> R a (ad_auth s')) (consume V True code (\<lambda>a. a) \<bind> (\<lambda>f. case f of
        FactorNo e \<Rightarrow> failAuth V ''login'' (rq_IP r) (reason_text e) ''unauthorized''
      | FactorOk m left \<Rightarrow> do { _ \<leftarrow> auditRecoveryUse V (rq_IP r) f; finish_login V (rq_IP r) })) (granted Q)"
      by (rule triple_weaken [OF spent [OF body]]) (use others_trans [OF V] in auto)
  qed
  from tripleD [OF this _ run] others_refl [OF V] show ?thesis by (auto simp: granted_def Q_def)
qed

subsection \<open>Turning 2FA off\<close>

text \<open>\<open>lenient P Q\<close>: a refusal from a state of \<open>P\<close> satisfies \<open>Q\<close>.\<close>

definition lenient :: "('s \<Rightarrow> bool) \<Rightarrow> (answer \<Rightarrow> 's \<Rightarrow> bool) \<Rightarrow> bool" where
  "lenient P Q \<longleftrightarrow> (\<forall>st m ra s. P s \<longrightarrow> Q (Refused st m ra) s)"

lemma refuse_after:
  assumes "refusing f" and "keeps P f" and "lenient P Q" shows "triple P f Q"
  using assms unfolding refusing_def keeps_def lenient_def triple_def by (fastforce split: prod.splits)

lemma lenient_weaken: "lenient P Q \<Longrightarrow> (\<And>s. P' s \<Longrightarrow> P s) \<Longrightarrow> lenient P' Q"
  by (auto simp: lenient_def)

lemma refuse_lenient:
  assumes V: "others_only V ad_auth R" and Q: "lenient (\<lambda>s. R x (ad_auth s)) Q"
  shows "triple (\<lambda>s. R x (ad_auth s)) (failAuth V ev ip why msg) Q" "triple (\<lambda>s. R x (ad_auth s)) (ret (Refused st m ra)) Q"
  by (rule refuse_after [OF _ _ Q]; intro refusing_failAuth refusing_ret calm_auth V keeps_ret)+

lemma password_first:
  assumes V: "others_only V ad_auth R" and Q: "lenient (\<lambda>s. R x (ad_auth s)) Q"
    and k: "\<And>code. rq_Body r = Some (cg_Password (av_cfg V), code) \<Longrightarrow> triple (\<lambda>s. R x (ad_auth s)) (k code) Q"
  shows "triple (\<lambda>s. R x (ad_auth s)) (with_password V r ev msg k) Q"
  unfolding with_password_def
proof (rule triple_bind [OF lockedOut_refuses [OF V]], rule triple_pure)
  fix l assume l: "\<forall>y. l = Some y \<longrightarrow> (\<exists>st m ra. y = Refused st m ra)"
  show "triple (\<lambda>s. R x (ad_auth s)) (case l of None \<Rightarrow> case rq_Body r of None \<Rightarrow> ret (Refused 400 ''bad body'' None)
      | Some (password, code) \<Rightarrow> if \<not> subtleCompare password (cg_Password (av_cfg V))
          then failAuth V ev (rq_IP r) ''bad_password'' msg else k code
      | Some a \<Rightarrow> ret a) Q"
    using l by (cases l) (auto simp: subtleCompare_def intro!: triple_option triple_prod triple_if refuse_lenient V Q k)
qed

lemma password_and_factor:
  assumes V: "others_only V ad_auth R" and Q: "lenient (\<lambda>s. R x (ad_auth s)) Q"
    and k: "\<And>code. rq_Body r = Some (cg_Password (av_cfg V), code) \<Longrightarrow>
      triple (\<lambda>s. factor_spent V R allow code also x (ad_auth s)) k Q"
  shows "triple (\<lambda>s. R x (ad_auth s)) (passwordAndFactor V r ev allow also k) Q"
  unfolding passwordAndFactor_def
proof (intro password_first V Q triple_seq [OF idle_auth(4) [OF V]] triple_if refuse_lenient [OF V Q]
    triple_bind [OF consume_spends [OF V]])
  fix code f assume body: "rq_Body r = Some (cg_Password (av_cfg V), code)"
  note keep = keeps_spent [OF V]
  show "triple (\<lambda>s. case f of FactorNo e \<Rightarrow> R x (ad_auth s) | FactorOk m left \<Rightarrow> factor_spent V R allow code also x (ad_auth s))
    (case f of FactorNo NotEnrolled \<Rightarrow> ret (Refused 400 ''not enrolled'' None)
     | FactorNo e \<Rightarrow> failAuth V ev (rq_IP r) (reason_text e) ''unauthorized''
     | FactorOk m left \<Rightarrow> do { _ \<leftarrow> on_lock V (\<lambda>t l. ((), Success (rq_IP r) l)); _ \<leftarrow> auditRecoveryUse V (rq_IP r) f; k }) Q"
    using body
    by (cases f) (auto intro!: refuse_lenient V Q triple_seq [OF keep [OF idle_auth(1) [OF V]]]
        triple_seq [OF keep [OF calm_auth(6) [OF V]]] k split: factor_reason.split)
qed

lemma keeps_on_auth:
  assumes "others_only V ad_auth R" and "\<And>t saved a. R a (snd (f t saved a))"
  shows "keeps (\<lambda>s. R x (ad_auth s)) (on_auth V f)"
  unfolding on_auth_def
  by (rule keeps_adm_do [OF assms(1)]) (use assms(2) in \<open>auto split: prod.split\<close>, metis snd_conv)

lemma keeps_UpdateAuthState:
  assumes "others_only V ad_auth R" and "\<And>t a a'. f t a = Inr a' \<Longrightarrow> R a a'"
  shows "keeps (\<lambda>s. R x (ad_auth s)) (on_auth V (\<lambda>t saved. UpdateAuthState saved (f t)))"
  by (rule keeps_on_auth [OF assms(1)])
    (use assms(2) others_refl [OF assms(1)] in \<open>auto simp: UpdateAuthState_def split: sum.split\<close>)

definition switch_kept :: "auth_state \<Rightarrow> auth_state \<Rightarrow> bool" where
  "switch_kept a b \<longleftrightarrow> (au_TwoFactorOn a \<longrightarrow> au_TwoFactorOn b)"

lemma checks_switch:
  "check_recovery C seed code a = Inr a' \<Longrightarrow> au_TwoFactorOn a' = au_TwoFactorOn a"
  "check_totp C seed now code a = Inr a' \<Longrightarrow> au_TwoFactorOn a' = au_TwoFactorOn a"
  by (auto simp: check_recovery_def check_totp_def split: option.splits sum.splits prod.splits totp_err.splits if_splits)

lemma consumeFactor_switch:
  assumes "\<And>a. switch_kept a (also a)"
  shows "switch_kept a (snd (consumeFactor C seed t saved allow code also a))"
proof -
  have "switch_kept a a'" if "check_factor C seed t allow code also a = Inr a'" for a' code
    using that assms checks_switch by (fastforce simp: check_factor_def switch_kept_def split: if_splits sum.splits)
  then show ?thesis by (auto simp: consumeFactor_def Let_def UpdateAuthState_def switch_kept_def split: sum.split)
qed

lemma switch_moves:
  "pend_secret C salt enc t a = Inr a' \<Longrightarrow> switch_kept a a'"
  "enroll C seed t nonce code hashes a = Inr a' \<Longrightarrow> switch_kept a a'"
  "switch_kept a (wipe2FA a)"
  by (auto simp: pend_secret_def enroll_def wipe2FA_def switch_kept_def
      split: if_splits option.splits sum.splits prod.splits bool.splits)

lemma keeps_consume:
  assumes "others_only V ad_auth switch_kept" and "\<And>a. switch_kept a (also a)"
  shows "keeps (\<lambda>s. switch_kept x (ad_auth s)) (consume V allow code also)"
  unfolding consume_def by (rule keeps_on_auth [OF assms(1)]) (rule consumeFactor_switch [OF assms(2)])

lemma keeps_passwordAndFactor:
  assumes V: "others_only V ad_auth switch_kept" and a: "\<And>a. switch_kept a (also a)"
    and k: "keeps (\<lambda>s. switch_kept x (ad_auth s)) k"
  shows "keeps (\<lambda>s. switch_kept x (ad_auth s)) (passwordAndFactor V r ev allow also k)"
  unfolding passwordAndFactor_def with_password_def
  by (intro keeps_intro idle_auth [OF V] calm_auth [OF V] keeps_consume [OF V a] k)

lemma handlers_keep_switch:
  assumes V: "others_only V ad_auth switch_kept"
  shows "list_all (keeps (\<lambda>s. switch_kept x (ad_auth s)))
    [handleLogin V r, handleLogout V r, handleRevokeAllSessions V r, handleTOTPEnrollStart V r,
     handleTOTPEnrollConfirm V r, handleTOTPReset V r, handleRecoveryRegen V r, handleStepUp V r who]"
proof -
  note calm = idle_auth [OF V] calm_auth [OF V] calm_issue [OF V]
  have same: "switch_kept a a" "switch_kept a (a\<lparr>au_RecoveryCodes := h\<rparr>)" for a h by (simp_all add: switch_kept_def)
  note spend = keeps_consume [OF V same(1)]
  let ?K = "keeps (\<lambda>s. switch_kept x (ad_auth s))"
  have "?K (handleLogin V r)" "?K (handleLogout V r)" "?K (handleRevokeAllSessions V r)" "?K (handleStepUp V r who)"
    unfolding handleLogin_def handleLogout_def handleRevokeAllSessions_def handleStepUp_def
    by (intro keeps_intro calm spend)+
  moreover have "?K (handleTOTPEnrollStart V r)" "?K (handleTOTPEnrollConfirm V r)"
    unfolding handleTOTPEnrollStart_def with_password_def handleTOTPEnrollConfirm_def
    by (intro keeps_intro calm keeps_UpdateAuthState [OF V]; auto dest: switch_moves(1,2) split: sum.splits if_splits)+
  moreover have "?K (handleTOTPReset V r)" "?K (handleRecoveryRegen V r)"
    unfolding handleTOTPReset_def handleRecoveryRegen_def
    by (intro keeps_intro calm keeps_passwordAndFactor V switch_moves(3) same)+
  ultimately show ?thesis by simp
qed

text \<open>
  2FA is switched off by its owner only. With the switch on, no login, logout, revocation, enrolment,
  reset, regeneration or step-up turns it off, and the removal turns it off only for the configured
  password and a factor that is accepted and used up in the same store update, whatever the other
  requests do meanwhile.
\<close>

theorem two_factor_off_needs_factor:
  assumes V: "others_only V ad_auth R" and R: "\<And>a b. R a b \<Longrightarrow> switch_kept a b" and on: "au_TwoFactorOn (ad_auth s)"
  shows "(au_TwoFactorOn (ad_auth (snd (run_state (handleTOTPRemove V r) s))) \<or>
      (\<exists>code. rq_Body r = Some (cg_Password (av_cfg V), code) \<and>
         factor_spent V R True code turnOff2FA (ad_auth s) (ad_auth (snd (run_state (handleTOTPRemove V r) s))))) \<and>
    list_all (\<lambda>h. au_TwoFactorOn (ad_auth (snd (run_state h s))))
      [handleLogin V r, handleLogout V r, handleRevokeAllSessions V r, handleTOTPEnrollStart V r,
       handleTOTPEnrollConfirm V r, handleTOTPReset V r, handleRecoveryRegen V r, handleStepUp V r who]" (is "?remove \<and> ?others")
proof -
  let ?Q = "\<lambda>(_ :: answer) s'. au_TwoFactorOn (ad_auth s') \<or> (\<exists>code. rq_Body r = Some (cg_Password (av_cfg V), code) \<and>
         factor_spent V R True code turnOff2FA (ad_auth s) (ad_auth s'))"
  have "triple (\<lambda>s'. R (ad_auth s) (ad_auth s')) (handleTOTPRemove V r) ?Q"
    unfolding handleTOTPRemove_def
  proof (rule password_and_factor [OF V])
    show "lenient (\<lambda>s'. R (ad_auth s) (ad_auth s')) ?Q" using R on by (auto simp: lenient_def switch_kept_def)
    show "triple (\<lambda>s'. factor_spent V R True code turnOff2FA (ad_auth s) (ad_auth s')) (signed_out V r ''2fa_remove'') ?Q"
      if "rq_Body r = Some (cg_Password (av_cfg V), code)" for code
      by (rule triple_weaken [OF triple_keeps [OF keeps_spent [OF V calm_issue(3) [OF V]]]]) (use that in auto)
  qed
  from tripleD [OF this others_refl [OF V]] have rem: ?remove by (cases "run_state (handleTOTPRemove V r) s") auto
  have "others_only V ad_auth switch_kept"
    using V R unfolding others_only_def reflp_def transp_def switch_kept_def by blast
  from handlers_keep_switch [OF this, of "ad_auth s" r who] on have ?others
    by (simp add: keeps_def switch_kept_def)
  with rem show ?thesis by blast
qed

lemma check_factor_also:
  assumes "consumeFactor C seed t saved allow code also b = (FactorOk m left, b')"
  shows "\<exists>a. b' = also a \<and> au_TwoFactorOn a = au_TwoFactorOn b \<and> au_Enrolled b"
  using assms checks_switch
  by (fastforce simp: consumeFactor_def Let_def UpdateAuthState_def check_factor_def split: if_splits sum.splits)

text \<open>
  A reset does not always keep 2FA on. Where the stored state has a secret but not the switch (the
  hand-edited or partial file that \<open>On\<close> counts as on), a granted reset leaves 2FA off.
\<close>

theorem reset_without_switch:
  assumes V: "others_only V ad_auth (=)" and run: "run_state (handleTOTPReset V r) s = (Done ck shown, s')"
    and off: "\<not> au_TwoFactorOn (ad_auth s)"
  shows "On (ad_auth s) \<and> \<not> On (ad_auth s')"
proof -
  let ?Q = "\<lambda>s'. On (ad_auth s) \<and> \<not> On (ad_auth s')"
  have "triple (\<lambda>s'. ad_auth s = ad_auth s') (handleTOTPReset V r) (granted ?Q)"
    unfolding handleTOTPReset_def
  proof (rule password_and_factor [OF V])
    show "lenient (\<lambda>s'. ad_auth s = ad_auth s') (granted ?Q)" by (simp add: lenient_def)
    have "?Q s'" if "factor_spent V (=) True code wipe2FA (ad_auth s) (ad_auth s')" for s' :: "'a adm" and code
      using that off by (auto simp: factor_spent_def On_def wipe2FA_def dest!: check_factor_also)
    then show "triple (\<lambda>s'. factor_spent V (=) True code wipe2FA (ad_auth s) (ad_auth s')) (signed_out V r ''2fa_reset'') (granted ?Q)"
      for code
      by (intro triple_weaken [OF triple_keeps [OF keeps_spent [OF V calm_issue(3) [OF V]]]])
        (auto simp: granted_def split: answer.split)
  qed
  from tripleD [OF this refl run] show ?thesis by (simp add: granted_def)
qed

subsection \<open>A locked-out client\<close>

lemma lockedOut_runs:
  assumes "fst (Allow (av_now V (ad_world (av_others V s))) ip (ad_lock (av_others V s))) = (False, d)"
  shows "\<exists>s'. run_state (lockedOut V ip) s = (Some (Refused 429 ''too many failed logins'' (Some (retry_after d))), s')"
  using assms
  by (cases "Allow (av_now V (ad_world (av_others V s))) ip (ad_lock (av_others V s))")
    (simp add: lockedOut_def on_lock_def auditEvent_def adm_do_def Let_def State_Monad.bind_def)

lemma Allow_waits: "fst (Allow t ip l) = (False, d) \<Longrightarrow> 0 < d"
  by (auto simp: Allow_def allow_in_def split: if_splits option.splits prod.splits)

lemma run_locked:
  "run_state (lockedOut V ip) s = (Some a, s') \<Longrightarrow>
   run_state (lockedOut V ip \<bind> (\<lambda>l. case l of None \<Rightarrow> k | Some a \<Rightarrow> ret a)) s = (a, s')"
  by (simp add: State_Monad.bind_def)

lemma keeps_lockedOut_sess:
  "others_only V ad_sess S \<Longrightarrow> keeps (\<lambda>s. S x (ad_sess s)) (lockedOut V ip)"
  unfolding lockedOut_def by (intro keeps_intro idle_sess)

text \<open>
  A locked-out address learns nothing and changes nothing. While the lockout refuses an address, every
  route that takes a password or a factor gives the same answer to every request from it, whatever password,
  code or session it carries: 429 with a positive Retry-After. Neither the 2FA state nor the admin sessions
  are touched by it.
\<close>

theorem lockout_blocks:
  assumes A: "others_only V ad_auth R" and S: "others_only V ad_sess S"
    and locked: "\<not> fst (fst (Allow (av_now V (ad_world (av_others V s))) ip (ad_lock (av_others V s))))"
  shows "\<exists>ra s'. 1 \<le> ra \<and> R (ad_auth s) (ad_auth s') \<and> S (ad_sess s) (ad_sess s') \<and>
    (\<forall>r who. rq_IP r = ip \<longrightarrow> list_all (\<lambda>h. run_state h s = (Refused 429 ''too many failed logins'' (Some ra), s'))
      [handleLogin V r, handleTOTPEnrollStart V r, handleTOTPEnrollConfirm V r, handleTOTPRemove V r,
       handleTOTPReset V r, handleStepUp V r who])"
proof -
  obtain d where d: "fst (Allow (av_now V (ad_world (av_others V s))) ip (ad_lock (av_others V s))) = (False, d)"
    using locked by (metis prod.collapse)
  from lockedOut_runs [OF d] obtain s' where
    s': "run_state (lockedOut V ip) s = (Some (Refused 429 ''too many failed logins'' (Some (retry_after d))), s')" by blast
  have "1 \<le> retry_after d" using Allow_waits [OF d] by (simp add: retry_after_def go_div_def second_def)
  moreover have "R (ad_auth s) (ad_auth s')" by (rule keepsD [OF calm_auth(1) [OF A] others_refl [OF A] s'])
  moreover have "S (ad_sess s) (ad_sess s')" by (rule keepsD [OF keeps_lockedOut_sess [OF S] others_refl [OF S] s'])
  moreover have "list_all (\<lambda>h. run_state h s = (Refused 429 ''too many failed logins'' (Some (retry_after d)), s'))
      [handleLogin V r, handleTOTPEnrollStart V r, handleTOTPEnrollConfirm V r, handleTOTPRemove V r,
       handleTOTPReset V r, handleStepUp V r who]" if "rq_IP r = ip" for r who
    using run_locked [OF s'] that
    by (simp add: handleLogin_def handleTOTPEnrollStart_def handleTOTPEnrollConfirm_def handleTOTPRemove_def
        handleTOTPReset_def handleStepUp_def passwordAndFactor_def with_password_def)
  ultimately show ?thesis by blast
qed

subsection \<open>The admin gate\<close>

text \<open>What the gate knows of who passes: the configured master Bearer, or a live session of the store.\<close>

definition same_login :: "admin_session \<Rightarrow> admin_session \<Rightarrow> bool" where
  "same_login x y \<longleftrightarrow> as_Hash x = as_Hash y \<and> as_CreatedAt x = as_CreatedAt y \<and> as_LastSeen x = as_LastSeen y \<and>
     as_StepUpAt x = as_StepUpAt y"

definition live_cookie :: "'w adm_env \<Rightarrow> (admin_session gomap \<Rightarrow> bool) \<Rightarrow> request \<Rightarrow> string \<Rightarrow> admin_session \<Rightarrow> bool" where
  "live_cookie V M r raw se \<longleftrightarrow> raw = rq_Cookie r \<and>
     (\<exists>t m se0. M m \<and> fst (Lookup (av_hash V) t raw (\<not> rq_Poll r) m) = Some se0 \<and> same_login se se0)"

definition may_pass ::
  "'w adm_env \<Rightarrow> origin \<Rightarrow> (auth_state \<Rightarrow> bool) \<Rightarrow> (admin_session gomap \<Rightarrow> bool) \<Rightarrow> request \<Rightarrow> admitted \<Rightarrow> bool" where
  "may_pass V web A M r who \<longleftrightarrow> \<not> rq_BasicAuth r \<and> (case who of
     ByBearer \<Rightarrow> cg_MasterKeyAdmin (av_cfg V) \<and> has_prefix (authHeader r) ''Bearer '' \<and>
       drop 7 (authHeader r) = cg_MasterKey (av_cfg V)
   | BySession raw se \<Rightarrow> \<not> has_prefix (authHeader r) ''Bearer '' \<and> live_cookie V M r raw se \<and> checkCSRF web r \<and>
       (\<exists>a. A a \<and> (On a \<longrightarrow> au_Enrolled a)))"

lemma live_cookie_same: "live_cookie V M r raw se \<Longrightarrow> same_login se' se \<Longrightarrow> live_cookie V M r raw se'"
  by (auto simp: live_cookie_def same_login_def)

lemma sess_lookup:
  fixes V :: "'w adm_env"
  assumes S: "others_only V ad_sess S"
  shows "triple (\<lambda>s. S y (ad_sess s)) (on_sess V (\<lambda>t. Lookup (av_hash V) t (rq_Cookie r) (\<not> rq_Poll r)))
    (\<lambda>c s. \<forall>se. c = Some se \<longrightarrow> live_cookie V (S y) r (rq_Cookie r) se)"
  unfolding triple_def
proof (intro allI impI)
  fix s :: "'w adm" assume "S y (ad_sess s)"
  then have M: "S y (ad_sess (av_others V s))" using S others_trans [OF S] unfolding others_only_def by blast
  let ?l = "Lookup (av_hash V) (av_now V (ad_world (av_others V s))) (rq_Cookie r) (\<not> rq_Poll r) (ad_sess (av_others V s))"
  have "fst (run_state (on_sess V (\<lambda>t. Lookup (av_hash V) t (rq_Cookie r) (\<not> rq_Poll r))) s) = fst ?l"
    by (cases ?l) (simp add: on_sess_def adm_do_def Let_def)
  with M show "case run_state (on_sess V (\<lambda>t. Lookup (av_hash V) t (rq_Cookie r) (\<not> rq_Poll r))) s of
      (c, s') \<Rightarrow> \<forall>se. c = Some se \<longrightarrow> live_cookie V (S y) r (rq_Cookie r) se"
    unfolding live_cookie_def same_login_def by (auto split: prod.splits) force
qed

lemma observed_same:
  "triple (\<lambda>_. True) (observed V r se) (\<lambda>c s. \<forall>raw se'. c = Some (raw, se') \<longrightarrow> raw = rq_Cookie r \<and> same_login se' se)"
  unfolding observed_def
  by (intro triple_bind [OF triple_true] triple_option triple_ret) (simp_all add: same_login_def)

lemma cookieSession_live:
  assumes S: "others_only V ad_sess S"
  shows "triple (\<lambda>s. S y (ad_sess s)) (cookieSession V r) (\<lambda>c s. \<forall>raw se. c = Some (raw, se) \<longrightarrow> live_cookie V (S y) r raw se)"
  unfolding cookieSession_def
proof (rule triple_bind [OF sess_lookup [OF S]], rule triple_given, intro triple_option triple_ret)
  fix c se assume c: "c = Some se" and "\<forall>se. c = Some se \<longrightarrow> live_cookie V (S y) r (rq_Cookie r) se"
  then have "live_cookie V (S y) r (rq_Cookie r) se" by simp
  from live_cookie_same [OF this]
  show "triple (\<lambda>_. True) (observed V r se) (\<lambda>c s. \<forall>raw se. c = Some (raw, se) \<longrightarrow> live_cookie V (S y) r raw se)"
    by (intro triple_weaken [OF observed_same]) auto
qed simp


subsection \<open>A concrete server\<close>

text \<open>A server at second 300 of the epoch on which nothing else runs; its toy factor code is \<open>000000\<close>.\<close>

definition toy_cfg :: admin_cfg where
  "toy_cfg = \<lparr>cg_Password = ''pw'', cg_Seed = ''seed'', cg_MasterKeyAdmin = True, cg_MasterKey = ''master'',
     cg_DevHTTP = False, cg_Reset2FA = False\<rparr>"

definition toy_env :: "unit adm_env" where
  "toy_env = \<lparr>av_now = (\<lambda>_. 300 * second), av_others = (\<lambda>s. s), av_rand = (\<lambda>n w. (Some (replicate n CHR ''x''), w)),
     av_secret = (\<lambda>w. (Some ''secret'', w)), av_save = (\<lambda>w. (True, w)), av_hash = id, av_crypto = toy_crypto,
     av_cfg = toy_cfg\<rparr>"

definition toy_adm :: "auth_state \<Rightarrow> unit adm" where
  "toy_adm a = \<lparr>ad_lock = NewLockout, ad_sess = [], ad_auth = a, ad_audit = [], ad_world = ()\<rparr>"

definition toy_request :: "string \<Rightarrow> string \<Rightarrow> request" where
  "toy_request pw code = \<lparr>rq_IP = ''ip'', rq_Method = OtherMethod, rq_Authorization = [], rq_BasicAuth = False, rq_Cookie = [],
     rq_Poll = False, rq_FetchSite = ''same-origin'', rq_Origin = Origin ''https'' ''h'', rq_Path = [], rq_Body = Some (pw, code)\<rparr>"

lemma toy_alone: "others_only toy_env g (=)"
  by (simp add: others_only_def toy_env_def reflp_def transp_def)

definition is_done :: "answer \<Rightarrow> bool" where
  "is_done a \<longleftrightarrow> (case a of Done ck shown \<Rightarrow> True | Refused st m ra \<Rightarrow> False)"

lemma is_doneE:
  assumes "is_done (fst x)" obtains ck shown s' where "x = (Done ck shown, s')"
  using assms by (cases x; cases "fst x") (auto simp: is_done_def)

lemma toy_login: "is_done (fst (run_state (handleLogin toy_env (toy_request ''pw'' ''000000'')) (toy_adm toy_auth)))"
  by code_simp

lemma toy_reset:
  "is_done (fst (run_state (handleTOTPReset toy_env (toy_request ''pw'' ''000000'')) (toy_adm (toy_auth\<lparr>au_TwoFactorOn := False\<rparr>))))"
  by code_simp

lemma toy_remove:
  "\<not> au_TwoFactorOn (ad_auth (snd (run_state (handleTOTPRemove toy_env (toy_request ''pw'' ''000000'')) (toy_adm toy_auth))))"
  by code_simp

lemma toy_env_cfg [simp]: "cg_Password (av_cfg toy_env) = ''pw''" "rq_Body (toy_request pw code) = Some (pw, code)"
  "rq_IP (toy_request pw code) = ''ip''" "ad_auth (toy_adm a) = a" "ad_sess (toy_adm a) = []"
  by (simp_all add: toy_env_def toy_cfg_def toy_request_def toy_adm_def)

lemma login_needs_factor_witness:
  "factor_spent toy_env (=) True ''000000'' (\<lambda>a. a) toy_auth
     (ad_auth (snd (run_state (handleLogin toy_env (toy_request ''pw'' ''000000'')) (toy_adm toy_auth))))"
proof -
  from is_doneE [OF toy_login] obtain ck shown s' where
    run: "run_state (handleLogin toy_env (toy_request ''pw'' ''000000'')) (toy_adm toy_auth) = (Done ck shown, s')" .
  have "au_Enrolled toy_auth" by (simp add: toy_auth_def)
  with login_needs_factor [OF toy_alone run] show ?thesis by (auto simp: run)
qed

lemma two_factor_off_needs_factor_witness:
  "factor_spent toy_env (=) True ''000000'' turnOff2FA toy_auth
     (ad_auth (snd (run_state (handleTOTPRemove toy_env (toy_request ''pw'' ''000000'')) (toy_adm toy_auth))))"
proof -
  have "au_TwoFactorOn (ad_auth (toy_adm toy_auth))" by (simp add: toy_auth_def)
  from two_factor_off_needs_factor [OF toy_alone _ this, of "toy_request ''pw'' ''000000''" ByBearer] toy_remove
  show ?thesis by (auto simp: switch_kept_def)
qed

lemma reset_without_switch_witness:
  "On (toy_auth\<lparr>au_TwoFactorOn := False\<rparr>) \<and> \<not> On (ad_auth (snd (run_state (handleTOTPReset toy_env (toy_request ''pw'' ''000000''))
     (toy_adm (toy_auth\<lparr>au_TwoFactorOn := False\<rparr>)))))"
proof -
  from is_doneE [OF toy_reset] obtain ck shown s' where
    run: "run_state (handleTOTPReset toy_env (toy_request ''pw'' ''000000'')) (toy_adm (toy_auth\<lparr>au_TwoFactorOn := False\<rparr>)) =
      (Done ck shown, s')" .
  from reset_without_switch [OF toy_alone run] show ?thesis by (simp add: run)
qed

definition locked_out :: lockout where
  "locked_out = lk_run (replicate 6 (300 * second - 1, LkFailure ''ip'')) NewLockout"

lemma lockout_blocks_witness:
  "fst (run_state (handleLogin toy_env (toy_request ''pw'' ''000000'')) ((toy_adm toy_auth)\<lparr>ad_lock := locked_out\<rparr>)) =
   fst (run_state (handleTOTPReset toy_env (toy_request ''guess'' ''no'')) ((toy_adm toy_auth)\<lparr>ad_lock := locked_out\<rparr>))"
proof -
  let ?s = "(toy_adm toy_auth)\<lparr>ad_lock := locked_out\<rparr>"
  have "\<not> fst (fst (Allow (300 * second) ''ip'' locked_out))" by code_simp
  then have "\<not> fst (fst (Allow (av_now toy_env (ad_world (av_others toy_env ?s))) ''ip'' (ad_lock (av_others toy_env ?s))))"
    by (simp add: toy_env_def)
  from lockout_blocks [OF toy_alone toy_alone this] obtain ra s' where
    "\<And>r who. rq_IP r = ''ip'' \<Longrightarrow> list_all (\<lambda>h. run_state h ?s = (Refused 429 ''too many failed logins'' (Some ra), s'))
      [handleLogin toy_env r, handleTOTPEnrollStart toy_env r, handleTOTPEnrollConfirm toy_env r, handleTOTPRemove toy_env r,
       handleTOTPReset toy_env r, handleStepUp toy_env r who]" by blast
  from this [of "toy_request ''pw'' ''000000''" ByBearer] this [of "toy_request ''guess'' ''no''" ByBearer]
  show ?thesis by simp
qed


end
