(* ===== verification/Feeds.thy ===== *)
theory Feeds
  imports Json
begin

section \<open>The health feeds (\<open>internal/catalog/health.go\<close>)\<close>

text \<open>
  Parsing of the gateway's bids file and of the bid details in its models file, the published health
  copies with the rule that a copy is only replaced by a newer one, and the state of a feed as the admin
  page shows it. The parsers work on the decoded document (\<open>Json\<close>). A member that is repeated in one
  object is decoded as Go does for strings, raw values and the \<open>health\<close> struct; of a repeated array
  member the last one counts.
\<close>

subsection \<open>Constants and states\<close>

definition staleAfter :: dur where "staleAfter = 30 * minute"
definition staleWarnEvery :: dur where "staleWarnEvery = 10 * minute"
definition maxFeedSkew :: dur where "maxFeedSkew = 5 * minute"
definition maxFeedBytes :: nat where "maxFeedBytes = 8 * 2 ^ 20"

datatype feed_class =
    FeedFetch | FeedRedirect | FeedStatus | FeedOversize | FeedMalformed | FeedBadTimestamp | FeedNoUsableRows | FeedRollback

text \<open>One health copy: the healthy bid ids of each model.\<close>

record health_snap =
  hs_set :: "string set gomap"
  hs_lastUpdated :: int
  hs_fetchedAt :: time

record feed_log =
  fl_staleLogged :: bool
  fl_lastStaleWarnAt :: time
  fl_lastRollbackLogAt :: time
  fl_rollbackSuppressed :: nat

record health_state =
  hh_bids :: "health_snap option"
  hh_bidsErr :: "feed_class option"
  hh_bidsErrAt :: time
  hh_detail :: "health_snap option"
  hh_detailErr :: "feed_class option"
  hh_detailErrAt :: time
  hh_modelsLastUpdated :: int
  hh_modelsHasStamp :: bool
  hh_logs :: "feed_log gomap"

subsection \<open>Ids, statuses and stamps\<close>

definition is_hex_lower :: "char \<Rightarrow> bool" where
  "is_hex_lower c \<longleftrightarrow> is_digit c \<or> (97 \<le> (of_char c :: nat) \<and> (of_char c :: nat) \<le> 102)"

definition hexID :: "string \<Rightarrow> string option" where
  "hexID s0 =
     (let s = to_lower (trim s0)
      in if length s \<noteq> 66 \<or> \<not> has_prefix s ''0x'' then None
         else if \<not> list_all is_hex_lower (drop 2 s) then None
         else if list_all (\<lambda>c. c = CHR ''0'') (drop 2 s) then None
         else Some s)"

text \<open>A raw value that is a JSON string (\<open>None\<close>: any other value, or none).\<close>

definition jsonString :: "json option \<Rightarrow> string option" where
  "jsonString raw = (case raw of Some (JStr s) \<Rightarrow> Some s | _ \<Rightarrow> None)"

definition isHealthy :: "string \<Rightarrow> bool" where
  "isHealthy status \<longleftrightarrow> equal_fold (trim status) ''healthy''"

text \<open>
  \<open>time.Unix(n, 0)\<close>: Go keeps the seconds since year 1 in an \<open>int64\<close>, so a second count near the
  largest \<open>int64\<close> wraps around to a time far in the past.
\<close>

definition unix_to_internal :: int where "unix_to_internal = 62135596800"

definition go_unix :: "int \<Rightarrow> time" where
  "go_unix n = (((n + unix_to_internal + 2 ^ 63) mod 2 ^ 64) - 2 ^ 63 - unix_to_internal) * second"

definition feedStamp :: "json option \<Rightarrow> time \<Rightarrow> feed_class + int" where
  "feedStamp raw now =
     (case raw of
        Some (JNum t) \<Rightarrow>
          (case parse_int64 t of
             None \<Rightarrow> Inl FeedBadTimestamp
           | Some n \<Rightarrow> if go_unix n > now + maxFeedSkew then Inl FeedBadTimestamp else Inr n)
      | _ \<Rightarrow> Inl FeedBadTimestamp)"

subsection \<open>Rows\<close>

record health_counts =
  hc_rows :: nat
  hc_usable :: nat
  hc_healthy :: nat
  hc_skipped :: nat

definition no_counts :: health_counts where
  "no_counts = \<lparr>hc_rows = 0, hc_usable = 0, hc_healthy = 0, hc_skipped = 0\<rparr>"

text \<open>What a row says: nothing usable, a bid that is not healthy, or a healthy bid of a model.\<close>

datatype health_row = SkipRow | UnhealthyRow | HealthyRow string string

definition health_row_of :: "string option \<Rightarrow> string option \<Rightarrow> string option \<Rightarrow> health_row" where
  "health_row_of model bid status =
     (case (model, bid, status) of
        (Some m, Some i, Some s) \<Rightarrow> if isHealthy s then HealthyRow m i else UnhealthyRow
      | _ \<Rightarrow> SkipRow)"

text \<open>
  The \<open>health\<close> member decodes into a pointer to a struct: \<open>null\<close> clears it, an object fills it (on top of
  an earlier one), anything else is an error of the row.
\<close>

fun health_members :: "json list \<Rightarrow> json option option \<Rightarrow> (json option option) option" where
  "health_members [] p = Some p"
| "health_members (JNull # vs) p = health_members vs None"
| "health_members (JObj kvs # vs) p =
     health_members vs (Some (case raw_field ''status'' kvs of
        Some v \<Rightarrow> Some v | None \<Rightarrow> (case p of Some st \<Rightarrow> st | None \<Rightarrow> None)))"
| "health_members (_ # vs) p = None"

definition bids_row :: "json \<Rightarrow> health_row" where
  "bids_row r =
     (case as_object r of
        None \<Rightarrow> SkipRow
      | Some kvs \<Rightarrow>
          (case (str_field ''Id'' kvs, str_field ''ModelAgentId'' kvs, health_members (members ''health'' kvs) None) of
             ((True, i), (True, m), Some (Some status)) \<Rightarrow> health_row_of (hexID m) (hexID i) (jsonString status)
           | _ \<Rightarrow> SkipRow))"

definition detail_row :: "string option \<Rightarrow> json \<Rightarrow> health_row" where
  "detail_row model r =
     (case as_object r of
        None \<Rightarrow> SkipRow
      | Some kvs \<Rightarrow>
          (case str_field ''bidId'' kvs of
             (True, i) \<Rightarrow> health_row_of model (hexID i) (jsonString (raw_field ''status'' kvs))
           | _ \<Rightarrow> SkipRow))"

definition ids_of :: "string set gomap \<Rightarrow> string \<Rightarrow> string set" where
  "ids_of s m = (case mget s m of None \<Rightarrow> {} | Some ids \<Rightarrow> ids)"

fun count_row :: "health_row \<Rightarrow> health_counts \<times> string set gomap \<Rightarrow> health_counts \<times> string set gomap" where
  "count_row SkipRow (c, s) = (c\<lparr>hc_rows := Suc (hc_rows c), hc_skipped := Suc (hc_skipped c)\<rparr>, s)"
| "count_row UnhealthyRow (c, s) = (c\<lparr>hc_rows := Suc (hc_rows c), hc_usable := Suc (hc_usable c)\<rparr>, s)"
| "count_row (HealthyRow m i) (c, s) =
     (c\<lparr>hc_rows := Suc (hc_rows c), hc_usable := Suc (hc_usable c), hc_healthy := Suc (hc_healthy c)\<rparr>,
      mput m (insert i (ids_of s m)) s)"

definition count_rows :: "health_row list \<Rightarrow> health_counts \<times> string set gomap" where
  "count_rows rs = fold count_row rs (no_counts, [])"

subsection \<open>Files\<close>

definition as_array :: "json option \<Rightarrow> json list option" where
  "as_array raw = (case raw of Some (JArr vs) \<Rightarrow> Some vs | _ \<Rightarrow> None)"

definition parseBidsFeed :: "string \<Rightarrow> time \<Rightarrow> feed_class + health_snap \<times> health_counts" where
  "parseBidsFeed raw now =
     (case json_parse raw of
        None \<Rightarrow> Inl FeedMalformed
      | Some doc \<Rightarrow>
          (case as_object doc of
             None \<Rightarrow> Inl FeedMalformed
           | Some kvs \<Rightarrow>
               (case feedStamp (raw_field ''last_updated'' kvs) now of
                  Inl e \<Rightarrow> Inl e
                | Inr stamp \<Rightarrow>
                    (case as_array (raw_field ''bids'' kvs) of
                       None \<Rightarrow> Inl FeedMalformed
                     | Some rows \<Rightarrow>
                         (let (cnt, s) = count_rows (map bids_row rows)
                          in if hc_usable cnt = 0 then Inl FeedNoUsableRows
                             else Inr (\<lparr>hs_set = s, hs_lastUpdated = stamp, hs_fetchedAt = zero_time\<rparr>, cnt))))))"

text \<open>A slice member: absent or \<open>null\<close> is empty, an array its elements, anything else an error.\<close>

definition slice_field :: "string \<Rightarrow> (string \<times> json) list \<Rightarrow> json list option" where
  "slice_field name kvs =
     (if list_all (\<lambda>v. case v of JNull \<Rightarrow> True | JArr vs \<Rightarrow> True | _ \<Rightarrow> False) (members name kvs)
      then Some (case raw_field name kvs of Some (JArr vs) \<Rightarrow> vs | _ \<Rightarrow> []) else None)"

text \<open>The models of a file, for the bid details: each model's id and raw rows; \<open>None\<close> when decoding fails.\<close>

definition detail_model :: "json \<Rightarrow> (string \<times> json list) option" where
  "detail_model m =
     (case as_object m of
        None \<Rightarrow> None
      | Some kvs \<Rightarrow>
          (case (str_field ''Id'' kvs, slice_field ''bidDetail'' kvs) of
             ((True, i), Some rows) \<Rightarrow> Some (i, rows)
           | _ \<Rightarrow> None))"

fun map_opt :: "('a \<Rightarrow> 'b option) \<Rightarrow> 'a list \<Rightarrow> 'b list option" where
  "map_opt f [] = Some []"
| "map_opt f (x # xs) = (case f x of None \<Rightarrow> None | Some y \<Rightarrow> map_option ((#) y) (map_opt f xs))"

text \<open>\<open>detailParse\<close>: the copy or why there is none, and the stamp when it was valid.\<close>

record detail_parse =
  dp_snap :: "feed_class + health_snap"
  dp_stamp :: "int option"
  dp_cnt :: health_counts

definition parseBidDetail :: "string \<Rightarrow> time \<Rightarrow> detail_parse" where
  "parseBidDetail raw now =
     (case Option.bind (json_parse raw) as_object of
        None \<Rightarrow> \<lparr>dp_snap = Inl FeedMalformed, dp_stamp = None, dp_cnt = no_counts\<rparr>
      | Some kvs \<Rightarrow>
          (case Option.bind (slice_field ''models'' kvs) (map_opt detail_model) of
             None \<Rightarrow> \<lparr>dp_snap = Inl FeedMalformed, dp_stamp = None, dp_cnt = no_counts\<rparr>
           | Some models \<Rightarrow>
               (case feedStamp (raw_field ''last_updated'' kvs) now of
                  Inl e \<Rightarrow> \<lparr>dp_snap = Inl e, dp_stamp = None, dp_cnt = no_counts\<rparr>
                | Inr stamp \<Rightarrow>
                    (let (cnt, s) = count_rows (concat (map (\<lambda>(i, rows). map (detail_row (hexID i)) rows) models))
                     in \<lparr>dp_snap = (if hc_usable cnt = 0 then Inl FeedNoUsableRows
                           else Inr \<lparr>hs_set = s, hs_lastUpdated = stamp, hs_fetchedAt = zero_time\<rparr>),
                         dp_stamp = Some stamp, dp_cnt = cnt\<rparr>))))"

subsection \<open>Publishing a copy\<close>

definition replaceSnap :: "health_snap option \<Rightarrow> health_snap \<Rightarrow> time \<Rightarrow> feed_class option \<times> health_snap option" where
  "replaceSnap cur nxt now =
     (case cur of
        None \<Rightarrow> (None, Some (nxt\<lparr>hs_fetchedAt := now\<rparr>))
      | Some c \<Rightarrow>
          if hs_lastUpdated nxt < hs_lastUpdated c then (Some FeedRollback, cur)
          else if hs_lastUpdated nxt = hs_lastUpdated c then (None, Some (c\<lparr>hs_fetchedAt := now\<rparr>))
          else (None, Some (nxt\<lparr>hs_fetchedAt := now\<rparr>)))"

definition new_log :: feed_log where
  "new_log = \<lparr>fl_staleLogged = False, fl_lastStaleWarnAt = zero_time, fl_lastRollbackLogAt = zero_time, fl_rollbackSuppressed = 0\<rparr>"

definition feedLog :: "string \<Rightarrow> health_state \<Rightarrow> feed_log" where
  "feedLog feed h = (case mget (hh_logs h) feed of None \<Rightarrow> new_log | Some l \<Rightarrow> l)"

text \<open>\<open>failedLocked\<close>: whether a line is logged (with how many it stands for), and the limiter after it.\<close>

definition failed :: "string \<Rightarrow> feed_class \<Rightarrow> time \<Rightarrow> health_state \<Rightarrow> nat option \<times> health_state" where
  "failed feed cls now h =
     (if cls \<noteq> FeedRollback then (Some 0, h)
      else let l = feedLog feed h
           in if \<not> is_zero (fl_lastRollbackLogAt l) \<and> now - fl_lastRollbackLogAt l < staleWarnEvery
              then (None, h\<lparr>hh_logs := mput feed (l\<lparr>fl_rollbackSuppressed := Suc (fl_rollbackSuppressed l)\<rparr>) (hh_logs h)\<rparr>)
              else (Some (fl_rollbackSuppressed l),
                    h\<lparr>hh_logs := mput feed (l\<lparr>fl_lastRollbackLogAt := now, fl_rollbackSuppressed := 0\<rparr>) (hh_logs h)\<rparr>))"

definition detailFailed :: "feed_class \<Rightarrow> time \<Rightarrow> health_state \<Rightarrow> health_state" where
  "detailFailed cls now h = snd (failed ''models'' cls now (h\<lparr>hh_detailErr := Some cls, hh_detailErrAt := now\<rparr>))"

definition applyDetail :: "detail_parse \<Rightarrow> time \<Rightarrow> health_state \<Rightarrow> feed_class option \<times> health_state" where
  "applyDetail d now h =
     (let h1 = (case dp_stamp d of
            Some stamp \<Rightarrow> h\<lparr>hh_modelsLastUpdated := stamp, hh_modelsHasStamp := True\<rparr>
          | None \<Rightarrow> h\<lparr>hh_modelsHasStamp := False\<rparr>);
          (err, h2) = (case dp_snap d of
            Inl e \<Rightarrow> (Some e, h1)
          | Inr s \<Rightarrow> (case replaceSnap (hh_detail h1) s now of (e, cur) \<Rightarrow> (e, h1\<lparr>hh_detail := cur\<rparr>)))
      in case err of
           Some e \<Rightarrow> (Some e, detailFailed e now h2)
         | None \<Rightarrow> (None, h2\<lparr>hh_detailErr := None\<rparr>))"

text \<open>The locked part of \<open>refreshBids\<close>: what a fetched or failed bids file does to the state.\<close>

definition applyBids :: "(feed_class + health_snap \<times> health_counts) \<Rightarrow> time \<Rightarrow> health_state \<Rightarrow> health_state" where
  "applyBids r now h =
     (let (err, h1) = (case r of
            Inl e \<Rightarrow> (Some e, h)
          | Inr (s, cnt) \<Rightarrow> (case replaceSnap (hh_bids h) s now of (e, cur) \<Rightarrow> (e, h\<lparr>hh_bids := cur\<rparr>)))
      in case err of
           Some e \<Rightarrow> snd (failed ''bids'' e now (h1\<lparr>hh_bidsErr := Some e, hh_bidsErrAt := now\<rparr>))
         | None \<Rightarrow> h1\<lparr>hh_bidsErr := None\<rparr>)"

subsection \<open>Reading the state\<close>

text \<open>
  The healthy bids of a model: the bids copy once there is one, however old; else the bid details; else
  unknown (\<open>ErrHealthUnknown\<close>).
\<close>

definition healthy_ids :: "health_state \<Rightarrow> string \<Rightarrow> string set option" where
  "healthy_ids h modelID =
     (let model = to_lower (trim modelID)
      in case (case hh_bids h of Some s \<Rightarrow> Some s | None \<Rightarrow> hh_detail h) of
           None \<Rightarrow> None
         | Some s \<Rightarrow> Some (ids_of (hs_set s) model))"

datatype health_source = FromBids | FromDetail | NoSource

definition healthSource :: "health_state \<Rightarrow> health_source" where
  "healthSource h = (if hh_bids h \<noteq> None then FromBids else if hh_detail h \<noteq> None then FromDetail else NoSource)"

text \<open>\<open>t.Sub(u)\<close> saturates at the largest duration.\<close>

definition go_sub :: "time \<Rightarrow> time \<Rightarrow> dur" where
  "go_sub t u = max (- (2 ^ 63)) (min (2 ^ 63 - 1) (t - u))"

record feed_state =
  fs_lastGoodFetchAt :: "time option"
  fs_feedLastUpdated :: "time option"
  fs_ageSeconds :: "int option"
  fs_stale :: bool
  fs_loaded :: bool

definition not_loaded :: feed_state where
  "not_loaded = \<lparr>fs_lastGoodFetchAt = None, fs_feedLastUpdated = None, fs_ageSeconds = None, fs_stale = False, fs_loaded = False\<rparr>"

definition feedState :: "time \<Rightarrow> int option \<Rightarrow> time \<Rightarrow> feed_state" where
  "feedState fetched stamp now =
     (if is_zero fetched then not_loaded
      else let oldest = (case stamp of Some n \<Rightarrow> if go_unix n < fetched then go_unix n else fetched | None \<Rightarrow> fetched);
               age = go_div (go_sub now oldest) second
           in \<lparr>fs_lastGoodFetchAt = Some fetched, fs_feedLastUpdated = map_option go_unix stamp,
               fs_ageSeconds = Some (if age < 0 then 0 else age), fs_stale = (go_sub now oldest > staleAfter), fs_loaded = True\<rparr>)"

text \<open>The models and the bids feed; \<open>models\<close>: when the models file was fetched (\<open>None\<close>: never).\<close>

definition feedStates :: "time option \<Rightarrow> time \<Rightarrow> health_state \<Rightarrow> feed_state \<times> feed_state \<times> health_source" where
  "feedStates models now h =
     ((case (healthSource h, hh_detail h) of
         (FromDetail, Some d) \<Rightarrow> feedState (hs_fetchedAt d) (Some (hs_lastUpdated d)) now
       | _ \<Rightarrow> (case models of
            None \<Rightarrow> not_loaded
          | Some at \<Rightarrow> feedState at (if hh_modelsHasStamp h then Some (hh_modelsLastUpdated h) else None) now)),
      (case hh_bids h of None \<Rightarrow> not_loaded | Some b \<Rightarrow> feedState (hs_fetchedAt b) (Some (hs_lastUpdated b)) now),
      healthSource h)"

datatype stale_line = StaleWarn | FreshAgain

text \<open>\<open>checkStale\<close> for one feed: the line it logs, if any, and the limiter after it.\<close>

definition check_stale :: "string \<Rightarrow> feed_state \<Rightarrow> time \<Rightarrow> health_state \<Rightarrow> stale_line option \<times> health_state" where
  "check_stale feed st now h =
     (let l = feedLog feed h; put = (\<lambda>l. h\<lparr>hh_logs := mput feed l (hh_logs h)\<rparr>)
      in if \<not> fs_stale st then
           (if fl_staleLogged l then (Some FreshAgain, put (l\<lparr>fl_staleLogged := False\<rparr>)) else (None, put l))
         else if fl_staleLogged l \<and> now - fl_lastStaleWarnAt l < staleWarnEvery then (None, put l)
         else (Some StaleWarn, put (l\<lparr>fl_staleLogged := True, fl_lastStaleWarnAt := now\<rparr>)))"

definition checkStale :: "time option \<Rightarrow> time \<Rightarrow> health_state \<Rightarrow> stale_line option list \<times> health_state" where
  "checkStale models now h =
     (let (ms, bs, src) = feedStates models now h;
          (l1, h1) = check_stale ''models'' ms now h;
          (l2, h2) = check_stale ''bids'' bs now h1
      in ([l1, l2], h2))"

subsection \<open>What a parsed file holds\<close>

lemma ids_of_mput [simp]: "ids_of (mput m x s) k = (if k = m then x else ids_of s k)"
  by (simp add: ids_of_def)

lemma ids_of_Nil [simp]: "ids_of [] k = {}"
  by (simp add: ids_of_def)

lemma fold_count_ids:
  "i \<in> ids_of (snd (fold count_row rs a)) m \<longleftrightarrow> i \<in> ids_of (snd a) m \<or> HealthyRow m i \<in> set rs"
proof (induction rs arbitrary: a)
  case (Cons r rs)
  then show ?case by (cases r; cases a) auto
qed simp

definition sums_up :: "health_counts \<Rightarrow> bool" where
  "sums_up c \<longleftrightarrow> hc_rows c = hc_usable c + hc_skipped c \<and> hc_healthy c \<le> hc_usable c"

lemma fold_count_sums:
  "sums_up (fst a) \<Longrightarrow> sums_up (fst (fold count_row rs a)) \<and> hc_rows (fst (fold count_row rs a)) = hc_rows (fst a) + length rs"
proof (induction rs arbitrary: a)
  case (Cons r rs)
  have "sums_up (fst (count_row r a))" "hc_rows (fst (count_row r a)) = Suc (hc_rows (fst a))"
    using Cons.prems by (cases r; cases a; simp add: sums_up_def)+
  with Cons.IH [of "count_row r a"] show ?case by simp
qed simp

lemma fold_count_usable:
  "hc_usable (fst (fold count_row rs a)) = hc_usable (fst a) + length (filter (\<lambda>r. r \<noteq> SkipRow) rs)"
proof (induction rs arbitrary: a)
  case (Cons r rs)
  then show ?case by (cases r; cases a) auto
qed simp

lemmas count_rows_facts =
  fold_count_ids [of _ _ "(no_counts, [])", folded count_rows_def, simplified]
  fold_count_usable [of _ "(no_counts, [])", folded count_rows_def]

lemma all_skipped: "hc_usable (fst (count_rows (map bids_row rows))) = 0 \<longleftrightarrow> list_all (\<lambda>r. bids_row r = SkipRow) rows"
  using count_rows_facts(2) [of "map bids_row rows"] by (auto simp: no_counts_def filter_empty_conv list_all_iff)

lemma counted_rows: "count_rows (map bids_row rows) = (cnt, s) \<Longrightarrow> hc_rows cnt = length rows \<and> hc_rows cnt = hc_usable cnt + hc_skipped cnt"
  using fold_count_sums [of "(no_counts, [])" "map bids_row rows"] by (simp add: count_rows_def no_counts_def sums_up_def)

text \<open>
  A bids file that is accepted is a sound summary of its rows. Its document is an object with an integer
  \<open>last_updated\<close> that is not in the future and an array of bids with at least one usable row, and a bid is
  in the copy of a model exactly when one of the rows says so with a healthy status; the counts add up.
  Otherwise the class of the error says what is wrong: the document, the stamp, or that no row is usable.
\<close>

theorem parseBidsFeed_sound:
  "case Option.bind (json_parse raw) as_object of
     None \<Rightarrow> parseBidsFeed raw now = Inl FeedMalformed
   | Some kvs \<Rightarrow>
       (case (feedStamp (raw_field ''last_updated'' kvs) now, as_array (raw_field ''bids'' kvs)) of
          (Inl e, _) \<Rightarrow> parseBidsFeed raw now = Inl e
        | (Inr stamp, None) \<Rightarrow> parseBidsFeed raw now = Inl FeedMalformed
        | (Inr stamp, Some rows) \<Rightarrow>
            (case parseBidsFeed raw now of
               Inl e \<Rightarrow> e = FeedNoUsableRows \<and> list_all (\<lambda>r. bids_row r = SkipRow) rows
             | Inr (snap, cnt) \<Rightarrow>
                 \<not> list_all (\<lambda>r. bids_row r = SkipRow) rows \<and> hs_lastUpdated snap = stamp \<and>
                 (\<forall>m i. i \<in> ids_of (hs_set snap) m \<longleftrightarrow> HealthyRow m i \<in> set (map bids_row rows)) \<and>
                 hc_rows cnt = length rows \<and> hc_rows cnt = hc_usable cnt + hc_skipped cnt))"
proof (cases "Option.bind (json_parse raw) as_object")
  case None
  then show ?thesis by (auto simp: parseBidsFeed_def bind_eq_None_conv split: option.split)
next
  case (Some kvs)
  then obtain doc where doc: "json_parse raw = Some doc" "as_object doc = Some kvs" by (auto simp: bind_eq_Some_conv)
  show ?thesis
  proof (cases "feedStamp (raw_field ''last_updated'' kvs) now")
    case (Inr stamp)
    show ?thesis
    proof (cases "as_array (raw_field ''bids'' kvs)")
      case (Some rows)
      obtain cnt s where c: "count_rows (map bids_row rows) = (cnt, s)" by fastforce
      from counted_rows [OF c] all_skipped [of rows] count_rows_facts(1) [of _ "map bids_row rows"]
      show ?thesis by (auto simp: parseBidsFeed_def doc Inr Some c)
    qed (simp add: parseBidsFeed_def doc Inr)
  qed (simp add: parseBidsFeed_def doc)
qed

subsection \<open>Executions\<close>

datatype feed_op =
    BidsFile "feed_class + health_snap \<times> health_counts"
  | ModelsFile detail_parse
  | ModelsFailed feed_class
  | StaleCheck "time option"

fun feed_step :: "time \<Rightarrow> feed_op \<Rightarrow> health_state \<Rightarrow> health_state" where
  "feed_step now (BidsFile r) h = applyBids r now h"
| "feed_step now (ModelsFile d) h = snd (applyDetail d now h)"
| "feed_step now (ModelsFailed e) h = detailFailed e now h"
| "feed_step now (StaleCheck models) h = snd (checkStale models now h)"

fun feed_run :: "(time \<times> feed_op) list \<Rightarrow> health_state \<Rightarrow> health_state" where
  "feed_run [] h = h"
| "feed_run ((now, op) # ops) h = feed_run ops (feed_step now op h)"

lemma failed_frame [simp]:
  "hh_bids (snd (failed f e now h)) = hh_bids h" "hh_detail (snd (failed f e now h)) = hh_detail h"
  by (auto simp: failed_def Let_def)

lemma detailFailed_frame [simp]:
  "hh_bids (detailFailed e now h) = hh_bids h" "hh_detail (detailFailed e now h) = hh_detail h"
  by (simp_all add: detailFailed_def)

lemma check_stale_frame [simp]:
  "hh_bids (snd (check_stale f st now h)) = hh_bids h" "hh_detail (snd (check_stale f st now h)) = hh_detail h"
  by (simp_all add: check_stale_def Let_def)

lemma checkStale_frame [simp]:
  "hh_bids (snd (checkStale m now h)) = hh_bids h" "hh_detail (snd (checkStale m now h)) = hh_detail h"
  by (simp_all add: checkStale_def Let_def case_prod_beta)

text \<open>A copy is kept or replaced by one that is not older; an equally old one keeps its content.\<close>

definition newer :: "health_snap option \<Rightarrow> health_snap option \<Rightarrow> bool" where
  "newer c c' \<longleftrightarrow> (\<forall>s. c = Some s \<longrightarrow> (\<exists>s'. c' = Some s' \<and> hs_lastUpdated s \<le> hs_lastUpdated s' \<and>
     (hs_lastUpdated s = hs_lastUpdated s' \<longrightarrow> hs_set s = hs_set s')))"

lemma newer_refl [simp]: "newer c c"
  by (simp add: newer_def)

lemma newer_trans: "newer a b \<Longrightarrow> newer b c \<Longrightarrow> newer a c"
proof -
  assume ab: "newer a b" and bc: "newer b c"
  have "\<exists>s'. c = Some s' \<and> hs_lastUpdated s \<le> hs_lastUpdated s' \<and>
      (hs_lastUpdated s = hs_lastUpdated s' \<longrightarrow> hs_set s = hs_set s')" if s: "a = Some s" for s
  proof -
    from ab s obtain t where t: "b = Some t" "hs_lastUpdated s \<le> hs_lastUpdated t" "hs_lastUpdated s = hs_lastUpdated t \<longrightarrow> hs_set s = hs_set t"
      unfolding newer_def by blast
    from bc t(1) obtain u where "c = Some u" "hs_lastUpdated t \<le> hs_lastUpdated u" "hs_lastUpdated t = hs_lastUpdated u \<longrightarrow> hs_set t = hs_set u"
      unfolding newer_def by blast
    with t show ?thesis by auto
  qed
  then show "newer a c" by (simp add: newer_def)
qed

lemma replaceSnap_newer: "newer c (snd (replaceSnap c n now))"
  by (auto simp: newer_def replaceSnap_def)

lemma feed_step_newer:
  "newer (hh_bids h) (hh_bids (feed_step now op h)) \<and> newer (hh_detail h) (hh_detail (feed_step now op h))"
proof (cases op)
  case (BidsFile r)
  then show ?thesis
  proof (cases r)
    case (Inr p)
    obtain n c where "p = (n, c)" by (cases p)
    then show ?thesis
      using BidsFile Inr replaceSnap_newer [of "hh_bids h" n now]
      by (cases "replaceSnap (hh_bids h) n now") (auto simp: applyBids_def Let_def split: option.splits)
  qed (simp add: applyBids_def Let_def)
next
  case (ModelsFile d)
  then show ?thesis
  proof (cases "dp_snap d")
    case (Inr n)
    then show ?thesis
      using ModelsFile replaceSnap_newer [of "hh_detail h" n now]
      by (cases "replaceSnap (hh_detail h) n now") (auto simp: applyDetail_def Let_def split: option.splits)
  qed (simp add: applyDetail_def Let_def split: option.split)
qed simp_all

lemma feed_run_newer:
  "newer (hh_bids h) (hh_bids (feed_run ops h)) \<and> newer (hh_detail h) (hh_detail (feed_run ops h))"
proof (induction ops arbitrary: h)
  case (Cons x ops)
  obtain now op where x: "x = (now, op)" by (cases x)
  from feed_step_newer [of h now op] Cons.IH [of "feed_step now op h"] show ?case
    unfolding x feed_run.simps by (blast intro: newer_trans)
qed simp

text \<open>
  Health is never forgotten. Whatever files arrive and whichever fetches fail, a copy of either feed is
  only replaced by one with a later \<open>last_updated\<close>; health that is known stays known; and once a bids copy has
  loaded, every answer comes from the bids feed.
\<close>

theorem health_never_forgotten:
  "let h' = feed_run ops h
   in newer (hh_bids h) (hh_bids h') \<and> newer (hh_detail h) (hh_detail h') \<and>
    (case healthy_ids h m of None \<Rightarrow> True | Some _ \<Rightarrow> healthy_ids h' m \<noteq> None) \<and>
    (case healthSource h of FromBids \<Rightarrow> \<exists>s. hh_bids h' = Some s \<and> healthy_ids h' m = Some (ids_of (hs_set s) (to_lower (trim m))) | _ \<Rightarrow> True)"
proof -
  define h' where "h' = feed_run ops h"
  have n: "newer (hh_bids h) (hh_bids h')" "newer (hh_detail h) (hh_detail h')"
    using feed_run_newer [of h ops] by (simp_all add: h'_def)
  then have "hh_bids h \<noteq> None \<Longrightarrow> hh_bids h' \<noteq> None" "hh_detail h \<noteq> None \<Longrightarrow> hh_detail h' \<noteq> None"
    by (auto simp: newer_def)
  moreover have "healthy_ids k m = None \<longleftrightarrow> hh_bids k = None \<and> hh_detail k = None" for k :: health_state
    by (auto simp: healthy_ids_def Let_def split: option.splits)
  note this [of h] this [of h']
  moreover have "healthSource h = FromBids \<longleftrightarrow> hh_bids h \<noteq> None" by (simp add: healthSource_def)
  moreover have "\<exists>s. hh_bids h' = Some s \<and> healthy_ids h' m = Some (ids_of (hs_set s) (to_lower (trim m)))"
    if "hh_bids h' \<noteq> None" using that by (auto simp: healthy_ids_def Let_def)
  ultimately show ?thesis using n by (auto simp: Let_def h'_def [symmetric] split: option.split health_source.split)
qed

text \<open>The last second an \<open>int64\<close> holds, as a bids file can carry it.\<close>

definition last_stamp :: string where "last_stamp = ''9223372036854775807''"

lemma parse_last_stamp: "parse_int64 last_stamp = Some (2 ^ 63 - 1)"
  by code_simp

lemma go_unix_wraps: "go_unix (2 ^ 63 - 1) = - (2 ^ 63 + 1) * second"
  by (simp add: go_unix_def unix_to_internal_def)

lemma feed_step_stuck:
  assumes "hh_bids h = Some s" and "\<And>n c. op = BidsFile (Inr (n, c)) \<Longrightarrow> hs_lastUpdated n < hs_lastUpdated s"
  shows "hh_bids (feed_step now op h) = Some s"
proof (cases op)
  case (BidsFile r)
  with assms show ?thesis
    by (cases r) (auto simp: applyBids_def replaceSnap_def Let_def split: prod.splits option.splits)
qed (use assms(1) in \<open>auto simp: applyDetail_def Let_def split: option.splits sum.splits prod.splits\<close>)

definition bids_stamps :: "(time \<times> feed_op) list \<Rightarrow> int list" where
  "bids_stamps ops = concat (map (\<lambda>(t, op). case op of BidsFile (Inr (n, c)) \<Rightarrow> [hs_lastUpdated n] | _ \<Rightarrow> []) ops)"

lemma feed_run_stuck:
  assumes "hh_bids h = Some s" and "list_all (\<lambda>n. n < hs_lastUpdated s) (bids_stamps ops)"
  shows "hh_bids (feed_run ops h) = Some s"
  using assms
proof (induction ops arbitrary: h)
  case (Cons x ops)
  obtain now op where x: "x = (now, op)" by (cases x)
  have "hh_bids (feed_step now op h) = Some s"
    using Cons.prems by (intro feed_step_stuck) (auto simp: x bids_stamps_def)
  moreover have "list_all (\<lambda>n. n < hs_lastUpdated s) (bids_stamps ops)"
    using Cons.prems(2) by (auto simp: x bids_stamps_def)
  ultimately show ?case using Cons.IH [of "feed_step now op h"] by (simp add: x)
qed simp

text \<open>
  One wrapped stamp blocks the bids feed for good. The largest \<open>int64\<close> as \<open>last_updated\<close> is taken for a
  moment in the past (\<open>time.Unix\<close> wraps) and accepted; the copy published with it is then the answer for
  every model until a restart, because each later file counts as a rollback.
\<close>

theorem wrapped_stamp_sticks:
  assumes now: "zero_time \<le> now" and s: "hh_bids h = Some s" and stamp: "feedStamp (Some (JNum last_stamp)) now = Inr (hs_lastUpdated s)"
    and later: "list_all (\<lambda>n. n < 2 ^ 63 - 1) (bids_stamps ops)"
  shows "healthy_ids (feed_run ops h) m = Some (ids_of (hs_set s) (to_lower (trim m)))"
proof -
  from stamp have "hs_lastUpdated s = 2 ^ 63 - 1"
    by (simp add: feedStamp_def parse_last_stamp split: if_splits)
  with later s feed_run_stuck [of h s ops] show ?thesis by (simp add: healthy_ids_def Let_def)
qed

definition one_bid :: "string \<Rightarrow> int \<Rightarrow> health_snap" where
  "one_bid i n = \<lparr>hs_set = [(''m'', {i})], hs_lastUpdated = n, hs_fetchedAt = 0\<rparr>"

definition no_health :: health_state where
  "no_health = \<lparr>hh_bids = None, hh_bidsErr = None, hh_bidsErrAt = zero_time, hh_detail = None, hh_detailErr = None,
     hh_detailErrAt = zero_time, hh_modelsLastUpdated = 0, hh_modelsHasStamp = False, hh_logs = []\<rparr>"

lemma wrapped_stamp_sticks_witness:
  "healthy_ids (feed_run [(9, BidsFile (Inr (one_bid ''new'' 1700000000, no_counts)))]
     (no_health\<lparr>hh_bids := Some (one_bid ''old'' (2 ^ 63 - 1))\<rparr>)) ''M'' = Some {''old''}"
proof -
  have "feedStamp (Some (JNum last_stamp)) 0 = Inr (2 ^ 63 - 1)"
    by (simp add: feedStamp_def parse_last_stamp go_unix_def unix_to_internal_def second_def maxFeedSkew_def minute_def)
  moreover have "ids_of (hs_set (one_bid ''old'' (2 ^ 63 - 1))) (to_lower (trim ''M'')) = {''old''}" by code_simp
  ultimately show ?thesis
    using wrapped_stamp_sticks [of 0 "no_health\<lparr>hh_bids := Some (one_bid ''old'' (2 ^ 63 - 1))\<rparr>" "one_bid ''old'' (2 ^ 63 - 1)"
        "[(9, BidsFile (Inr (one_bid ''new'' 1700000000, no_counts)))]" "''M''"]
    by (simp add: zero_time_def bids_stamps_def one_bid_def)
qed

end
