(* ===== verification/Catalog.thy ===== *)
theory Catalog
  imports Feeds State_Rules "HOL-Library.List_Lexorder" "HOL-Library.Char_ord"
begin

section \<open>The model catalog (\<open>internal/catalog/catalog.go\<close>)\<close>

text \<open>
  The models file with its decoding rules, list prices, the choice for a shared name, provider exclusions
  and the refresh of both feeds. A refresh is a handler: sections under \<open>mu\<close>, the feed's fetch lock and the
  network call in sequence, with other callers taking steps in between. The network answer, the clock and
  what the other callers do are parameters (\<open>cat_env\<close>).
\<close>

subsection \<open>Models and bids\<close>

record bid_detail =
  bd_BidID :: string
  bd_ProviderID :: string
  bd_PricePerSecond :: string
  bd_PriceMorPerHour :: string         \<comment> \<open>the number's text; empty for 0\<close>
  bd_Status :: string

record model =
  md_Name :: string
  md_ID :: string
  md_Tags :: "string list"
  md_ModelType :: string
  md_BidDetail :: "bid_detail list"

text \<open>
  A JSON number fits a \<open>float64\<close> when it does not round to infinity: its magnitude is below
  \<open>2^1024 - 2^970\<close>. The literal is a digit string with a fraction of \<open>k\<close> digits and an exponent.
\<close>

definition is_exp :: "char \<Rightarrow> bool" where "is_exp c \<longleftrightarrow> c = CHR ''e'' \<or> c = CHR ''E''"

definition float_fits :: "string \<Rightarrow> bool" where
  "float_fits t =
     (let u = filter (\<lambda>c. c \<noteq> CHR ''-'') (takeWhile (\<lambda>c. \<not> is_exp c) t);
          m = digits_val (filter is_digit u);
          k = int (length (drop 1 (dropWhile (\<lambda>c. c \<noteq> CHR ''.'') u)));
          e = (case parse_decimal (drop 1 (dropWhile (\<lambda>c. \<not> is_exp c) t)) of None \<Rightarrow> 0 | Some n \<Rightarrow> n) - k;
          bound = 2 ^ 1024 - 2 ^ 970
      in if m = 0 then True else if e \<ge> 0 then m * 10 ^ nat e < bound else m < bound * 10 ^ nat (- e))"

fun float_members :: "json list \<Rightarrow> bool \<times> string \<Rightarrow> bool \<times> string" where
  "float_members [] r = r"
| "float_members (JNull # vs) r = float_members vs r"
| "float_members (JNum t # vs) (ok, f) = (if float_fits t then float_members vs (ok, t) else float_members vs (False, f))"
| "float_members (_ # vs) (_, f) = float_members vs (False, f)"

definition parse_bid :: "(string \<times> json) list \<Rightarrow> bid_detail option" where
  "parse_bid kvs =
     (case (str_field ''bidId'' kvs, str_field ''providerId'' kvs, str_field ''pricePerSecond'' kvs,
            float_members (members ''priceMorPerHour'' kvs) (True, []), str_field ''status'' kvs) of
        ((True, i), (True, p), (True, pps), (True, mor), (True, st)) \<Rightarrow>
          Some \<lparr>bd_BidID = i, bd_ProviderID = p, bd_PricePerSecond = pps, bd_PriceMorPerHour = mor, bd_Status = st\<rparr>
      | _ \<Rightarrow> None)"

text \<open>\<open>Model.UnmarshalJSON\<close>: rows whose status is not a JSON string are dropped, a row that fails otherwise fails the file.\<close>

fun bid_rows :: "json list \<Rightarrow> bid_detail list option" where
  "bid_rows [] = Some []"
| "bid_rows (r # rs) =
     (case as_object r of
        None \<Rightarrow> bid_rows rs
      | Some kvs \<Rightarrow>
          if jsonString (raw_field ''status'' kvs) = None then bid_rows rs
          else (case parse_bid kvs of None \<Rightarrow> None | Some b \<Rightarrow> map_option ((#) b) (bid_rows rs)))"

definition tag_of :: "json \<Rightarrow> string option" where
  "tag_of v = (case v of JStr s \<Rightarrow> Some s | JNull \<Rightarrow> Some [] | _ \<Rightarrow> None)"

definition parse_model :: "json \<Rightarrow> model option" where
  "parse_model j =
     (case as_object j of
        None \<Rightarrow> None
      | Some kvs \<Rightarrow>
          (case (str_field ''Name'' kvs, str_field ''Id'' kvs, Option.bind (slice_field ''Tags'' kvs) (map_opt tag_of),
                 str_field ''ModelType'' kvs, slice_field ''bidDetail'' kvs) of
             ((True, n), (True, i), Some tags, (True, ty), Some rows) \<Rightarrow>
               map_option (\<lambda>bids. \<lparr>md_Name = n, md_ID = i, md_Tags = tags, md_ModelType = ty, md_BidDetail = bids\<rparr>)
                 (bid_rows rows)
           | _ \<Rightarrow> None))"

text \<open>The models of a file; the inner \<open>None\<close> is Go's nil slice (no \<open>models\<close> member, or \<open>null\<close>).\<close>

definition parse_models :: "string \<Rightarrow> model list option option" where
  "parse_models raw =
     (case Option.bind (json_parse raw) as_object of
        None \<Rightarrow> None
      | Some kvs \<Rightarrow>
          (case Option.bind (slice_field ''models'' kvs) (map_opt parse_model) of
             None \<Rightarrow> None
           | Some ms \<Rightarrow> Some (case raw_field ''models'' kvs of Some (JArr vs) \<Rightarrow> Some ms | _ \<Rightarrow> None)))"

subsection \<open>Prices\<close>

definition bidWei :: "bid_detail \<Rightarrow> int option" where
  "bidWei b = (case parse_decimal (trim (bd_PricePerSecond b)) of
     None \<Rightarrow> None | Some n \<Rightarrow> if n \<le> 0 then None else Some n)"

fun pick_bid :: "bool \<Rightarrow> bid_detail list \<Rightarrow> (bid_detail \<times> int) option \<Rightarrow> (bid_detail \<times> int) option" where
  "pick_bid onlyHealthy [] best = best"
| "pick_bid onlyHealthy (b # bs) best =
     (if onlyHealthy \<and> \<not> isHealthy (bd_Status b) then pick_bid onlyHealthy bs best
      else (case bidWei b of
              None \<Rightarrow> pick_bid onlyHealthy bs best
            | Some pps \<Rightarrow> pick_bid onlyHealthy bs
                (case best of None \<Rightarrow> Some (b, pps) | Some (c, q) \<Rightarrow> if pps < q then Some (b, pps) else best)))"

definition LowestBid :: "model \<Rightarrow> bid_detail option" where
  "LowestBid m = map_option fst
     (case pick_bid True (md_BidDetail m) None of Some x \<Rightarrow> Some x | None \<Rightarrow> pick_bid False (md_BidDetail m) None)"

definition LowestMorPerHour :: "model \<Rightarrow> string" where
  "LowestMorPerHour m = (case LowestBid m of None \<Rightarrow> [] | Some b \<Rightarrow> bd_PriceMorPerHour b)"

definition LowestPricePerSecondWei :: "model \<Rightarrow> int option" where
  "LowestPricePerSecondWei m = (case LowestBid m of None \<Rightarrow> None | Some b \<Rightarrow> parse_decimal (trim (bd_PricePerSecond b)))"

fun min_wei :: "bid_detail list \<Rightarrow> int option \<Rightarrow> int option" where
  "min_wei [] best = best"
| "min_wei (b # bs) best =
     (if \<not> isHealthy (bd_Status b) then min_wei bs best
      else (case bidWei b of
              None \<Rightarrow> min_wei bs best
            | Some n \<Rightarrow> min_wei bs (case best of None \<Rightarrow> Some n | Some q \<Rightarrow> if n < q then Some n else best)))"

definition healthyBidWei :: "model \<Rightarrow> int option" where
  "healthyBidWei m = min_wei (md_BidDetail m) None"

definition preferModel :: "model \<Rightarrow> model \<Rightarrow> bool" where
  "preferModel cand cur =
     (let by_id = to_lower (md_ID cand) < to_lower (md_ID cur)
      in case (healthyBidWei cand, healthyBidWei cur) of
           (Some c, Some u) \<Rightarrow> if c \<noteq> u then c < u else by_id
         | (Some c, None) \<Rightarrow> True
         | (None, Some u) \<Rightarrow> False
         | (None, None) \<Rightarrow>
             (let cPrice = LowestPricePerSecondWei cand; uPrice = LowestPricePerSecondWei cur;
                  cHas = (case cPrice of Some n \<Rightarrow> n > 0 | None \<Rightarrow> False);
                  uHas = (case uPrice of Some n \<Rightarrow> n > 0 | None \<Rightarrow> False)
              in if cHas \<noteq> uHas then cHas
                 else if cHas \<and> uHas \<and> the cPrice \<noteq> the uPrice then the cPrice < the uPrice
                 else by_id))"

subsection \<open>Indexes and exclusions\<close>

text \<open>The loop of \<open>indexModels\<close>: the names of the ids, and the chosen row of each name.\<close>

definition index_row :: "model \<Rightarrow> model gomap \<times> string gomap \<Rightarrow> model gomap \<times> string gomap" where
  "index_row m x = (case x of (chosen, byID) \<Rightarrow>
     ((case mget chosen (to_lower (md_Name m)) of
         None \<Rightarrow> mput (to_lower (md_Name m)) m chosen
       | Some prev \<Rightarrow> if preferModel m prev then mput (to_lower (md_Name m)) m chosen else chosen),
      mput (to_lower (md_ID m)) (md_Name m) byID))"

definition indexModels :: "model list \<Rightarrow> string gomap \<times> string gomap" where
  "indexModels models =
     (case fold index_row models ([], []) of
        (chosen, byID) \<Rightarrow> (map (\<lambda>(k, m). (k, md_ID m)) (mitems chosen), byID))"

definition withoutExcluded :: "model list \<Rightarrow> string set \<Rightarrow> model list" where
  "withoutExcluded models excluded =
     concat (map (\<lambda>m.
       if excluded = {} \<or> md_BidDetail m = [] then [m]
       else (let bids = filter (\<lambda>b. to_lower (trim (bd_ProviderID b)) \<notin> excluded) (md_BidDetail m)
             in if bids = [] then [] else [m\<lparr>md_BidDetail := bids\<rparr>])) models)"

definition indexLocked :: "model list \<Rightarrow> string set \<Rightarrow> string gomap \<times> string gomap" where
  "indexLocked models excluded =
     (case indexModels models of
        (byName, byID) \<Rightarrow>
          if excluded = {} then (byName, byID)
          else (fold (\<lambda>(k, i). mput k i) (mitems (fst (indexModels (withoutExcluded models excluded)))) byName, byID))"

definition SendableID :: "model \<Rightarrow> bool \<Rightarrow> string" where
  "SendableID m sharedName = (if sharedName \<and> trim (md_ID m) \<noteq> [] then md_ID m else md_Name m)"

subsection \<open>The catalog\<close>

record catalog =
  ct_url :: string
  ct_bidsURL :: string
  ct_models :: "model list option"
  ct_byName :: "string gomap"
  ct_byID :: "string gomap"
  ct_fetchedAt :: time
  ct_ttl :: dur
  ct_retryAfter :: dur
  ct_lastErr :: "feed_class option"
  ct_lastErrAt :: time
  ct_excluded :: "string set"
  ct_health :: health_state

definition DefaultRetryAfter :: dur where "DefaultRetryAfter = 10 * second"

definition NewCatalog :: "string \<Rightarrow> catalog" where
  "NewCatalog url = \<lparr>ct_url = url, ct_bidsURL = [], ct_models = None, ct_byName = [], ct_byID = [], ct_fetchedAt = zero_time,
     ct_ttl = 5 * minute, ct_retryAfter = DefaultRetryAfter, ct_lastErr = None, ct_lastErrAt = zero_time, ct_excluded = {},
     ct_health = \<lparr>hh_bids = None, hh_bidsErr = None, hh_bidsErrAt = zero_time, hh_detail = None, hh_detailErr = None,
       hh_detailErrAt = zero_time, hh_modelsLastUpdated = 0, hh_modelsHasStamp = False, hh_logs = []\<rparr>\<rparr>"

definition SetRetryAfter :: "dur \<Rightarrow> catalog \<Rightarrow> catalog" where
  "SetRetryAfter d c = c\<lparr>ct_retryAfter := d\<rparr>"

definition WithBidsURL :: "string \<Rightarrow> catalog \<Rightarrow> catalog" where
  "WithBidsURL url c = c\<lparr>ct_bidsURL := url\<rparr>"

definition Loaded :: "catalog \<Rightarrow> bool" where "Loaded c \<longleftrightarrow> ct_models c \<noteq> None"

definition ExcludeProviders :: "string list \<Rightarrow> catalog \<Rightarrow> catalog" where
  "ExcludeProviders provs c =
     (let ex = set (filter (\<lambda>p. p \<noteq> []) (map (\<lambda>p. to_lower (trim p)) provs));
          c1 = c\<lparr>ct_excluded := ex\<rparr>
      in case ct_models c of
           None \<Rightarrow> c1
         | Some ms \<Rightarrow> (case indexLocked ms ex of (n, i) \<Rightarrow> c1\<lparr>ct_byName := n, ct_byID := i\<rparr>))"

text \<open>\<open>state\<close>: nothing to do (with the error to return), or a fetch is due.\<close>

definition models_state :: "time \<Rightarrow> catalog \<Rightarrow> feed_class option option" where
  "models_state now c =
     (if ct_models c \<noteq> None \<and> now - ct_fetchedAt c < ct_ttl c then Some None
      else (case ct_lastErr c of
              Some e \<Rightarrow> if now - ct_lastErrAt c < ct_retryAfter c
                then Some (if ct_models c \<noteq> None then None else Some e) else None
            | None \<Rightarrow> None))"

definition bidsState :: "time \<Rightarrow> catalog \<Rightarrow> bool \<times> bool" where
  "bidsState now c =
     (let h = ct_health c; known = (hh_bids h \<noteq> None \<or> hh_detail h \<noteq> None)
      in (ct_bidsURL c \<noteq> [] \<and>
          \<not> (case hh_bids h of Some s \<Rightarrow> now - hs_fetchedAt s < ct_ttl c | None \<Rightarrow> False) \<and>
          \<not> (hh_bidsErr h \<noteq> None \<and> now - hh_bidsErrAt h < ct_retryAfter c), known))"

text \<open>The locked part of \<open>refreshModels\<close> after a fetch: the new state and the caller's error.\<close>

definition apply_models ::
  "feed_class + model list option \<times> detail_parse \<Rightarrow> time \<Rightarrow> catalog \<Rightarrow> feed_class option \<times> catalog" where
  "apply_models r now c =
     (case r of
        Inl e \<Rightarrow>
          (if ct_models c \<noteq> None then None else Some e,
           c\<lparr>ct_lastErr := Some e, ct_lastErrAt := now, ct_health := detailFailed e now (ct_health c)\<rparr>)
      | Inr (models, detail) \<Rightarrow>
          (let (byName, byID) = indexLocked (case models of None \<Rightarrow> [] | Some ms \<Rightarrow> ms) (ct_excluded c);
               c1 = c\<lparr>ct_models := models, ct_byName := byName, ct_byID := byID, ct_fetchedAt := now, ct_lastErr := None\<rparr>;
               (derr, h) = applyDetail detail now (ct_health c1);
               c2 = c1\<lparr>ct_health := h\<rparr>
           in (None, case derr of None \<Rightarrow> c2 | Some e \<Rightarrow> c2\<lparr>ct_lastErr := Some e, ct_lastErrAt := now\<rparr>)))"

subsection \<open>Fetching\<close>

text \<open>
  The HTTP client's answer: none, or a status, whether the transport decompressed it, the announced length
  (-1: unknown), the bytes of the body and whether reading fails after them. Redirects are not followed.
\<close>

datatype http_answer = NoAnswer | HttpAnswer int bool int string bool

definition fetchFeed :: "http_answer \<Rightarrow> feed_class + string" where
  "fetchFeed a =
     (case a of
        NoAnswer \<Rightarrow> Inl FeedFetch
      | HttpAnswer status uncompressed announced body broken \<Rightarrow>
          if status \<ge> 300 \<and> status < 400 then Inl FeedRedirect
          else if status \<noteq> 200 then Inl FeedStatus
          else if \<not> uncompressed \<and> announced > int maxFeedBytes then Inl FeedOversize
          else if length body > maxFeedBytes then Inl FeedOversize
          else if broken then Inl FeedFetch
          else Inr body)"

text \<open>A models fetch: the parsed list and the bid details of the same body.\<close>

definition fetched_models :: "http_answer \<Rightarrow> time \<Rightarrow> feed_class + model list option \<times> detail_parse" where
  "fetched_models a now =
     (case fetchFeed a of
        Inl e \<Rightarrow> Inl e
      | Inr raw \<Rightarrow> (case parse_models raw of
            None \<Rightarrow> Inl FeedMalformed
          | Some ms \<Rightarrow> Inr (ms, parseBidDetail raw now)))"

definition fetched_bids :: "http_answer \<Rightarrow> time \<Rightarrow> feed_class + health_snap \<times> health_counts" where
  "fetched_bids a now = (case fetchFeed a of Inl e \<Rightarrow> Inl e | Inr raw \<Rightarrow> parseBidsFeed raw now)"

subsection \<open>Callers\<close>

text \<open>
  The state a caller runs in: the catalog, the world, whether this caller holds a fetch lock, and the log of
  the models and bids fetches with their start times (bookkeeping of the model). The fetch locks are \<open>sync.Mutex\<close>es; who else
  holds one is the world's: \<open>ck_try\<close> says whether \<open>TryLock\<close> succeeds, and before every section the other
  callers take steps, that see whether this caller holds a lock (\<open>ck_others\<close>). \<open>Lock\<close> returns after further
  such steps.
\<close>

record 'w cat_sys =
  cs_cat :: catalog
  cs_world :: 'w
  cs_models_lock :: bool
  cs_bids_lock :: bool
  cs_models_log :: "time list"
  cs_bids_log :: "time list"

record 'w cat_env =
  ck_now :: "'w \<Rightarrow> time"
  ck_others :: "'w cat_sys \<Rightarrow> 'w cat_sys"
  ck_try :: "'w cat_sys \<Rightarrow> bool"
  ck_get :: "string \<Rightarrow> 'w \<Rightarrow> http_answer \<times> 'w"

type_synonym ('w, 'a) cat_act = "('w cat_sys, 'a) state"

definition cat_do :: "'w cat_env \<Rightarrow> (time \<Rightarrow> catalog \<Rightarrow> 'a \<times> catalog) \<Rightarrow> ('w, 'a) cat_act" where
  "cat_do K f = State (\<lambda>s. let s1 = ck_others K s in
     case f (ck_now K (cs_world s1)) (cs_cat s1) of (a, c) \<Rightarrow> (a, s1\<lparr>cs_cat := c\<rparr>))"

abbreviation cat_get :: "'w cat_env \<Rightarrow> (time \<Rightarrow> catalog \<Rightarrow> 'a) \<Rightarrow> ('w, 'a) cat_act" where
  "cat_get K f \<equiv> cat_do K (\<lambda>t c. (f t c, c))"

definition try_models :: "'w cat_env \<Rightarrow> ('w, bool) cat_act" where
  "try_models K = State (\<lambda>s. let s1 = ck_others K s in
     if ck_try K s1 then (True, s1\<lparr>cs_models_lock := True\<rparr>) else (False, s1))"

definition lock_models :: "'w cat_env \<Rightarrow> ('w, unit) cat_act" where
  "lock_models K = State (\<lambda>s. ((), (ck_others K s)\<lparr>cs_models_lock := True\<rparr>))"

definition unlock_models :: "('w, unit) cat_act" where
  "unlock_models = State (\<lambda>s. ((), s\<lparr>cs_models_lock := False\<rparr>))"

definition try_bids :: "'w cat_env \<Rightarrow> ('w, bool) cat_act" where
  "try_bids K = State (\<lambda>s. let s1 = ck_others K s in
     if ck_try K s1 then (True, s1\<lparr>cs_bids_lock := True\<rparr>) else (False, s1))"

definition lock_bids :: "'w cat_env \<Rightarrow> ('w, unit) cat_act" where
  "lock_bids K = State (\<lambda>s. ((), (ck_others K s)\<lparr>cs_bids_lock := True\<rparr>))"

definition unlock_bids :: "('w, unit) cat_act" where
  "unlock_bids = State (\<lambda>s. ((), s\<lparr>cs_bids_lock := False\<rparr>))"

definition get_models :: "'w cat_env \<Rightarrow> ('w, http_answer) cat_act" where
  "get_models K = State (\<lambda>s. let s1 = ck_others K s in
     case ck_get K (ct_url (cs_cat s1)) (cs_world s1) of
       (a, w) \<Rightarrow> (a, s1\<lparr>cs_world := w, cs_models_log := ck_now K (cs_world s1) # cs_models_log s1\<rparr>))"

definition get_bids :: "'w cat_env \<Rightarrow> ('w, http_answer) cat_act" where
  "get_bids K = State (\<lambda>s. let s1 = ck_others K s in
     case ck_get K (ct_bidsURL (cs_cat s1)) (cs_world s1) of
       (a, w) \<Rightarrow> (a, s1\<lparr>cs_world := w, cs_bids_log := ck_now K (cs_world s1) # cs_bids_log s1\<rparr>))"

text \<open>With the fetch lock: look again, fetch, publish.\<close>

definition models_locked :: "'w cat_env \<Rightarrow> ('w, feed_class option) cat_act" where
  "models_locked K = do {
     st \<leftarrow> cat_get K models_state;
     r \<leftarrow> (case st of
         Some err \<Rightarrow> ret err
       | None \<Rightarrow> do {
           a \<leftarrow> get_models K;
           t \<leftarrow> cat_get K (\<lambda>t c. t);
           cat_do K (apply_models (fetched_models a t)) });
     _ \<leftarrow> unlock_models;
     ret r }"

definition refreshModels :: "'w cat_env \<Rightarrow> ('w, feed_class option) cat_act" where
  "refreshModels K = do {
     st \<leftarrow> cat_get K models_state;
     (case st of
        Some err \<Rightarrow> ret err
      | None \<Rightarrow> do {
          got \<leftarrow> try_models K;
          if got then models_locked K
          else do {
            l \<leftarrow> cat_get K (\<lambda>t. Loaded);
            if l then ret None else do { _ \<leftarrow> lock_models K; models_locked K } } }) }"

definition bids_locked :: "'w cat_env \<Rightarrow> ('w, unit) cat_act" where
  "bids_locked K = do {
     st \<leftarrow> cat_get K bidsState;
     _ \<leftarrow> (if \<not> fst st then ret ()
          else do {
            a \<leftarrow> get_bids K;
            now \<leftarrow> cat_get K (\<lambda>t c. t);
            cat_do K (\<lambda>t c. ((), c\<lparr>ct_health := applyBids (fetched_bids a now) now (ct_health c)\<rparr>)) });
     unlock_bids }"

definition refreshBids :: "'w cat_env \<Rightarrow> ('w, unit) cat_act" where
  "refreshBids K = do {
     st \<leftarrow> cat_get K bidsState;
     (if \<not> fst st then ret ()
      else do {
        got \<leftarrow> try_bids K;
        if got then bids_locked K
        else if snd st then ret ()
        else do { _ \<leftarrow> lock_bids K; bids_locked K } }) }"

definition ensureFresh :: "'w cat_env \<Rightarrow> ('w, feed_class option) cat_act" where
  "ensureFresh K = do {
     err \<leftarrow> refreshModels K;
     _ \<leftarrow> refreshBids K;
     _ \<leftarrow> cat_do K (\<lambda>t c. case checkStale (if ct_models c = None then None else Some (ct_fetchedAt c)) t (ct_health c) of
          (ls, h) \<Rightarrow> (ls, c\<lparr>ct_health := h\<rparr>));
     ret err }"

subsection \<open>Lookups\<close>

datatype resolve_err = FeedError feed_class | NotInCatalog string

definition Resolve :: "'w cat_env \<Rightarrow> string \<Rightarrow> ('w, resolve_err + string) cat_act" where
  "Resolve K nameOrID =
     (if has_prefix nameOrID ''0x'' then ret (Inr nameOrID)
      else do {
        err \<leftarrow> ensureFresh K;
        (case err of
           Some e \<Rightarrow> ret (Inl (FeedError e))
         | None \<Rightarrow> cat_get K (\<lambda>t c. case mget (ct_byName c) (to_lower nameOrID) of
             Some i \<Rightarrow> Inr i | None \<Rightarrow> Inl (NotInCatalog nameOrID))) })"

definition List_models :: "'w cat_env \<Rightarrow> ('w, feed_class + model list) cat_act" where
  "List_models K = do {
     err \<leftarrow> ensureFresh K;
     (case err of
        Some e \<Rightarrow> ret (Inl e)
      | None \<Rightarrow> cat_get K (\<lambda>t c. Inr (withoutExcluded (case ct_models c of None \<Rightarrow> [] | Some ms \<Rightarrow> ms) (ct_excluded c)))) }"

definition NameByID :: "'w cat_env \<Rightarrow> string \<Rightarrow> ('w, string) cat_act" where
  "NameByID K i = do {
     err \<leftarrow> ensureFresh K;
     (case err of
        Some e \<Rightarrow> ret []
      | None \<Rightarrow> cat_get K (\<lambda>t c. case mget (ct_byID c) (to_lower i) of Some n \<Rightarrow> n | None \<Rightarrow> [])) }"

definition HealthyBidIDs :: "'w cat_env \<Rightarrow> string \<Rightarrow> ('w, string set option) cat_act" where
  "HealthyBidIDs K modelID = do {
     _ \<leftarrow> ensureFresh K;
     cat_get K (\<lambda>t c. healthy_ids (ct_health c) modelID) }"

definition FeedStates :: "'w cat_env \<Rightarrow> ('w, feed_state \<times> feed_state \<times> health_source) cat_act" where
  "FeedStates K = cat_get K (\<lambda>t c. feedStates (if ct_models c = None then None else Some (ct_fetchedAt c)) t (ct_health c))"

end
