(* ===== verification/Catalog_Props.thy ===== *)
theory Catalog_Props
  imports Catalog "HOL-Library.Product_Lexorder"
begin

section \<open>What the catalog's answers are\<close>

text \<open>
  The list price is the least healthy price, a shared name goes to the row that no other row of the name
  beats (an instance of the best choice of the prelude), excluded providers are never priced; and the
  refresh keeps to its pace whatever the feeds answer.
\<close>

subsection \<open>The list price\<close>

definition priced :: "bool \<Rightarrow> bid_detail list \<Rightarrow> bid_detail list" where
  "priced onlyHealthy bs = filter (\<lambda>b. (onlyHealthy \<longrightarrow> isHealthy (bd_Status b)) \<and> bidWei b \<noteq> None) bs"

definition cheaper :: "bid_detail \<times> int \<Rightarrow> bid_detail \<times> int \<Rightarrow> bid_detail \<times> int" where
  "cheaper x y = (if snd y < snd x then y else x)"

interpretation cheapest: best_choice cheaper snd
  by unfold_locales (simp add: cheaper_def)

lemma pick_bid_some:
  "pick_bid h bs (Some x) = Some (foldl cheaper x (map (\<lambda>b. (b, the (bidWei b))) (priced h bs)))"
proof (induction bs arbitrary: x)
  case (Cons b bs)
  then show ?case by (cases x) (auto simp: priced_def cheaper_def split: option.split)
qed (simp add: priced_def)

lemma pick_bid_none:
  "pick_bid h bs None = (case map (\<lambda>b. (b, the (bidWei b))) (priced h bs) of [] \<Rightarrow> None | x # xs \<Rightarrow> Some (foldl cheaper x xs))"
proof (induction bs)
  case (Cons b bs)
  then show ?case using pick_bid_some [of h bs "(b, the (bidWei b))"] by (auto simp: priced_def split: option.split)
qed (simp add: priced_def)

lemma pick_bid_best:
  "case pick_bid h bs None of
     None \<Rightarrow> priced h bs = []
   | Some (b, n) \<Rightarrow> b \<in> set (priced h bs) \<and> bidWei b = Some n \<and> (\<forall>c \<in> set (priced h bs). n \<le> the (bidWei c))"
proof (cases "priced h bs")
  case Nil
  then show ?thesis by (simp add: pick_bid_none)
next
  case (Cons c cs)
  let ?w = "\<lambda>b. (b, the (bidWei b))"
  let ?r = "foldl cheaper (?w c) (map ?w cs)"
  have "?r \<in> ?w ` set (priced h bs)" using cheapest.fold_mem [of "?w c" "map ?w cs"] by (auto simp: Cons)
  moreover have "snd ?r \<le> the (bidWei d)" if "d \<in> set (priced h bs)" for d
    using cheapest.fold_least [of "?w d" "?w c" "map ?w cs"] that by (auto simp: Cons)
  moreover have "pick_bid h bs None = Some ?r" by (simp add: pick_bid_none Cons)
  ultimately show ?thesis by (cases ?r) (auto simp: priced_def)
qed

text \<open>
  The list price. A model's lowest bid is a healthy bid with a positive price that no healthy bid of it
  undercuts; only a model without such a bid shows its cheapest positive bid of any status; and it shows
  none exactly when no bid has a positive price.
\<close>

theorem LowestBid_best:
  "case LowestBid m of
     None \<Rightarrow> priced False (md_BidDetail m) = []
   | Some b \<Rightarrow> (let h = (priced True (md_BidDetail m) \<noteq> []) in b \<in> set (priced h (md_BidDetail m)) \<and>
       (\<exists>n > 0. bidWei b = Some n \<and> (\<forall>c \<in> set (priced h (md_BidDetail m)). n \<le> the (bidWei c))))"
proof -
  have pos: "bidWei b = Some n \<Longrightarrow> n > 0" for b n by (auto simp: bidWei_def split: option.splits if_splits)
  have sub: "priced True bs = []" if "priced False bs = []" for bs using that by (auto simp: priced_def filter_empty_conv)
  show ?thesis
    using pick_bid_best [of True "md_BidDetail m"] pick_bid_best [of False "md_BidDetail m"] pos sub
    by (auto simp: LowestBid_def Let_def split: option.splits) (metis empty_iff list.set(1))+
qed

lemma min_wei_pick: "min_wei bs (map_option snd best) = map_option snd (pick_bid True bs best)"
proof (induction bs arbitrary: best)
  case (Cons b bs)
  show ?case
  proof (cases "isHealthy (bd_Status b) \<and> bidWei b \<noteq> None")
    case True
    then obtain n where n: "bidWei b = Some n" by auto
    with True Cons.IH [of "case best of None \<Rightarrow> Some (b, n) | Some (c, q) \<Rightarrow> if n < q then Some (b, n) else best"] show ?thesis
      by (cases best) (auto split: prod.splits)
  qed (use Cons.IH in \<open>auto split: option.splits\<close>)
qed simp

lemma healthyBidWei_pick: "healthyBidWei m = map_option snd (pick_bid True (md_BidDetail m) None)"
  using min_wei_pick [of "md_BidDetail m" None] by (simp add: healthyBidWei_def)

subsection \<open>Shared names\<close>

text \<open>What a row is ranked by: a healthy price first, then any price, then the id.\<close>

definition model_key :: "model \<Rightarrow> nat \<times> int \<times> string" where
  "model_key m = (case healthyBidWei m of
     Some n \<Rightarrow> (0, n, to_lower (md_ID m))
   | None \<Rightarrow> (case LowestPricePerSecondWei m of
       Some n \<Rightarrow> if n > 0 then (1, n, to_lower (md_ID m)) else (2, 0, to_lower (md_ID m))
     | None \<Rightarrow> (2, 0, to_lower (md_ID m))))"

lemma preferModel_key: "preferModel a b \<longleftrightarrow> model_key a < model_key b"
  by (cases "healthyBidWei a"; cases "healthyBidWei b"; cases "LowestPricePerSecondWei a"; cases "LowestPricePerSecondWei b")
    (auto simp: preferModel_def model_key_def Let_def less_prod_def')

definition preferred :: "model \<Rightarrow> model \<Rightarrow> model" where
  "preferred a b = (if preferModel b a then b else a)"

interpretation shared_name: best_choice preferred model_key
  by unfold_locales (simp add: preferred_def preferModel_key)

definition named :: "string \<Rightarrow> model list \<Rightarrow> model list" where
  "named k ms = filter (\<lambda>m. to_lower (md_Name m) = k) ms"

lemma fold_index_some:
  "mget (fst x) k = Some b \<Longrightarrow> mget (fst (fold index_row ms x)) k = Some (foldl preferred b (named k ms))"
proof (induction ms arbitrary: x b)
  case (Cons m ms)
  obtain c i where x: "x = (c, i)" by (cases x)
  have "mget (fst (index_row m x)) k = Some (if to_lower (md_Name m) = k then preferred b m else b)"
    using Cons.prems by (auto simp: x index_row_def preferred_def split: option.split)
  from Cons.IH [OF this] show ?case by (simp add: named_def)
qed (simp add: named_def)

lemma fold_index_none:
  "mget (fst x) k = None \<Longrightarrow> mget (fst (fold index_row ms x)) k =
     (case named k ms of [] \<Rightarrow> None | m # rest \<Rightarrow> Some (foldl preferred m rest))"
proof (induction ms arbitrary: x)
  case (Cons m ms)
  obtain c i where x: "x = (c, i)" by (cases x)
  show ?case
  proof (cases "to_lower (md_Name m) = k")
    case True
    then have "mget (fst (index_row m x)) k = Some m" using Cons.prems by (auto simp: x index_row_def)
    from fold_index_some [OF this] True show ?thesis by (simp add: named_def)
  next
    case False
    then have "mget (fst (index_row m x)) k = None" using Cons.prems by (auto simp: x index_row_def split: option.split)
    from Cons.IH [OF this] False show ?thesis by (simp add: named_def)
  qed
qed (simp add: named_def)

lemma mget_map_value: "mget (map (\<lambda>(k, v). (k, f v)) (mitems m)) k = map_option f (mget m k)"
proof -
  have "map_of (map (\<lambda>(k, v). (k, f v)) xs) k = map_option f (map_of xs k)" for xs by (induction xs) auto
  from this [of "mitems m"] show ?thesis by (simp add: mget_def [of "map _ _"])
qed

lemma byName_choice:
  "mget (fst (indexModels ms)) k =
     (case named k ms of [] \<Rightarrow> None | m # rest \<Rightarrow> Some (md_ID (foldl preferred m rest)))"
proof -
  obtain c i where f: "fold index_row ms ([], []) = (c, i)" by (cases "fold index_row ms ([], [])")
  from fold_index_none [of "([], [])" k ms] f have "mget c k = (case named k ms of [] \<Rightarrow> None | m # rest \<Rightarrow> Some (foldl preferred m rest))"
    by simp
  then show ?thesis by (simp add: indexModels_def f mget_map_value split: list.split)
qed

text \<open>
  A shared name resolves to its best row. The index maps a name to the id of one of its rows, and no
  row of the name is preferred to it (cheapest healthy bid, else cheapest bid, else lowest id); with
  distinct ids the answer does not depend on the order of the feed.
\<close>

theorem shared_name_best:
  "(case mget (fst (indexModels ms)) k of
      None \<Rightarrow> named k ms = []
    | Some i \<Rightarrow> \<exists>m \<in> set (named k ms). md_ID m = i \<and> \<not> list_ex (\<lambda>m'. preferModel m' m) (named k ms)) \<and>
   (if set ms = set ms' \<and> inj_on (\<lambda>m. to_lower (md_ID m)) (set ms)
    then mget (fst (indexModels ms)) k = mget (fst (indexModels ms')) k else True)"
proof (cases "named k ms")
  case Nil
  moreover have "named k ms' = []" if "set ms = set ms'" using Nil that by (auto simp: named_def filter_empty_conv)
  ultimately show ?thesis by (auto simp: byName_choice)
next
  case (Cons m rest)
  let ?b = "foldl preferred m rest"
  have "?b \<in> set (named k ms)" using shared_name.fold_mem [of m rest] by (auto simp: Cons)
  moreover have "\<not> preferModel x ?b" if "x \<in> set (named k ms)" for x
    using shared_name.fold_least [of x m rest] that by (auto simp: Cons preferModel_key not_less)
  moreover have "md_ID ?b = md_ID (foldl preferred m' rest')"
    if s: "set ms = set ms'" and i: "inj_on (\<lambda>m. to_lower (md_ID m)) (set ms)" and n: "named k ms' = m' # rest'" for m' rest'
  proof -
    have "insert m (set rest) = set (named k ms)" "insert m' (set rest') = set (named k ms')" by (simp_all add: Cons n)
    with s have e: "insert m (set rest) = insert m' (set rest')" by (auto simp: named_def)
    have "snd (snd (model_key x)) = to_lower (md_ID x)" for x by (auto simp: model_key_def split: option.split)
    then have "inj_on model_key (set ms)" using i unfolding inj_on_def by metis
    then have "inj_on model_key (insert m (set rest))"
      by (rule inj_on_subset) (use Cons in \<open>auto simp: named_def filter_eq_Cons_iff\<close>)
    from shared_name.fold_unique [OF e this] show ?thesis by simp
  qed
  moreover have "named k ms' \<noteq> []" if "set ms = set ms'"
    using Cons that by (metis (no_types, lifting) filter_empty_conv list.distinct(1) named_def)
  ultimately show ?thesis by (auto simp: byName_choice Cons list_ex_iff neq_Nil_conv)
qed

subsection \<open>Exclusions\<close>

lemma withoutExcluded_none [simp]: "withoutExcluded ms {} = ms"
  by (induction ms) (simp_all add: withoutExcluded_def)

lemma mget_fold_mput: "mget (fold (\<lambda>(k, i). mput k i) xs m) k = (case map_of (rev xs) k of Some i \<Rightarrow> Some i | None \<Rightarrow> mget m k)"
proof (induction xs arbitrary: m)
  case (Cons x xs)
  then show ?case by (cases x) (auto simp: map_add_def split: option.split)
qed simp

lemma map_of_rev_mitems: "map_of (rev (mitems m)) k = mget m k"
proof -
  have "map_of (rev (mitems m)) = map_of (mitems m)"
    by (subst map_of_inject_set) (simp_all add: rev_map [symmetric])
  then show ?thesis by simp
qed

definition allowed :: "string set \<Rightarrow> model \<Rightarrow> bid_detail list" where
  "allowed ex m = filter (\<lambda>b. to_lower (trim (bd_ProviderID b)) \<notin> ex) (md_BidDetail m)"

lemma visible_rows:
  "set (withoutExcluded ms ex) = (\<lambda>m. m\<lparr>md_BidDetail := allowed ex m\<rparr>) ` {m \<in> set ms. md_BidDetail m = [] \<or> allowed ex m \<noteq> []}"
proof (induction ms)
  case (Cons m ms)
  have "withoutExcluded (m # ms) ex =
      (if md_BidDetail m = [] \<or> allowed ex m \<noteq> [] then m\<lparr>md_BidDetail := allowed ex m\<rparr> # withoutExcluded ms ex else withoutExcluded ms ex)"
    by (cases "ex = {}"; cases "md_BidDetail m = []") (simp_all add: withoutExcluded_def allowed_def Let_def)
  with Cons show ?case by auto
qed (simp add: withoutExcluded_def)

text \<open>
  Excluded providers are never priced. No listed row carries a bid of an excluded provider, a row is
  listed exactly when the feed gives it no bid at all or one of another provider, and a name resolves among
  the listed rows when there is one, else as without exclusions.
\<close>

theorem excluded_never_priced:
  "(\<forall>m \<in> set (withoutExcluded ms ex). list_all (\<lambda>b. to_lower (trim (bd_ProviderID b)) \<notin> ex) (md_BidDetail m)) \<and>
   set (map md_ID (withoutExcluded ms ex)) =
     {md_ID m |m. m \<in> set ms \<and> (md_BidDetail m = [] \<or> (\<exists>b \<in> set (md_BidDetail m). to_lower (trim (bd_ProviderID b)) \<notin> ex))} \<and>
   mget (fst (indexLocked ms ex)) k =
     (case mget (fst (indexModels (withoutExcluded ms ex))) k of Some i \<Rightarrow> Some i | None \<Rightarrow> mget (fst (indexModels ms)) k)"
proof -
  have "mget (fst (indexLocked ms ex)) k =
     (case mget (fst (indexModels (withoutExcluded ms ex))) k of Some i \<Rightarrow> Some i | None \<Rightarrow> mget (fst (indexModels ms)) k)"
    by (auto simp: indexLocked_def mget_fold_mput map_of_rev_mitems split: prod.splits option.split)
  moreover have "list_all (\<lambda>b. to_lower (trim (bd_ProviderID b)) \<notin> ex) (md_BidDetail m)" if "m \<in> set (withoutExcluded ms ex)" for m
    using that by (auto simp: visible_rows allowed_def list_all_iff)
  moreover have "md_ID ` set (withoutExcluded ms ex) =
     {md_ID m |m. m \<in> set ms \<and> (md_BidDetail m = [] \<or> (\<exists>b \<in> set (md_BidDetail m). to_lower (trim (bd_ProviderID b)) \<notin> ex))}"
    (is "?ids = ?shown")
  proof -
    have "allowed ex m \<noteq> [] \<longleftrightarrow> (\<exists>b \<in> set (md_BidDetail m). to_lower (trim (bd_ProviderID b)) \<notin> ex)" for m :: model
      by (auto simp: allowed_def filter_empty_conv)
    moreover have "?ids = md_ID ` {m \<in> set ms. md_BidDetail m = [] \<or> allowed ex m \<noteq> []}"
      unfolding visible_rows image_image by simp
    ultimately show ?thesis by auto
  qed
  ultimately show ?thesis by simp
qed

subsection \<open>The pace of the fetches\<close>

text \<open>
  A log of fetch start times, the latest first, keeps a pace of \<open>gap\<close>. The catalog has \<open>settled\<close> a fetch
  started at \<open>t\<close> when its outcome is recorded: the pause of a failure, or a list, no earlier than \<open>t\<close>.
\<close>

definition paced :: "dur \<Rightarrow> time list \<Rightarrow> bool" where
  "paced gap log \<longleftrightarrow> sorted_wrt (\<lambda>later earlier. earlier + gap \<le> later) log"

definition settled :: "time \<Rightarrow> catalog \<Rightarrow> bool" where
  "settled t c \<longleftrightarrow> (case ct_lastErr c of Some e \<Rightarrow> t \<le> ct_lastErrAt c | None \<Rightarrow> ct_models c \<noteq> None \<and> t \<le> ct_fetchedAt c)"

abbreviation time_of :: "'w cat_env \<Rightarrow> 'w cat_sys \<Rightarrow> time" where
  "time_of K s \<equiv> ck_now K (cs_world s)"

text \<open>Between fetches; with a fetch running that started at the head of the log; and what fetches depend on.\<close>

definition at_rest :: "'w cat_env \<Rightarrow> dur \<Rightarrow> 'w cat_sys \<Rightarrow> bool" where
  "at_rest K gap s \<longleftrightarrow> paced gap (cs_models_log s) \<and> gap \<le> ct_ttl (cs_cat s) \<and> gap \<le> ct_retryAfter (cs_cat s) \<and>
     (case cs_models_log s of [] \<Rightarrow> True | t # ts \<Rightarrow> settled t (cs_cat s))"

definition fetching :: "'w cat_env \<Rightarrow> dur \<Rightarrow> 'w cat_sys \<Rightarrow> bool" where
  "fetching K gap s \<longleftrightarrow> cs_models_lock s \<and> paced gap (cs_models_log s) \<and> gap \<le> ct_ttl (cs_cat s) \<and> gap \<le> ct_retryAfter (cs_cat s) \<and>
     (case cs_models_log s of [] \<Rightarrow> False | t # ts \<Rightarrow> t \<le> time_of K s)"

definition fetch_state :: "catalog \<Rightarrow> model list option \<times> time \<times> dur \<times> dur \<times> feed_class option \<times> time" where
  "fetch_state c = (ct_models c, ct_fetchedAt c, ct_ttl c, ct_retryAfter c, ct_lastErr c, ct_lastErrAt c)"

text \<open>
  What is assumed of the clock and of the other callers: time does not go back; they do not touch this
  caller's lock, start no fetch and publish no list while it holds it, and otherwise keep the pace too.
\<close>

definition fair :: "'w cat_env \<Rightarrow> dur \<Rightarrow> bool" where
  "fair K gap \<longleftrightarrow> 0 \<le> gap \<and> (\<forall>s. time_of K s \<le> time_of K (ck_others K s) \<and> cs_models_lock (ck_others K s) = cs_models_lock s \<and>
     (cs_models_lock s \<longrightarrow> cs_models_log (ck_others K s) = cs_models_log s \<and>
        fetch_state (cs_cat (ck_others K s)) = fetch_state (cs_cat s)) \<and>
     (\<not> cs_models_lock s \<longrightarrow> at_rest K gap s \<longrightarrow> at_rest K gap (ck_others K s))) \<and>
     (\<forall>url w. ck_now K w \<le> ck_now K (snd (ck_get K url w)))"

lemma settled_cong: "fetch_state c = fetch_state c' \<Longrightarrow> settled t c = settled t c'"
  by (simp add: fetch_state_def settled_def split: option.split)

lemma at_rest_cong:
  "cs_models_log s = cs_models_log s' \<Longrightarrow> fetch_state (cs_cat s) = fetch_state (cs_cat s') \<Longrightarrow> at_rest K gap s = at_rest K gap s'"
  using settled_cong [of "cs_cat s" "cs_cat s'"] by (auto simp: at_rest_def fetch_state_def split: list.split)

lemma fair_rest:
  assumes "fair K gap" and "at_rest K gap s" shows "at_rest K gap (ck_others K s)"
proof (cases "cs_models_lock s")
  case True
  with assms(1) have "cs_models_log (ck_others K s) = cs_models_log s" "fetch_state (cs_cat (ck_others K s)) = fetch_state (cs_cat s)"
    unfolding fair_def by blast+
  from at_rest_cong [OF this] assms(2) show ?thesis by simp
next
  case False
  with assms show ?thesis unfolding fair_def by blast
qed

lemma fair_fetching: "fair K gap \<Longrightarrow> fetching K gap s \<Longrightarrow> fetching K gap (ck_others K s)"
  unfolding fair_def fetching_def fetch_state_def by (auto split: list.splits intro: order_trans)

lemma fair_lock [simp]: "fair K gap \<Longrightarrow> cs_models_lock (ck_others K s) = cs_models_lock s"
  unfolding fair_def by blast

lemma fair_get: "fair K gap \<Longrightarrow> ck_get K url w = (a, w') \<Longrightarrow> ck_now K w \<le> ck_now K w'"
  unfolding fair_def by (metis snd_conv)

lemma same_cat [simp]: "at_rest K gap (s\<lparr>cs_cat := cs_cat s\<rparr>) = at_rest K gap s" "fetching K gap (s\<lparr>cs_cat := cs_cat s\<rparr>) = fetching K gap s"
  by simp_all

text \<open>Sections that leave the list and its times alone keep the pace, with or without the lock.\<close>

lemma rest_section:
  assumes "fair K gap" and "\<And>t c. fetch_state (snd (f t c)) = fetch_state c"
  shows "keeps (at_rest K gap) (cat_do K f)" "keeps (\<lambda>s. at_rest K gap s \<and> cs_models_lock s) (cat_do K f)"
proof -
  have "at_rest K gap (snd (run_state (cat_do K f) s)) \<and> cs_models_lock (snd (run_state (cat_do K f) s)) = cs_models_lock s"
    if "at_rest K gap s" for s
  proof -
    let ?s = "ck_others K s"
    obtain a c where f: "f (time_of K ?s) (cs_cat ?s) = (a, c)" by fastforce
    then have "fetch_state c = fetch_state (cs_cat ?s)" using assms(2) [of "time_of K ?s" "cs_cat ?s"] by simp
    with at_rest_cong [of "?s\<lparr>cs_cat := c\<rparr>" ?s K gap] fair_rest [OF assms(1) that] f assms(1) show ?thesis
      by (simp add: cat_do_def Let_def)
  qed
  then show "keeps (at_rest K gap) (cat_do K f)" "keeps (\<lambda>s. at_rest K gap s \<and> cs_models_lock s) (cat_do K f)"
    by (simp_all add: keeps_def)
qed

lemma rest_updates [simp]:
  "at_rest K gap (s\<lparr>cs_models_lock := b\<rparr>) = at_rest K gap s" "at_rest K gap (s\<lparr>cs_bids_lock := b\<rparr>) = at_rest K gap s"
  "at_rest K gap (s\<lparr>cs_world := w, cs_bids_log := l\<rparr>) = at_rest K gap s"
  by (simp_all add: at_rest_def split: list.split)

lemma rest_locks:
  assumes "fair K gap"
  shows "triple (at_rest K gap) (try_models K) (\<lambda>got s. at_rest K gap s \<and> (got \<longrightarrow> cs_models_lock s))"
    "triple (at_rest K gap) (lock_models K) (\<lambda>_ s. at_rest K gap s \<and> cs_models_lock s)"
    "triple (at_rest K gap) unlock_models (\<lambda>_. at_rest K gap)"
    "keeps (at_rest K gap) (try_bids K)" "keeps (at_rest K gap) (lock_bids K)" "keeps (at_rest K gap) unlock_bids"
    "keeps (at_rest K gap) (get_bids K)"
proof -
  note r = fair_rest [OF assms]
  show "triple (at_rest K gap) (try_models K) (\<lambda>got s. at_rest K gap s \<and> (got \<longrightarrow> cs_models_lock s))"
    "triple (at_rest K gap) (lock_models K) (\<lambda>_ s. at_rest K gap s \<and> cs_models_lock s)"
    "triple (at_rest K gap) unlock_models (\<lambda>_. at_rest K gap)"
    by (simp_all add: triple_def try_models_def lock_models_def unlock_models_def Let_def r)
  show "keeps (at_rest K gap) (try_bids K)" "keeps (at_rest K gap) (lock_bids K)" "keeps (at_rest K gap) unlock_bids"
    "keeps (at_rest K gap) (get_bids K)"
    by (simp_all add: keeps_def try_bids_def lock_bids_def unlock_bids_def get_bids_def Let_def r split: prod.split)
qed

text \<open>A fetch is due only when the pace allows it.\<close>

definition due :: "'w cat_env \<Rightarrow> dur \<Rightarrow> 'w cat_sys \<Rightarrow> bool" where
  "due K gap s \<longleftrightarrow> (case cs_models_log s of [] \<Rightarrow> True | t # ts \<Rightarrow> t + gap \<le> time_of K s)"

lemma state_due:
  assumes "models_state now c = None" and "settled t c" and "gap \<le> ct_ttl c" and "gap \<le> ct_retryAfter c"
  shows "t + gap \<le> now"
  using assms by (auto simp: models_state_def settled_def split: if_splits option.splits)

lemma rest_state:
  assumes "fair K gap"
  shows "triple (\<lambda>s. at_rest K gap s \<and> cs_models_lock s) (cat_get K models_state)
    (\<lambda>st s. (at_rest K gap s \<and> cs_models_lock s) \<and> (st = None \<longrightarrow> due K gap s))"
  unfolding triple_def
proof (intro allI impI)
  fix s assume s: "at_rest K gap s \<and> cs_models_lock s"
  let ?s = "ck_others K s"
  have r: "at_rest K gap ?s" "cs_models_lock ?s" using fair_rest [OF assms] s assms by auto
  moreover have "due K gap ?s" if "models_state (time_of K ?s) (cs_cat ?s) = None"
    using state_due [OF that] r(1) by (auto simp: due_def at_rest_def split: list.split)
  ultimately show "case run_state (cat_get K models_state) s of (st, s) \<Rightarrow>
      (at_rest K gap s \<and> cs_models_lock s) \<and> (st = None \<longrightarrow> due K gap s)"
    by (simp add: cat_do_def Let_def)
qed

lemma rest_get_models:
  assumes F: "fair K gap"
  shows "triple (\<lambda>s. (at_rest K gap s \<and> cs_models_lock s) \<and> due K gap s) (get_models K) (\<lambda>_. fetching K gap)"
  unfolding triple_def
proof (intro allI impI)
  fix s assume s: "(at_rest K gap s \<and> cs_models_lock s) \<and> due K gap s"
  let ?s = "ck_others K s"
  have r: "at_rest K gap ?s" "cs_models_lock ?s" using fair_rest [OF F] s F by auto
  from F s have same: "cs_models_log ?s = cs_models_log s" and t: "time_of K s \<le> time_of K ?s" unfolding fair_def by blast+
  then have d: "due K gap ?s" using s by (auto simp: due_def split: list.splits)
  obtain a w where g: "ck_get K (ct_url (cs_cat ?s)) (cs_world ?s) = (a, w)" by fastforce
  have le: "time_of K ?s \<le> ck_now K w" by (rule fair_get [OF F g])
  have "paced gap (time_of K ?s # cs_models_log ?s)"
    using r(1) d F by (cases "cs_models_log ?s") (auto simp: at_rest_def due_def paced_def fair_def)
  with r g le show "case run_state (get_models K) s of (_, s) \<Rightarrow> fetching K gap s"
    by (simp add: get_models_def Let_def fetching_def at_rest_def)
qed

text \<open>Bid details that can be used come from a models file with a list of models.\<close>

lemma no_details: "slice_field ''models'' kvs = Some [] \<Longrightarrow> Option.bind (json_parse raw) as_object = Some kvs \<Longrightarrow>
   dp_snap (parseBidDetail raw t) \<noteq> Inr snap"
  by (cases "feedStamp (raw_field ''last_updated'' kvs) t") (simp_all add: parseBidDetail_def count_rows_def no_counts_def)

lemma no_list:
  assumes "parse_models raw = Some None"
  obtains kvs where "Option.bind (json_parse raw) as_object = Some kvs" and "slice_field ''models'' kvs = Some []"
proof -
  obtain kvs where kvs: "Option.bind (json_parse raw) as_object = Some kvs"
    using assms by (cases "Option.bind (json_parse raw) as_object") (simp_all add: parse_models_def)
  obtain vs where vs: "slice_field ''models'' kvs = Some vs"
    using assms kvs by (cases "slice_field ''models'' kvs") (simp_all add: parse_models_def)
  have "\<not> (\<exists>vs. raw_field ''models'' kvs = Some (JArr vs))"
    using assms kvs by (auto simp: parse_models_def split: option.splits)
  with vs have "vs = []"
    by (simp add: slice_field_def split: if_splits option.splits json.splits)
  with kvs vs that show ?thesis by blast
qed

lemma details_need_models:
  assumes "fetched_models a t = Inr (ms, d)" and "dp_snap d = Inr snap"
  shows "ms \<noteq> None"
proof
  assume "ms = None"
  with assms(1) obtain raw where raw: "d = parseBidDetail raw t" "parse_models raw = Some None"
    by (auto simp: fetched_models_def split: sum.splits option.splits)
  from raw(2) obtain kvs where "Option.bind (json_parse raw) as_object = Some kvs" "slice_field ''models'' kvs = Some []"
    by (rule no_list)
  with no_details [of kvs raw t snap] assms(2) raw(1) show False by blast
qed

lemma applyDetail_fails: "fst (applyDetail d now h) = None \<Longrightarrow> \<exists>snap. dp_snap d = Inr snap"
  by (auto simp: applyDetail_def Let_def split: sum.splits prod.splits option.splits)

lemma apply_pauses [simp]:
  "ct_ttl (snd (apply_models r now c)) = ct_ttl c" "ct_retryAfter (snd (apply_models r now c)) = ct_retryAfter c"
  by (auto simp: apply_models_def Let_def split: sum.split prod.split option.split)

lemma apply_settles:
  assumes "t \<le> now"
  shows "settled t (snd (apply_models (fetched_models a t0) now c))"
proof (cases "fetched_models a t0")
  case (Inr x)
  obtain ms d where x: "x = (ms, d)" by (cases x)
  obtain n i where ix: "indexLocked (case ms of None \<Rightarrow> [] | Some ms \<Rightarrow> ms) (ct_excluded c) = (n, i)" by fastforce
  obtain e h where ad: "applyDetail d now (ct_health c) = (e, h)" by fastforce
  have "e = None \<Longrightarrow> ms \<noteq> None"
    using applyDetail_fails [of d now "ct_health c"] ad details_need_models [OF Inr [unfolded x]] by auto
  then show ?thesis using assms by (auto simp: apply_models_def Inr x ix ad settled_def Let_def split: option.split)
qed (use assms in \<open>simp add: apply_models_def settled_def\<close>)

lemma fetching_section:
  assumes "fair K gap"
  shows "keeps (fetching K gap) (cat_get K f)"
  using fair_fetching [OF assms] by (simp add: keeps_def cat_do_def Let_def)

lemma fetching_apply:
  assumes F: "fair K gap"
  shows "triple (fetching K gap) (cat_do K (apply_models (fetched_models a t0))) (\<lambda>_ s. at_rest K gap s \<and> cs_models_lock s)"
  unfolding triple_def
proof (intro allI impI)
  fix s assume "fetching K gap s"
  then have f: "fetching K gap (ck_others K s)" by (rule fair_fetching [OF F])
  let ?s = "ck_others K s"
  obtain e c where a: "apply_models (fetched_models a t0) (time_of K ?s) (cs_cat ?s) = (e, c)" by fastforce
  obtain t ts where l: "cs_models_log ?s = t # ts" "t \<le> time_of K ?s" using f by (auto simp: fetching_def split: list.splits)
  from apply_settles [OF l(2), of a t0 "cs_cat ?s"] apply_pauses [of "fetched_models a t0" "time_of K ?s" "cs_cat ?s"]
  have "settled t c" "ct_ttl c = ct_ttl (cs_cat ?s)" "ct_retryAfter c = ct_retryAfter (cs_cat ?s)" by (simp_all add: a)
  with f l show "case run_state (cat_do K (apply_models (fetched_models a t0))) s of (_, s) \<Rightarrow> at_rest K gap s \<and> cs_models_lock s"
    by (simp add: cat_do_def Let_def a at_rest_def fetching_def)
qed

lemma rest_models_locked:
  assumes F: "fair K gap"
  shows "triple (\<lambda>s. at_rest K gap s \<and> cs_models_lock s) (models_locked K) (\<lambda>_. at_rest K gap)"
  unfolding models_locked_def
proof (rule triple_bind [OF rest_state [OF F]], rule triple_bind [where R = "\<lambda>_ s. at_rest K gap s \<and> cs_models_lock s"], rule triple_option)
  fix st :: "feed_class option option" and err
  show "triple (\<lambda>s. (at_rest K gap s \<and> cs_models_lock s) \<and> (st = None \<longrightarrow> due K gap s)) (ret err) (\<lambda>_ s. at_rest K gap s \<and> cs_models_lock s)"
    by (rule triple_ret) simp
next
  fix st :: "feed_class option option" assume st: "st = None"
  have "triple (\<lambda>s. (at_rest K gap s \<and> cs_models_lock s) \<and> due K gap s)
      (do { a \<leftarrow> get_models K; t \<leftarrow> cat_get K (\<lambda>t c. t); cat_do K (apply_models (fetched_models a t)) })
      (\<lambda>_ s. at_rest K gap s \<and> cs_models_lock s)"
    by (rule triple_bind [OF rest_get_models [OF F]], rule triple_seq [OF fetching_section [OF F]], rule fetching_apply [OF F])
  then show "triple (\<lambda>s. (at_rest K gap s \<and> cs_models_lock s) \<and> (st = None \<longrightarrow> due K gap s))
      (do { a \<leftarrow> get_models K; t \<leftarrow> cat_get K (\<lambda>t c. t); cat_do K (apply_models (fetched_models a t)) })
      (\<lambda>_ s. at_rest K gap s \<and> cs_models_lock s)"
    by (simp add: st)
next
  fix r :: "feed_class option"
  have "triple (at_rest K gap) (do { _ \<leftarrow> unlock_models; ret r }) (\<lambda>_. at_rest K gap)"
    by (intro triple_bind [OF rest_locks(3) [OF F]] triple_ret)
  then show "triple (\<lambda>s. at_rest K gap s \<and> cs_models_lock s) (do { _ \<leftarrow> unlock_models; ret r }) (\<lambda>_. at_rest K gap)"
    by (rule triple_weaken) simp_all
qed

lemma rest_get: "fair K gap \<Longrightarrow> keeps (at_rest K gap) (cat_get K f)"
  by (rule rest_section) simp_all

lemma rest_refreshModels:
  assumes F: "fair K gap"
  shows "keeps (at_rest K gap) (refreshModels K)"
proof -
  have locked: "triple (at_rest K gap) (do { _ \<leftarrow> lock_models K; models_locked K }) (\<lambda>_. at_rest K gap)"
    by (rule triple_bind [OF rest_locks(2) [OF F] rest_models_locked [OF F]])
  have wait: "triple (at_rest K gap)
      (do { l \<leftarrow> cat_get K (\<lambda>t. Loaded); if l then ret None else do { _ \<leftarrow> lock_models K; models_locked K } }) (\<lambda>_. at_rest K gap)"
    by (rule triple_seq [OF rest_get [OF F]]) (simp add: locked triple_ret)
  have "triple (at_rest K gap)
      (do { got \<leftarrow> try_models K;
            if got then models_locked K
            else do { l \<leftarrow> cat_get K (\<lambda>t. Loaded); if l then ret None else do { _ \<leftarrow> lock_models K; models_locked K } } })
      (\<lambda>_. at_rest K gap)"
    by (rule triple_bind [OF rest_locks(1) [OF F]]) (auto intro: triple_if triple_weaken [OF rest_models_locked [OF F]] triple_weaken [OF wait])
  then have "triple (at_rest K gap) (refreshModels K) (\<lambda>_. at_rest K gap)"
    unfolding refreshModels_def by (intro triple_seq [OF rest_get [OF F]] triple_option triple_ret)
  then show ?thesis by (simp add: triple_def keeps_def split: prod.splits) (metis prod.collapse)
qed

lemma keeps_locked_bids:
  assumes F: "fair K gap"
  shows "keeps (at_rest K gap) (bids_locked K)"
proof -
  have "keeps (at_rest K gap) (cat_do K (\<lambda>t c. ((), c\<lparr>ct_health := applyBids r now (ct_health c)\<rparr>)))" for r now
    by (rule rest_section [OF F]) (simp add: fetch_state_def)
  then show ?thesis
    unfolding bids_locked_def by (intro keeps_intro rest_get [OF F] rest_locks [OF F])
qed

lemma keeps_refreshBids: "fair K gap \<Longrightarrow> keeps (at_rest K gap) (refreshBids K)"
  unfolding refreshBids_def by (intro keeps_intro rest_get rest_locks keeps_locked_bids)

lemma keeps_ensureFresh:
  assumes F: "fair K gap"
  shows "keeps (at_rest K gap) (ensureFresh K)"
proof -
  have "keeps (at_rest K gap) (cat_do K (\<lambda>t c. case checkStale (if ct_models c = None then None else Some (ct_fetchedAt c)) t (ct_health c) of
          (ls, h) \<Rightarrow> (ls, c\<lparr>ct_health := h\<rparr>)))"
    by (rule rest_section [OF F]) (simp add: fetch_state_def split: prod.split)
  then show ?thesis
    unfolding ensureFresh_def by (intro keeps_intro rest_refreshModels [OF F] keeps_refreshBids [OF F])
qed

text \<open>The entry points of the rest of the program, and a list of calls.\<close>

datatype cat_call = CallResolve string | CallList | CallName string | CallHealthy string | CallFeeds
  | CallExclude "string list"

definition cat_call :: "'w cat_env \<Rightarrow> cat_call \<Rightarrow> ('w, unit) cat_act" where
  "cat_call K q =
     (case q of
        CallResolve n \<Rightarrow> do { _ \<leftarrow> Resolve K n; ret () }
      | CallList \<Rightarrow> do { _ \<leftarrow> List_models K; ret () }
      | CallName i \<Rightarrow> do { _ \<leftarrow> NameByID K i; ret () }
      | CallHealthy i \<Rightarrow> do { _ \<leftarrow> HealthyBidIDs K i; ret () }
      | CallFeeds \<Rightarrow> do { _ \<leftarrow> FeedStates K; ret () }
      | CallExclude ps \<Rightarrow> cat_do K (\<lambda>t c. ((), ExcludeProviders ps c)))"

primrec cat_calls :: "'w cat_env \<Rightarrow> cat_call list \<Rightarrow> ('w, unit) cat_act" where
  "cat_calls K [] = ret ()"
| "cat_calls K (q # qs) = do { _ \<leftarrow> cat_call K q; cat_calls K qs }"

lemma keeps_cat_call:
  assumes F: "fair K gap"
  shows "keeps (at_rest K gap) (cat_call K q)"
proof -
  have ex: "keeps (at_rest K gap) (cat_do K (\<lambda>t c. ((), ExcludeProviders ps c)))" for ps
    by (rule rest_section [OF F]) (simp add: fetch_state_def ExcludeProviders_def Let_def split: option.split prod.split)
  have "keeps (at_rest K gap) (Resolve K n)" "keeps (at_rest K gap) (List_models K)" "keeps (at_rest K gap) (NameByID K n)"
    "keeps (at_rest K gap) (HealthyBidIDs K n)" "keeps (at_rest K gap) (FeedStates K)" for n
    unfolding Resolve_def List_models_def NameByID_def HealthyBidIDs_def FeedStates_def
    by (intro keeps_intro keeps_ensureFresh [OF F] rest_get [OF F])+
  then show ?thesis using ex by (cases q) (auto simp: cat_call_def intro!: keeps_intro)
qed

lemma keeps_cat_calls: "fair K gap \<Longrightarrow> keeps (at_rest K gap) (cat_calls K qs)"
  by (induction qs) (auto intro!: keeps_intro keeps_cat_call)


text \<open>A clock that every section advances by four seconds, and a server that never answers.\<close>

definition dead_feed :: "int cat_env" where
  "dead_feed = \<lparr>ck_now = (\<lambda>w. w), ck_others = (\<lambda>s. s\<lparr>cs_world := cs_world s + 4 * second\<rparr>), ck_try = (\<lambda>s. True),
     ck_get = (\<lambda>url w. (NoAnswer, w + second))\<rparr>"

definition fresh_sys :: "int cat_sys" where
  "fresh_sys = \<lparr>cs_cat = NewCatalog ''u'', cs_world = 0, cs_models_lock = False, cs_bids_lock = False, cs_models_log = [], cs_bids_log = []\<rparr>"


end
