(* ===== verification/Keys.thy ===== *)
theory Keys
  imports Admin_Sessions State_Rules
begin

section \<open>API keys (\<open>internal/keymaker/keymaker.go\<close>)\<close>

text \<open>
  Generated and imported keys and their stored form, and the two keys derived from the seed. HMAC and
  SHA-256 are parameters; the random bytes of \<open>NewKey\<close> are inputs. Hex coding is the one of the sessions.
\<close>

definition MasterKeyID :: string where "MasterKeyID = ''master''"
definition PromptKeyID :: string where "PromptKeyID = ''prompt''"

record key_rec =
  kr_ID :: string
  kr_Name :: string
  kr_Prefix :: string
  kr_Hash :: string
  kr_Secret :: string
  kr_CreatedAt :: time
  kr_RevokedAt :: "time option"

definition derive :: "(string \<Rightarrow> string \<Rightarrow> string) \<Rightarrow> string \<Rightarrow> string \<Rightarrow> string \<Rightarrow> string" where
  "derive mac seed label prefix = prefix @ take 48 (hex_encode (mac seed label))"

definition MasterKey :: "(string \<Rightarrow> string \<Rightarrow> string) \<Rightarrow> string \<Rightarrow> string" where
  "MasterKey mac seed = derive mac seed ''uplink-master-key-v1'' ''sk-uplink.''"

definition PromptKey :: "(string \<Rightarrow> string \<Rightarrow> string) \<Rightarrow> string \<Rightarrow> string" where
  "PromptKey mac seed = derive mac seed ''uplink-prompt-key-v1'' ''sk-prompt.''"

definition Hash :: "(string \<Rightarrow> string) \<Rightarrow> string \<Rightarrow> string" where
  "Hash sha full = hex_encode (sha full)"

text \<open>\<open>Equal\<close> is a byte comparison (in constant time).\<close>

definition Equal :: "string \<Rightarrow> string \<Rightarrow> bool" where
  "Equal presented master \<longleftrightarrow> presented = master"

definition NewKey :: "(string \<Rightarrow> string) \<Rightarrow> time \<Rightarrow> string \<Rightarrow> string \<Rightarrow> string \<Rightarrow> string \<times> key_rec" where
  "NewKey sha now idBytes secretBytes name =
     (let i = hex_encode idBytes; full = ''sk-'' @ i @ ''.'' @ hex_encode secretBytes
      in (full, \<lparr>kr_ID = i, kr_Name = name, kr_Prefix = take 12 full, kr_Hash = Hash sha full, kr_Secret = full,
            kr_CreatedAt = now, kr_RevokedAt = None\<rparr>))"

text \<open>\<open>strings.IndexByte\<close>: the position of a character, if any.\<close>

definition index_byte :: "string \<Rightarrow> char \<Rightarrow> nat option" where
  "index_byte s c = (if c \<in> set s then Some (length (takeWhile (\<lambda>x. x \<noteq> c) s)) else None)"

definition key_id :: "(string \<Rightarrow> string) \<Rightarrow> string \<Rightarrow> string" where
  "key_id sha full =
     (let rest = drop 3 full in
      case index_byte rest (CHR ''.'') of
        Some i \<Rightarrow> if 0 < i \<and> i \<le> 16 then take i rest else take 8 (Hash sha full)
      | None \<Rightarrow> take 8 (Hash sha full))"

definition ImportKey :: "(string \<Rightarrow> string) \<Rightarrow> time \<Rightarrow> string \<Rightarrow> string \<Rightarrow> key_rec option" where
  "ImportKey sha now name full0 =
     (let full = trim full0 in
      if \<not> has_prefix full ''sk-'' \<or> length full < 16 then None
      else Some \<lparr>kr_ID = key_id sha full, kr_Name = name, kr_Prefix = take 12 full, kr_Hash = Hash sha full, kr_Secret = full,
             kr_CreatedAt = now, kr_RevokedAt = None\<rparr>)"

subsection \<open>A key that was issued can be imported\<close>

definition is_hex :: "char \<Rightarrow> bool" where
  "is_hex c \<longleftrightarrow> c \<in> set ''0123456789abcdef''"

lemma hex_digit_is_hex: "n < 16 \<Longrightarrow> is_hex (hex_digit n)"
proof -
  have "list_all (\<lambda>n. is_hex (hex_digit n)) [0..<16]" by code_simp
  then show "n < 16 \<Longrightarrow> is_hex (hex_digit n)" by (simp add: list_all_iff)
qed

lemma hex_encode_is_hex: "list_all is_hex (hex_encode s)"
proof (induction s)
  case (Cons c s)
  have "(of_char c :: nat) < 256" by (rule nat_of_char_less_256)
  then have "(of_char c :: nat) div 16 < 16" by (simp add: less_mult_imp_div_less)
  then show ?case using Cons by (simp add: hex_digit_is_hex)
qed simp

lemma length_hex_encode [simp]: "length (hex_encode s) = 2 * length s"
  by (induction s) simp_all

lemma is_hex_plain: "is_hex c \<Longrightarrow> c \<noteq> CHR ''.'' \<and> c \<noteq> CHR ''|'' \<and> \<not> is_space c"
proof -
  have "list_all (\<lambda>c. c \<noteq> CHR ''.'' \<and> c \<noteq> CHR ''|'' \<and> \<not> is_space c) ''0123456789abcdef''" by code_simp
  then show "is_hex c \<Longrightarrow> c \<noteq> CHR ''.'' \<and> c \<noteq> CHR ''|'' \<and> \<not> is_space c" unfolding is_hex_def list_all_iff by blast
qed

lemma index_byte_append: "c \<notin> set s \<Longrightarrow> index_byte (s @ c # t) c = Some (length s)"
  by (simp add: index_byte_def, induction s) auto

text \<open>
  Import restores an issued key. A full key that \<open>NewKey\<close> returned, pasted with any white space around
  it, imports to the record it had (under the new name and time), so a console can restore keys after the
  store was lost.
\<close>

theorem import_restores_issued:
  assumes "length idBytes = 4" and "length secretBytes = 24" and "list_all is_space before" and "list_all is_space after"
  shows "ImportKey sha later name' (before @ fst (NewKey sha now idBytes secretBytes name) @ after) =
    Some ((snd (NewKey sha now idBytes secretBytes name))\<lparr>kr_Name := name', kr_CreatedAt := later\<rparr>)"
proof -
  define full where "full = ''sk-'' @ hex_encode idBytes @ ''.'' @ hex_encode secretBytes"
  have n: "NewKey sha now idBytes secretBytes name = (full, \<lparr>kr_ID = hex_encode idBytes, kr_Name = name, kr_Prefix = take 12 full,
      kr_Hash = Hash sha full, kr_Secret = full, kr_CreatedAt = now, kr_RevokedAt = None\<rparr>)"
    by (simp only: NewKey_def full_def Let_def)
  have s: "hex_encode secretBytes \<noteq> []" using assms(2) by (metis length_0_conv length_hex_encode mult_is_0 zero_neq_numeral)
  then have l: "\<not> is_space (last full)"
    using is_hex_plain hex_encode_is_hex [of secretBytes] last_in_set [OF s] by (auto simp: full_def list_all_iff)
  have "\<not> is_space (hd full)" by (simp add: full_def is_space_def)
  with l have t: "trim (before @ full @ after) = full"
    using assms(3,4) by (intro trim_pasted) (simp_all add: full_def)
  have "CHR ''.'' \<notin> set (hex_encode idBytes)" using is_hex_plain hex_encode_is_hex [of idBytes] by (auto simp: list_all_iff)
  then have "index_byte (drop 3 full) (CHR ''.'') = Some 8" using index_byte_append assms(1) by (simp add: full_def)
  then have "key_id sha full = hex_encode idBytes" using assms(1) by (simp add: key_id_def full_def)
  moreover have "has_prefix full ''sk-''" "\<not> length full < 16"
    using has_prefix_append assms(1,2) by (simp_all only: full_def) simp
  ultimately show ?thesis by (simp only: n ImportKey_def Let_def fst_conv snd_conv t) simp
qed

lemma import_restores_issued_witness:
  "ImportKey (\<lambda>s. s) 7 ''b'' ('' '' @ fst (NewKey (\<lambda>s. s) 3 ''abcd'' (replicate 24 CHR ''x'') ''a'') @ '' '') =
    Some ((snd (NewKey (\<lambda>s. s) 3 ''abcd'' (replicate 24 CHR ''x'') ''a''))\<lparr>kr_Name := ''b'', kr_CreatedAt := 7\<rparr>)"
  by (rule import_restores_issued) (simp_all add: is_space_def)

end
