(* ===== verification/State_File.thy ===== *)
theory State_File
  imports State_Rules
begin

section \<open>The state file (\<open>internal/store/store.go\<close>)\<close>

text \<open>
  The data directory as the store uses it, and the write of the state file: a temporary file in the same
  directory that is written, synced and renamed over it. The operating system is modelled by what POSIX
  promises: directory entries that name inodes, data that is durable only once it was synced, a rename that
  is atomic, and calls that can fail (\<open>io_faults\<close>: \<open>Some n\<close> is a failure of the next call, a write after \<open>n\<close>
  bytes). \<open>io_hist\<close> keeps every disk the calls went through, because the process can stop at any of them.
\<close>

subsection \<open>The disk\<close>

datatype kind = Regular | Symlink | Directory | Special

text \<open>\<open>nd_safe\<close> is the durable content, when what is on the disk is known to be complete.\<close>

record node =
  nd_kind :: kind
  nd_data :: string
  nd_safe :: "string option"
  nd_mode :: nat
  nd_mtime :: time

text \<open>The entries as programs see them and those that survive a crash, and the inodes.\<close>

record disk =
  dk_dir :: "(string \<times> nat) list"
  dk_safe :: "(string \<times> nat) list"
  dk_nodes :: "(nat \<times> node) list"
  dk_next :: nat

record io =
  io_disk :: disk
  io_hist :: "disk list"
  io_faults :: "nat option list"
  io_suffixes :: "string list"
  io_now :: time

type_synonym 'a io_act = "(io, 'a) state"

definition look :: "disk \<Rightarrow> string \<Rightarrow> node option" where
  "look d name = Option.bind (mget (dk_dir d) name) (mget (dk_nodes d))"

subsection \<open>Calls\<close>

definition sys_call :: "(disk \<Rightarrow> 'a \<times> disk) \<Rightarrow> (nat \<Rightarrow> disk \<Rightarrow> disk) \<Rightarrow> 'a option io_act" where
  "sys_call good bad = State (\<lambda>s.
     case io_faults s of
       Some n # fs \<Rightarrow> (let d = bad n (io_disk s) in (None, s\<lparr>io_disk := d, io_hist := d # io_hist s, io_faults := fs\<rparr>))
     | fs \<Rightarrow> (case good (io_disk s) of
         (a, d) \<Rightarrow> (Some a, s\<lparr>io_disk := d, io_hist := d # io_hist s, io_faults := tl fs\<rparr>)))"

definition upd_node :: "nat \<Rightarrow> (node \<Rightarrow> node) \<Rightarrow> disk \<Rightarrow> disk" where
  "upd_node i f d = (case mget (dk_nodes d) i of None \<Rightarrow> d | Some nd \<Rightarrow> d\<lparr>dk_nodes := mput i (f nd) (dk_nodes d)\<rparr>)"

definition lstat :: "string \<Rightarrow> kind option option io_act" where
  "lstat name = sys_call (\<lambda>d. (map_option nd_kind (look d name), d)) (\<lambda>n d. d)"

definition state_file :: string where "state_file = ''uplink-state.json''"

definition temp_name :: "string \<Rightarrow> string" where
  "temp_name suffix = state_file @ ''.'' @ suffix @ ''.tmp''"

text \<open>\<open>os.CreateTemp\<close>: the first random name not in use (\<open>O_EXCL\<close>), mode 0600.\<close>

definition new_file :: "time \<Rightarrow> string \<Rightarrow> disk \<Rightarrow> disk" where
  "new_file now name d =
     d\<lparr>dk_dir := mput name (dk_next d) (dk_dir d), dk_next := Suc (dk_next d),
       dk_nodes := mput (dk_next d) \<lparr>nd_kind = Regular, nd_data = [], nd_safe = None, nd_mode = 384, nd_mtime = now\<rparr> (dk_nodes d)\<rparr>"

definition create_temp :: "time \<Rightarrow> string list \<Rightarrow> disk \<Rightarrow> (string \<times> nat) option \<times> disk" where
  "create_temp now suffixes d =
     (case filter (\<lambda>n. mget (dk_dir d) n = None) (map temp_name suffixes) of
        [] \<Rightarrow> (None, d)
      | n # ns \<Rightarrow> (Some (n, dk_next d), new_file now n d))"

definition createTemp :: "(string \<times> nat) option option io_act" where
  "createTemp = State (\<lambda>s. run_state (sys_call (create_temp (io_now s) (io_suffixes s)) (\<lambda>n d. d)) s)"

definition write_data :: "time \<Rightarrow> string \<Rightarrow> node \<Rightarrow> node" where
  "write_data now raw nd = nd\<lparr>nd_data := raw, nd_safe := None, nd_mtime := now\<rparr>"

definition write_call :: "nat \<Rightarrow> string \<Rightarrow> unit option io_act" where
  "write_call i raw = State (\<lambda>s. run_state
     (sys_call (\<lambda>d. ((), upd_node i (write_data (io_now s) raw) d))
        (\<lambda>n. upd_node i (write_data (io_now s) (take n raw)))) s)"

definition chmod_call :: "nat \<Rightarrow> nat \<Rightarrow> unit option io_act" where
  "chmod_call i mode = sys_call (\<lambda>d. ((), upd_node i (\<lambda>nd. nd\<lparr>nd_mode := mode\<rparr>) d)) (\<lambda>n d. d)"

definition sync_call :: "nat \<Rightarrow> unit option io_act" where
  "sync_call i = sys_call (\<lambda>d. ((), upd_node i (\<lambda>nd. nd\<lparr>nd_safe := Some (nd_data nd)\<rparr>) d)) (\<lambda>n d. d)"

text \<open>A call without an effect on what is modelled: the close, opening the directory, making it when it is there.\<close>

definition plain_call :: "unit option io_act" where
  "plain_call = sys_call (\<lambda>d. ((), d)) (\<lambda>n d. d)"

text \<open>\<open>os.Rename\<close> in the directory: refused over a directory or without a source.\<close>

definition rename_entry :: "string \<Rightarrow> string \<Rightarrow> disk \<Rightarrow> bool \<times> disk" where
  "rename_entry old new d =
     (case mget (dk_dir d) old of
        None \<Rightarrow> (False, d)
      | Some i \<Rightarrow> if map_option nd_kind (look d new) = Some Directory then (False, d)
                else (True, d\<lparr>dk_dir := mput new i (mdel old (dk_dir d))\<rparr>))"

definition rename_call :: "string \<Rightarrow> string \<Rightarrow> bool option io_act" where
  "rename_call old new = sys_call (rename_entry old new) (\<lambda>n d. d)"

definition remove_call :: "string \<Rightarrow> unit option io_act" where
  "remove_call name = sys_call (\<lambda>d. ((), d\<lparr>dk_dir := mdel name (dk_dir d)\<rparr>)) (\<lambda>n d. d)"

definition sync_dir_call :: "unit option io_act" where
  "sync_dir_call = sys_call (\<lambda>d. ((), d\<lparr>dk_safe := dk_dir d\<rparr>)) (\<lambda>n d. d)"

subsection \<open>Saving\<close>

text \<open>\<open>refuseSymlink\<close>: true when the file may be used.\<close>

definition refuseSymlink :: "string \<Rightarrow> bool io_act" where
  "refuseSymlink p = do {
     k \<leftarrow> lstat p;
     ret (case k of None \<Rightarrow> False | Some None \<Rightarrow> True | Some (Some kd) \<Rightarrow> kd \<noteq> Symlink) }"

text \<open>From the write to the rename, each step only after the one before.\<close>

definition fill_temp :: "string \<Rightarrow> nat \<Rightarrow> string \<Rightarrow> bool io_act" where
  "fill_temp tmp i raw = do {
     w \<leftarrow> write_call i raw;
     (case w of
        None \<Rightarrow> ret False
      | Some _ \<Rightarrow> do {
          m \<leftarrow> chmod_call i 416;
          (case m of
             None \<Rightarrow> ret False
           | Some _ \<Rightarrow> do {
               y \<leftarrow> sync_call i;
               (case y of
                  None \<Rightarrow> ret False
                | Some _ \<Rightarrow> do {
                    c \<leftarrow> plain_call;
                    (case c of
                       None \<Rightarrow> ret False
                     | Some _ \<Rightarrow> do {
                         r \<leftarrow> rename_call tmp state_file;
                         ret (r = Some True) }) }) }) }) }"

definition save_raw :: "string \<Rightarrow> bool io_act" where
  "save_raw raw = do {
     ok \<leftarrow> refuseSymlink state_file;
     if \<not> ok then ret False
     else do {
       f \<leftarrow> createTemp;
       (case f of
          Some (Some (tmp, i)) \<Rightarrow> do {
            ok \<leftarrow> fill_temp tmp i raw;
            if ok then do {
              dh \<leftarrow> plain_call;
              _ \<leftarrow> (case dh of None \<Rightarrow> ret None | Some _ \<Rightarrow> sync_dir_call);
              ret True }
            else do {
              _ \<leftarrow> plain_call;
              _ \<leftarrow> remove_call tmp;
              ret False } }
        | _ \<Rightarrow> ret False) } }"

text \<open>\<open>save\<close>: the encoding can fail too.\<close>

definition save_file :: "string option \<Rightarrow> bool io_act" where
  "save_file enc = (case enc of None \<Rightarrow> ret False | Some raw \<Rightarrow> save_raw raw)"

text \<open>\<open>readNoFollow\<close>: the content, that there is no file, or an error.\<close>

datatype read_result = NoFile | ReadFailed | FileData string

definition readNoFollow :: "string \<Rightarrow> read_result io_act" where
  "readNoFollow p = do {
     r \<leftarrow> sys_call (\<lambda>d. (look d p, d)) (\<lambda>n d. d);
     ret (case r of
        None \<Rightarrow> ReadFailed
      | Some None \<Rightarrow> NoFile
      | Some (Some nd) \<Rightarrow> if nd_kind nd = Regular then FileData (nd_data nd) else ReadFailed) }"

subsection \<open>Orphaned temporary files\<close>

definition orphanTempMinAge :: dur where "orphanTempMinAge = 10 * minute"

text \<open>The regular expression \<open>^uplink-state\.json\.[0-9]+\.tmp$\<close>.\<close>

definition orphanTemp :: "string \<Rightarrow> bool" where
  "orphanTemp name \<longleftrightarrow>
     (let rest = drop (Suc (length state_file)) name; mid = take (length rest - 4) rest
      in has_prefix name (state_file @ ''.'') \<and> drop (length rest - 4) rest = ''.tmp'' \<and>
         mid \<noteq> [] \<and> list_all (\<lambda>c. c \<in> set ''0123456789'') mid)"

definition orphan_now :: "time \<Rightarrow> node \<Rightarrow> bool" where
  "orphan_now now nd \<longleftrightarrow> nd_kind nd = Regular \<and> \<not> now - nd_mtime nd < orphanTempMinAge"

primrec remove_orphans :: "time \<Rightarrow> string list \<Rightarrow> unit io_act" where
  "remove_orphans now [] = ret ()"
| "remove_orphans now (n # ns) = do {
     _ \<leftarrow> (if \<not> orphanTemp n then ret ()
          else do {
            nd \<leftarrow> sys_call (\<lambda>d. (look d n, d)) (\<lambda>k d. d);
            (case nd of
               Some (Some x) \<Rightarrow> if orphan_now now x then do { _ \<leftarrow> remove_call n; ret () } else ret ()
             | _ \<Rightarrow> ret ()) });
     remove_orphans now ns }"

definition removeOrphanTempsAt :: "time \<Rightarrow> unit io_act" where
  "removeOrphanTempsAt now = do {
     ents \<leftarrow> sys_call (\<lambda>d. (mkeys (dk_dir d), d)) (\<lambda>n d. d);
     (case ents of None \<Rightarrow> ret () | Some ns \<Rightarrow> remove_orphans now ns) }"

subsection \<open>What a crash leaves\<close>

text \<open>
  After a crash the state file is what its entry said before or after the changes that were not synced, with
  the durable data of that inode; data that was not synced can be anything. \<open>None\<close> is no file.
\<close>

definition crash_data :: "disk \<Rightarrow> nat option \<Rightarrow> string option set" where
  "crash_data d e = (case Option.bind e (mget (dk_nodes d)) of
     None \<Rightarrow> {None} | Some nd \<Rightarrow> (case nd_safe nd of Some x \<Rightarrow> {Some x} | None \<Rightarrow> UNIV))"

definition after_crash :: "disk \<Rightarrow> string option set" where
  "after_crash d = crash_data d (mget (dk_dir d) state_file) \<union> crash_data d (mget (dk_safe d) state_file)"

definition file_now :: "disk \<Rightarrow> string option" where
  "file_now d = map_option nd_data (look d state_file)"

text \<open>Inode numbers in use are below the next one; the state file is synced data or nothing.\<close>

definition disk_ok :: "disk \<Rightarrow> bool" where
  "disk_ok d \<longleftrightarrow> (\<forall>n i. mget (dk_dir d) n = Some i \<or> mget (dk_safe d) n = Some i \<longrightarrow> i < dk_next d)"

text \<open>\<open>calm A r s\<close>: whatever a crash leaves, then and at any time before, is in \<open>A\<close>, and the file reads \<open>r\<close>.\<close>

definition calm :: "string option set \<Rightarrow> string option \<Rightarrow> io \<Rightarrow> bool" where
  "calm A r s \<longleftrightarrow> disk_ok (io_disk s) \<and> after_crash (io_disk s) \<subseteq> A \<and> list_all (\<lambda>d. after_crash d \<subseteq> A) (io_hist s) \<and>
     file_now (io_disk s) = r"

text \<open>With a temporary file open, with this data and this durable data.\<close>

definition temp_open :: "string \<Rightarrow> nat \<Rightarrow> string \<Rightarrow> string option \<Rightarrow> disk \<Rightarrow> bool" where
  "temp_open tmp i x y d \<longleftrightarrow> tmp \<noteq> state_file \<and> mget (dk_dir d) tmp = Some i \<and> mget (dk_dir d) state_file \<noteq> Some i \<and>
     mget (dk_safe d) state_file \<noteq> Some i \<and> (\<exists>nd. mget (dk_nodes d) i = Some nd \<and> nd_data nd = x \<and> nd_safe nd = y)"

lemma sys_triple:
  assumes "\<And>s. P s \<Longrightarrow> case good (io_disk s) of (a, d) \<Rightarrow> Q (Some a) (s\<lparr>io_disk := d, io_hist := d # io_hist s, io_faults := tl (io_faults s)\<rparr>)"
    and "\<And>s n. P s \<Longrightarrow> Q None (s\<lparr>io_disk := bad n (io_disk s), io_hist := bad n (io_disk s) # io_hist s, io_faults := tl (io_faults s)\<rparr>)"
  shows "triple P (sys_call good bad) Q"
  unfolding triple_def
proof (intro allI impI)
  fix s assume P: "P s"
  obtain a d where g: "good (io_disk s) = (a, d)" by fastforce
  from assms(1) [OF P] assms(2) [OF P] show "case run_state (sys_call good bad) s of (r, s') \<Rightarrow> Q r s'"
    by (cases "io_faults s") (auto simp: sys_call_def Let_def g split: option.split)
qed

text \<open>A call that leaves the disk alone, and one that changes only a file that is not the state file.\<close>

lemma calm_same [simp]:
  "calm A r (s\<lparr>io_hist := io_disk s # io_hist s, io_faults := fs\<rparr>) = calm A r s"
  by (auto simp: calm_def)

lemma read_only: "triple (calm A r) (sys_call (\<lambda>d. (f d, d)) (\<lambda>n d. d)) (\<lambda>_. calm A r)"
  by (rule sys_triple) simp_all

lemma upd_node_parts [simp]:
  "dk_dir (upd_node i f d) = dk_dir d" "dk_safe (upd_node i f d) = dk_safe d" "dk_next (upd_node i f d) = dk_next d"
  "mget (dk_nodes (upd_node i f d)) j = (if j = i then map_option f (mget (dk_nodes d) i) else mget (dk_nodes d) j)"
  by (auto simp: upd_node_def split: option.split)

lemma upd_other:
  assumes "mget (dk_dir d) state_file \<noteq> Some i" and "mget (dk_safe d) state_file \<noteq> Some i"
  shows "after_crash (upd_node i f d) = after_crash d" "file_now (upd_node i f d) = file_now d" "disk_ok (upd_node i f d) = disk_ok d"
proof -
  have "Option.bind e (mget (dk_nodes (upd_node i f d))) = Option.bind e (mget (dk_nodes d))" if "e \<noteq> Some i" for e
    using that by (cases e) auto
  with assms show "after_crash (upd_node i f d) = after_crash d" "file_now (upd_node i f d) = file_now d"
    by (simp_all add: after_crash_def crash_data_def file_now_def look_def)
qed (simp add: disk_ok_def)

definition stage :: "string option set \<Rightarrow> string option \<Rightarrow> string \<Rightarrow> nat \<Rightarrow> string \<Rightarrow> string option \<Rightarrow> io \<Rightarrow> bool" where
  "stage A r tmp i x y s \<longleftrightarrow> calm A r s \<and> temp_open tmp i x y (io_disk s)"

lemma stage_upd:
  assumes "stage A r tmp i x y s" and "\<And>nd. nd_data nd = x \<Longrightarrow> nd_safe nd = y \<Longrightarrow> nd_data (f nd) = x' \<and> nd_safe (f nd) = y'"
  shows "stage A r tmp i x' y' (s\<lparr>io_disk := upd_node i f (io_disk s), io_hist := upd_node i f (io_disk s) # io_hist s, io_faults := fs\<rparr>)"
proof -
  from assms(1) have o: "mget (dk_dir (io_disk s)) state_file \<noteq> Some i" "mget (dk_safe (io_disk s)) state_file \<noteq> Some i"
    and nd: "\<exists>nd. mget (dk_nodes (io_disk s)) i = Some nd \<and> nd_data nd = x \<and> nd_safe nd = y"
    by (auto simp: stage_def temp_open_def)
  from assms(2) nd have "temp_open tmp i x' y' (upd_node i f (io_disk s))"
    using assms(1) by (auto simp: stage_def temp_open_def upd_node_def)
  then show ?thesis using assms(1) by (simp add: stage_def calm_def upd_other [OF o])
qed

abbreviation staged :: "string option set \<Rightarrow> string option \<Rightarrow> string \<Rightarrow> nat \<Rightarrow> io \<Rightarrow> bool" where
  "staged A r tmp i s \<equiv> \<exists>x y. stage A r tmp i x y s"

lemma temp_not_state [simp]: "temp_name suffix \<noteq> state_file"
  by (simp add: temp_name_def)

lemma new_file_stage:
  assumes "calm A r s" and "n \<noteq> state_file"
  shows "stage A r n (dk_next (io_disk s)) [] None
    (s\<lparr>io_disk := new_file now n (io_disk s), io_hist := new_file now n (io_disk s) # io_hist s, io_faults := fs\<rparr>)"
proof -
  let ?d = "io_disk s"
  have fresh: "mget (dk_dir ?d) k \<noteq> Some (dk_next ?d)" "mget (dk_safe ?d) k \<noteq> Some (dk_next ?d)" for k
    using assms(1) by (auto simp: calm_def disk_ok_def)
  have "Option.bind e (mget (dk_nodes (new_file now n ?d))) = Option.bind e (mget (dk_nodes ?d))" if "e \<noteq> Some (dk_next ?d)" for e
    using that by (cases e) (auto simp: new_file_def)
  then have "after_crash (new_file now n ?d) = after_crash ?d" "file_now (new_file now n ?d) = file_now ?d"
    using fresh assms(2) by (simp_all add: after_crash_def crash_data_def file_now_def look_def) (simp_all add: new_file_def)
  moreover have "disk_ok (new_file now n ?d)"
    using assms(1) by (auto simp: disk_ok_def new_file_def calm_def less_Suc_eq)
  moreover have "temp_open n (dk_next ?d) [] None (new_file now n ?d)"
    using fresh assms(2) by (simp add: temp_open_def new_file_def)
  ultimately show ?thesis using assms(1) by (simp add: stage_def calm_def)
qed

lemma createTemp_stage:
  "triple (calm A r) createTemp (\<lambda>f s. case f of Some (Some (tmp, i)) \<Rightarrow> stage A r tmp i [] None s | _ \<Rightarrow> calm A r s)"
proof -
  have "triple (\<lambda>s. calm A r s \<and> io_now s = now \<and> io_suffixes s = sf) (sys_call (create_temp now sf) (\<lambda>n d. d))
      (\<lambda>f s. case f of Some (Some (tmp, i)) \<Rightarrow> stage A r tmp i [] None s | _ \<Rightarrow> calm A r s)" for now sf
  proof (rule sys_triple)
    fix s assume s: "calm A r s \<and> io_now s = now \<and> io_suffixes s = sf"
    show "case create_temp now sf (io_disk s) of (a, d) \<Rightarrow>
        case Some a of Some (Some (tmp, i)) \<Rightarrow> stage A r tmp i [] None (s\<lparr>io_disk := d, io_hist := d # io_hist s, io_faults := tl (io_faults s)\<rparr>)
        | _ \<Rightarrow> calm A r (s\<lparr>io_disk := d, io_hist := d # io_hist s, io_faults := tl (io_faults s)\<rparr>)"
    proof (cases "filter (\<lambda>n. mget (dk_dir (io_disk s)) n = None) (map temp_name sf)")
      case (Cons n ns)
      then have "n \<in> set (map temp_name sf)" by (metis filter_is_subset list.set_intros(1) subsetD)
      with s Cons show ?thesis by (auto simp: create_temp_def intro: new_file_stage)
    qed (use s in \<open>simp add: create_temp_def\<close>)
  qed simp
  then show ?thesis by (auto simp: triple_def createTemp_def)
qed

lemma write_part: "staged A r tmp i s \<Longrightarrow> stage A r tmp i x None (s\<lparr>io_disk := upd_node i (write_data now x) (io_disk s),
    io_hist := upd_node i (write_data now x) (io_disk s) # io_hist s, io_faults := fs\<rparr>)"
  by (elim exE, erule stage_upd) (simp add: write_data_def)

lemma write_stage:
  "triple (staged A r tmp i) (write_call i raw) (\<lambda>w s. if w = None then staged A r tmp i s else stage A r tmp i raw None s)"
proof -
  have "triple (\<lambda>s. staged A r tmp i s) (sys_call (\<lambda>d. ((), upd_node i (write_data now raw) d)) (\<lambda>n. upd_node i (write_data now (take n raw))))
     (\<lambda>w s. if w = None then staged A r tmp i s else stage A r tmp i raw None s)" for now
    by (rule sys_triple) (simp_all add: write_part, blast intro: write_part)
  then show ?thesis by (auto simp: triple_def write_call_def)
qed

lemma chmod_stage: "triple (stage A r tmp i raw y) (chmod_call i m) (\<lambda>c s. stage A r tmp i raw y s)"
  unfolding chmod_call_def by (rule sys_triple) (simp_all add: stage_upd, simp add: stage_def)

lemma sync_stage:
  "triple (stage A r tmp i raw y) (sync_call i) (\<lambda>c s. if c = None then staged A r tmp i s else stage A r tmp i raw (Some raw) s)"
  unfolding sync_call_def by (rule sys_triple) (simp_all add: stage_upd, auto simp: stage_def)

lemma close_stage: "triple (stage A r tmp i x y) plain_call (\<lambda>_. stage A r tmp i x y)"
  unfolding plain_call_def by (rule sys_triple) (simp_all add: stage_def)

text \<open>The rename: the synced file becomes the state file.\<close>

lemma rename_stage:
  assumes "Some raw \<in> A"
  shows "triple (stage A r tmp i raw (Some raw)) (rename_call tmp state_file)
    (\<lambda>c s. if c = Some True then calm A (Some raw) s else staged A r tmp i s)"
  unfolding rename_call_def
proof (rule sys_triple)
  fix s assume s: "stage A r tmp i raw (Some raw) s"
  let ?d = "io_disk s"
  show "case rename_entry tmp state_file ?d of (a, d) \<Rightarrow>
      if Some a = Some True then calm A (Some raw) (s\<lparr>io_disk := d, io_hist := d # io_hist s, io_faults := tl (io_faults s)\<rparr>)
      else staged A r tmp i (s\<lparr>io_disk := d, io_hist := d # io_hist s, io_faults := tl (io_faults s)\<rparr>)"
  proof (cases "map_option nd_kind (look ?d state_file) = Some Directory")
    case True
    with s show ?thesis by (auto simp: rename_entry_def stage_def temp_open_def)
  next
    case False
    from s obtain nd where t: "mget (dk_dir ?d) tmp = Some i" "mget (dk_nodes ?d) i = Some nd" "nd_data nd = raw" "nd_safe nd = Some raw"
      and a: "after_crash ?d \<subseteq> A" and ok: "disk_ok ?d" by (auto simp: stage_def temp_open_def calm_def)
    let ?d' = "?d\<lparr>dk_dir := mput state_file i (mdel tmp (dk_dir ?d))\<rparr>"
    have "after_crash ?d' \<subseteq> A" using a t(2,4) assms by (auto simp: after_crash_def crash_data_def)
    moreover have "file_now ?d' = Some raw" using t(2,3) by (simp add: file_now_def look_def)
    moreover have "disk_ok ?d'" using ok t(1) by (auto simp: disk_ok_def)
    ultimately show ?thesis using s False t(1) by (auto simp: rename_entry_def stage_def calm_def)
  qed
qed (auto simp: stage_def)

lemma remove_stage: "triple (staged A r tmp i) (remove_call tmp) (\<lambda>_. calm A r)"
  unfolding remove_call_def
proof (rule sys_triple)
  fix s assume "staged A r tmp i s"
  then show "case ((), (io_disk s)\<lparr>dk_dir := mdel tmp (dk_dir (io_disk s))\<rparr>) of (a, d) \<Rightarrow>
      calm A r (s\<lparr>io_disk := d, io_hist := d # io_hist s, io_faults := tl (io_faults s)\<rparr>)"
    by (auto simp: stage_def temp_open_def calm_def after_crash_def crash_data_def file_now_def look_def disk_ok_def)
qed (auto simp: stage_def)

lemma sync_dir_calm: "triple (calm A r) sync_dir_call (\<lambda>_. calm A r)"
  unfolding sync_dir_call_def
  by (rule sys_triple) (auto simp: calm_def after_crash_def crash_data_def file_now_def look_def disk_ok_def)

lemma sub_stage: "stage A r tmp i x y s \<Longrightarrow> staged A r tmp i s"
  by blast

lemma fill_stage:
  assumes "Some raw \<in> A"
  shows "triple (stage A r tmp i [] None) (fill_temp tmp i raw)
    (\<lambda>ok s. if ok then calm A (Some raw) s else staged A r tmp i s)"
proof -
  let ?Q = "\<lambda>ok s. if ok then calm A (Some raw) s else staged A r tmp i s"
  have no: "triple (\<lambda>s. staged A r tmp i s) (ret False) ?Q" by (rule triple_ret) simp
  have ren: "triple (stage A r tmp i raw (Some raw)) (do { r \<leftarrow> rename_call tmp state_file; ret (r = Some True) }) ?Q"
    by (rule triple_bind [OF rename_stage [OF assms]]) (simp add: triple_ret)
  have clo: "triple (stage A r tmp i raw (Some raw))
      (do { c \<leftarrow> plain_call; (case c of None \<Rightarrow> ret False | Some _ \<Rightarrow> do { r \<leftarrow> rename_call tmp state_file; ret (r = Some True) }) }) ?Q"
    by (rule triple_bind [OF close_stage], rule triple_option [OF triple_weaken [OF no] ren]) auto
  have syn: "triple (stage A r tmp i raw None)
      (do { y \<leftarrow> sync_call i; (case y of None \<Rightarrow> ret False | Some _ \<Rightarrow> do { c \<leftarrow> plain_call; (case c of None \<Rightarrow> ret False
         | Some _ \<Rightarrow> do { r \<leftarrow> rename_call tmp state_file; ret (r = Some True) }) }) }) ?Q"
    by (rule triple_bind [OF sync_stage], rule triple_option; rule triple_weaken [OF no] triple_weaken [OF clo]) auto
  have chm: "triple (stage A r tmp i raw None)
      (do { m \<leftarrow> chmod_call i 416; (case m of None \<Rightarrow> ret False | Some _ \<Rightarrow>
        do { y \<leftarrow> sync_call i; (case y of None \<Rightarrow> ret False | Some _ \<Rightarrow> do { c \<leftarrow> plain_call; (case c of None \<Rightarrow> ret False
         | Some _ \<Rightarrow> do { r \<leftarrow> rename_call tmp state_file; ret (r = Some True) }) }) }) }) ?Q"
    by (rule triple_bind [OF chmod_stage], rule triple_option [OF triple_weaken [OF no] syn]) auto
  have "triple (\<lambda>s. staged A r tmp i s) (fill_temp tmp i raw) ?Q"
    unfolding fill_temp_def
    by (rule triple_bind [OF write_stage], rule triple_option; rule triple_weaken [OF no] triple_weaken [OF chm]) auto
  then show ?thesis by (rule triple_weaken) auto
qed

lemma save_raw_calm:
  assumes "Some raw \<in> A"
  shows "triple (calm A r) (save_raw raw) (\<lambda>ok. calm A (if ok then Some raw else r))"
proof -
  have no: "triple (calm A r) (ret False) (\<lambda>ok. calm A (if ok then Some raw else r))" by (rule triple_ret) simp
  have open_dir: "triple (calm A x) plain_call (\<lambda>_. calm A x)" for x unfolding plain_call_def by (rule read_only)
  have "triple (calm A (Some raw)) (case dh of None \<Rightarrow> ret None | Some _ \<Rightarrow> sync_dir_call) (\<lambda>_. calm A (Some raw))" for dh :: "unit option"
    by (intro triple_option triple_ret sync_dir_calm)
  then have good: "triple (calm A (Some raw)) (do { dh \<leftarrow> plain_call; _ \<leftarrow> (case dh of None \<Rightarrow> ret None | Some _ \<Rightarrow> sync_dir_call); ret True })
      (\<lambda>ok. calm A (if ok then Some raw else r))"
    by (intro triple_bind [OF open_dir] triple_bind [where R = "\<lambda>_. calm A (Some raw)"] triple_ret) simp_all
  have close: "triple (\<lambda>s. staged A r tmp i s) plain_call (\<lambda>_ s. staged A r tmp i s)" for tmp i
    unfolding plain_call_def by (rule sys_triple) (auto simp: stage_def)
  have bad: "triple (\<lambda>s. staged A r tmp i s) (do { _ \<leftarrow> plain_call; _ \<leftarrow> remove_call tmp; ret False })
      (\<lambda>ok. calm A (if ok then Some raw else r))" for tmp i
    by (intro triple_bind [OF close] triple_bind [OF remove_stage] triple_ret) simp
  have "triple (stage A r tmp i [] None)
      (do { ok \<leftarrow> fill_temp tmp i raw;
            if ok then do { dh \<leftarrow> plain_call; _ \<leftarrow> (case dh of None \<Rightarrow> ret None | Some _ \<Rightarrow> sync_dir_call); ret True }
            else do { _ \<leftarrow> plain_call; _ \<leftarrow> remove_call tmp; ret False } })
      (\<lambda>ok. calm A (if ok then Some raw else r))" for tmp i
    by (rule triple_bind [OF fill_stage [OF assms]], rule triple_if; rule triple_weaken [OF good] triple_weaken [OF bad]) auto
  then have fill: "triple (case f of Some (Some (tmp, i)) \<Rightarrow> stage A r tmp i [] None | _ \<Rightarrow> calm A r)
      (case f of
          Some (Some (tmp, i)) \<Rightarrow> do {
            ok \<leftarrow> fill_temp tmp i raw;
            if ok then do { dh \<leftarrow> plain_call; _ \<leftarrow> (case dh of None \<Rightarrow> ret None | Some _ \<Rightarrow> sync_dir_call); ret True }
            else do { _ \<leftarrow> plain_call; _ \<leftarrow> remove_call tmp; ret False } }
        | _ \<Rightarrow> ret False) (\<lambda>ok. calm A (if ok then Some raw else r))" for f
    using no by (auto split: option.split)
  have look: "triple (calm A r) (refuseSymlink state_file) (\<lambda>_. calm A r)"
    unfolding refuseSymlink_def lstat_def by (rule triple_bind [OF read_only]) (simp add: triple_ret)
  show ?thesis unfolding save_raw_def
    by (rule triple_bind [OF look], rule triple_if [OF no], rule triple_bind [OF createTemp_stage])
      (rule triple_weaken [OF fill], auto split: option.splits)
qed

lemma save_file_calm:
  assumes "\<And>raw. enc = Some raw \<Longrightarrow> Some raw \<in> A"
  shows "triple (calm A r) (save_file enc) (\<lambda>ok. calm A (if ok then enc else r))"
  using assms by (cases enc) (auto simp: save_file_def intro: triple_ret save_raw_calm)

text \<open>
  C22: a save is atomic, also when the process or the machine stops in the middle. At every disk the calls of
  a save go through, whatever fails, a crash leaves the complete new file or one that a crash could have left
  before; and the file reads as the new content if the save reports success and is untouched if it does not.
\<close>

theorem save_crash_safe:
  assumes "disk_ok (io_disk s)" and "run_state (save_file (Some raw)) (s\<lparr>io_hist := []\<rparr>) = (ok, s')"
  shows "list_all (\<lambda>d. after_crash d \<subseteq> insert (Some raw) (after_crash (io_disk s))) (io_disk s' # io_hist s') \<and>
    file_now (io_disk s') = (if ok then Some raw else file_now (io_disk s))"
proof -
  let ?A = "insert (Some raw) (after_crash (io_disk s))"
  have "calm ?A (file_now (io_disk s)) (s\<lparr>io_hist := []\<rparr>)" using assms(1) by (auto simp: calm_def)
  from tripleD [OF save_file_calm [of "Some raw" ?A] this assms(2)] show ?thesis by (simp add: calm_def split: if_splits)
qed

subsection \<open>A save without errors\<close>

text \<open>No call fails any more, and the disk is as \<open>P\<close> says.\<close>

definition fine :: "(disk \<Rightarrow> bool) \<Rightarrow> io \<Rightarrow> bool" where
  "fine P s \<longleftrightarrow> io_faults s = [] \<and> P (io_disk s)"

lemma fine_sys:
  assumes "\<And>d. P d \<Longrightarrow> case good d of (a, d') \<Rightarrow> triple (fine (Q a d')) (g (Some a)) R \<and> Q a d' d'"
  shows "triple (fine P) (sys_call good bad \<bind> g) R"
  unfolding triple_def
proof (intro allI impI)
  fix s assume s: "fine P s"
  obtain a d where g: "good (io_disk s) = (a, d)" by fastforce
  let ?s = "s\<lparr>io_disk := d, io_hist := d # io_hist s, io_faults := []\<rparr>"
  have "run_state (sys_call good bad) s = (Some a, ?s)" using s by (simp add: fine_def sys_call_def g)
  moreover have "triple (fine (Q a d)) (g (Some a)) R" "fine (Q a d) ?s" using assms [of "io_disk s"] s g by (auto simp: fine_def)
  ultimately show "case run_state (sys_call good bad \<bind> g) s of (r, s') \<Rightarrow> R r s'"
    by (simp add: State_Monad.run_state_bind triple_def)
qed

text \<open>A temporary file with this data, and a state file it can replace.\<close>

definition ready :: "string \<Rightarrow> nat \<Rightarrow> string \<Rightarrow> string option \<Rightarrow> disk \<Rightarrow> bool" where
  "ready tmp i x y d \<longleftrightarrow> tmp \<noteq> state_file \<and> mget (dk_dir d) tmp = Some i \<and> mget (dk_dir d) state_file \<noteq> Some i \<and>
     (\<exists>nd. mget (dk_nodes d) i = Some nd \<and> nd_data nd = x \<and> nd_safe nd = y) \<and>
     map_option nd_kind (look d state_file) \<noteq> Some Directory"

lemma ready_upd:
  assumes "ready tmp i x y d" and "\<And>nd. nd_data nd = x \<Longrightarrow> nd_safe nd = y \<Longrightarrow> nd_data (f nd) = x' \<and> nd_safe (f nd) = y'"
  shows "ready tmp i x' y' (upd_node i f d)"
proof -
  from assms(1) have "look (upd_node i f d) state_file = look d state_file"
    by (cases "mget (dk_dir d) state_file") (auto simp: ready_def look_def)
  with assms show ?thesis by (auto simp: ready_def)
qed

definition renamed :: "nat \<Rightarrow> string \<Rightarrow> disk \<Rightarrow> bool" where
  "renamed i raw d \<longleftrightarrow> mget (dk_dir d) state_file = Some i \<and> (\<exists>nd. mget (dk_nodes d) i = Some nd \<and> nd_safe nd = Some raw)"

lemma fill_fine: "triple (fine (ready tmp i [] y)) (fill_temp tmp i raw) (\<lambda>ok s. ok \<and> fine (renamed i raw) s)"
proof -
  have "triple (fine (ready tmp i raw (Some raw))) (do { r \<leftarrow> rename_call tmp state_file; ret (r = Some True) }) (\<lambda>ok s. ok \<and> fine (renamed i raw) s)"
    unfolding rename_call_def
    by (rule fine_sys [where Q = "\<lambda>a d'. if a then renamed i raw else (\<lambda>_. False)"])
      (auto simp: rename_entry_def ready_def renamed_def split: option.split intro!: triple_ret)
  then have "triple (fine (ready tmp i raw (Some raw)))
      (do { c \<leftarrow> plain_call; (case c of None \<Rightarrow> ret False | Some _ \<Rightarrow> do { r \<leftarrow> rename_call tmp state_file; ret (r = Some True) }) })
      (\<lambda>ok s. ok \<and> fine (renamed i raw) s)"
    unfolding plain_call_def by (intro fine_sys [where Q = "\<lambda>a d'. ready tmp i raw (Some raw)"]) simp
  then have "triple (fine (ready tmp i raw None))
      (do { y \<leftarrow> sync_call i; (case y of None \<Rightarrow> ret False | Some _ \<Rightarrow> do { c \<leftarrow> plain_call; (case c of None \<Rightarrow> ret False
         | Some _ \<Rightarrow> do { r \<leftarrow> rename_call tmp state_file; ret (r = Some True) }) }) }) (\<lambda>ok s. ok \<and> fine (renamed i raw) s)"
    unfolding sync_call_def by (intro fine_sys [where Q = "\<lambda>a d'. ready tmp i raw (Some raw)"]) (simp add: ready_upd)
  then have "triple (fine (ready tmp i raw None))
      (do { m \<leftarrow> chmod_call i 416; (case m of None \<Rightarrow> ret False | Some _ \<Rightarrow>
        do { y \<leftarrow> sync_call i; (case y of None \<Rightarrow> ret False | Some _ \<Rightarrow> do { c \<leftarrow> plain_call; (case c of None \<Rightarrow> ret False
         | Some _ \<Rightarrow> do { r \<leftarrow> rename_call tmp state_file; ret (r = Some True) }) }) }) }) (\<lambda>ok s. ok \<and> fine (renamed i raw) s)"
    unfolding chmod_call_def by (intro fine_sys [where Q = "\<lambda>a d'. ready tmp i raw None"]) (simp add: ready_upd)
  note chmod = this
  have "triple (fine (ready tmp i [] y)) (State (\<lambda>s. run_state (sys_call (\<lambda>d. ((), upd_node i (write_data (io_now s) raw) d))
      (\<lambda>n. upd_node i (write_data (io_now s) (take n raw)))) s) \<bind> g) Q"
    if "triple (fine (ready tmp i raw None)) (g (Some ())) Q" for g :: "unit option \<Rightarrow> bool io_act" and Q
  proof -
    have "triple (fine (ready tmp i [] y)) (sys_call (\<lambda>d. ((), upd_node i (write_data now raw) d))
        (\<lambda>n. upd_node i (write_data now (take n raw))) \<bind> g) Q" for now
      by (rule fine_sys [where Q = "\<lambda>a d'. ready tmp i raw None"]) (simp add: that ready_upd write_data_def)
    then show ?thesis by (simp add: triple_def State_Monad.run_state_bind)
  qed
  from this [OF _] chmod show ?thesis unfolding fill_temp_def write_call_def by simp
qed

text \<open>
  A save that meets no error is durable. With a usable state file and a free temporary name it reports
  success, and from then on a crash leaves the new content.
\<close>

theorem save_durable:
  assumes "disk_ok (io_disk s)" and "io_faults s = []" and "map_option nd_kind (look (io_disk s) state_file) \<notin> {Some Symlink, Some Directory}"
    and "list_ex (\<lambda>x. mget (dk_dir (io_disk s)) (temp_name x) = None) (io_suffixes s)"
  shows "case run_state (save_file (Some raw)) s of (ok, s') \<Rightarrow> ok \<and> after_crash (io_disk s') = {Some raw}"
proof -
  let ?d = "io_disk s"
  obtain n ns where n: "filter (\<lambda>n. mget (dk_dir ?d) n = None) (map temp_name (io_suffixes s)) = n # ns"
    using assms(4) by (cases "filter (\<lambda>n. mget (dk_dir ?d) n = None) (map temp_name (io_suffixes s))")
      (auto simp: filter_empty_conv list_ex_iff)
  have "n \<in> set (filter (\<lambda>n. mget (dk_dir ?d) n = None) (map temp_name (io_suffixes s)))" unfolding n by simp
  then have ns: "n \<noteq> state_file" "mget (dk_dir ?d) n = None" by auto
  have fresh: "mget (dk_dir ?d) k \<noteq> Some (dk_next ?d)" for k using assms(1) by (auto simp: disk_ok_def)
  have "look (new_file t n ?d) state_file = look ?d state_file" for t
    using ns(1) fresh [of state_file] by (cases "mget (dk_dir ?d) state_file") (auto simp: look_def new_file_def)
  then have new: "ready n (dk_next ?d) [] None (new_file t n ?d)" for t
    using ns fresh assms(3) by (simp add: ready_def) (simp add: new_file_def)
  let ?Q = "\<lambda>ok s'. ok \<and> after_crash (io_disk s') = {Some raw}"
  have sync: "triple (fine (renamed i raw)) (do { dh \<leftarrow> plain_call; _ \<leftarrow> (case dh of None \<Rightarrow> ret None | Some _ \<Rightarrow> sync_dir_call); ret True }) ?Q" for i
    unfolding plain_call_def sync_dir_call_def
    by (rule fine_sys [where Q = "\<lambda>a d'. renamed i raw"],
        simp, rule fine_sys [where Q = "\<lambda>a d' d. renamed i raw d \<and> dk_safe d = dk_dir d"])
      (auto intro!: triple_ret simp: fine_def renamed_def after_crash_def crash_data_def)
  have "triple (fine (ready n i [] None))
      (do { ok \<leftarrow> fill_temp n i raw;
            if ok then do { dh \<leftarrow> plain_call; _ \<leftarrow> (case dh of None \<Rightarrow> ret None | Some _ \<Rightarrow> sync_dir_call); ret True }
            else do { _ \<leftarrow> plain_call; _ \<leftarrow> remove_call n; ret False } }) ?Q" for i
    by (rule triple_bind [OF fill_fine], rule triple_if, rule triple_weaken [OF sync], auto simp: triple_def)
  note fill = this
  have "run_state (refuseSymlink state_file) s = (True, s\<lparr>io_hist := ?d # io_hist s\<rparr>)"
    using assms(2,3) by (simp add: refuseSymlink_def lstat_def sys_call_def State_Monad.run_state_bind split: option.split)
  moreover obtain s2 where s2: "run_state createTemp (s\<lparr>io_hist := ?d # io_hist s\<rparr>) = (Some (Some (n, dk_next ?d)), s2)"
      and f: "fine (ready n (dk_next ?d) [] None) s2"
    using assms(2) new by (simp add: createTemp_def create_temp_def sys_call_def n fine_def)
  moreover obtain ok s' where r: "run_state (do { ok \<leftarrow> fill_temp n (dk_next ?d) raw;
      if ok then do { dh \<leftarrow> plain_call; _ \<leftarrow> (case dh of None \<Rightarrow> ret None | Some _ \<Rightarrow> sync_dir_call); ret True }
      else do { _ \<leftarrow> plain_call; _ \<leftarrow> remove_call n; ret False } }) s2 = (ok, s')" by fastforce
  ultimately have "run_state (save_file (Some raw)) s = (ok, s')"
    by (simp add: save_file_def save_raw_def State_Monad.run_state_bind [of "refuseSymlink state_file"] State_Monad.run_state_bind [of createTemp])
  with tripleD [OF fill f r] show ?thesis by simp
qed

text \<open>A disk with a state file, for the witnesses.\<close>

definition one_file :: "string \<Rightarrow> disk" where
  "one_file raw = \<lparr>dk_dir = [(state_file, 0)], dk_safe = [(state_file, 0)],
     dk_nodes = [(0, \<lparr>nd_kind = Regular, nd_data = raw, nd_safe = Some raw, nd_mode = 416, nd_mtime = 0\<rparr>)], dk_next = 1\<rparr>"

definition toy_io :: "disk \<Rightarrow> nat option list \<Rightarrow> io" where
  "toy_io d faults = \<lparr>io_disk = d, io_hist = [], io_faults = faults, io_suffixes = [''7''], io_now = 5\<rparr>"

lemma one_file_ok: "disk_ok (one_file raw)"
  by (auto simp: disk_ok_def one_file_def mget_def)

lemma toy_io_parts [simp]: "io_disk (toy_io d fs) = d" "io_faults (toy_io d fs) = fs" "io_suffixes (toy_io d fs) = [''7'']"
  "(toy_io d fs)\<lparr>io_hist := []\<rparr> = toy_io d fs"
  by (simp_all add: toy_io_def)

lemma save_crash_safe_witness:
  "let s' = snd (run_state (save_file (Some ''new'')) (toy_io (one_file ''old'') [None, None, Some 2]))
   in file_now (io_disk s') = Some ''old'' \<and> length (io_hist s') = 5 \<and>
      list_all (\<lambda>d. after_crash d \<subseteq> insert (Some ''new'') (after_crash (one_file ''old''))) (io_disk s' # io_hist s')"
proof -
  let ?s = "toy_io (one_file ''old'') [None, None, Some 2]"
  have r: "fst (run_state (save_file (Some ''new'')) ?s) = False \<and> length (io_hist (snd (run_state (save_file (Some ''new'')) ?s))) = 5"
    "file_now (one_file ''old'') = Some ''old''"
    by code_simp+
  with save_crash_safe [of ?s "''new''" False "snd (run_state (save_file (Some ''new'')) ?s)"] one_file_ok
  show ?thesis by (simp add: prod_eq_iff Let_def)
qed

lemma save_durable_witness:
  "case run_state (save_file (Some ''new'')) (toy_io (one_file ''old'') []) of (ok, s') \<Rightarrow> ok \<and> after_crash (io_disk s') = {Some ''new''}"
  by (rule save_durable) (simp_all add: one_file_ok look_def, simp_all add: one_file_def mget_def state_file_def temp_name_def)

subsection \<open>What the cleaning removes\<close>

definition cleaned :: "time \<Rightarrow> disk \<Rightarrow> disk \<Rightarrow> bool" where
  "cleaned now d d' \<longleftrightarrow> dk_nodes d' = dk_nodes d \<and> (\<forall>n. mget (dk_dir d') n = mget (dk_dir d) n \<or>
     mget (dk_dir d') n = None \<and> orphanTemp n \<and> (\<exists>nd. look d n = Some nd \<and> orphan_now now nd))"

lemma cleaned_refl [simp]: "cleaned now d d"
  by (simp add: cleaned_def)

lemma state_file_no_orphan: "\<not> orphanTemp state_file"
  by code_simp

lemma cleaned_look: "cleaned now d d' \<Longrightarrow> look d' n = Some x \<Longrightarrow> look d n = Some x"
  by (auto simp: cleaned_def look_def bind_eq_Some_conv) (metis option.distinct(1))

lemma cleaned_remove:
  assumes "cleaned now d d'" and "look d' n = Some x" and "orphanTemp n" and "orphan_now now x"
  shows "cleaned now d (d'\<lparr>dk_dir := mdel n (dk_dir d')\<rparr>)"
  using assms cleaned_look [OF assms(1,2)] by (auto simp: cleaned_def)

lemma remove_orphans_cleaned:
  "triple (\<lambda>s. cleaned now d (io_disk s)) (remove_orphans now ns) (\<lambda>_ s. cleaned now d (io_disk s))"
proof (induction ns)
  case (Cons n ns)
  have rem: "triple (\<lambda>s. cleaned now d (io_disk s) \<and> orphanTemp n \<and> look (io_disk s) n = Some x) (remove_call n) (\<lambda>_ s. cleaned now d (io_disk s))"
    if "orphan_now now x" for x
    unfolding remove_call_def by (rule sys_triple) (simp_all add: cleaned_remove that)
  have get: "triple (\<lambda>s. cleaned now d (io_disk s)) (sys_call (\<lambda>d. (look d n, d)) (\<lambda>k d. d))
      (\<lambda>r s. cleaned now d (io_disk s) \<and> (\<forall>x. r = Some (Some x) \<longrightarrow> look (io_disk s) n = Some x))"
    by (rule sys_triple) simp_all
  have "triple (\<lambda>s. cleaned now d (io_disk s) \<and> (\<forall>x. r = Some (Some x) \<longrightarrow> look (io_disk s) n = Some x))
      (case r of Some (Some x) \<Rightarrow> if orphan_now now x then do { _ \<leftarrow> remove_call n; ret () } else ret () | _ \<Rightarrow> ret ())
      (\<lambda>_ s. cleaned now d (io_disk s))" if n: "orphanTemp n" for r
  proof (cases "\<exists>x. r = Some (Some x) \<and> orphan_now now x")
    case True
    then obtain x where x: "r = Some (Some x)" "orphan_now now x" by blast
    from triple_bind [OF rem [OF x(2)], of "\<lambda>_. ret ()" "\<lambda>_ s. cleaned now d (io_disk s)"] x n show ?thesis
      by (simp add: triple_ret)
  qed (auto split: option.split intro!: triple_ret)
  note step = this
  show ?case unfolding remove_orphans.simps
    by (rule triple_bind [OF triple_if [OF triple_ret triple_bind [OF get step]] Cons.IH]) simp_all
qed (simp add: triple_ret)

text \<open>
  The cleaning at start removes nothing else. Whatever calls fail, an entry that is gone afterwards had the
  name of a temporary file and was a regular file of at least ten minutes; the state file and every other
  entry are still there with their data.
\<close>

theorem orphans_only:
  "case run_state (removeOrphanTempsAt now) s of (_, s') \<Rightarrow>
     file_now (io_disk s') = file_now (io_disk s) \<and>
     (case mget (dk_dir (io_disk s)) n of
        None \<Rightarrow> mget (dk_dir (io_disk s')) n = None
      | Some i \<Rightarrow> mget (dk_dir (io_disk s')) n = Some i \<or>
          orphanTemp n \<and> (\<exists>nd. look (io_disk s) n = Some nd \<and> nd_kind nd = Regular \<and> nd_mtime nd + orphanTempMinAge \<le> now))"
proof -
  obtain r s' where r: "run_state (removeOrphanTempsAt now) s = (r, s')" by (cases "run_state (removeOrphanTempsAt now) s")
  have "triple (\<lambda>t. io_disk t = io_disk s) (removeOrphanTempsAt now) (\<lambda>_ t. cleaned now (io_disk s) (io_disk t))"
    unfolding removeOrphanTempsAt_def
    by (rule triple_bind [where R = "\<lambda>_ t. cleaned now (io_disk s) (io_disk t)"], rule sys_triple)
      (auto intro: remove_orphans_cleaned triple_ret split: option.split)
  from tripleD [OF this refl r] have c: "cleaned now (io_disk s) (io_disk s')" .
  then have "mget (dk_dir (io_disk s')) state_file = mget (dk_dir (io_disk s)) state_file"
    using state_file_no_orphan by (auto simp: cleaned_def)
  moreover from c have "dk_nodes (io_disk s') = dk_nodes (io_disk s)"
    and "mget (dk_dir (io_disk s')) n = mget (dk_dir (io_disk s)) n \<or>
      mget (dk_dir (io_disk s')) n = None \<and> orphanTemp n \<and> (\<exists>nd. look (io_disk s) n = Some nd \<and> orphan_now now nd)"
    by (simp_all only: cleaned_def)
  ultimately show ?thesis
    by (auto simp: r file_now_def look_def orphan_now_def split: option.split)
qed

end
