(* ===== verification/Decimal.thy ===== *)
theory Decimal
  imports Json "HOL-Library.List_Lexorder" "HOL-Library.Char_ord"
begin

section \<open>Decimal text\<close>

text \<open>
  Whole numbers as the program prints them (\<open>strconv.Itoa\<close>, \<open>big.Int.String\<close>, zero-padded fields of a date)
  and as it reads them back (\<open>parse_decimal\<close>).
\<close>

definition digit_char :: "nat \<Rightarrow> char" where "digit_char n = char_of (48 + n)"

fun show_nat :: "nat \<Rightarrow> string" where
  "show_nat n = (if n < 10 then [digit_char n] else show_nat (n div 10) @ [digit_char (n mod 10)])"

declare show_nat.simps [simp del]

definition show_int :: "int \<Rightarrow> string" where
  "show_int i = (if i < 0 then CHR ''-'' # show_nat (nat (- i)) else show_nat (nat i))"

text \<open>Exactly \<open>w\<close> digits: the last ones of the number, with zeros in front.\<close>

primrec pad_nat :: "nat \<Rightarrow> nat \<Rightarrow> string" where
  "pad_nat 0 n = []"
| "pad_nat (Suc w) n = pad_nat w (n div 10) @ [digit_char (n mod 10)]"

lemma digit_char_digit:
  assumes "n < 10"
  shows "is_digit (digit_char n) \<and> digit_val (digit_char n) = n"
proof -
  have "list_all (\<lambda>n. is_digit (digit_char n) \<and> digit_val (digit_char n) = n) [0..<10]" by code_simp
  moreover have "n \<in> set [0..<10]" using assms by simp
  ultimately show ?thesis unfolding list_all_iff by blast
qed

lemma digits_val_append: "digits_val (s @ t) = digits_val s * 10 ^ length t + digits_val t"
proof -
  have "foldl (\<lambda>n c. 10 * n + int (digit_val c)) a t = a * 10 ^ length t + digits_val t" for a
    by (induction t rule: rev_induct) (simp_all add: digits_val_def algebra_simps)
  from this [of "digits_val s"] show ?thesis unfolding digits_val_def foldl_append .
qed

lemma digits_val_single [simp]: "digits_val [] = 0" "digits_val [c] = int (digit_val c)"
  by (simp_all add: digits_val_def)

lemma ten_parts: "int (n div 10) * 10 + int (n mod 10) = int n" "10 * int (n div 10) + int (n mod 10) = int n"
  by presburger+

lemma show_nat_digits: "all_digits (show_nat n) \<and> show_nat n \<noteq> [] \<and> digits_val (show_nat n) = int n"
proof (induction n rule: show_nat.induct)
  case (1 n)
  show ?case
    by (subst (1 2 3) show_nat.simps)
      (use 1 digit_char_digit [of n] digit_char_digit [of "n mod 10"] in \<open>auto simp: all_digits_def digits_val_append ten_parts\<close>)
qed

lemma pad_nat_digits: "length (pad_nat w n) = w \<and> list_all is_digit (pad_nat w n) \<and> (n < 10 ^ w \<longrightarrow> digits_val (pad_nat w n) = int n)"
proof (induction w arbitrary: n)
  case (Suc w)
  then show ?case
    using digit_char_digit [of "n mod 10"] Suc.IH [of "n div 10"]
    by (auto simp: digits_val_append div_less_iff_less_mult mult.commute ten_parts)
qed simp

lemma digit_not_sign: "is_digit c \<Longrightarrow> c \<noteq> CHR ''-'' \<and> c \<noteq> CHR ''+'' \<and> c \<noteq> CHR ''.'' \<and> \<not> is_space c"
  by (auto simp: is_digit_def is_space_def Let_def)

lemma parse_show [simp]: "parse_decimal (show_int i) = Some i"
proof (cases "i < 0")
  case True
  with show_nat_digits [of "nat (- i)"] show ?thesis by (simp add: show_int_def parse_decimal_def)
next
  case False
  obtain c r where c: "show_nat (nat i) = c # r" using show_nat_digits [of "nat i"] by (cases "show_nat (nat i)") auto
  with show_nat_digits [of "nat i"] have "is_digit c" by (auto simp: all_digits_def)
  with False c show_nat_digits [of "nat i"] digit_not_sign [of c] show ?thesis by (simp add: show_int_def parse_decimal_def)
qed

text \<open>Padded numbers of the same width compare as text as they do as numbers.\<close>

lemma digit_char_less: "m < 10 \<Longrightarrow> n < 10 \<Longrightarrow> digit_char m < digit_char n \<longleftrightarrow> m < n"
proof -
  assume "m < 10" "n < 10"
  then have "of_char (digit_char k) = 48 + k" if "k \<in> {m, n}" for k using that by (auto simp: digit_char_def)
  then show "digit_char m < digit_char n \<longleftrightarrow> m < n" by (simp add: less_char_def)
qed

lemma append_less:
  fixes a b :: string assumes "length a = length b"
  shows "a @ c < b @ d \<longleftrightarrow> a < b \<or> a = b \<and> c < d"
  using assms by (induction a b rule: list_induct2) auto

lemma tens_less: "(m :: nat) < n \<longleftrightarrow> m div 10 < n div 10 \<or> m div 10 = n div 10 \<and> m mod 10 < n mod 10"
proof -
  have "m = m div 10 * 10 + m mod 10" "m mod 10 < 10" "n = n div 10 * 10 + n mod 10" "n mod 10 < 10" by simp_all
  then show ?thesis by (cases "m div 10" "n div 10" rule: linorder_cases) linarith+
qed

lemma pad_nat_less: "m < 10 ^ w \<Longrightarrow> n < 10 ^ w \<Longrightarrow> pad_nat w m < pad_nat w n \<longleftrightarrow> m < n"
proof (induction w arbitrary: m n)
  case (Suc w)
  have l: "m div 10 < 10 ^ w" "n div 10 < 10 ^ w" using Suc.prems by (simp_all add: less_mult_imp_div_less mult.commute)
  have eq: "pad_nat w (m div 10) = pad_nat w (n div 10) \<longleftrightarrow> m div 10 = n div 10"
    using pad_nat_digits [of w "m div 10"] pad_nat_digits [of w "n div 10"] l by (metis of_nat_eq_iff)
  have len: "length (pad_nat w (m div 10)) = length (pad_nat w (n div 10))" by (simp add: pad_nat_digits)
  have single: "[digit_char (m mod 10)] < [digit_char (n mod 10)] \<longleftrightarrow> m mod 10 < n mod 10"
    using digit_char_less [of "m mod 10" "n mod 10"] by simp
  have "pad_nat (Suc w) m < pad_nat (Suc w) n \<longleftrightarrow> m div 10 < n div 10 \<or> m div 10 = n div 10 \<and> m mod 10 < n mod 10"
    unfolding pad_nat.simps append_less [OF len] Suc.IH [OF l] eq single ..
  also have "\<dots> \<longleftrightarrow> m < n" by (rule tens_less [symmetric])
  finally show ?case .
qed simp

end
