(* ===== verification/Calendar.thy ===== *)
theory Calendar
  imports Decimal
begin

section \<open>Calendar days\<close>

text \<open>
  The UTC day of a time, as \<open>t.UTC().Format("2006-01-02")\<close> prints it, in the proleptic Gregorian calendar of
  Go's \<open>time\<close> package: cycles of 400, 100, 4 and 1 years from 0001-01-01. Days compare as text in the order of
  time up to the year 9999, which is what the store's retention relies on.
\<close>

definition day_of :: "time \<Rightarrow> int" where "day_of t = t div (24 * hour)"

text \<open>The year and the day of the year (from 0) of a day number (from 1970-01-01).\<close>

definition year_day :: "int \<Rightarrow> int \<times> int" where
  "year_day d =
     (let n = d + 719162; e = n div 146097; r = n mod 146097;
          c = min 3 (r div 36524); r1 = r - c * 36524;
          q = r1 div 1461; r2 = r1 mod 1461;
          y = min 3 (r2 div 365)
      in (400 * e + 100 * c + 4 * q + y + 1, r2 - y * 365))"

definition is_leap :: "int \<Rightarrow> bool" where
  "is_leap y \<longleftrightarrow> y mod 4 = 0 \<and> (y mod 100 \<noteq> 0 \<or> y mod 400 = 0)"

definition month_starts :: "bool \<Rightarrow> int list" where
  "month_starts leap = (if leap then [0, 31, 60, 91, 121, 152, 182, 213, 244, 274, 305, 335]
     else [0, 31, 59, 90, 120, 151, 181, 212, 243, 273, 304, 334])"

definition month_day :: "bool \<Rightarrow> int \<Rightarrow> nat \<times> int" where
  "month_day leap doy = (let m = length (filter (\<lambda>s. s \<le> doy) (month_starts leap))
     in (m, doy - month_starts leap ! (m - 1) + 1))"

definition year_text :: "int \<Rightarrow> string" where
  "year_text y = (if 0 \<le> y \<and> y < 10000 then pad_nat 4 (nat y) else show_int y)"

definition day_text :: "int \<Rightarrow> string" where
  "day_text d =
     (let (y, doy) = year_day d; (m, md) = month_day (is_leap y) doy
      in year_text y @ ''-'' @ pad_nat 2 m @ ''-'' @ pad_nat 2 (nat md))"

definition day_string :: "time \<Rightarrow> string" where "day_string t = day_text (day_of t)"

subsection \<open>Days compare as text\<close>

text \<open>One step of the decomposition: the larger part first.\<close>

lemma split_less:
  fixes x x' k :: int assumes "0 < k" and "x < x'"
  shows "x div k < x' div k \<or> x div k = x' div k \<and> x mod k < x' mod k"
    "min 3 (x div k) < min 3 (x' div k) \<or> min 3 (x div k) = min 3 (x' div k) \<and> x - min 3 (x div k) * k < x' - min 3 (x' div k) * k"
proof -
  have le: "x div k \<le> x' div k" using assms by (simp add: zdiv_mono1)
  then show "min 3 (x div k) < min 3 (x' div k) \<or> min 3 (x div k) = min 3 (x' div k) \<and> x - min 3 (x div k) * k < x' - min 3 (x' div k) * k"
    using assms(2) by (cases "min 3 (x div k) = min 3 (x' div k)") auto
  show "x div k < x' div k \<or> x div k = x' div k \<and> x mod k < x' mod k"
    using le assms(2) minus_div_mult_eq_mod [of x k] minus_div_mult_eq_mod [of x' k] by (cases "x div k = x' div k") auto
qed

lemma part_bounds:
  fixes x k :: int assumes "0 \<le> x" and "x \<le> 4 * k" and "0 < k"
  shows "0 \<le> min 3 (x div k) \<and> min 3 (x div k) \<le> 3 \<and> 0 \<le> x - min 3 (x div k) * k \<and> x - min 3 (x div k) * k \<le> k"
proof (cases "x div k \<le> 3")
  case True
  then show ?thesis using assms minus_div_mult_eq_mod [of x k] pos_mod_bound [of k x] pos_mod_sign [of k x]
    by (simp add: pos_imp_zdiv_nonneg_iff min_def order_less_imp_le)
next
  case False
  have "3 * k \<le> x" using False assms(3) by (metis div_mult_mod_eq le_add_same_cancel1 linear mult_right_mono order_less_imp_le order_trans pos_mod_sign)
  with False assms show ?thesis by (simp add: min_def)
qed

lemma year_day_less:
  assumes "d < d'" and "year_day d = (y, doy)" and "year_day d' = (y', doy')"
  shows "y < y' \<or> y = y' \<and> doy < doy'"
proof -
  define n n' where n: "n = d + 719162" "n' = d' + 719162"
  define e r e' r' where er: "e = n div 146097" "r = n mod 146097" "e' = n' div 146097" "r' = n' mod 146097"
  define c s c' s' where cs: "c = min 3 (r div 36524)" "s = r - c * 36524" "c' = min 3 (r' div 36524)" "s' = r' - c' * 36524"
  define q t q' t' where qt: "q = s div 1461" "t = s mod 1461" "q' = s' div 1461" "t' = s' mod 1461"
  define a b where ab: "a = min 3 (t div 365)" "b = min 3 (t' div 365)"
  have "year_day d = (400 * e + 100 * c + 4 * q + a + 1, t - a * 365)"
    unfolding year_day_def Let_def n(1) [symmetric] er(1,2) [symmetric] cs(1,2) [symmetric] qt(1,2) [symmetric] ab(1) [symmetric] ..
  moreover have "year_day d' = (400 * e' + 100 * c' + 4 * q' + b + 1, t' - b * 365)"
    unfolding year_day_def Let_def n(2) [symmetric] er(3,4) [symmetric] cs(3,4) [symmetric] qt(3,4) [symmetric] ab(2) [symmetric] ..
  ultimately have y: "y = 400 * e + 100 * c + 4 * q + a + 1" "doy = t - a * 365" "y' = 400 * e' + 100 * c' + 4 * q' + b + 1" "doy' = t' - b * 365"
    using assms(2,3) by simp_all
  have r: "0 \<le> r" "r < 146097" "0 \<le> r'" "r' < 146097" by (simp_all add: er)
  then have s: "0 \<le> s" "s \<le> 36524" "0 \<le> s'" "s' \<le> 36524" "0 \<le> c" "c \<le> 3" "0 \<le> c'" "c' \<le> 3"
    using part_bounds [of r 36524] part_bounds [of r' 36524] unfolding cs by simp_all
  then have q: "0 \<le> q" "q \<le> 24" "0 \<le> q'" "q' \<le> 24" "0 \<le> t" "t \<le> 1460" "0 \<le> t'" "t' \<le> 1460"
    unfolding qt using zdiv_mono1 [of s 36524 1461] zdiv_mono1 [of s' 36524 1461] pos_mod_bound [of 1461 s] pos_mod_bound [of 1461 s']
    by (simp_all add: pos_imp_zdiv_nonneg_iff)
  then have m: "0 \<le> a" "a \<le> 3" "0 \<le> b" "b \<le> 3" using part_bounds [of t 365] part_bounds [of t' 365] unfolding ab by simp_all
  have "n < n'" using assms(1) by (simp add: n)
  then have "e < e' \<or> e = e' \<and> r < r'" using split_less(1) [of 146097 n n'] unfolding er by simp
  moreover have "r < r' \<Longrightarrow> c < c' \<or> c = c' \<and> s < s'" using split_less(2) [of 36524 r r'] unfolding cs by simp
  moreover have "s < s' \<Longrightarrow> q < q' \<or> q = q' \<and> t < t'" using split_less(1) [of 1461 s s'] unfolding qt by simp
  moreover have "t < t' \<Longrightarrow> a < b \<or> a = b \<and> doy < doy'" using split_less(2) [of 365 t t'] unfolding ab y by simp
  ultimately have "e < e' \<or> e = e' \<and> (c < c' \<or> c = c' \<and> (q < q' \<or> q = q' \<and> (a < b \<or> a = b \<and> doy < doy')))" by blast
  then show ?thesis using s q m unfolding y by linarith
qed

lemma year_day_range:
  assumes "- 719162 \<le> d" and "d < 2932897" and "year_day d = (y, doy)"
  shows "1 \<le> y \<and> y \<le> 9999 \<and> 0 \<le> doy \<and> doy \<le> 365"
proof -
  have ends: "year_day (- 719162) = (1, 0)" "year_day 2932896 = (9999, 364)" by code_simp+
  have "1 \<le> y" using year_day_less [OF _ ends(1) assms(3)] assms ends by (cases "d = - 719162") auto
  moreover have "y \<le> 9999" using year_day_less [OF _ assms(3) ends(2)] assms ends by (cases "d = 2932896") auto
  moreover have "0 \<le> doy \<and> doy \<le> 365"
  proof -
    define r s t where d: "r = (d + 719162) mod 146097" "s = r - min 3 (r div 36524) * 36524" "t = s mod 1461"
    have "0 \<le> t" "t \<le> 4 * 365" using pos_mod_bound [of 1461 s] by (simp_all add: d(3))
    note part_bounds [OF this]
    moreover have "snd (year_day d) = t - min 3 (t div 365) * 365"
      unfolding year_day_def Let_def d(1) [symmetric] d(2) [symmetric] d(3) [symmetric] snd_conv ..
    ultimately show ?thesis using assms(3) by simp
  qed
  ultimately show ?thesis by simp
qed

lemma count_mono:
  fixes xs :: "int list" shows "a \<le> b \<Longrightarrow> length (filter (\<lambda>s. s \<le> a) xs) \<le> length (filter (\<lambda>s. s \<le> b) xs)"
  by (induction xs) auto

lemma month_day_less:
  assumes "doy < doy'" and "month_day l doy = (m, md)" and "month_day l doy' = (m', md')"
  shows "m < m' \<or> m = m' \<and> md < md'"
  using count_mono [of doy doy' "month_starts l"] assms by (auto simp: month_day_def Let_def)

lemma month_day_range:
  assumes "0 \<le> doy" and "doy \<le> 365" and "month_day l doy = (m, md)"
  shows "m < 100 \<and> 0 \<le> md \<and> md < 100"
proof (cases l)
  case True
  have "doy < 31 \<or> 31 \<le> doy \<and> doy < 60 \<or> 60 \<le> doy \<and> doy < 91 \<or> 91 \<le> doy \<and> doy < 121 \<or>
    121 \<le> doy \<and> doy < 152 \<or> 152 \<le> doy \<and> doy < 182 \<or> 182 \<le> doy \<and> doy < 213 \<or>
    213 \<le> doy \<and> doy < 244 \<or> 244 \<le> doy \<and> doy < 274 \<or> 274 \<le> doy \<and> doy < 305 \<or>
    305 \<le> doy \<and> doy < 335 \<or> 335 \<le> doy" by linarith
  with True assms show ?thesis by (elim disjE; simp add: month_day_def month_starts_def Let_def; elim conjE; simp)
next
  case False
  have "doy < 31 \<or> 31 \<le> doy \<and> doy < 59 \<or> 59 \<le> doy \<and> doy < 90 \<or> 90 \<le> doy \<and> doy < 120 \<or>
    120 \<le> doy \<and> doy < 151 \<or> 151 \<le> doy \<and> doy < 181 \<or> 181 \<le> doy \<and> doy < 212 \<or>
    212 \<le> doy \<and> doy < 243 \<or> 243 \<le> doy \<and> doy < 273 \<or> 273 \<le> doy \<and> doy < 304 \<or>
    304 \<le> doy \<and> doy < 334 \<or> 334 \<le> doy" by linarith
  with False assms show ?thesis by (elim disjE; simp add: month_day_def month_starts_def Let_def; elim conjE; simp)
qed

lemma day_text_less_imp:
  assumes "- 719162 \<le> d" and "d < d'" and "d' < 2932897"
  shows "day_text d < day_text d'"
proof -
  obtain y doy y' doy' where y: "year_day d = (y, doy)" "year_day d' = (y', doy')" by (meson surj_pair)
  obtain m md m' md' where m: "month_day (is_leap y) doy = (m, md)" "month_day (is_leap y') doy' = (m', md')" by (meson surj_pair)
  have yr: "1 \<le> y \<and> y \<le> 9999 \<and> 0 \<le> doy \<and> doy \<le> 365" "1 \<le> y' \<and> y' \<le> 9999 \<and> 0 \<le> doy' \<and> doy' \<le> 365"
    using year_day_range [OF _ _ y(1)] year_day_range [OF _ _ y(2)] assms by auto
  have mr: "m < 100 \<and> 0 \<le> md \<and> md < 100" "m' < 100 \<and> 0 \<le> md' \<and> md' < 100"
    using month_day_range [OF _ _ m(1)] month_day_range [OF _ _ m(2)] yr by auto
  have "y < y' \<or> y = y' \<and> (m < m' \<or> m = m' \<and> md < md')"
    using year_day_less [OF assms(2) y] month_day_less [of doy doy' "is_leap y" m md m' md'] m by auto
  then have o: "nat y < nat y' \<or> nat y = nat y' \<and> (m < m' \<or> m = m' \<and> nat md < nat md')"
    using yr mr by auto
  have four: "pad_nat 4 (nat y) < pad_nat 4 (nat y') \<longleftrightarrow> nat y < nat y'" using yr by (intro pad_nat_less) auto
  have two: "pad_nat 2 m < pad_nat 2 m' \<longleftrightarrow> m < m'" "pad_nat 2 (nat md) < pad_nat 2 (nat md') \<longleftrightarrow> nat md < nat md'"
    using mr by (intro pad_nat_less; simp add: nat_less_iff)+
  have len: "length (pad_nat w a) = length (pad_nat w b)" for w a b by (simp add: pad_nat_digits)
  have t: "day_text d = pad_nat 4 (nat y) @ ''-'' @ pad_nat 2 m @ ''-'' @ pad_nat 2 (nat md)"
    "day_text d' = pad_nat 4 (nat y') @ ''-'' @ pad_nat 2 m' @ ''-'' @ pad_nat 2 (nat md')"
    using y m yr by (simp_all add: day_text_def year_text_def)
  show ?thesis unfolding t append_less [OF len] append_less [OF refl] four two using o by auto
qed

lemma day_text_less:
  assumes "- 719162 \<le> d" and "d < 2932897" and "- 719162 \<le> d'" and "d' < 2932897"
  shows "day_text d < day_text d' \<longleftrightarrow> d < d'"
  using day_text_less_imp [of d d'] day_text_less_imp [of d' d] assms by (cases d d' rule: linorder_cases) auto

lemma day_text_sample: "day_text 20636 = ''2026-07-02''" "day_text 11016 = ''2000-02-29''" "day_text (- 719162) = ''0001-01-01''"
  by code_simp+

end
