(* ===== verification/Store.thy ===== *)
theory Store
  imports Keys Second_Factor State_File Calendar "HOL-Library.Word"
begin

section \<open>The store (\<open>internal/store\<close>)\<close>

text \<open>
  The state the process keeps in one file: API keys, usage rows, the key and model of open sessions, the
  stored 2FA state and the operator's settings. Every operation runs under the store's mutex, changes the
  state in memory and saves it (\<open>State_File\<close>). The JSON encoding of the state is a parameter: what is used of
  it is that decoding an encoded state gives the state back. Counters are Go's \<open>int64\<close>; a row of the usage map
  is a pointer, and using a nil one panics (\<open>None\<close>).
\<close>

subsection \<open>Settings (\<open>settings.go\<close>)\<close>

record settings =
  sg_SessionDurationDefault :: "int option"
  sg_SessionDurationMax :: "int option"
  sg_SessionIdleGrace :: "int option"
  sg_ForwardIdle :: "int option"
  sg_LogLevel :: string
  sg_Values :: "string gomap"

datatype legacy = LegacyDefault | LegacyMax | LegacyGrace | LegacyForward

definition legacyInt :: "string \<Rightarrow> legacy option" where
  "legacyInt name =
     (if name = ''sessionDurationDefault'' then Some LegacyDefault
      else if name = ''sessionDurationMax'' then Some LegacyMax
      else if name = ''sessionIdleGrace'' then Some LegacyGrace
      else if name = ''forwardIdle'' then Some LegacyForward
      else None)"

fun legacy_get :: "legacy \<Rightarrow> settings \<Rightarrow> int option" where
  "legacy_get LegacyDefault a = sg_SessionDurationDefault a"
| "legacy_get LegacyMax a = sg_SessionDurationMax a"
| "legacy_get LegacyGrace a = sg_SessionIdleGrace a"
| "legacy_get LegacyForward a = sg_ForwardIdle a"

fun legacy_put :: "legacy \<Rightarrow> int option \<Rightarrow> settings \<Rightarrow> settings" where
  "legacy_put LegacyDefault v a = a\<lparr>sg_SessionDurationDefault := v\<rparr>"
| "legacy_put LegacyMax v a = a\<lparr>sg_SessionDurationMax := v\<rparr>"
| "legacy_put LegacyGrace v a = a\<lparr>sg_SessionIdleGrace := v\<rparr>"
| "legacy_put LegacyForward v a = a\<lparr>sg_ForwardIdle := v\<rparr>"

definition Value :: "settings \<Rightarrow> string \<Rightarrow> string option" where
  "Value a name =
     (case legacyInt name of
        Some l \<Rightarrow> map_option show_int (legacy_get l a)
      | None \<Rightarrow>
          if name = ''logLevel'' then (if sg_LogLevel a \<noteq> [] then Some (sg_LogLevel a) else None)
          else mget (sg_Values a) name)"

text \<open>\<open>SetValue\<close>: \<open>None\<close> is the error of \<open>strconv.Atoi\<close>.\<close>

definition SetValue :: "string \<Rightarrow> string option \<Rightarrow> settings \<Rightarrow> settings option" where
  "SetValue name v a =
     (case legacyInt name of
        Some l \<Rightarrow> (case v of
            None \<Rightarrow> Some (legacy_put l None a)
          | Some s \<Rightarrow> (case parse_int64 s of None \<Rightarrow> None | Some n \<Rightarrow> Some (legacy_put l (Some n) a)))
      | None \<Rightarrow>
          if name = ''logLevel'' then Some (a\<lparr>sg_LogLevel := (case v of None \<Rightarrow> [] | Some s \<Rightarrow> s)\<rparr>)
          else (case v of
              None \<Rightarrow> Some (a\<lparr>sg_Values := mdel name (sg_Values a)\<rparr>)
            | Some s \<Rightarrow> Some (a\<lparr>sg_Values := mput name s (sg_Values a)\<rparr>)))"

definition setting_names :: "string list" where
  "setting_names = [''sessionDurationDefault'', ''sessionDurationMax'', ''sessionIdleGrace'', ''forwardIdle'', ''logLevel'']"

text \<open>\<open>All\<close>: every persisted setting; the generic values are written last.\<close>

definition All :: "settings \<Rightarrow> string gomap" where
  "All a = fold (\<lambda>(k, v). mput k v) (mitems (sg_Values a))
     (fold (\<lambda>n m. case Value a n of Some v \<Rightarrow> mput n v m | None \<Rightarrow> m) setting_names [])"

subsection \<open>State\<close>

record usage_row =
  ur_Day :: string
  ur_KeyID :: string
  ur_Model :: string
  ur_Requests :: "64 word"
  ur_PromptTokens :: "64 word"
  ur_CompletionTokens :: "64 word"
  ur_SessionSeconds :: "64 word"

record session_meta =
  sm_KeyID :: string
  sm_Model :: string
  sm_Tracked :: int

record store_state =
  st_Keys :: "key_rec list"
  st_Usage :: "usage_row option gomap"
  st_OpenSessions :: "session_meta gomap"
  st_SessionTimeMode :: string
  st_Auth :: auth_state
  st_Settings :: settings

record store_env =
  se_enc :: "store_state \<Rightarrow> string option"
  se_dec :: "string \<Rightarrow> store_state option"
  se_sha :: "string \<Rightarrow> string"

record store =
  so_st :: store_state
  so_io :: io

type_synonym 'a store_act = "(store, 'a) state"

definition get_st :: "store_state store_act" where "get_st = State (\<lambda>s. (so_st s, s))"

definition put_st :: "store_state \<Rightarrow> unit store_act" where "put_st x = State (\<lambda>s. ((), s\<lparr>so_st := x\<rparr>))"

definition on_io :: "'a io_act \<Rightarrow> 'a store_act" where
  "on_io f = State (\<lambda>s. case run_state f (so_io s) of (a, i) \<Rightarrow> (a, s\<lparr>so_io := i\<rparr>))"

definition save :: "store_env \<Rightarrow> bool store_act" where
  "save K = do { x \<leftarrow> get_st; on_io (save_file (se_enc K x)) }"

subsection \<open>Keys\<close>

datatype key_err = HashTaken | IDTaken | KeySaveFailed

definition AddKey :: "store_env \<Rightarrow> key_rec \<Rightarrow> key_err option store_act" where
  "AddKey K rec = do {
     x \<leftarrow> get_st;
     (case filter (\<lambda>k. kr_Hash k = kr_Hash rec \<or> kr_ID k = kr_ID rec) (st_Keys x) of
        k # _ \<Rightarrow> ret (Some (if kr_Hash k = kr_Hash rec then HashTaken else IDTaken))
      | [] \<Rightarrow> do {
          _ \<leftarrow> put_st (x\<lparr>st_Keys := st_Keys x @ [rec]\<rparr>);
          ok \<leftarrow> save K;
          ret (if ok then None else Some KeySaveFailed) }) }"

text \<open>The first key with the id gets the tombstone; whether there was one, and whether it was already revoked.\<close>

fun revoke_first :: "time \<Rightarrow> string \<Rightarrow> key_rec list \<Rightarrow> (bool \<times> key_rec list) option" where
  "revoke_first now i [] = None"
| "revoke_first now i (k # ks) =
     (if kr_ID k \<noteq> i then map_option (\<lambda>(b, ks'). (b, k # ks')) (revoke_first now i ks)
      else if kr_RevokedAt k \<noteq> None then Some (True, k # ks)
      else Some (False, k\<lparr>kr_RevokedAt := Some now, kr_Secret := []\<rparr> # ks))"

datatype revoke_result = ReservedKey | NoSuchKey | Revoked bool

definition RevokeKey :: "store_env \<Rightarrow> time \<Rightarrow> string \<Rightarrow> revoke_result store_act" where
  "RevokeKey K now i =
     (if i = MasterKeyID \<or> i = PromptKeyID then ret ReservedKey
      else do {
        x \<leftarrow> get_st;
        (case revoke_first now i (st_Keys x) of
           None \<Rightarrow> ret NoSuchKey
         | Some (True, ks) \<Rightarrow> ret (Revoked True)
         | Some (False, ks) \<Rightarrow> do {
             _ \<leftarrow> put_st (x\<lparr>st_Keys := ks\<rparr>);
             ok \<leftarrow> save K;
             ret (Revoked ok) }) })"

definition ListKeys :: "key_rec list store_act" where
  "ListKeys = do { x \<leftarrow> get_st; ret (st_Keys x) }"

text \<open>The id of the first key with the hash, unless it is revoked.\<close>

definition lookup_key :: "string \<Rightarrow> key_rec list \<Rightarrow> string" where
  "lookup_key h ks = (case filter (\<lambda>k. kr_Hash k = h) ks of
     [] \<Rightarrow> [] | k # _ \<Rightarrow> if kr_RevokedAt k \<noteq> None then [] else kr_ID k)"

definition LookupKey :: "store_env \<Rightarrow> string \<Rightarrow> string store_act" where
  "LookupKey K full = do { x \<leftarrow> get_st; ret (lookup_key (Hash (se_sha K) full) (st_Keys x)) }"

subsection \<open>Usage\<close>

definition usage_id :: "string \<Rightarrow> string \<Rightarrow> string \<Rightarrow> string" where
  "usage_id day keyID model = day @ ''|'' @ keyID @ ''|'' @ model"

definition new_row :: "string \<Rightarrow> string \<Rightarrow> string \<Rightarrow> usage_row" where
  "new_row day keyID model = \<lparr>ur_Day = day, ur_KeyID = keyID, ur_Model = model, ur_Requests = 0, ur_PromptTokens = 0,
     ur_CompletionTokens = 0, ur_SessionSeconds = 0\<rparr>"

text \<open>A row of the map is found or made, and credited; \<open>None\<close> is the panic of a nil row.\<close>

definition credit :: "(usage_row \<Rightarrow> usage_row) \<Rightarrow> string \<Rightarrow> string \<Rightarrow> string \<Rightarrow> usage_row option gomap \<Rightarrow> usage_row option gomap option" where
  "credit f day keyID model u =
     (let i = usage_id day keyID model
      in case mget u i of
           None \<Rightarrow> Some (mput i (Some (f (new_row day keyID model))) u)
         | Some None \<Rightarrow> None
         | Some (Some row) \<Rightarrow> Some (mput i (Some (f row)) u))"

definition add_request :: "64 word \<Rightarrow> 64 word \<Rightarrow> usage_row \<Rightarrow> usage_row" where
  "add_request p c row = row\<lparr>ur_Requests := ur_Requests row + 1, ur_PromptTokens := ur_PromptTokens row + p,
     ur_CompletionTokens := ur_CompletionTokens row + c\<rparr>"

definition add_seconds :: "64 word \<Rightarrow> usage_row \<Rightarrow> usage_row" where
  "add_seconds n row = row\<lparr>ur_SessionSeconds := ur_SessionSeconds row + n\<rparr>"

definition RecordUsage :: "store_env \<Rightarrow> time \<Rightarrow> string \<Rightarrow> string \<Rightarrow> 64 word \<Rightarrow> 64 word \<Rightarrow> unit option store_act" where
  "RecordUsage K now keyID model p c = do {
     x \<leftarrow> get_st;
     (case credit (add_request p c) (day_string now) keyID model (st_Usage x) of
        None \<Rightarrow> ret None
      | Some u \<Rightarrow> do {
          _ \<leftarrow> put_st (x\<lparr>st_Usage := u\<rparr>);
          _ \<leftarrow> save K;
          ret (Some ()) }) }"

definition TrackSessionOpen :: "store_env \<Rightarrow> time \<Rightarrow> string \<Rightarrow> string \<Rightarrow> string \<Rightarrow> unit store_act" where
  "TrackSessionOpen K now sessionID0 keyID model =
     (let sessionID = trim sessionID0 in
      if sessionID = [] then ret ()
      else do {
        x \<leftarrow> get_st;
        _ \<leftarrow> put_st (x\<lparr>st_OpenSessions := mput sessionID \<lparr>sm_KeyID = keyID, sm_Model = model, sm_Tracked = unix now\<rparr> (st_OpenSessions x)\<rparr>);
        _ \<leftarrow> save K;
        ret () })"

text \<open>Who pays for a closed session: what was recorded at its open, else the fallbacks.\<close>

definition payer :: "session_meta option \<Rightarrow> string \<Rightarrow> string \<times> string" where
  "payer meta modelFallback =
     (let (keyID, model) = (case meta of
            None \<Rightarrow> (''unknown'', modelFallback)
          | Some m \<Rightarrow> (if sm_KeyID m \<noteq> [] then sm_KeyID m else ''unknown'', if sm_Model m \<noteq> [] then sm_Model m else modelFallback))
      in (keyID, if model = [] then ''unknown'' else model))"

definition RecordSessionClose :: "store_env \<Rightarrow> time \<Rightarrow> string \<Rightarrow> 64 word \<Rightarrow> string \<Rightarrow> unit option store_act" where
  "RecordSessionClose K now sessionID0 actualSeconds modelFallback =
     (let sessionID = trim sessionID0 in
      if sessionID = [] \<or> sint actualSeconds \<le> 0 then ret (Some ())
      else do {
        x \<leftarrow> get_st;
        (let (keyID, model) = payer (mget (st_OpenSessions x) sessionID) modelFallback;
             x1 = x\<lparr>st_OpenSessions := mdel sessionID (st_OpenSessions x)\<rparr>
         in case credit (add_seconds actualSeconds) (day_string now) keyID model (st_Usage x1) of
              None \<Rightarrow> do { _ \<leftarrow> put_st x1; ret None }
            | Some u \<Rightarrow> do {
                _ \<leftarrow> put_st (x1\<lparr>st_Usage := u\<rparr>);
                _ \<leftarrow> save K;
                ret (Some ()) }) })"

text \<open>
  \<open>Usage\<close>: the rows, the latest day first and then the busiest; equal ones in any order (\<open>sort.Slice\<close> on a
  map's rows). A nil row panics.
\<close>

definition row_before :: "usage_row \<Rightarrow> usage_row \<Rightarrow> bool" where
  "row_before a b \<longleftrightarrow> (if ur_Day a \<noteq> ur_Day b then ur_Day a > ur_Day b else sint (ur_Requests a) > sint (ur_Requests b))"

fun insert_row :: "usage_row \<Rightarrow> usage_row list \<Rightarrow> usage_row list" where
  "insert_row r [] = [r]"
| "insert_row r (x # xs) = (if row_before x r then x # insert_row r xs else r # x # xs)"

definition sorted_rows :: "usage_row list \<Rightarrow> usage_row list" where
  "sorted_rows rs = foldr insert_row rs []"

definition Usage :: "usage_row list option store_act" where
  "Usage = do {
     x \<leftarrow> get_st;
     (let rows = map snd (mitems (st_Usage x))
      in ret (if None \<in> set rows then None else Some (sorted_rows (map the rows)))) }"

definition old_row :: "string \<Rightarrow> usage_row option \<Rightarrow> bool" where
  "old_row cutoff r \<longleftrightarrow> (case r of None \<Rightarrow> True | Some row \<Rightarrow> ur_Day row < cutoff)"

definition PruneUsageOlderThan :: "store_env \<Rightarrow> time \<Rightarrow> int \<Rightarrow> (nat \<times> bool) store_act" where
  "PruneUsageOlderThan K now days0 =
     (let days = (if days0 \<le> 0 then 30 else days0); cutoff = day_string (now - days * (24 * hour))
      in do {
        x \<leftarrow> get_st;
        (let removed = length (filter (\<lambda>(i, r). old_row cutoff r) (mitems (st_Usage x)))
         in if removed = 0 then ret (0, True)
            else do {
              _ \<leftarrow> put_st (x\<lparr>st_Usage := mfilter (\<lambda>i r. \<not> old_row cutoff r) (st_Usage x)\<rparr>);
              ok \<leftarrow> save K;
              ret (removed, ok) }) })"

subsection \<open>2FA state and settings\<close>

definition GetAuthState :: "auth_state store_act" where
  "GetAuthState = do { x \<leftarrow> get_st; ret (st_Auth x) }"

definition SetAuthState :: "store_env \<Rightarrow> auth_state \<Rightarrow> bool store_act" where
  "SetAuthState K a = do { x \<leftarrow> get_st; _ \<leftarrow> put_st (x\<lparr>st_Auth := a\<rparr>); save K }"

text \<open>An update of a part of the state that is undone when the save fails; \<open>Some None\<close> is the save's error.\<close>

definition update_part ::
  "store_env \<Rightarrow> (store_state \<Rightarrow> 'p) \<Rightarrow> ('p \<Rightarrow> store_state \<Rightarrow> store_state) \<Rightarrow> ('p \<Rightarrow> 'e + 'p) \<Rightarrow> 'e option option store_act" where
  "update_part K get put fn = do {
     x \<leftarrow> get_st;
     (case fn (get x) of
        Inl e \<Rightarrow> ret (Some (Some e))
      | Inr nxt \<Rightarrow> do {
          _ \<leftarrow> put_st (put nxt x);
          ok \<leftarrow> save K;
          (if ok then ret None
           else do { y \<leftarrow> get_st; _ \<leftarrow> put_st (put (get x) y); ret (Some None) }) }) }"

definition UpdateAuth :: "store_env \<Rightarrow> (auth_state \<Rightarrow> 'e + auth_state) \<Rightarrow> 'e option option store_act" where
  "UpdateAuth K = update_part K st_Auth (\<lambda>a x. x\<lparr>st_Auth := a\<rparr>)"

definition GetSettings :: "settings store_act" where
  "GetSettings = do { x \<leftarrow> get_st; ret (st_Settings x) }"

definition UpdateSettings :: "store_env \<Rightarrow> (settings \<Rightarrow> 'e + settings) \<Rightarrow> 'e option option store_act" where
  "UpdateSettings K = update_part K st_Settings (\<lambda>a x. x\<lparr>st_Settings := a\<rparr>)"

subsection \<open>Opening the store\<close>

definition no_settings :: settings where
  "no_settings = \<lparr>sg_SessionDurationDefault = None, sg_SessionDurationMax = None, sg_SessionIdleGrace = None,
     sg_ForwardIdle = None, sg_LogLevel = [], sg_Values = []\<rparr>"

definition no_auth :: auth_state where
  "no_auth = \<lparr>au_TOTPBlob = [], au_TOTPSalt = [], au_RecoveryCodes = [], au_PasswordFingerprint = [], au_Enrolled = False,
     au_LastTOTPStep = 0, au_BreakGlassDone = False, au_PendingSecretEnc = [], au_PendingExpires = zero_time, au_TwoFactorOn = False\<rparr>"

definition new_state :: store_state where
  "new_state = \<lparr>st_Keys = [], st_Usage = [], st_OpenSessions = [], st_SessionTimeMode = [], st_Auth = no_auth, st_Settings = no_settings\<rparr>"

datatype opened = OpenedStore | OpenFailed | OpenPanic

text \<open>The migration off the old accounting: session seconds start again at zero, once.\<close>

definition migrate :: "store_state \<Rightarrow> store_state option" where
  "migrate x = (if None \<in> set (map snd (mitems (st_Usage x))) then None
     else Some (x\<lparr>st_Usage := map (\<lambda>(i, r). (i, map_option (\<lambda>row. row\<lparr>ur_SessionSeconds := 0\<rparr>) r)) (st_Usage x),
       st_SessionTimeMode := ''actual''\<rparr>))"

definition OpenStore :: "store_env \<Rightarrow> time \<Rightarrow> opened store_act" where
  "OpenStore K now = do {
     mk \<leftarrow> on_io plain_call;
     (case mk of
        None \<Rightarrow> ret OpenFailed
      | Some _ \<Rightarrow> do {
          _ \<leftarrow> on_io (removeOrphanTempsAt now);
          ok \<leftarrow> on_io (refuseSymlink state_file);
          if \<not> ok then ret OpenFailed
          else do {
            raw \<leftarrow> on_io (readNoFollow state_file);
            (case raw of
               ReadFailed \<Rightarrow> ret OpenFailed
             | NoFile \<Rightarrow> do { _ \<leftarrow> put_st new_state; ret OpenedStore }
             | FileData d \<Rightarrow> (case se_dec K d of
                 None \<Rightarrow> ret OpenFailed
               | Some x \<Rightarrow>
                   if st_SessionTimeMode x = ''actual'' then do { _ \<leftarrow> put_st x; ret OpenedStore }
                   else (case migrate x of
                       None \<Rightarrow> ret OpenPanic
                     | Some y \<Rightarrow> do { _ \<leftarrow> put_st y; _ \<leftarrow> save K; ret OpenedStore }))) } }) }"

end
