(* ===== verification/Store_Props.thy ===== *)
theory Store_Props
  imports Store
begin

section \<open>Properties of the store\<close>

text \<open>
  Runs of the store's operations: the key table stays sound and revocations stay, usage rows add up, crashes
  leave a state the store had, retention removes what is old, and settings read back as they were set.
\<close>

subsection \<open>Runs\<close>

datatype store_op =
    OpAdd key_rec | OpRevoke time string | OpUsage time string string "64 word" "64 word"
  | OpTrack time string string string | OpClose time string "64 word" string | OpPrune time int
  | OpAuth auth_state | OpSetting string "string option"

definition store_step :: "store_env \<Rightarrow> store_op \<Rightarrow> unit store_act" where
  "store_step K op =
     (case op of
        OpAdd rec \<Rightarrow> do { _ \<leftarrow> AddKey K rec; ret () }
      | OpRevoke now i \<Rightarrow> do { _ \<leftarrow> RevokeKey K now i; ret () }
      | OpUsage now k m p c \<Rightarrow> do { _ \<leftarrow> RecordUsage K now k m p c; ret () }
      | OpTrack now i k m \<Rightarrow> TrackSessionOpen K now i k m
      | OpClose now i n m \<Rightarrow> do { _ \<leftarrow> RecordSessionClose K now i n m; ret () }
      | OpPrune now days \<Rightarrow> do { _ \<leftarrow> PruneUsageOlderThan K now days; ret () }
      | OpAuth a \<Rightarrow> do { _ \<leftarrow> SetAuthState K a; ret () }
      | OpSetting n v \<Rightarrow> do {
          _ \<leftarrow> UpdateSettings K (\<lambda>a. case SetValue n v a of None \<Rightarrow> Inl () | Some b \<Rightarrow> Inr b); ret () })"

primrec store_run :: "store_env \<Rightarrow> store_op list \<Rightarrow> unit store_act" where
  "store_run K [] = ret ()"
| "store_run K (op # ops) = do { _ \<leftarrow> store_step K op; store_run K ops }"

text \<open>What an operation makes of the state before it saves.\<close>

definition effect :: "store_op \<Rightarrow> store_state \<Rightarrow> store_state" where
  "effect op x =
     (case op of
        OpAdd rec \<Rightarrow> if list_ex (\<lambda>k. kr_Hash k = kr_Hash rec \<or> kr_ID k = kr_ID rec) (st_Keys x) then x
          else x\<lparr>st_Keys := st_Keys x @ [rec]\<rparr>
      | OpRevoke now i \<Rightarrow> if i = MasterKeyID \<or> i = PromptKeyID then x
          else (case revoke_first now i (st_Keys x) of Some (False, ks) \<Rightarrow> x\<lparr>st_Keys := ks\<rparr> | _ \<Rightarrow> x)
      | OpUsage now k m p c \<Rightarrow> (case credit (add_request p c) (day_string now) k m (st_Usage x) of
            None \<Rightarrow> x | Some u \<Rightarrow> x\<lparr>st_Usage := u\<rparr>)
      | OpTrack now i k m \<Rightarrow> if trim i = [] then x
          else x\<lparr>st_OpenSessions := mput (trim i) \<lparr>sm_KeyID = k, sm_Model = m, sm_Tracked = unix now\<rparr> (st_OpenSessions x)\<rparr>
      | OpClose now i n m \<Rightarrow> if trim i = [] \<or> sint n \<le> 0 then x
          else (let (k, md) = payer (mget (st_OpenSessions x) (trim i)) m; x1 = x\<lparr>st_OpenSessions := mdel (trim i) (st_OpenSessions x)\<rparr>
                in case credit (add_seconds n) (day_string now) k md (st_Usage x1) of None \<Rightarrow> x1 | Some u \<Rightarrow> x1\<lparr>st_Usage := u\<rparr>)
      | OpPrune now days \<Rightarrow>
          (let cutoff = day_string (now - (if days \<le> 0 then 30 else days) * (24 * hour))
           in if filter (\<lambda>(i, r). old_row cutoff r) (mitems (st_Usage x)) = [] then x
              else x\<lparr>st_Usage := mfilter (\<lambda>i r. \<not> old_row cutoff r) (st_Usage x)\<rparr>)
      | OpAuth a \<Rightarrow> x\<lparr>st_Auth := a\<rparr>
      | OpSetting n v \<Rightarrow> (case SetValue n v (st_Settings x) of None \<Rightarrow> x | Some b \<Rightarrow> x\<lparr>st_Settings := b\<rparr>))"

text \<open>A save changes the disk only.\<close>

lemma run_put_seq: "run_state (do { _ \<leftarrow> put_st x; g }) s = run_state g (s\<lparr>so_st := x\<rparr>)"
  by (simp add: put_st_def State_Monad.run_state_bind)

lemma run_put [simp]: "run_state (put_st x) s = ((), s\<lparr>so_st := x\<rparr>)"
  by (simp add: put_st_def)

lemma run_get_seq: "run_state (do { x \<leftarrow> get_st; g x }) s = run_state (g (so_st s)) s"
  by (simp add: get_st_def State_Monad.run_state_bind)

lemma save_io: "run_state (save K) s = (case run_state (save_file (se_enc K (so_st s))) (so_io s) of (ok, i) \<Rightarrow> (ok, s\<lparr>so_io := i\<rparr>))"
  by (simp add: save_def run_get_seq on_io_def)

text \<open>
  A property of the state and the disk that a save keeps is kept by an operation whose effect keeps it.
\<close>

lemma save_then:
  assumes J: "\<And>s. J s \<longleftrightarrow> I (so_st s) \<and> D (so_io s)" and "keeps J (save K)" and "J s"
    and "\<And>ok t. J t \<Longrightarrow> so_st t = so_st s \<Longrightarrow> J (snd (run_state (g ok) t))"
  shows "J (snd (run_state (save K \<bind> g) s))"
proof -
  obtain ok t where t: "run_state (save K) s = (ok, t)" by fastforce
  then have "so_st t = so_st s" by (auto simp: save_io split: prod.splits)
  moreover have "J t" using assms(2,3) t by (auto simp: keeps_def)
  ultimately show ?thesis using assms(4) t by (simp add: State_Monad.run_state_bind)
qed

lemma step_keeps:
  assumes J: "\<And>s. J s \<longleftrightarrow> I (so_st s) \<and> D (so_io s)" and save: "keeps J (save K)" and eff: "\<And>x. I x \<Longrightarrow> I (effect op x)"
  shows "keeps J (store_step K op)"
  unfolding keeps_def
proof (intro allI impI)
  fix s assume s: "J s"
  have st: "J (snd (run_state (save K \<bind> g) (s\<lparr>so_st := y\<rparr>)))"
    if "y = effect op (so_st s)" and "\<And>ok t. J t \<Longrightarrow> so_st t = y \<Longrightarrow> J (snd (run_state (g ok) t))" for y g
    by (rule save_then [OF J save]) (use that s J eff in auto)
  have st1: "J (snd (run_state (save K) (s\<lparr>so_st := y\<rparr>)))" if "y = effect op (so_st s)" for y
    using save that s J eff by (auto simp: keeps_def)
  have quiet: "J (s\<lparr>so_st := y\<rparr>)" if "y = effect op (so_st s)" for y using that s J eff by simp
  show "J (snd (run_state (store_step K op) s))"
  proof (cases op)
    case (OpAdd rec)
    have "filter (\<lambda>k. kr_Hash k = kr_Hash rec \<or> kr_ID k = kr_ID rec) (st_Keys (so_st s)) = [] \<longleftrightarrow>
        \<not> list_ex (\<lambda>k. kr_Hash k = kr_Hash rec \<or> kr_ID k = kr_ID rec) (st_Keys (so_st s))" by (auto simp: filter_empty_conv list_ex_iff)
    with s show ?thesis
      by (auto simp: OpAdd store_step_def AddKey_def effect_def run_get_seq run_put_seq split: list.split intro!: st)
  next
    case (OpSetting n v)
    have "J (t\<lparr>so_st := so_st t\<lparr>st_Settings := st_Settings (so_st s)\<rparr>\<rparr>)" if "J t" "so_st t = (so_st s)\<lparr>st_Settings := b\<rparr>" for t b
      using s that J by simp
    with s show ?thesis
      by (auto simp: OpSetting store_step_def UpdateSettings_def update_part_def effect_def run_get_seq run_put_seq split: option.split intro!: st)
  qed (use s in \<open>auto simp: store_step_def RevokeKey_def RecordUsage_def TrackSessionOpen_def RecordSessionClose_def
      PruneUsageOlderThan_def SetAuthState_def effect_def Let_def run_get_seq run_put_seq
      split: option.splits bool.splits prod.splits intro!: st st1 quiet\<close>)
qed

subsection \<open>Keys\<close>

text \<open>Keys are only appended; a key keeps its id and hash, and a tombstone stays one.\<close>

definition key_kept :: "key_rec \<Rightarrow> key_rec \<Rightarrow> bool" where
  "key_kept k k' \<longleftrightarrow> kr_ID k' = kr_ID k \<and> kr_Hash k' = kr_Hash k \<and> (kr_RevokedAt k \<noteq> None \<longrightarrow> kr_RevokedAt k' = kr_RevokedAt k)"

definition keys_grow :: "key_rec list \<Rightarrow> key_rec list \<Rightarrow> bool" where
  "keys_grow ks ks' \<longleftrightarrow> (\<exists>us vs. ks' = us @ vs \<and> list_all2 key_kept ks us)"

lemma key_kept_refl [simp]: "key_kept k k"
  by (simp add: key_kept_def)

lemma keys_grow_refl [simp]: "keys_grow ks ks"
  unfolding keys_grow_def by (rule exI [of _ ks], rule exI [of _ "[]"]) (simp add: list_all2_refl)

lemma keys_grow_append [simp]: "keys_grow ks (ks @ vs)"
  unfolding keys_grow_def by (rule exI [of _ ks]) (simp add: list_all2_refl)

lemma keys_grow_all: "list_all2 key_kept ks us \<Longrightarrow> keys_grow ks us"
  unfolding keys_grow_def by (rule exI [of _ us], rule exI [of _ "[]"]) simp

lemma keys_grow_trans:
  assumes "keys_grow a b" and "keys_grow b c" shows "keys_grow a c"
proof -
  obtain us vs ws xs where b: "b = us @ vs" "list_all2 key_kept a us" and c: "c = ws @ xs" "list_all2 key_kept b ws"
    using assms unfolding keys_grow_def by blast
  from b(1) c(2) obtain w1 w2 where w: "ws = w1 @ w2" "list_all2 key_kept us w1" by (auto simp: list_all2_append1)
  have "list_all2 key_kept a w1"
    by (rule list_all2_trans [OF _ b(2) w(2)]) (auto simp: key_kept_def)
  then show ?thesis unfolding keys_grow_def using c(1) w(1) by (metis append_assoc)
qed

lemma revoke_kept: "revoke_first now i ks = Some (b, ks') \<Longrightarrow> list_all2 key_kept ks ks'"
  by (induction ks arbitrary: ks' b) (auto split: if_splits simp: list_all2_refl key_kept_def list.rel_refl)

lemma revoke_same: "revoke_first now i ks = Some (b, ks') \<Longrightarrow> map kr_ID ks' = map kr_ID ks \<and> map kr_Hash ks' = map kr_Hash ks"
  by (induction ks arbitrary: ks' b) (auto split: if_splits)

lemma revoke_secrets:
  "revoke_first now i ks = Some (b, ks') \<Longrightarrow> list_all (\<lambda>k. kr_RevokedAt k = None \<or> kr_Secret k = []) ks \<Longrightarrow>
   list_all (\<lambda>k. kr_RevokedAt k = None \<or> kr_Secret k = []) ks'"
  by (induction ks arbitrary: ks' b) (auto split: if_splits)

text \<open>Ids and hashes are unique, and a tombstone holds no secret.\<close>

definition keys_ok :: "store_state \<Rightarrow> bool" where
  "keys_ok x \<longleftrightarrow> distinct (map kr_ID (st_Keys x)) \<and> distinct (map kr_Hash (st_Keys x)) \<and>
     list_all (\<lambda>k. kr_RevokedAt k = None \<or> kr_Secret k = []) (st_Keys x)"

definition sound_op :: "store_op \<Rightarrow> bool" where
  "sound_op op \<longleftrightarrow> (case op of OpAdd rec \<Rightarrow> kr_RevokedAt rec = None | _ \<Rightarrow> True)"

lemma effect_keys: "keys_grow (st_Keys x) (st_Keys (effect op x))"
  by (cases op) (auto simp: effect_def Let_def split: option.split bool.split prod.split dest: revoke_kept intro!: keys_grow_all)

lemma effect_ok: "sound_op op \<Longrightarrow> keys_ok x \<Longrightarrow> keys_ok (effect op x)"
  by (cases op) (auto simp: effect_def keys_ok_def sound_op_def Let_def list_ex_iff image_iff
      split: option.split bool.split prod.split dest: revoke_same revoke_secrets)

lemma lookup_unique:
  assumes "distinct (map kr_Hash ks)" and "k \<in> set ks"
  shows "lookup_key (kr_Hash k) ks = (if kr_RevokedAt k \<noteq> None then [] else kr_ID k)"
proof -
  have "filter (\<lambda>k'. kr_Hash k' = kr_Hash k) ks = [k]"
    using assms by (induction ks) (auto simp: filter_empty_conv image_iff)
  then show ?thesis by (simp add: lookup_key_def)
qed

lemma all2_mem: "list_all2 P xs ys \<Longrightarrow> x \<in> set xs \<Longrightarrow> \<exists>y \<in> set ys. P x y"
  by (induction rule: list_all2_induct) auto

lemma grown_key: "keys_grow ks ks' \<Longrightarrow> k \<in> set ks \<Longrightarrow> \<exists>k' \<in> set ks'. key_kept k k'"
  unfolding keys_grow_def using all2_mem by fastforce

lemma run_keeps:
  assumes J: "\<And>s. J s \<longleftrightarrow> I (so_st s) \<and> D (so_io s)" and "keeps J (save K)"
    and "\<And>op x. op \<in> set ops \<Longrightarrow> I x \<Longrightarrow> I (effect op x)"
  shows "keeps J (store_run K ops)"
  using assms(3)
proof (induction ops)
  case (Cons op ops)
  then show ?case by (auto intro!: keeps_bind step_keeps [OF J assms(2)])
qed (simp add: keeps_ret)

text \<open>Without a look at the disk, every save keeps what holds of the state.\<close>

lemma run_state_keeps:
  assumes "\<And>op x. op \<in> set ops \<Longrightarrow> I x \<Longrightarrow> I (effect op x)" and "I (so_st s)"
  shows "I (so_st (snd (run_state (store_run K ops) s)))"
proof -
  have "keeps (\<lambda>s. I (so_st s)) (save K)" by (simp add: keeps_def save_io split: prod.split)
  with run_keeps [of "\<lambda>s. I (so_st s)" I "\<lambda>_. True" K ops] assms show ?thesis by (simp add: keeps_def)
qed

definition sound_ops :: "store_op list \<Rightarrow> bool" where "sound_ops ops = list_all sound_op ops"

lemma run_keys_ok: "sound_ops ops \<Longrightarrow> keys_ok (so_st s) \<Longrightarrow> keys_ok (so_st (snd (run_state (store_run K ops) s)))"
  by (rule run_state_keeps) (auto simp: sound_ops_def list_all_iff intro: effect_ok)

lemma run_keys_grow: "keys_grow (st_Keys (so_st s)) (st_Keys (so_st (snd (run_state (store_run K ops) s))))"
  by (rule run_state_keeps [where I = "\<lambda>x. keys_grow (st_Keys (so_st s)) (st_Keys x)"])
    (auto intro: keys_grow_trans effect_keys)

text \<open>
  C23: every key is its own. Whatever operations ran since the store held no key, and whichever saves failed,
  ids and hashes are unique, a revoked key holds no secret and is refused, and every other key authenticates
  as itself.
\<close>

theorem keys_sound:
  assumes "sound_ops ops" and "st_Keys (so_st s) = []"
  shows "let x = so_st (snd (run_state (store_run K ops) s))
    in keys_ok x \<and> list_all (\<lambda>k. lookup_key (kr_Hash k) (st_Keys x) = (if kr_RevokedAt k \<noteq> None then [] else kr_ID k)) (st_Keys x)"
proof -
  have "keys_ok (so_st s)" using assms(2) by (simp add: keys_ok_def)
  from run_keys_ok [OF assms(1) this, of K] show ?thesis
    by (simp add: Let_def list_all_iff keys_ok_def lookup_unique)
qed

text \<open>
  C24: a revoked key stays revoked. Once the store holds a tombstone for a key, the key is refused after any
  further operations, an attempt to add it again included.
\<close>

theorem revoked_stays_revoked:
  assumes "sound_ops ops" and "keys_ok (so_st s)" and "k \<in> set (st_Keys (so_st s))" and "kr_RevokedAt k \<noteq> None"
    and "kr_Hash k = Hash (se_sha K) full"
  shows "fst (run_state (LookupKey K full) (snd (run_state (store_run K ops) s))) = []"
proof -
  let ?x = "so_st (snd (run_state (store_run K ops) s))"
  obtain k' where k': "k' \<in> set (st_Keys ?x)" "key_kept k k'" using grown_key [OF run_keys_grow assms(3)] by blast
  have "keys_ok ?x" by (rule run_keys_ok [OF assms(1,2)])
  then have "lookup_key (kr_Hash k') (st_Keys ?x) = []"
    using lookup_unique [OF _ k'(1)] k'(2) assms(4) by (auto simp: keys_ok_def key_kept_def)
  then show ?thesis using k'(2) assms(5) by (simp add: LookupKey_def run_get_seq key_kept_def)
qed

subsection \<open>Crashes\<close>

text \<open>What a crash leaves on the disk, or left at any moment before, decodes to a state with a property.\<close>

definition crash_states :: "store_env \<Rightarrow> (store_state \<Rightarrow> bool) \<Rightarrow> string option set" where
  "crash_states K I = {c. case c of None \<Rightarrow> False | Some raw \<Rightarrow> \<exists>x. se_dec K raw = Some x \<and> I x}"

text \<open>The documented round trip of the encoding.\<close>

definition codec :: "store_env \<Rightarrow> bool" where
  "codec K \<longleftrightarrow> (\<forall>x raw. se_enc K x = Some raw \<longrightarrow> se_dec K raw = Some x)"

lemma save_crash_states:
  assumes "codec K"
  shows "keeps (\<lambda>s. I (so_st s) \<and> (\<exists>r. calm (crash_states K I) r (so_io s))) (save K)"
  unfolding keeps_def
proof (intro allI impI)
  fix s :: store assume s: "I (so_st s) \<and> (\<exists>r. calm (crash_states K I) r (so_io s))"
  then obtain r where c: "calm (crash_states K I) r (so_io s)" by blast
  obtain ok i where run: "run_state (save_file (se_enc K (so_st s))) (so_io s) = (ok, i)" by fastforce
  have "se_enc K (so_st s) = Some raw \<Longrightarrow> Some raw \<in> crash_states K I" for raw
    using assms s by (auto simp: crash_states_def codec_def)
  from tripleD [OF save_file_calm [OF this] c run] s
  show "I (so_st (snd (run_state (save K) s))) \<and> (\<exists>r. calm (crash_states K I) r (so_io (snd (run_state (save K) s))))"
    by (auto simp: save_io run)
qed

text \<open>
  A crash loses no revocation. When the file holds the store's state, then at every disk the operations
  go through, whatever calls fail, a crash leaves a file that decodes to a sound key table with every key the
  store had before, and with every revocation.
\<close>

theorem restart_keeps_keys:
  assumes "codec K" and "sound_ops ops" and "keys_ok (so_st s)" and "disk_ok (io_disk (so_io s))"
    and "after_crash (io_disk (so_io s)) = {Some raw}" and "se_dec K raw = Some (so_st s)" and "io_hist (so_io s) = []"
  shows "let i = so_io (snd (run_state (store_run K ops) s))
    in list_all (\<lambda>d. after_crash d \<subseteq> crash_states K (\<lambda>x. keys_ok x \<and> keys_grow (st_Keys (so_st s)) (st_Keys x))) (io_disk i # io_hist i)"
proof -
  let ?I = "\<lambda>x. keys_ok x \<and> keys_grow (st_Keys (so_st s)) (st_Keys x)"
  let ?J = "\<lambda>s. ?I (so_st s) \<and> (\<exists>r. calm (crash_states K ?I) r (so_io s))"
  have "?I (effect op x)" if "op \<in> set ops" "?I x" for op x
    using that assms(2) effect_ok effect_keys keys_grow_trans by (auto simp: sound_ops_def list_all_iff)
  then have "keeps ?J (store_run K ops)"
    by (intro run_keeps [where I = ?I and D = "\<lambda>i. \<exists>r. calm (crash_states K ?I) r i"] save_crash_states [OF assms(1)]) auto
  moreover have "?J s" using assms(3-7) by (auto simp: calm_def crash_states_def)
  ultimately have "?J (snd (run_state (store_run K ops) s))" by (auto simp: keeps_def)
  then show ?thesis by (auto simp: calm_def Let_def)
qed

subsection \<open>Usage\<close>

text \<open>The counters of a day, key and model.\<close>

definition usage_of :: "store_state \<Rightarrow> string \<Rightarrow> string \<Rightarrow> string \<Rightarrow> usage_row" where
  "usage_of x day k m = (case mget (st_Usage x) (usage_id day k m) of Some (Some r) \<Rightarrow> r | _ \<Rightarrow> new_row day k m)"

definition plain :: "string \<Rightarrow> bool" where "plain s \<longleftrightarrow> CHR ''|'' \<notin> set s"

lemma cut_at: "c \<notin> set a \<Longrightarrow> c \<notin> set b \<Longrightarrow> a @ c # u = b @ c # v \<longleftrightarrow> a = b \<and> u = v"
proof (induction a arbitrary: b)
  case Nil
  then show ?case by (cases b) auto
next
  case (Cons x a)
  then show ?case by (cases b) auto
qed

lemma usage_id_inj:
  assumes "plain d" and "plain d'" and "plain k" and "plain k'"
  shows "usage_id d k m = usage_id d' k' m' \<longleftrightarrow> d = d' \<and> k = k' \<and> m = m'"
  using assms by (simp add: usage_id_def plain_def cut_at)

lemma plain_digits: "list_all is_digit s \<Longrightarrow> plain s"
  by (auto simp: plain_def list_all_iff is_digit_def)

lemma plain_show: "plain (show_int i)"
  using plain_digits [of "show_nat (nat i)"] plain_digits [of "show_nat (nat (- i))"] show_nat_digits
  by (auto simp: show_int_def all_digits_def plain_def)

lemma plain_day [simp]: "plain (day_string t)"
proof -
  have "plain (pad_nat w n)" for w n using pad_nat_digits [of w n] by (auto intro: plain_digits)
  then show ?thesis using plain_show by (auto simp: day_string_def day_text_def year_text_def plain_def split: prod.split)
qed

definition no_nil :: "store_state \<Rightarrow> bool" where
  "no_nil x \<longleftrightarrow> (\<forall>i. mget (st_Usage x) i \<noteq> Some None)"

lemma credit_usage:
  assumes "plain d" and "plain k" and "plain d'" and "plain k'" and "no_nil x" and "credit f d k m (st_Usage x) = Some u"
  shows "usage_of (x\<lparr>st_Usage := u\<rparr>) d' k' m' = (if d' = d \<and> k' = k \<and> m' = m then f (usage_of x d' k' m') else usage_of x d' k' m')"
  using assms usage_id_inj [OF assms(3,1,4,2)]
  by (auto simp: credit_def usage_of_def no_nil_def Let_def split: option.splits)

lemma credit_total: "no_nil x \<Longrightarrow> \<exists>u. credit f d k m (st_Usage x) = Some u \<and> no_nil (x\<lparr>st_Usage := u\<rparr>)"
  by (auto simp: credit_def no_nil_def Let_def split: option.splits)

text \<open>A request as the log of the day would have it: its time, key, model and tokens.\<close>

definition request_op :: "time \<times> string \<times> string \<times> 64 word \<times> 64 word \<Rightarrow> store_op" where
  "request_op q = (case q of (t, k, m, p, c) \<Rightarrow> OpUsage t k m p c)"

definition request_of :: "string \<Rightarrow> string \<Rightarrow> string \<Rightarrow> time \<times> string \<times> string \<times> 64 word \<times> 64 word \<Rightarrow> usage_row \<Rightarrow> usage_row" where
  "request_of d k m q row = (case q of (t, k', m', p, c) \<Rightarrow> if day_string t = d \<and> k' = k \<and> m' = m then add_request p c row else row)"

lemma run_unit_seq: "run_state (f \<bind> g) s = run_state (g ()) (snd (run_state f s))"
  by (simp add: State_Monad.run_state_bind split: prod.split)

lemma save_stD: "run_state (save K) s = (ok, t) \<Longrightarrow> so_st t = so_st s"
  by (auto simp: save_io split: prod.splits)

lemma usage_step_st: "so_st (snd (run_state (store_step K (OpUsage t k m p c)) s)) = effect (OpUsage t k m p c) (so_st s)"
  by (auto simp: store_step_def RecordUsage_def effect_def run_get_seq run_put_seq State_Monad.run_state_bind [of "save K"]
      split: option.split prod.split dest: save_stD)


text \<open>
  Retention removes what is old and nothing else. In the years 1 to 9999, pruning keeps exactly the rows of
  the last \<open>days\<close> days and today (30 when the number is not positive), reports how many rows it removed, and
  leaves keys and open sessions alone.
\<close>

theorem prune_exact:
  fixes now days :: int defines "n \<equiv> if days \<le> 0 then 30 else days"
  assumes "list_all (\<lambda>(i, r). case r of None \<Rightarrow> False | Some row \<Rightarrow> ur_Day row = day_text (f i)) (mitems (st_Usage (so_st s)))"
    and "\<And>i. - 719162 \<le> f i \<and> f i < 2932897" and "- 719162 \<le> day_of now - n" and "day_of now < 2932897"
    and "run_state (PruneUsageOlderThan K now days) s = ((removed, saved), s')"
  shows "mget (st_Usage (so_st s')) i = (case mget (st_Usage (so_st s)) i of
      None \<Rightarrow> None | Some r \<Rightarrow> if f i < day_of now - n then None else Some r) \<and>
    removed = card {i. mget (st_Usage (so_st s)) i \<noteq> None \<and> f i < day_of now - n} \<and>
    st_Keys (so_st s') = st_Keys (so_st s) \<and> st_OpenSessions (so_st s') = st_OpenSessions (so_st s)"
proof -
  let ?u = "st_Usage (so_st s)" and ?c = "day_string (now - n * (24 * hour))"
  let ?old = "old_row ?c"
  have "day_of (now - n * (24 * hour)) = day_of now - n" by (simp add: day_of_def hour_def)
  then have c: "?c = day_text (day_of now - n)" by (simp add: day_string_def)
  have n: "1 \<le> n" by (simp add: n_def)
  have cut: "ur_Day row < ?c \<longleftrightarrow> f i < day_of now - n" if "mget ?u i = Some (Some row)" for i row
  proof -
    have "(i, Some row) \<in> set (mitems ?u)" using that by (simp add: mem_mitems)
    then have "ur_Day row = day_text (f i)" using assms(2) unfolding list_all_iff by fastforce
    then show ?thesis using day_text_less [of "f i" "day_of now - n"] assms(3) [of i] assms(4,5) n by (simp add: c)
  qed
  have nil: "mget ?u i \<noteq> Some None" for i
  proof
    assume "mget ?u i = Some None"
    then have "(i, None) \<in> set (mitems ?u)" by (simp add: mem_mitems)
    then show False using assms(2) unfolding list_all_iff by fastforce
  qed
  have old: "?old r \<longleftrightarrow> f i < day_of now - n" if "mget ?u i = Some r" for i r
    using cut [of i] nil [of i] that by (cases r) (auto simp: old_row_def)
  have "length (filter (\<lambda>(i, r). ?old r) (mitems ?u)) = card (fst ` {p \<in> set (mitems ?u). ?old (snd p)})"
  proof -
    have "distinct (map fst (filter (\<lambda>(i, r). ?old r) (mitems ?u)))" by (simp add: distinct_map_filter)
    from distinct_card [OF this] show ?thesis by (simp add: case_prod_beta)
  qed
  also have "fst ` {p \<in> set (mitems ?u). ?old (snd p)} = {i. mget ?u i \<noteq> None \<and> f i < day_of now - n}"
    using old by (force simp: mem_mitems image_iff)
  finally have cnt: "length (filter (\<lambda>(i, r). ?old r) (mitems ?u)) = card {i. mget ?u i \<noteq> None \<and> f i < day_of now - n}" .
  have run: "run_state (PruneUsageOlderThan K now days) s =
      (if filter (\<lambda>(i, r). ?old r) (mitems ?u) = [] then ((0, True), s)
       else case run_state (save K) (s\<lparr>so_st := (so_st s)\<lparr>st_Usage := mfilter (\<lambda>i r. \<not> ?old r) ?u\<rparr>\<rparr>) of
         (ok, t) \<Rightarrow> ((length (filter (\<lambda>(i, r). ?old r) (mitems ?u)), ok), t))"
    unfolding PruneUsageOlderThan_def n_def [symmetric]
    by (simp add: Let_def run_get_seq run_put_seq State_Monad.run_state_bind [of "save K"])
  show ?thesis
  proof (cases "filter (\<lambda>(i, r). ?old r) (mitems ?u) = []")
    case True
    then have none: "\<not> f i < day_of now - n" if "mget ?u i = Some r" for i r
      using that old [OF that] by (auto simp: filter_empty_conv mem_mitems)
    from True assms(6) [unfolded run] have "s' = s" "removed = 0" by simp_all
    with none cnt True show ?thesis by (auto split: option.split)
  next
    case False
    with assms(6) [unfolded run] cnt
    have "removed = card {i. mget ?u i \<noteq> None \<and> f i < day_of now - n}" "so_st s' = (so_st s)\<lparr>st_Usage := mfilter (\<lambda>i r. \<not> ?old r) ?u\<rparr>"
      by (auto split: prod.splits dest!: save_stD)
    then show ?thesis using old by (auto split: option.split)
  qed
qed

subsection \<open>Settings\<close>

lemma legacy_other [simp]: "legacy_get l (a\<lparr>sg_LogLevel := x\<rparr>) = legacy_get l a" "legacy_get l (a\<lparr>sg_Values := vs\<rparr>) = legacy_get l a"
  by (cases l; simp)+

text \<open>
  Settings read back. When a set succeeds, the setting reads as what was set, as a canonical number for
  the first four, and as unset when it was cleared (or is an empty log level); every other setting is as it
  was. A set fails exactly for text that is not a 64-bit integer in one of the four.
\<close>

theorem settings_roundtrip:
  "case SetValue name v a of
     None \<Rightarrow> legacyInt name \<noteq> None \<and> (\<exists>s. v = Some s \<and> parse_int64 s = None)
   | Some a' \<Rightarrow>
       Value a' name = (case v of
           None \<Rightarrow> None
         | Some s \<Rightarrow> if legacyInt name \<noteq> None then map_option show_int (parse_int64 s)
                   else if name = ''logLevel'' \<and> s = [] then None else Some s) \<and>
       Value a' other = (if other = name then Value a' name else Value a other)"
proof (cases "legacyInt name")
  case None
  then show ?thesis by (auto simp: SetValue_def Value_def split: option.split)
next
  case (Some l)
  have same: "legacy_get l (legacy_put l x a) = x" for x by (cases l) simp_all
  have inj: "legacyInt other = Some l \<longleftrightarrow> other = name" using Some by (auto simp: legacyInt_def split: if_splits)
  have "legacy_get l' (legacy_put l x a) = legacy_get l' a" if "l' \<noteq> l" for l' x using that by (cases l; cases l') simp_all
  moreover have "sg_LogLevel (legacy_put l x a) = sg_LogLevel a" "sg_Values (legacy_put l x a) = sg_Values a" for x by (cases l; simp)+
  ultimately have "Value (legacy_put l x a) other = (if other = name then map_option show_int x else Value a other)" for x
    using same inj Some by (auto simp: Value_def split: option.split)
  moreover have "Value (legacy_put l x a) name = map_option show_int x" for x using same Some by (simp add: Value_def)
  ultimately show ?thesis using Some by (auto simp: SetValue_def split: option.split)
qed

subsection \<open>A failed save\<close>

text \<open>
  A key whose save failed works all the same. When \<open>AddKey\<close> reports that the save failed (and the console
  answers with an error), the key is already in the table and authenticates until the process ends.
\<close>

theorem add_key_failed_works:
  assumes "run_state (AddKey K rec) s = (Some KeySaveFailed, s')" and "kr_RevokedAt rec = None" and "kr_Hash rec = Hash (se_sha K) full"
  shows "fst (run_state (LookupKey K full) s') = kr_ID rec"
proof -
  have f: "filter (\<lambda>k. kr_Hash k = kr_Hash rec \<or> kr_ID k = kr_ID rec) (st_Keys (so_st s)) = []"
    using assms(1) by (auto simp: AddKey_def run_get_seq split: list.splits if_splits)
  then have "so_st s' = (so_st s)\<lparr>st_Keys := st_Keys (so_st s) @ [rec]\<rparr>"
    using assms(1) by (auto simp: AddKey_def run_get_seq run_put_seq State_Monad.run_state_bind [of "save K"] split: prod.splits if_splits dest: save_stD)
  moreover have "filter (\<lambda>k. kr_Hash k = kr_Hash rec) (st_Keys (so_st s)) = []" using f by (auto simp: filter_empty_conv)
  ultimately show ?thesis using assms(2,3) by (simp add: LookupKey_def run_get_seq lookup_key_def)
qed

subsection \<open>Witnesses\<close>

definition toy_key :: "string \<Rightarrow> string \<Rightarrow> time option \<Rightarrow> key_rec" where
  "toy_key i h r = \<lparr>kr_ID = i, kr_Name = ''n'', kr_Prefix = ''sk'', kr_Hash = hex_encode h, kr_Secret = [], kr_CreatedAt = 0, kr_RevokedAt = r\<rparr>"

definition toy_state :: store_state where
  "toy_state = new_state\<lparr>st_Keys := [toy_key ''a'' ''k1'' None, toy_key ''b'' ''k2'' (Some 4)], st_SessionTimeMode := ''actual''\<rparr>"

text \<open>An encoding that knows one state, and cannot encode others.\<close>

definition toy_store :: store_env where
  "toy_store = \<lparr>se_enc = (\<lambda>x. if x = toy_state then Some ''T'' else None), se_dec = (\<lambda>r. if r = ''T'' then Some toy_state else None),
     se_sha = (\<lambda>s. s)\<rparr>"

definition toy_sys :: "store_state \<Rightarrow> store" where
  "toy_sys x = \<lparr>so_st = x, so_io = toy_io (one_file ''T'') []\<rparr>"

lemma toy_keys_ok: "keys_ok toy_state"
  by (simp add: keys_ok_def toy_state_def toy_key_def hex_digit_def)

lemma keys_sound_witness:
  "let x = so_st (snd (run_state (store_run toy_store [OpAdd (toy_key ''a'' ''k1'' None), OpRevoke 4 ''a'', OpAdd (toy_key ''a'' ''k2'' None)])
       (toy_sys new_state)))
   in keys_ok x \<and> list_all (\<lambda>k. lookup_key (kr_Hash k) (st_Keys x) = (if kr_RevokedAt k \<noteq> None then [] else kr_ID k)) (st_Keys x)"
  by (rule keys_sound) (simp_all add: sound_ops_def sound_op_def toy_key_def toy_sys_def new_state_def)

lemma revoked_stays_revoked_witness:
  "fst (run_state (LookupKey toy_store ''k2'') (snd (run_state (store_run toy_store [OpAdd (toy_key ''c'' ''k2'' None)]) (toy_sys toy_state)))) = []"
  by (rule revoked_stays_revoked [where k = "toy_key ''b'' ''k2'' (Some 4)"])
    (simp_all add: sound_ops_def sound_op_def toy_sys_def toy_keys_ok, simp_all add: toy_state_def toy_key_def toy_store_def Hash_def)

lemma restart_keeps_keys_witness:
  "let i = so_io (snd (run_state (store_run toy_store [OpAdd (toy_key ''c'' ''k3'' None), OpRevoke 4 ''a'']) (toy_sys toy_state)))
   in list_all (\<lambda>d. after_crash d \<subseteq> crash_states toy_store (\<lambda>x. keys_ok x \<and> keys_grow (st_Keys (so_st (toy_sys toy_state))) (st_Keys x)))
     (io_disk i # io_hist i)"
proof (rule restart_keeps_keys)
  show "codec toy_store" by (simp add: codec_def toy_store_def)
  show "after_crash (io_disk (so_io (toy_sys toy_state))) = {Some ''T''}"
    by (simp add: toy_sys_def after_crash_def crash_data_def) (simp add: one_file_def mget_def)
qed (simp_all add: toy_sys_def toy_keys_ok one_file_ok sound_ops_def sound_op_def toy_key_def, simp_all add: toy_store_def toy_io_def)


lemma add_key_failed_works_witness:
  "run_state (AddKey toy_store (toy_key ''c'' ''k3'' None)) (toy_sys toy_state) = (Some KeySaveFailed,
      snd (run_state (AddKey toy_store (toy_key ''c'' ''k3'' None)) (toy_sys toy_state))) \<and>
   fst (run_state (LookupKey toy_store ''k3'') (snd (run_state (AddKey toy_store (toy_key ''c'' ''k3'' None)) (toy_sys toy_state)))) = ''c''"
proof -
  have r: "fst (run_state (AddKey toy_store (toy_key ''c'' ''k3'' None)) (toy_sys toy_state)) = Some KeySaveFailed"
    by code_simp
  then have "run_state (AddKey toy_store (toy_key ''c'' ''k3'' None)) (toy_sys toy_state) = (Some KeySaveFailed,
      snd (run_state (AddKey toy_store (toy_key ''c'' ''k3'' None)) (toy_sys toy_state)))" by (metis prod.collapse)
  from add_key_failed_works [OF this, of "''k3''"] this show ?thesis by (simp add: toy_key_def toy_store_def Hash_def)
qed

definition toy_rows :: store_state where
  "toy_rows = new_state\<lparr>st_Usage := [(''x'', Some (new_row ''1970-01-02'' ''a'' ''m'')), (''y'', Some (new_row ''1970-02-01'' ''a'' ''m''))]\<rparr>"

lemma prune_exact_witness:
  "fst (fst (run_state (PruneUsageOlderThan toy_store (35 * 24 * hour) 0) (toy_sys toy_rows))) =
     card {i. mget (st_Usage toy_rows) i \<noteq> None \<and> (if i = ''x'' then 1 else 31) < (5 :: int)} \<and>
   mget (st_Usage (so_st (snd (run_state (PruneUsageOlderThan toy_store (35 * 24 * hour) 0) (toy_sys toy_rows))))) ''x'' = None"
proof -
  obtain removed saved s' where r: "run_state (PruneUsageOlderThan toy_store (35 * 24 * hour) 0) (toy_sys toy_rows) = ((removed, saved), s')"
    by (metis prod.collapse)
  have d: "day_text 1 = ''1970-01-02''" "day_text 31 = ''1970-02-01''" by code_simp+
  have u: "mitems (st_Usage toy_rows) = st_Usage toy_rows" "mget (st_Usage toy_rows) ''x'' = Some (Some (new_row ''1970-01-02'' ''a'' ''m''))"
    by code_simp+
  have "day_of (35 * 24 * hour) = 35" by (simp add: day_of_def hour_def)
  with prune_exact [where s = "toy_sys toy_rows" and f = "\<lambda>i. if i = ''x'' then 1 else 31" and now = "35 * 24 * hour" and days = 0
      and K = toy_store and i = "''x''", OF _ _ _ _ r] r u d
  show ?thesis by (simp add: toy_sys_def) (simp add: toy_rows_def new_row_def)
qed

end
