(* ===== verification/Key_Api.thy ===== *)
theory Key_Api
  imports Store_Props "HOL-Library.Multiset"
begin

section \<open>API keys over HTTP (\<open>internal/api\<close>)\<close>

text \<open>
  The gate of the inference routes (\<open>server.go\<close>), the key routes of the console (\<open>admin.go\<close>) and the usage
  reports (\<open>openai.go\<close>, \<open>usage_view.go\<close>). The console handlers run behind \<open>requireAdmin\<close> (see the admin API);
  bodies come decoded or not. What the catalog answers to \<open>Resolve\<close> and \<open>NameByID\<close> is an argument.
\<close>

subsection \<open>The gate\<close>

definition cut_prefix :: "string \<Rightarrow> string \<Rightarrow> string option" where
  "cut_prefix s p = (if has_prefix s p then Some (drop (length p) s) else None)"

datatype api_gate = Unauthorized string | Caller string

definition requireAPIKey :: "store_env \<Rightarrow> string \<Rightarrow> string \<Rightarrow> string \<Rightarrow> api_gate store_act" where
  "requireAPIKey K masterKey promptKey auth =
     (case cut_prefix auth ''Bearer '' of
        None \<Rightarrow> ret (Unauthorized ''missing bearer token'')
      | Some token \<Rightarrow>
          if token = [] then ret (Unauthorized ''missing bearer token'')
          else do {
            keyID \<leftarrow> (if Equal token masterKey then ret MasterKeyID
                      else if Equal token promptKey then ret PromptKeyID
                      else LookupKey K token);
            ret (if keyID = [] then Unauthorized ''invalid API key'' else Caller keyID) })"

subsection \<open>Key routes\<close>

text \<open>Answers, with the audit event of the ones that write it.\<close>

datatype key_answer =
    KeyRefused nat string
  | KeyMade string key_rec
  | KeyImported key_rec
  | KeyRevoked
  | KeyList "key_rec list" bool string string

type_synonym key_event = "(string \<times> string) option"

definition add_err :: "key_err \<Rightarrow> string \<Rightarrow> string" where
  "add_err e i = (case e of
     HashTaken \<Rightarrow> ''key already registered''
   | IDTaken \<Rightarrow> ''key id '' @ i @ '' already exists''
   | KeySaveFailed \<Rightarrow> ''save failed'')"

text \<open>The random bytes are inputs; \<open>None\<close> is a failing generator.\<close>

definition handleCreateKey ::
  "store_env \<Rightarrow> time \<Rightarrow> (string \<times> string) option \<Rightarrow> string option \<Rightarrow> (key_answer \<times> key_event) store_act" where
  "handleCreateKey K now rand body =
     (case body of
        None \<Rightarrow> ret (KeyRefused 400 ''bad body'', None)
      | Some name \<Rightarrow>
          if name = [] then ret (KeyRefused 400 ''bad body'', None)
          else (case rand of
             None \<Rightarrow> ret (KeyRefused 500 ''generate key'', None)
           | Some (idBytes, secretBytes) \<Rightarrow>
               (case NewKey (se_sha K) now idBytes secretBytes name of
                  (full, rec) \<Rightarrow> do {
                    e \<leftarrow> AddKey K rec;
                    ret (case e of
                           Some err \<Rightarrow> (KeyRefused 409 (add_err err (kr_ID rec)), None)
                         | None \<Rightarrow> (KeyMade full rec, Some (''key_create'', ''created key '' @ kr_ID rec))) })))"

definition handleImportKey ::
  "store_env \<Rightarrow> time \<Rightarrow> string \<Rightarrow> string \<Rightarrow> (string \<times> string) option \<Rightarrow> (key_answer \<times> key_event) store_act" where
  "handleImportKey K now masterKey promptKey body =
     (case body of
        None \<Rightarrow> ret (KeyRefused 400 ''bad body'', None)
      | Some (name, key) \<Rightarrow>
          if name = [] \<or> key = [] then ret (KeyRefused 400 ''bad body'', None)
          else if Equal key masterKey \<or> Equal key promptKey then ret (KeyRefused 400 ''derived key'', None)
          else (case ImportKey (se_sha K) now name key of
             None \<Rightarrow> ret (KeyRefused 400 ''bad key'', None)
           | Some rec \<Rightarrow> do {
               e \<leftarrow> AddKey K rec;
               ret (case e of
                      Some err \<Rightarrow> (KeyRefused 409 (add_err err (kr_ID rec)), None)
                    | None \<Rightarrow> (KeyImported rec, Some (''key_import'', ''imported key '' @ kr_ID rec))) }))"

definition handleRevokeKey :: "store_env \<Rightarrow> time \<Rightarrow> string \<Rightarrow> (key_answer \<times> key_event) store_act" where
  "handleRevokeKey K now i =
     (if i = MasterKeyID \<or> i = PromptKeyID then ret (KeyRefused 400 (''cannot revoke '' @ i @ '' key''), None)
      else do {
        r \<leftarrow> RevokeKey K now i;
        ret (case r of
               ReservedKey \<Rightarrow> (KeyRefused 400 (''cannot revoke '' @ i @ '' key''), None)
             | Revoked False \<Rightarrow> (KeyRefused 400 ''save failed'', None)
             | NoSuchKey \<Rightarrow> (KeyRefused 404 ''key not found'', None)
             | Revoked True \<Rightarrow> (KeyRevoked, Some (''key_revoke'', ''revoked key '' @ i))) })"

definition recordsForAdminJSON :: "key_rec list \<Rightarrow> key_rec list" where
  "recordsForAdminJSON = map (\<lambda>k. if kr_RevokedAt k \<noteq> None then k\<lparr>kr_Secret := []\<rparr> else k)"

text \<open>The first and last four bytes around an ellipsis (three bytes of UTF-8).\<close>

definition ellipsis :: string where "ellipsis = [char_of (226 :: nat), char_of (128 :: nat), char_of (166 :: nat)]"

definition maskSecret :: "string \<Rightarrow> string" where
  "maskSecret s = (if s = [] then [] else if length s \<le> 8 then ''********''
     else take 4 s @ ellipsis @ drop (length s - 4) s)"

definition revealRequested :: "string list \<Rightarrow> bool" where
  "revealRequested vals = list_ex (\<lambda>v. v = ''1'' \<or> v = ''true'') vals"

text \<open>Who is asking, as \<open>adminAuthFrom\<close> reports it: the master Bearer, or a cookie session.\<close>

record admin_auth =
  aa_bearer :: bool
  aa_session :: "admin_session option"

definition StepUpAge :: dur where "StepUpAge = 30 * minute"

definition handleListKeys ::
  "time \<Rightarrow> string \<Rightarrow> string \<Rightarrow> string list \<Rightarrow> admin_auth \<Rightarrow> (key_answer \<times> key_event) store_act" where
  "handleListKeys now masterKey promptKey vals auth =
     (let refused = (if \<not> revealRequested vals then None
            else if aa_bearer auth then Some (KeyRefused 403 ''key reveal needs an admin session'')
            else (case aa_session auth of
                None \<Rightarrow> Some (KeyRefused 403 ''key reveal needs an admin session'')
              | Some s \<Rightarrow> if \<not> Fresh now StepUpAge s then Some (KeyRefused 401 ''step_up_required'') else None))
      in case refused of
           Some a \<Rightarrow> ret (a, None)
         | None \<Rightarrow> do {
             ks \<leftarrow> ListKeys;
             ret (if revealRequested vals
                  then (KeyList (recordsForAdminJSON ks) False masterKey promptKey, Some (''key_reveal'', ''admin revealed master/prompt keys''))
                  else (KeyList (map (\<lambda>k. if kr_Secret k \<noteq> [] then k\<lparr>kr_Secret := maskSecret (kr_Secret k)\<rparr> else k) (recordsForAdminJSON ks))
                     True (maskSecret masterKey) (maskSecret promptKey), None)) })"

text \<open>\<open>refuseRevealOverBearer\<close> runs before the admin gate: a reveal with any \<open>Authorization\<close> header is refused.\<close>

definition refuseRevealOverBearer_keys :: "string list \<Rightarrow> string list \<Rightarrow> (key_answer \<times> key_event) store_act \<Rightarrow> (key_answer \<times> key_event) store_act" where
  "refuseRevealOverBearer_keys vals authorization nxt =
     (if revealRequested vals \<and> authorization \<noteq> [] then ret (KeyRefused 403 ''key reveal needs an admin session'', None) else nxt)"

subsection \<open>Usage reports\<close>

record usage_view =
  uv_Day :: string
  uv_KeyID :: string
  uv_Model :: string
  uv_ModelID :: string
  uv_Requests :: "64 word"
  uv_PromptTokens :: "64 word"
  uv_CompletionTokens :: "64 word"
  uv_SessionSeconds :: "64 word"

definition shortModelID :: "string \<Rightarrow> string" where "shortModelID i = take 8 i"

definition isModelID :: "string \<Rightarrow> bool" where "isModelID s \<longleftrightarrow> has_prefix (to_lower s) ''0x''"

definition modelLabel :: "(string \<Rightarrow> string) \<Rightarrow> string \<Rightarrow> string" where
  "modelLabel nameByID i = (if nameByID i \<noteq> [] then nameByID i @ '' ('' @ shortModelID i @ '')'' else shortModelID i)"

text \<open>The registration a row counts for: its id, or what its name resolves to; empty when there is none.\<close>

definition row_model :: "(string \<Rightarrow> string option) \<Rightarrow> usage_row \<Rightarrow> string" where
  "row_model resolve r =
     (let m = trim (ur_Model r)
      in if isModelID m then to_lower m
         else if m \<noteq> [] \<and> m \<noteq> ''unknown''
         then (case resolve m of Some i \<Rightarrow> if isModelID i then to_lower i else [] | None \<Rightarrow> [])
         else [])"

definition row_label :: "usage_row \<Rightarrow> string" where
  "row_label r = (if ur_Model r = [] then ''unknown'' else ur_Model r)"

definition view_key :: "(string \<Rightarrow> string option) \<Rightarrow> usage_row \<Rightarrow> string \<times> string \<times> string" where
  "view_key resolve r = (ur_Day r, ur_KeyID r, if row_model resolve r \<noteq> [] then row_model resolve r else ''name:'' @ row_label r)"

definition merge_row ::
  "(string \<Rightarrow> string option) \<Rightarrow> (string \<Rightarrow> string) \<Rightarrow> usage_row \<Rightarrow> ((string \<times> string \<times> string) \<times> usage_view) list \<Rightarrow>
   ((string \<times> string \<times> string) \<times> usage_view) list" where
  "merge_row resolve nameByID r m =
     (let i = row_model resolve r;
          v = (case mget m (view_key resolve r) of
                 Some v \<Rightarrow> v
               | None \<Rightarrow> \<lparr>uv_Day = ur_Day r, uv_KeyID = ur_KeyID r, uv_Model = (if i \<noteq> [] then modelLabel nameByID i else row_label r),
                     uv_ModelID = i, uv_Requests = 0, uv_PromptTokens = 0, uv_CompletionTokens = 0, uv_SessionSeconds = 0\<rparr>)
      in mput (view_key resolve r)
           (v\<lparr>uv_Requests := uv_Requests v + ur_Requests r, uv_PromptTokens := uv_PromptTokens v + ur_PromptTokens r,
              uv_CompletionTokens := uv_CompletionTokens v + ur_CompletionTokens r,
              uv_SessionSeconds := uv_SessionSeconds v + ur_SessionSeconds r\<rparr>) m)"

definition view_before :: "usage_view \<Rightarrow> usage_view \<Rightarrow> bool" where
  "view_before a b \<longleftrightarrow>
     (if uv_Day a \<noteq> uv_Day b then uv_Day a > uv_Day b
      else if uv_Requests a \<noteq> uv_Requests b then sint (uv_Requests a) > sint (uv_Requests b)
      else if uv_KeyID a \<noteq> uv_KeyID b then uv_KeyID a < uv_KeyID b
      else uv_Model a < uv_Model b)"

fun insert_view :: "usage_view \<Rightarrow> usage_view list \<Rightarrow> usage_view list" where
  "insert_view v [] = [v]"
| "insert_view v (x # xs) = (if view_before x v then x # insert_view v xs else v # x # xs)"

definition usageViews :: "(string \<Rightarrow> string option) \<Rightarrow> (string \<Rightarrow> string) \<Rightarrow> usage_row list \<Rightarrow> usage_view list" where
  "usageViews resolve nameByID rows = foldr insert_view (map snd (mitems (fold (merge_row resolve nameByID) rows []))) []"

datatype usage_answer = UsageRefused nat string | UsageRows "usage_view list"

text \<open>\<open>None\<close> is the panic of a nil usage row.\<close>

definition handleUsageV1 :: "(string \<Rightarrow> string option) \<Rightarrow> (string \<Rightarrow> string) \<Rightarrow> string \<Rightarrow> usage_answer option store_act" where
  "handleUsageV1 resolve nameByID caller =
     (if caller = [] then ret (Some (UsageRefused 401 ''missing key identity''))
      else do {
        rows \<leftarrow> Usage;
        ret (map_option (\<lambda>rs. UsageRows (usageViews resolve nameByID
           (if caller \<noteq> MasterKeyID then filter (\<lambda>r. ur_KeyID r = caller) rs else rs))) rows) })"

definition handleUsage :: "(string \<Rightarrow> string option) \<Rightarrow> (string \<Rightarrow> string) \<Rightarrow> usage_answer option store_act" where
  "handleUsage resolve nameByID = do {
     rows \<leftarrow> Usage;
     ret (map_option (\<lambda>rs. UsageRows (usageViews resolve nameByID rs)) rows) }"

definition handlePruneUsage :: "store_env \<Rightarrow> time \<Rightarrow> int \<Rightarrow> string option \<Rightarrow> (nat + nat \<times> string) store_act" where
  "handlePruneUsage K now pruneDays body =
     (if body \<noteq> Some ''PRUNE_USAGE'' then ret (Inr (400, ''bad body''))
      else do {
        r \<leftarrow> PruneUsageOlderThan K now (if pruneDays \<le> 0 then 30 else pruneDays);
        ret (case r of (removed, saved) \<Rightarrow> if saved then Inl removed else Inr (500, ''prune usage'')) })"

subsection \<open>Who gets through\<close>

lemma run_lookup: "run_state (LookupKey K t) s = (lookup_key (Hash (se_sha K) t) (st_Keys (so_st s)), s)"
  by (simp add: LookupKey_def run_get_seq)


lemma masked_list:
  "list_all2 (\<lambda>k k'. kr_Secret k = (if kr_RevokedAt k' \<noteq> None then [] else maskSecret (kr_Secret k')))
     (map (\<lambda>k. if kr_Secret k \<noteq> [] then k\<lparr>kr_Secret := maskSecret (kr_Secret k)\<rparr> else k) (recordsForAdminJSON ks)) ks"
  by (induction ks) (auto simp: recordsForAdminJSON_def maskSecret_def)

text \<open>
  Full keys are shown to a fresh console session only. Through both handlers, an answer that is not masked
  is given only without any \<open>Authorization\<close> header, to a cookie session that logged in or stepped up within
  30 minutes; every other list shows at most the first and last four bytes of a key, and none of a revoked one.
\<close>

theorem reveal_needs_step_up:
  "case fst (run_state (refuseRevealOverBearer_keys vals authorization (handleListKeys now M P vals auth)) s) of
     (KeyList ks masked m p, ev) \<Rightarrow>
       if masked then m = maskSecret M \<and> p = maskSecret P \<and> ev = None \<and>
         list_all2 (\<lambda>k k'. kr_Secret k = (if kr_RevokedAt k' \<noteq> None then [] else maskSecret (kr_Secret k'))) ks (st_Keys (so_st s))
       else authorization = [] \<and> \<not> aa_bearer auth \<and> (\<exists>x. aa_session auth = Some x \<and> Fresh now (30 * minute) x) \<and> ev \<noteq> None
   | _ \<Rightarrow> True"
proof (cases "revealRequested vals")
  case True
  then show ?thesis
    by (cases "aa_session auth"; cases "authorization = []"; cases "aa_bearer auth")
      (simp_all add: refuseRevealOverBearer_keys_def handleListKeys_def ListKeys_def run_get_seq Let_def StepUpAge_def)
next
  case False
  with masked_list [of "st_Keys (so_st s)"] show ?thesis
    by (simp add: refuseRevealOverBearer_keys_def handleListKeys_def ListKeys_def run_get_seq Let_def)
qed

subsection \<open>Usage of one key\<close>

definition total :: "('a \<Rightarrow> 64 word) \<Rightarrow> 'a list \<Rightarrow> 64 word" where "total f xs = sum_list (map f xs)"

lemma insert_view_set: "mset (insert_view v vs) = add_mset v (mset vs)"
  by (induction vs) auto

lemma sort_views: "mset (foldr insert_view vs []) = mset vs"
  by (induction vs) (simp_all add: insert_view_set)

lemma total_mset: "mset xs = mset ys \<Longrightarrow> total f xs = total f ys"
  unfolding total_def by (metis mset_map sum_mset_sum_list)

lemma total_views: "total f (usageViews resolve nameByID rows) = total f (map snd (mitems (fold (merge_row resolve nameByID) rows [])))"
  unfolding usageViews_def by (rule total_mset [OF sort_views])

definition map_total :: "('v \<Rightarrow> 64 word) \<Rightarrow> ('k \<times> 'v) list \<Rightarrow> 64 word" where
  "map_total f m = (\<Sum>k | mget m k \<noteq> None. f (the (mget m k)))"

lemma total_items: "total f (map snd (mitems m)) = map_total f m"
proof -
  have inj: "inj_on fst (set (mitems m))" using distinct_mitems [of m] by (simp add: distinct_map)
  have keys: "fst ` set (mitems m) = {k. mget m k \<noteq> None}" using mdom_mkeys [of m] by (simp only: mkeys_def set_map)
  have "total f (map snd (mitems m)) = sum_list (map (\<lambda>p. f (snd p)) (mitems m))" by (simp add: total_def comp_def)
  also have "\<dots> = (\<Sum>p\<in>set (mitems m). f (snd p))"
    using distinct_mitems [of m] by (simp add: sum_list_distinct_conv_sum_set distinct_map)
  also have "\<dots> = (\<Sum>p\<in>set (mitems m). f (the (mget m (fst p))))" by (intro sum.cong) (auto simp: mem_mitems)
  also have "\<dots> = map_total f m" using sum.reindex [OF inj, of "\<lambda>k. f (the (mget m k))"] by (simp add: map_total_def keys comp_def)
  finally show ?thesis .
qed

lemma map_total_put: "map_total f (mput k v m) = map_total f m - (case mget m k of None \<Rightarrow> 0 | Some w \<Rightarrow> f w) + f v"
proof -
  let ?D = "{j. mget m j \<noteq> None} - {k}"
  have fin: "finite {j. mget m j \<noteq> None}" by (rule mget_finite)
  have "{j. mget (mput k v m) j \<noteq> None} = insert k ?D" by auto
  then have "map_total f (mput k v m) = (\<Sum>j\<in>insert k ?D. f (the (mget (mput k v m) j)))"
    unfolding map_total_def by (simp only:)
  also have "\<dots> = f v + (\<Sum>j\<in>?D. f (the (mget (mput k v m) j)))" by (subst sum.insert) (use fin in simp_all)
  also have "(\<Sum>j\<in>?D. f (the (mget (mput k v m) j))) = (\<Sum>j\<in>?D. f (the (mget m j)))" by (intro sum.cong) auto
  finally have new: "map_total f (mput k v m) = f v + (\<Sum>j\<in>?D. f (the (mget m j)))" .
  show ?thesis
  proof (cases "mget m k")
    case None
    then have "?D = {j. mget m j \<noteq> None}" by auto
    with new None show ?thesis by (simp add: map_total_def)
  next
    case (Some w)
    then have "map_total f m = f w + (\<Sum>j\<in>?D. f (the (mget m j)))"
      unfolding map_total_def using fin sum.remove [of "{j. mget m j \<noteq> None}" k "\<lambda>j. f (the (mget m j))"] by simp
    with new Some show ?thesis by simp
  qed
qed

definition counters :: "((usage_view \<Rightarrow> 64 word) \<times> (usage_row \<Rightarrow> 64 word)) list" where
  "counters = [(uv_Requests, ur_Requests), (uv_PromptTokens, ur_PromptTokens), (uv_CompletionTokens, ur_CompletionTokens),
     (uv_SessionSeconds, ur_SessionSeconds)]"

lemma merge_total: "(f, g) \<in> set counters \<Longrightarrow> map_total f (merge_row resolve nameByID r m) = map_total f m + g r"
  by (auto simp: merge_row_def map_total_put counters_def Let_def split: option.split)

lemma views_conserve: "(f, g) \<in> set counters \<Longrightarrow> total f (usageViews resolve nameByID rows) = total g rows"
proof -
  assume c: "(f, g) \<in> set counters"
  have "map_total f (fold (merge_row resolve nameByID) rows m) = map_total f m + total g rows" for m
    by (induction rows arbitrary: m) (simp_all add: merge_total [OF c] total_def)
  from this [of "[]"] show ?thesis by (simp add: total_views total_items map_total_def)
qed

lemma merge_entry:
  "mget (merge_row resolve nameByID r m) k = Some v \<Longrightarrow>
   uv_KeyID v = ur_KeyID r \<and> uv_Day v = ur_Day r \<or> (\<exists>w. mget m k = Some w \<and> uv_KeyID v = uv_KeyID w \<and> uv_Day v = uv_Day w)"
  by (auto simp: merge_row_def Let_def split: if_splits option.splits)

lemma mset_filter_cong: "mset xs = mset ys \<Longrightarrow> mset (filter P xs) = mset (filter P ys)"
  by (metis mset_filter)

lemma views_keys: "v \<in> set (usageViews resolve nameByID rows) \<Longrightarrow> \<exists>r \<in> set rows. uv_KeyID v = ur_KeyID r \<and> uv_Day v = ur_Day r"
proof -
  have "\<exists>r \<in> set rows \<union> old. uv_KeyID v = ur_KeyID r \<and> uv_Day v = ur_Day r"
    if "mget (fold (merge_row resolve nameByID) rows m) k = Some v"
      "\<And>k v. mget m k = Some v \<Longrightarrow> \<exists>r \<in> old. uv_KeyID v = ur_KeyID r \<and> uv_Day v = ur_Day r" for m k v old
    using that
  proof (induction rows arbitrary: m old)
    case (Cons r rows)
    have "\<exists>r' \<in> insert r old. uv_KeyID v = ur_KeyID r' \<and> uv_Day v = ur_Day r'" if "mget (merge_row resolve nameByID r m) k = Some v" for k v
      using merge_entry [OF that] Cons.prems(2) by fastforce
    from Cons.IH [OF _ this] Cons.prems(1) show ?case by auto
  qed auto
  note keys = this [where m = "[]" and old = "{}", simplified]
  assume "v \<in> set (usageViews resolve nameByID rows)"
  then have "v \<in> snd ` set (mitems (fold (merge_row resolve nameByID) rows []))"
    unfolding usageViews_def by (metis sort_views list.set_map set_mset_mset)
  then show ?thesis using keys by (auto simp: mem_mitems)
qed

text \<open>
  Usage is shown to its own key. A generated or prompt key gets reports of its own rows only, the master
  key of all; in either case the reports of each counter add up to the rows they stand for, however rows are
  merged under a registration.
\<close>

theorem usage_isolated:
  "case fst (run_state (handleUsageV1 resolve nameByID caller) s) of
     Some (UsageRows vs) \<Rightarrow>
       (let rows = filter (\<lambda>r. caller = MasterKeyID \<or> ur_KeyID r = caller) (map the (map snd (mitems (st_Usage (so_st s)))))
        in list_all (\<lambda>v. caller = MasterKeyID \<or> uv_KeyID v = caller) vs \<and> list_all (\<lambda>(f, g). total f vs = total g rows) counters)
   | Some (UsageRefused n msg) \<Rightarrow> caller = []
   | None \<Rightarrow> caller \<noteq> [] \<and> \<not> no_nil (so_st s)"
proof (cases "caller = []")
  case False
  let ?all = "map the (map snd (mitems (st_Usage (so_st s))))"
  show ?thesis
  proof (cases "None \<in> set (map snd (mitems (st_Usage (so_st s))))")
    case True
    then have "\<not> no_nil (so_st s)" by (auto simp: no_nil_def mem_mitems)
    with True False show ?thesis by (simp add: handleUsageV1_def Usage_def run_get_seq Let_def State_Monad.run_state_bind get_st_def)
  next
    case some: False
    let ?shown = "if caller \<noteq> MasterKeyID then filter (\<lambda>r. ur_KeyID r = caller) (sorted_rows ?all) else sorted_rows ?all"
    have ans: "fst (run_state (handleUsageV1 resolve nameByID caller) s) = Some (UsageRows (usageViews resolve nameByID ?shown))"
      using False some by (simp add: handleUsageV1_def Usage_def Let_def State_Monad.run_state_bind get_st_def)
    have "mset (insert_row r xs) = add_mset r (mset xs)" for r xs by (induction xs) auto
    then have "mset (sorted_rows xs) = mset xs" for xs by (induction xs) (simp_all add: sorted_rows_def)
    then have "mset ?shown = mset (filter (\<lambda>r. caller = MasterKeyID \<or> ur_KeyID r = caller) ?all)"
      by (auto intro!: mset_filter_cong)
    note same = total_mset [OF this]
    have "total f (usageViews resolve nameByID ?shown) = total g (filter (\<lambda>r. caller = MasterKeyID \<or> ur_KeyID r = caller) ?all)"
      if "(f, g) \<in> set counters" for f g by (rule trans [OF views_conserve [OF that] same])
    then have "list_all (\<lambda>(f, g). total f (usageViews resolve nameByID ?shown) =
        total g (filter (\<lambda>r. caller = MasterKeyID \<or> ur_KeyID r = caller) ?all)) counters"
      unfolding list_all_iff by blast
    moreover have "list_all (\<lambda>v. caller = MasterKeyID \<or> uv_KeyID v = caller) (usageViews resolve nameByID ?shown)"
      unfolding list_all_iff by (auto dest!: views_keys split: if_splits)
    ultimately show ?thesis by (simp add: ans Let_def)
  qed
qed (simp add: handleUsageV1_def)

subsection \<open>A reserved id\<close>

lemma added_key:
  assumes "run_state (AddKey K rec) s = (None, s')"
  shows "st_Keys (so_st s') = st_Keys (so_st s) @ [rec]" "filter (\<lambda>k. kr_Hash k = kr_Hash rec) (st_Keys (so_st s)) = []"
proof -
  have f: "filter (\<lambda>k. kr_Hash k = kr_Hash rec \<or> kr_ID k = kr_ID rec) (st_Keys (so_st s)) = []"
    using assms by (auto simp: AddKey_def run_get_seq split: list.splits if_splits)
  then show "filter (\<lambda>k. kr_Hash k = kr_Hash rec) (st_Keys (so_st s)) = []" by (auto simp: filter_empty_conv)
  have "so_st s' = (so_st s)\<lparr>st_Keys := st_Keys (so_st s) @ [rec]\<rparr>"
    using assms f by (auto simp: AddKey_def run_get_seq run_put_seq State_Monad.run_state_bind [of "save K"] split: prod.splits if_splits dest: save_stD)
  then show "st_Keys (so_st s') = st_Keys (so_st s) @ [rec]" by simp
qed

text \<open>
  An imported key can take the master's id. The console imports \<open>sk-master.\<close> followed by anything: the id
  is cut out of the key's text and is not compared with the reserved ones. From then on that key passes the
  gate as \<open>master\<close>, so it reads every key's usage, and it can never be revoked.
\<close>

theorem import_takes_master_id:
  assumes "run_state (handleImportKey K now M P (Some (name, ''sk-master.'' @ rest))) s = ((KeyImported rec, ev), s')"
    and "rest \<noteq> []" and "\<not> is_space (last rest)"
  shows "fst (run_state (requireAPIKey K M P (''Bearer sk-master.'' @ rest)) s') = Caller MasterKeyID \<and>
    run_state (handleRevokeKey K t MasterKeyID) s' = ((KeyRefused 400 ''cannot revoke master key'', None), s')"
proof -
  let ?key = "''sk-master.'' @ rest"
  have k: "trim ?key = ?key" using trim_pasted [of ?key "[]" "[]"] assms(2,3) by (simp add: is_space_def)
  have i: "key_id (se_sha K) ?key = MasterKeyID" by (simp add: key_id_def index_byte_def MasterKeyID_def)
  have ne: "?key \<noteq> M" "?key \<noteq> P" "name \<noteq> []" using assms(1) by (auto simp: handleImportKey_def Equal_def split: if_splits)
  obtain r where r: "ImportKey (se_sha K) now name ?key = Some r" "run_state (AddKey K r) s = (None, s')"
    using assms(1) ne by (auto simp: handleImportKey_def Equal_def State_Monad.run_state_bind split: option.splits prod.splits)
  have rk: "kr_ID r = MasterKeyID" "kr_Hash r = Hash (se_sha K) ?key" "kr_RevokedAt r = None"
    using r(1) i unfolding ImportKey_def Let_def k by (auto split: if_splits)
  have "lookup_key (Hash (se_sha K) ?key) (st_Keys (so_st s')) = MasterKeyID"
    using added_key [OF r(2)] rk by (simp add: lookup_key_def)
  moreover have "cut_prefix (''Bearer sk-master.'' @ rest) ''Bearer '' = Some ?key" by (simp add: cut_prefix_def has_prefix_def)
  ultimately have "fst (run_state (requireAPIKey K M P (''Bearer sk-master.'' @ rest)) s') = Caller MasterKeyID"
    using ne by (simp add: requireAPIKey_def Equal_def State_Monad.run_state_bind run_lookup) (simp add: MasterKeyID_def)
  moreover have "run_state (handleRevokeKey K t MasterKeyID) s' = ((KeyRefused 400 ''cannot revoke master key'', None), s')"
    by (simp add: handleRevokeKey_def) (simp add: MasterKeyID_def)
  ultimately show ?thesis by blast
qed

definition open_store :: store_env where
  "open_store = \<lparr>se_enc = (\<lambda>x. Some ''T''), se_dec = (\<lambda>r. None), se_sha = (\<lambda>s. s)\<rparr>"

lemma import_takes_master_id_witness:
  "let s' = snd (run_state (handleImportKey open_store 0 ''M'' ''P'' (Some (''n'', ''sk-master.'' @ ''tt12345''))) (toy_sys new_state))
   in fst (run_state (requireAPIKey open_store ''M'' ''P'' (''Bearer sk-master.'' @ ''tt12345'')) s') = Caller MasterKeyID \<and>
      run_state (handleRevokeKey open_store 9 MasterKeyID) s' = ((KeyRefused 400 ''cannot revoke master key'', None), s')"
proof -
  let ?run = "run_state (handleImportKey open_store 0 ''M'' ''P'' (Some (''n'', ''sk-master.'' @ ''tt12345''))) (toy_sys new_state)"
  have "case fst (fst ?run) of KeyImported rec \<Rightarrow> True | _ \<Rightarrow> False" by code_simp
  then obtain rec where "fst (fst ?run) = KeyImported rec" by (cases "fst (fst ?run)") auto
  then have "?run = ((KeyImported rec, snd (fst ?run)), snd ?run)" by (metis prod.collapse)
  from import_takes_master_id [OF this] show ?thesis by (simp add: Let_def is_space_def)
qed

end
