(* ===== verification/Mor_Limit.thy ===== *)
theory Mor_Limit
  imports Decimal
begin

section \<open>The cap setting (\<open>internal/config/stake_limit.go\<close>)\<close>

text \<open>
  Max stMOR per session as text: parsing and printing a limit, the default built from the hourly rate and the
  default session length, and the one conversion of a saved hourly cap at boot.
\<close>

definition wei_per_mor :: int where "wei_per_mor = 10 ^ 18"
definition microMor :: int where "microMor = 10 ^ 12"
definition maxMorLimit :: int where "maxMorLimit = 100000 * wei_per_mor"
definition DefaultMaxStMorPerHour :: int where "DefaultMaxStMorPerHour = 150"

text \<open>The regular expression \<open>^[0-9]+(\.[0-9]{1,6})?$\<close>, as the parts it matches.\<close>

definition reMorLimit :: "string \<Rightarrow> (string \<times> string) option" where
  "reMorLimit s =
     (let whole = takeWhile is_digit s; rest = dropWhile is_digit s
      in if whole = [] then None
         else (case rest of
             [] \<Rightarrow> Some (whole, [])
           | c # frac \<Rightarrow>
               if c = CHR ''.'' \<and> list_all is_digit frac \<and> 1 \<le> length frac \<and> length frac \<le> 6 then Some (whole, frac) else None))"

text \<open>The error, off, or a number of wei.\<close>

datatype mor_limit = BadLimit | NoLimit | LimitWei int

definition ParseMorLimit :: "string \<Rightarrow> mor_limit" where
  "ParseMorLimit s0 =
     (let s = trim s0
      in if s = [] then NoLimit
         else (case reMorLimit s of
             None \<Rightarrow> BadLimit
           | Some (whole, frac) \<Rightarrow>
               (case parse_decimal (whole @ frac @ replicate (18 - length frac) (CHR ''0'')) of
                  None \<Rightarrow> BadLimit
                | Some wei \<Rightarrow> if wei \<le> 0 \<or> wei > maxMorLimit then BadLimit else LimitWei wei)))"

definition leftPad :: "string \<Rightarrow> nat \<Rightarrow> string" where
  "leftPad s n = (if length s \<ge> n then s else replicate (n - length s) (CHR ''0'') @ s)"

definition trim_zeros :: "string \<Rightarrow> string" where
  "trim_zeros s = rev (dropWhile (\<lambda>c. c = CHR ''0'') (rev s))"

definition FormatMorLimit :: "int \<Rightarrow> string" where
  "FormatMorLimit wei =
     (let q = go_div wei wei_per_mor; r = wei - q * wei_per_mor;
          frac = trim_zeros (leftPad (show_int (go_div r microMor)) 6)
      in if frac = [] then show_int q else show_int q @ ''.'' @ frac)"

definition PerSessionFromHourly :: "int \<Rightarrow> int \<Rightarrow> int" where
  "PerSessionFromHourly hourly sec =
     (let w1 = go_div (hourly * sec + 3599) 3600;
          w2 = go_div (w1 + (microMor - 1)) microMor * microMor;
          w3 = (if w2 \<le> 0 then microMor else w2)
      in if w3 > maxMorLimit then maxMorLimit else w3)"

definition DefaultMaxStMorPerSession :: "int \<Rightarrow> string" where
  "DefaultMaxStMorPerSession sec = FormatMorLimit (PerSessionFromHourly (DefaultMaxStMorPerHour * wei_per_mor) sec)"

definition checkMorLimit :: "string \<Rightarrow> bool" where "checkMorLimit s \<longleftrightarrow> ParseMorLimit s \<noteq> BadLimit"

subsection \<open>At boot\<close>

record cap_cfg =
  cc_MaxStMorPerSession :: string
  cc_StakeLimitWei :: "int option"
  cc_StakeLimitInvalid :: bool
  cc_SettingNotes :: "string list"

definition MaxStMorPerSessionInvalidNote :: string where
  "MaxStMorPerSessionInvalidNote = ''Max stMOR per session is invalid: fix the value and restart''"

definition setMaxStMorPerSession :: "string \<Rightarrow> cap_cfg \<Rightarrow> cap_cfg" where
  "setMaxStMorPerSession v c = c\<lparr>cc_MaxStMorPerSession := v,
     cc_StakeLimitWei := (case ParseMorLimit v of LimitWei n \<Rightarrow> Some n | _ \<Rightarrow> None),
     cc_StakeLimitInvalid := ParseMorLimit v = BadLimit\<rparr>"

definition ResolveStakeCap :: "string gomap \<Rightarrow> int \<Rightarrow> cap_cfg \<Rightarrow> string option \<times> cap_cfg" where
  "ResolveStakeCap vals defaultSec c =
     (if mget vals ''maxStMorPerSession'' \<noteq> None then (None, c)
      else (case mget vals ''maxStMorPerHour'' of
          None \<Rightarrow> (None, setMaxStMorPerSession (DefaultMaxStMorPerSession defaultSec) c)
        | Some raw0 \<Rightarrow>
            (let raw = trim raw0;
                 v = (case ParseMorLimit raw of LimitWei hourly \<Rightarrow> FormatMorLimit (PerSessionFromHourly hourly defaultSec) | _ \<Rightarrow> raw);
                 c1 = setMaxStMorPerSession v c
             in (Some v, if cc_StakeLimitInvalid c1
                   then c1\<lparr>cc_SettingNotes := cc_SettingNotes c1 @ [MaxStMorPerSessionInvalidNote]\<rparr> else c1))))"

subsection \<open>A printed limit is read back\<close>

definition good_limit :: "int \<Rightarrow> bool" where
  "good_limit wei \<longleftrightarrow> 0 < wei \<and> wei \<le> maxMorLimit \<and> wei mod microMor = 0"

lemma show_nat_length: "n < 10 ^ w \<Longrightarrow> 0 < w \<Longrightarrow> length (show_nat n) \<le> w"
proof (induction w arbitrary: n)
  case (Suc w)
  show ?case
  proof (cases "n < 10")
    case True
    then show ?thesis by (subst show_nat.simps) simp
  next
    case False
    with Suc.prems have "0 < w" "n div 10 < 10 ^ w" by (cases w, auto simp: less_mult_imp_div_less mult.commute)
    with Suc.IH [of "n div 10"] False show ?thesis by (subst show_nat.simps) simp
  qed
qed simp

lemma zero_digit: "is_digit (CHR ''0'') \<and> digit_val (CHR ''0'') = 0"
  by (simp add: is_digit_def digit_val_def)

lemma digits_val_zeros [simp]: "digits_val (replicate k (CHR ''0'')) = 0"
proof (induction k)
  case (Suc k)
  have "replicate (Suc k) (CHR ''0'') = replicate k (CHR ''0'') @ [CHR ''0'']" by (simp add: replicate_append_same)
  with Suc show ?case by (simp only: digits_val_append) (simp add: zero_digit)
qed simp

lemma trim_zeros_split: "\<exists>k. s = trim_zeros s @ replicate k (CHR ''0'')"
proof -
  have "rev s = takeWhile (\<lambda>c. c = CHR ''0'') (rev s) @ dropWhile (\<lambda>c. c = CHR ''0'') (rev s)" by simp
  moreover have "takeWhile (\<lambda>c. c = CHR ''0'') (rev s) = replicate (length (takeWhile (\<lambda>c. c = CHR ''0'') (rev s))) (CHR ''0'')"
    by (induction s rule: rev_induct) auto
  ultimately have "s = trim_zeros s @ replicate (length (takeWhile (\<lambda>c. c = CHR ''0'') (rev s))) (CHR ''0'')"
    unfolding trim_zeros_def by (metis rev_append rev_replicate rev_rev_ident)
  then show ?thesis by blast
qed

lemma leftPad_digits:
  assumes "n < 10 ^ 6"
  shows "length (leftPad (show_nat n) 6) = 6 \<and> list_all is_digit (leftPad (show_nat n) 6) \<and> digits_val (leftPad (show_nat n) 6) = int n"
  using show_nat_length [OF assms] show_nat_digits [of n] zero_digit
  by (auto simp: leftPad_def all_digits_def digits_val_append list_all_iff)

lemma show_int_digits: "0 \<le> q \<Longrightarrow> show_int q \<noteq> [] \<and> list_all is_digit (show_int q) \<and> digits_val (show_int q) = q"
  using show_nat_digits [of "nat q"] by (simp add: show_int_def all_digits_def)

lemma trim_digits:
  assumes "s \<noteq> []" and "is_digit (hd s)" and "is_digit (last s)" shows "trim s = s"
  using trim_pasted [of s "[]" "[]"] assms digit_not_sign by simp

lemma digits_span:
  assumes "list_all is_digit w" and "\<not> is_digit c"
  shows "takeWhile is_digit (w @ c # r) = w" "dropWhile is_digit (w @ c # r) = c # r" "takeWhile is_digit w = w" "dropWhile is_digit w = []"
  using assms by (simp_all add: list_all_iff takeWhile_append2 dropWhile_append2 takeWhile_eq_all_conv dropWhile_eq_Nil_conv)

lemma parse_parts:
  assumes "list_all is_digit w" and "w \<noteq> []" and "list_all is_digit f" and "length f \<le> 6"
    and "digits_val w * 10 ^ 18 + digits_val f * 10 ^ (18 - length f) = wei" and "0 < wei" and "wei \<le> maxMorLimit"
  shows "ParseMorLimit (if f = [] then w else w @ ''.'' @ f) = LimitWei wei"
proof -
  have dot: "\<not> is_digit (CHR ''.'')" by (simp add: is_digit_def)
  have hd: "is_digit (hd w)" "is_digit (last w)" using assms(1,2) by (auto simp: list_all_iff)
  have "is_digit (last f)" if "f \<noteq> []" using assms(3) that by (auto simp: list_all_iff)
  with hd assms(2) have t: "trim (if f = [] then w else w @ ''.'' @ f) = (if f = [] then w else w @ ''.'' @ f)"
    using trim_digits [of w] trim_digits [of "w @ ''.'' @ f"] by auto
  have re: "reMorLimit (if f = [] then w else w @ ''.'' @ f) = Some (w, f)"
    using assms(2-4) by (cases "f = []")
      (simp_all add: reMorLimit_def Let_def Suc_le_eq digits_span(1,2) [OF assms(1) dot] digits_span(3,4) [OF assms(1) dot])
  have v: "digits_val (w @ f @ replicate (18 - length f) (CHR ''0'')) = wei"
    using assms(4,5) by (simp add: digits_val_append algebra_simps power_add [symmetric])
  have "list_all is_digit (w @ f @ replicate (18 - length f) (CHR ''0''))" using assms(1,3) zero_digit by (auto simp: list_all_iff)
  moreover obtain c r where "w @ f @ replicate (18 - length f) (CHR ''0'') = c # r" using assms(2) by (cases w) auto
  ultimately have "parse_decimal (w @ f @ replicate (18 - length f) (CHR ''0'')) = Some wei"
    using v digit_not_sign [of c] by (simp add: parse_decimal_def all_digits_def)
  with re t assms(2,6,7) show ?thesis by (auto simp: ParseMorLimit_def Let_def)
qed

lemma format_parse:
  assumes "good_limit wei" shows "ParseMorLimit (FormatMorLimit wei) = LimitWei wei"
proof -
  define q m where qm: "q = wei div wei_per_mor" "m = (wei mod wei_per_mor) div microMor"
  define p where p: "p = leftPad (show_int m) 6"
  have pos: "0 < wei" "wei \<le> maxMorLimit" "wei mod microMor = 0" using assms by (simp_all add: good_limit_def)
  have q: "0 \<le> q" using pos by (simp add: qm pos_imp_zdiv_nonneg_iff wei_per_mor_def)
  have m: "0 \<le> m" "m < 10 ^ 6" by (simp_all add: qm wei_per_mor_def microMor_def pos_imp_zdiv_nonneg_iff div_less_iff_less_mult)
  have "microMor dvd wei mod wei_per_mor"
    using pos(3) by (simp add: mod_eq_0_iff_dvd dvd_mod wei_per_mor_def microMor_def)
  then have "wei mod wei_per_mor = m * microMor" by (simp add: qm)
  then have wei: "wei = q * 10 ^ 18 + m * 10 ^ 12" using div_mult_mod_eq [of wei wei_per_mor] by (simp add: qm(1) wei_per_mor_def microMor_def)
  have pd: "length p = 6" "list_all is_digit p" "digits_val p = m"
    using leftPad_digits [of "nat m"] m by (simp_all add: p show_int_def nat_less_iff)
  obtain k where k: "p = trim_zeros p @ replicate k (CHR ''0'')" using trim_zeros_split [of p] by blast
  have len: "length (trim_zeros p) + k = 6" using pd(1) k by (metis length_append length_replicate)
  have "digits_val p = digits_val (trim_zeros p) * 10 ^ k" by (subst k) (simp add: digits_val_append)
  with pd(3) have m': "m = digits_val (trim_zeros p) * 10 ^ k" by simp
  have e: "k + 12 = 18 - length (trim_zeros p)" using len by simp
  have "m * 10 ^ 12 = digits_val (trim_zeros p) * 10 ^ (18 - length (trim_zeros p))"
    unfolding e [symmetric] power_add by (subst m') (rule mult.assoc)
  moreover have "list_all is_digit (trim_zeros p)" using pd(2) k by (metis list_all_append)
  moreover have "FormatMorLimit wei = (if trim_zeros p = [] then show_int q else show_int q @ ''.'' @ trim_zeros p)"
    using pos m by (simp add: FormatMorLimit_def Let_def p qm go_div_nonneg wei_per_mor_def microMor_def minus_div_mult_eq_mod)
  ultimately show ?thesis
    using parse_parts [of "show_int q" "trim_zeros p" wei] show_int_digits [OF q] len pos wei by simp
qed

text \<open>
  A printed limit is read back as it was, for every limit the setting allows (above 0, at most 100000 MOR,
  whole micro-MOR).
\<close>

theorem mor_limit_roundtrip:
  assumes "good_limit wei" shows "ParseMorLimit (FormatMorLimit wei) = LimitWei wei"
  by (rule format_parse [OF assms])

lemma mor_limit_roundtrip_witness: "good_limit 1500000000000000 \<and> ParseMorLimit (FormatMorLimit 1500000000000000) = LimitWei 1500000000000000"
proof
  show g: "good_limit 1500000000000000" by (simp add: good_limit_def maxMorLimit_def wei_per_mor_def microMor_def)
  show "ParseMorLimit (FormatMorLimit 1500000000000000) = LimitWei 1500000000000000" by (rule mor_limit_roundtrip [OF g])
qed

subsection \<open>The default and the conversion\<close>

lemma round_up:
  fixes x k :: int assumes "0 < k" and "0 < x"
  shows "x \<le> go_div (x + (k - 1)) k * k" "go_div (x + (k - 1)) k * k < x + k"
proof -
  have d: "go_div (x + (k - 1)) k * k = (x + (k - 1)) div k * k" using assms by (simp add: go_div_nonneg)
  have "(x + (k - 1)) div k * k = (x + (k - 1)) - (x + (k - 1)) mod k" by (simp add: minus_mod_eq_div_mult)
  with pos_mod_bound [OF assms(1), of "x + (k - 1)"] pos_mod_sign [OF assms(1), of "x + (k - 1)"]
  show "x \<le> go_div (x + (k - 1)) k * k" "go_div (x + (k - 1)) k * k < x + k" unfolding d by linarith+
qed

lemma go_div_nonpos: "a < b \<Longrightarrow> 0 < b \<Longrightarrow> go_div a b \<le> 0"
  by (cases "0 \<le> a") (auto simp: go_div_def div_pos_pos_trivial pos_imp_zdiv_nonneg_iff split: if_splits)

lemma per_session_good: "good_limit (PerSessionFromHourly h sec)"
  by (auto simp: good_limit_def PerSessionFromHourly_def Let_def maxMorLimit_def wei_per_mor_def microMor_def)

text \<open>
  The per-session cap covers the hourly one. Converted for a session of any length, a cap is always a valid
  setting; it covers the hourly rate for the whole session unless it is the largest value allowed, and the
  next smaller setting would not, unless it is the smallest one.
\<close>

theorem per_session_least:
  "let w = PerSessionFromHourly hourly sec
   in good_limit w \<and> (w = maxMorLimit \<or> hourly * sec \<le> 3600 * w) \<and> (w = microMor \<or> 3600 * (w - microMor) < hourly * sec)"
proof -
  define x where x: "x = hourly * sec"
  define w1 where w1: "w1 = go_div (x + 3599) 3600"
  define w2 where w2: "w2 = go_div (w1 + (microMor - 1)) microMor * microMor"
  have w: "PerSessionFromHourly hourly sec = (let w3 = if w2 \<le> 0 then microMor else w2 in if w3 > maxMorLimit then maxMorLimit else w3)"
    by (simp add: PerSessionFromHourly_def Let_def x w1 w2)
  have mm: "0 < microMor" "microMor < maxMorLimit" by (simp_all add: microMor_def maxMorLimit_def wei_per_mor_def)
  show ?thesis
  proof (cases "0 < x")
    case True
    have a: "x \<le> w1 * 3600" "w1 * 3600 < x + 3600" using round_up [of 3600 x] True by (simp_all add: w1)
    then have "0 < w1" using True by linarith
    from round_up [OF mm(1) this] have b: "w1 \<le> w2" "w2 < w1 + microMor" by (simp_all add: w2)
    have "x \<le> 3600 * w2" "3600 * (w2 - microMor) < x" 
    proof -
      have "3600 * (w2 - microMor + 1) \<le> 3600 * w1" using b by simp
      then show "x \<le> 3600 * w2" "3600 * (w2 - microMor) < x" using a b unfolding distrib_left right_diff_distrib by linarith+
    qed
    moreover have "maxMorLimit < w2 \<Longrightarrow> 3600 * (maxMorLimit - microMor) < x"
      using calculation(2) mult_left_mono [of "maxMorLimit - microMor" "w2 - microMor" 3600] by simp
    ultimately show ?thesis using per_session_good [of hourly sec] \<open>0 < w1\<close> b by (simp add: w Let_def x)
  next
    case False
    then have "w1 \<le> 0" unfolding w1 by (intro go_div_nonpos) auto
    then have "go_div (w1 + (microMor - 1)) microMor \<le> 0" using mm by (intro go_div_nonpos) auto
    then have "w2 \<le> 0" using mm by (simp add: w2 mult_nonpos_nonneg)
    then show ?thesis using per_session_good [of hourly sec] mm False by (simp add: w Let_def x)
  qed
qed

lemma parse_trim: "ParseMorLimit (trim s) = ParseMorLimit s"
  by (simp add: ParseMorLimit_def)

text \<open>
  The cap is settled at boot, and stays so. A saved per-session cap is left alone; without a saved cap the
  default is a valid one for the default session; a saved hourly cap becomes its per-session value, an empty
  one stays off and an invalid one stays invalid with a note. What is saved for it reads, at the next boot, as
  the very same limit.
\<close>

theorem cap_resolved:
  "case ResolveStakeCap vals sec c of (sv, c') \<Rightarrow>
     (case mget vals ''maxStMorPerSession'' of
        Some v \<Rightarrow> sv = None \<and> c' = c
      | None \<Rightarrow> (case mget vals ''maxStMorPerHour'' of
          None \<Rightarrow> sv = None \<and> cc_StakeLimitWei c' = Some (PerSessionFromHourly (150 * 10 ^ 18) sec) \<and> \<not> cc_StakeLimitInvalid c'
        | Some raw \<Rightarrow>
            sv = Some (cc_MaxStMorPerSession c') \<and>
            cc_StakeLimitWei (setMaxStMorPerSession (cc_MaxStMorPerSession c') c) = cc_StakeLimitWei c' \<and>
            (case ParseMorLimit raw of
               LimitWei h \<Rightarrow> cc_StakeLimitWei c' = Some (PerSessionFromHourly h sec) \<and> \<not> cc_StakeLimitInvalid c'
             | NoLimit \<Rightarrow> cc_StakeLimitWei c' = None \<and> \<not> cc_StakeLimitInvalid c'
             | BadLimit \<Rightarrow> cc_StakeLimitWei c' = None \<and> cc_StakeLimitInvalid c' \<and> MaxStMorPerSessionInvalidNote \<in> set (cc_SettingNotes c'))))"
  by (auto simp: ResolveStakeCap_def setMaxStMorPerSession_def Let_def parse_trim DefaultMaxStMorPerSession_def DefaultMaxStMorPerHour_def
      wei_per_mor_def format_parse [OF per_session_good] split: option.split mor_limit.split)

end
