(* ===== verification/Sse.thy ===== *)
theory Sse
  imports Json Decimal
begin

section \<open>The stream relay (\<open>internal/router/client.go\<close>)\<close>

text \<open>
  \<open>flushCopyCtx\<close> copies a server-sent event stream from the router to the client, line by line, whatever
  pieces the reads deliver, and watches it for token usage, the end markers and a provider error. The
  upstream is a list of reads, the last of which carries the read error (or the end of the file) and the
  state of the request's context at that moment; the client is the list of outcomes of the coming writes
  (beyond the list every write succeeds), a failing one with the context at that moment.
\<close>

subsection \<open>Lines\<close>

definition quoted :: "string \<Rightarrow> string" where
  "quoted s = CHR 0x22 # s @ [CHR 0x22]"

definition newline :: char where "newline = CHR 0x0A"

definition data_tag :: string where "data_tag = ''data:''"

definition sseDone :: "string \<Rightarrow> bool" where
  "sseDone line = (let t = trim line in has_prefix t data_tag \<and> trim (drop (length data_tag) t) = ''[DONE]'')"

text \<open>
  \<open>choices\<close> decodes into a slice of structs with a pointer to a string. Of a repeated member the last one
  counts.
\<close>

definition finish_of :: "json \<Rightarrow> (string option) option" where
  "finish_of c = (case as_object c of
     None \<Rightarrow> None
   | Some kvs \<Rightarrow> foldl (\<lambda>r v. case r of None \<Rightarrow> None
        | Some _ \<Rightarrow> (case v of JNull \<Rightarrow> Some None | JStr s \<Rightarrow> Some (Some s) | _ \<Rightarrow> None))
      (Some None) (members ''finish_reason'' kvs))"

definition choices_of :: "(string \<times> json) list \<Rightarrow> (string option list) option" where
  "choices_of kvs = foldl (\<lambda>r v. case r of None \<Rightarrow> None
     | Some _ \<Rightarrow> (case v of
          JNull \<Rightarrow> Some []
        | JArr cs \<Rightarrow> if list_all (\<lambda>c. finish_of c \<noteq> None) cs then Some (List.map_filter finish_of cs) else None
        | _ \<Rightarrow> None)) (Some []) (members ''choices'' kvs)"

definition sseFinish :: "string \<Rightarrow> bool" where
  "sseFinish line =
     (let t = trim line in
      if \<not> has_prefix t data_tag \<or> \<not> contains t (quoted ''finish_reason'') then False
      else case Option.bind (json_parse (trim (drop (length data_tag) t))) as_object of
             None \<Rightarrow> False
           | Some kvs \<Rightarrow> (case choices_of kvs of
               None \<Rightarrow> False
             | Some fs \<Rightarrow> list_ex (\<lambda>f. case f of None \<Rightarrow> False | Some s \<Rightarrow> s \<noteq> []) fs))"

text \<open>\<open>usage\<close> decodes into a pointer to a struct of two counters.\<close>

definition usage_members :: "json list \<Rightarrow> ((int \<times> int) option) option" where
  "usage_members vs = foldl (\<lambda>r v. case r of None \<Rightarrow> None
     | Some u \<Rightarrow> (case v of
          JNull \<Rightarrow> Some None
        | JObj kvs \<Rightarrow>
            (case (int_field ''prompt_tokens'' kvs (case u of None \<Rightarrow> 0 | Some (p, c) \<Rightarrow> p),
                   int_field ''completion_tokens'' kvs (case u of None \<Rightarrow> 0 | Some (p, c) \<Rightarrow> c)) of
               ((True, p), (True, c)) \<Rightarrow> Some (Some (p, c))
             | _ \<Rightarrow> None)
        | _ \<Rightarrow> None)) (Some None) vs"

definition sseUsage :: "string \<Rightarrow> (int \<times> int) option" where
  "sseUsage line0 =
     (let line = trim line0 in
      if \<not> has_prefix line data_tag then None
      else let payload = trim (drop (length data_tag) line) in
        if payload = [] \<or> hd payload \<noteq> CHR ''{'' \<or> \<not> contains payload (quoted ''usage'') then None
        else case Option.bind (json_parse payload) as_object of
               None \<Rightarrow> None
             | Some kvs \<Rightarrow> (case usage_members (members ''usage'' kvs) of None \<Rightarrow> None | Some u \<Rightarrow> u))"

text \<open>The first JSON value of a text: an object ends at the shortest prefix that parses.\<close>

definition first_value :: "string \<Rightarrow> json option" where
  "first_value t = (case List.map_filter (\<lambda>n. json_parse (take n t)) [0..<Suc (length t)] of [] \<Rightarrow> None | v # _ \<Rightarrow> Some v)"

definition sseProviderError :: "string \<Rightarrow> int option" where
  "sseProviderError line =
     (let t = trim line in
      if t = [] \<or> hd t \<noteq> CHR ''{'' \<or> \<not> contains t (quoted ''providerModelError'') then None
      else let code = (case Option.bind (first_value t) as_object of
                         None \<Rightarrow> 0 | Some kvs \<Rightarrow> snd (int_field ''statusCode'' kvs 0))
           in Some (if code < 400 \<or> code > 599 then 502 else code))"

text \<open>The event that ends a stream whose provider failed: \<open>json.Marshal\<close> sorts the members.\<close>

definition error_event :: "string \<Rightarrow> string \<Rightarrow> int \<Rightarrow> string" where
  "error_event msg typ code = ''data: {'' @ quoted ''error'' @ '':{'' @ quoted ''code'' @ '':'' @ show_int code @ '','' @
     quoted ''message'' @ '':'' @ quoted msg @ '','' @ quoted ''type'' @ '':'' @ quoted typ @ ''}}'' @ [newline, newline]"

definition sseErrorEvent :: "int \<Rightarrow> string" where
  "sseErrorEvent status =
     error_event ''the provider failed during the response; send the request again'' ''provider_error'' status"

definition sseTimeoutTail :: "string \<Rightarrow> string" where
  "sseTimeoutTail kind =
     error_event (''the response was cut by an Uplink '' @ kind @ '' timeout'') ''timeout'' 504 @
     ''data: {'' @ quoted ''choices'' @ '':[{'' @ quoted ''index'' @ '':0,'' @ quoted ''delta'' @ '':{},'' @ quoted ''finish_reason'' @
     '':'' @ quoted (''uplink_'' @ kind @ ''_timeout'') @ ''}]}'' @ [newline, newline] @ ''data: [DONE]'' @ [newline, newline]"

definition maxSSELine :: nat where "maxSSELine = 2 ^ 20"

subsection \<open>How a stream ends\<close>

datatype cut = CutNone | CutUpstream | CutClient | CutCanceled | CutUplinkTimeout

text \<open>Why the request's context ended (\<open>context.Cause\<close>), and what a read can fail with.\<close>

datatype cause = IdleCause | TotalCause | DeadlineCause | OtherCause

datatype ctx_state = Live | Ended cause

datatype read_err = Eof | ReadIdle | ReadTotal | ReadDeadline | ReadClientTimeout | ReadCanceled | ReadOther

definition IsUplinkTimeout :: "ctx_state \<Rightarrow> read_err option \<Rightarrow> bool" where
  "IsUplinkTimeout cx e \<longleftrightarrow>
     cx \<in> {Ended IdleCause, Ended TotalCause, Ended DeadlineCause} \<or>
     e \<in> {Some ReadIdle, Some ReadTotal, Some ReadDeadline, Some ReadClientTimeout}"

text \<open>An end that came from our side of the stream.\<close>

definition ours :: "ctx_state \<Rightarrow> read_err option \<Rightarrow> cut" where
  "ours cx e = (if IsUplinkTimeout cx e then CutUplinkTimeout
     else if cx \<noteq> Live \<or> e = Some ReadCanceled then CutCanceled else CutNone)"

record stream_result =
  sr_promptTokens :: int
  sr_completionTokens :: int
  sr_providerError :: bool
  sr_providerStatus :: int
  sr_sawDone :: bool
  sr_sawFinish :: bool
  sr_cut :: cut
  sr_upstreamReadErr :: bool
  sr_clientWriteErr :: bool

definition no_result :: stream_result where
  "no_result = \<lparr>sr_promptTokens = 0, sr_completionTokens = 0, sr_providerError = False, sr_providerStatus = 0,
     sr_sawDone = False, sr_sawFinish = False, sr_cut = CutNone, sr_upstreamReadErr = False, sr_clientWriteErr = False\<rparr>"

datatype sent = Wrote string | Flushed

record relay =
  rl_res :: stream_result
  rl_sent :: "sent list"
  rl_writes :: "ctx_state option list"
  rl_pending :: string
  rl_pass :: bool

subsection \<open>The copy loop\<close>

definition write_out :: "string \<Rightarrow> relay \<Rightarrow> bool \<times> relay" where
  "write_out b r =
     (if b = [] then (True, r)
      else case rl_writes r of
        Some cx # ws \<Rightarrow> (False, r\<lparr>rl_writes := ws, rl_res := (rl_res r)\<lparr>sr_clientWriteErr := True,
          sr_cut := (if ours cx None = CutNone then CutClient else ours cx None)\<rparr>\<rparr>)
      | _ \<Rightarrow> (True, r\<lparr>rl_writes := tl (rl_writes r), rl_sent := rl_sent r @ [Wrote b]\<rparr>))"

definition flush_out :: "relay \<Rightarrow> relay" where
  "flush_out r = r\<lparr>rl_sent := rl_sent r @ [Flushed]\<rparr>"

definition scan_line :: "string \<Rightarrow> stream_result \<Rightarrow> stream_result" where
  "scan_line line s =
     (let s1 = (case sseUsage line of None \<Rightarrow> s | Some (p, c) \<Rightarrow> s\<lparr>sr_promptTokens := p, sr_completionTokens := c\<rparr>) in
      if sseDone line then s1\<lparr>sr_sawDone := True\<rparr>
      else if \<not> sr_sawFinish s1 \<and> sseFinish line then s1\<lparr>sr_sawFinish := True\<rparr> else s1)"

definition handle_line :: "string \<Rightarrow> relay \<Rightarrow> bool \<times> relay" where
  "handle_line line r =
     (case sseProviderError line of
        Some status \<Rightarrow> (False, snd (write_out (sseErrorEvent status)
          (r\<lparr>rl_res := (rl_res r)\<lparr>sr_providerError := True, sr_providerStatus := status, sr_cut := CutUpstream\<rparr>\<rparr>)))
      | None \<Rightarrow> write_out line (r\<lparr>rl_res := scan_line line (rl_res r)\<rparr>))"

text \<open>The first line of a text, with its newline, and the rest.\<close>

fun cut_line :: "string \<Rightarrow> (string \<times> string) option" where
  "cut_line [] = None"
| "cut_line (c # cs) = (if c = newline then Some ([c], cs) else map_option (\<lambda>(l, rest). (c # l, rest)) (cut_line cs))"

lemma cut_line_Some: "cut_line s = Some (l, rest) \<Longrightarrow> s = l @ rest \<and> l \<noteq> [] \<and> last l = newline \<and> newline \<notin> set (butlast l)"
  by (induction s arbitrary: l rest) (auto split: if_splits)

lemma cut_line_None: "cut_line s = None \<longleftrightarrow> newline \<notin> set s"
  by (induction s) auto

text \<open>One read's bytes; false when the stream must stop.\<close>

function copy_chunk :: "string \<Rightarrow> relay \<Rightarrow> bool \<times> relay" where
  "copy_chunk chunk r =
     (if chunk = [] then (True, r)
      else if rl_pass r then
        (case cut_line chunk of
           None \<Rightarrow> write_out chunk r
         | Some (l, rest) \<Rightarrow> (case write_out l (r\<lparr>rl_pass := False\<rparr>) of
             (go, r') \<Rightarrow> if go then copy_chunk rest r' else (False, r')))
      else
        (case cut_line chunk of
           None \<Rightarrow>
             let r1 = r\<lparr>rl_pending := rl_pending r @ chunk\<rparr> in
             if length (rl_pending r1) > maxSSELine
             then (case write_out (rl_pending r1) r1 of
                     (go, r2) \<Rightarrow> if go then (True, r2\<lparr>rl_pending := [], rl_pass := True\<rparr>) else (False, r2))
             else (True, r1)
         | Some (l, rest) \<Rightarrow> (case handle_line (rl_pending r @ l) (r\<lparr>rl_pending := []\<rparr>) of
             (go, r') \<Rightarrow> if go then copy_chunk rest r' else (False, flush_out r'))))"
  by pat_completeness auto
termination
  by (relation "measure (\<lambda>(chunk, r). length chunk)") (auto dest!: cut_line_Some)

declare copy_chunk.simps [simp del]

definition copy_read :: "string \<Rightarrow> relay \<Rightarrow> bool \<times> relay" where
  "copy_read chunk r =
     (if chunk = [] then (True, r)
      else case copy_chunk chunk r of (go, r') \<Rightarrow> if go then (True, flush_out r') else (False, r'))"

primrec copy_reads :: "string list \<Rightarrow> relay \<Rightarrow> bool \<times> relay" where
  "copy_reads [] r = (True, r)"
| "copy_reads (x # xs) r = (case copy_read x r of (go, r') \<Rightarrow> if go then copy_reads xs r' else (False, r'))"

text \<open>After the read that failed or met the end.\<close>

definition judge_end :: "read_err \<Rightarrow> ctx_state \<Rightarrow> relay \<Rightarrow> relay" where
  "judge_end e cx r0 =
     (let r = r0\<lparr>rl_res := (rl_res r0)\<lparr>sr_upstreamReadErr := (e \<noteq> Eof)\<rparr>\<rparr>;
          r2 = (if ours cx (Some e) \<noteq> CutNone then r\<lparr>rl_res := (rl_res r)\<lparr>sr_cut := ours cx (Some e)\<rparr>\<rparr>
            else if sr_upstreamReadErr (rl_res r) \<or> \<not> sr_sawDone (rl_res r) \<and> \<not> sr_sawFinish (rl_res r)
            then (let r1 = snd (write_out (sseErrorEvent 502) r) in
              r1\<lparr>rl_res := (rl_res r1)\<lparr>sr_providerError := True, sr_providerStatus := 0, sr_cut := CutUpstream\<rparr>\<rparr>)
            else r)
      in flush_out r2)"

definition end_stream :: "read_err \<Rightarrow> ctx_state \<Rightarrow> relay \<Rightarrow> relay" where
  "end_stream e cx r =
     (if rl_pending r \<noteq> [] \<and> \<not> rl_pass r
      then (case handle_line (rl_pending r) r of (go, r') \<Rightarrow> if go then judge_end e cx r' else flush_out r')
      else judge_end e cx r)"

record upstream =
  us_reads :: "string list"
  us_err :: read_err
  us_ctx :: ctx_state

definition flushCopyCtx :: "upstream \<Rightarrow> ctx_state option list \<Rightarrow> relay" where
  "flushCopyCtx u ws =
     (case copy_reads (us_reads u) \<lparr>rl_res = no_result, rl_sent = [], rl_writes = ws, rl_pending = [], rl_pass = False\<rparr> of
        (go, r) \<Rightarrow> if go then end_stream (us_err u) (us_ctx u) r else r)"

end
