(* ===== verification/Sse_Props.thy ===== *)
theory Sse_Props
  imports Sse
begin

section \<open>What the stream relay delivers\<close>

text \<open>
  The relay is independent of how the reads cut the stream into pieces, delivers the upstream bytes as they
  are up to the point where it stops, and blames the provider only for what the provider did.
\<close>

definition wrote :: "sent \<Rightarrow> string" where
  "wrote s = (case s of Wrote b \<Rightarrow> b | Flushed \<Rightarrow> [])"

definition sent_bytes :: "relay \<Rightarrow> string" where
  "sent_bytes r = concat (map wrote (rl_sent r))"

text \<open>The relay without the moments of flushing.\<close>

definition unflushed :: "relay \<Rightarrow> relay" where
  "unflushed r = r\<lparr>rl_sent := filter (\<lambda>s. s \<noteq> Flushed) (rl_sent r)\<rparr>"

named_theorems relay_simps \<open>what the relay operations change\<close>

lemma unflushed_parts [relay_simps]:
  "rl_res (unflushed r) = rl_res r" "rl_writes (unflushed r) = rl_writes r" "rl_pending (unflushed r) = rl_pending r"
  "rl_pass (unflushed r) = rl_pass r" "unflushed (flush_out r) = unflushed r" "unflushed (unflushed r) = unflushed r"
  "unflushed (r\<lparr>rl_pending := p\<rparr>) = (unflushed r)\<lparr>rl_pending := p\<rparr>"
  "unflushed (r\<lparr>rl_res := s\<rparr>) = (unflushed r)\<lparr>rl_res := s\<rparr>"
  "unflushed (r\<lparr>rl_pass := b\<rparr>) = (unflushed r)\<lparr>rl_pass := b\<rparr>"
  by (simp_all add: unflushed_def flush_out_def)

lemma flush_parts [relay_simps]:
  "rl_res (flush_out r) = rl_res r" "rl_writes (flush_out r) = rl_writes r" "rl_pending (flush_out r) = rl_pending r"
  "rl_pass (flush_out r) = rl_pass r" "sent_bytes (flush_out r) = sent_bytes r"
  by (simp_all add: flush_out_def sent_bytes_def wrote_def)

lemma sent_bytes_parts [relay_simps]:
  "sent_bytes (r\<lparr>rl_pending := p\<rparr>) = sent_bytes r" "sent_bytes (r\<lparr>rl_res := s\<rparr>) = sent_bytes r"
  "sent_bytes (r\<lparr>rl_pass := b\<rparr>) = sent_bytes r"
  by (simp_all add: sent_bytes_def)

subsection \<open>The cut of the reads\<close>

lemma unflushed_write: "fst (write_out b (unflushed r)) = fst (write_out b r) \<and> unflushed (snd (write_out b (unflushed r))) = unflushed (snd (write_out b r))"
  by (auto simp: write_out_def unflushed_def split: list.split option.split)

lemma write_keeps [relay_simps]:
  "rl_pending (snd (write_out b r)) = rl_pending r" "rl_pass (snd (write_out b r)) = rl_pass r"
  by (auto simp: write_out_def split: list.split option.split)

lemma unflushed_handle:
  "fst (handle_line l (unflushed r)) = fst (handle_line l r) \<and> unflushed (snd (handle_line l (unflushed r))) = unflushed (snd (handle_line l r))"
proof (cases "sseProviderError l")
  case None
  then show ?thesis using unflushed_write [of l "r\<lparr>rl_res := scan_line l (rl_res r)\<rparr>"] by (simp add: handle_line_def relay_simps)
next
  case (Some st)
  let ?r = "r\<lparr>rl_res := (rl_res r)\<lparr>sr_providerError := True, sr_providerStatus := st, sr_cut := CutUpstream\<rparr>\<rparr>"
  show ?thesis using Some unflushed_write [of "sseErrorEvent st" ?r] by (simp add: handle_line_def relay_simps)
qed

lemma handle_keeps [relay_simps]:
  "rl_pending (snd (handle_line l r)) = rl_pending r" "rl_pass (snd (handle_line l r)) = rl_pass r"
  by (simp_all add: handle_line_def relay_simps split: option.split)

definition same_run :: "bool \<times> relay \<Rightarrow> bool \<times> relay \<Rightarrow> bool" where
  "same_run a b \<longleftrightarrow> fst a = fst b \<and> unflushed (snd a) = unflushed (snd b)"

lemma same_run_trans: "same_run a b \<Longrightarrow> same_run b c \<Longrightarrow> same_run a c"
  by (simp add: same_run_def)

lemma handle_same:
  assumes a: "unflushed r = unflushed r'"
  shows "same_run (handle_line l r) (handle_line l r')"
  unfolding same_run_def using unflushed_handle [of l r, unfolded a] unflushed_handle [of l r'] by argo

lemma write_same:
  assumes a: "unflushed r = unflushed r'"
  shows "same_run (write_out b r) (write_out b r')"
  unfolding same_run_def using unflushed_write [of b r, unfolded a] unflushed_write [of b r'] by argo

lemma same_parts:
  assumes "unflushed r = unflushed r'"
  shows "rl_res r = rl_res r'" "rl_writes r = rl_writes r'" "rl_pending r = rl_pending r'" "rl_pass r = rl_pass r'"
  using assms by (metis unflushed_parts(1), metis unflushed_parts(2), metis unflushed_parts(3), metis unflushed_parts(4))

lemma copy_chunk_same: "unflushed r = unflushed r' \<Longrightarrow> same_run (copy_chunk c r) (copy_chunk c r')"
proof (induction c r arbitrary: r' rule: copy_chunk.induct)
  case (1 chunk r)
  note p = same_parts [OF 1(3)]
  have f: "unflushed (r\<lparr>rl_pass := False\<rparr>) = unflushed (r'\<lparr>rl_pass := False\<rparr>)" "unflushed (r\<lparr>rl_pending := []\<rparr>) = unflushed (r'\<lparr>rl_pending := []\<rparr>)"
    "unflushed (r\<lparr>rl_pending := q\<rparr>) = unflushed (r'\<lparr>rl_pending := q\<rparr>)" for q
    using 1(3) by (simp_all add: relay_simps)
  show ?case
  proof (cases "chunk = []")
    case True then show ?thesis using 1(3) by (simp add: copy_chunk.simps same_run_def)
  next
    case ne: False
    show ?thesis
    proof (cases "rl_pass r")
      case pass: True
      show ?thesis
      proof (cases "cut_line chunk")
        case None then show ?thesis using write_same [OF 1(3), of chunk] ne pass p by (simp add: copy_chunk.simps)
      next
        case (Some lr)
        obtain l rest where lr: "lr = (l, rest)" by (cases lr)
        have w: "same_run (write_out l (r\<lparr>rl_pass := False\<rparr>)) (write_out l (r'\<lparr>rl_pass := False\<rparr>))" by (rule write_same [OF f(1)])
        obtain go r1 go' r1' where e: "write_out l (r\<lparr>rl_pass := False\<rparr>) = (go, r1)" "write_out l (r'\<lparr>rl_pass := False\<rparr>) = (go', r1')"
          by (metis prod.collapse)
        with w have g: "go' = go" "unflushed r1 = unflushed r1'" by (simp_all add: same_run_def)
        from 1(1) [OF ne pass Some [unfolded lr] refl e(1) [symmetric] _ g(2)] have "go \<Longrightarrow> same_run (copy_chunk rest r1) (copy_chunk rest r1')" by simp
        then show ?thesis using ne pass p Some lr e g by (simp add: copy_chunk.simps [of chunk] same_run_def)
      qed
    next
      case pass: False
      show ?thesis
      proof (cases "cut_line chunk")
        case None
        let ?p = "rl_pending r @ chunk"
        have "same_run (write_out ?p (r\<lparr>rl_pending := ?p\<rparr>)) (write_out ?p (r'\<lparr>rl_pending := ?p\<rparr>))" by (rule write_same [OF f(3)])
        then show ?thesis using None ne pass p f(3) [of ?p]
          by (auto simp: copy_chunk.simps [of chunk] same_run_def Let_def relay_simps split: prod.split)
      next
        case (Some lr)
        obtain l rest where lr: "lr = (l, rest)" by (cases lr)
        have w: "same_run (handle_line (rl_pending r @ l) (r\<lparr>rl_pending := []\<rparr>)) (handle_line (rl_pending r' @ l) (r'\<lparr>rl_pending := []\<rparr>))"
          using handle_same [OF f(2)] p by simp
        obtain go r1 go' r1' where e: "handle_line (rl_pending r @ l) (r\<lparr>rl_pending := []\<rparr>) = (go, r1)"
            "handle_line (rl_pending r' @ l) (r'\<lparr>rl_pending := []\<rparr>) = (go', r1')"
          by (metis prod.collapse)
        with w have g: "go' = go" "unflushed r1 = unflushed r1'" by (simp_all add: same_run_def)
        from 1(2) [OF ne pass Some [unfolded lr] refl e(1) [symmetric] _ g(2)] have "go \<Longrightarrow> same_run (copy_chunk rest r1) (copy_chunk rest r1')" by simp
        then show ?thesis using ne pass p Some lr e g by (simp add: copy_chunk.simps [of chunk] same_run_def relay_simps)
      qed
    qed
  qed
qed

text \<open>No line is longer than the buffer; the counter is what is pending of the first one.\<close>

fun lines_short :: "nat \<Rightarrow> string \<Rightarrow> bool" where
  "lines_short n [] = (n \<le> maxSSELine)"
| "lines_short n (c # cs) = (if c = newline then n \<le> maxSSELine \<and> lines_short 0 cs else lines_short (Suc n) cs)"

lemma lines_short_le: "lines_short n s \<Longrightarrow> n \<le> maxSSELine"
  by (induction s arbitrary: n) (auto split: if_splits dest: Suc_leD)

lemma lines_short_open: "newline \<notin> set a \<Longrightarrow> lines_short n (a @ b) = lines_short (n + length a) b"
  by (induction a arbitrary: n) auto

lemma lines_short_line: "cut_line s = Some (l, rest) \<Longrightarrow> lines_short n s \<Longrightarrow> lines_short 0 rest"
  by (induction s arbitrary: n l rest) (auto split: if_splits)

lemma cut_line_append:
  "cut_line (a @ b) = (case cut_line a of Some (l, rest) \<Rightarrow> Some (l, rest @ b)
     | None \<Rightarrow> map_option (\<lambda>(l, rest). (a @ l, rest)) (cut_line b))"
  by (induction a) (auto simp: option.map_comp comp_def option.map_id intro!: option.map_cong0 split: option.split)

lemma copy_chunk_append:
  assumes "lines_short (length (rl_pending r)) (a @ b)" and "\<not> rl_pass r"
  shows "copy_chunk (a @ b) r = (case copy_chunk a r of (go, r') \<Rightarrow> if go then copy_chunk b r' else (False, r'))"
  using assms
proof (induction a r rule: copy_chunk.induct)
  case (1 a r)
  show ?case
  proof (cases "a = []")
    case True then show ?thesis by (simp add: copy_chunk.simps [of "[]"])
  next
    case ne: False
    show ?thesis
    proof (cases "cut_line a")
      case None
      then have nl: "newline \<notin> set a" by (simp add: cut_line_None)
      with 1(3) have s: "lines_short (length (rl_pending r @ a)) b" by (simp add: lines_short_open)
      then have "length (rl_pending r @ a) \<le> maxSSELine" by (rule lines_short_le)
      then have a: "copy_chunk a r = (True, r\<lparr>rl_pending := rl_pending r @ a\<rparr>)"
        using None ne 1(4) by (simp add: copy_chunk.simps [of a] Let_def)
      show ?thesis using None ne 1(4)
        by (cases "b = []"; cases "cut_line b") (auto simp: a copy_chunk.simps [of "[]"] copy_chunk.simps [of "a @ b"] copy_chunk.simps [of b] cut_line_append Let_def split: prod.split)
    next
      case (Some lr)
      obtain l rest where lr: "lr = (l, rest)" by (cases lr)
      obtain go r1 where e: "handle_line (rl_pending r @ l) (r\<lparr>rl_pending := []\<rparr>) = (go, r1)" by (metis prod.collapse)
      have k: "rl_pending r1 = []" "\<not> rl_pass r1" using handle_keeps [of "rl_pending r @ l" "r\<lparr>rl_pending := []\<rparr>"] e 1(4) by simp_all
      have "cut_line (a @ b) = Some (l, rest @ b)" using Some lr by (simp add: cut_line_append)
      moreover from lines_short_line [OF this 1(3)] have "lines_short (length (rl_pending r1)) (rest @ b)" by (simp add: k)
      ultimately show ?thesis using 1(2) [OF ne 1(4) Some [unfolded lr] refl e [symmetric]] k ne Some lr e 1(4)
        by (auto simp: copy_chunk.simps [of "a @ b"] copy_chunk.simps [of a] split: prod.split)
    qed
  qed
qed

lemma copy_chunk_pending:
  assumes "copy_chunk a r = (True, r')" and "lines_short (length (rl_pending r)) (a @ b)" and "\<not> rl_pass r"
  shows "lines_short (length (rl_pending r')) b \<and> \<not> rl_pass r'"
  using assms
proof (induction a r arbitrary: r' rule: copy_chunk.induct)
  case (1 a r)
  show ?case
  proof (cases "a = []")
    case True then show ?thesis using 1(3-5) by (simp add: copy_chunk.simps)
  next
    case ne: False
    show ?thesis
    proof (cases "cut_line a")
      case None
      then have "newline \<notin> set a" by (simp add: cut_line_None)
      with 1(4) have s: "lines_short (length (rl_pending r @ a)) b" by (simp add: lines_short_open)
      then have "length (rl_pending r @ a) \<le> maxSSELine" by (rule lines_short_le)
      then show ?thesis using None ne 1(3,5) s by (auto simp: copy_chunk.simps [of a] Let_def)
    next
      case (Some lr)
      obtain l rest where lr: "lr = (l, rest)" by (cases lr)
      obtain go r1 where e: "handle_line (rl_pending r @ l) (r\<lparr>rl_pending := []\<rparr>) = (go, r1)" by (metis prod.collapse)
      have k: "rl_pending r1 = []" "\<not> rl_pass r1" using handle_keeps [of "rl_pending r @ l" "r\<lparr>rl_pending := []\<rparr>"] e 1(5) by simp_all
      have "cut_line (a @ b) = Some (l, rest @ b)" using Some lr by (simp add: cut_line_append)
      from lines_short_line [OF this 1(4)] have "lines_short (length (rl_pending r1)) (rest @ b)" by (simp add: k)
      then show ?thesis using 1(2) [OF ne 1(5) Some [unfolded lr] refl e [symmetric]] 1(3) k ne Some lr e 1(5)
        by (auto simp: copy_chunk.simps [of a] split: if_splits)
    qed
  qed
qed

lemma copy_reads_chunk:
  assumes "lines_short (length (rl_pending r)) (concat xs)" and "\<not> rl_pass r"
  shows "same_run (copy_reads xs r) (copy_chunk (concat xs) r)"
  using assms
proof (induction xs arbitrary: r)
  case Nil
  then show ?case by (simp add: copy_chunk.simps same_run_def)
next
  case (Cons x xs)
  show ?case
  proof (cases "x = []")
    case True then show ?thesis using Cons by (simp add: copy_read_def)
  next
    case False
    obtain go r' where c: "copy_chunk x r = (go, r')" by (metis prod.collapse)
    have app: "copy_chunk (concat (x # xs)) r = (if go then copy_chunk (concat xs) r' else (False, r'))"
      using copy_chunk_append [of r x "concat xs"] Cons.prems c by simp
    show ?thesis
    proof (cases go)
      case True
      with copy_chunk_pending [of x r r' "concat xs"] Cons.prems c
      have "lines_short (length (rl_pending (flush_out r'))) (concat xs)" "\<not> rl_pass (flush_out r')" by (simp_all add: relay_simps)
      from Cons.IH [OF this] copy_chunk_same [of "flush_out r'" r' "concat xs"]
      have "same_run (copy_reads xs (flush_out r')) (copy_chunk (concat xs) r')" by (auto intro: same_run_trans simp: relay_simps)
      then show ?thesis using True False c app by (simp add: copy_read_def)
    next
      case False
      then show ?thesis using c app \<open>x \<noteq> []\<close> by (simp add: copy_read_def same_run_def)
    qed
  qed
qed

lemma judge_same: "unflushed r = unflushed r' \<Longrightarrow> unflushed (judge_end e cx r) = unflushed (judge_end e cx r')"
proof -
  assume a: "unflushed r = unflushed r'"
  let ?f = "\<lambda>r. r\<lparr>rl_res := (rl_res r)\<lparr>sr_upstreamReadErr := (e \<noteq> Eof)\<rparr>\<rparr>"
  have f: "unflushed (?f r) = unflushed (?f r')" "rl_res r = rl_res r'" using a same_parts [OF a] by (simp_all add: relay_simps)
  have "same_run (write_out (sseErrorEvent 502) (?f r)) (write_out (sseErrorEvent 502) (?f r'))" by (rule write_same [OF f(1)])
  then have w: "unflushed (snd (write_out (sseErrorEvent 502) (?f r))) = unflushed (snd (write_out (sseErrorEvent 502) (?f r')))"
    by (simp add: same_run_def)
  show ?thesis using w same_parts(1) [OF w] f(1) by (simp add: judge_end_def Let_def relay_simps f(2) a)
qed

lemma end_same: "unflushed r = unflushed r' \<Longrightarrow> unflushed (end_stream e cx r) = unflushed (end_stream e cx r')"
proof -
  assume a: "unflushed r = unflushed r'"
  note p = same_parts [OF a]
  have h: "same_run (handle_line (rl_pending r) r) (handle_line (rl_pending r') r')" using handle_same [OF a] by (simp only: p)
  obtain go r1 go' r1' where e: "handle_line (rl_pending r') r = (go, r1)" "handle_line (rl_pending r') r' = (go', r1')"
    by (metis prod.collapse)
  with h p have g: "go' = go" "unflushed r1 = unflushed r1'" by (simp_all add: same_run_def)
  have "unflushed (flush_out r1) = unflushed (flush_out r1')" using g(2) by (simp only: relay_simps)
  moreover note judge_same [OF g(2)] judge_same [OF a]
  ultimately show ?thesis by (simp add: end_stream_def e g(1) p)
qed

text \<open>
  C26: the pieces do not matter. As long as no line is longer than the line buffer, what the client is sent,
  write by write, and everything the relay finds out (usage, end markers, provider errors, the reason for
  the cut) depend on the bytes of the stream alone, not on how the reads cut them; also when the client
  fails at one of the writes.
\<close>

theorem pieces_irrelevant:
  assumes "lines_short 0 (concat xs)" and "concat ys = concat xs"
  shows "unflushed (flushCopyCtx \<lparr>us_reads = xs, us_err = e, us_ctx = cx\<rparr> ws) = unflushed (flushCopyCtx \<lparr>us_reads = ys, us_err = e, us_ctx = cx\<rparr> ws)"
proof -
  let ?r = "\<lparr>rl_res = no_result, rl_sent = [], rl_writes = ws, rl_pending = [], rl_pass = False\<rparr>"
  have "same_run (copy_reads xs ?r) (copy_reads ys ?r)"
    using copy_reads_chunk [of ?r xs] copy_reads_chunk [of ?r ys] assms by (auto simp: same_run_def)
  then have "fst (copy_reads xs ?r) = fst (copy_reads ys ?r)" and "unflushed (snd (copy_reads xs ?r)) = unflushed (snd (copy_reads ys ?r))"
    by (simp_all add: same_run_def)
  with end_same [OF this(2)] show ?thesis by (simp add: flushCopyCtx_def case_prod_beta)
qed

theorem pieces_irrelevant_witness:
  "unflushed (flushCopyCtx \<lparr>us_reads = [''data: a'', [newline], ''data: [DO'', ''NE]'' @ [newline]], us_err = Eof, us_ctx = Live\<rparr> [])
   = unflushed (flushCopyCtx \<lparr>us_reads = [''data: a'' @ [newline] @ ''data: [DONE]'' @ [newline]], us_err = Eof, us_ctx = Live\<rparr> [])"
  by (rule pieces_irrelevant) (simp_all add: newline_def maxSSELine_def)

subsection \<open>What is delivered\<close>

text \<open>
  The relay has passed on the text up to what is pending, or it has stopped for a reason that is not the
  regular end, after a part of the text and at most one error event.
\<close>

definition relayed :: "string \<Rightarrow> relay \<Rightarrow> bool" where
  "relayed tx r \<longleftrightarrow> sent_bytes r @ rl_pending r = tx \<and> (rl_pass r \<longrightarrow> rl_pending r = []) \<and>
     sr_cut (rl_res r) = CutNone \<and> \<not> sr_providerError (rl_res r)"

definition stopped :: "string \<Rightarrow> relay \<Rightarrow> bool" where
  "stopped tx r \<longleftrightarrow> sr_cut (rl_res r) \<noteq> CutNone \<and>
     (\<exists>k. sent_bytes r = take k tx \<or> sr_providerError (rl_res r) \<and> (\<exists>st. sent_bytes r = take k tx @ sseErrorEvent st))"

definition fate :: "string \<Rightarrow> bool \<times> relay \<Rightarrow> bool" where
  "fate tx p = (if fst p then relayed tx (snd p) else stopped tx (snd p))"

lemma stopped_more: "stopped a r \<Longrightarrow> stopped (a @ b) r"
proof -
  assume "stopped a r"
  then obtain k where c: "sr_cut (rl_res r) \<noteq> CutNone"
    and k: "sent_bytes r = take k a \<or> sr_providerError (rl_res r) \<and> (\<exists>st. sent_bytes r = take k a @ sseErrorEvent st)"
    by (auto simp: stopped_def)
  have "take (min k (length a)) (a @ b) = take k a" by (simp add: min_def)
  with c k show ?thesis unfolding stopped_def by metis
qed

lemma write_sent:
  "case write_out b r of (go, r') \<Rightarrow>
     if go then sent_bytes r' = sent_bytes r @ b \<and> rl_res r' = rl_res r
     else sent_bytes r' = sent_bytes r \<and> sr_cut (rl_res r') \<noteq> CutNone \<and> sr_providerError (rl_res r') = sr_providerError (rl_res r)"
  by (auto simp: write_out_def sent_bytes_def wrote_def split: list.split option.split)

lemma stopped_at: "sent_bytes r @ z = tx \<Longrightarrow> sr_cut (rl_res r) \<noteq> CutNone \<Longrightarrow> stopped tx r"
  unfolding stopped_def by (metis append_eq_conv_conj)

lemma stopped_event:
  "sent_bytes r = x @ sseErrorEvent st \<Longrightarrow> x @ z = tx \<Longrightarrow> sr_cut (rl_res r) \<noteq> CutNone \<Longrightarrow> sr_providerError (rl_res r) \<Longrightarrow> stopped tx r"
  unfolding stopped_def by (metis append_eq_conv_conj)

lemma scan_keeps [relay_simps]:
  "sr_cut (scan_line l s) = sr_cut s" "sr_providerError (scan_line l s) = sr_providerError s"
  by (simp_all add: scan_line_def Let_def split: option.split)

lemma handle_relays:
  assumes "sent_bytes r @ l = tx" and "sr_cut (rl_res r) = CutNone" and "\<not> sr_providerError (rl_res r)"
  shows "case handle_line l r of (go, r') \<Rightarrow>
     if go then sent_bytes r' = tx \<and> sr_cut (rl_res r') = CutNone \<and> \<not> sr_providerError (rl_res r') else stopped tx r'"
proof (cases "sseProviderError l")
  case None
  obtain go r' where w: "write_out l (r\<lparr>rl_res := scan_line l (rl_res r)\<rparr>) = (go, r')" by (metis prod.collapse)
  with write_sent [where b = l and r = "r\<lparr>rl_res := scan_line l (rl_res r)\<rparr>"] assms show ?thesis
    by (auto simp: handle_line_def None relay_simps intro: stopped_at)
next
  case (Some st)
  let ?r = "r\<lparr>rl_res := (rl_res r)\<lparr>sr_providerError := True, sr_providerStatus := st, sr_cut := CutUpstream\<rparr>\<rparr>"
  obtain go r' where w: "write_out (sseErrorEvent st) ?r = (go, r')" by (metis prod.collapse)
  with write_sent [where b = "sseErrorEvent st" and r = ?r] assms show ?thesis
    by (cases go) (auto simp: handle_line_def Some relay_simps intro: stopped_at stopped_event)
qed

lemma chunk_relays:
  assumes "relayed tx r"
  shows "fate (tx @ chunk) (copy_chunk chunk r)"
  using assms
proof (induction chunk r arbitrary: tx rule: copy_chunk.induct)
  case (1 chunk r)
  show ?case
  proof (cases "chunk = []")
    case True then show ?thesis using 1(3) by (simp add: copy_chunk.simps fate_def)
  next
    case ne: False
    show ?thesis
    proof (cases "rl_pass r")
      case pass: True
      with 1(3) have p: "rl_pending r = []" "sent_bytes r = tx" "sr_cut (rl_res r) = CutNone" "\<not> sr_providerError (rl_res r)"
        by (auto simp: relayed_def)
      show ?thesis
      proof (cases "cut_line chunk")
        case None
        show ?thesis using write_sent [where b = chunk and r = r] write_keeps [of chunk r] None ne pass p
          by (auto simp: copy_chunk.simps [of chunk] fate_def relayed_def split: prod.split if_splits intro: stopped_at)
      next
        case (Some lr)
        obtain l rest where lr: "lr = (l, rest)" by (cases lr)
        have c: "tx @ chunk = (tx @ l) @ rest" using cut_line_Some [OF Some [unfolded lr]] by simp
        obtain go r1 where e: "write_out l (r\<lparr>rl_pass := False\<rparr>) = (go, r1)" by (metis prod.collapse)
        have w: "fate (tx @ l) (go, r1)"
          using write_sent [where b = l and r = "r\<lparr>rl_pass := False\<rparr>"] write_keeps [of l "r\<lparr>rl_pass := False\<rparr>"] e p
          by (auto simp: fate_def relayed_def relay_simps intro: stopped_at)
        show ?thesis
        proof (cases go)
          case True
          with w have "relayed (tx @ l) r1" by (simp add: fate_def)
          from 1(1) [OF ne pass Some [unfolded lr] refl e [symmetric] True this] show ?thesis
            using True ne pass Some lr e by (simp only: c) (simp add: copy_chunk.simps [of chunk])
        next
          case False
          with w have "stopped ((tx @ l) @ rest) r1" by (metis fate_def fst_conv snd_conv stopped_more)
          then show ?thesis using False ne pass Some lr e by (simp only: c) (simp add: copy_chunk.simps [of chunk] fate_def)
        qed
      qed
    next
      case pass: False
      with 1(3) have p: "sent_bytes r @ rl_pending r = tx" "sr_cut (rl_res r) = CutNone" "\<not> sr_providerError (rl_res r)"
        by (simp_all add: relayed_def)
      show ?thesis
      proof (cases "cut_line chunk")
        case None
        let ?r = "r\<lparr>rl_pending := rl_pending r @ chunk\<rparr>"
        obtain go r1 where e: "write_out (rl_pending r @ chunk) ?r = (go, r1)" by (metis prod.collapse)
        show ?thesis using write_sent [where b = "rl_pending r @ chunk" and r = ?r] None ne pass p e
          by (auto simp: copy_chunk.simps [of chunk] fate_def relayed_def relay_simps Let_def split: if_splits intro: stopped_at)
      next
        case (Some lr)
        obtain l rest where lr: "lr = (l, rest)" by (cases lr)
        have c: "tx @ chunk = (tx @ l) @ rest" using cut_line_Some [OF Some [unfolded lr]] by simp
        obtain go r1 where e: "handle_line (rl_pending r @ l) (r\<lparr>rl_pending := []\<rparr>) = (go, r1)" by (metis prod.collapse)
        have w: "fate (tx @ l) (go, r1)"
          using handle_relays [of "r\<lparr>rl_pending := []\<rparr>" "rl_pending r @ l" "tx @ l"] handle_keeps [of "rl_pending r @ l" "r\<lparr>rl_pending := []\<rparr>"] e p pass
          by (auto simp: fate_def relayed_def relay_simps)
        show ?thesis
        proof (cases go)
          case True
          with w have "relayed (tx @ l) r1" by (simp add: fate_def)
          from 1(2) [OF ne pass Some [unfolded lr] refl e [symmetric] True this] show ?thesis
            using True ne pass Some lr e by (simp only: c) (simp add: copy_chunk.simps [of chunk])
        next
          case False
          with w have "stopped ((tx @ l) @ rest) r1" by (metis fate_def fst_conv snd_conv stopped_more)
          then show ?thesis using False ne pass Some lr e
            by (simp only: c) (simp add: copy_chunk.simps [of chunk] fate_def stopped_def relay_simps)
        qed
      qed
    qed
  qed
qed

lemma reads_relay:
  assumes "relayed tx r"
  shows "fate (tx @ concat xs) (copy_reads xs r)"
  using assms
proof (induction xs arbitrary: r tx)
  case Nil then show ?case by (simp add: fate_def)
next
  case (Cons x xs)
  obtain go r' where c: "copy_chunk x r = (go, r')" by (metis prod.collapse)
  with chunk_relays [OF Cons.prems, of x] have w: "if go then relayed (tx @ x) r' else stopped (tx @ x) r'" by (auto simp: fate_def)
  have f: "relayed (tx @ x) (flush_out r')" if go using w that by (simp add: relayed_def relay_simps)
  show ?case
  proof (cases "x = []")
    case True then show ?thesis using Cons.IH [OF Cons.prems] by (simp add: copy_read_def)
  next
    case False
    show ?thesis
    proof (cases go)
      case True
      then show ?thesis using Cons.IH [OF f [OF True]] c \<open>x \<noteq> []\<close> by (simp add: copy_read_def)
    next
      case False
      then show ?thesis using stopped_more [of "tx @ x" r' "concat xs"] w c \<open>x \<noteq> []\<close> by (simp add: copy_read_def fate_def)
    qed
  qed
qed

lemma judge_relays:
  assumes "sent_bytes r = tx" and "sr_cut (rl_res r) = CutNone" and "\<not> sr_providerError (rl_res r)"
  shows "if sr_cut (rl_res (judge_end e cx r)) = CutNone then sent_bytes (judge_end e cx r) = tx else stopped tx (judge_end e cx r)"
proof -
  let ?r = "r\<lparr>rl_res := (rl_res r)\<lparr>sr_upstreamReadErr := (e \<noteq> Eof)\<rparr>\<rparr>"
  obtain go r1 where e: "write_out (sseErrorEvent 502) ?r = (go, r1)" by (metis prod.collapse)
  have w: "sent_bytes r1 = tx @ sseErrorEvent 502 \<or> sent_bytes r1 = tx"
    using write_sent [where b = "sseErrorEvent 502" and r = ?r] e assms(1) by (auto simp: relay_simps split: if_splits)
  then show ?thesis using e assms
    by (auto simp: judge_end_def Let_def relay_simps stopped_def split: if_splits intro!: exI [where x = "length tx"])
qed

text \<open>
  The client gets the router's bytes, in order and unchanged. A stream that ends regularly is delivered
  in full; one that is cut, for whatever reason and at whatever write or read, is delivered up to a point,
  followed by at most one error event, and that only when the provider is to blame.
\<close>

theorem stream_delivered:
  "let r = flushCopyCtx u ws; tx = concat (us_reads u); s = rl_res r in
     if sr_cut s = CutNone then sent_bytes r = tx
     else \<exists>k. sent_bytes r = take k tx \<or> sr_providerError s \<and> (\<exists>st. sent_bytes r = take k tx @ sseErrorEvent st)"
proof -
  let ?r0 = "\<lparr>rl_res = no_result, rl_sent = [], rl_writes = ws, rl_pending = [], rl_pass = False\<rparr>"
  let ?tx = "concat (us_reads u)"
  have "relayed [] ?r0" by (simp add: relayed_def no_result_def sent_bytes_def)
  from reads_relay [OF this, of "us_reads u"] obtain go r where c: "copy_reads (us_reads u) ?r0 = (go, r)"
    and w: "if go then relayed ?tx r else stopped ?tx r" by (metis append_Nil fate_def prod.collapse)
  have goal: "if sr_cut (rl_res (end_stream (us_err u) (us_ctx u) r)) = CutNone then sent_bytes (end_stream (us_err u) (us_ctx u) r) = ?tx
      else stopped ?tx (end_stream (us_err u) (us_ctx u) r)" if rel: "relayed ?tx r"
  proof (cases "rl_pending r \<noteq> [] \<and> \<not> rl_pass r")
    case True
    obtain go1 r1 where h: "handle_line (rl_pending r) r = (go1, r1)" by (metis prod.collapse)
    have "if go1 then sent_bytes r1 = ?tx \<and> sr_cut (rl_res r1) = CutNone \<and> \<not> sr_providerError (rl_res r1) else stopped ?tx r1"
      using handle_relays [of r "rl_pending r" ?tx] rel h by (simp add: relayed_def)
    then show ?thesis using True h judge_relays [of r1 ?tx "us_err u" "us_ctx u"]
      by (cases go1) (auto simp: end_stream_def relay_simps stopped_def)
  next
    case False
    with rel have "sent_bytes r = ?tx" by (auto simp: relayed_def)
    from judge_relays [OF this] rel False show ?thesis by (cases "rl_pending r = []") (auto simp: end_stream_def relayed_def)
  qed
  show ?thesis using goal w c by (cases go) (auto simp: flushCopyCtx_def Let_def stopped_def)
qed

subsection \<open>Who is to blame\<close>

definition fault_in :: "string \<Rightarrow> bool" where
  "fault_in tx \<longleftrightarrow> (\<exists>u v w. tx = u @ v @ w \<and> sseProviderError v \<noteq> None)"

lemma fault_in_part: "fault_in v \<Longrightarrow> fault_in (u @ v @ w)"
  unfolding fault_in_def by (metis append.assoc)

text \<open>What came before, what is pending and what comes are parts of the stream.\<close>

definition blameless :: "string \<Rightarrow> relay \<Rightarrow> bool" where
  "blameless tx r \<longleftrightarrow> (sr_providerError (rl_res r) \<longrightarrow> fault_in tx)"

lemma write_blame [relay_simps]: "sr_providerError (rl_res (snd (write_out b r))) = sr_providerError (rl_res r)"
  by (auto simp: write_out_def split: list.split option.split)

lemma handle_blame: "blameless tx r \<Longrightarrow> tx = u @ l @ w \<Longrightarrow> blameless tx (snd (handle_line l r))"
  unfolding blameless_def handle_line_def fault_in_def
  by (cases "sseProviderError l") (auto simp: relay_simps)

lemma blameless_same [relay_simps]:
  "blameless tx (r\<lparr>rl_pending := p\<rparr>) = blameless tx r" "blameless tx (r\<lparr>rl_pass := b\<rparr>) = blameless tx r"
  "blameless tx (flush_out r) = blameless tx r" "blameless tx (snd (write_out x r)) = blameless tx r"
  by (simp_all add: blameless_def relay_simps)

lemma chunk_blame:
  assumes "blameless tx r" and "tx = u @ rl_pending r @ chunk @ w" and "rl_pass r \<longrightarrow> rl_pending r = []"
  shows "blameless tx (snd (copy_chunk chunk r)) \<and> (rl_pass (snd (copy_chunk chunk r)) \<longrightarrow> rl_pending (snd (copy_chunk chunk r)) = []) \<and>
    (fst (copy_chunk chunk r) \<longrightarrow> (\<exists>u'. tx = u' @ rl_pending (snd (copy_chunk chunk r)) @ w))"
  using assms
proof (induction chunk r arbitrary: u rule: copy_chunk.induct)
  case (1 chunk r)
  show ?case
  proof (cases "chunk = []")
    case True then show ?thesis using 1(3-5) by (auto simp: copy_chunk.simps)
  next
    case ne: False
    show ?thesis
    proof (cases "cut_line chunk")
      case None
      show ?thesis using 1(3-5) None ne
        by (auto simp: copy_chunk.simps [of chunk] Let_def case_prod_beta relay_simps)
    next
      case (Some lr)
      obtain l rest where lr: "lr = (l, rest)" by (cases lr)
      have c: "chunk = l @ rest" using cut_line_Some [OF Some [unfolded lr]] by simp
      show ?thesis
      proof (cases "rl_pass r")
        case pass: True
        obtain go r1 where e: "write_out l (r\<lparr>rl_pass := False\<rparr>) = (go, r1)" by (metis prod.collapse)
        then have r1: "r1 = snd (write_out l (r\<lparr>rl_pass := False\<rparr>))" by simp
        have "blameless tx r1" "tx = (u @ rl_pending r @ l) @ rl_pending r1 @ rest @ w"
          using 1(3-5) pass c by (simp_all add: r1 relay_simps)
        moreover have "rl_pending r1 = []" using 1(5) pass by (simp add: r1 relay_simps)
        ultimately show ?thesis using 1(1) [OF ne pass Some [unfolded lr] refl e [symmetric]] Some lr e pass ne
          by (simp add: copy_chunk.simps [of chunk])
      next
        case pass: False
        obtain go r1 where e: "handle_line (rl_pending r @ l) (r\<lparr>rl_pending := []\<rparr>) = (go, r1)" by (metis prod.collapse)
        then have r1: "r1 = snd (handle_line (rl_pending r @ l) (r\<lparr>rl_pending := []\<rparr>))" by simp
        have "blameless tx r1" unfolding r1 using 1(3,4) c by (intro handle_blame [where u = u and w = "rest @ w"]) (simp_all add: relay_simps)
        moreover have "tx = (u @ rl_pending r @ l) @ rl_pending r1 @ rest @ w" "rl_pending r1 = []" using 1(4) c by (simp_all add: r1 relay_simps)
        ultimately show ?thesis using 1(2) [OF ne pass Some [unfolded lr] refl e [symmetric]] Some lr e pass ne
          by (simp add: copy_chunk.simps [of chunk] relay_simps)
      qed
    qed
  qed
qed

lemma reads_blame:
  "blameless tx r \<Longrightarrow> tx = u @ rl_pending r @ concat xs \<Longrightarrow> rl_pass r \<longrightarrow> rl_pending r = [] \<Longrightarrow>
   blameless tx (snd (copy_reads xs r)) \<and> (fst (copy_reads xs r) \<longrightarrow> (\<exists>u'. tx = u' @ rl_pending (snd (copy_reads xs r))))"
proof (induction xs arbitrary: r u)
  case Nil then show ?case by auto
next
  case (Cons x xs)
  obtain go r' where c: "copy_chunk x r = (go, r')" by (metis prod.collapse)
  with chunk_blame [OF Cons.prems(1), of u x "concat xs"] Cons.prems(2,3)
  have b: "blameless tx r'" and p: "go \<Longrightarrow> \<exists>u'. tx = u' @ rl_pending r' @ concat xs" and q: "rl_pass r' \<longrightarrow> rl_pending r' = []" by auto
  show ?case
  proof (cases "x = []")
    case True then show ?thesis using Cons by (simp add: copy_read_def)
  next
    case False
    show ?thesis
    proof (cases go)
      case True
      with p obtain u' where "tx = u' @ rl_pending (flush_out r') @ concat xs" by (auto simp: relay_simps)
      from Cons.IH [OF _ this] b q True c False show ?thesis by (simp add: copy_read_def relay_simps)
    qed (use b c False in \<open>simp add: copy_read_def\<close>)
  qed
qed

text \<open>What a recorded fault says.\<close>

definition fault_shown :: "upstream \<Rightarrow> stream_result \<Rightarrow> bool" where
  "fault_shown u s \<longleftrightarrow> fault_in (concat (us_reads u)) \<or>
     ours (us_ctx u) (Some (us_err u)) = CutNone \<and> (us_err u \<noteq> Eof \<or> \<not> sr_sawDone s \<and> \<not> sr_sawFinish s)"

lemma write_marks [relay_simps]:
  "sr_sawDone (rl_res (snd (write_out b r))) = sr_sawDone (rl_res r)" "sr_sawFinish (rl_res (snd (write_out b r))) = sr_sawFinish (rl_res r)"
  by (auto simp: write_out_def split: list.split option.split)

lemma judge_blame:
  "blameless (concat (us_reads u)) r \<Longrightarrow> sr_providerError (rl_res (judge_end (us_err u) (us_ctx u) r)) \<Longrightarrow>
   fault_shown u (rl_res (judge_end (us_err u) (us_ctx u) r))"
  by (auto simp: judge_end_def blameless_def fault_shown_def Let_def relay_simps split: if_splits)

lemma end_blame:
  assumes "blameless (concat (us_reads u)) r" and "concat (us_reads u) = u' @ rl_pending r"
    and "sr_providerError (rl_res (end_stream (us_err u) (us_ctx u) r))"
  shows "fault_shown u (rl_res (end_stream (us_err u) (us_ctx u) r))"
proof (cases "rl_pending r \<noteq> [] \<and> \<not> rl_pass r")
  case True
  have "blameless (concat (us_reads u)) (snd (handle_line (rl_pending r) r))"
    using handle_blame [OF assms(1), of u' "rl_pending r" "[]"] assms(2) by simp
  then show ?thesis using True assms(3) judge_blame
    by (auto simp: end_stream_def case_prod_beta relay_simps blameless_def fault_shown_def split: if_splits)
next
  case False
  then have "end_stream (us_err u) (us_ctx u) r = judge_end (us_err u) (us_ctx u) r" by (auto simp: end_stream_def)
  with assms(3) judge_blame [OF assms(1)] show ?thesis by simp
qed

text \<open>
  The provider is blamed only for what it did. When a provider fault is recorded, the stream held a
  provider error, or it broke off or ended without an end marker while the request was live and none of our
  timers had fired; so a client that hangs up or is too slow, a cancelled request and our own time limits
  never count as one.
\<close>

theorem blame_provider:
  "let s = rl_res (flushCopyCtx u ws) in if sr_providerError s then fault_shown u s else True"
proof -
  let ?r0 = "\<lparr>rl_res = no_result, rl_sent = [], rl_writes = ws, rl_pending = [], rl_pass = False\<rparr>"
  let ?tx = "concat (us_reads u)"
  obtain go r where c: "copy_reads (us_reads u) ?r0 = (go, r)" by (metis prod.collapse)
  with reads_blame [of ?tx ?r0 "[]" "us_reads u"] have b: "blameless ?tx r" and p: "go \<Longrightarrow> \<exists>u'. ?tx = u' @ rl_pending r"
    by (auto simp: blameless_def no_result_def)
  show ?thesis
  proof (cases go)
    case True
    with p obtain u' where "?tx = u' @ rl_pending r" by blast
    from end_blame [OF b this] show ?thesis using True c by (simp add: flushCopyCtx_def Let_def)
  next
    case False
    then show ?thesis using b c by (simp add: flushCopyCtx_def Let_def blameless_def fault_shown_def)
  qed
qed

end
