(* ===== verification/Node_Proxy.thy ===== *)
theory Node_Proxy
  imports Json
begin

section \<open>The router passthrough and the console host (\<open>internal/api/nodeproxy.go\<close>, \<open>hostgate.go\<close>)\<close>

text \<open>
  \<open>/node/*\<close> hands a request of the administrator to the router: the raw path is normalised once, refused
  when it is ambiguous or hits a deny rule, and otherwise forwarded exactly as it was checked. The console
  answers only on the host of \<open>WEB_PUBLIC_URL\<close>. \<open>url.Parse\<close> is a parameter (scheme, host name and port).
\<close>

subsection \<open>Text\<close>

definition slash :: char where "slash = CHR ''/''"
definition backslash :: char where "backslash = CHR 0x5C"

definition out_of_range :: "char \<Rightarrow> bool" where
  "out_of_range c \<longleftrightarrow> (of_char c :: nat) < 32 \<or> (of_char c :: nat) \<ge> 127"

text \<open>\<open>strings.Split(s, "/")\<close>.\<close>

fun split_slash :: "string \<Rightarrow> string list" where
  "split_slash [] = [[]]"
| "split_slash (c # cs) =
     (if c = slash then [] # split_slash cs
      else (case split_slash cs of [] \<Rightarrow> [[c]] | s # ss \<Rightarrow> (c # s) # ss))"

fun join_slash :: "string list \<Rightarrow> string" where
  "join_slash [] = []"
| "join_slash [s] = s"
| "join_slash (s # ss) = s @ slash # join_slash ss"

definition trim_suffix :: "string \<Rightarrow> string \<Rightarrow> string" where
  "trim_suffix s suf = (if length suf \<le> length s \<and> drop (length s - length suf) s = suf then take (length s - length suf) s else s)"

definition trim_prefix :: "string \<Rightarrow> string \<Rightarrow> string" where
  "trim_prefix s p = (if has_prefix s p then drop (length p) s else s)"

subsection \<open>Normalisation\<close>

text \<open>Decoding the escapes, exactly once; \<open>None\<close> is the refusal of an ambiguous path.\<close>

fun unescape :: "string \<Rightarrow> string option" where
  "unescape [] = Some []"
| "unescape (c # cs) =
     (if c = CHR ''%''
      then (case cs of
          h # l # r \<Rightarrow>
            (case (hex_val h, hex_val l) of
               (Some a, Some b) \<Rightarrow>
                 (let d = char_of (16 * a + b :: nat) in
                  if d = slash \<or> d = backslash \<or> d = CHR ''.'' \<or> d = CHR ''%'' \<or> out_of_range d then None
                  else map_option ((#) d) (unescape r))
             | _ \<Rightarrow> None)
        | _ \<Rightarrow> None)
      else if c = backslash \<or> out_of_range c then None
      else map_option ((#) c) (unescape cs))"

text \<open>\<open>path.Clean\<close> of a rooted path: the segments that are left, in reverse.\<close>

fun clean_segs :: "string list \<Rightarrow> string list \<Rightarrow> string list" where
  "clean_segs [] done' = rev done'"
| "clean_segs (s # ss) done' =
     (if s = [] \<or> s = ''.'' then clean_segs ss done'
      else if s = ''..'' then clean_segs ss (tl done')
      else clean_segs ss (s # done'))"

definition path_clean :: "string \<Rightarrow> string" where
  "path_clean p = slash # join_slash (clean_segs (split_slash (tl p)) [])"

definition good_seg :: "string \<Rightarrow> bool" where
  "good_seg s \<longleftrightarrow> s \<noteq> [] \<and> s \<noteq> ''.'' \<and> s \<noteq> ''..''"

definition normalizeNodePath :: "string \<Rightarrow> string option" where
  "normalizeNodePath raw =
     (if \<not> has_prefix raw [slash] then None
      else case unescape raw of
        None \<Rightarrow> None
      | Some p0 \<Rightarrow>
          if contains p0 [slash, slash] then None
          else let p = (if length p0 > 1 then trim_suffix p0 [slash] else p0) in
            if p = [slash] then Some p
            else if \<not> list_all good_seg (split_slash (drop 1 p)) then None
            else if path_clean p \<noteq> p then None else Some p)"

subsection \<open>The deny list\<close>

record deny_rule =
  dr_pattern :: "string list"
  dr_exact :: bool
  dr_readsOK :: bool

definition rule :: "string list \<Rightarrow> bool \<Rightarrow> bool \<Rightarrow> deny_rule" where
  "rule p e r = \<lparr>dr_pattern = p, dr_exact = e, dr_readsOK = r\<rparr>"

definition nodeDenyRules :: "deny_rule list" where
  "nodeDenyRules =
    [rule [''blockchain'', ''send''] False False,
     rule [''blockchain'', ''approve''] False False,
     rule [''wallet''] False True,
     rule [''auth''] False True,
     rule [''config''] False True,
     rule [''ipfs''] False False,
     rule [''proxy'', ''provider'', ''ping''] False False,
     rule [''proxy'', ''sessions'', ''initiate''] False False,
     rule [''v1'', ''audio'', ''transcriptions''] False False,
     rule [''docker'', ''build''] False False,
     rule [''docker'', ''container'', ''start''] False False,
     rule [''blockchain'', ''sessions''] True False,
     rule [''blockchain'', ''bids'', ''*'', ''session''] True False,
     rule [''blockchain'', ''models'', ''*'', ''session''] True False,
     rule [''blockchain'', ''providers''] True True,
     rule [''blockchain'', ''models''] True True,
     rule [''blockchain'', ''bids''] True True]"

fun match_segs :: "string list \<Rightarrow> string list \<Rightarrow> bool" where
  "match_segs [] segs = True"
| "match_segs (w # ws) [] = False"
| "match_segs (w # ws) (s # segs) = ((w = ''*'' \<or> s = w) \<and> match_segs ws segs)"

definition rule_blocks :: "string \<Rightarrow> string list \<Rightarrow> deny_rule \<Rightarrow> bool" where
  "rule_blocks method segs r \<longleftrightarrow>
     \<not> (dr_readsOK r \<and> (method = ''GET'' \<or> method = ''HEAD'')) \<and>
     \<not> (length segs < length (dr_pattern r) \<or> dr_exact r \<and> length segs \<noteq> length (dr_pattern r)) \<and>
     match_segs (dr_pattern r) segs"

definition nodePathBlocked :: "string \<Rightarrow> string \<Rightarrow> bool" where
  "nodePathBlocked p method =
     (let segs = split_slash (to_lower (trim_prefix p [slash])) in list_ex (rule_blocks method segs) nodeDenyRules)"

definition nodeMethodForwarded :: "string \<Rightarrow> bool" where
  "nodeMethodForwarded m \<longleftrightarrow> m \<in> set [''GET'', ''HEAD'', ''POST'', ''DELETE'']"

definition auditSafePath :: "string \<Rightarrow> string" where
  "auditSafePath p = map (\<lambda>c. if (of_char c :: nat) \<ge> 33 \<and> (of_char c :: nat) < 127 then c else CHR ''?'') (take 200 p)"

subsection \<open>The passthrough\<close>

text \<open>
  A request as the server has it: the request line's target, the decoded and the escaped path, the query as
  a map, the headers. \<open>Authorization\<close> and the host of what is sent to the router are set by the client.
\<close>

record http_request =
  hq_method :: string
  hq_uri :: string
  hq_path :: string
  hq_escaped :: string
  hq_host :: string
  hq_query :: "(string list) gomap"
  hq_header :: "(string list) gomap"

record target =
  tg_path :: string
  tg_host :: string
  tg_auth :: string

definition rawRequestPath :: "http_request \<Rightarrow> string" where
  "rawRequestPath r = (if has_prefix (hq_uri r) [slash] then takeWhile (\<lambda>c. c \<noteq> CHR ''?'') (hq_uri r) else hq_escaped r)"

datatype node_answer =
    NodeRefused string                                   \<comment> \<open>403, with its audit line\<close>
  | NodeForwarded http_request

definition methodOverrideHeaders :: "string list" where
  "methodOverrideHeaders = [''X-HTTP-Method-Override'', ''X-HTTP-Method'', ''X-Method-Override'',
     ''X-Original-Method'', ''X-Original-URL'', ''X-Rewrite-URL'']"

definition contextHeaders :: "string list" where
  "contextHeaders = [''Cookie'', ''Authorization'', ''Origin'', ''Referer'',
     ''Sec-Fetch-Site'', ''Sec-Fetch-Mode'', ''Sec-Fetch-Dest'', ''Sec-Fetch-User'']"

definition del_headers :: "string list \<Rightarrow> (string list) gomap \<Rightarrow> (string list) gomap" where
  "del_headers names h = filter (\<lambda>(k, v). \<not> list_ex (equal_fold k) names) h"

definition rewrite :: "target \<Rightarrow> string \<Rightarrow> http_request \<Rightarrow> http_request" where
  "rewrite t np r = r\<lparr>hq_path := trim_suffix (tg_path t) [slash] @ np,
     hq_query := filter (\<lambda>(k, v). \<not> equal_fold k ''_method'') (hq_query r),
     hq_header := mput ''Authorization'' [tg_auth t] (del_headers (methodOverrideHeaders @ contextHeaders) (hq_header r)),
     hq_host := tg_host t\<rparr>"

definition nodeProxy :: "target \<Rightarrow> http_request \<Rightarrow> node_answer" where
  "nodeProxy t r =
     (let raw = trim_prefix (rawRequestPath r) ''/node''; np = normalizeNodePath raw;
          badMethod = (\<not> nodeMethodForwarded (hq_method r));
          refuse = (\<lambda>shown reason. NodeRefused (take 16 (hq_method r) @ '' /node'' @ shown @ '' ('' @ reason @ '')''))
      in case np of
           None \<Rightarrow> refuse (auditSafePath raw) ''ambiguous''
         | Some p \<Rightarrow>
             if badMethod then refuse p ''method''
             else if nodePathBlocked p (hq_method r) then refuse p ''blocked''
             else NodeForwarded (rewrite t p r))"

text \<open>The router's answer: a redirect becomes 502; the swagger document gets the passthrough's base path.\<close>

fun replace_first :: "string \<Rightarrow> string \<Rightarrow> string \<Rightarrow> string" where
  "replace_first old new [] = (if old = [] then new else [])"
| "replace_first old new (c # cs) =
     (if has_prefix (c # cs) old then new @ drop (length old) (c # cs) else c # replace_first old new cs)"

definition quote_text :: "string \<Rightarrow> string" where "quote_text s = CHR 0x22 # s @ [CHR 0x22]"

definition ModifyResponse :: "string \<Rightarrow> int \<Rightarrow> string \<Rightarrow> (int \<times> string) option" where
  "ModifyResponse path status body =
     (if 300 \<le> status \<and> status < 400 then None
      else if \<not> (let s = ''/swagger/doc.json'' in length s \<le> length path \<and> drop (length path - length s) path = s) \<or> status \<noteq> 200
      then Some (status, body)
      else let new = quote_text ''basePath'' @ '': '' @ quote_text ''/node'' in
        Some (status, replace_first (quote_text ''basePath'' @ '':'' @ quote_text ''/'') new
          (replace_first (quote_text ''basePath'' @ '': '' @ quote_text ''/'') new body)))"

subsection \<open>The console's host\<close>

definition normHost :: "string \<Rightarrow> string" where "normHost h = to_lower (trim_suffix h ''.'')"

definition defaultPort :: "string \<Rightarrow> string" where
  "defaultPort scheme = (let s = to_lower scheme in if s = ''https'' then ''443'' else if s = ''http'' then ''80'' else [])"

fun index_of :: "char \<Rightarrow> string \<Rightarrow> nat option" where
  "index_of c [] = None"
| "index_of c (d # ds) = (if d = c then Some 0 else map_option Suc (index_of c ds))"

definition last_index :: "char \<Rightarrow> string \<Rightarrow> nat option" where
  "last_index c s = map_option (\<lambda>i. length s - 1 - i) (index_of c (rev s))"

text \<open>\<open>net.SplitHostPort\<close>.\<close>

definition SplitHostPort :: "string \<Rightarrow> (string \<times> string) option" where
  "SplitHostPort s =
     (case last_index (CHR '':'') s of
        None \<Rightarrow> None
      | Some i \<Rightarrow>
          if has_prefix s ''[''
          then (case index_of (CHR '']'') s of
                  None \<Rightarrow> None
                | Some e \<Rightarrow>
                    if e + 1 \<noteq> i then None
                    else if CHR ''['' \<in> set (drop 1 s) \<or> CHR '']'' \<in> set (drop (e + 1) s) then None
                    else Some (drop 1 (take e s), drop (i + 1) s))
          else if CHR '':'' \<in> set (take i s) then None
          else if CHR ''['' \<in> set s \<or> CHR '']'' \<in> set s then None
          else Some (take i s, drop (i + 1) s))"

text \<open>The host and the port, and whether they were well formed.\<close>

definition splitRequestHost :: "string \<Rightarrow> (string \<times> string) option" where
  "splitRequestHost h0 =
     (let h = trim h0 in
      if h = [] then None
      else case SplitHostPort h of
        Some (hh, pp) \<Rightarrow> if pp = [] \<or> hh = [] then None else Some (normHost hh, pp)
      | None \<Rightarrow>
          if has_prefix h ''['' \<and> last h = CHR '']'' then
            (let g = drop 1 (butlast h) in if g = [] then None else Some (normHost g, []))
          else if CHR '':'' \<in> set h then None
          else Some (normHost h, []))"

definition consoleHostAllowed :: "(string \<Rightarrow> (string \<times> string \<times> string) option) \<Rightarrow> string \<Rightarrow> string \<Rightarrow> bool" where
  "consoleHostAllowed parse webPublicURL reqHost =
     (let raw = trim webPublicURL in
      if raw = [] then True
      else case parse (rev (dropWhile (\<lambda>c. c = slash) (rev raw))) of
        None \<Rightarrow> False
      | Some (scheme, hostname, port) \<Rightarrow>
          if hostname = [] then False
          else let def = defaultPort scheme; wantPort = (if port = def then [] else port) in
            (case splitRequestHost reqHost of
               None \<Rightarrow> False
             | Some (gotHost, gotPort) \<Rightarrow>
                 gotHost = normHost hostname \<and>
                 (if wantPort = [] then gotPort = [] \<or> def \<noteq> [] \<and> gotPort = def else gotPort = wantPort)))"

definition console_path :: "string \<Rightarrow> bool" where
  "console_path p \<longleftrightarrow> p = ''/admin'' \<or> has_prefix p ''/admin/'' \<or> p = ''/gui'' \<or> has_prefix p ''/gui/'' \<or> has_prefix p ''/node/''"

definition isConsolePath :: "http_request \<Rightarrow> bool" where
  "isConsolePath r \<longleftrightarrow> console_path (hq_path r) \<or> console_path (rawRequestPath r)"

text \<open>Where a request goes: refused as not found, to the guarded passthrough, or to the routes.\<close>

datatype route = NotFound | ToNode | ToMux bool   \<comment> \<open>with \<open>no-store\<close> headers\<close>

definition dispatch :: "(string \<Rightarrow> (string \<times> string \<times> string) option) \<Rightarrow> string \<Rightarrow> http_request \<Rightarrow> route" where
  "dispatch parse webPublicURL r =
     (if isConsolePath r \<and> \<not> consoleHostAllowed parse webPublicURL (hq_host r) then NotFound
      else if has_prefix (rawRequestPath r) ''/node/'' then ToNode
      else ToMux (hq_path r = ''/admin'' \<or> has_prefix (hq_path r) ''/admin/'' \<or> has_prefix (hq_path r) ''/node/''))"

subsection \<open>What is forwarded\<close>

lemma unescape_fix:
  "unescape s = Some p \<Longrightarrow> unescape p = Some p \<and> list_all (\<lambda>c. c \<noteq> CHR ''%'' \<and> c \<noteq> backslash \<and> \<not> out_of_range c) p"
proof (induction s arbitrary: p rule: unescape.induct)
  case (2 c cs)
  show ?case
  proof (cases "c = CHR ''%''")
    case True
    with "2.prems" obtain h l r a b where cs: "cs = h # l # r" "hex_val h = Some a" "hex_val l = Some b"
      by (auto split: list.splits option.splits)
    let ?d = "char_of (16 * a + b :: nat)"
    from "2.prems" True cs obtain q where d: "?d \<noteq> slash" "?d \<noteq> backslash" "?d \<noteq> CHR ''%''" "\<not> out_of_range ?d"
      and q: "unescape r = Some q" "p = ?d # q" by (auto simp: Let_def split: if_splits)
    from "2.prems" True cs have "?d \<noteq> CHR ''.''" by (auto simp: Let_def)
    with d have "\<not> (?d = slash \<or> ?d = backslash \<or> ?d = CHR ''.'' \<or> ?d = CHR ''%'' \<or> out_of_range ?d)" by simp
    from "2.IH"(1) [OF True cs(1) refl refl cs(2) cs(3) refl this q(1)] d q show ?thesis by simp
  next
    case False
    with "2.prems" obtain q where q: "c \<noteq> backslash" "\<not> out_of_range c" "unescape cs = Some q" "p = c # q"
      by (auto split: if_splits)
    with "2.IH"(2) False show ?thesis by simp
  qed
qed simp

lemma split_slash_ne: "split_slash s \<noteq> []"
  by (induction s) (auto split: list.split)

lemma split_slash_end: "split_slash (s @ [slash]) = split_slash s @ [[]]"
  using split_slash_ne by (induction s) (auto split: list.split)

lemma containsE: "contains s sub \<Longrightarrow> \<exists>u v. s = u @ sub @ v"
proof (induction s)
  case (Cons c cs)
  show ?case
  proof (cases "has_prefix (c # cs) sub")
    case True then show ?thesis by (metis append_Nil has_prefixE)
  next
    case False
    with Cons obtain u v where "cs = u @ sub @ v" by auto
    then have "c # cs = (c # u) @ sub @ v" by simp
    then show ?thesis by blast
  qed
qed simp

lemma contains_take: "contains (take n s) sub \<Longrightarrow> contains s sub"
  by (metis append.assoc append_take_drop_id containsE contains_append)

lemma normalized_path:
  "case normalizeNodePath raw of
     None \<Rightarrow> True
   | Some p \<Rightarrow> normalizeNodePath p = Some p \<and> unescape p = Some p \<and> path_clean p = p \<and> has_prefix p [slash] \<and>
       (p = [slash] \<or> list_all good_seg (split_slash (tl p))) \<and>
       list_all (\<lambda>c. c \<noteq> CHR ''%'' \<and> c \<noteq> backslash \<and> \<not> out_of_range c) p"
proof (cases "normalizeNodePath raw")
  case (Some p)
  from Some obtain p0 where raw: "has_prefix raw [slash]" and u: "unescape raw = Some p0" and nc: "\<not> contains p0 [slash, slash]"
    and p: "p = (if length p0 > 1 then trim_suffix p0 [slash] else p0)"
    and ok: "p = [slash] \<or> list_all good_seg (split_slash (drop 1 p)) \<and> path_clean p = p"
    by (auto simp: normalizeNodePath_def Let_def split: option.splits if_splits)
  have chars: "list_all (\<lambda>c. c \<noteq> CHR ''%'' \<and> c \<noteq> backslash \<and> \<not> out_of_range c) p0" using unescape_fix [OF u] by simp
  obtain r where "raw = slash # r" using raw by (cases raw) (auto simp: has_prefix_def)
  with u obtain q0 where p0: "p0 = slash # q0" by (auto simp: slash_def split: if_splits)
  have "\<exists>n. p = take n p0 \<and> 0 < n"
  proof (cases "length p0 > 1 \<and> drop (length p0 - 1) p0 = [slash]")
    case True
    then have "p = take (length p0 - 1) p0" by (simp add: p trim_suffix_def)
    moreover have "0 < length p0 - 1" using True by simp
    ultimately show ?thesis by blast
  next
    case False
    then have "p = take (length p0) p0" by (simp add: p trim_suffix_def)
    moreover have "0 < length p0" using p0 by simp
    ultimately show ?thesis by blast
  qed
  then obtain n where n: "p = take n p0" "0 < n" by blast
  have pre: "has_prefix p [slash]" using n p0 by (cases n) (auto simp: has_prefix_def)
  have charsp: "list_all (\<lambda>c. c \<noteq> CHR ''%'' \<and> c \<noteq> backslash \<and> \<not> out_of_range c) p" using chars n(1) by (auto simp: list_all_iff dest: in_set_takeD)
  have fix_p: "unescape p = Some p" using charsp by (induction p) auto
  have "\<not> contains p [slash, slash]" using nc contains_take n(1) by blast
  moreover have "trim_suffix p [slash] = p" if "p \<noteq> [slash]"
  proof (rule ccontr)
    assume "trim_suffix p [slash] \<noteq> p"
    then obtain z where z: "p = z @ [slash]" by (auto simp: trim_suffix_def split: if_splits) (metis append_take_drop_id)
    with that pre obtain z' where "z = slash # z'" by (cases z) (auto simp: has_prefix_def)
    with z have "[] \<in> set (split_slash (drop 1 p))" by (simp add: split_slash_end)
    with ok that show False by (auto simp: list_all_iff good_seg_def)
  qed
  moreover have "path_clean [slash] = [slash]" by (simp add: path_clean_def)
  ultimately show ?thesis using ok pre charsp fix_p Some
    by (cases "p = [slash]") (auto simp: normalizeNodePath_def Let_def drop_Suc)
qed simp

text \<open>
  The path that is checked is the path that is used. A path that passes the normalisation is rooted and
  clean, has no empty and no dot segment, no escape, backslash or byte that is not printable ASCII, and
  normalising (or decoding) it once more changes nothing, so the router sees what the rules were applied to.
\<close>

theorem node_path_fixed:
  "case normalizeNodePath raw of
     None \<Rightarrow> True
   | Some p \<Rightarrow> normalizeNodePath p = Some p \<and> unescape p = Some p \<and> path_clean p = p \<and> has_prefix p [slash] \<and>
       (p = [slash] \<or> list_all good_seg (split_slash (tl p))) \<and>
       list_all (\<lambda>c. c \<noteq> CHR ''%'' \<and> c \<noteq> backslash \<and> \<not> out_of_range c) p"
  by (rule normalized_path)

text \<open>What a deny rule covers: the paths whose first segments, in lower case, fit its pattern (all of them, for an exact rule).\<close>

definition denies :: "string \<Rightarrow> string \<Rightarrow> deny_rule \<Rightarrow> bool" where
  "denies method p r \<longleftrightarrow>
     (dr_readsOK r \<longrightarrow> method \<noteq> ''GET'' \<and> method \<noteq> ''HEAD'') \<and>
     (\<exists>pre rest. split_slash (to_lower (tl p)) = pre @ rest \<and> list_all2 (\<lambda>w s. w = ''*'' \<or> s = w) (dr_pattern r) pre \<and>
        (dr_exact r \<longrightarrow> rest = []))"

lemma match_segs_pre: "list_all2 (\<lambda>w s. w = ''*'' \<or> s = w) ws pre \<Longrightarrow> match_segs ws (pre @ rest)"
  by (induction ws pre rule: list_all2_induct) auto

lemma denies_blocks:
  assumes "denies method p r"
  shows "rule_blocks method (split_slash (to_lower (tl p))) r"
proof -
  from assms obtain pre rest where s: "split_slash (to_lower (tl p)) = pre @ rest"
    and m: "list_all2 (\<lambda>w s. w = ''*'' \<or> s = w) (dr_pattern r) pre" and e: "dr_exact r \<longrightarrow> rest = []"
    by (auto simp: denies_def)
  from list_all2_lengthD [OF m] e match_segs_pre [OF m, of rest] assms show ?thesis
    by (auto simp: rule_blocks_def s denies_def)
qed

text \<open>
  C30: only what was checked reaches the router. A request that is passed through has one of four methods,
  and a path that is normalised and that no deny rule covers, in whatever case it is written; it carries the
  router's own credential and host, and none of the client's cookies, credentials, origin or method
  override headers.
\<close>

theorem node_forward_checked:
  "case nodeProxy t r of
     NodeRefused line \<Rightarrow> True
   | NodeForwarded q \<Rightarrow>
       \<exists>p. hq_path q = trim_suffix (tg_path t) [slash] @ p \<and> normalizeNodePath p = Some p \<and>
         hq_method q = hq_method r \<and> hq_method r \<in> set [''GET'', ''HEAD'', ''POST'', ''DELETE''] \<and>
         \<not> list_ex (denies (hq_method r) p) nodeDenyRules \<and>
         hq_host q = tg_host t \<and> mget (hq_header q) ''Authorization'' = Some [tg_auth t] \<and>
         \<not> list_ex (\<lambda>(k, v). list_ex (equal_fold k) (methodOverrideHeaders @ contextHeaders) \<and> k \<noteq> ''Authorization'') (hq_header q)"
proof (cases "nodeProxy t r")
  case (NodeForwarded q)
  let ?raw = "trim_prefix (rawRequestPath r) ''/node''"
  from NodeForwarded obtain p where p: "normalizeNodePath ?raw = Some p" and m: "nodeMethodForwarded (hq_method r)"
    and b: "\<not> nodePathBlocked p (hq_method r)" and q: "q = rewrite t p r"
    by (auto simp: nodeProxy_def Let_def split: option.splits if_splits)
  from normalized_path [of ?raw] p have fix_p: "normalizeNodePath p = Some p" and pre: "has_prefix p [slash]" by simp_all
  from pre have "trim_prefix p [slash] = tl p" by (simp add: trim_prefix_def drop_Suc)
  with b denies_blocks have d: "\<not> list_ex (denies (hq_method r) p) nodeDenyRules"
    by (auto simp: nodePathBlocked_def list_ex_iff)
  have h: "\<not> list_ex (\<lambda>(k, v). list_ex (equal_fold k) (methodOverrideHeaders @ contextHeaders) \<and> k \<noteq> ''Authorization'') (hq_header q)"
    by (auto simp: q rewrite_def mput_def del_headers_def list_ex_iff)
  show ?thesis using NodeForwarded fix_p m d h by (auto simp: q rewrite_def nodeMethodForwarded_def)
qed simp

end
