(* ===== verification/Regexp.thy ===== *)
theory Regexp
  imports Prelude
begin

section \<open>Regular expressions, as Go's \<open>regexp\<close> matches them\<close>

text \<open>
  The part of Go's \<open>regexp\<close> the program uses: leftmost-first matching on bytes (the patterns and the texts
  they are for are ASCII) and \<open>ReplaceAllString\<close>. \<open>matches\<close> lists the lengths of the matches at a position
  in the order of preference; the first one is what Go takes. \<open>p\<close> is the character before the position.
\<close>

datatype regex =
    Eps
  | Chr "char \<Rightarrow> bool"
  | Seq regex regex
  | Alt regex regex
  | Rep regex            \<comment> \<open>greedy \<open>*\<close>\<close>
  | WordEdge             \<comment> \<open>\<open>\\b\<close>\<close>

definition word_char :: "char \<Rightarrow> bool" where
  "word_char c \<longleftrightarrow> (let n = (of_char c :: nat) in 48 \<le> n \<and> n \<le> 57 \<or> 65 \<le> n \<and> n \<le> 90 \<or> 97 \<le> n \<and> n \<le> 122 \<or> n = 95)"

definition is_word :: "char option \<Rightarrow> bool" where
  "is_word c = (case c of None \<Rightarrow> False | Some d \<Rightarrow> word_char d)"

definition first_char :: "string \<Rightarrow> char option" where
  "first_char s = (case s of [] \<Rightarrow> None | c # _ \<Rightarrow> Some c)"

definition before :: "char option \<Rightarrow> string \<Rightarrow> nat \<Rightarrow> char option" where
  "before p s i = (if i = 0 then p else first_char (drop (i - 1) s))"

function matches :: "regex \<Rightarrow> char option \<Rightarrow> string \<Rightarrow> nat list" where
  "matches Eps p s = [0]"
| "matches (Chr f) p s = (case s of [] \<Rightarrow> [] | c # _ \<Rightarrow> if f c then [1] else [])"
| "matches (Seq a b) p s = concat (map (\<lambda>i. map ((+) i) (matches b (before p s i) (drop i s))) (matches a p s))"
| "matches (Alt a b) p s = matches a p s @ matches b p s"
| "matches (Rep a) p s =
     concat (map (\<lambda>i. if i = 0 \<or> s = [] then [] else map ((+) i) (matches (Rep a) (before p s i) (drop i s))) (matches a p s)) @ [0]"
| "matches WordEdge p s = (if is_word p = is_word (first_char s) then [] else [0])"
  by pat_completeness auto
termination
  by (relation "measures [\<lambda>(r, p, s). size r + length s, \<lambda>(r, p, s). size r]") auto

definition find_at :: "regex \<Rightarrow> char option \<Rightarrow> string \<Rightarrow> nat option" where
  "find_at r p s = (case matches r p s of [] \<Rightarrow> None | n # _ \<Rightarrow> Some n)"

text \<open>An empty match (no pattern of the program has one) is not replaced.\<close>

function replace_from :: "regex \<Rightarrow> (string \<Rightarrow> string) \<Rightarrow> char option \<Rightarrow> string \<Rightarrow> string" where
  "replace_from r f p [] = []"
| "replace_from r f p (c # cs) =
     (case find_at r p (c # cs) of
        Some n \<Rightarrow> if n = 0 then c # replace_from r f (Some c) cs
                  else f (take n (c # cs)) @ replace_from r f (before p (c # cs) n) (drop n (c # cs))
      | None \<Rightarrow> c # replace_from r f (Some c) cs)"
  by pat_completeness auto
termination
  by (relation "measure (\<lambda>(r, f, p, s). length s)") auto

definition replaceAll :: "regex \<Rightarrow> (string \<Rightarrow> string) \<Rightarrow> string \<Rightarrow> string" where
  "replaceAll r f s = replace_from r f None s"

subsection \<open>Building patterns\<close>

primrec lit :: "string \<Rightarrow> regex" where
  "lit [] = Eps"
| "lit (c # cs) = Seq (Chr (\<lambda>d. d = c)) (lit cs)"

text \<open>With the flag \<open>(?i)\<close>.\<close>

primrec lit_fold :: "string \<Rightarrow> regex" where
  "lit_fold [] = Eps"
| "lit_fold (c # cs) = Seq (Chr (\<lambda>d. lower_char d = lower_char c)) (lit_fold cs)"

definition opt :: "regex \<Rightarrow> regex" where "opt r = Alt r Eps"

definition plus :: "regex \<Rightarrow> regex" where "plus r = Seq r (Rep r)"

primrec times :: "nat \<Rightarrow> regex \<Rightarrow> regex" where
  "times 0 r = Eps"
| "times (Suc n) r = Seq r (times n r)"

primrec up_to :: "nat \<Rightarrow> regex \<Rightarrow> regex" where
  "up_to 0 r = Eps"
| "up_to (Suc n) r = opt (Seq r (up_to n r))"

text \<open>\<open>r{m,n}\<close> and \<open>r{m,}\<close>.\<close>

definition between :: "nat \<Rightarrow> nat \<Rightarrow> regex \<Rightarrow> regex" where
  "between m n r = Seq (times m r) (up_to (n - m) r)"

definition at_least :: "nat \<Rightarrow> regex \<Rightarrow> regex" where
  "at_least m r = Seq (times m r) (Rep r)"

definition code_in :: "nat \<Rightarrow> nat \<Rightarrow> char \<Rightarrow> bool" where
  "code_in a b c \<longleftrightarrow> a \<le> (of_char c :: nat) \<and> (of_char c :: nat) \<le> b"

definition digit :: "char \<Rightarrow> bool" where "digit c = code_in 48 57 c"

definition hex :: "char \<Rightarrow> bool" where
  "hex c \<longleftrightarrow> digit c \<or> code_in 97 102 c \<or> code_in 65 70 c"

definition letter :: "char \<Rightarrow> bool" where
  "letter c \<longleftrightarrow> code_in 97 122 c \<or> code_in 65 90 c"

text \<open>\<open>\\s\<close>: tab, newline, form feed, return, blank.\<close>

definition re_space :: "char \<Rightarrow> bool" where
  "re_space c \<longleftrightarrow> c \<in> set [CHR 0x09, CHR 0x0A, CHR 0x0C, CHR 0x0D, CHR '' '']"

lemma replace_unmatched:
  assumes "\<And>p t. find_at r p t = None"
  shows "replace_from r f p s = s"
  using assms by (induction s arbitrary: p) simp_all

end
