(* ===== verification/Router_Client.thy ===== *)
theory Router_Client
  imports Regexp Pool_State Decimal State_Rules
begin

section \<open>The router client's calls (\<open>internal/router/client.go\<close>, \<open>redact.go\<close>)\<close>

text \<open>
  The admin calls of the router client: how a call is sent and answered, the guard against direct payment,
  the body of an open, the answers that are read (a rated bid list, the id of an existing session), the
  credential's state, and the redaction of texts for the logs. What the router answers is an argument; a
  call that is sent is logged with its body.
\<close>

subsection \<open>Redaction\<close>

definition redactURL :: regex where
  "redactURL = Seq (Alt (Seq (lit ''http'') (opt (lit ''s''))) (Seq (lit ''ws'') (opt (lit ''s''))))
     (Seq (lit ''://'') (plus (Chr (\<lambda>c. \<not> re_space c))))"

definition redactID32 :: regex where "redactID32 = Seq (lit ''0x'') (times 64 (Chr hex))"

definition Redact :: "string \<Rightarrow> string" where
  "Redact s = replaceAll redactID32 (take 10) (replaceAll redactURL (\<lambda>_. ''<url>'') s)"

subsection \<open>Direct payment\<close>

definition payment_key :: "string \<Rightarrow> bool" where
  "payment_key k \<longleftrightarrow> equal_fold k ''directPayment'' \<or> equal_fold k ''isDirectPaymentFromUser'' \<or> equal_fold k ''direct_payment''"

fun payment_value :: "json \<Rightarrow> bool" where
  "payment_value (JBool b) = b"
| "payment_value (JStr s) = equal_fold (trim s) ''true''"
| "payment_value JNull = False"
| "payment_value _ = True"

text \<open>Of a repeated member Go's \<open>map[string]any\<close> keeps the last.\<close>

definition last_members :: "(string \<times> 'a) list \<Rightarrow> (string \<times> 'a) list" where
  "last_members kvs = mitems (rev kvs)"

function walk_payment :: "json \<Rightarrow> bool" where
  "walk_payment (JObj kvs) = list_ex (\<lambda>(k, v). payment_key k \<and> payment_value v \<or> walk_payment v) (last_members kvs)"
| "walk_payment (JArr vs) = list_ex walk_payment vs"
| "walk_payment JNull = False"
| "walk_payment (JBool b) = False"
| "walk_payment (JNum n) = False"
| "walk_payment (JStr s) = False"
  by pat_completeness auto

lemma size_last_members: "(k, v) \<in> set (last_members kvs) \<Longrightarrow> size v < Suc (size_list (size_prod (\<lambda>_. 0) size) kvs)"
proof -
  assume "(k, v) \<in> set (last_members kvs)"
  then have "(k, v) \<in> set kvs" using mget_SomeD [of "rev kvs" k v] by (simp add: last_members_def mem_mitems)
  from size_list_estimation' [OF this, of "Suc (size v)" "size_prod (\<lambda>_. 0) size"] show ?thesis by simp
qed

termination walk_payment
  by (relation "measure size") (auto dest: size_last_members size_list_estimation' [OF _ order_refl, of _ _ size] simp: less_Suc_eq_le)

definition requestsDirectPayment :: "string \<Rightarrow> bool" where
  "requestsDirectPayment payload =
     (if payload = [] \<or> \<not> contains (filter (\<lambda>c. c \<noteq> CHR ''_'') (to_lower payload)) ''directpayment'' then False
      else case json_parse payload of None \<Rightarrow> True | Some v \<Rightarrow> walk_payment v)"

subsection \<open>One call\<close>

text \<open>
  The client's state: the credential's failures and, as bookkeeping of the model, the requests that were
  sent. \<open>en_http\<close> is the router: the error of the call, or its status and body.
\<close>

record request =
  rq_method :: string
  rq_path :: string
  rq_payload :: string

record client =
  cl_authFailSince :: time
  cl_authFailMsg :: string
  cl_authOKAt :: time
  cl_sent :: "request list"

type_synonym answer = "rerr + int \<times> string"
type_synonym router = "request \<Rightarrow> answer"
type_synonym 'a client_act = "(client, 'a) state"

definition NewClient :: client where
  "NewClient = \<lparr>cl_authFailSince = zero_time, cl_authFailMsg = [], cl_authOKAt = zero_time, cl_sent = []\<rparr>"

definition noteAuth :: "time \<Rightarrow> int \<Rightarrow> string \<Rightarrow> unit client_act" where
  "noteAuth now status msg = State (\<lambda>c. ((),
     if status = 401 then c\<lparr>cl_authFailSince := (if is_zero (cl_authFailSince c) then now else cl_authFailSince c), cl_authFailMsg := msg\<rparr>
     else if 200 \<le> status \<and> status < 300 then c\<lparr>cl_authFailSince := zero_time, cl_authFailMsg := [], cl_authOKAt := now\<rparr>
     else c))"

definition AuthFailure :: "client \<Rightarrow> time \<times> string \<times> bool" where
  "AuthFailure c = (cl_authFailSince c, cl_authFailMsg c, \<not> is_zero (cl_authFailSince c))"

definition log_request :: "request \<Rightarrow> unit client_act" where
  "log_request q = State (\<lambda>c. ((), c\<lparr>cl_sent := cl_sent c @ [q]\<rparr>))"

definition maxAdminBody :: nat where "maxAdminBody = 2 ^ 20"

definition ErrDirectPayment :: rerr where
  "ErrDirectPayment = OtherErr ''refusing to send a direct-payment request to the router''"

definition roundTrip :: "router \<Rightarrow> request \<Rightarrow> answer client_act" where
  "roundTrip R q =
     (if requestsDirectPayment (rq_payload q) then ret (Inl ErrDirectPayment)
      else do {
        _ \<leftarrow> log_request q;
        ret (case R q of Inl e \<Rightarrow> Inl e | Inr (status, raw) \<Rightarrow> Inr (status, take maxAdminBody raw)) })"

text \<open>The answer is decoded by \<open>dec\<close>; the error of an unreadable 2xx answer is its own.\<close>

definition doJSONCtx :: "router \<Rightarrow> time \<Rightarrow> request \<Rightarrow> (json \<Rightarrow> 'a option) \<Rightarrow> (rerr + 'a) client_act" where
  "doJSONCtx R now q dec = do {
     a \<leftarrow> roundTrip R q;
     (case a of
        Inl e \<Rightarrow> ret (Inl e)
      | Inr (status, raw) \<Rightarrow> do {
          _ \<leftarrow> (if rq_path q \<noteq> ''/healthcheck'' then noteAuth now status (trim raw) else ret ());
          ret (if status < 200 \<or> status \<ge> 300 then Inl (StatusErr status raw)
               else case Option.bind (json_parse raw) dec of
                      None \<Rightarrow> Inl (OtherErr ''parse response'') | Some v \<Rightarrow> Inr v) }) }"

subsection \<open>Kinds of errors\<close>

definition error_text :: "rerr \<Rightarrow> string" where
  "error_text e = (case e of OtherErr s \<Rightarrow> s | _ \<Rightarrow> [])"

definition ErrorKind :: "rerr option \<Rightarrow> string" where
  "ErrorKind err =
     (case err of
        None \<Rightarrow> []
      | Some (StatusErr code body) \<Rightarrow>
          if code = 401 then ''router_auth''
          else if code = 502 \<or> code = 503 \<or> code = 504 then ''router_not_ready'' else ''router_error''
      | Some UrlErr \<Rightarrow> ''router_not_ready''
      | Some (CtxEnded e) \<Rightarrow> ''router_not_ready''     \<comment> \<open>the HTTP client wraps it in a \<open>*url.Error\<close>\<close>
      | Some e \<Rightarrow>
          if list_ex (contains (to_lower (error_text e)))
               [''connection refused'', ''no such host'', ''i/o timeout'', ''connection reset'', ''eof'']
          then ''router_not_ready'' else ''router_error'')"

definition ErrorHint :: "string \<Rightarrow> string" where
  "ErrorHint kind =
     (if kind = ''router_auth'' then ''router rejected Uplink's credential (401); check that ROUTER_AUTH or COOKIE_CONTENT matches the router's COOKIE_CONTENT''
      else if kind = ''router_not_ready'' then ''router not reachable yet (starting or restarting)''
      else if kind = ''router_error'' then ''router request failed'' else [])"

subsection \<open>Paths\<close>

definition hex_upper :: "nat \<Rightarrow> char" where
  "hex_upper n = (if n < 10 then char_of (48 + n) else char_of (55 + n))"

text \<open>\<open>url.PathEscape\<close>: letters, digits and \<open>-_.~$&+=:@\<close> stay.\<close>

definition pathEscape :: "string \<Rightarrow> string" where
  "pathEscape s = concat (map (\<lambda>c. if letter c \<or> digit c \<or> c \<in> set ''-_.~$&+=:@'' then [c]
     else [CHR ''%'', hex_upper (of_char c div 16), hex_upper (of_char c mod 16)]) s)"

subsection \<open>Opening and closing\<close>

definition json_bool :: "bool \<Rightarrow> string" where "json_bool b = (if b then ''true'' else ''false'')"

definition json_member :: "string \<Rightarrow> string \<Rightarrow> string" where
  "json_member k v = CHR 0x22 # k @ CHR 0x22 # CHR '':'' # v"

definition open_body :: "int \<Rightarrow> bool \<Rightarrow> string" where
  "open_body durationSec rejectExisting = ''{'' @ json_member ''sessionDuration'' (show_int durationSec) @ '','' @
     json_member ''failover'' (json_bool False) @ '','' @ json_member ''directPayment'' (json_bool False) @ '','' @
     json_member ''rejectExisting'' (json_bool rejectExisting) @ ''}''"

text \<open>A string member of an answer; another type there is an error.\<close>

definition read_str :: "string \<Rightarrow> json \<Rightarrow> string option" where
  "read_str name j = (case as_object j of
     None \<Rightarrow> None | Some kvs \<Rightarrow> (case str_field name kvs of (ok, s) \<Rightarrow> if ok then Some s else None))"

definition existingSessionFrom :: "rerr \<Rightarrow> string option" where
  "existingSessionFrom e =
     (case e of
        StatusErr code body \<Rightarrow>
          if code \<noteq> 409 then None
          else (case Option.bind (json_parse (trim body)) (read_str ''existingSessionID'') of
                  None \<Rightarrow> None
                | Some s \<Rightarrow> let i = trim s in if length i \<noteq> 66 \<or> \<not> has_prefix i ''0x'' then None else Some i)
      | _ \<Rightarrow> None)"

definition OpenSessionByBidCtx :: "router \<Rightarrow> time \<Rightarrow> string \<Rightarrow> int \<Rightarrow> bool \<Rightarrow> (rerr + string) client_act" where
  "OpenSessionByBidCtx R now bid0 durationSec rejectExisting =
     (let bid = trim bid0 in
      if bid = [] then ret (Inl (OtherErr ''empty bid id''))
      else do {
        a \<leftarrow> doJSONCtx R now \<lparr>rq_method = ''POST'', rq_path = ''/blockchain/bids/'' @ pathEscape bid @ ''/session'',
               rq_payload = open_body durationSec rejectExisting\<rparr> (read_str ''sessionID'');
        ret (case a of
               Inl e \<Rightarrow> (case (if rejectExisting then existingSessionFrom e else None) of
                   Some i \<Rightarrow> Inl (ExistingSession i) | None \<Rightarrow> Inl e)
             | Inr i \<Rightarrow> if i = [] then Inl (OtherErr (''open session for bid '' @ bid @ '': empty sessionID in response'')) else Inr i) })"

definition CloseSessionCtx :: "router \<Rightarrow> time \<Rightarrow> string \<Rightarrow> rerr option client_act" where
  "CloseSessionCtx R now i0 =
     (let i = trim i0 in
      if i = [] then ret (Some (OtherErr ''empty session id''))
      else do {
        a \<leftarrow> doJSONCtx R now \<lparr>rq_method = ''POST'', rq_path = ''/blockchain/sessions/'' @ pathEscape i @ ''/close'',
               rq_payload = ''{}''\<rparr> (\<lambda>_. Some ());
        ret (case a of Inl e \<Rightarrow> Some e | Inr _ \<Rightarrow> None) })"

subsection \<open>Rated bids\<close>

definition hexValue :: "string \<Rightarrow> nat \<Rightarrow> string option" where
  "hexValue s0 n =
     (let s = to_lower (trim s0) in
      if length s \<noteq> n + 2 \<or> \<not> has_prefix s ''0x'' then None
      else if \<not> list_all (\<lambda>c. digit c \<or> code_in 97 102 c) (drop 2 s) then None
      else if list_all (\<lambda>c. c = CHR ''0'') (drop 2 s) then None else Some s)"

text \<open>A number of wei: a decimal, as a number or in a string; missing and \<open>null\<close> are 0.\<close>

definition parseBigIntJSON :: "json option \<Rightarrow> int option" where
  "parseBigIntJSON raw = (case raw of
     None \<Rightarrow> Some 0 | Some JNull \<Rightarrow> Some 0 | Some (JNum s) \<Rightarrow> parse_decimal s | Some (JStr s) \<Rightarrow> parse_decimal s
   | Some _ \<Rightarrow> None)"

definition ratedPrice :: "json option \<Rightarrow> int option" where
  "ratedPrice raw = (case raw of None \<Rightarrow> None | Some JNull \<Rightarrow> None | Some v \<Rightarrow> parseBigIntJSON (Some v))"

text \<open>
  One row: the fields, with the score (a decimal number, compared as \<open>scale\<close> says), or a type error. Of
  repeated members of the nested bid the last one counts.
\<close>

type_synonym raw_bid = "string \<times> string \<times> string \<times> json option \<times> string option"

definition raw_rated :: "json \<Rightarrow> raw_bid option" where
  "raw_rated row = (case as_object row of
     None \<Rightarrow> None
   | Some kvs \<Rightarrow>
       (case (str_field ''ID'' kvs, raw_field ''Bid'' kvs, raw_field ''Score'' kvs) of
          ((True, i), bid, score) \<Rightarrow>
            (case (case bid of None \<Rightarrow> Some [] | Some b \<Rightarrow> as_object b) of
               None \<Rightarrow> None
             | Some bkvs \<Rightarrow>
                 (case (str_field ''Id'' bkvs, str_field ''Provider'' bkvs) of
                    ((True, bi), (True, p)) \<Rightarrow>
                      (case score of
                         None \<Rightarrow> Some (i, bi, p, raw_field ''PricePerSecond'' bkvs, None)
                       | Some JNull \<Rightarrow> Some (i, bi, p, raw_field ''PricePerSecond'' bkvs, None)
                       | Some (JNum t) \<Rightarrow> Some (i, bi, p, raw_field ''PricePerSecond'' bkvs, Some t)
                       | _ \<Rightarrow> None)
                  | _ \<Rightarrow> None))
        | _ \<Rightarrow> None))"

definition raw_rows :: "json \<Rightarrow> raw_bid list option" where
  "raw_rows j = (case as_object j of
     None \<Rightarrow> None
   | Some kvs \<Rightarrow> (case raw_field ''bids'' kvs of
       None \<Rightarrow> Some [] | Some JNull \<Rightarrow> Some []
     | Some (JArr rows) \<Rightarrow> those (map raw_rated rows) | _ \<Rightarrow> None))"

definition usable_row :: "(string option \<Rightarrow> 'f) \<Rightarrow> raw_bid \<Rightarrow> ('f \<times> rated_bid) option" where
  "usable_row scale r = (case r of (i, bi, p, price, score) \<Rightarrow>
     (case ((case hexValue bi 64 of Some x \<Rightarrow> Some x | None \<Rightarrow> hexValue i 64), hexValue p 40) of
        (Some x, Some prov) \<Rightarrow> Some (scale score, \<lparr>rb_ID = x, rb_Provider = prov, rb_PricePerSecond = ratedPrice price\<rparr>)
      | _ \<Rightarrow> None))"

text \<open>\<open>sort.SliceStable\<close>, best score first; \<open>scale\<close> is the order of the scores as \<open>float64\<close>.\<close>

definition RatedBidsCtx ::
  "(string option \<Rightarrow> 'f :: linorder) \<Rightarrow> router \<Rightarrow> time \<Rightarrow> string \<Rightarrow> (rated_bid list \<times> rerr option) client_act" where
  "RatedBidsCtx scale R now modelID = do {
     a \<leftarrow> doJSONCtx R now \<lparr>rq_method = ''GET'', rq_path = ''/blockchain/models/'' @ pathEscape modelID @ ''/bids/rated'', rq_payload = []\<rparr> raw_rows;
     ret (case a of
            Inl e \<Rightarrow> ([], Some e)
          | Inr rows \<Rightarrow>
              let good = List.map_filter (usable_row scale) rows in
              (map snd (rev (sort_key fst (rev good))), if length good < length rows then Some RatedIncomplete else None)) }"

subsection \<open>What the client never does\<close>

text \<open>The digits of a number survive the lexer, and a printed number is a JSON number.\<close>

lemma append_two: "(@) [x, y] = (\<lambda>ts. x # y # ts)"
  by (simp add: fun_eq_iff)

lemma map_option_nil [simp]: "map_option ((@) []) x = x"
  by (cases x) simp_all

lemma lex_top_digit:
  assumes "is_digit c"
  shows "lex_top c = Some ([], LNum [c])"
proof -
  have "list_all (\<lambda>n. lex_top (digit_char n) = Some ([], LNum [digit_char n])) [0..<10]" by code_simp
  moreover have "digit_val c \<in> set [0..<10]" using assms by (auto simp: is_digit_def digit_val_def)
  ultimately have "lex_top (digit_char (digit_val c)) = Some ([], LNum [digit_char (digit_val c)])" unfolding list_all_iff by blast
  moreover have "digit_char (digit_val c) = c" using assms by (simp add: digit_char_def digit_val_def is_digit_def)
  ultimately show ?thesis by simp
qed

lemma lex_digits:
  "list_all is_digit w \<Longrightarrow> lex (LNum acc) (w @ CHR '','' # rest) = map_option (\<lambda>ts. TNum (acc @ w) # TPunct (CHR '','') # ts) (lex LTop rest)"
  by (induction w arbitrary: acc)
    (simp_all add: then_top_def lex_top_def is_digit_def append_two)

lemma lex_number:
  assumes "w \<noteq> []" and "is_digit (hd w) \<or> hd w = CHR ''-''" and "list_all is_digit (tl w)"
  shows "lex LTop (w @ CHR '','' # rest) = map_option (\<lambda>ts. TNum w # TPunct (CHR '','') # ts) (lex LTop rest)"
proof -
  obtain c r where w: "w = c # r" using assms(1) by (cases w) auto
  have "lex_top (CHR ''-'') = Some ([], LNum ''-'')" by code_simp
  with assms(2) w lex_top_digit have "lex_top c = Some ([], LNum [c])" by auto
  then show ?thesis using lex_digits [of r "[c]" rest] assms(3) w by (simp add: option.map_id)
qed

lemma show_nat_lead: "0 < n \<Longrightarrow> hd (show_nat n) \<noteq> CHR ''0''"
proof (induction n rule: show_nat.induct)
  case (1 n)
  have z: "digit_char n \<noteq> CHR ''0''" if "n < 10" "0 < n"
  proof -
    have "digit_val (digit_char n) = n" using digit_char_digit [OF that(1)] by simp
    moreover have "digit_val (CHR ''0'') = 0" by (simp add: digit_val_def)
    ultimately show ?thesis using that(2) by auto
  qed
  show ?case
  proof (cases "n < 10")
    case True then show ?thesis using z 1 by (subst show_nat.simps) simp
  next
    case False
    then have "0 < n div 10" by simp
    with 1 False show_nat_digits [of "n div 10"] show ?thesis by (subst show_nat.simps) (simp add: hd_append)
  qed
qed

lemma unsigned_show: "unsigned_ok (show_nat n)"
proof (cases "n = 0")
  case True
  have "digit_char 0 = CHR ''0''" by code_simp
  with True have "show_nat n = ''0''" by (simp add: show_nat.simps)
  then show ?thesis by (simp add: unsigned_ok_def frac_ok_def)
next
  case False
  obtain c r where c: "show_nat n = c # r" using show_nat_digits [of n] by (cases "show_nat n") auto
  with show_nat_digits [of n] have "is_digit c" "list_all is_digit r" by (auto simp: all_digits_def)
  moreover have "dropWhile is_digit r = []" using \<open>list_all is_digit r\<close> by (simp add: list_all_iff dropWhile_eq_Nil_conv)
  moreover have "c \<noteq> CHR ''0''" using show_nat_lead [of n] False c by simp
  ultimately show ?thesis by (simp add: c unsigned_ok_def frac_ok_def del: dropWhile_eq_Nil_conv)
qed

lemma number_show: "number_ok (show_int d)"
proof (cases "d < 0")
  case True then show ?thesis by (simp add: show_int_def number_ok_def unsigned_show)
next
  case False
  obtain c r where c: "show_nat (nat d) = c # r" using show_nat_digits [of "nat d"] by (cases "show_nat (nat d)") auto
  with show_nat_digits [of "nat d"] digit_not_sign [of c] have "c \<noteq> CHR ''-''" by (auto simp: all_digits_def)
  with False c unsigned_show [of "nat d"] show ?thesis by (simp add: show_int_def number_ok_def)
qed

lemma show_int_shape: "show_int d \<noteq> [] \<and> (is_digit (hd (show_int d)) \<or> hd (show_int d) = CHR ''-'') \<and> list_all is_digit (tl (show_int d))"
  using show_nat_digits [of "nat d"] show_nat_digits [of "nat (- d)"]
  by (cases "show_nat (nat d)") (auto simp: show_int_def all_digits_def)

lemma open_body_parse:
  "json_parse (open_body d b) = Some (JObj [(''sessionDuration'', JNum (show_int d)), (''failover'', JBool False),
     (''directPayment'', JBool False), (''rejectExisting'', JBool b)])"
proof -
  let ?rest = "\<lambda>b. json_member ''failover'' (json_bool False) @ '','' @ json_member ''directPayment'' (json_bool False) @ '','' @
     json_member ''rejectExisting'' (json_bool b) @ ''}''"
  let ?toks = "\<lambda>b. [TStr ''failover'', TPunct (CHR '':''), TLit ''false'', TPunct (CHR '',''),
     TStr ''directPayment'', TPunct (CHR '':''), TLit ''false'', TPunct (CHR '',''),
     TStr ''rejectExisting'', TPunct (CHR '':''), TLit (json_bool b), TPunct (CHR ''}'')]"
  have "lex LTop (?rest True) = Some (?toks True)" and "lex LTop (?rest False) = Some (?toks False)" by code_simp+
  then have rest: "lex LTop (?rest b) = Some (?toks b)" by (cases b) simp_all
  have "lex LTop (json_member ''sessionDuration'' w) = map_option (\<lambda>ts. [TStr ''sessionDuration'', TPunct (CHR '':'')] @ ts) (lex LTop w)" for w
    by (simp add: json_member_def lex_top_def flush_def is_digit_def is_alpha_lower_def option.map_comp comp_def)
  then have "lex LTop (open_body d b) = map_option (\<lambda>ts. [TPunct (CHR ''{''), TStr ''sessionDuration'', TPunct (CHR '':'')] @ ts)
      (lex LTop (show_int d @ CHR '','' # ?rest b))"
    by (simp add: open_body_def json_member_def lex_top_def option.map_comp comp_def)
  then have "lex LTop (open_body d b) = Some ([TPunct (CHR ''{''), TStr ''sessionDuration'', TPunct (CHR '':''), TNum (show_int d), TPunct (CHR '','')] @
      ?toks b)"
    using show_int_shape [of d] rest by (simp add: lex_number)
  then show ?thesis by (cases b) (simp_all add: json_parse_def parse_value_def number_show json_bool_def)
qed

lemma open_body_safe: "\<not> requestsDirectPayment (open_body d b)"
proof -
  have "payment_key ''sessionDuration'' = False" "payment_key ''failover'' = False" "payment_key ''rejectExisting'' = False" by code_simp+
  then show ?thesis unfolding requestsDirectPayment_def open_body_parse
    by (simp add: last_members_def mitems_def)
qed

text \<open>What a call adds to the requests sent.\<close>

lemma noteAuth_sent [simp]: "cl_sent (snd (run_state (noteAuth now st m) c)) = cl_sent c"
  by (simp add: noteAuth_def)

lemma doJSON_sent:
  "cl_sent (snd (run_state (doJSONCtx R now q dec) c)) = (if requestsDirectPayment (rq_payload q) then cl_sent c else cl_sent c @ [q])"
  by (simp add: doJSONCtx_def roundTrip_def log_request_def State_Monad.run_state_bind case_prod_beta split: sum.split)

text \<open>
  C27: an open never asks for direct payment. Whatever the bid, length and flag, opening a session sends at
  most one request (none for an empty bid id), and its body reads, as JSON, as that length and flag with
  \<open>failover\<close> and \<open>directPayment\<close> pinned to false; the client's own guard lets it through.
\<close>

theorem open_pins_payment:
  "case run_state (OpenSessionByBidCtx R now bid d b) c of (a, c') \<Rightarrow>
     if trim bid = [] then cl_sent c' = cl_sent c
     else \<exists>q. cl_sent c' = cl_sent c @ [q] \<and> \<not> requestsDirectPayment (rq_payload q) \<and>
       json_parse (rq_payload q) = Some (JObj [(''sessionDuration'', JNum (show_int d)), (''failover'', JBool False),
         (''directPayment'', JBool False), (''rejectExisting'', JBool b)])"
proof -
  let ?q = "\<lparr>rq_method = ''POST'', rq_path = ''/blockchain/bids/'' @ pathEscape (trim bid) @ ''/session'', rq_payload = open_body d b\<rparr>"
  have "cl_sent (snd (run_state (doJSONCtx R now ?q dec) c)) = cl_sent c @ [?q]" for dec :: "json \<Rightarrow> string option"
    by (simp add: doJSON_sent open_body_safe)
  then show ?thesis using open_body_safe [of d b] open_body_parse [of d b]
    by (auto simp: OpenSessionByBidCtx_def Let_def State_Monad.run_state_bind case_prod_beta)
qed

end
