(* ===== verification/Forward.thy ===== *)
theory Forward
  imports Sse Router_Client
begin

section \<open>Forwarding an inference call (\<open>internal/router/client.go\<close>, \<open>ForwardWith\<close>)\<close>

text \<open>
  One inference call to the router: what it answers, what is written to the client and what is returned to
  the handler. The router's reply is an argument: no answer (with the state of the request's context), or a
  status, a content type and a body that is read piece by piece. A timer of Uplink that fires is the cause
  the context has ended with.
\<close>

subsection \<open>Results\<close>

record forward_result =
  fw_StatusCode :: int
  fw_PromptTokens :: int
  fw_CompletionTokens :: int
  fw_MidStreamProviderError :: bool
  fw_MidStreamStatus :: int
  fw_Cut :: cut
  fw_TimeoutKind :: string

datatype fwd_err =
    TimeoutErr string            \<comment> \<open>\<open>*router.TimeoutError\<close>: \<open>idle\<close> or \<open>total\<close>\<close>
  | RouterStatus int string      \<comment> \<open>\<open>*router.StatusError\<close>: status and body\<close>
  | TransportErr string

datatype http_reply =
    NoReply ctx_state string
  | Reply int string upstream    \<comment> \<open>status, content type, body\<close>

text \<open>What the client of Uplink gets: the status line with the content type, then the body.\<close>

datatype http_out = Header int string | Body sent

record forward_opts =
  fo_Idle :: dur
  fo_Total :: dur
  fo_Stream :: bool

definition maxErrorBody :: nat where "maxErrorBody = 64 * 2 ^ 10"
definition maxBuffered :: nat where "maxBuffered = 32 * 2 ^ 20"

definition isEventStream :: "string \<Rightarrow> bool" where
  "isEventStream contentType \<longleftrightarrow> length contentType \<ge> 17 \<and> take 17 contentType = ''text/event-stream''"

definition timeoutKind :: "ctx_state \<Rightarrow> string" where
  "timeoutKind cx = (case cx of Ended IdleCause \<Rightarrow> ''idle'' | Ended TotalCause \<Rightarrow> ''total'' | _ \<Rightarrow> [])"

text \<open>\<open>io.ReadAll(io.LimitReader(src, n))\<close>: the bytes, and whether reading failed.\<close>

definition read_all :: "nat \<Rightarrow> upstream \<Rightarrow> string \<times> bool" where
  "read_all n u = (let b = concat (us_reads u) in if length b \<ge> n then (take n b, False) else (b, us_err u \<noteq> Eof))"

text \<open>The token usage of a buffered answer: 0 unless the whole answer decodes.\<close>

definition body_usage :: "string \<Rightarrow> int \<times> int" where
  "body_usage raw =
     (case Option.bind (json_parse raw) as_object of
        None \<Rightarrow> (0, 0)
      | Some kvs \<Rightarrow>
          (case foldl (\<lambda>r v. case r of None \<Rightarrow> None
                | Some (p, c) \<Rightarrow> (case v of
                     JNull \<Rightarrow> Some (p, c)
                   | JObj us \<Rightarrow> (case (int_field ''prompt_tokens'' us p, int_field ''completion_tokens'' us c) of
                       ((True, p'), (True, c')) \<Rightarrow> Some (p', c') | _ \<Rightarrow> None)
                   | _ \<Rightarrow> None)) (Some (0, 0)) (members ''usage'' kvs) of
             None \<Rightarrow> (0, 0) | Some pc \<Rightarrow> pc))"

definition plain_result :: "int \<Rightarrow> int \<times> int \<Rightarrow> forward_result" where
  "plain_result status u = \<lparr>fw_StatusCode = status, fw_PromptTokens = fst u, fw_CompletionTokens = snd u,
     fw_MidStreamProviderError = False, fw_MidStreamStatus = 0, fw_Cut = CutNone, fw_TimeoutKind = []\<rparr>"

subsection \<open>The streaming and the buffered answer\<close>

definition stream_tail :: "upstream \<Rightarrow> relay \<Rightarrow> sent list" where
  "stream_tail u r =
     (if sr_cut (rl_res r) = CutUplinkTimeout \<and> timeoutKind (us_ctx u) \<noteq> [] \<and> \<not> sr_clientWriteErr (rl_res r)
      then (case rl_writes r of
              Some cx # _ \<Rightarrow> [Flushed] | _ \<Rightarrow> [Wrote (sseTimeoutTail (timeoutKind (us_ctx u))), Flushed])
      else [])"

definition stream_answer :: "int \<Rightarrow> string \<Rightarrow> upstream \<Rightarrow> ctx_state option list \<Rightarrow> forward_result \<times> http_out list" where
  "stream_answer status ctype u ws =
     (let r = flushCopyCtx u ws; s = rl_res r in
      (\<lparr>fw_StatusCode = status, fw_PromptTokens = sr_promptTokens s, fw_CompletionTokens = sr_completionTokens s,
         fw_MidStreamProviderError = sr_providerError s, fw_MidStreamStatus = sr_providerStatus s, fw_Cut = sr_cut s,
         fw_TimeoutKind = (if sr_cut s = CutUplinkTimeout then timeoutKind (us_ctx u) else [])\<rparr>,
       Header status ctype # map Body (rl_sent r @ stream_tail u r)))"

definition buffered_answer ::
  "int \<Rightarrow> string \<Rightarrow> upstream \<Rightarrow> ctx_state option list \<Rightarrow> (fwd_err + forward_result) \<times> http_out list" where
  "buffered_answer status ctype u ws =
     (case read_all maxBuffered u of
        (raw, failed) \<Rightarrow>
          if failed then
            (Inl (if timeoutKind (us_ctx u) \<noteq> [] then TimeoutErr (timeoutKind (us_ctx u)) else TransportErr ''read router response''), [])
          else (Inr (plain_result status (body_usage raw)),
                Header status ctype # (case ws of Some cx # _ \<Rightarrow> [] | _ \<Rightarrow> [Body (Wrote raw)])))"

subsection \<open>The call\<close>

definition ForwardWith ::
  "time \<Rightarrow> http_reply \<Rightarrow> ctx_state option list \<Rightarrow> bool \<Rightarrow> ((fwd_err + forward_result) \<times> http_out list) client_act" where
  "ForwardWith now reply ws probeOnly =
     (case reply of
        NoReply cx txt \<Rightarrow> ret (Inl (if timeoutKind cx \<noteq> [] then TimeoutErr (timeoutKind cx) else TransportErr txt), [])
      | Reply status ctype u \<Rightarrow> do {
          _ \<leftarrow> (if status = 401 then noteAuth now status ''inference rejected''
               else if 200 \<le> status \<and> status < 300 then noteAuth now status [] else ret ());
          ret (if probeOnly \<and> (status < 200 \<or> status \<ge> 300) then
                 (case read_all maxErrorBody u of
                    (raw, failed) \<Rightarrow>
                      (Inl (if failed \<and> timeoutKind (us_ctx u) \<noteq> [] then TimeoutErr (timeoutKind (us_ctx u)) else RouterStatus status raw), []))
               else if isEventStream ctype then (case stream_answer status ctype u ws of (r, w) \<Rightarrow> (Inr r, w))
               else buffered_answer status ctype u ws) })"

subsection \<open>What the client sees of a call\<close>

definition headers_sent :: "http_out list \<Rightarrow> nat" where
  "headers_sent w = length (filter (\<lambda>e. case e of Header s t \<Rightarrow> True | Body b \<Rightarrow> False) w)"

lemma headers_body [simp]: "headers_sent (Header s t # map Body bs) = 1" "headers_sent [] = 0"
  by (induction bs) (auto simp: headers_sent_def)

text \<open>Every result of the call, with what was written.\<close>

definition writes_ok :: "bool \<Rightarrow> (fwd_err + forward_result) \<times> http_out list \<Rightarrow> bool" where
  "writes_ok probeOnly a \<longleftrightarrow> (case a of (Inl e, w) \<Rightarrow> w = []
     | (Inr r, w) \<Rightarrow> headers_sent w = 1 \<and> (probeOnly, fw_StatusCode r div 100 = 2) \<noteq> (True, False))"

lemma ForwardWith_writes: "writes_ok probeOnly (fst (run_state (ForwardWith now reply ws probeOnly) c))"
proof -
  have b: "headers_sent [Header s t, Body x] = 1" "headers_sent [Header s t] = 1" for s t x by (simp_all add: headers_sent_def)
  have d: "(x :: int) div 100 = 2" if "\<not> x < 200" "\<not> 300 \<le> x" for x using that by linarith
  show ?thesis
    by (auto simp: writes_ok_def ForwardWith_def State_Monad.run_state_bind case_prod_beta stream_answer_def buffered_answer_def plain_result_def Let_def b d
        simp del: map_append split: http_reply.split list.split option.split)
qed

text \<open>
  A failed call leaves the client untouched. When the call returns an error nothing has been written, so
  the handler can still answer or try again; when it returns a result exactly one status line has been. A
  probe never writes the answer of a router that refused.
\<close>

theorem forward_writes:
  "case fst (run_state (ForwardWith now reply ws probeOnly) c) of
     (Inl e, w) \<Rightarrow> w = []
   | (Inr r, w) \<Rightarrow> headers_sent w = 1 \<and> (probeOnly, fw_StatusCode r div 100 = 2) \<noteq> (True, False)"
  using ForwardWith_writes by (simp add: writes_ok_def)

end
