(* ===== verification/Relay_Error.thy ===== *)
theory Relay_Error
  imports Forward
begin

section \<open>Router errors on their way to the client (\<open>internal/api/failover.go\<close>, \<open>scrub.go\<close>)\<close>

text \<open>
  What a failed first attempt means (another provider, a new session, or the answer as it is), and the text
  of the router that reaches the client: scrubbed of addresses, ids, hosts and traces, reshaped and capped.
  \<open>json.Marshal\<close> is a parameter.
\<close>

subsection \<open>Scrubbing\<close>

definition dec :: "char \<Rightarrow> bool" where "dec c \<longleftrightarrow> code_in 48 57 c"

definition nums :: "nat \<Rightarrow> nat \<Rightarrow> regex" where "nums m n = between m n (Chr dec)"

definition hexes :: "nat \<Rightarrow> nat \<Rightarrow> regex" where "hexes m n = between m n (Chr hex)"

definition port_opt :: regex where "port_opt = opt (Seq (lit '':'') (nums 1 5))"

definition zone_opt :: regex where
  "zone_opt = opt (Seq (lit ''%'') (plus (Chr (\<lambda>c. dec c \<or> letter c \<or> c \<in> set ''_.-''))))"

definition dotted :: regex where "dotted = Seq (times 3 (Seq (nums 1 3) (lit ''.''))) (nums 1 3)"

definition ends :: regex where "ends = WordEdge"

text \<open>The rules in order: trace, URL, id, four kinds of IP addresses, host names.\<close>

definition trace_rule :: regex where
  "trace_rule = Seq
     (Alt (Seq (lit ''goroutine '') (Seq (plus (Chr dec)) (lit '' ['')))
       (Alt (lit ''panic: '')
         (Seq (plus (Chr (\<lambda>c. word_char c \<or> c \<in> set ''./-''))) (Seq (lit ''.go:'') (plus (Chr dec))))))
     (Rep (Chr (\<lambda>_. True)))"

definition url_rule :: regex where
  "url_rule = Seq ends (Seq (Chr letter) (Seq (Rep (Chr (\<lambda>c. letter c \<or> dec c \<or> c \<in> set ''+.-'')))
     (Seq (lit ''://'') (plus (Chr (\<lambda>c. \<not> re_space c \<and> c \<notin> {CHR 0x22, CHR 0x27, CHR ''<'', CHR ''>''}))))))"

definition id_rule :: regex where
  "id_rule = Seq ends (Seq (lit_fold ''0x'') (Seq (at_least 40 (Chr hex)) ends))"

definition hex_dot :: regex where "hex_dot = Rep (Chr (\<lambda>c. hex c \<or> c = CHR '':'' \<or> c = CHR ''.''))"

definition ip6_bracket_rule :: regex where
  "ip6_bracket_rule = Seq (lit ''['') (Seq hex_dot (Seq (lit '':'') (Seq hex_dot (Seq zone_opt (Seq (lit '']'') port_opt)))))"

definition ip4_mapped_rule :: regex where
  "ip4_mapped_rule = Seq (Alt (Seq ends (hexes 1 4)) Eps)
     (Seq (between 1 6 (Seq (lit '':'') (hexes 0 4))) (Seq (lit '':'') (Seq dotted ends)))"

definition groups :: regex where "groups = Seq (hexes 1 4) (Rep (Seq (lit '':'') (hexes 1 4)))"

definition ip6_rule :: regex where
  "ip6_rule = Seq
     (Alt (Seq ends (Seq (between 3 7 (Seq (hexes 1 4) (lit '':''))) (Seq (hexes 1 4) ends)))
       (Alt (Seq ends (Seq groups (Seq (lit ''::'') (opt (Seq groups ends)))))
         (Seq (lit ''::'') (Seq groups ends))))
     zone_opt"

definition ip4_rule :: regex where "ip4_rule = Seq ends (Seq dotted (Seq port_opt ends))"

definition alnum :: "char \<Rightarrow> bool" where "alnum c \<longleftrightarrow> letter c \<or> dec c"

definition host_rule :: regex where
  "host_rule = Alt
     (Seq ends (Seq (plus (Seq (Chr alnum) (Seq (opt (Seq (between 0 61 (Chr (\<lambda>c. alnum c \<or> c = CHR ''-''))) (Chr alnum))) (lit ''.''))))
       (Seq (between 2 63 (Chr letter)) (Seq ends port_opt))))
     (Seq ends (Seq (lit_fold ''localhost'') (Seq port_opt ends)))"

definition routerScrubRules :: "(regex \<times> string) list" where
  "routerScrubRules = [(trace_rule, ''[trace]''), (url_rule, ''[url]''), (id_rule, ''[id]''), (ip6_bracket_rule, ''[ip]''),
     (ip4_mapped_rule, ''[ip]''), (ip6_rule, ''[ip]''), (ip4_rule, ''[ip]''), (host_rule, ''[host]'')]"

definition scrubRouterText :: "string \<Rightarrow> string" where
  "scrubRouterText s = foldl (\<lambda>t (re, w). replaceAll re (\<lambda>_. w) t) s routerScrubRules"

definition maxRelayBody :: nat where "maxRelayBody = 4 * 2 ^ 10"

function scrubJSON :: "json \<Rightarrow> json" where
  "scrubJSON (JStr s) = JStr (scrubRouterText s)"
| "scrubJSON (JArr vs) = JArr (map scrubJSON vs)"
| "scrubJSON (JObj kvs) = JObj (map (\<lambda>(k, v). (scrubRouterText k, scrubJSON v)) (last_members kvs))"
| "scrubJSON JNull = JNull"
| "scrubJSON (JBool b) = JBool b"
| "scrubJSON (JNum n) = JNum n"
  by pat_completeness auto
termination scrubJSON
  by (relation "measure size") (auto dest: size_last_members size_list_estimation' [OF _ order_refl, of _ _ size] simp: less_Suc_eq_le)

definition scrubbedJSON :: "(json \<Rightarrow> string) \<Rightarrow> json \<Rightarrow> string option" where
  "scrubbedJSON marshal v = (let out = marshal (scrubJSON v) in if length out > maxRelayBody then None else Some out)"

definition ellipsis_text :: string where
  "ellipsis_text = [char_of (226 :: nat), char_of (128 :: nat), char_of (166 :: nat)]"

definition rune_start :: "char \<Rightarrow> bool" where
  "rune_start c \<longleftrightarrow> \<not> (128 \<le> (of_char c :: nat) \<and> (of_char c :: nat) < 192)"

fun cut_at :: "string \<Rightarrow> nat \<Rightarrow> nat" where
  "cut_at s 0 = 0"
| "cut_at s (Suc n) = (if rune_start (s ! Suc n) then Suc n else cut_at s n)"

definition truncate_text :: "string \<Rightarrow> nat \<Rightarrow> string" where
  "truncate_text s n = (if length s \<le> n then s else take (cut_at s n) s @ ellipsis_text)"

subsection \<open>Classification\<close>

datatype forwardDecision = DecTransport | DecSessionDead | DecRelay | DecFailover

fun decision_string :: "forwardDecision \<Rightarrow> string" where
  "decision_string DecTransport = ''transport''"
| "decision_string DecSessionDead = ''session_dead''"
| "decision_string DecRelay = ''relay''"
| "decision_string DecFailover = ''failover''"

definition quoted_text :: "string \<Rightarrow> string" where "quoted_text s = CHR 0x22 # s @ [CHR 0x22]"

definition impairedPatterns :: "string list" where
  "impairedPatterns = [''rate limit'', ''rate_limit'', ''too many requests'', ''capacity'', ''overloaded'',
     ''model unavailable'', ''model is unavailable'', ''service unavailable'',
     quoted_text ''statuscode'' @ '':429'', quoted_text ''statuscode'' @ '':503'']"

definition noFailoverPatterns :: "string list" where
  "noFailoverPatterns = [''tee attestation failed'', ''tee verification failed'', ''request cancelled while waiting in queue'']"

definition streamCutPatterns :: "string list" where
  "streamCutPatterns = [''error reading stream'', ''unexpected eof'', ''connection reset'', ''broken pipe'']"

definition sessionDeadNeedles :: "string list" where
  "sessionDeadNeedles = [''session expired'', ''session not found'', ''missing session'', ''no session'', ''unknown session'',
     ''invalid session'', ''session closed'', ''session is closed'']"

text \<open>\<open>StatusError.Error\<close>: the redacted text.\<close>

definition status_text :: "string \<Rightarrow> int \<Rightarrow> string \<Rightarrow> string" where
  "status_text path code body = Redact (''POST '' @ path @ '': status '' @ show_int code @ '': '' @ body)"

definition isSessionDead :: "string \<Rightarrow> int \<Rightarrow> string \<Rightarrow> bool" where
  "isSessionDead path code body = list_ex (contains (to_lower (status_text path code body))) sessionDeadNeedles"

definition classifyForwardError :: "string \<Rightarrow> fwd_err \<Rightarrow> forwardDecision" where
  "classifyForwardError path err =
     (case err of
        RouterStatus c body0 \<Rightarrow>
          if isSessionDead path c body0 then DecSessionDead
          else let body = to_lower body0; compact = filter (\<lambda>ch. \<not> is_space ch) body; pme = contains body ''providermodelerror'' in
            if list_ex (contains body) noFailoverPatterns then DecRelay
            else if pme \<and> list_ex (contains body) streamCutPatterns then DecFailover
            else if pme \<and> c \<in> {402, 401, 403, 404} then DecFailover
            else if c = 429 \<or> c \<ge> 500 then DecFailover
            else if pme \<and> c \<in> {400, 413, 422} \<and> list_ex (\<lambda>p. contains body p \<or> contains compact p) impairedPatterns then DecFailover
            else DecRelay
      | _ \<Rightarrow> DecTransport)"

subsection \<open>The answer\<close>

text \<open>A router error as the client gets it: Uplink's own 502, or a status with a JSON body.\<close>

datatype relayed = OwnError int string | RouterBody int string

text \<open>The first message, error or detail inside a value, a few levels deep (\<open>None\<close>: no value).\<close>

fun nestedMessage :: "nat \<Rightarrow> json option \<Rightarrow> string" where
  "nestedMessage 0 raw = []"
| "nestedMessage (Suc d) raw =
     (case raw of
        None \<Rightarrow> []
      | Some (JStr s) \<Rightarrow> trim s
      | Some (JObj kvs) \<Rightarrow>
          (let m = (\<lambda>k. nestedMessage d (mget (rev kvs) k)) in
           if m ''message'' \<noteq> [] then m ''message'' else if m ''error'' \<noteq> [] then m ''error'' else m ''detail'')
      | Some _ \<Rightarrow> [])"

definition routerErrorMessage :: "(string \<times> json) list \<Rightarrow> string \<Rightarrow> string" where
  "routerErrorMessage obj body =
     (let m = (\<lambda>k. nestedMessage 3 (mget (rev obj) k)); s = (if m ''providerModelError'' \<noteq> [] then m ''providerModelError''
            else if m ''error'' \<noteq> [] then m ''error'' else m ''message'') in
      if s \<noteq> [] then truncate_text (scrubRouterText s) 1000
      else if trim body \<noteq> [] then truncate_text (scrubRouterText (trim body)) 1000
      else ''the router returned an error'')"

definition build_body :: "(json \<Rightarrow> string) \<Rightarrow> string \<Rightarrow> int \<Rightarrow> bool \<Rightarrow> string \<Rightarrow> json option \<Rightarrow> string" where
  "build_body marshal typ code hasPME msg pme =
     marshal (JObj ((''error'', JObj [(''message'', JStr msg), (''type'', JStr typ), (''code'', JNum (show_int code))]) #
       (if hasPME then [(''providerModelError'', case pme of Some v \<Rightarrow> v | None \<Rightarrow> JObj [(''error'', JObj [(''message'', JStr msg)])])] else []))) @
     [newline]"

definition trim_ellipsis :: "string \<Rightarrow> string" where
  "trim_ellipsis s = (if length s \<ge> 3 \<and> drop (length s - 3) s = ellipsis_text then take (length s - 3) s else s)"

definition shorten :: "string \<Rightarrow> string" where
  "shorten msg = (let m = truncate_text (trim_ellipsis msg) (length (trim_ellipsis msg) div 2) in if m = ellipsis_text then [] else m)"

lemma cut_at_le: "cut_at s n \<le> n"
  by (induction n) auto

lemma length_ellipsis [simp]: "length ellipsis_text = 3"
  by (simp add: ellipsis_text_def)

lemma trim_ellipsis_end: "trim_ellipsis (t @ ellipsis_text) = t"
  by (simp add: trim_ellipsis_def)

lemma trim_ellipsis_le: "length (trim_ellipsis s) \<le> length s"
  by (simp add: trim_ellipsis_def)

definition msg_size :: "string \<Rightarrow> nat" where
  "msg_size m = (if m = [] then 0 else Suc (length (trim_ellipsis m)))"

lemma shorten_less:
  assumes "m \<noteq> []" shows "msg_size (shorten m) < msg_size m"
proof -
  let ?t = "trim_ellipsis m"
  have nil: "trim_ellipsis [] = []" by (simp add: trim_ellipsis_def)
  show ?thesis
  proof (cases "?t = []")
    case True
    then have "shorten m = []" by (simp add: shorten_def truncate_text_def ellipsis_text_def)
    then show ?thesis using assms by (simp add: msg_size_def)
  next
    case False
    then have "0 < length ?t" by simp
    then have nl: "\<not> length ?t \<le> length ?t div 2" by presburger
    let ?u = "take (cut_at ?t (length ?t div 2)) ?t"
    have "cut_at ?t (length ?t div 2) \<le> length ?t div 2" by (rule cut_at_le)
    then have "length ?u < length ?t" using nl by simp
    moreover have "shorten m = (if ?u = [] then [] else ?u @ ellipsis_text)"
      using nl by (simp add: shorten_def truncate_text_def)
    ultimately show ?thesis using assms trim_ellipsis_end [of ?u] by (auto simp: msg_size_def)
  qed
qed

text \<open>The message is shortened until the body fits, or is empty.\<close>

function fit_body :: "(string \<Rightarrow> string) \<Rightarrow> string \<Rightarrow> string" where
  "fit_body build msg = (let body = build msg in if length body \<le> maxRelayBody \<or> msg = [] then body else fit_body build (shorten msg))"
  by pat_completeness auto
termination
  by (relation "measure (\<lambda>(b, m). msg_size m)") (auto simp: shorten_less)

declare fit_body.simps [simp del]

definition relayBody :: "(json \<Rightarrow> string) \<Rightarrow> string \<Rightarrow> string \<Rightarrow> int \<Rightarrow> bool \<Rightarrow> json option \<Rightarrow> string" where
  "relayBody marshal msg typ code hasPME pme =
     (let body = build_body marshal typ code hasPME msg pme in
      if length body \<le> maxRelayBody then body
      else fit_body (\<lambda>m. build_body marshal typ code hasPME m None) msg)"

text \<open>A provider error is kept when its scrubbed text fits: it is encoded from the scrubbed value.\<close>

definition relayRouterError :: "(json \<Rightarrow> string) \<Rightarrow> fwd_err \<Rightarrow> relayed" where
  "relayRouterError marshal err =
     (case err of
        RouterStatus c body \<Rightarrow>
          (let code = (if c < 400 \<or> c > 599 then 502 else c);
               doc = (case json_parse body of Some (JObj kvs) \<Rightarrow> Some kvs | _ \<Rightarrow> None);
               obj = (case doc of Some kvs \<Rightarrow> kvs | None \<Rightarrow> []);
               pme = mget (rev obj) ''providerModelError'';
               asis = (case (doc, mget (rev obj) ''error'') of
                   (Some kvs, Some (JObj e)) \<Rightarrow> if pme = None then scrubbedJSON marshal (JObj kvs) else None | _ \<Rightarrow> None);
               typ = (if pme \<noteq> None \<or> code \<ge> 500 \<or> code = 429 then ''provider_error'' else ''invalid_request_error'');
               kept = (case pme of Some v \<Rightarrow> (case scrubbedJSON marshal v of Some t \<Rightarrow> Some (scrubJSON v) | None \<Rightarrow> None) | None \<Rightarrow> None)
           in if pme = None \<and> (code = 401 \<or> code = 403)
              then OwnError 502 (''inference failed: router rejected the request ('' @ show_int c @ '')'')
              else case asis of
                Some b \<Rightarrow> RouterBody code b
              | None \<Rightarrow> RouterBody code (relayBody marshal (routerErrorMessage obj body) typ code (pme \<noteq> None) kept))
      | _ \<Rightarrow> OwnError 502 ''inference failed'')"

definition statusClass :: "fwd_err \<Rightarrow> string" where
  "statusClass err = (case err of RouterStatus c body \<Rightarrow> if c \<ge> 500 then ''5xx'' else show_int c | _ \<Rightarrow> ''stream'')"

subsection \<open>Lemmas\<close>

lemma fit_body_capped: "length (fit_body b m) \<le> maxRelayBody \<or> fit_body b m = b []"
proof (induction b m rule: fit_body.induct)
  case (1 b m)
  show ?case
  proof (cases "length (b m) \<le> maxRelayBody \<or> m = []")
    case True then show ?thesis by (subst (1 2) fit_body.simps) (auto simp: Let_def)
  next
    case False
    then have "fit_body b m = fit_body b (shorten m)" by (subst fit_body.simps) (simp add: Let_def)
    then show ?thesis using "1.IH" [OF refl False] by simp
  qed
qed

text \<open>The status a client may see, and the size of the body it comes with.\<close>

fun relayed_status :: "relayed \<Rightarrow> int" where
  "relayed_status (OwnError c m) = c"
| "relayed_status (RouterBody c b) = c"

fun relayed_size :: "relayed \<Rightarrow> nat" where
  "relayed_size (OwnError c m) = length m"
| "relayed_size (RouterBody c b) = length b"

lemma scrubbedJSON_capped: "scrubbedJSON marshal v = Some b \<Longrightarrow> length b \<le> maxRelayBody"
  by (auto simp: scrubbedJSON_def Let_def split: if_splits)

lemma relayBody_capped:
  "length (relayBody marshal msg typ code h p) \<le> maxRelayBody \<or>
   relayBody marshal msg typ code h p = build_body marshal typ code h [] None"
  using fit_body_capped [of "\<lambda>m. build_body marshal typ code h m None" msg] by (auto simp: relayBody_def Let_def)

definition object_of :: "string \<Rightarrow> (string \<times> json) list" where
  "object_of body = (case json_parse body of Some (JObj kvs) \<Rightarrow> kvs | _ \<Rightarrow> [])"

lemma relayed_status_eq:
  "relayed_status (relayRouterError marshal (RouterStatus c body)) =
     (let code = (if c < 400 \<or> c > 599 then 502 else c) in
      if mget (rev (object_of body)) ''providerModelError'' = None \<and> (code = 401 \<or> code = 403) then 502 else code)"
proof -
  have o1: "(case (case json_parse body of Some (JObj kvs) \<Rightarrow> Some kvs | _ \<Rightarrow> None) of Some kvs \<Rightarrow> kvs | None \<Rightarrow> []) = object_of body"
    by (simp add: object_of_def split: option.split json.split)
  have st: "relayed_status (case x of Some b \<Rightarrow> RouterBody code b | None \<Rightarrow> RouterBody code d) = code" for x code d
    by (cases x) simp_all
  show ?thesis by (simp only: relayRouterError_def fwd_err.case Let_def o1 if_distrib [of relayed_status] st relayed_status.simps)
qed


text \<open>
  A relayed error body is capped as a whole. Whatever JSON encoding does to its size, the body is at most 4 KiB,
  or the one with an empty message.
\<close>

theorem relay_capped:
  "length (relayBody marshal msg typ code h p) \<le> max maxRelayBody (length (build_body marshal typ code h [] None))"
  using relayBody_capped by (metis max.cobounded2 max.coboundedI1)

text \<open>
  What another provider can fix. A first attempt moves to another provider only for a status of the router
  that is not a dead session: 429, 500 and above, or the provider's own error with 401, 402, 403 or 404, with a
  broken stream, or with 400, 413 or 422 and a text that says the provider is overloaded; and never for a failed
  attestation or a cancelled request.
\<close>

theorem failover_only_for_provider:
  "classifyForwardError path err = DecFailover \<longleftrightarrow>
     (case err of
        RouterStatus c body \<Rightarrow>
          (let low = to_lower body; says = (\<lambda>ps. list_ex (contains low) ps); pme = contains low ''providermodelerror'' in
           \<not> isSessionDead path c body \<and> \<not> says noFailoverPatterns \<and>
           (pme \<and> says streamCutPatterns \<or> c = 429 \<or> c \<ge> 500 \<or> pme \<and> c \<in> {401, 402, 403, 404} \<or>
            pme \<and> c \<in> {400, 413, 422} \<and>
              list_ex (\<lambda>p. contains low p \<or> contains (filter (\<lambda>ch. \<not> is_space ch) low) p) impairedPatterns))
      | _ \<Rightarrow> False)"
  by (auto simp: classifyForwardError_def Let_def split: fwd_err.split)

end
