(* ===== verification/Call_Limits.thy ===== *)
theory Call_Limits
  imports Relay_Error Transient
begin

section \<open>What an inference request may ask for (\<open>internal/api/longjob.go\<close>, \<open>openai.go\<close>, \<open>stake_price.go\<close>)\<close>

text \<open>
  The checks of an inference request before any session is opened (its JSON body and its \<open>X-Uplink\<close> headers),
  and the answers to an open that was refused. A header's values are the list \<open>r.Header.Values\<close> gives.
\<close>

subsection \<open>The integer headers\<close>

definition headerDigitsMax :: nat where "headerDigitsMax = 6"
definition requestTimeoutDef :: int where "requestTimeoutDef = 600"
definition idleTimeoutMin :: int where "idleTimeoutMin = 30"
definition idleTimeoutMax :: int where "idleTimeoutMax = 600"

text \<open>An error text, or the value when the header was sent.\<close>

definition strictHeaderInt :: "string \<Rightarrow> string list \<Rightarrow> string + int option" where
  "strictHeaderInt name vals =
     (let bad = Inl (name @ '' must be a whole number of seconds'') in
      case vals of
        [] \<Rightarrow> Inr None
      | [v] \<Rightarrow>
          if v = [] \<or> length v > headerDigitsMax then bad
          else if \<not> list_all is_digit v then bad
          else Inr (Some (digits_val v))
      | _ \<Rightarrow> Inl (name @ '' must be sent once''))"

record call_limits =
  cl_durationSec :: int        \<comment> \<open>0: the pool's default\<close>
  cl_totalSec :: int
  cl_idleSec :: int
  cl_anyHeader :: bool

definition parseCallLimits :: "int \<Rightarrow> int \<Rightarrow> (string \<Rightarrow> string list) \<Rightarrow> call_limits \<times> string" where
  "parseCallLimits dmax forwardIdle values =
     (let idleDef = (if forwardIdle < idleTimeoutMin \<or> forwardIdle > idleTimeoutMax then 180 else forwardIdle);
          cl = \<lparr>cl_durationSec = 0, cl_totalSec = requestTimeoutDef, cl_idleSec = idleDef, cl_anyHeader = False\<rparr>;
          idle = (\<lambda>cl. case strictHeaderInt ''X-Uplink-Idle-Timeout'' (values ''X-Uplink-Idle-Timeout'') of
                Inl msg \<Rightarrow> (cl, msg)
              | Inr None \<Rightarrow> (cl, [])
              | Inr (Some n) \<Rightarrow>
                  if n \<le> 0 then (cl\<lparr>cl_anyHeader := True\<rparr>, ''X-Uplink-Idle-Timeout must be at least 1 second'')
                  else (cl\<lparr>cl_anyHeader := True, cl_idleSec := min (max n idleTimeoutMin) idleTimeoutMax\<rparr>, []))
      in case strictHeaderInt ''X-Uplink-Session-Duration'' (values ''X-Uplink-Session-Duration'') of
           Inl msg \<Rightarrow> (cl, msg)
         | Inr None \<Rightarrow> idle cl
         | Inr (Some n) \<Rightarrow>
             if n < 600 \<or> n > dmax
             then (cl\<lparr>cl_anyHeader := True\<rparr>,
                   ''X-Uplink-Session-Duration must be 600'' @ ellipsis_text @ show_int dmax @ '' seconds'')
             else idle (cl\<lparr>cl_anyHeader := True, cl_durationSec := n\<rparr>))"

definition forwardOpts :: "call_limits \<Rightarrow> bool \<Rightarrow> forward_opts" where
  "forwardOpts cl stream = \<lparr>fo_Idle = cl_idleSec cl * second, fo_Total = cl_totalSec cl * second, fo_Stream = stream\<rparr>"

text \<open>The header of the answer, when the client sent one of its own.\<close>

definition setTimeoutHeaders :: "call_limits \<Rightarrow> (string \<times> string) option" where
  "setTimeoutHeaders cl =
     (if cl_anyHeader cl
      then Some (''X-Uplink-Timeouts'', ''idle='' @ show_int (cl_idleSec cl) @ '';total='' @ show_int (cl_totalSec cl))
      else None)"

subsection \<open>The body\<close>

definition injectedRoutingFields :: "string list" where
  "injectedRoutingFields = [''session_id'', ''model_id'', ''chat_id'', ''provider_url'', ''node_url'']"

definition as_string :: "json \<Rightarrow> string" where
  "as_string v = (case v of JStr s \<Rightarrow> s | _ \<Rightarrow> [])"

definition json_body :: "string \<Rightarrow> (string \<times> json) list option" where
  "json_body body =
     (let trimmed = trim body in
      if trimmed = [] \<or> hd trimmed \<noteq> CHR ''{'' then None
      else case json_parse body of Some (JObj kvs) \<Rightarrow> Some kvs | _ \<Rightarrow> None)"

definition no_messages :: string where
  "no_messages = ''request must include a non-empty '' @ quoted_text ''messages'' @ '' array''"

text \<open>The model asked for, or an error text. A field given twice counts as its last value.\<close>

definition validateInferenceBody :: "string \<Rightarrow> bool \<Rightarrow> string + string" where
  "validateInferenceBody body requireMessages =
     (case json_body body of
        None \<Rightarrow> Inl ''request must be a JSON object''
      | Some kvs \<Rightarrow>
          (let raw = (\<lambda>f. mget (rev kvs) f) in
           case find (\<lambda>f. raw f \<noteq> None) injectedRoutingFields of
             Some f \<Rightarrow> Inl (''injected routing field '' @ quoted_text f @ '' is not allowed'')
           | None \<Rightarrow>
               (let model = (case raw ''model'' of Some m \<Rightarrow> as_string m | None \<Rightarrow> []) in
                if model = [] then Inl (''request must be JSON with a '' @ quoted_text ''model'' @ '' field'')
                else if \<not> requireMessages then Inr model
                else case raw ''messages'' of
                       Some (JArr (x # xs)) \<Rightarrow> Inr model
                     | _ \<Rightarrow> Inl no_messages)))"

text \<open>
  \<open>bodyStream\<close>: the field as \<open>encoding/json\<close> sets it (names fold case, the last boolean wins, null and values
  of another type leave it).
\<close>

definition bodyStream :: "string \<Rightarrow> bool" where
  "bodyStream body =
     (case json_parse body of
        Some (JObj kvs) \<Rightarrow> fold (\<lambda>v b. case v of JBool c \<Rightarrow> c | _ \<Rightarrow> b) (members ''stream'' kvs) False
      | _ \<Rightarrow> False)"

subsection \<open>Refused opens\<close>

text \<open>An answer of Uplink's own: status, error type, message, and the seconds of \<open>Retry-After\<close> (0: no header).\<close>

datatype own_answer = OwnAnswer int string string int

definition openai_error :: "int \<Rightarrow> string \<Rightarrow> own_answer" where
  "openai_error status msg = OwnAnswer status ''invalid_request_error'' msg 0"

definition typed_error :: "int \<Rightarrow> string \<Rightarrow> string \<Rightarrow> own_answer" where
  "typed_error status typ msg = OwnAnswer status typ msg 0"

definition writeTimeout504 :: "string \<Rightarrow> own_answer" where
  "writeTimeout504 kind = OwnAnswer 504 ''timeout'' (''upstream '' @ kind @ '' timeout'') 0"

fun chainWaitMessage :: "reason \<Rightarrow> (string \<times> string) option" where
  "chainWaitMessage ChainCongested = Some (''chain_congested'',
     ''The Base network is congested and the session could not be confirmed yet; retry shortly'')"
| "chainWaitMessage WalletTxPending = Some (''wallet_tx_pending'',
     ''The Uplink wallet has a transaction still pending on-chain; retry shortly'')"
| "chainWaitMessage _ = None"

definition writeNoAvailableProvider :: "dur \<Rightarrow> reason \<Rightarrow> own_answer" where
  "writeNoAvailableProvider retryAfter why =
     (let sec = go_div retryAfter second; hdr = (if sec \<ge> 1 then sec else 0) in
      case chainWaitMessage why of
        Some (typ, msg) \<Rightarrow> if sec \<ge> 1 then OwnAnswer 503 typ msg hdr
          else OwnAnswer 503 ''no_available_provider'' ''no provider is available for this model right now; retry later'' hdr
      | None \<Rightarrow> OwnAnswer 503 ''no_available_provider'' ''no provider is available for this model right now; retry later'' hdr)"

definition noAvailableOutcome :: "reason \<Rightarrow> string" where
  "noAvailableOutcome why = (case chainWaitMessage why of Some (typ, msg) \<Rightarrow> typ | None \<Rightarrow> ''no_available'')"

definition writeWalletNeedsFunds :: own_answer where
  "writeWalletNeedsFunds = typed_error 402 ''wallet_insufficient_funds''
     ''The Uplink wallet needs funds (gas, MOR or allowance) to open a session''"

text \<open>Amounts and lengths as the refusal shows them: rounded up, with 2 decimals (6 when under 0.01).\<close>

definition ceil_div :: "int \<Rightarrow> int \<Rightarrow> int" where "ceil_div a b = - ((- a) div b)"

definition pad_left :: "nat \<Rightarrow> string \<Rightarrow> string" where
  "pad_left n s = replicate (n - length s) (CHR ''0'') @ s"

definition ceilRat :: "int \<Rightarrow> nat \<Rightarrow> string" where
  "ceilRat wei dp =
     (let q = ceil_div (wei * 10 ^ dp) (10 ^ 18); a = \<bar>q\<bar> in
      (if q < 0 then ''-'' else []) @ show_int (a div 10 ^ dp) @ ''.'' @ pad_left dp (show_int (a mod 10 ^ dp)))"

definition FormatMor :: "int option \<Rightarrow> string" where
  "FormatMor wei = (case wei of None \<Rightarrow> ''?'' | Some w \<Rightarrow> if w * 100 < 10 ^ 18 then ceilRat w 6 else ceilRat w 2)"

definition FormatDuration :: "int \<Rightarrow> string" where
  "FormatDuration sec =
     (let m = go_div (sec + 59) 60 in
      if m < 60 then show_int m @ '' min''
      else if m mod 60 = 0 then show_int (m div 60) @ '' h''
      else show_int (m div 60) @ '' h '' @ show_int (m mod 60) @ '' min'')"

definition stakeLimitInvalidMsg :: string where
  "stakeLimitInvalidMsg = ''The Uplink Max stMOR per session setting is invalid; fix the value and restart''"

definition stakeLimitExceededMsg :: "string \<Rightarrow> int option \<Rightarrow> int \<Rightarrow> int \<Rightarrow> string" where
  "stakeLimitExceededMsg modelName need cap durationSec =
     ''Opening '' @ modelName @ '' for '' @ FormatDuration durationSec @ '' needs at least '' @
     (case need of Some n \<Rightarrow> FormatMor need @ '' stMOR'' | None \<Rightarrow> ''an unknown stake (no priced bid)'') @
     ''; the Uplink cap is '' @ FormatMor (Some cap) @
     '' stMOR per session. Raise Max stMOR per session or ask for a shorter session.''"

subsection \<open>What the checks guarantee\<close>

lemma digits_val_nonneg: "0 \<le> digits_val v"
proof -
  have "0 \<le> foldl (\<lambda>n c. 10 * n + int (digit_val c)) a v" if "0 \<le> a" for a
    using that by (induction v arbitrary: a) auto
  then show ?thesis by (simp add: digits_val_def)
qed

text \<open>A header that is a plain number of at most six digits, in a range.\<close>

definition plain_number :: "string \<Rightarrow> bool" where
  "plain_number v \<longleftrightarrow> v \<noteq> [] \<and> length v \<le> 6 \<and> list_all is_digit v"

definition header_within :: "(int \<Rightarrow> bool) \<Rightarrow> string list \<Rightarrow> bool" where
  "header_within ok vals = (case vals of [] \<Rightarrow> True | [v] \<Rightarrow> plain_number v \<and> ok (digits_val v) | _ \<Rightarrow> False)"

lemma strictHeaderInt_cases:
  "strictHeaderInt name vals =
     (case vals of [] \<Rightarrow> Inr None
      | [v] \<Rightarrow> if plain_number v then Inr (Some (digits_val v)) else Inl (name @ '' must be a whole number of seconds'')
      | _ \<Rightarrow> Inl (name @ '' must be sent once''))"
  by (auto simp: strictHeaderInt_def plain_number_def headerDigitsMax_def Let_def split: list.split)

text \<open>What each result of reading a header says of it.\<close>

definition header_says :: "(int \<Rightarrow> bool) \<Rightarrow> string list \<Rightarrow> string + int option \<Rightarrow> bool" where
  "header_says ok vals r \<longleftrightarrow>
     (case r of Inl m \<Rightarrow> m \<noteq> [] \<and> \<not> header_within ok vals
      | Inr None \<Rightarrow> header_within ok vals
      | Inr (Some n) \<Rightarrow> header_within ok vals = ok n)"

lemma strict_says: "header_says ok vals (strictHeaderInt name vals)"
  by (auto simp: header_says_def strictHeaderInt_cases header_within_def split: list.split)

lemmas limit_defs = parseCallLimits_def Let_def requestTimeoutDef_def idleTimeoutMin_def idleTimeoutMax_def

text \<open>
  What a caller may ask for. The limits are accepted exactly when each of the two headers is absent or sent
  once as a plain number, the session length between 600 and the operator's maximum and the idle time above 0.
\<close>

theorem call_limits_accepted:
  "snd (parseCallLimits dmax idle values) = [] \<longleftrightarrow>
     header_within (\<lambda>n. 600 \<le> n \<and> n \<le> dmax) (values ''X-Uplink-Session-Duration'') \<and>
     header_within (\<lambda>n. 0 < n) (values ''X-Uplink-Idle-Timeout'')"
proof -
  let ?D = "''X-Uplink-Session-Duration''" and ?I = "''X-Uplink-Idle-Timeout''"
  have d: "header_says (\<lambda>n. 600 \<le> n \<and> n \<le> dmax) (values ?D) (strictHeaderInt ?D (values ?D))"
    and i: "header_says (\<lambda>n. 0 < n) (values ?I) (strictHeaderInt ?I (values ?I))" by (rule strict_says)+
  show ?thesis
    using d i unfolding header_says_def limit_defs
    by (auto simp del: append.simps split: sum.splits option.splits)
qed

text \<open>
  The timers of a call stay in their bounds. Whatever the headers and the operator's setting, the total is 600
  seconds, the idle time between 30 and 600, and the session length is the pool's default or within 600 and the
  maximum.
\<close>

theorem call_limits_bounded:
  "case fst (parseCallLimits dmax idle values) of cl \<Rightarrow>
     cl_totalSec cl = 600 \<and> 30 \<le> cl_idleSec cl \<and> cl_idleSec cl \<le> 600 \<and>
     (if cl_durationSec cl = 0 then True else 600 \<le> cl_durationSec cl \<and> cl_durationSec cl \<le> dmax)"
proof -
  have b: "30 \<le> min (max n 30) 600 \<and> min (max n 30) 600 \<le> (600 :: int)" for n by simp
  show ?thesis
    by (cases "strictHeaderInt ''X-Uplink-Session-Duration'' (values ''X-Uplink-Session-Duration'')"; 
        cases "strictHeaderInt ''X-Uplink-Idle-Timeout'' (values ''X-Uplink-Idle-Timeout'')";
        simp add: limit_defs b del: append.simps min.bounded_iff split: option.split)
qed

lemma find_no_field: "find (\<lambda>f. mget m f \<noteq> None) fs = None \<longleftrightarrow> list_all (\<lambda>f. mget m f = None) fs"
  by (auto simp: find_None_iff list_all_iff)

text \<open>
  C32: what is forwarded. A body is accepted, for a model, exactly when it is a JSON object without any of the five
  routing fields, whose last \<open>model\<close> is that non-empty string and, for chat completions, whose last \<open>messages\<close> is
  an array with an element.
\<close>

theorem body_accepted:
  "validateInferenceBody body req = Inr model \<longleftrightarrow>
     (case json_body body of
        None \<Rightarrow> False
      | Some kvs \<Rightarrow>
          list_all (\<lambda>f. mget (rev kvs) f = None) [''session_id'', ''model_id'', ''chat_id'', ''provider_url'', ''node_url''] \<and>
          mget (rev kvs) ''model'' = Some (JStr model) \<and> model \<noteq> [] \<and>
          (if req then (case mget (rev kvs) ''messages'' of Some (JArr xs) \<Rightarrow> xs \<noteq> [] | _ \<Rightarrow> False) else True))"
proof (cases "json_body body")
  case None
  then show ?thesis by (simp add: validateInferenceBody_def)
next
  case (Some kvs)
  let ?raw = "\<lambda>f. mget (rev kvs) f"
  show ?thesis
  proof (cases "find (\<lambda>f. ?raw f \<noteq> None) injectedRoutingFields")
    case (Some f)
    then have "\<not> list_all (\<lambda>f. ?raw f = None) injectedRoutingFields"
      using find_no_field [of "rev kvs" injectedRoutingFields] by simp
    moreover have "\<exists>e. validateInferenceBody body req = Inl e"
      using Some \<open>json_body body = Some kvs\<close> by (simp only: validateInferenceBody_def Let_def option.case) blast
    ultimately show ?thesis using \<open>json_body body = Some kvs\<close> by (auto simp: injectedRoutingFields_def)
  next
    case None
    have "list_all (\<lambda>f. ?raw f = None) injectedRoutingFields"
      using None find_no_field [of "rev kvs" injectedRoutingFields] by simp
    moreover have "as_string m \<noteq> [] \<Longrightarrow> m = JStr (as_string m)" for m
      by (cases m) (auto simp: as_string_def)
    moreover have "as_string (JStr x) = x" for x by (simp add: as_string_def)
    moreover have "(case v of Some (JArr (x # xs)) \<Rightarrow> Inr d | _ \<Rightarrow> Inl no_messages) = Inr model \<longleftrightarrow>
        d = model \<and> (case v of Some (JArr xs) \<Rightarrow> xs \<noteq> [] | _ \<Rightarrow> False)" for v d
      by (auto split: option.split json.split list.split)
    ultimately show ?thesis using None \<open>json_body body = Some kvs\<close>
      by (cases "?raw ''model''") (auto simp: validateInferenceBody_def Let_def injectedRoutingFields_def)
  qed
qed

end
