(* ===== verification/Inference.thy ===== *)
theory Inference
  imports Acquire Catalog Key_Api Call_Limits
begin

section \<open>The inference handler (\<open>internal/api/openai.go\<close>, \<open>longjob.go\<close>, \<open>stake_price.go\<close>)\<close>

text \<open>
  One inference request, from the key gate to the end of its lease, over the components it calls: the store,
  the catalog, the session pool and the router client. Its state is theirs side by side and a log of what the
  request did, in order. The operator's settings, the bytes of an error of the catalog, the router's reply and
  what the other requests do to the store and the client between the steps are in \<open>api_env\<close>; the pool and the
  catalog bring their own environments. Deadlines on the client's connection are not modelled.
\<close>

subsection \<open>State\<close>

datatype api_ev =
    Authenticated string                  \<comment> \<open>the caller's key id, and the model the request resolved to\<close>
  | Resolved string
  | Answer own_answer                     \<comment> \<open>the three ways the client is answered\<close>
  | RelayedError relayed
  | Streamed "http_out list"
  | ClientGone                            \<comment> \<open>the handler returned without an answer\<close>
  | SetHeader string string
  | Forwarded string string bool          \<comment> \<open>route, session, probe\<close>
  | LeaseTaken string
  | LeaseEnded string
  | Recorded string string int int        \<comment> \<open>\<open>store.RecordUsage\<close>\<close>
  | Unavailable string string             \<comment> \<open>audit: model label and outcome\<close>
  | FailoverAudit string string string string string
  | ReleaseAudit string string string
  | RetireLater string string int int     \<comment> \<open>the goroutine of \<open>afterStreamProviderError\<close>\<close>

record ('w, 'c) api =
  ap_sys :: "'w sys"
  ap_cat :: "'c cat_sys"
  ap_store :: store
  ap_client :: client
  ap_log :: "api_ev list"

record ('w, 'c) api_env =
  ae_pool :: "'w env"
  ae_cat :: "'c cat_env"
  ae_store :: store_env
  ae_store_others :: "store \<Rightarrow> 'w \<Rightarrow> store"
  ae_client_others :: "client \<Rightarrow> 'w \<Rightarrow> client"
  ae_reply :: "string \<Rightarrow> string \<Rightarrow> string \<Rightarrow> forward_opts \<Rightarrow> 'w \<Rightarrow> (http_reply \<times> ctx_state option list) \<times> 'w"
  ae_marshal :: "json \<Rightarrow> string"
  ae_resolve_text :: "resolve_err \<Rightarrow> string"
  ae_master :: string
  ae_prompt :: string
  ae_failover :: bool                     \<comment> \<open>\<open>cfg.SessionFailover\<close>, \<open>cfg.SessionRelease\<close>\<close>
  ae_release :: bool
  ae_durationMax :: int                   \<comment> \<open>the settings \<open>sessionDurationMax\<close> and \<open>forwardIdle\<close>\<close>
  ae_forwardIdle :: int

type_synonym ('w, 'c, 'a) api_act = "(('w, 'c) api, 'a) state"

definition emit :: "api_ev \<Rightarrow> ('w, 'c, unit) api_act" where
  "emit e = State (\<lambda>s. ((), s\<lparr>ap_log := ap_log s @ [e]\<rparr>))"

definition in_pool :: "('w, 'a) act \<Rightarrow> ('w, 'c, 'a) api_act" where
  "in_pool f = State (\<lambda>s. case run_state f (ap_sys s) of (a, y) \<Rightarrow> (a, s\<lparr>ap_sys := y\<rparr>))"

definition in_cat :: "('c, 'a) cat_act \<Rightarrow> ('w, 'c, 'a) api_act" where
  "in_cat f = State (\<lambda>s. case run_state f (ap_cat s) of (a, c) \<Rightarrow> (a, s\<lparr>ap_cat := c\<rparr>))"

definition in_store :: "('w, 'c) api_env \<Rightarrow> 'a store_act \<Rightarrow> ('w, 'c, 'a) api_act" where
  "in_store A f = State (\<lambda>s. case run_state f (ae_store_others A (ap_store s) (sy_world (ap_sys s))) of
     (a, x) \<Rightarrow> (a, s\<lparr>ap_store := x\<rparr>))"

definition in_client :: "('w, 'c) api_env \<Rightarrow> 'a client_act \<Rightarrow> ('w, 'c, 'a) api_act" where
  "in_client A f = State (\<lambda>s. case run_state f (ae_client_others A (ap_client s) (sy_world (ap_sys s))) of
     (a, x) \<Rightarrow> (a, s\<lparr>ap_client := x\<rparr>))"

subsection \<open>Leases, names and audit lines\<close>

text \<open>\<open>Lease.Done\<close>: the lease afterwards; a nil lease or a second call does nothing.\<close>

definition done_lease :: "('w, 'c) api_env \<Rightarrow> lease option \<Rightarrow> ('w, 'c, lease option) api_act" where
  "done_lease A lv =
     (case lv of
        None \<Rightarrow> ret None
      | Some l \<Rightarrow> do {
          _ \<leftarrow> (if ls_done l then ret () else emit (LeaseEnded (ls_session l)));
          r \<leftarrow> in_pool (with_mu (ae_pool A) (\<lambda>t m. lease_done t l m));
          _ \<leftarrow> (if snd r then in_pool (requestSweep (ae_pool A)) else ret ());
          ret (Some (fst r)) })"

definition model_label :: "('w, 'c) api_env \<Rightarrow> string \<Rightarrow> ('w, 'c, string) api_act" where
  "model_label A i = do { n \<leftarrow> in_cat (NameByID (ae_cat A) i); ret (modelLabel (\<lambda>_. n) i) }"

definition auditProviderUnavailable :: "('w, 'c) api_env \<Rightarrow> string \<Rightarrow> string \<Rightarrow> ('w, 'c, unit) api_act" where
  "auditProviderUnavailable A modelID outcome = do {
     label \<leftarrow> model_label A modelID;
     emit (Unavailable label outcome) }"

definition track_open :: "('w, 'c) api_env \<Rightarrow> bool \<Rightarrow> string \<Rightarrow> string \<Rightarrow> string \<Rightarrow> ('w, 'c, unit) api_act" where
  "track_open A opened sid keyID modelID =
     (if opened then do {
        now \<leftarrow> in_pool (clock (ae_pool A));
        in_store A (TrackSessionOpen (ae_store A) now sid keyID modelID) }
      else ret ())"

subsection \<open>Acquiring a session\<close>

definition writeStakeRefusal :: "('w, 'c) api_env \<Rightarrow> string \<Rightarrow> open_err \<Rightarrow> ('w, 'c, bool) api_act" where
  "writeStakeRefusal A modelID err =
     (case err of
        StakeLimitExceeded need cap d \<Rightarrow> do {
          n \<leftarrow> in_cat (NameByID (ae_cat A) modelID);
          _ \<leftarrow> auditProviderUnavailable A modelID ''stake_limit_exceeded'';
          _ \<leftarrow> emit (Answer (typed_error 503 ''stake_limit_exceeded''
                 (stakeLimitExceededMsg (if n = [] then ''this model'' else n) need cap d)));
          ret True }
      | StakeLimitInvalid \<Rightarrow> do {
          _ \<leftarrow> auditProviderUnavailable A modelID ''stake_limit_invalid'';
          _ \<leftarrow> emit (Answer (typed_error 503 ''stake_limit_invalid'' stakeLimitInvalidMsg));
          ret True }
      | _ \<Rightarrow> ret False)"

definition refuse_open :: "('w, 'c) api_env \<Rightarrow> string \<Rightarrow> open_err \<Rightarrow> ('w, 'c, unit) api_act" where
  "refuse_open A modelID err = do {
     stake \<leftarrow> writeStakeRefusal A modelID err;
     if stake then ret ()
     else (case err of
        NoEligibleProvider \<Rightarrow> emit (Answer (typed_error 503 ''no_eligible_provider'' ''no eligible provider for this model''))
      | NoAvailable d why \<Rightarrow> do {
          _ \<leftarrow> auditProviderUnavailable A modelID (noAvailableOutcome why);
          emit (Answer (writeNoAvailableProvider d why)) }
      | WalletNeedsFunds \<Rightarrow> emit (Answer writeWalletNeedsFunds)
      | _ \<Rightarrow> emit (Answer (openai_error 502 ''failed to open session''))) }"

definition acquireSession ::
  "('w, 'c) api_env \<Rightarrow> string \<Rightarrow> string \<Rightarrow> call_limits \<Rightarrow> ('w, 'c, (lease \<times> acquire_result) option) api_act" where
  "acquireSession A keyID modelID cl = do {
     r \<leftarrow> in_pool (AcquireCtx (ae_pool A) modelID keyID (cl_durationSec cl));
     _ \<leftarrow> (case r of Inl e \<Rightarrow> ret () | Inr (l, res) \<Rightarrow> emit (LeaseTaken (ls_session l)));
     gone \<leftarrow> in_pool (check_ctx (ae_pool A) True);
     if gone \<noteq> None then do {
       _ \<leftarrow> (case r of
              Inl e \<Rightarrow> ret None
            | Inr (l, res) \<Rightarrow> do {
                _ \<leftarrow> track_open A (ar_Opened res) (ar_SessionID res) keyID modelID;
                done_lease A (Some l) });
       _ \<leftarrow> emit ClientGone;
       ret None }
     else (case r of
         Inl e \<Rightarrow> do { _ \<leftarrow> refuse_open A modelID e; ret None }
       | Inr (l, res) \<Rightarrow> do {
           _ \<leftarrow> track_open A (ar_Opened res) (ar_SessionID res) keyID modelID;
           ret (Some (l, res)) }) }"

subsection \<open>Attempts\<close>

definition forward ::
  "('w, 'c) api_env \<Rightarrow> string \<Rightarrow> string \<Rightarrow> string \<Rightarrow> forward_opts \<Rightarrow> bool \<Rightarrow> ('w, 'c, fwd_err + forward_result) api_act" where
  "forward A path sid body fo probe = do {
     _ \<leftarrow> emit (Forwarded path sid probe);
     a \<leftarrow> in_pool (ask (ae_pool A) (ae_reply A path sid body fo));
     now \<leftarrow> in_pool (clock (ae_pool A));
     r \<leftarrow> in_client A (ForwardWith now (fst a) (snd a) probe);
     _ \<leftarrow> (if snd r = [] then ret () else emit (Streamed (snd r)));
     ret (fst r) }"

definition relay_error :: "('w, 'c) api_env \<Rightarrow> fwd_err \<Rightarrow> ('w, 'c, unit) api_act" where
  "relay_error A err = emit (RelayedError (relayRouterError (ae_marshal A) err))"

definition failover_outcome :: "open_err \<Rightarrow> string" where
  "failover_outcome e =
     (case e of
        NoAlternate \<Rightarrow> ''no_alternate''
      | NoAvailable d why \<Rightarrow> ''no_available''
      | WalletNeedsFunds \<Rightarrow> ''wallet_funds''
      | StakeLimitExceeded n c d \<Rightarrow> ''stake_limit_exceeded''
      | StakeLimitInvalid \<Rightarrow> ''stake_limit_invalid''
      | _ \<Rightarrow> ''reopen_failed'')"

definition failover_refused :: "('w, 'c) api_env \<Rightarrow> string \<Rightarrow> open_err \<Rightarrow> fwd_err \<Rightarrow> ('w, 'c, unit) api_act" where
  "failover_refused A modelID e firstErr =
     (if e = WalletNeedsFunds then emit (Answer writeWalletNeedsFunds)
      else do {
        stake \<leftarrow> writeStakeRefusal A modelID e;
        if stake then ret () else relay_error A firstErr })"

text \<open>What an attempt leaves: the result (none: already answered), the session it ran on and the lease.\<close>

type_synonym attempt_end = "forward_result option \<times> string \<times> lease option"

text \<open>The one retry, on the replacement: \<open>audit\<close> writes the event unless another request did the failover.\<close>

definition retry_on ::
  "('w, 'c) api_env \<Rightarrow> string \<Rightarrow> string \<Rightarrow> forward_opts \<Rightarrow> string \<Rightarrow> (string \<Rightarrow> ('w, 'c, unit) api_act) \<Rightarrow>
   failover_result \<Rightarrow> lease \<Rightarrow> ('w, 'c, attempt_end) api_act" where
  "retry_on A path body fo modelID audit fr l = do {
     r \<leftarrow> forward A path (fr_SessionID fr) body fo True;
     (case r of
        Inl (TimeoutErr kind) \<Rightarrow> do {
          _ \<leftarrow> done_lease A (Some l);
          _ \<leftarrow> emit (Answer (writeTimeout504 kind));
          ret (None, [], None) }
      | Inl err \<Rightarrow> do {
          _ \<leftarrow> (if classifyForwardError path err = DecFailover
               then in_pool (MarkSessionCooling (ae_pool A) modelID (fr_SessionID fr)) else ret []);
          _ \<leftarrow> (if fr_Replaced fr then ret () else audit ''retry_failed'');
          _ \<leftarrow> done_lease A (Some l);
          _ \<leftarrow> relay_error A err;
          ret (None, [], None) }
      | Inr res \<Rightarrow> do {
          _ \<leftarrow> (if fr_Replaced fr then ret () else audit ''retried_ok'');
          ret (Some res, fr_SessionID fr, Some l) }) }"

definition failoverAndRetry ::
  "('w, 'c) api_env \<Rightarrow> string \<Rightarrow> string \<Rightarrow> string \<Rightarrow> string \<Rightarrow> string \<Rightarrow> string \<Rightarrow> int \<Rightarrow> forward_opts \<Rightarrow> fwd_err \<Rightarrow>
   ('w, 'c, attempt_end) api_act" where
  "failoverAndRetry A path body keyID reqModel modelID failedID durationSec fo firstErr = do {
     f \<leftarrow> in_pool (FailoverCtx (ae_pool A) modelID failedID keyID durationSec True);
     (let fr = fst f;
          audit = (\<lambda>outcome. emit (FailoverAudit reqModel failedID (fr_FailedProvider fr) (statusClass firstErr) outcome))
      in do {
        _ \<leftarrow> (case fr_Lease fr of None \<Rightarrow> ret () | Some l \<Rightarrow> emit (LeaseTaken (ls_session l)));
        _ \<leftarrow> (if fr_CloseFailed fr then audit ''close_failed'' else ret ());
        (case snd f of
           Some e \<Rightarrow> do {
             _ \<leftarrow> audit (failover_outcome e);
             _ \<leftarrow> failover_refused A modelID e firstErr;
             ret (None, [], None) }
         | None \<Rightarrow> do {
             _ \<leftarrow> track_open A (fr_Opened fr) (fr_SessionID fr) keyID modelID;
             (case fr_Lease fr of
                None \<Rightarrow> do { _ \<leftarrow> relay_error A firstErr; ret (None, [], None) }
              | Some l \<Rightarrow> retry_on A path body fo modelID audit fr l) }) }) }"

text \<open>A dead session: its lease ends, the pool forgets it, and the request runs once more on another one.\<close>

definition reopen_dead ::
  "('w, 'c) api_env \<Rightarrow> string \<Rightarrow> string \<Rightarrow> string \<Rightarrow> string \<Rightarrow> call_limits \<Rightarrow> forward_opts \<Rightarrow> lease \<Rightarrow>
   ('w, 'c, attempt_end) api_act" where
  "reopen_dead A path body keyID modelID cl fo l = do {
     _ \<leftarrow> done_lease A (Some l);
     _ \<leftarrow> in_pool (mu_do (ae_pool A) (\<lambda>t m. Invalidate modelID m));
     a \<leftarrow> acquireSession A keyID modelID cl;
     (case a of
        None \<Rightarrow> ret (None, [], None)
      | Some (l2, res2) \<Rightarrow> do {
          r \<leftarrow> forward A path (ar_SessionID res2) body fo False;
          (case r of
             Inl (TimeoutErr kind) \<Rightarrow> do { _ \<leftarrow> emit (Answer (writeTimeout504 kind)); ret (None, [], Some l2) }
           | Inl err \<Rightarrow> do { _ \<leftarrow> emit (Answer (openai_error 502 ''inference failed'')); ret (None, [], Some l2) }
           | Inr res \<Rightarrow> ret (Some res, ar_SessionID res2, Some l2)) }) }"

definition attempts ::
  "('w, 'c) api_env \<Rightarrow> string \<Rightarrow> string \<Rightarrow> string \<Rightarrow> string \<Rightarrow> string \<Rightarrow> call_limits \<Rightarrow> forward_opts \<Rightarrow> lease \<Rightarrow> acquire_result \<Rightarrow>
   ('w, 'c, attempt_end) api_act" where
  "attempts A path body keyID reqModel modelID cl fo l res0 =
     (let sid = ar_SessionID res0 in do {
        r \<leftarrow> forward A path sid body fo True;
        (case r of
           Inr res \<Rightarrow> ret (Some res, sid, Some l)
         | Inl (TimeoutErr kind) \<Rightarrow> do { _ \<leftarrow> emit (Answer (writeTimeout504 kind)); ret (None, sid, Some l) }
         | Inl err \<Rightarrow>
             (case classifyForwardError path err of
                DecTransport \<Rightarrow> do { _ \<leftarrow> emit (Answer (openai_error 502 ''inference failed'')); ret (None, sid, Some l) }
              | DecSessionDead \<Rightarrow> reopen_dead A path body keyID modelID cl fo l
              | DecFailover \<Rightarrow>
                  if ae_failover A then do {
                    _ \<leftarrow> done_lease A (Some l);
                    failoverAndRetry A path body keyID reqModel modelID sid (cl_durationSec cl) fo err }
                  else do { _ \<leftarrow> relay_error A err; ret (None, sid, Some l) }
              | DecRelay \<Rightarrow> do { _ \<leftarrow> relay_error A err; ret (None, sid, Some l) })) })"

subsection \<open>The handler\<close>

text \<open>After the answer: a provider's fault in a stream retires the session later, and the call is recorded.\<close>

definition after_answer ::
  "('w, 'c) api_env \<Rightarrow> string \<Rightarrow> string \<Rightarrow> string \<Rightarrow> int \<Rightarrow> forward_result \<Rightarrow> string \<Rightarrow> ('w, 'c, unit) api_act" where
  "after_answer A keyID reqModel modelID durationSec res sid = do {
     _ \<leftarrow> (if fw_MidStreamProviderError res \<and> ae_failover A
          then emit (RetireLater reqModel sid durationSec (fw_MidStreamStatus res)) else ret ());
     _ \<leftarrow> emit (Recorded keyID modelID (fw_PromptTokens res) (fw_CompletionTokens res));
     now \<leftarrow> in_pool (clock (ae_pool A));
     _ \<leftarrow> in_store A (RecordUsage (ae_store A) now keyID modelID
            (word_of_int (fw_PromptTokens res)) (word_of_int (fw_CompletionTokens res)));
     ret () }"

record infer_req =
  rq_auth :: string                        \<comment> \<open>the \<open>Authorization\<close> header\<close>
  rq_body :: "string option"               \<comment> \<open>\<open>None\<close>: reading it failed\<close>
  rq_values :: "string \<Rightarrow> string list"

text \<open>From the lease on: the lease current at the end is ended whatever happened.\<close>

definition with_session ::
  "('w, 'c) api_env \<Rightarrow> string \<Rightarrow> string \<Rightarrow> string \<Rightarrow> string \<Rightarrow> string \<Rightarrow> call_limits \<Rightarrow> lease \<times> acquire_result \<Rightarrow>
   ('w, 'c, unit) api_act" where
  "with_session A path body keyID reqModel modelID cl a = do {
     _ \<leftarrow> (case setTimeoutHeaders cl of None \<Rightarrow> ret () | Some (k, v) \<Rightarrow> emit (SetHeader k v));
     out \<leftarrow> attempts A path body keyID reqModel modelID cl (forwardOpts cl (bodyStream body)) (fst a) (snd a);
     _ \<leftarrow> (case fst out of
            None \<Rightarrow> ret ()
          | Some res \<Rightarrow> after_answer A keyID reqModel modelID (cl_durationSec cl) res (fst (snd out)));
     _ \<leftarrow> done_lease A (snd (snd out));
     ret () }"

definition handleInference :: "('w, 'c) api_env \<Rightarrow> string \<Rightarrow> string \<Rightarrow> infer_req \<Rightarrow> ('w, 'c, unit) api_act" where
  "handleInference A path keyID rq =
     (case rq_body rq of
        None \<Rightarrow> emit (Answer (openai_error 400 ''failed to read request body''))
      | Some body \<Rightarrow>
          (case validateInferenceBody body (path = ''/v1/chat/completions'') of
             Inl msg \<Rightarrow> emit (Answer (openai_error 400 msg))
           | Inr reqModel \<Rightarrow> do {
               m \<leftarrow> in_cat (Resolve (ae_cat A) reqModel);
               (case m of
                  Inl e \<Rightarrow> emit (Answer (openai_error 404 (ae_resolve_text A e)))
                | Inr modelID \<Rightarrow> do {
                    _ \<leftarrow> emit (Resolved modelID);
                    (case parseCallLimits (ae_durationMax A) (ae_forwardIdle A) (rq_values rq) of
                       (cl, msg) \<Rightarrow>
                         if msg \<noteq> [] then emit (Answer (openai_error 400 msg))
                         else do {
                           a \<leftarrow> acquireSession A keyID modelID cl;
                           (case a of
                              None \<Rightarrow> ret ()
                            | Some la \<Rightarrow> with_session A path body keyID reqModel modelID cl la) }) }) }))"

text \<open>The route: the key gate, then the handler under the key it found. The log is the request's own.\<close>

definition serve_inference :: "('w, 'c) api_env \<Rightarrow> string \<Rightarrow> infer_req \<Rightarrow> ('w, 'c, unit) api_act" where
  "serve_inference A path rq = do {
     _ \<leftarrow> State (\<lambda>s. ((), s\<lparr>ap_log := []\<rparr>));
     g \<leftarrow> in_store A (requireAPIKey (ae_store A) (ae_master A) (ae_prompt A) (rq_auth rq));
     (case g of
        Unauthorized msg \<Rightarrow> emit (Answer (openai_error 401 msg))
      | Caller keyID \<Rightarrow> do { _ \<leftarrow> emit (Authenticated keyID); handleInference A path keyID rq }) }"

subsection \<open>After a cut stream\<close>

definition stream_class :: "int \<Rightarrow> string" where
  "stream_class status = (if status = 0 then ''stream_cut'' else if status \<ge> 500 then ''5xx'' else show_int status)"

text \<open>The environment of a goroutine under \<open>context.Background\<close>: no request ends its waits.\<close>

definition background :: "'w env \<Rightarrow> 'w env" where
  "background E = E\<lparr>en_ctx := (\<lambda>w. None), en_sleep := (\<lambda>d w. (False, snd (en_sleep E d w))),
     en_wait := (\<lambda>n p w. case en_wait E n p w of (r, pw) \<Rightarrow> (map_option (\<lambda>_. SlotBusy) r, pw))\<rparr>"

text \<open>The goroutine of \<open>afterStreamProviderError\<close>: the failed session is retired, nothing is opened.\<close>

definition retire_after_stream ::
  "('w, 'c) api_env \<Rightarrow> string \<Rightarrow> string \<Rightarrow> string \<Rightarrow> int \<Rightarrow> int \<Rightarrow> ('w, 'c, unit) api_act" where
  "retire_after_stream A reqModel modelID sid durationSec status = do {
     f \<leftarrow> in_pool (FailoverCtx (background (ae_pool A)) modelID sid [] durationSec False);
     (let fr = fst f; audit = (\<lambda>outcome. emit (FailoverAudit reqModel sid (fr_FailedProvider fr) (stream_class status) outcome)) in
      if fr_Replaced fr then ret ()
      else do {
        _ \<leftarrow> (if fr_CloseFailed fr then audit ''close_failed'' else ret ());
        audit (case snd f of None \<Rightarrow> ''stream_retired'' | Some NoAlternate \<Rightarrow> ''no_alternate'' | Some _ \<Rightarrow> ''reopen_failed'') }) }"

subsection \<open>Releasing a session\<close>

definition releaseBodyMax :: nat where "releaseBodyMax = 2 ^ 10"

definition json_space :: "char \<Rightarrow> bool" where
  "json_space c \<longleftrightarrow> c \<in> {CHR '' '', CHR 0x09, CHR 0x0A, CHR 0x0D}"

text \<open>
  The first JSON value of a stream and what follows it. A body over the limit reads as its first
  \<open>releaseBodyMax\<close> bytes and then an error; \<open>dec.More\<close> looks at the next byte that is not a space.
\<close>

definition first_value :: "string \<Rightarrow> (json \<times> string) option" where
  "first_value b = (case find (\<lambda>n. json_parse (take n b) \<noteq> None) [0..<Suc (length b)] of
     None \<Rightarrow> None | Some n \<Rightarrow> map_option (\<lambda>v. (v, drop n b)) (json_parse (take n b)))"

definition more_follows :: "string \<Rightarrow> bool" where
  "more_follows rest = (case dropWhile json_space rest of [] \<Rightarrow> False | c # _ \<Rightarrow> c \<noteq> CHR '']'' \<and> c \<noteq> CHR ''}'')"

definition release_model :: "string \<Rightarrow> string option" where
  "release_model body =
     (case first_value (take releaseBodyMax body) of
        Some (JObj kvs, rest) \<Rightarrow>
          (case str_field ''model'' kvs of (ok, m) \<Rightarrow>
             if ok \<and> list_all (\<lambda>(k, v). equal_fold k ''model'') kvs \<and> m \<noteq> [] \<and> \<not> more_follows rest then Some m else None)
      | _ \<Rightarrow> None)"

fun reason_text :: "release_reason \<Rightarrow> string" where
  "reason_text Shared = ''shared''"
| "reason_text InFlightStill = ''in_flight''"
| "reason_text NotHeld = ''not_held''"
| "reason_text ClosingSoon = ''closing''"

text \<open>The answer: refused, or whether the key's hold was released and why the session is not closed yet.\<close>

datatype release_answer = ReleaseRefused own_answer | Released bool string

definition isSharedKey :: "string \<Rightarrow> bool" where
  "isSharedKey keyID \<longleftrightarrow> keyID = MasterKeyID \<or> keyID = PromptKeyID"

definition handleSessionRelease :: "('w, 'c) api_env \<Rightarrow> string \<Rightarrow> string \<Rightarrow> ('w, 'c, release_answer) api_act" where
  "handleSessionRelease A keyID body =
     (if keyID = [] then ret (ReleaseRefused (openai_error 401 ''missing key identity''))
      else if \<not> ae_release A then ret (ReleaseRefused (typed_error 403 ''release_disabled'' ''session release is turned off''))
      else if isSharedKey keyID
      then ret (ReleaseRefused (typed_error 403 ''shared_key'' ''shared keys hold no sessions of their own''))
      else (case release_model body of
          None \<Rightarrow> ret (ReleaseRefused (openai_error 400
            (''body must be {'' @ quoted_text ''model'' @ '': '' @ quoted_text ''<name or id>'' @ ''} (at most 1 KiB)'')))
        | Some model \<Rightarrow> do {
            m \<leftarrow> in_cat (Resolve (ae_cat A) model);
            (case m of
               Inl e \<Rightarrow> ret (ReleaseRefused (openai_error 404 ''unknown model''))
             | Inr modelID \<Rightarrow> do {
                 out \<leftarrow> in_pool (ReleaseModel (ae_pool A) modelID keyID);
                 label \<leftarrow> model_label A modelID;
                 _ \<leftarrow> emit (ReleaseAudit keyID (if fst out then reason_text (snd out) else ''not_held'') label);
                 ret (Released (fst out) (reason_text (snd out))) }) }))"

end
