(* ===== verification/Inference_Props.thy ===== *)
theory Inference_Props
  imports Inference
begin

section \<open>What an inference request does\<close>

text \<open>
  The order of events of a request, as an abstract protocol (an automaton over the log), and the refinement:
  every run of the handler, whatever the router, the pool and the other requests do, is a run of the protocol
  that ends in a final phase.
\<close>

subsection \<open>The protocol\<close>

datatype reply = Unanswered | Refused | Served

record phase =
  ph_key :: "string option"
  ph_model :: "string option"
  ph_held :: "string option"        \<comment> \<open>the session the request holds a lease on\<close>
  ph_sent :: nat
  ph_reply :: reply
  ph_paid :: bool

definition at_start :: phase where
  "at_start = \<lparr>ph_key = None, ph_model = None, ph_held = None, ph_sent = 0, ph_reply = Unanswered, ph_paid = False\<rparr>"

definition go_if :: "bool \<Rightarrow> phase \<Rightarrow> phase option" where "go_if b p = (if b then Some p else None)"

fun proto_step :: "api_ev \<Rightarrow> phase \<Rightarrow> phase option" where
  "proto_step (Authenticated k) p = go_if (ph_key p = None \<and> ph_reply p = Unanswered) (p\<lparr>ph_key := Some k\<rparr>)"
| "proto_step (Resolved m) p =
     go_if (ph_key p \<noteq> None \<and> ph_model p = None \<and> ph_reply p = Unanswered) (p\<lparr>ph_model := Some m\<rparr>)"
| "proto_step (LeaseTaken i) p =
     go_if (ph_model p \<noteq> None \<and> ph_held p = None \<and> ph_reply p = Unanswered) (p\<lparr>ph_held := Some i\<rparr>)"
| "proto_step (LeaseEnded i) p = go_if (ph_held p = Some i) (p\<lparr>ph_held := None\<rparr>)"
| "proto_step (Forwarded path i probe) p =
     go_if (ph_held p = Some i \<and> ph_reply p = Unanswered \<and> ph_sent p < 2) (p\<lparr>ph_sent := Suc (ph_sent p)\<rparr>)"
| "proto_step (Streamed w) p =
     go_if (ph_held p \<noteq> None \<and> 0 < ph_sent p \<and> ph_reply p = Unanswered \<and> headers_sent w = 1) (p\<lparr>ph_reply := Served\<rparr>)"
| "proto_step (Answer a) p = go_if (ph_reply p = Unanswered) (p\<lparr>ph_reply := Refused\<rparr>)"
| "proto_step (RelayedError r) p = go_if (ph_reply p = Unanswered \<and> 0 < ph_sent p) (p\<lparr>ph_reply := Refused\<rparr>)"
| "proto_step ClientGone p = go_if (ph_reply p = Unanswered \<and> ph_held p = None) (p\<lparr>ph_reply := Refused\<rparr>)"
| "proto_step (Recorded k m pt ct) p =
     go_if (ph_key p = Some k \<and> ph_model p = Some m \<and> ph_held p \<noteq> None \<and> ph_reply p = Served \<and> \<not> ph_paid p) (p\<lparr>ph_paid := True\<rparr>)"
| "proto_step (SetHeader k v) p = go_if (ph_reply p = Unanswered) p"
| "proto_step (Unavailable l r) p = Some p"
| "proto_step (FailoverAudit a b c d e) p = Some p"
| "proto_step (ReleaseAudit a b c) p = Some p"
| "proto_step (RetireLater a b c d) p = go_if (ph_reply p = Served) p"

definition protocol :: "api_ev list \<Rightarrow> phase option" where
  "protocol es = foldl (\<lambda>r e. Option.bind r (proto_step e)) (Some at_start) es"

definition final :: "phase \<Rightarrow> bool" where
  "final p \<longleftrightarrow> ph_held p = None \<and> ph_reply p \<noteq> Unanswered \<and> ph_paid p = (ph_reply p = Served)"

lemma protocol_snoc [simp]: "protocol (es @ [e]) = Option.bind (protocol es) (proto_step e)"
  by (simp add: protocol_def)

subsection \<open>Phases along a computation\<close>

definition in_phase :: "phase \<Rightarrow> ('w, 'c) api \<Rightarrow> bool" where
  "in_phase p s \<longleftrightarrow> protocol (ap_log s) = Some p"

lemma phase_emit: "proto_step e p = Some q \<Longrightarrow> triple (in_phase p) (emit e) (\<lambda>_. in_phase q)"
  by (simp add: triple_def emit_def in_phase_def)

text \<open>A computation whose result always satisfies \<open>P\<close>.\<close>

definition gives :: "('a \<Rightarrow> bool) \<Rightarrow> ('s, 'a) state \<Rightarrow> bool" where
  "gives P f \<longleftrightarrow> (\<forall>s. P (fst (run_state f s)))"

named_theorems gives_intro \<open>computations whose result satisfies a predicate\<close>

lemma gives_ret: "P a \<Longrightarrow> gives P (ret a)"
  by (simp add: gives_def)

lemma gives_bind: "gives Q f \<Longrightarrow> (\<And>a. Q a \<Longrightarrow> gives P (g a)) \<Longrightarrow> gives P (f \<bind> g)"
  by (auto simp: gives_def State_Monad.run_state_bind split: prod.splits)
    (metis fst_conv)

lemma gives_any: "gives (\<lambda>_. True) f"
  by (simp add: gives_def)

lemma gives_seq [gives_intro]: "(\<And>a. gives P (g a)) \<Longrightarrow> gives P (f \<bind> g)"
  by (rule gives_bind [OF gives_any])

lemma gives_if [gives_intro]: "(b \<Longrightarrow> gives P f) \<Longrightarrow> (\<not> b \<Longrightarrow> gives P g) \<Longrightarrow> gives P (if b then f else g)"
  by simp

lemma gives_option [gives_intro]:
  "(r = None \<Longrightarrow> gives P f) \<Longrightarrow> (\<And>x. r = Some x \<Longrightarrow> gives P (g x)) \<Longrightarrow> gives P (case r of None \<Rightarrow> f | Some x \<Rightarrow> g x)"
  by (cases r) simp_all

lemma gives_sum [gives_intro]:
  "(\<And>x. gives P (f x)) \<Longrightarrow> (\<And>x. gives P (g x)) \<Longrightarrow> gives P (case r of Inl x \<Rightarrow> f x | Inr x \<Rightarrow> g x)"
  by (cases r) simp_all

lemma gives_prod [gives_intro]: "(\<And>x y. gives P (f x y)) \<Longrightarrow> gives P (case r of (x, y) \<Rightarrow> f x y)"
  by (cases r) simp

lemma gives_mu: "(\<And>t m. P (fst (f t m))) \<Longrightarrow> gives P (with_mu E f)"
  by (simp add: gives_def with_mu_def on_pool_def State_Monad.run_state_bind split_beta)

lemma phase_pool: "gives G f \<Longrightarrow> triple (in_phase p) (in_pool f) (\<lambda>a s. G a \<and> in_phase p s)"
  by (auto simp: triple_def gives_def in_pool_def in_phase_def split: prod.splits) (metis fst_conv)

lemma phase_quiet:
  "triple (in_phase p) (in_pool f) (\<lambda>_. in_phase p)"
  "triple (in_phase p) (in_cat g) (\<lambda>_. in_phase p)"
  "triple (in_phase p) (in_store A h) (\<lambda>_. in_phase p)"
  "triple (in_phase p) (in_client A i) (\<lambda>_. in_phase p)"
  by (auto simp: triple_def in_phase_def in_pool_def in_cat_def in_store_def in_client_def split: prod.splits)

lemma phase_after: "triple P f (\<lambda>_. R) \<Longrightarrow> (\<And>a. triple R (g a) Q) \<Longrightarrow> triple P (f \<bind> g) Q"
  by (rule triple_bind)

lemma phase_ret: "(\<And>s. in_phase p s \<Longrightarrow> Q a s) \<Longrightarrow> triple (in_phase p) (ret a) Q"
  by (rule triple_ret)

lemmas phase_skip = phase_after [OF phase_quiet(1)] phase_after [OF phase_quiet(2)]
  phase_after [OF phase_quiet(3)] phase_after [OF phase_quiet(4)]

subsection \<open>The leases the pool hands out\<close>

definition fresh :: "lease \<Rightarrow> string \<Rightarrow> bool" where
  "fresh l i \<longleftrightarrow> \<not> ls_done l \<and> ls_session l = i"

definition acquired_ok :: "acquired \<Rightarrow> bool" where
  "acquired_ok r = (case r of Inl e \<Rightarrow> True | Inr (l, res) \<Rightarrow> fresh l (ar_SessionID res))"

lemma leaseLocked_fresh: "fresh (fst (leaseLocked now i k m)) i"
  by (simp add: leaseLocked_def fresh_def)

lemma tryPooled_fresh: "fst (tryPooledLocked now key keyID m) = Some l \<Longrightarrow> \<not> ls_done l"
  by (auto simp: tryPooledLocked_def leaseLocked_def Let_def split: option.splits prod.splits if_splits)

lemma gives_try_pooled: "gives (\<lambda>r. \<forall>l. r = Some l \<longrightarrow> \<not> ls_done l) (try_pooled E key keyID)"
  unfolding try_pooled_def by (rule gives_mu) (auto dest: tryPooled_fresh)

lemma from_pool_ok: "\<not> ls_done l \<Longrightarrow> acquired_ok (from_pool l d)"
  by (simp add: acquired_ok_def from_pool_def fresh_def)

lemma pool_and_lease_fresh: "fresh (fst (pool_and_lease t key got d k m)) (or_id got)"
  by (simp add: pool_and_lease_def leaseLocked_fresh)

lemma opened_ok: "fresh l (or_id got) \<Longrightarrow> acquired_ok (opened_result got d openDur l)"
  by (simp add: acquired_ok_def opened_result_def)

lemma acquired_Inl [simp]: "acquired_ok (Inl e)"
  by (simp add: acquired_ok_def)

lemma gives_acquire_open: "gives acquired_ok (acquire_open E modelID keyID d tok sc)"
  unfolding acquire_open_def Let_def
  by (intro gives_intro gives_ret gives_bind [OF gives_mu [where P = "\<lambda>l. fresh l (or_id _)"]])
    (auto intro: opened_ok simp: pool_and_lease_fresh)

lemma gives_pool_hit:
  "gives acquired_ok f \<Longrightarrow>
   gives acquired_ok (try_pooled E key keyID \<bind> (\<lambda>hit. case hit of Some l \<Rightarrow> ret (from_pool l d) | None \<Rightarrow> f))"
  by (rule gives_bind [OF gives_try_pooled]) (auto intro: gives_ret from_pool_ok split: option.split)

lemma gives_acquire_held: "gives acquired_ok (acquire_held E modelID keyID d tok)"
  unfolding acquire_held_def
  by (intro gives_pool_hit gives_intro gives_acquire_open gives_ret) simp_all

lemma gives_AcquireCtx: "gives acquired_ok (AcquireCtx E modelID keyID asked)"
  unfolding AcquireCtx_def
  by (intro gives_pool_hit gives_intro gives_ret gives_bind [OF gives_acquire_held]) simp_all

text \<open>A failover hands out a lease on the session it names, and none with an error.\<close>

definition failover_ok :: "failover_answer \<Rightarrow> bool" where
  "failover_ok r = (case r of (fr, e) \<Rightarrow>
     (case fr_Lease fr of None \<Rightarrow> True | Some l \<Rightarrow> e = None \<and> fresh l (fr_SessionID fr)))"

lemma no_lease_ok: "fr_Lease fr = None \<Longrightarrow> failover_ok (fr, e)"
  by (simp add: failover_ok_def)

lemma gives_finish:
  "fr_Lease res = None \<Longrightarrow> gives failover_ok (finishFailoverOpen E key keyID got d res)"
  unfolding finishFailoverOpen_def
  by (rule gives_sum, simp add: gives_ret no_lease_ok, rule gives_bind [OF gives_mu [where P = "\<lambda>l. fresh l (or_id _)"]])
    (auto simp: failover_ok_def leaseLocked_fresh intro: gives_ret)

lemma gives_close: "fr_Lease res = None \<Longrightarrow> gives (\<lambda>r. fr_Lease r = None) (failover_close E key failedID endsAt res)"
  unfolding failover_close_def by (rule gives_seq, rule gives_seq, rule gives_seq, rule gives_if, rule gives_seq, rule gives_if)
    (auto intro!: gives_ret gives_seq)

lemma gives_swap:
  "fr_Lease res = None \<Longrightarrow> gives failover_ok (failover_swap E modelID failedID keyID d reopen prov endsAt cands res)"
  unfolding failover_swap_def
  by (intro gives_bind [OF gives_close] gives_intro gives_ret gives_finish no_lease_ok) simp_all

lemma gives_away:
  "fr_Lease res = None \<Longrightarrow> gives failover_ok (failover_away E modelID failedID keyID d reopen res)"
  unfolding failover_away_def Let_def
  by (intro gives_intro gives_ret gives_swap no_lease_ok) simp_all

lemma gives_again:
  "fr_Lease res = None \<Longrightarrow> gives failover_ok (failover_again E modelID keyID d reopen res)"
  unfolding failover_again_def Let_def
  by (intro gives_intro gives_ret gives_finish no_lease_ok) simp_all

lemma swapped_ok:
  "fr_Lease res = None \<Longrightarrow> fst (already_swapped t key failedID keyID reopen res m) = Some r \<Longrightarrow> failover_ok (r, None)"
  by (auto simp: already_swapped_def Let_def failover_ok_def fresh_def leaseLocked_def split: option.splits if_splits prod.splits)

lemma gives_FailoverCtx: "gives failover_ok (FailoverCtx E modelID failedID keyID asked reopen)"
  unfolding FailoverCtx_def Let_def
  by (rule gives_seq, rule gives_seq, rule gives_seq, rule gives_seq,
      rule gives_bind [OF gives_mu [where P = "\<lambda>x. \<forall>r. x = Some r \<longrightarrow> failover_ok (r, None)"]])
    (auto intro!: gives_seq gives_again gives_away gives_ret gives_if split: option.split dest: swapped_ok [rotated] simp: no_failover_def)

subsection \<open>The handler runs the protocol\<close>

text \<open>The phases of an authenticated request for a resolved model.\<close>

definition ph :: "string \<Rightarrow> string \<Rightarrow> string option \<Rightarrow> nat \<Rightarrow> reply \<Rightarrow> phase" where
  "ph k m h n r = \<lparr>ph_key = Some k, ph_model = Some m, ph_held = h, ph_sent = n, ph_reply = r, ph_paid = False\<rparr>"

lemma ph_fields [simp]:
  "ph_key (ph k m h n r) = Some k" "ph_model (ph k m h n r) = Some m" "ph_held (ph k m h n r) = h"
  "ph_sent (ph k m h n r) = n" "ph_reply (ph k m h n r) = r" "\<not> ph_paid (ph k m h n r)"
  by (simp_all add: ph_def)

lemma ph_updates [simp]:
  "(ph k m h n r)\<lparr>ph_held := h'\<rparr> = ph k m h' n r" "(ph k m h n r)\<lparr>ph_sent := n'\<rparr> = ph k m h n' r"
  "(ph k m h n r)\<lparr>ph_reply := r'\<rparr> = ph k m h n r'"
  by (simp_all add: ph_def)

lemma done_fresh:
  assumes "\<not> ls_done l" and "ph_held p = Some (ls_session l)"
  shows "triple (in_phase p) (done_lease A (Some l)) (\<lambda>_. in_phase (p\<lparr>ph_held := None\<rparr>))"
  unfolding done_lease_def option.case using assms
  by (intro triple_bind [where R = "\<lambda>_. in_phase (p\<lparr>ph_held := None\<rparr>)"] triple_if phase_quiet phase_emit phase_ret)
    (auto simp: go_if_def)

lemma done_nil: "triple (in_phase p) (done_lease A None) (\<lambda>_. in_phase p)"
  by (simp add: done_lease_def phase_ret)

lemma phase_same:
  "triple (in_phase p) (model_label A i) (\<lambda>_. in_phase p)"
  "triple (in_phase p) (auditProviderUnavailable A i r) (\<lambda>_. in_phase p)"
  "triple (in_phase p) (track_open A b sid keyID i) (\<lambda>_. in_phase p)"
proof -
  show l: "triple (in_phase p) (model_label A i) (\<lambda>_. in_phase p)"
    unfolding model_label_def by (intro phase_skip phase_ret)
  show "triple (in_phase p) (auditProviderUnavailable A i r) (\<lambda>_. in_phase p)"
    unfolding auditProviderUnavailable_def by (intro phase_after [OF l] phase_emit) simp
  show "triple (in_phase p) (track_open A b sid keyID i) (\<lambda>_. in_phase p)"
    unfolding track_open_def by (intro triple_if phase_skip phase_quiet phase_ret)
qed

lemma answered: "triple (in_phase (ph k m h n Unanswered)) (emit (Answer a)) (\<lambda>_. in_phase (ph k m h n Refused))"
  by (rule phase_emit) (simp add: go_if_def)

lemma relayed_answer:
  "0 < n \<Longrightarrow> triple (in_phase (ph k m h n Unanswered)) (relay_error A e) (\<lambda>_. in_phase (ph k m h n Refused))"
  unfolding relay_error_def by (rule phase_emit) (simp add: go_if_def)

definition if_answered :: "string \<Rightarrow> string \<Rightarrow> string option \<Rightarrow> nat \<Rightarrow> bool \<Rightarrow> ('w, 'c) api \<Rightarrow> bool" where
  "if_answered k m h n b = in_phase (ph k m h n (if b then Refused else Unanswered))"

lemma stake_refusal:
  "triple (in_phase (ph k m h n Unanswered)) (writeStakeRefusal A i e) (\<lambda>b. if_answered k m h n b)"
  unfolding writeStakeRefusal_def if_answered_def
  by (cases e; simp; intro phase_skip phase_after [OF phase_same(2)] phase_after [OF answered] phase_ret; simp)

lemma refuse_answers:
  "triple (in_phase (ph k m h n Unanswered)) (refuse_open A i e) (\<lambda>_. in_phase (ph k m h n Refused))"
  unfolding refuse_open_def
proof (rule triple_bind [OF stake_refusal], rule triple_if)
  fix b assume b: "b"
  show "triple (if_answered k m h n b) (ret ()) (\<lambda>_. in_phase (ph k m h n Refused))"
    using b by (simp add: if_answered_def phase_ret)
next
  fix b assume b: "\<not> b"
  show "triple (if_answered k m h n b) (case e of
        NoEligibleProvider \<Rightarrow> emit (Answer (typed_error 503 ''no_eligible_provider'' ''no eligible provider for this model''))
      | NoAvailable d why \<Rightarrow> do {
          _ \<leftarrow> auditProviderUnavailable A i (noAvailableOutcome why);
          emit (Answer (writeNoAvailableProvider d why)) }
      | WalletNeedsFunds \<Rightarrow> emit (Answer writeWalletNeedsFunds)
      | _ \<Rightarrow> emit (Answer (openai_error 502 ''failed to open session''))) (\<lambda>_. in_phase (ph k m h n Refused))"
    using b by (cases e; simp add: if_answered_def; intro phase_after [OF phase_same(2)] answered)
qed

lemma failover_refused_answers:
  "0 < n \<Longrightarrow> triple (in_phase (ph k m h n Unanswered)) (failover_refused A i e err) (\<lambda>_. in_phase (ph k m h n Refused))"
  unfolding failover_refused_def
  by (intro triple_if answered triple_bind [OF stake_refusal])
    (auto simp: if_answered_def intro: phase_ret relayed_answer)

lemma forward_phase:
  assumes "n < 2"
  shows "triple (in_phase (ph k m (Some i) n Unanswered)) (forward A path i body fo probe)
    (\<lambda>r. in_phase (ph k m (Some i) (Suc n) (case r of Inl e \<Rightarrow> Unanswered | Inr res \<Rightarrow> Served)))"
proof -
  have call: "triple (in_phase p) (in_client A (ForwardWith now a ws probe)) (\<lambda>r s. writes_ok probe r \<and> in_phase p s)" for p now a ws
    using ForwardWith_writes by (auto simp: triple_def in_client_def in_phase_def split: prod.splits) (metis fst_conv)
  have send: "triple (in_phase (ph k m (Some i) n Unanswered)) (emit (Forwarded path i probe)) (\<lambda>_. in_phase (ph k m (Some i) (Suc n) Unanswered))"
    by (rule phase_emit) (simp add: go_if_def assms)
  have wrote: "triple (in_phase (ph k m (Some i) (Suc n) Unanswered)) (if snd r = [] then ret () else emit (Streamed (snd r)))
      (\<lambda>_. in_phase (ph k m (Some i) (Suc n) (case fst r of Inl e \<Rightarrow> Unanswered | Inr res \<Rightarrow> Served)))" if "writes_ok probe r" for r
    using that by (cases "fst r"; cases "snd r"; cases r)
      (auto simp: writes_ok_def headers_sent_def go_if_def intro!: phase_ret phase_emit)
  show ?thesis
    unfolding forward_def
    by (rule phase_after [OF send], rule phase_skip, rule phase_skip, rule triple_bind [OF call], rule triple_pure,
        rule phase_after [OF wrote], assumption, rule phase_ret, assumption)
qed

definition got_session :: "string \<Rightarrow> string \<Rightarrow> nat \<Rightarrow> (lease \<times> acquire_result) option \<Rightarrow> ('w, 'c) api \<Rightarrow> bool" where
  "got_session k m n a s =
     (case a of None \<Rightarrow> in_phase (ph k m None n Refused) s
      | Some (l, res) \<Rightarrow> fresh l (ar_SessionID res) \<and> in_phase (ph k m (Some (ls_session l)) n Unanswered) s)"

lemma acquire_phase:
  "triple (in_phase (ph k m None n Unanswered)) (acquireSession A keyID i cl) (got_session k m n)"
proof -
  let ?held = "\<lambda>r. case r of Inl e \<Rightarrow> None | Inr (l, res) \<Rightarrow> Some (ls_session l)"
  have take: "triple (in_phase (ph k m None n Unanswered)) (case r of Inl e \<Rightarrow> ret () | Inr (l, res) \<Rightarrow> emit (LeaseTaken (ls_session l)))
      (\<lambda>_. in_phase (ph k m (?held r) n Unanswered))" for r :: acquired
    by (auto intro!: phase_ret phase_emit simp: go_if_def split: sum.split)
  have undo: "triple (in_phase (ph k m (?held r) n Unanswered))
      (case r of Inl e \<Rightarrow> ret None | Inr (l, res) \<Rightarrow> do { _ \<leftarrow> track_open A (ar_Opened res) (ar_SessionID res) keyID i; done_lease A (Some l) })
      (\<lambda>_. in_phase (ph k m None n Unanswered))" if "acquired_ok r" for r
    using that by (cases r) (auto simp: acquired_ok_def fresh_def intro!: phase_ret phase_after [OF phase_same(3)] triple_weaken [OF done_fresh])
  have gone: "triple (in_phase (ph k m None n Unanswered)) (emit ClientGone) (\<lambda>_. in_phase (ph k m None n Refused))"
    by (rule phase_emit) (simp add: go_if_def)
  have go: "triple (in_phase (ph k m (?held r) n Unanswered))
      (case r of Inl e \<Rightarrow> do { _ \<leftarrow> refuse_open A i e; ret None }
       | Inr (l, res) \<Rightarrow> do { _ \<leftarrow> track_open A (ar_Opened res) (ar_SessionID res) keyID i; ret (Some (l, res)) })
      (got_session k m n)" if "acquired_ok r" for r
    using that by (cases r)
      (auto simp: acquired_ok_def got_session_def intro!: phase_ret phase_after [OF phase_same(3)] phase_after [OF refuse_answers])
  show ?thesis
    unfolding acquireSession_def
    by (rule triple_bind [OF phase_pool [OF gives_AcquireCtx]], rule triple_pure, rule phase_after [OF take], rule phase_skip,
        rule triple_if, rule phase_after [OF undo], assumption, rule phase_after [OF gone], rule phase_ret,
        simp add: got_session_def, rule go)
qed

text \<open>Where an attempt leaves the request: answered, with the lease it still holds.\<close>

fun lease_id :: "lease option \<Rightarrow> string option" where
  "lease_id None = None"
| "lease_id (Some l) = Some (ls_session l)"

definition reply_of :: "'r option \<Rightarrow> reply" where
  "reply_of r = (case r of None \<Rightarrow> Refused | Some x \<Rightarrow> Served)"

definition attempt_ended :: "string \<Rightarrow> string \<Rightarrow> attempt_end \<Rightarrow> ('w, 'c) api \<Rightarrow> bool" where
  "attempt_ended k m a s =
     (case a of (r, sid, lv) \<Rightarrow>
        (\<exists>n. in_phase (ph k m (lease_id lv) n (reply_of r)) s) \<and> (\<forall>l. lv = Some l \<longrightarrow> \<not> ls_done l) \<and> (r \<noteq> None \<longrightarrow> lv \<noteq> None))"

lemma ended_ret:
  "lease_id lv = h \<Longrightarrow> reply_of r = q \<Longrightarrow> (\<And>l. lv = Some l \<Longrightarrow> \<not> ls_done l) \<Longrightarrow> (r \<noteq> None \<Longrightarrow> lv \<noteq> None) \<Longrightarrow>
   triple (in_phase (ph k m h n q)) (ret (r, sid, lv)) (attempt_ended k m)"
  by (rule phase_ret) (auto simp: attempt_ended_def)

lemma done_lease_phase:
  "\<not> ls_done l \<Longrightarrow> triple (in_phase (ph k m (Some (ls_session l)) n r)) (done_lease A (Some l)) (\<lambda>_. in_phase (ph k m None n r))"
  using done_fresh [of l "ph k m (Some (ls_session l)) n r"] by simp

lemma retry_phase:
  assumes l: "fresh l (fr_SessionID fr)" and n: "n < 2"
    and audit: "\<And>x p. triple (in_phase p) (audit x) (\<lambda>_. in_phase p)"
  shows "triple (in_phase (ph k m (Some (ls_session l)) n Unanswered)) (retry_on A path body fo i audit fr l) (attempt_ended k m)"
proof -
  have ls: "\<not> ls_done l" "fr_SessionID fr = ls_session l" using l by (simp_all add: fresh_def)
  have maybe: "triple (in_phase p) (if b then in_pool f else ret []) (\<lambda>_. in_phase p)"
    "triple (in_phase p) (if b then ret () else audit x) (\<lambda>_. in_phase p)" for p b f x
    by (auto intro: phase_quiet phase_ret audit)
  have bad: "triple (in_phase (ph k m (Some (ls_session l)) (Suc n) Unanswered)) (do {
          _ \<leftarrow> (if b then in_pool f else ret []);
          _ \<leftarrow> (if fr_Replaced fr then ret () else audit x);
          _ \<leftarrow> done_lease A (Some l);
          _ \<leftarrow> relay_error A err;
          ret (None, [], None) }) (attempt_ended k m)" for b f x err
    by (rule phase_after [OF maybe(1)], rule phase_after [OF maybe(2)], rule phase_after [OF done_lease_phase [OF ls(1)]],
        rule phase_after [OF relayed_answer], simp, rule ended_ret) (simp_all add: reply_of_def)
  have late: "triple (in_phase (ph k m (Some (ls_session l)) (Suc n) Unanswered)) (do {
          _ \<leftarrow> done_lease A (Some l); _ \<leftarrow> emit (Answer a); ret (None, [], None) }) (attempt_ended k m)" for a
    by (rule phase_after [OF done_lease_phase [OF ls(1)]], rule phase_after [OF answered], rule ended_ret) (simp_all add: reply_of_def)
  have good: "triple (in_phase (ph k m (Some (ls_session l)) (Suc n) Served)) (do {
          _ \<leftarrow> (if fr_Replaced fr then ret () else audit x); ret (Some res, ls_session l, Some l) }) (attempt_ended k m)" for x res
    by (rule phase_after [OF maybe(2)], rule ended_ret) (simp_all add: reply_of_def ls)
  show ?thesis
    unfolding retry_on_def ls(2)
    by (rule triple_bind [OF forward_phase [OF n]], rename_tac r, case_tac r, rename_tac e, case_tac e)
      (simp_all only: sum.case fwd_err.case bad late good)
qed

lemma failover_phase:
  assumes "0 < n" and "n < 2"
  shows "triple (in_phase (ph k m None n Unanswered))
    (failoverAndRetry A path body keyID reqModel i failedID d fo err) (attempt_ended k m)"
proof -
  have audit: "triple (in_phase p) (emit (FailoverAudit a b c e x)) (\<lambda>_. in_phase p)" for p a b c e x
    by (rule phase_emit) simp
  have maybe: "triple (in_phase p) (if b then emit (FailoverAudit a b' c e x) else ret ()) (\<lambda>_. in_phase p)" for p b a b' c e x
    by (auto intro: audit phase_ret)
  have take: "triple (in_phase (ph k m None n Unanswered)) (case lv of None \<Rightarrow> ret () | Some l \<Rightarrow> emit (LeaseTaken (ls_session l)))
      (\<lambda>_. in_phase (ph k m (lease_id lv) n Unanswered))" for lv
    by (auto intro!: phase_ret phase_emit simp: go_if_def split: option.split)
  have rest: "triple (in_phase (ph k m (lease_id (fr_Lease fr)) n Unanswered))
      (case e of
           Some e \<Rightarrow> do {
             _ \<leftarrow> emit (FailoverAudit reqModel failedID (fr_FailedProvider fr) (statusClass err) (failover_outcome e));
             _ \<leftarrow> failover_refused A i e err;
             ret (None, [], None) }
         | None \<Rightarrow> do {
             _ \<leftarrow> track_open A (fr_Opened fr) (fr_SessionID fr) keyID i;
             (case fr_Lease fr of
                None \<Rightarrow> do { _ \<leftarrow> relay_error A err; ret (None, [], None) }
              | Some l \<Rightarrow> retry_on A path body fo i
                  (\<lambda>outcome. emit (FailoverAudit reqModel failedID (fr_FailedProvider fr) (statusClass err) outcome)) fr l) })
      (attempt_ended k m)" if ok: "failover_ok (fr, e)" for fr e
  proof (cases e)
    case None
    then show ?thesis using ok assms
      by (cases "fr_Lease fr")
        (auto simp: failover_ok_def reply_of_def intro!: phase_after [OF phase_same(3)] phase_after [OF relayed_answer] ended_ret retry_phase audit)
  next
    case (Some x)
    then have "fr_Lease fr = None" using ok by (auto simp: failover_ok_def split: option.splits)
    then show ?thesis using Some assms
      by (auto simp: reply_of_def intro!: phase_after [OF audit] phase_after [OF failover_refused_answers] ended_ret)
  qed
  show ?thesis
    unfolding failoverAndRetry_def Let_def
    by (rule triple_bind [OF phase_pool [OF gives_FailoverCtx]], rule triple_pure, rule phase_after [OF take],
        rule phase_after [OF maybe], rule rest) simp
qed

lemma reopen_phase:
  assumes l: "\<not> ls_done l" and n: "n < 2"
  shows "triple (in_phase (ph k m (Some (ls_session l)) n Unanswered)) (reopen_dead A path body keyID i cl fo l) (attempt_ended k m)"
proof -
  have after: "triple (in_phase (ph k m (Some (ls_session l2)) (Suc n) (case r of Inl e \<Rightarrow> Unanswered | Inr res \<Rightarrow> Served)))
      (case r of
             Inl (TimeoutErr kind) \<Rightarrow> do { _ \<leftarrow> emit (Answer (writeTimeout504 kind)); ret (None, [], Some l2) }
           | Inl err \<Rightarrow> do { _ \<leftarrow> emit (Answer (openai_error 502 ''inference failed'')); ret (None, [], Some l2) }
           | Inr res \<Rightarrow> ret (Some res, sid, Some l2)) (attempt_ended k m)" if "\<not> ls_done l2" for l2 :: lease and r :: "fwd_err + forward_result" and sid
    using that by (cases r; cases "projl r") (auto simp: reply_of_def intro!: phase_after [OF answered] ended_ret)
  have again: "triple (got_session k m n a) (case a of
        None \<Rightarrow> ret (None, [], None)
      | Some (l2, res2) \<Rightarrow> do {
          r \<leftarrow> forward A path (ar_SessionID res2) body fo False;
          (case r of
             Inl (TimeoutErr kind) \<Rightarrow> do { _ \<leftarrow> emit (Answer (writeTimeout504 kind)); ret (None, [], Some l2) }
           | Inl err \<Rightarrow> do { _ \<leftarrow> emit (Answer (openai_error 502 ''inference failed'')); ret (None, [], Some l2) }
           | Inr res \<Rightarrow> ret (Some res, ar_SessionID res2, Some l2)) }) (attempt_ended k m)" for a
  proof (cases a)
    case None
    have "triple (in_phase (ph k m None n Refused)) (ret (None, [], None)) (attempt_ended k m)"
      by (rule ended_ret) (simp_all add: reply_of_def)
    then show ?thesis using None by (simp add: got_session_def [abs_def] triple_def)
  next
    case (Some la)
    obtain l2 res2 where la: "la = (l2, res2)" by (cases la)
    show ?thesis unfolding Some la option.case prod.case got_session_def [abs_def]
    proof (rule triple_pure)
      assume "fresh l2 (ar_SessionID res2)"
      then have l2: "\<not> ls_done l2" "ar_SessionID res2 = ls_session l2" by (simp_all add: fresh_def)
      show "triple (in_phase (ph k m (Some (ls_session l2)) n Unanswered)) (do {
          r \<leftarrow> forward A path (ar_SessionID res2) body fo False;
          (case r of
             Inl (TimeoutErr kind) \<Rightarrow> do { _ \<leftarrow> emit (Answer (writeTimeout504 kind)); ret (None, [], Some l2) }
           | Inl err \<Rightarrow> do { _ \<leftarrow> emit (Answer (openai_error 502 ''inference failed'')); ret (None, [], Some l2) }
           | Inr res \<Rightarrow> ret (Some res, ar_SessionID res2, Some l2)) }) (attempt_ended k m)"
        unfolding l2(2) by (rule triple_bind [OF forward_phase [OF n] after [OF l2(1)]])
    qed
  qed
  show ?thesis
    unfolding reopen_dead_def
    by (rule phase_after [OF done_lease_phase [OF l]], rule phase_skip, rule triple_bind [OF acquire_phase], rule again)
qed

lemma attempts_phase:
  assumes l: "fresh l (ar_SessionID res0)"
  shows "triple (in_phase (ph k m (Some (ls_session l)) 0 Unanswered))
    (attempts A path body keyID reqModel i cl fo l res0) (attempt_ended k m)"
proof -
  have ls: "\<not> ls_done l" "ar_SessionID res0 = ls_session l" using l by (simp_all add: fresh_def)
  have plain: "triple (in_phase (ph k m (Some (ls_session l)) (Suc 0) Unanswered)) (do { _ \<leftarrow> emit (Answer a); ret (None, sid, Some l) }) (attempt_ended k m)"
    "triple (in_phase (ph k m (Some (ls_session l)) (Suc 0) Unanswered)) (do { _ \<leftarrow> relay_error A err; ret (None, sid, Some l) }) (attempt_ended k m)" for a sid err
    by (auto simp: reply_of_def ls intro!: phase_after [OF answered] phase_after [OF relayed_answer] ended_ret)
  have move: "triple (in_phase (ph k m (Some (ls_session l)) (Suc 0) Unanswered))
      (do { _ \<leftarrow> done_lease A (Some l); failoverAndRetry A path body keyID reqModel i sid d fo err }) (attempt_ended k m)" for sid d err
    by (rule phase_after [OF done_lease_phase [OF ls(1)]], rule failover_phase) simp_all
  have first: "triple (in_phase (ph k m (Some (ls_session l)) (Suc 0) (case r of Inl e \<Rightarrow> Unanswered | Inr res \<Rightarrow> Served)))
      (case r of
           Inr res \<Rightarrow> ret (Some res, ls_session l, Some l)
         | Inl (TimeoutErr kind) \<Rightarrow> do { _ \<leftarrow> emit (Answer (writeTimeout504 kind)); ret (None, ls_session l, Some l) }
         | Inl err \<Rightarrow>
             (case classifyForwardError path err of
                DecTransport \<Rightarrow> do { _ \<leftarrow> emit (Answer (openai_error 502 ''inference failed'')); ret (None, ls_session l, Some l) }
              | DecSessionDead \<Rightarrow> reopen_dead A path body keyID i cl fo l
              | DecFailover \<Rightarrow>
                  if ae_failover A then do {
                    _ \<leftarrow> done_lease A (Some l);
                    failoverAndRetry A path body keyID reqModel i (ls_session l) (cl_durationSec cl) fo err }
                  else do { _ \<leftarrow> relay_error A err; ret (None, ls_session l, Some l) }
              | DecRelay \<Rightarrow> do { _ \<leftarrow> relay_error A err; ret (None, ls_session l, Some l) })) (attempt_ended k m)" for r
  proof (cases r)
    case (Inr res)
    then show ?thesis by (auto simp: reply_of_def ls intro!: ended_ret)
  next
    case (Inl err)
    have dec: "triple (in_phase (ph k m (Some (ls_session l)) (Suc 0) Unanswered))
      (case classifyForwardError path err of
                DecTransport \<Rightarrow> do { _ \<leftarrow> emit (Answer (openai_error 502 ''inference failed'')); ret (None, ls_session l, Some l) }
              | DecSessionDead \<Rightarrow> reopen_dead A path body keyID i cl fo l
              | DecFailover \<Rightarrow>
                  if ae_failover A then do {
                    _ \<leftarrow> done_lease A (Some l);
                    failoverAndRetry A path body keyID reqModel i (ls_session l) (cl_durationSec cl) fo err }
                  else do { _ \<leftarrow> relay_error A err; ret (None, ls_session l, Some l) }
              | DecRelay \<Rightarrow> do { _ \<leftarrow> relay_error A err; ret (None, ls_session l, Some l) }) (attempt_ended k m)" for err
      by (cases "classifyForwardError path err") (simp_all add: plain move reopen_phase ls(1))
    show ?thesis unfolding Inl sum.case
      by (cases err) (simp_all only: fwd_err.case dec plain)
  qed
  show ?thesis
    unfolding attempts_def Let_def ls(2)
    by (rule triple_bind [OF forward_phase], simp, rule first)
qed

definition settled :: "('w, 'c) api \<Rightarrow> bool" where
  "settled s \<longleftrightarrow> (case protocol (ap_log s) of None \<Rightarrow> False | Some p \<Rightarrow> final p)"

lemma settledI: "final p \<Longrightarrow> in_phase p s \<Longrightarrow> settled s"
  by (simp add: settled_def in_phase_def)

lemma settled_refused: "triple (in_phase (ph k m None n Refused)) (ret x) (\<lambda>_. settled)"
  by (rule phase_ret) (auto intro!: settledI simp: final_def)

definition paid :: "phase \<Rightarrow> phase" where "paid p = p\<lparr>ph_paid := True\<rparr>"

lemma after_answer_phase:
  assumes "h \<noteq> None"
  shows "triple (in_phase (ph k m h n Served)) (after_answer A k reqModel m d res sid) (\<lambda>_. in_phase (paid (ph k m h n Served)))"
proof -
  have later: "triple (in_phase (ph k m h n Served)) (if b then emit (RetireLater x y z w) else ret ()) (\<lambda>_. in_phase (ph k m h n Served))" for b x y z w
    by (auto intro!: phase_emit phase_ret simp: go_if_def)
  have note_it: "triple (in_phase (ph k m h n Served)) (emit (Recorded k m x y)) (\<lambda>_. in_phase (paid (ph k m h n Served)))" for x y
    by (rule phase_emit) (use assms in \<open>auto simp: go_if_def paid_def\<close>)
  show ?thesis
    unfolding after_answer_def
    by (rule phase_after [OF later], rule phase_after [OF note_it], rule phase_skip, rule phase_skip, rule phase_ret)
qed

lemma close_phase:
  assumes a: "\<forall>l. lv = Some l \<longrightarrow> \<not> ls_done l" and h: "ph_held p = lease_id lv" and f: "final (p\<lparr>ph_held := None\<rparr>)"
  shows "triple (in_phase p) (do { _ \<leftarrow> done_lease A lv; ret () }) (\<lambda>_. settled)"
proof -
  have "triple (in_phase p) (done_lease A lv) (\<lambda>_. in_phase (p\<lparr>ph_held := None\<rparr>))"
  proof (cases lv)
    case None
    then have "p\<lparr>ph_held := None\<rparr> = p" using h by simp
    then show ?thesis using None done_nil [of p A] by simp
  next
    case (Some l)
    then show ?thesis using a h by (auto intro: done_fresh)
  qed
  then show ?thesis by (rule phase_after) (auto intro: phase_ret settledI [OF f])
qed

lemma triple_ex: "(\<And>n. C \<Longrightarrow> triple (P n) f Q) \<Longrightarrow> triple (\<lambda>s. (\<exists>n. P n s) \<and> C) f Q"
  unfolding triple_def by (metis (no_types, lifting))

lemma with_session_phase:
  assumes "fresh (fst la) (ar_SessionID (snd la))"
  shows "triple (in_phase (ph k m (Some (ls_session (fst la))) 0 Unanswered)) (with_session A path body k reqModel m cl la) (\<lambda>_. settled)"
proof -
  have hdr: "triple (in_phase (ph k m h 0 Unanswered)) (case sh of None \<Rightarrow> ret () | Some (x, v) \<Rightarrow> emit (SetHeader x v))
      (\<lambda>_. in_phase (ph k m h 0 Unanswered))" for h sh
    by (auto intro!: phase_ret phase_emit simp: go_if_def split: option.split)
  have end_it: "triple (attempt_ended k m a) (do {
      _ \<leftarrow> (case fst a of None \<Rightarrow> ret () | Some res \<Rightarrow> after_answer A k reqModel m d res (fst (snd a)));
      _ \<leftarrow> done_lease A (snd (snd a));
      ret () }) (\<lambda>_. settled)" for a d
  proof -
    obtain r sid lv where a: "a = (r, sid, lv)" by (cases a)
    have one: "triple (in_phase (ph k m (lease_id lv) n (reply_of r))) (do {
      _ \<leftarrow> (case r of None \<Rightarrow> ret () | Some res \<Rightarrow> after_answer A k reqModel m d res sid);
      _ \<leftarrow> done_lease A lv;
      ret () }) (\<lambda>_. settled)" if lv: "\<forall>l. lv = Some l \<longrightarrow> \<not> ls_done l" "r \<noteq> None \<longrightarrow> lv \<noteq> None" for n
    proof (cases r)
      case None
      show ?thesis unfolding None option.case reply_of_def
        by (rule phase_after [OF phase_ret], assumption, rule close_phase [OF lv(1)]) (simp_all add: final_def)
    next
      case (Some res)
      then obtain l where "lv = Some l" using lv(2) by auto
      then have h: "lease_id lv \<noteq> None" by simp
      show ?thesis unfolding Some option.case reply_of_def
        by (rule phase_after [OF after_answer_phase [OF h]], rule close_phase [OF lv(1)]) (simp_all add: final_def paid_def)
    qed
    have "triple (\<lambda>s. (\<exists>n. in_phase (ph k m (lease_id lv) n (reply_of r)) s) \<and>
        ((\<forall>l. lv = Some l \<longrightarrow> \<not> ls_done l) \<and> (r \<noteq> None \<longrightarrow> lv \<noteq> None))) (do {
      _ \<leftarrow> (case r of None \<Rightarrow> ret () | Some res \<Rightarrow> after_answer A k reqModel m d res sid);
      _ \<leftarrow> done_lease A lv;
      ret () }) (\<lambda>_. settled)"
      by (rule triple_ex, elim conjE, rule one)
    then show ?thesis unfolding a attempt_ended_def [abs_def] prod.case fst_conv snd_conv .
  qed
  show ?thesis
    unfolding with_session_def
    by (rule phase_after [OF hdr], rule triple_bind [OF attempts_phase [OF assms]], rule end_it)
qed

lemma answer_settles:
  "ph_held p = None \<Longrightarrow> ph_reply p = Unanswered \<Longrightarrow> \<not> ph_paid p \<Longrightarrow> triple (in_phase p) (emit (Answer a)) (\<lambda>_. settled)"
  by (rule triple_weaken [OF phase_emit [where q = "p\<lparr>ph_reply := Refused\<rparr>"]])
    (auto simp: go_if_def final_def intro: settledI [where p = "p\<lparr>ph_reply := Refused\<rparr>"])

lemma handler_phase:
  assumes p: "p = at_start\<lparr>ph_key := Some k\<rparr>"
  shows "triple (in_phase p) (handleInference A path k rq) (\<lambda>_. settled)"
proof -
  have p0: "ph_held p = None" "ph_reply p = Unanswered" "\<not> ph_paid p" "p\<lparr>ph_model := Some m\<rparr> = ph k m None 0 Unanswered"
    "ph_key p = Some k" "ph_model p = None" for m
    by (simp_all add: p at_start_def ph_def)
  have res: "triple (in_phase p) (emit (Resolved m)) (\<lambda>_. in_phase (ph k m None 0 Unanswered))" for m
    by (rule phase_emit) (simp add: go_if_def p0)
  have opened: "triple (in_phase (ph k m None 0 Unanswered)) (do {
       a \<leftarrow> acquireSession A k m cl;
       (case a of None \<Rightarrow> ret () | Some la \<Rightarrow> with_session A path body k reqModel m cl la) }) (\<lambda>_. settled)" for m cl body reqModel
  proof (rule triple_bind [OF acquire_phase])
    fix a
    show "triple (got_session k m 0 a) (case a of None \<Rightarrow> ret () | Some la \<Rightarrow> with_session A path body k reqModel m cl la) (\<lambda>_. settled)"
    proof (cases a)
      case None
      then show ?thesis using settled_refused by (simp add: got_session_def [abs_def])
    next
      case (Some la)
      obtain l ar where la: "la = (l, ar)" by (cases la)
      show ?thesis unfolding Some la option.case prod.case got_session_def [abs_def]
        using with_session_phase [of "(l, ar)"] by (auto intro!: triple_pure)
    qed
  qed
  have limits: "triple (in_phase (ph k m None 0 Unanswered)) (case x of (cl, msg) \<Rightarrow>
       if msg \<noteq> [] then emit (Answer (openai_error 400 msg))
       else do {
         a \<leftarrow> acquireSession A k m cl;
         (case a of None \<Rightarrow> ret () | Some la \<Rightarrow> with_session A path body k reqModel m cl la) }) (\<lambda>_. settled)" for m x body reqModel
    by (cases x) (auto simp del: if_split intro!: triple_if answer_settles opened)
  have model: "triple (in_phase p) (case r of
       Inl e \<Rightarrow> emit (Answer (openai_error 404 (ae_resolve_text A e)))
     | Inr m \<Rightarrow> do {
         _ \<leftarrow> emit (Resolved m);
         (case parseCallLimits (ae_durationMax A) (ae_forwardIdle A) (rq_values rq) of (cl, msg) \<Rightarrow>
           if msg \<noteq> [] then emit (Answer (openai_error 400 msg))
           else do {
             a \<leftarrow> acquireSession A k m cl;
             (case a of None \<Rightarrow> ret () | Some la \<Rightarrow> with_session A path body k reqModel m cl la) }) }) (\<lambda>_. settled)" for r body reqModel
    by (cases r) (simp_all add: answer_settles p0 phase_after [OF res limits])
  show ?thesis
    unfolding handleInference_def
    by (auto intro!: answer_settles phase_skip model p0 split: option.split sum.split)
qed

text \<open>
  C28: one request, one course. Whatever the router answers, whatever the pool does and however the other
  requests interleave, a request goes through the phases of the protocol: its key and model are settled first; a
  session is used only while the request holds its lease, on which at most two calls are sent; exactly one answer
  is given (or none, when the client has gone and no lease is held); and usage is recorded for that key and model
  exactly when an answer of the router was passed on. When the handler returns no lease is left.
\<close>

theorem inference_protocol:
  "case protocol (ap_log (snd (run_state (serve_inference A path rq) s))) of
     None \<Rightarrow> False
   | Some p \<Rightarrow> ph_held p = None \<and> ph_reply p \<noteq> Unanswered \<and> ph_paid p = (ph_reply p = Served)"
proof -
  have start: "triple (\<lambda>_. True) (State (\<lambda>s. ((), s\<lparr>ap_log := []\<rparr>))) (\<lambda>_. in_phase at_start)"
    by (simp add: triple_def in_phase_def protocol_def)
  have auth: "triple (in_phase at_start) (emit (Authenticated k)) (\<lambda>_. in_phase (at_start\<lparr>ph_key := Some k\<rparr>))" for k
    by (rule phase_emit) (simp add: go_if_def at_start_def)
  have gate: "triple (in_phase at_start) (case g of Unauthorized msg \<Rightarrow> emit (Answer (openai_error 401 msg))
      | Caller k \<Rightarrow> do { _ \<leftarrow> emit (Authenticated k); handleInference A path k rq }) (\<lambda>_. settled)" for g
  proof (cases g)
    case (Unauthorized msg)
    show ?thesis unfolding Unauthorized api_gate.case by (rule answer_settles) (simp_all add: at_start_def)
  next
    case (Caller k)
    show ?thesis unfolding Caller api_gate.case by (rule phase_after [OF auth handler_phase [OF refl]])
  qed
  have "triple (\<lambda>_. True) (serve_inference A path rq) (\<lambda>_. settled)"
    unfolding serve_inference_def by (rule phase_after [OF start], rule phase_skip, rule gate)
  then have "settled (snd (run_state (serve_inference A path rq) s))"
    using tripleD [of "\<lambda>_. True" _ _ s] by (metis prod.collapse)
  then show ?thesis by (simp add: settled_def final_def split: option.splits)
qed

subsection \<open>The second attempt of a reopened session\<close>

text \<open>A refusal of the router: a status and a text, read to its end.\<close>

definition refusal_page :: "int \<Rightarrow> string \<Rightarrow> http_reply" where
  "refusal_page status txt = Reply status ''text/plain'' \<lparr>us_reads = [txt], us_err = Eof, us_ctx = Live\<rparr>"

lemma log_lifts [simp]:
  "ap_log (snd (run_state (in_pool f) s)) = ap_log s" "ap_log (snd (run_state (in_client A g) s)) = ap_log s"
  by (simp_all add: in_pool_def in_client_def split_beta)

lemma forward_refused:
  assumes reply: "ae_reply A = (\<lambda>p i b o' w. ((refusal_page status txt, []), w))"
  shows "fst (run_state (forward A path sid body fo False) s) = Inr (plain_result status (body_usage (take maxBuffered txt)))"
    and "ap_log (snd (run_state (forward A path sid body fo False) s)) =
      ap_log s @ [Forwarded path sid False, Streamed [Header status ''text/plain'', Body (Wrote (take maxBuffered txt))]]"
proof -
  have page: "fst (run_state (in_pool (ask E (\<lambda>w. ((refusal_page status txt, []), w)))) s) = (refusal_page status txt, [])" for E :: "'a env" and s :: "('a, 'b) api"
    by (simp add: in_pool_def ask_def in_world_def State_Monad.run_state_bind split_beta)
  have call: "fst (run_state (in_client A (ForwardWith now (refusal_page status txt) [] False)) s) =
      (Inr (plain_result status (body_usage (take maxBuffered txt))), [Header status ''text/plain'', Body (Wrote (take maxBuffered txt))])" for now s
    by (auto simp: in_client_def ForwardWith_def refusal_page_def isEventStream_def buffered_answer_def read_all_def Let_def
        State_Monad.run_state_bind split_beta)
  show "fst (run_state (forward A path sid body fo False) s) = Inr (plain_result status (body_usage (take maxBuffered txt)))"
    "ap_log (snd (run_state (forward A path sid body fo False) s)) =
      ap_log s @ [Forwarded path sid False, Streamed [Header status ''text/plain'', Body (Wrote (take maxBuffered txt))]]"
    by (simp_all add: forward_def reply State_Monad.run_state_bind split_beta page call emit_def)
qed


end
