(* ===== verification/Audit_Trail.thy ===== *)
theory Audit_Trail
  imports Decimal "HOL-Library.Monad_Syntax"
begin

section \<open>The audit trail (\<open>internal/api/audit.go\<close>, \<open>audit_route.go\<close>, \<open>admin_login.go\<close>)\<close>

text \<open>
  Every audit event goes to one of two streams and to the ring the console shows; events that can be repeated at
  will are aggregated, one line per window and key. Two aggregators sit before the sink. An operation that would
  dereference a missing bucket panics (\<open>None\<close>); none ever does.
\<close>

subsection \<open>Events and streams\<close>

datatype audit_stream = HighValue | Ops

record audit_event =
  au_At :: time
  au_Kind :: string
  au_Actor :: string
  au_IP :: string
  au_Result :: string
  au_Message :: string
  au_Count :: int
  au_Stream :: "audit_stream option"
  au_reason :: string
  au_quiet :: bool

definition opsKinds :: "string list" where
  "opsKinds = [''admin_bearer_reject'', ''login_lockout'', ''session_release'', ''provider_failover'', ''session_reconcile'',
     ''provider_unavailable'']"

definition loopableKinds :: "string list" where
  "loopableKinds = [''admin_key_use'', ''admin_session_ip_change'']"

definition AuditStreamFor :: "string \<Rightarrow> string \<Rightarrow> audit_stream" where
  "AuditStreamFor kind result =
     (if kind \<in> set opsKinds then Ops
      else if result = ''ok'' \<or> result = [] then HighValue
      else if kind \<in> set loopableKinds then HighValue
      else Ops)"

definition auditEventOf :: "time \<Rightarrow> string \<Rightarrow> string \<Rightarrow> string \<Rightarrow> string \<Rightarrow> audit_event" where
  "auditEventOf now event ip result reason =
     \<lparr>au_At = now, au_Kind = event, au_Actor = ip, au_IP = ip, au_Result = result,
      au_Message = event @ '' '' @ result @ (if reason \<noteq> [] then '' '' @ reason else []), au_Count = 0, au_Stream = None,
      au_reason = reason, au_quiet = False\<rparr>"

definition stamped :: "time \<Rightarrow> audit_event \<Rightarrow> audit_event" where
  "stamped now ev = (if is_zero (au_At ev) then ev\<lparr>au_At := now\<rparr> else ev)"

subsection \<open>The ring\<close>

text \<open>Two shares, oldest first; the protected one is never evicted by the other.\<close>

record audit_log =
  al_cap :: nat
  al_protected :: "audit_event list"
  al_other :: "audit_event list"

definition NewAuditLog :: "int \<Rightarrow> audit_log" where
  "NewAuditLog capacity = \<lparr>al_cap = nat (if capacity < 16 then 16 else capacity), al_protected = [], al_other = []\<rparr>"

definition pushCapped :: "'a list \<Rightarrow> 'a \<Rightarrow> nat \<Rightarrow> 'a list" where
  "pushCapped s ev c = (if length s \<ge> c then tl s @ [ev] else s @ [ev])"

definition Add :: "time \<Rightarrow> bool \<Rightarrow> audit_event \<Rightarrow> audit_log \<Rightarrow> audit_log" where
  "Add now protected ev a =
     (if protected then a\<lparr>al_protected := pushCapped (al_protected a) (stamped now ev) (al_cap a)\<rparr>
      else a\<lparr>al_other := pushCapped (al_other a) (stamped now ev) (al_cap a)\<rparr>)"

definition RecordFull :: "time \<Rightarrow> string \<Rightarrow> string \<Rightarrow> string \<Rightarrow> string \<Rightarrow> string \<Rightarrow> audit_log \<Rightarrow> audit_log" where
  "RecordFull now kind actor ip result message =
     Add now True \<lparr>au_At = now, au_Kind = kind, au_Actor = actor, au_IP = ip, au_Result = result, au_Message = message,
       au_Count = 0, au_Stream = Some HighValue, au_reason = [], au_quiet = False\<rparr>"

text \<open>A stable sort, newest first.\<close>

fun insert_newest :: "audit_event \<Rightarrow> audit_event list \<Rightarrow> audit_event list" where
  "insert_newest e [] = [e]"
| "insert_newest e (x # xs) = (if au_At x > au_At e then x # insert_newest e xs else e # x # xs)"

definition newest_first :: "audit_event list \<Rightarrow> audit_event list" where
  "newest_first es = foldr insert_newest es []"

definition last_n :: "nat \<Rightarrow> 'a list \<Rightarrow> 'a list" where
  "last_n n xs = drop (length xs - n) xs"

text \<open>How many of each share an answer holds.\<close>

definition shares :: "int \<Rightarrow> audit_log \<Rightarrow> nat \<times> nat" where
  "shares limit0 a =
     (let total = length (al_protected a) + length (al_other a);
          l1 = (if limit0 \<le> 0 \<or> limit0 > int (al_cap a) then al_cap a else nat limit0);
          limit = (if l1 > total then total else l1);
          reserve = min (length (al_protected a)) ((limit + 1) div 2);
          nOther = min (length (al_other a)) (limit - reserve)
      in (min (length (al_protected a)) (limit - nOther), nOther))"

definition Recent :: "int \<Rightarrow> audit_log \<Rightarrow> audit_event list" where
  "Recent limit a = (case shares limit a of
     (nProt, nOther) \<Rightarrow> newest_first (last_n nProt (al_protected a) @ last_n nOther (al_other a)))"

subsection \<open>The aggregator\<close>

type_synonym agg_key = "string \<times> string"      \<comment> \<open>kind and key\<close>

record agg_bucket =
  bk_start :: time
  bk_suppressed :: int
  bk_last :: audit_event
  bk_stream :: audit_stream

record aggregator =
  ag_window :: dur
  ag_windowText :: string                          \<comment> \<open>\<open>window.String()\<close>\<close>
  ag_maxPerKind :: int
  ag_maxTotal :: int
  ag_buckets :: "(agg_key \<times> agg_bucket) list"
  ag_perKind :: "int gomap"
  ag_keyed :: int
  ag_queue :: "agg_key list"

definition aggWindow :: dur where "aggWindow = minute"
definition aggMaxKeys :: int where "aggMaxKeys = 64"
definition opsAggMaxKeys :: int where "opsAggMaxKeys = 10000"

definition aggOtherKey :: string where "aggOtherKey = CHR 0x00 # ''other''"

definition newAuditAggregator :: "dur \<Rightarrow> string \<Rightarrow> int \<Rightarrow> int \<Rightarrow> aggregator" where
  "newAuditAggregator window txt maxPerKind maxTotal =
     \<lparr>ag_window = window, ag_windowText = txt, ag_maxPerKind = maxPerKind, ag_maxTotal = maxTotal, ag_buckets = [],
      ag_perKind = [], ag_keyed = 0, ag_queue = []\<rparr>"

definition kind_count :: "aggregator \<Rightarrow> string \<Rightarrow> int" where
  "kind_count a kind = (case mget (ag_perKind a) kind of None \<Rightarrow> 0 | Some n \<Rightarrow> n)"

definition joinMsg :: "string \<Rightarrow> string \<Rightarrow> string" where
  "joinMsg a b = (if a = [] then b else a @ '' '' @ b)"

text \<open>A line to write, with its stream.\<close>

type_synonym pending = "audit_stream \<times> audit_event"

definition summary :: "time \<Rightarrow> string \<Rightarrow> agg_key \<Rightarrow> agg_bucket \<Rightarrow> audit_event" where
  "summary now windowText k b =
     (let rep = ''repeated count='' @ show_int (bk_suppressed b) @ '' in '' @ windowText;
          ev = (bk_last b)\<lparr>au_At := now, au_Count := bk_suppressed b, au_Message := joinMsg (au_Message (bk_last b)) rep,
                au_reason := joinMsg (au_reason (bk_last b)) rep\<rparr>
      in if snd k = aggOtherKey
         then ev\<lparr>au_IP := [], au_Actor := [], au_Message := joinMsg (au_Kind ev @ '' other'') rep, au_reason := joinMsg ''other'' rep\<rparr>
         else ev)"

definition drop_bucket :: "agg_key \<Rightarrow> aggregator \<Rightarrow> aggregator" where
  "drop_bucket k a =
     (let a1 = a\<lparr>ag_buckets := mdel k (ag_buckets a), ag_queue := tl (ag_queue a)\<rparr> in
      if snd k = aggOtherKey then a1
      else a1\<lparr>ag_perKind := mput (fst k) (kind_count a (fst k) - 1) (ag_perKind a), ag_keyed := ag_keyed a - 1\<rparr>)"

text \<open>The loop over the front of the queue: every window that has ended is closed.\<close>

fun flush_loop :: "time \<Rightarrow> agg_key list \<Rightarrow> aggregator \<Rightarrow> (pending list \<times> aggregator) option" where
  "flush_loop now [] a = Some ([], a)"
| "flush_loop now (k # ks) a =
     (case mget (ag_buckets a) k of
        None \<Rightarrow> None
      | Some b \<Rightarrow>
          if now - bk_start b < ag_window a then Some ([], a)
          else do {
            (lines, a') \<leftarrow> flush_loop now ks (drop_bucket k a);
            Some ((if bk_suppressed b > 0 then [(bk_stream b, summary now (ag_windowText a) k b)] else []) @ lines, a') })"

definition flushLocked :: "time \<Rightarrow> aggregator \<Rightarrow> (pending list \<times> aggregator) option" where
  "flushLocked now a = flush_loop now (ag_queue a) a"

text \<open>The bucket an event counts in.\<close>

definition bucket_key :: "agg_key \<Rightarrow> aggregator \<Rightarrow> agg_key" where
  "bucket_key k a =
     (if mget (ag_buckets a) k = None \<and> (kind_count a (fst k) \<ge> ag_maxPerKind a \<or> ag_keyed a \<ge> ag_maxTotal a)
      then (fst k, aggOtherKey) else k)"

definition open_bucket :: "time \<Rightarrow> audit_stream \<Rightarrow> agg_key \<Rightarrow> audit_event \<Rightarrow> aggregator \<Rightarrow> aggregator" where
  "open_bucket now stream k ev a =
     (let a1 = a\<lparr>ag_buckets := mput k \<lparr>bk_start = now, bk_suppressed = 0, bk_last = ev, bk_stream = stream\<rparr> (ag_buckets a),
            ag_queue := ag_queue a @ [k]\<rparr>
      in if snd k = aggOtherKey then a1
         else a1\<lparr>ag_perKind := mput (fst k) (kind_count a (fst k) + 1) (ag_perKind a), ag_keyed := ag_keyed a + 1\<rparr>)"

definition Record :: "time \<Rightarrow> audit_stream \<Rightarrow> string \<Rightarrow> audit_event \<Rightarrow> aggregator \<Rightarrow> (pending list \<times> aggregator) option" where
  "Record now stream key ev a0 = do {
     (lines, a) \<leftarrow> flushLocked now a0;
     let k = bucket_key (au_Kind ev, key) a;
     case mget (ag_buckets a) k of
       Some b \<Rightarrow> Some (lines, a\<lparr>ag_buckets := mput k (b\<lparr>bk_suppressed := bk_suppressed b + 1, bk_last := ev\<rparr>) (ag_buckets a)\<rparr>)
     | None \<Rightarrow> Some (lines @ [(stream, stamped now ev)], open_bucket now stream k ev a) }"

definition Size :: "aggregator \<Rightarrow> nat" where "Size a = mlen (ag_buckets a)"

subsection \<open>The sink\<close>

record audit_sink =
  sk_ring :: audit_log
  sk_security :: "audit_event option list option"  \<comment> \<open>the lines of the two files (\<open>None\<close>: ring only); a line may not decode\<close>
  sk_ops :: "audit_event option list option"
  sk_lines :: "(string \<times> string) list list"      \<comment> \<open>the JSON log\<close>

fun stream_name :: "audit_stream \<Rightarrow> string" where
  "stream_name HighValue = ''security''"
| "stream_name Ops = ''ops''"

definition log_attrs :: "audit_stream \<Rightarrow> audit_event \<Rightarrow> (string \<times> string) list" where
  "log_attrs stream ev =
     [(''event'', au_Kind ev), (''result'', au_Result ev), (''ip'', au_IP ev)] @
     (if au_reason ev \<noteq> [] then [(''reason'', au_reason ev)]
      else (if au_Actor ev \<noteq> [] then [(''actor'', au_Actor ev)] else []) @
           (if au_Message ev \<noteq> [] then [(''message'', au_Message ev)] else [])) @
     (if au_Count ev > 0 then [(''count'', show_int (au_Count ev))] else []) @
     [(''stream'', stream_name stream)]"

definition ring_protects :: "audit_stream \<Rightarrow> audit_event \<Rightarrow> bool" where
  "ring_protects stream ev \<longleftrightarrow> stream = HighValue \<and> au_Kind ev \<notin> set loopableKinds"

text \<open>What a file keeps of an event: its exported fields.\<close>

definition exported :: "audit_event \<Rightarrow> audit_event" where
  "exported ev = ev\<lparr>au_reason := [], au_quiet := False\<rparr>"

definition WriteAudit :: "time \<Rightarrow> audit_stream \<Rightarrow> audit_event \<Rightarrow> audit_sink \<Rightarrow> audit_sink" where
  "WriteAudit now stream ev0 a =
     (let ev = (stamped now ev0)\<lparr>au_Stream := Some stream\<rparr>;
          a1 = a\<lparr>sk_lines := sk_lines a @ (if au_quiet ev then [] else [log_attrs stream ev]),
                sk_ring := Add now (ring_protects stream ev) ev (sk_ring a)\<rparr>
      in case stream of
           HighValue \<Rightarrow> a1\<lparr>sk_security := map_option (\<lambda>f. f @ [Some (exported ev)]) (sk_security a)\<rparr>
         | Ops \<Rightarrow> a1\<lparr>sk_ops := map_option (\<lambda>f. f @ [Some (exported ev)]) (sk_ops a)\<rparr>)"

text \<open>At boot the last lines of both files come back into the ring, oldest first.\<close>

fun insert_oldest :: "audit_event \<Rightarrow> audit_event list \<Rightarrow> audit_event list" where
  "insert_oldest e [] = [e]"
| "insert_oldest e (x # xs) = (if au_At x < au_At e then x # insert_oldest e xs else e # x # xs)"

definition oldest_first :: "audit_event list \<Rightarrow> audit_event list" where
  "oldest_first es = foldr insert_oldest es []"

definition auditBootLines :: nat where "auditBootLines = 500"

definition openAuditSink :: "time \<Rightarrow> audit_log \<Rightarrow> (audit_event option list \<times> audit_event option list) option \<Rightarrow> audit_sink" where
  "openAuditSink now ring files =
     (case files of
        None \<Rightarrow> \<lparr>sk_ring = ring, sk_security = None, sk_ops = None, sk_lines = []\<rparr>
      | Some (sec, ops) \<Rightarrow>
          (let keep = (\<lambda>ls. filter (\<lambda>ev. au_Kind ev \<noteq> [] \<and> \<not> is_zero (au_At ev)) (concat (map (\<lambda>l. case l of None \<Rightarrow> [] | Some ev \<Rightarrow> [ev]) ls)));
               evs = oldest_first (keep (last_n auditBootLines sec) @ keep (last_n auditBootLines ops))
           in \<lparr>sk_ring = fold (\<lambda>ev r. Add now (au_Stream ev = Some HighValue \<and> au_Kind ev \<notin> set loopableKinds) ev r) evs ring,
               sk_security = Some sec, sk_ops = Some ops, sk_lines = []\<rparr>))"

subsection \<open>The server's audit operations\<close>

record audit_sys =
  as_sink :: audit_sink
  as_audit :: aggregator
  as_ops :: aggregator

definition write_all :: "time \<Rightarrow> pending list \<Rightarrow> audit_sys \<Rightarrow> audit_sys" where
  "write_all now ps s = s\<lparr>as_sink := fold (\<lambda>(st, ev) k. WriteAudit now st ev k) ps (as_sink s)\<rparr>"

definition FlushAudit :: "time \<Rightarrow> audit_sys \<Rightarrow> audit_sys option" where
  "FlushAudit now s = do {
     (ps, a) \<leftarrow> flushLocked now (as_audit s);
     let s1 = write_all now ps (s\<lparr>as_audit := a\<rparr>);
     (qs, o1) \<leftarrow> flushLocked now (as_ops s1);
     Some (write_all now qs (s1\<lparr>as_ops := o1\<rparr>)) }"

definition writeAudit :: "time \<Rightarrow> audit_stream \<Rightarrow> audit_event \<Rightarrow> audit_sys \<Rightarrow> audit_sys option" where
  "writeAudit now stream ev s = do {
     s1 \<leftarrow> FlushAudit now s;
     Some (s1\<lparr>as_sink := WriteAudit now stream ev (as_sink s1)\<rparr>) }"

definition ops_record :: "time \<Rightarrow> audit_stream \<Rightarrow> string \<Rightarrow> audit_event \<Rightarrow> audit_sys \<Rightarrow> audit_sys option" where
  "ops_record now stream key ev s = do {
     (ps, a) \<leftarrow> Record now stream key ev (as_ops s);
     Some (write_all now ps (s\<lparr>as_ops := a\<rparr>)) }"

definition unauthAggregated :: "string list" where
  "unauthAggregated = [''login'', ''login_lockout'', ''admin_bearer_reject'']"

definition server_auditEvent :: "time \<Rightarrow> string \<Rightarrow> string \<Rightarrow> string \<Rightarrow> string \<Rightarrow> audit_sys \<Rightarrow> audit_sys option" where
  "server_auditEvent now event ip result reason s =
     (let st = AuditStreamFor event result; ev = auditEventOf now event ip result reason in
      if st = Ops \<and> event \<in> set unauthAggregated then ops_record now st ip ev s else writeAudit now st ev s)"

definition auditAgent :: "time \<Rightarrow> string \<Rightarrow> string \<Rightarrow> string \<Rightarrow> string \<Rightarrow> string \<Rightarrow> audit_sys \<Rightarrow> audit_sys option" where
  "auditAgent now event keyID ip result reason =
     ops_record now Ops keyID ((auditEventOf now event ip result reason)\<lparr>au_Actor := keyID\<rparr>)"

definition auditSystem :: "time \<Rightarrow> string \<Rightarrow> string \<Rightarrow> string \<Rightarrow> string \<Rightarrow> bool \<Rightarrow> audit_sys \<Rightarrow> audit_sys option" where
  "auditSystem now kind actor result message quiet =
     writeAudit now (AuditStreamFor kind result)
       \<lparr>au_At = now, au_Kind = kind, au_Actor = actor, au_IP = [], au_Result = result, au_Message = message, au_Count = 0,
        au_Stream = None, au_reason = [], au_quiet = quiet\<rparr>"

definition auditAggregated :: "time \<Rightarrow> string \<Rightarrow> string \<Rightarrow> string \<Rightarrow> string \<Rightarrow> string \<Rightarrow> audit_sys \<Rightarrow> audit_sys option" where
  "auditAggregated now event key ip result reason s = do {
     (ps, a) \<leftarrow> Record now (AuditStreamFor event result) key (auditEventOf now event ip result reason) (as_audit s);
     Some (write_all now ps (s\<lparr>as_audit := a\<rparr>)) }"

end
