(* ===== verification/Audit_Props.thy ===== *)
theory Audit_Props
  imports Audit_Trail "HOL-Library.Multiset"
begin

section \<open>What the audit trail guarantees\<close>

subsection \<open>The aggregator's invariant\<close>

definition is_keyed :: "agg_key \<Rightarrow> bool" where "is_keyed k \<longleftrightarrow> snd k \<noteq> aggOtherKey"

definition keyed_of :: "string \<Rightarrow> agg_key \<Rightarrow> bool" where "keyed_of K k \<longleftrightarrow> fst k = K \<and> is_keyed k"

definition agg_ok :: "aggregator \<Rightarrow> bool" where
  "agg_ok a \<longleftrightarrow>
     distinct (ag_queue a) \<and>
     (\<forall>k. (mget (ag_buckets a) k \<noteq> None) = (k \<in> set (ag_queue a))) \<and>
     (\<forall>K. kind_count a K = int (length (filter (keyed_of K) (ag_queue a))) \<and> kind_count a K \<le> ag_maxPerKind a) \<and>
     ag_keyed a = int (length (filter is_keyed (ag_queue a))) \<and> ag_keyed a \<le> ag_maxTotal a \<and>
     (\<forall>k b. mget (ag_buckets a) k = Some b \<longrightarrow> au_Kind (bk_last b) = fst k \<and> 0 \<le> bk_suppressed b)"

lemma agg_okD:
  assumes "agg_ok a"
  shows "distinct (ag_queue a)" and "mget (ag_buckets a) k \<noteq> None \<longleftrightarrow> k \<in> set (ag_queue a)"
    and "kind_count a K = int (length (filter (keyed_of K) (ag_queue a)))" and "kind_count a K \<le> ag_maxPerKind a"
    and "ag_keyed a = int (length (filter is_keyed (ag_queue a)))" and "ag_keyed a \<le> ag_maxTotal a"
    and "mget (ag_buckets a) k = Some b \<Longrightarrow> au_Kind (bk_last b) = fst k"
    and "mget (ag_buckets a) k = Some b \<Longrightarrow> 0 \<le> bk_suppressed b"
  using assms unfolding agg_ok_def by blast+

lemma agg_okI:
  assumes "distinct (ag_queue a)" and "\<And>k. mget (ag_buckets a) k \<noteq> None \<longleftrightarrow> k \<in> set (ag_queue a)"
    and "\<And>K. kind_count a K = int (length (filter (keyed_of K) (ag_queue a)))" and "\<And>K. kind_count a K \<le> ag_maxPerKind a"
    and "ag_keyed a = int (length (filter is_keyed (ag_queue a)))" and "ag_keyed a \<le> ag_maxTotal a"
    and "\<And>k b. mget (ag_buckets a) k = Some b \<Longrightarrow> au_Kind (bk_last b) = fst k"
    and "\<And>k b. mget (ag_buckets a) k = Some b \<Longrightarrow> 0 \<le> bk_suppressed b"
  shows "agg_ok a"
  using assms unfolding agg_ok_def by blast

lemma agg_ok_new: "0 \<le> p \<Longrightarrow> 0 \<le> t \<Longrightarrow> agg_ok (newAuditAggregator w txt p t)"
  by (simp add: agg_ok_def newAuditAggregator_def kind_count_def)

text \<open>The limits and the window never change.\<close>

definition same_bounds :: "aggregator \<Rightarrow> aggregator \<Rightarrow> bool" where
  "same_bounds a b \<longleftrightarrow> ag_window b = ag_window a \<and> ag_maxPerKind b = ag_maxPerKind a \<and> ag_maxTotal b = ag_maxTotal a"

lemma same_bounds_trans: "same_bounds a b \<Longrightarrow> same_bounds b c \<Longrightarrow> same_bounds a c"
  by (simp add: same_bounds_def)

lemma drop_bucket_ok:
  assumes a: "agg_ok a" and q: "ag_queue a = k # ks"
  shows "agg_ok (drop_bucket k a)" and "ag_queue (drop_bucket k a) = ks" and "same_bounds a (drop_bucket k a)"
proof -
  let ?d = "drop_bucket k a"
  show q': "ag_queue ?d = ks" and sb: "same_bounds a ?d" by (auto simp: drop_bucket_def Let_def q same_bounds_def)
  have nk: "k \<notin> set ks" "distinct ks" using agg_okD(1) [OF a] q by simp_all
  have b: "mget (ag_buckets ?d) j = (if j = k then None else mget (ag_buckets a) j)" for j by (simp add: drop_bucket_def Let_def)
  have kc: "kind_count ?d K = kind_count a K - (if keyed_of K k then 1 else 0)" for K
    by (auto simp: drop_bucket_def Let_def kind_count_def keyed_of_def is_keyed_def)
  have kt: "ag_keyed ?d = ag_keyed a - (if is_keyed k then 1 else 0)" by (simp add: drop_bucket_def Let_def is_keyed_def)
  show "agg_ok ?d"
  proof (rule agg_okI)
    show "distinct (ag_queue ?d)" using nk q' by simp
    show "mget (ag_buckets ?d) j \<noteq> None \<longleftrightarrow> j \<in> set (ag_queue ?d)" for j
      using agg_okD(2) [OF a, of j] nk(1) unfolding b q' q by auto
    show "kind_count ?d K = int (length (filter (keyed_of K) (ag_queue ?d)))" for K
      using agg_okD(3) [OF a, of K] unfolding kc q' q by simp
    show "kind_count ?d K \<le> ag_maxPerKind ?d" for K
      using agg_okD(4) [OF a, of K] sb unfolding kc same_bounds_def by simp
    show "ag_keyed ?d = int (length (filter is_keyed (ag_queue ?d)))"
      using agg_okD(5) [OF a] unfolding kt q' q by simp
    show "ag_keyed ?d \<le> ag_maxTotal ?d" using agg_okD(6) [OF a] sb unfolding kt same_bounds_def by simp
    show "au_Kind (bk_last x) = fst j" "0 \<le> bk_suppressed x" if "mget (ag_buckets ?d) j = Some x" for j x
      using agg_okD(7,8) [OF a, of j x] that unfolding b by (simp_all split: if_splits)
  qed
qed

subsection \<open>Every event is accounted for\<close>

definition line_weight :: "string \<Rightarrow> pending \<Rightarrow> int" where
  "line_weight K l = (if au_Kind (snd l) = K then (if au_Count (snd l) = 0 then 1 else au_Count (snd l)) else 0)"

definition written :: "string \<Rightarrow> pending list \<Rightarrow> int" where
  "written K ls = sum_list (map (line_weight K) ls)"

definition waiting_in :: "aggregator \<Rightarrow> string \<Rightarrow> agg_key \<Rightarrow> int" where
  "waiting_in a K k = (if fst k = K then (case mget (ag_buckets a) k of Some b \<Rightarrow> bk_suppressed b | None \<Rightarrow> 0) else 0)"

text \<open>The events of a kind that are counted in a bucket and not written yet.\<close>

definition waiting :: "string \<Rightarrow> aggregator \<Rightarrow> int" where
  "waiting K a = sum_list (map (waiting_in a K) (ag_queue a))"

lemma written_simps [simp]: "written K [] = 0" "written K (l # ls) = line_weight K l + written K ls"
  "written K (xs @ ys) = written K xs + written K ys"
  by (simp_all add: written_def)

lemma waiting_drop:
  assumes a: "agg_ok a" and q: "ag_queue a = k # ks"
  shows "waiting K a = waiting_in a K k + waiting K (drop_bucket k a)"
proof -
  have "k \<notin> set ks" using agg_okD(1) [OF a] q by simp
  then have "map (waiting_in a K) ks = map (waiting_in (drop_bucket k a) K) ks"
    by (auto simp: waiting_in_def drop_bucket_def Let_def)
  then show ?thesis unfolding waiting_def drop_bucket_ok(2) [OF a q] q by (simp only: list.map sum_list.Cons)
qed

lemma summary_kind: "au_Kind (summary now w k b) = au_Kind (bk_last b)" "au_Count (summary now w k b) = bk_suppressed b"
  by (simp_all add: summary_def Let_def)

lemma flush_loop_ok:
  assumes "agg_ok a" and "ag_queue a = ks"
  obtains ls a' n where "flush_loop now ks a = Some (ls, a')" and "agg_ok a'" and "ag_queue a' = drop n ks" and "same_bounds a a'"
    and "\<And>K. written K ls + waiting K a' = waiting K a"
    and "\<And>k b. mget (ag_buckets a') k = Some b \<Longrightarrow> mget (ag_buckets a) k = Some b"
    and "\<And>k b. mget (ag_buckets a) k = Some b \<Longrightarrow> mget (ag_buckets a') k = None \<Longrightarrow> ag_window a \<le> now - bk_start b"
  using assms
proof (induction ks arbitrary: a thesis)
  case Nil
  show ?case by (rule Nil.prems(1) [of "[]" a 0]) (use Nil.prems in \<open>simp_all add: same_bounds_def\<close>)
next
  case (Cons k ks)
  from Cons.prems(2,3) obtain b where b: "mget (ag_buckets a) k = Some b" and bk: "au_Kind (bk_last b) = fst k" "0 \<le> bk_suppressed b"
    using agg_okD(2,7,8) [OF Cons.prems(2)] by (metis list.set_intros(1) not_None_eq)
  show ?case
  proof (cases "now - bk_start b < ag_window a")
    case True
    show ?thesis
      by (rule Cons.prems(1) [of "[]" a 0]) (use Cons.prems True b in \<open>simp_all add: same_bounds_def\<close>)
  next
    case False
    note dr = drop_bucket_ok [OF Cons.prems(2,3)]
    obtain ls a' n where r: "flush_loop now ks (drop_bucket k a) = Some (ls, a')" "agg_ok a'" "ag_queue a' = drop n ks" "same_bounds (drop_bucket k a) a'"
      and w: "\<And>K. written K ls + waiting K a' = waiting K (drop_bucket k a)"
      and old: "\<And>j x. mget (ag_buckets a') j = Some x \<Longrightarrow> mget (ag_buckets (drop_bucket k a)) j = Some x"
      and done_w: "\<And>j x. mget (ag_buckets (drop_bucket k a)) j = Some x \<Longrightarrow> mget (ag_buckets a') j = None \<Longrightarrow>
          ag_window (drop_bucket k a) \<le> now - bk_start x"
      using Cons.IH [OF _ dr(1,2)] by blast
    let ?l = "if bk_suppressed b > 0 then [(bk_stream b, summary now (ag_windowText a) k b)] else []"
    have buckets: "mget (ag_buckets (drop_bucket k a)) j = (if j = k then None else mget (ag_buckets a) j)" for j
      by (simp add: drop_bucket_def Let_def)
    have "written K ?l = waiting_in a K k" for K
      using bk by (simp add: line_weight_def summary_kind waiting_in_def b)
    then have ww: "written K (?l @ ls) + waiting K a' = waiting K a" for K
      using w [of K] waiting_drop [OF Cons.prems(2,3), of K] by simp
    have win: "ag_window (drop_bucket k a) = ag_window a" using dr(3) by (simp add: same_bounds_def)
    show ?thesis
    proof (rule Cons.prems(1) [of "?l @ ls" a' "Suc n"])
      show "flush_loop now (k # ks) a = Some (?l @ ls, a')" using b False r(1) by simp
      show "agg_ok a'" "ag_queue a' = drop (Suc n) (k # ks)" "\<And>K. written K (?l @ ls) + waiting K a' = waiting K a" using r ww by simp_all
      show "same_bounds a a'" using dr(3) r(4) by (rule same_bounds_trans)
      show "mget (ag_buckets a) j = Some x" if "mget (ag_buckets a') j = Some x" for j x
        using old [OF that] by (simp add: buckets split: if_splits)
      show "ag_window a \<le> now - bk_start x" if "mget (ag_buckets a) j = Some x" "mget (ag_buckets a') j = None" for j x
      proof (cases "j = k")
        case True then show ?thesis using that b False by simp
      next
        case neq: False
        then show ?thesis using done_w [of j x] that by (simp add: buckets win)
      qed
    qed
  qed
qed

lemma flushLocked_ok:
  assumes "agg_ok a"
  obtains ls a' where "flushLocked now a = Some (ls, a')" and "agg_ok a'" and "same_bounds a a'"
    and "\<And>K. written K ls + waiting K a' = waiting K a"
    and "\<And>k b. mget (ag_buckets a') k = Some b \<Longrightarrow> mget (ag_buckets a) k = Some b"
    and "\<And>k b. mget (ag_buckets a) k = Some b \<Longrightarrow> mget (ag_buckets a') k = None \<Longrightarrow> ag_window a \<le> now - bk_start b"
    and "set (ag_queue a') \<subseteq> set (ag_queue a)"
proof (rule flush_loop_ok [OF assms refl, of now])
  fix ls a' n
  assume r: "flush_loop now (ag_queue a) a = Some (ls, a')" "agg_ok a'" "ag_queue a' = drop n (ag_queue a)" "same_bounds a a'"
    "\<And>K. written K ls + waiting K a' = waiting K a"
    "\<And>k b. mget (ag_buckets a') k = Some b \<Longrightarrow> mget (ag_buckets a) k = Some b"
    "\<And>k b. mget (ag_buckets a) k = Some b \<Longrightarrow> mget (ag_buckets a') k = None \<Longrightarrow> ag_window a \<le> now - bk_start b"
  show thesis
    by (rule that [of ls a']) (use r in \<open>simp_all add: flushLocked_def set_drop_subset\<close>)
qed

lemma bucket_key_kind: "fst (bucket_key k a) = fst k"
  by (simp add: bucket_key_def)

lemma open_bucket_ok:
  assumes a: "agg_ok a" and k: "k = bucket_key (au_Kind ev, key) a" and new: "mget (ag_buckets a) k = None"
  shows "agg_ok (open_bucket now stream k ev a)" and "same_bounds a (open_bucket now stream k ev a)"
    and "waiting K (open_bucket now stream k ev a) = waiting K a"
    and "mget (ag_buckets (open_bucket now stream k ev a)) j = (if j = k then Some \<lparr>bk_start = now, bk_suppressed = 0, bk_last = ev, bk_stream = stream\<rparr> else mget (ag_buckets a) j)"
proof -
  let ?o = "open_bucket now stream k ev a"
  have fk: "fst k = au_Kind ev" using bucket_key_kind [of "(au_Kind ev, key)" a] k by simp
  have room: "is_keyed k \<Longrightarrow> kind_count a (fst k) < ag_maxPerKind a \<and> ag_keyed a < ag_maxTotal a"
    using k new unfolding bucket_key_def is_keyed_def by (auto split: if_splits)
  have nq: "k \<notin> set (ag_queue a)" using agg_okD(2) [OF a, of k] new by simp
  show b: "mget (ag_buckets ?o) j = (if j = k then Some \<lparr>bk_start = now, bk_suppressed = 0, bk_last = ev, bk_stream = stream\<rparr> else mget (ag_buckets a) j)" for j
    by (simp add: open_bucket_def Let_def)
  have q: "ag_queue ?o = ag_queue a @ [k]" by (simp add: open_bucket_def Let_def)
  have kc: "kind_count ?o L = kind_count a L + (if keyed_of L k then 1 else 0)" for L
    by (auto simp: open_bucket_def Let_def kind_count_def keyed_of_def is_keyed_def)
  have kt: "ag_keyed ?o = ag_keyed a + (if is_keyed k then 1 else 0)"
    by (simp add: open_bucket_def Let_def is_keyed_def)
  show sb: "same_bounds a ?o" by (simp add: open_bucket_def Let_def same_bounds_def)
  show "agg_ok ?o"
  proof (rule agg_okI)
    show "distinct (ag_queue ?o)" using agg_okD(1) [OF a] nq unfolding q by simp
    show "mget (ag_buckets ?o) j \<noteq> None \<longleftrightarrow> j \<in> set (ag_queue ?o)" for j
      using agg_okD(2) [OF a, of j] unfolding b q by auto
    show "kind_count ?o K = int (length (filter (keyed_of K) (ag_queue ?o)))" for K
      using agg_okD(3) [OF a, of K] unfolding kc q by simp
    show "kind_count ?o K \<le> ag_maxPerKind ?o" for K
      using agg_okD(4) [OF a, of K] room sb unfolding kc same_bounds_def by (auto simp: keyed_of_def)
    show "ag_keyed ?o = int (length (filter is_keyed (ag_queue ?o)))"
      using agg_okD(5) [OF a] unfolding kt q by simp
    show "ag_keyed ?o \<le> ag_maxTotal ?o" using agg_okD(6) [OF a] room sb unfolding kt same_bounds_def by auto
    show "au_Kind (bk_last x) = fst j" "0 \<le> bk_suppressed x" if "mget (ag_buckets ?o) j = Some x" for j x
      using agg_okD(7,8) [OF a, of j x] that fk unfolding b by (auto split: if_splits)
  qed
  have same: "map (waiting_in ?o K) (ag_queue a) = map (waiting_in a K) (ag_queue a)"
    using nq by (auto simp: waiting_in_def b)
  show "waiting K ?o = waiting K a" unfolding waiting_def q by (simp add: same waiting_in_def b)
qed

definition suppress :: "agg_key \<Rightarrow> audit_event \<Rightarrow> agg_bucket \<Rightarrow> aggregator \<Rightarrow> aggregator" where
  "suppress k ev b a = a\<lparr>ag_buckets := mput k (b\<lparr>bk_suppressed := bk_suppressed b + 1, bk_last := ev\<rparr>) (ag_buckets a)\<rparr>"

lemma suppress_ok:
  assumes a: "agg_ok a" and b: "mget (ag_buckets a) k = Some b" and k: "fst k = au_Kind ev"
  shows "agg_ok (suppress k ev b a)" and "same_bounds a (suppress k ev b a)"
    and "waiting K (suppress k ev b a) = waiting K a + (if au_Kind ev = K then 1 else 0)"
proof -
  have kc: "kind_count (suppress k ev b a) = kind_count a" by (rule ext) (simp add: suppress_def kind_count_def)
  have sq: "ag_queue (suppress k ev b a) = ag_queue a" "ag_keyed (suppress k ev b a) = ag_keyed a" by (simp_all add: suppress_def)
  have sb: "mget (ag_buckets (suppress k ev b a)) j =
      (if j = k then Some (b\<lparr>bk_suppressed := bk_suppressed b + 1, bk_last := ev\<rparr>) else mget (ag_buckets a) j)" for j
    by (simp add: suppress_def)
  show bounds: "same_bounds a (suppress k ev b a)" by (simp add: suppress_def same_bounds_def)
  show "agg_ok (suppress k ev b a)"
  proof (rule agg_okI)
    show "distinct (ag_queue (suppress k ev b a))" using agg_okD(1) [OF a] by (simp add: sq)
    show "mget (ag_buckets (suppress k ev b a)) j \<noteq> None \<longleftrightarrow> j \<in> set (ag_queue (suppress k ev b a))" for j
      using agg_okD(2) [OF a, of j] b unfolding sq sb by auto
    show "kind_count (suppress k ev b a) K = int (length (filter (keyed_of K) (ag_queue (suppress k ev b a))))" for K
      using agg_okD(3) [OF a, of K] unfolding kc sq .
    show "kind_count (suppress k ev b a) K \<le> ag_maxPerKind (suppress k ev b a)" for K
      using agg_okD(4) [OF a, of K] bounds unfolding kc same_bounds_def by simp
    show "ag_keyed (suppress k ev b a) = int (length (filter is_keyed (ag_queue (suppress k ev b a))))"
      using agg_okD(5) [OF a] unfolding sq .
    show "ag_keyed (suppress k ev b a) \<le> ag_maxTotal (suppress k ev b a)"
      using agg_okD(6) [OF a] bounds unfolding sq same_bounds_def by simp
    show "au_Kind (bk_last x) = fst j" "0 \<le> bk_suppressed x" if "mget (ag_buckets (suppress k ev b a)) j = Some x" for j x
      using agg_okD(7,8) [OF a, of j x] agg_okD(8) [OF a b] that k unfolding sb by (auto split: if_splits)
  qed
  have d: "distinct (ag_queue a)" and kq: "k \<in> set (ag_queue a)" using agg_okD(1) [OF a] agg_okD(2) [OF a, of k] b by simp_all
  have "waiting_in (suppress k ev b a) K j = waiting_in a K j + (if j = k \<and> au_Kind ev = K then 1 else 0)" for j
    using b k by (auto simp: waiting_in_def suppress_def)
  then have "waiting K (suppress k ev b a) = sum_list (map (\<lambda>j. waiting_in a K j + (if j = k \<and> au_Kind ev = K then 1 else 0)) (ag_queue a))"
    unfolding waiting_def sq by (intro arg_cong [where f = sum_list] map_cong refl)
  also have "\<dots> = waiting K a + sum_list (map (\<lambda>j. if j = k \<and> au_Kind ev = K then 1 else 0) (ag_queue a))"
    by (simp add: waiting_def sum_list_addf)
  also have "sum_list (map (\<lambda>j. if j = k \<and> au_Kind ev = K then 1 else (0 :: int)) (ag_queue a)) = (if au_Kind ev = K then 1 else 0)"
    using d kq by (simp add: sum_list_distinct_conv_sum_set sum.delta if_distrib [symmetric] cong: conj_cong)
  finally show "waiting K (suppress k ev b a) = waiting K a + (if au_Kind ev = K then 1 else 0)" .
qed

text \<open>Whether an event opens a window, and for which key.\<close>

definition opens_window :: "time \<Rightarrow> string \<Rightarrow> audit_event \<Rightarrow> aggregator \<Rightarrow> agg_key option" where
  "opens_window now key ev a0 =
     (case flushLocked now a0 of
        None \<Rightarrow> None
      | Some (ls, a) \<Rightarrow> (let k = bucket_key (au_Kind ev, key) a in if mget (ag_buckets a) k = None then Some k else None))"

lemma Record_ok:
  assumes a: "agg_ok a" and c: "au_Count ev = 0"
  obtains ls a' where "Record now stream key ev a = Some (ls, a')" and "agg_ok a'" and "same_bounds a a'"
    and "\<And>K. written K ls + waiting K a' = waiting K a + (if au_Kind ev = K then 1 else 0)"
    and "\<And>k. k \<in> set (ag_queue a') \<Longrightarrow> k \<in> set (ag_queue a) \<or> fst k = au_Kind ev"
    and "\<And>k b. mget (ag_buckets a') k = Some b \<Longrightarrow>
      (if opens_window now key ev a = Some k then bk_start b = now \<and> (\<forall>x. mget (ag_buckets a) k = Some x \<longrightarrow> ag_window a \<le> now - bk_start x)
       else \<exists>x. mget (ag_buckets a) k = Some x \<and> bk_start x = bk_start b)"
    and "\<And>k x. mget (ag_buckets a) k = Some x \<Longrightarrow> mget (ag_buckets a') k = None \<Longrightarrow> ag_window a \<le> now - bk_start x"
proof -
  obtain ls a1 where f: "flushLocked now a = Some (ls, a1)" "agg_ok a1" "same_bounds a a1"
    and w: "\<And>K. written K ls + waiting K a1 = waiting K a"
    and old: "\<And>k b. mget (ag_buckets a1) k = Some b \<Longrightarrow> mget (ag_buckets a) k = Some b"
    and gone: "\<And>k b. mget (ag_buckets a) k = Some b \<Longrightarrow> mget (ag_buckets a1) k = None \<Longrightarrow> ag_window a \<le> now - bk_start b"
    and qs: "set (ag_queue a1) \<subseteq> set (ag_queue a)"
    using flushLocked_ok [OF a] by blast
  define k where "k = bucket_key (au_Kind ev, key) a1"
  have fk: "fst k = au_Kind ev" by (simp add: k_def bucket_key_kind)
  show thesis
  proof (cases "mget (ag_buckets a1) k")
    case None
    note o = open_bucket_ok [OF f(2) k_def None]
    let ?o = "open_bucket now stream k ev a1"
    have op: "opens_window now key ev a = Some k" using None by (simp add: opens_window_def f(1) Let_def k_def [symmetric])
    show thesis
    proof (rule that [of "ls @ [(stream, stamped now ev)]" ?o])
      show "Record now stream key ev a = Some (ls @ [(stream, stamped now ev)], ?o)"
        using None by (simp add: Record_def f(1) Let_def k_def [symmetric])
      show "agg_ok ?o" by (rule o(1))
      show "same_bounds a ?o" using f(3) o(2) by (rule same_bounds_trans)
      show "written K (ls @ [(stream, stamped now ev)]) + waiting K ?o = waiting K a + (if au_Kind ev = K then 1 else 0)" for K
        using w [of K] c by (auto simp: o(3) line_weight_def stamped_def)
      show "j \<in> set (ag_queue a) \<or> fst j = au_Kind ev" if "j \<in> set (ag_queue ?o)" for j
        using that qs fk by (auto simp: open_bucket_def Let_def split: if_splits)
      show "if opens_window now key ev a = Some j then bk_start b = now \<and> (\<forall>x. mget (ag_buckets a) j = Some x \<longrightarrow> ag_window a \<le> now - bk_start x)
         else \<exists>x. mget (ag_buckets a) j = Some x \<and> bk_start x = bk_start b" if "mget (ag_buckets ?o) j = Some b" for j b
        using that old None gone unfolding op o(4) by (auto split: if_splits)
      show "ag_window a \<le> now - bk_start x" if "mget (ag_buckets a) j = Some x" "mget (ag_buckets ?o) j = None" for j x
        using that gone unfolding o(4) by (auto split: if_splits)
    qed
  next
    case (Some b)
    note o = suppress_ok [OF f(2) Some fk]
    let ?o = "suppress k ev b a1"
    have op: "opens_window now key ev a = None" using Some by (simp add: opens_window_def f(1) Let_def k_def [symmetric])
    show thesis
    proof (rule that [of ls ?o])
      show "Record now stream key ev a = Some (ls, ?o)"
        using Some by (simp add: Record_def f(1) Let_def k_def [symmetric] suppress_def)
      show "agg_ok ?o" by (rule o(1))
      show "same_bounds a ?o" using f(3) o(2) by (rule same_bounds_trans)
      show "written K ls + waiting K ?o = waiting K a + (if au_Kind ev = K then 1 else 0)" for K
        using w [of K] o(3) [of K] by simp
      show "j \<in> set (ag_queue a) \<or> fst j = au_Kind ev" if "j \<in> set (ag_queue ?o)" for j
        using that qs by (auto simp: suppress_def)
      show "if opens_window now key ev a = Some j then bk_start x = now \<and> (\<forall>y. mget (ag_buckets a) j = Some y \<longrightarrow> ag_window a \<le> now - bk_start y)
         else \<exists>y. mget (ag_buckets a) j = Some y \<and> bk_start y = bk_start x" if "mget (ag_buckets ?o) j = Some x" for j x
        using that old Some unfolding op by (auto simp: suppress_def split: if_splits)
      show "ag_window a \<le> now - bk_start x" if "mget (ag_buckets a) j = Some x" "mget (ag_buckets ?o) j = None" for j x
        using that gone by (auto simp: suppress_def split: if_splits)
    qed
  qed
qed

subsection \<open>Runs of an aggregator\<close>

text \<open>
  A run: at each time an event is recorded or a flush happens. Events come without a count, as every caller makes
  them.
\<close>

type_synonym agg_op = "time \<times> (audit_stream \<times> string \<times> audit_event) option"

definition agg_step :: "agg_op \<Rightarrow> aggregator \<Rightarrow> (pending list \<times> aggregator) option" where
  "agg_step op a = (case op of
     (now, None) \<Rightarrow> flushLocked now a
   | (now, Some (stream, key, ev)) \<Rightarrow> Record now stream key (ev\<lparr>au_Count := 0\<rparr>) a)"

fun agg_run :: "agg_op list \<Rightarrow> aggregator \<Rightarrow> (pending list \<times> aggregator) option" where
  "agg_run [] a = Some ([], a)"
| "agg_run (op # ops) a = (case agg_step op a of
     None \<Rightarrow> None
   | Some (ls, a1) \<Rightarrow> (case agg_run ops a1 of None \<Rightarrow> None | Some (ms, a2) \<Rightarrow> Some (ls @ ms, a2)))"

definition op_kind :: "agg_op \<Rightarrow> string option" where
  "op_kind op = (case op of (now, None) \<Rightarrow> None | (now, Some (stream, key, ev)) \<Rightarrow> Some (au_Kind ev))"

definition recorded :: "string \<Rightarrow> agg_op list \<Rightarrow> int" where
  "recorded K ops = int (length (filter (\<lambda>op. op_kind op = Some K) ops))"

definition kinds :: "agg_op list \<Rightarrow> string set" where
  "kinds ops = {K. Some K \<in> op_kind ` set ops}"

lemma kinds_simps [simp]: "kinds [] = {}" "kinds (op # ops) = (case op_kind op of None \<Rightarrow> {} | Some K \<Rightarrow> {K}) \<union> kinds ops"
  by (auto simp: kinds_def split: option.splits)

lemma agg_step_ok:
  assumes a: "agg_ok a"
  obtains ls a' where "agg_step op a = Some (ls, a')" and "agg_ok a'" and "same_bounds a a'"
    and "\<And>K. written K ls + waiting K a' = waiting K a + (if op_kind op = Some K then 1 else 0)"
    and "\<And>k. k \<in> set (ag_queue a') \<Longrightarrow> k \<in> set (ag_queue a) \<or> op_kind op = Some (fst k)"
proof (cases "snd op")
  case None
  have step: "agg_step op a = flushLocked (fst op) a" and kind: "op_kind op = None"
    using None by (cases op; simp add: agg_step_def op_kind_def)+
  show thesis
  proof (rule flushLocked_ok [OF a, of "fst op"])
    fix ls a'
    assume f: "flushLocked (fst op) a = Some (ls, a')" "agg_ok a'" "same_bounds a a'"
      and w: "\<And>K. written K ls + waiting K a' = waiting K a" and q: "set (ag_queue a') \<subseteq> set (ag_queue a)"
    show thesis
      by (rule that [of ls a']) (use f w q in \<open>auto simp: step kind\<close>)
  qed
next
  case (Some e)
  obtain stream key ev where e: "op = (fst op, Some (stream, key, ev))" using Some by (cases op; cases e) simp
  let ?ev = "ev\<lparr>au_Count := 0\<rparr>"
  have z: "au_Count ?ev = 0" by simp
  have step: "agg_step op a = Record (fst op) stream key ?ev a" by (subst e) (simp add: agg_step_def)
  have kind: "op_kind op = Some (au_Kind ev)" by (subst e) (simp add: op_kind_def)
  show thesis
  proof (rule Record_ok [OF a z, of "fst op" stream key])
    fix ls a'
    assume f: "Record (fst op) stream key ?ev a = Some (ls, a')" "agg_ok a'" "same_bounds a a'"
      and w: "\<And>K. written K ls + waiting K a' = waiting K a + (if au_Kind ?ev = K then 1 else 0)"
      and q: "\<And>k. k \<in> set (ag_queue a') \<Longrightarrow> k \<in> set (ag_queue a) \<or> fst k = au_Kind ?ev"
    have q': "k \<in> set (ag_queue a) \<or> op_kind op = Some (fst k)" if "k \<in> set (ag_queue a')" for k
      using q [OF that] kind by auto
    show thesis
      by (rule that [of ls a']) (use f w q' in \<open>simp_all add: step kind\<close>)
  qed
qed

lemma agg_run_ok:
  assumes "agg_ok a"
  obtains ls a' where "agg_run ops a = Some (ls, a')" and "agg_ok a'" and "same_bounds a a'"
    and "\<And>K. written K ls + waiting K a' = waiting K a + recorded K ops"
    and "\<And>k. k \<in> set (ag_queue a') \<Longrightarrow> k \<in> set (ag_queue a) \<or> fst k \<in> kinds ops"
  using assms
proof (induction ops arbitrary: a thesis)
  case Nil
  then show ?case by (simp add: recorded_def same_bounds_def)
next
  case (Cons op ops)
  obtain ls a1 where s: "agg_step op a = Some (ls, a1)" "agg_ok a1" "same_bounds a a1"
    and w: "\<And>K. written K ls + waiting K a1 = waiting K a + (if op_kind op = Some K then 1 else 0)"
    and q: "\<And>k. k \<in> set (ag_queue a1) \<Longrightarrow> k \<in> set (ag_queue a) \<or> op_kind op = Some (fst k)"
    using agg_step_ok [OF Cons.prems(2)] by blast
  obtain ms a2 where r: "agg_run ops a1 = Some (ms, a2)" "agg_ok a2" "same_bounds a1 a2"
    and w2: "\<And>K. written K ms + waiting K a2 = waiting K a1 + recorded K ops"
    and q2: "\<And>k. k \<in> set (ag_queue a2) \<Longrightarrow> k \<in> set (ag_queue a1) \<or> fst k \<in> kinds ops"
    using Cons.IH [OF _ s(2)] by blast
  show ?case
  proof (rule Cons.prems(1) [of "ls @ ms" a2])
    show "agg_run (op # ops) a = Some (ls @ ms, a2)" by (simp add: s r)
    show "agg_ok a2" by (rule r(2))
    show "same_bounds a a2" using s(3) r(3) by (rule same_bounds_trans)
    show "written K (ls @ ms) + waiting K a2 = waiting K a + recorded K (op # ops)" for K
      using w [of K] w2 [of K] by (cases "op_kind op = Some K") (simp_all add: recorded_def)
    show "k \<in> set (ag_queue a) \<or> fst k \<in> kinds (op # ops)" if "k \<in> set (ag_queue a2)" for k
      using q2 [OF that] q [of k] by auto
  qed
qed

text \<open>The number of buckets: the keyed ones, and at most one \<open>other\<close> bucket for each kind.\<close>

lemma size_queue: "agg_ok a \<Longrightarrow> Size a = length (ag_queue a)"
  using agg_okD(1,2) [of a] mlen_card [of "ag_buckets a"] distinct_card [of "ag_queue a"]
  by (simp add: Size_def)

lemma others_bounded:
  assumes "agg_ok a" and "\<And>k. k \<in> set (ag_queue a) \<Longrightarrow> fst k \<in> S" and "finite S"
  shows "length (ag_queue a) \<le> nat (ag_keyed a) + card S"
proof -
  let ?o = "filter (\<lambda>k. \<not> is_keyed k) (ag_queue a)"
  have "distinct ?o" using agg_okD(1) [OF assms(1)] by simp
  moreover have "inj_on fst (set ?o)" by (auto simp: inj_on_def is_keyed_def)
  ultimately have "length ?o = card (fst ` set ?o)" using card_image [of fst "set ?o"] distinct_card [of ?o] by (simp only:)
  also have "\<dots> \<le> card S" by (rule card_mono [OF assms(3)]) (use assms(2) in auto)
  finally have "length ?o \<le> card S" .
  moreover have "length (filter is_keyed (ag_queue a)) + length ?o = length (ag_queue a)" by (rule sum_length_filter_compl)
  ultimately show ?thesis using agg_okD(5) [OF assms(1)] by simp
qed

lemma finite_kinds: "finite (kinds ops)"
  by (induction ops) (auto split: option.split)

text \<open>
  C33: aggregation loses no event and cannot be flooded. From a new aggregator every run of records and flushes
  succeeds; for each kind the events recorded are exactly those written, a summary counting for its count, plus
  those still waiting in an open window; and the buckets held are at most the total limit and one for each kind.
\<close>

theorem audit_counts_add_up:
  "case agg_run ops (newAuditAggregator w txt (int p) (int t)) of
     None \<Rightarrow> False
   | Some (ls, a) \<Rightarrow> written K ls + waiting K a = recorded K ops \<and> Size a \<le> t + card (kinds ops)"
proof -
  let ?a0 = "newAuditAggregator w txt (int p) (int t)"
  have ok: "agg_ok ?a0" by (rule agg_ok_new) simp_all
  obtain ls a where r: "agg_run ops ?a0 = Some (ls, a)" "agg_ok a" "same_bounds ?a0 a"
    and w: "\<And>K. written K ls + waiting K a = waiting K ?a0 + recorded K ops"
    and q: "\<And>k. k \<in> set (ag_queue a) \<Longrightarrow> k \<in> set (ag_queue ?a0) \<or> fst k \<in> kinds ops"
    using agg_run_ok [OF ok] by blast
  have z: "ag_queue ?a0 = []" "waiting K ?a0 = 0" "ag_maxTotal ?a0 = int t"
    by (simp_all add: newAuditAggregator_def waiting_def)
  have "nat (ag_keyed a) \<le> t" using agg_okD(6) [OF r(2)] r(3) z(3) by (simp add: same_bounds_def)
  moreover have "length (ag_queue a) \<le> nat (ag_keyed a) + card (kinds ops)"
    by (rule others_bounded [OF r(2) _ finite_kinds]) (use q z in auto)
  ultimately show ?thesis using w [of K] z(2) r(1,2) by (simp add: size_queue)
qed

subsection \<open>One line for each window\<close>

text \<open>The window a step opens, which is when it writes the first line of a key.\<close>

definition opened_by :: "agg_op \<Rightarrow> aggregator \<Rightarrow> agg_key option" where
  "opened_by op a = (case op of
     (now, None) \<Rightarrow> None
   | (now, Some (stream, key, ev)) \<Rightarrow> opens_window now key (ev\<lparr>au_Count := 0\<rparr>) a)"

fun windows_opened :: "agg_op list \<Rightarrow> aggregator \<Rightarrow> (agg_key \<times> time) list" where
  "windows_opened [] a = []"
| "windows_opened (op # ops) a = (case agg_step op a of
     None \<Rightarrow> []
   | Some (ls, a1) \<Rightarrow> (case opened_by op a of None \<Rightarrow> [] | Some k \<Rightarrow> [(k, fst op)]) @ windows_opened ops a1)"

text \<open>How the buckets change: those that are gone or restarted had their window behind them.\<close>

definition buckets_step :: "time \<Rightarrow> agg_key option \<Rightarrow> aggregator \<Rightarrow> aggregator \<Rightarrow> bool" where
  "buckets_step now new a a' \<longleftrightarrow>
     (\<forall>k b. mget (ag_buckets a') k = Some b \<longrightarrow>
        (if new = Some k then bk_start b = now \<and> (\<forall>x. mget (ag_buckets a) k = Some x \<longrightarrow> ag_window a \<le> now - bk_start x)
         else \<exists>x. mget (ag_buckets a) k = Some x \<and> bk_start x = bk_start b)) \<and>
     (\<forall>k x. mget (ag_buckets a) k = Some x \<longrightarrow> mget (ag_buckets a') k = None \<longrightarrow> ag_window a \<le> now - bk_start x)"

lemma agg_step_buckets:
  assumes a: "agg_ok a"
  obtains ls a' where "agg_step op a = Some (ls, a')" and "agg_ok a'" and "same_bounds a a'"
    and "buckets_step (fst op) (opened_by op a) a a'"
proof (cases "snd op")
  case None
  have step: "agg_step op a = flushLocked (fst op) a" and o: "opened_by op a = None"
    using None by (cases op; simp add: agg_step_def opened_by_def)+
  show thesis
  proof (rule flushLocked_ok [OF a, of "fst op"])
    fix ls a'
    assume f: "flushLocked (fst op) a = Some (ls, a')" "agg_ok a'" "same_bounds a a'"
      and old: "\<And>k b. mget (ag_buckets a') k = Some b \<Longrightarrow> mget (ag_buckets a) k = Some b"
      and gone: "\<And>k b. mget (ag_buckets a) k = Some b \<Longrightarrow> mget (ag_buckets a') k = None \<Longrightarrow> ag_window a \<le> fst op - bk_start b"
    have "buckets_step (fst op) None a a'" unfolding buckets_step_def using old gone by auto
    then show thesis using that [of ls a'] f by (simp add: step o)
  qed
next
  case (Some e)
  obtain stream key ev where e: "op = (fst op, Some (stream, key, ev))" using Some by (cases op; cases e) simp
  let ?ev = "ev\<lparr>au_Count := 0\<rparr>"
  have z: "au_Count ?ev = 0" by simp
  have step: "agg_step op a = Record (fst op) stream key ?ev a" by (subst e) (simp add: agg_step_def)
  have o: "opened_by op a = opens_window (fst op) key ?ev a" by (subst e) (simp add: opened_by_def)
  show thesis
  proof (rule Record_ok [OF a z, of "fst op" stream key])
    fix ls a'
    assume f: "Record (fst op) stream key ?ev a = Some (ls, a')" "agg_ok a'" "same_bounds a a'"
      and b: "\<And>k b. mget (ag_buckets a') k = Some b \<Longrightarrow>
        (if opens_window (fst op) key ?ev a = Some k then bk_start b = fst op \<and> (\<forall>x. mget (ag_buckets a) k = Some x \<longrightarrow> ag_window a \<le> fst op - bk_start x)
         else \<exists>x. mget (ag_buckets a) k = Some x \<and> bk_start x = bk_start b)"
      and gone: "\<And>k x. mget (ag_buckets a) k = Some x \<Longrightarrow> mget (ag_buckets a') k = None \<Longrightarrow> ag_window a \<le> fst op - bk_start x"
    have "buckets_step (fst op) (opened_by op a) a a'"
      unfolding buckets_step_def o by (intro conjI allI impI, rule b, assumption, rule gone)
    then show thesis using that [of ls a'] f by (simp only: step)
  qed
qed

text \<open>Past first lines: the latest one of a key with a bucket is not after its start, the others are over.\<close>

definition past_ok :: "time \<Rightarrow> aggregator \<Rightarrow> (agg_key \<times> time) list \<Rightarrow> bool" where
  "past_ok T a past \<longleftrightarrow> (\<forall>p \<in> set past. snd p \<le> T \<and>
     (case mget (ag_buckets a) (fst p) of Some b \<Rightarrow> snd p \<le> bk_start b | None \<Rightarrow> ag_window a \<le> T - snd p))"

definition apart :: "dur \<Rightarrow> (agg_key \<times> time) \<Rightarrow> (agg_key \<times> time) \<Rightarrow> bool" where
  "apart w p q \<longleftrightarrow> (if fst p = fst q then w \<le> snd q - snd p else True)"

lemma past_step:
  assumes past: "past_ok T a past" and T: "T \<le> now" and w: "same_bounds a a'" and st: "buckets_step now new a a'"
    and p: "p \<in> set past"
  shows "snd p \<le> now" and "case mget (ag_buckets a') (fst p) of Some b \<Rightarrow> snd p \<le> bk_start b | None \<Rightarrow> ag_window a' \<le> now - snd p"
    and "new = Some (fst p) \<Longrightarrow> mget (ag_buckets a') (fst p) \<noteq> None \<Longrightarrow> ag_window a \<le> now - snd p"
proof -
  have pT: "snd p \<le> T" and pb: "case mget (ag_buckets a) (fst p) of Some b \<Rightarrow> snd p \<le> bk_start b | None \<Rightarrow> ag_window a \<le> T - snd p"
    using past p by (auto simp: past_ok_def)
  have b: "if new = Some k then bk_start b = now \<and> (\<forall>x. mget (ag_buckets a) k = Some x \<longrightarrow> ag_window a \<le> now - bk_start x)
      else \<exists>x. mget (ag_buckets a) k = Some x \<and> bk_start x = bk_start b" if "mget (ag_buckets a') k = Some b" for k b
    using st that unfolding buckets_step_def by blast
  have gone: "ag_window a \<le> now - bk_start x" if "mget (ag_buckets a) k = Some x" "mget (ag_buckets a') k = None" for k x
    using st that unfolding buckets_step_def by blast
  show n: "snd p \<le> now" using pT T by simp
  have win: "ag_window a' = ag_window a" using w by (simp add: same_bounds_def)
  show "case mget (ag_buckets a') (fst p) of Some b \<Rightarrow> snd p \<le> bk_start b | None \<Rightarrow> ag_window a' \<le> now - snd p"
  proof (cases "mget (ag_buckets a') (fst p)")
    case None
    show ?thesis
    proof (cases "mget (ag_buckets a) (fst p)")
      case (Some x)
      then show ?thesis using gone [OF Some None] pb None win by simp
    qed (use pb T None win in simp)
  next
    case (Some y)
    show ?thesis using b [OF Some] Some pb n by (cases "new = Some (fst p)") (auto simp del: split_paired_Ex)
  qed
  show "ag_window a \<le> now - snd p" if new: "new = Some (fst p)" and some: "mget (ag_buckets a') (fst p) \<noteq> None"
  proof (cases "mget (ag_buckets a) (fst p)")
    case None
    then show ?thesis using pb T by simp
  next
    case (Some x)
    obtain y where "mget (ag_buckets a') (fst p) = Some y" using some by auto
    then show ?thesis using b [of "fst p" y] new Some pb by simp
  qed
qed

lemma opened_exists: "agg_step op a = Some (ls, a') \<Longrightarrow> opened_by op a = Some k \<Longrightarrow> mget (ag_buckets a') k \<noteq> None"
  by (auto simp: agg_step_def opened_by_def opens_window_def Record_def Let_def open_bucket_def
      split: prod.splits option.splits if_splits)

lemma windows_spaced:
  assumes "agg_ok a" and "sorted (T # map fst ops)" and "past_ok T a past" and "sorted_wrt (apart (ag_window a)) past"
  shows "sorted_wrt (apart (ag_window a)) (past @ windows_opened ops a)"
  using assms
proof (induction ops arbitrary: T a past)
  case Nil
  then show ?case by simp
next
  case (Cons op ops)
  show ?case
  proof (rule agg_step_buckets [OF Cons.prems(1), of op])
    fix ls a'
    assume st: "agg_step op a = Some (ls, a')" "agg_ok a'" "same_bounds a a'" "buckets_step (fst op) (opened_by op a) a a'"
    have T: "T \<le> fst op" and srt: "sorted (fst op # map fst ops)" using Cons.prems(2) by simp_all
    have win: "ag_window a' = ag_window a" using st(3) by (simp add: same_bounds_def)
    let ?new = "case opened_by op a of None \<Rightarrow> [] | Some k \<Rightarrow> [(k, fst op)]"
    note ps = past_step [OF Cons.prems(3) T st(3,4)]
    have old_ok: "past_ok (fst op) a' past"
      unfolding past_ok_def using ps(1,2) by blast
    have new_ok: "past_ok (fst op) a' (past @ ?new) \<and> sorted_wrt (apart (ag_window a')) (past @ ?new)"
    proof (cases "opened_by op a")
      case None
      then show ?thesis using old_ok Cons.prems(4) win by simp
    next
      case (Some k)
      obtain y where y: "mget (ag_buckets a') k = Some y" using opened_exists [OF st(1) Some] by auto
      have "bk_start y = fst op" using st(4) [unfolded buckets_step_def, THEN conjunct1, rule_format, OF y] Some by simp
      moreover have "apart (ag_window a) p (k, fst op)" if "p \<in> set past" for p
        using ps(3) [OF that] Some y by (auto simp: apart_def)
      ultimately show ?thesis using old_ok Cons.prems(4) Some y win
        by (auto simp: past_ok_def sorted_wrt_append)
    qed
    have "sorted_wrt (apart (ag_window a')) ((past @ ?new) @ windows_opened ops a')"
      by (rule Cons.IH [OF st(2) srt]) (use new_ok in blast)+
    then show ?thesis by (simp add: st(1) win)
  qed
qed

text \<open>
  One line in a window. While the clock does not go back, two first lines for the same key are at least the
  window apart, however the calls are made.
\<close>

theorem audit_lines_spaced:
  assumes "sorted (map fst ops)"
  shows "sorted_wrt (apart win) (windows_opened ops (newAuditAggregator win txt (int p) (int t)))"
proof (cases ops)
  case Nil
  then show ?thesis by simp
next
  case (Cons op rest)
  have "sorted (fst op # map fst ops)" using assms Cons by simp
  moreover have "agg_ok (newAuditAggregator win txt (int p) (int t))" by (rule agg_ok_new) simp_all
  moreover have "ag_window (newAuditAggregator win txt (int p) (int t)) = win" by (simp add: newAuditAggregator_def)
  ultimately show ?thesis using windows_spaced [of "newAuditAggregator win txt (int p) (int t)" "fst op" ops "[]"]
    by (simp add: past_ok_def)
qed

text \<open>A run over a clock that moves: two events of a key in a window, one after it, and another key.\<close>

definition demo_ops :: "agg_op list" where
  "demo_ops = (let e = auditEventOf 0 ''login'' ''ip'' ''fail'' ''x'' in
     [(0, Some (Ops, ''a'', e)), (10, Some (Ops, ''a'', e)), (70, Some (Ops, ''a'', e)), (75, None), (80, Some (Ops, ''b'', e))])"

lemma audit_lines_spaced_witness:
  "sorted (map fst demo_ops) \<and> sorted_wrt (apart 60) (windows_opened demo_ops (newAuditAggregator 60 ''w'' (int 4) (int 9)))"
proof
  show srt: "sorted (map fst demo_ops)" by (simp add: demo_ops_def Let_def)
  show "sorted_wrt (apart 60) (windows_opened demo_ops (newAuditAggregator 60 ''w'' (int 4) (int 9)))"
    by (rule audit_lines_spaced [OF srt])
qed

subsection \<open>The ring\<close>

lemma insert_newest_mset [simp]: "mset (insert_newest e xs) = add_mset e (mset xs)"
  by (induction xs) auto

lemma newest_first_mset [simp]: "mset (newest_first es) = mset es"
  by (induction es) (simp_all add: newest_first_def)

lemma insert_newest_sorted:
  "sorted_wrt (\<lambda>x y. au_At y \<le> au_At x) xs \<Longrightarrow> sorted_wrt (\<lambda>x y. au_At y \<le> au_At x) (insert_newest e xs)"
proof (induction xs)
  case (Cons x xs)
  have "set (insert_newest e xs) = insert e (set xs)"
    using arg_cong [OF insert_newest_mset [of e xs], of set_mset] by (simp only: set_mset_mset set_mset_add_mset_insert)
  then show ?case using Cons by auto
qed simp

lemma newest_first_sorted: "sorted_wrt (\<lambda>x y. au_At y \<le> au_At x) (newest_first es)"
  by (induction es) (simp_all add: newest_first_def insert_newest_sorted)

lemma shares_bounds:
  fixes limit :: int and a :: audit_log
  defines "wanted \<equiv> (if limit \<le> 0 \<or> limit > int (al_cap a) then al_cap a else nat limit)"
  assumes sh: "shares limit a = (np, no)"
  shows "np \<le> length (al_protected a)" and "no \<le> length (al_other a)" and "np = length (al_protected a) \<or> no \<le> np"
    and "np + no = min wanted (length (al_protected a) + length (al_other a))"
proof -
  define p q l r where "p = length (al_protected a)" and "q = length (al_other a)" and "l = min wanted (p + q)"
    and "r = min p ((l + 1) div 2)"
  have l: "(if wanted > p + q then p + q else wanted) = l" by (simp add: l_def)
  have s: "no = min q (l - r)" "np = min p (l - no)"
    using sh unfolding shares_def Let_def wanted_def [symmetric] p_def [symmetric] q_def [symmetric] l r_def [symmetric] by auto
  have lpq: "l \<le> p + q" and rp: "r \<le> p" by (simp_all add: l_def r_def)
  have rl: "r \<le> l" by (simp add: r_def)
  show "np \<le> length (al_protected a)" "no \<le> length (al_other a)" using s by (simp_all add: p_def q_def)
  show "np + no = min wanted (length (al_protected a) + length (al_other a))"
  proof -
    have "np + no = l" using s lpq rp rl by linarith
    then show ?thesis by (simp add: l_def p_def q_def)
  qed
  show "np = length (al_protected a) \<or> no \<le> np"
  proof (cases "r = p")
    case True
    then have "np = p" using s rl by linarith
    then show ?thesis by (simp add: p_def)
  next
    case False
    then have "r = (l + 1) div 2" by (simp add: r_def min_def split: if_splits)
    then have "l - r \<le> r" by linarith
    then have "no \<le> np" using s rp rl by linarith
    then show ?thesis by simp
  qed
qed

text \<open>
  C34: failure noise cannot push high-value lines out. An answer of the ring holds the latest lines of both shares,
  newest first, as many as asked for when there are that many, and at least as many protected ones as others
  unless all of them are in it; and a line of the ops stream leaves the protected share alone.
\<close>

theorem ring_keeps_protected:
  "case shares limit a of (np, no) \<Rightarrow>
     mset (Recent limit a) = mset (last_n np (al_protected a)) + mset (last_n no (al_other a)) \<and>
     sorted_wrt (\<lambda>x y. au_At y \<le> au_At x) (Recent limit a) \<and>
     np + no = min (if limit \<le> 0 \<or> limit > int (al_cap a) then al_cap a else nat limit) (length (al_protected a) + length (al_other a)) \<and>
     (if np = length (al_protected a) then True else no \<le> np) \<and>
     al_protected (sk_ring (WriteAudit now Ops ev (k\<lparr>sk_ring := a\<rparr>))) = al_protected a"
proof -
  obtain np no where s: "shares limit a = (np, no)" by (cases "shares limit a")
  show ?thesis unfolding s prod.case
    using shares_bounds [OF s] by (auto simp: Recent_def s newest_first_sorted WriteAudit_def Let_def Add_def ring_protects_def)
qed

end
