(* ===== verification/Config.thy ===== *)
theory Config
  imports Mor_Limit Lockout "HOL-Library.Monad_Syntax"
begin

section \<open>Configuration and the settings registry (\<open>internal/config\<close>)\<close>

text \<open>
  The process reads its environment once (\<open>FromEnv\<close>, \<open>config.go\<close>); the settings the console manages are the
  rows of one table (\<open>Settings\<close>, \<open>settings_registry.go\<close>), each with its check, its canonical form and the field it
  sets. \<open>os.Getenv\<close> is the function \<open>env\<close> (the empty string: not set) and \<open>url.Parse\<close> a parameter that gives the
  parts the code looks at. Log lines, help texts and the names of the reading code (\<open>Help\<close>, \<open>Consumer\<close>) are left out.
\<close>

subsection \<open>Configuration\<close>

text \<open>The fields of the cap (\<open>MaxStMorPerSession\<close>, \<open>StakeLimitWei\<close>, \<open>StakeLimitInvalid\<close>, \<open>SettingNotes\<close>) are \<open>cf_Cap\<close>.\<close>

record config =
  cf_Listen :: string
  cf_RouterURL :: string
  cf_RouterUser :: string
  cf_RouterPass :: string
  cf_AdminPassword :: string
  cf_APIKeySeed :: string
  cf_DataDir :: string
  cf_ActiveModelsURL :: string
  cf_GatewayBidsURL :: string
  cf_SessionDurationSec :: int
  cf_SessionFailover :: bool
  cf_ProviderCooldownSec :: int
  cf_DirectPaymentIgnored :: bool
  cf_CloseSessionsOnExit :: bool
  cf_DiamondAddress :: string
  cf_EthNodeChainID :: int
  cf_Housekeeping :: bool
  cf_UsagePruneDays :: int
  cf_ReconcileGateSec :: int
  cf_ReconcileRetrySec :: int
  cf_EthRPCURL :: string
  cf_WebPublicURL :: string
  cf_MasterKeyAdmin :: bool
  cf_MalformedBoolVars :: "string list"
  cf_DevHTTP :: bool
  cf_TrustedProxyCIDRs :: "string list"
  cf_Reset2FA :: bool
  cf_AuditRetentionDays :: int
  cf_ProviderExclude :: "string list"
  cf_SessionDurationMax :: int
  cf_ForwardIdleSec :: int
  cf_SessionIdleGraceSec :: int
  cf_SessionRelease :: bool
  cf_LogLevel :: string
  cf_IgnoredEnv :: "string list"
  cf_EnvOnlySet :: "string list"
  cf_Cap :: cap_cfg

subsection \<open>Standard-library text\<close>

text \<open>\<open>strconv.ParseBool\<close> and \<open>FormatBool\<close>; the registry's conversions give the zero value on an error.\<close>

definition ParseBool :: "string \<Rightarrow> bool option" where
  "ParseBool s =
     (if s \<in> set [''1'', ''t'', ''T'', ''TRUE'', ''true'', ''True''] then Some True
      else if s \<in> set [''0'', ''f'', ''F'', ''FALSE'', ''false'', ''False''] then Some False
      else None)"

definition atoi :: "string \<Rightarrow> int" where "atoi s = (case parse_int64 s of None \<Rightarrow> 0 | Some n \<Rightarrow> n)"
definition btoa :: "bool \<Rightarrow> string" where "btoa b = (if b then ''true'' else ''false'')"
definition atob :: "string \<Rightarrow> bool" where "atob s = (ParseBool s = Some True)"

fun join_with :: "string \<Rightarrow> string list \<Rightarrow> string" where
  "join_with sep [] = []"
| "join_with sep [p] = p"
| "join_with sep (p # q # ps) = p @ sep @ join_with sep (q # ps)"

definition trim_slashes :: "string \<Rightarrow> string" where
  "trim_slashes s = rev (dropWhile (\<lambda>c. c = CHR ''/'') (rev s))"

definition strip_chars :: "char list \<Rightarrow> string \<Rightarrow> string" where
  "strip_chars cs s = filter (\<lambda>c. c \<notin> set cs) s"

text \<open>\<open>strings.Cut(s, ":")\<close>.\<close>

definition cut_colon :: "string \<Rightarrow> (string \<times> string) option" where
  "cut_colon s = (case dropWhile (\<lambda>c. c \<noteq> CHR '':'') s of [] \<Rightarrow> None | c # rest \<Rightarrow> Some (takeWhile (\<lambda>c. c \<noteq> CHR '':'') s, rest))"

text \<open>\<open>strings.ReplaceAll(s, w, "")\<close> for a non-empty \<open>w\<close>.\<close>

function remove_all :: "string \<Rightarrow> string \<Rightarrow> string" where
  "remove_all w s =
     (case s of [] \<Rightarrow> []
      | c # cs \<Rightarrow> if w \<noteq> [] \<and> has_prefix s w then remove_all w (drop (length w) s) else c # remove_all w cs)"
  by pat_completeness auto

termination
  by (relation "measure (\<lambda>(w, s). length s)") auto

declare remove_all.simps [simp del]

definition dots :: string where "dots = [CHR 0xE2, CHR 0x80, CHR 0xA6]"   \<comment> \<open>U+2026\<close>

subsection \<open>Excluded providers\<close>

definition hex_digit :: "char \<Rightarrow> bool" where "hex_digit c \<longleftrightarrow> hex_val c \<noteq> None"

definition reProviderAddr :: "string \<Rightarrow> bool" where
  "reProviderAddr s \<longleftrightarrow> has_prefix s ''0x'' \<and> length s = 42 \<and> list_all hex_digit (drop 2 s)"

fun exclude_entries :: "string list \<Rightarrow> string list \<Rightarrow> string list" where
  "exclude_entries [] seen = seen"
| "exclude_entries (p # ps) seen =
     (let pr = to_lower (trim p) in
      if pr = [] then exclude_entries ps seen
      else if \<not> reProviderAddr pr then exclude_entries ps seen
      else exclude_entries ps (if pr \<in> set seen then seen else seen @ [pr]))"

definition ParseProviderExclude :: "string \<Rightarrow> string list" where
  "ParseProviderExclude v = sort (exclude_entries (split_commas v) [])"

definition ErrProviderExcludeOldFormat :: string where
  "ErrProviderExcludeOldFormat = ''the format changed to a plain comma-separated list of 0x provider addresses, '' @
     ''excluded for every model (no <model>= entries, no '' @ [CHR 0x27, CHR '';'', CHR 0x27] @ ''); re-enter it on the Settings tab''"

fun bad_entry :: "int \<Rightarrow> string list \<Rightarrow> string option" where
  "bad_entry i [] = None"
| "bad_entry i (p # ps) =
     (let pr = trim p in
      if pr = [] then bad_entry (i + 1) ps
      else if \<not> reProviderAddr pr then Some (''entry '' @ show_int (i + 1) @ '' is not a 0x provider address (0x + 40 hex)'')
      else bad_entry (i + 1) ps)"

definition ValidateProviderExclude :: "string \<Rightarrow> string option" where
  "ValidateProviderExclude v =
     (if CHR ''='' \<in> set v \<or> CHR '';'' \<in> set v then Some ErrProviderExcludeOldFormat else bad_entry 0 (split_commas v))"

definition FormatProviderExclude :: "string list \<Rightarrow> string" where
  "FormatProviderExclude provs = join_with '','' provs"

definition CanonProviderExclude :: "string \<Rightarrow> string" where
  "CanonProviderExclude v = FormatProviderExclude (ParseProviderExclude v)"

definition errMorLimit :: string where
  "errMorLimit = ''must be empty (no limit) or a number above 0, at most 100000, with at most 6 decimals''"

text \<open>\<open>checkMorLimit\<close> and \<open>setMaxStMorPerSession\<close> as the row uses them.\<close>

definition check_mor :: "string \<Rightarrow> string option" where
  "check_mor v = (if checkMorLimit v then None else Some errMorLimit)"

definition set_mor :: "string \<Rightarrow> config \<Rightarrow> config" where
  "set_mor v c = c\<lparr>cf_Cap := setMaxStMorPerSession v (cf_Cap c)\<rparr>"

definition ParseLogLevel :: "string \<Rightarrow> string" where
  "ParseLogLevel v0 =
     (let v = to_lower (trim v0) in
      if v = ''debug'' then ''debug''
      else if v = ''info'' then ''info''
      else if v = ''warn'' \<or> v = ''warning'' then ''warn''
      else if v = ''error'' then ''error''
      else [])"

subsection \<open>The registry\<close>

datatype setting_kind = KindInt | KindBool | KindEnum | KindString
datatype setting_scope = ScopeLive | ScopeRestart | ScopeRouter | ScopeEnvOnly

record setting_def =
  sd_Name :: string
  sd_Env :: string
  sd_Kind :: setting_kind
  sd_Min :: int
  sd_Max :: int
  sd_Options :: "string list"
  sd_Default :: string
  sd_Scope :: setting_scope
  sd_Group :: string
  sd_check :: "(string \<Rightarrow> string option) option"
  sd_canon :: "(string \<Rightarrow> string) option"
  sd_get :: "(config \<Rightarrow> string) option"
  sd_set :: "(string \<Rightarrow> config \<Rightarrow> config) option"
  sd_keepInvalid :: bool

definition KeepsInvalid :: "setting_def \<Rightarrow> bool" where "KeepsInvalid d = sd_keepInvalid d"

definition logLevels :: "string list" where "logLevels = [''debug'', ''info'', ''warn'', ''error'']"
definition routerLogLevels :: "string list" where
  "routerLogLevels = [''debug'', ''info'', ''warn'', ''error'', ''dpanic'', ''panic'', ''fatal'']"

definition MaxProviderCooldownSec :: int where "MaxProviderCooldownSec = 86400"

text \<open>The rows share these shapes; a field the row does not name has its zero value.\<close>

definition row :: "string \<Rightarrow> string \<Rightarrow> setting_kind \<Rightarrow> string \<Rightarrow> setting_scope \<Rightarrow> setting_def" where
  "row name env kind def scope =
     \<lparr>sd_Name = name, sd_Env = env, sd_Kind = kind, sd_Min = 0, sd_Max = 0, sd_Options = [], sd_Default = def, sd_Scope = scope,
      sd_Group = [], sd_check = None, sd_canon = None, sd_get = None, sd_set = None, sd_keepInvalid = False\<rparr>"

definition int_row ::
  "string \<Rightarrow> string \<Rightarrow> int \<Rightarrow> int \<Rightarrow> string \<Rightarrow> setting_scope \<Rightarrow> (config \<Rightarrow> int) \<Rightarrow> (int \<Rightarrow> config \<Rightarrow> config) \<Rightarrow> setting_def" where
  "int_row name env lo hi def scope get put =
     (row name env KindInt def scope)\<lparr>sd_Min := lo, sd_Max := hi,
        sd_get := Some (\<lambda>c. show_int (get c)), sd_set := Some (\<lambda>v. put (atoi v))\<rparr>"

definition bool_row ::
  "string \<Rightarrow> string \<Rightarrow> string \<Rightarrow> (config \<Rightarrow> bool) \<Rightarrow> (bool \<Rightarrow> config \<Rightarrow> config) \<Rightarrow> setting_def" where
  "bool_row name env def get put =
     (row name env KindBool def ScopeRestart)\<lparr>sd_get := Some (\<lambda>c. btoa (get c)), sd_set := Some (\<lambda>v. put (atob v))\<rparr>"

definition Settings :: "setting_def list" where
  "Settings =
     [int_row ''sessionDurationDefault'' ''SESSION_DURATION_SECONDS'' 600 86400 ''600'' ScopeLive
        cf_SessionDurationSec (\<lambda>v c. c\<lparr>cf_SessionDurationSec := v\<rparr>),
      int_row ''sessionDurationMax'' ''UPLINK_SESSION_DURATION_MAX'' 600 86400 ''1800'' ScopeLive
        cf_SessionDurationMax (\<lambda>v c. c\<lparr>cf_SessionDurationMax := v\<rparr>),
      int_row ''sessionIdleGrace'' ''UPLINK_SESSION_IDLE_GRACE_SECONDS'' 60 3600 ''300'' ScopeLive
        cf_SessionIdleGraceSec (\<lambda>v c. c\<lparr>cf_SessionIdleGraceSec := v\<rparr>),
      int_row ''forwardIdle'' ''UPLINK_FORWARD_IDLE_SECONDS'' 30 600 ''180'' ScopeLive
        cf_ForwardIdleSec (\<lambda>v c. c\<lparr>cf_ForwardIdleSec := v\<rparr>),
      (row ''logLevel'' ''UPLINK_LOG_LEVEL'' KindEnum ''info'' ScopeLive)\<lparr>sd_Options := logLevels,
        sd_get := Some cf_LogLevel, sd_set := Some (\<lambda>v c. c\<lparr>cf_LogLevel := v\<rparr>)\<rparr>,
      bool_row ''sessionFailover'' ''SESSION_FAILOVER'' ''true'' cf_SessionFailover (\<lambda>v c. c\<lparr>cf_SessionFailover := v\<rparr>),
      int_row ''providerCooldown'' ''UPLINK_PROVIDER_COOLDOWN_SECONDS'' 0 MaxProviderCooldownSec ''600'' ScopeRestart
        cf_ProviderCooldownSec (\<lambda>v c. c\<lparr>cf_ProviderCooldownSec := v\<rparr>),
      (row ''providerExclude'' ''UPLINK_PROVIDER_EXCLUDE'' KindString [] ScopeRestart)\<lparr>
        sd_check := Some ValidateProviderExclude, sd_canon := Some CanonProviderExclude,
        sd_get := Some (\<lambda>c. FormatProviderExclude (cf_ProviderExclude c)),
        sd_set := Some (\<lambda>v c. c\<lparr>cf_ProviderExclude := ParseProviderExclude v\<rparr>)\<rparr>,
      (bool_row ''sessionRelease'' ''UPLINK_SESSION_RELEASE'' ''true'' cf_SessionRelease (\<lambda>v c. c\<lparr>cf_SessionRelease := v\<rparr>))
        \<lparr>sd_Group := ''release''\<rparr>,
      (row ''maxStMorPerSession'' [] KindString ''25'' ScopeRestart)\<lparr>sd_check := Some check_mor, sd_keepInvalid := True,
        sd_get := Some (\<lambda>c. cc_MaxStMorPerSession (cf_Cap c)), sd_set := Some set_mor\<rparr>,
      int_row ''auditRetentionDays'' ''AUDIT_RETENTION_DAYS'' 1 3650 ''90'' ScopeRestart
        cf_AuditRetentionDays (\<lambda>v c. c\<lparr>cf_AuditRetentionDays := v\<rparr>),
      bool_row ''housekeeping'' ''HOUSEKEEPING'' ''true'' cf_Housekeeping (\<lambda>v c. c\<lparr>cf_Housekeeping := v\<rparr>),
      (row ''activeModelsUrl'' ''ACTIVE_MODELS_URL'' KindString ''https://active.mor.org/gateway_models.json'' ScopeEnvOnly)
        \<lparr>sd_get := Some cf_ActiveModelsURL\<rparr>,
      (row ''gatewayBidsUrl'' ''GATEWAY_BIDS_URL'' KindString ''https://active.mor.org/gateway_bids.json'' ScopeEnvOnly)
        \<lparr>sd_get := Some cf_GatewayBidsURL\<rparr>,
      (row ''webPublicUrl'' ''WEB_PUBLIC_URL'' KindString [] ScopeEnvOnly)\<lparr>sd_get := Some cf_WebPublicURL\<rparr>,
      (row ''masterKeyAdmin'' ''MASTER_KEY_ADMIN'' KindBool ''false'' ScopeEnvOnly)\<lparr>sd_get := Some (\<lambda>c. btoa (cf_MasterKeyAdmin c))\<rparr>,
      row ''proxyStoreChatContext'' ''PROXY_STORE_CHAT_CONTEXT'' KindBool ''false'' ScopeRouter,
      row ''proxyForwardChatContext'' ''PROXY_FORWARD_CHAT_CONTEXT'' KindBool ''false'' ScopeRouter,
      (row ''routerLogLevelApp'' ''LOG_LEVEL_APP'' KindEnum ''warn'' ScopeRouter)\<lparr>sd_Options := routerLogLevels\<rparr>,
      (row ''routerLogLevelTcp'' ''LOG_LEVEL_TCP'' KindEnum ''warn'' ScopeRouter)\<lparr>sd_Options := routerLogLevels\<rparr>,
      (row ''routerLogLevelEthRpc'' ''LOG_LEVEL_ETH_RPC'' KindEnum ''warn'' ScopeRouter)\<lparr>sd_Options := routerLogLevels\<rparr>]"

definition SecretEnv :: "string list" where
  "SecretEnv = [''WALLET_PRIVATE_KEY'', ''ETH_NODE_ADDRESS'', ''ETH_RPC_URL'', ''COOKIE_CONTENT'', ''ROUTER_AUTH'',
     ''ADMIN_PASSWORD'', ''API_KEY_SEED'', ''MASTER_KEY'']"

definition secretNames :: "string list" where
  "secretNames = [''walletprivatekey'', ''privatekey'', ''ethnodeaddress'', ''ethnodeurl'', ''ethrpcurl'', ''cookiecontent'',
     ''cookie'', ''routerauth'', ''adminpassword'', ''password'', ''apikeyseed'', ''seed'', ''masterkey'', ''promptkey'']"

definition IsSecretKey :: "string \<Rightarrow> bool" where
  "IsSecretKey k =
     (let n = to_lower (strip_chars [CHR ''_'', CHR ''-'', CHR '' ''] k) in
      list_ex (\<lambda>e. equal_fold k e \<or> n = to_lower (strip_chars [CHR ''_''] e)) SecretEnv \<or> list_ex (\<lambda>s. n = s) secretNames)"

definition SettingByName :: "string \<Rightarrow> setting_def option" where
  "SettingByName name = find (\<lambda>d. sd_Name d = name) Settings"

definition Settable :: "setting_def \<Rightarrow> bool" where
  "Settable d \<longleftrightarrow> sd_Scope d = ScopeLive \<or> sd_Scope d = ScopeRestart"

definition Effective :: "setting_def \<Rightarrow> config \<Rightarrow> string" where
  "Effective d c = (case sd_get d of None \<Rightarrow> [] | Some get \<Rightarrow> get c)"

text \<open>\<open>Validate\<close>: the error's text or the canonical value.\<close>

definition Validate :: "setting_def \<Rightarrow> string \<Rightarrow> string + string" where
  "Validate d v =
     (case sd_Kind d of
        KindInt \<Rightarrow>
          (let err = Inl (sd_Name d @ '' must be a whole number '' @ show_int (sd_Min d) @ dots @ show_int (sd_Max d)) in
           case parse_int64 (trim v) of
             None \<Rightarrow> err
           | Some n \<Rightarrow> if n < sd_Min d \<or> n > sd_Max d then err else Inr (show_int n))
      | KindBool \<Rightarrow> (case ParseBool (trim v) of
             None \<Rightarrow> Inl (sd_Name d @ '' must be true or false'')
           | Some b \<Rightarrow> Inr (btoa b))
      | KindEnum \<Rightarrow>
          (let l0 = to_lower (trim v); l = (if sd_Name d = ''logLevel'' then ParseLogLevel l0 else l0) in
           if l \<in> set (sd_Options d) then Inr l
           else Inl (sd_Name d @ '' must be one of '' @ join_with '', '' (sd_Options d)))
      | KindString \<Rightarrow>
          (let w = trim v in
           if length w > 4096 then Inl (sd_Name d @ '' is too long'')
           else (case (case sd_check d of None \<Rightarrow> None | Some check \<Rightarrow> check w) of
               Some e \<Rightarrow> Inl (sd_Name d @ '': '' @ e)
             | None \<Rightarrow> Inr (case sd_canon d of None \<Rightarrow> w | Some canon \<Rightarrow> canon w))))"

definition set_field :: "setting_def \<Rightarrow> string \<Rightarrow> config \<Rightarrow> config" where
  "set_field d v c = (case sd_set d of None \<Rightarrow> c | Some put \<Rightarrow> put v c)"

definition applySettingDefaults :: "config \<Rightarrow> config" where
  "applySettingDefaults c = fold (\<lambda>d c. if Settable d \<and> sd_set d \<noteq> None then set_field d (sd_Default d) c else c) Settings c"

definition ignoredSettingEnv :: "(string \<Rightarrow> string) \<Rightarrow> string list" where
  "ignoredSettingEnv env = map sd_Env (filter (\<lambda>d. Settable d \<and> sd_Env d \<noteq> [] \<and> trim (env (sd_Env d)) \<noteq> []) Settings)"

text \<open>\<open>ApplyPersisted\<close>: one row, then the loop; the notes are returned and kept.\<close>

definition apply_row :: "string gomap \<Rightarrow> setting_def \<Rightarrow> string list \<times> config \<Rightarrow> string list \<times> config" where
  "apply_row vals d nc =
     (case nc of (notes, c) \<Rightarrow>
      (case mget vals (sd_Name d) of
         None \<Rightarrow> (notes, c)
       | Some raw \<Rightarrow>
           if sd_Scope d = ScopeEnvOnly \<or> sd_Scope d = ScopeRouter
           then (notes @ [sd_Name d @ '' is set in .env only; persisted value ignored''], c)
           else if sd_Scope d \<noteq> ScopeRestart then (notes, c)
           else (case Validate d raw of
               Inl e \<Rightarrow>
                 if sd_keepInvalid d then (notes @ [MaxStMorPerSessionInvalidNote], set_field d (trim raw) c)
                 else (notes @ [sd_Name d @ '' persisted value invalid; ignored''], c)
             | Inr v \<Rightarrow> (notes, set_field d v c))))"

definition add_notes :: "string list \<Rightarrow> config \<Rightarrow> config" where
  "add_notes notes c = c\<lparr>cf_Cap := (cf_Cap c)\<lparr>cc_SettingNotes := cc_SettingNotes (cf_Cap c) @ notes\<rparr>\<rparr>"

definition ApplyPersisted :: "string gomap \<Rightarrow> config \<Rightarrow> string list \<times> config" where
  "ApplyPersisted vals c0 =
     (case fold (apply_row vals) Settings ([], c0) of (notes, c) \<Rightarrow> (notes, add_notes notes c))"

subsection \<open>The environment\<close>

definition getenv :: "(string \<Rightarrow> string) \<Rightarrow> string \<Rightarrow> string \<Rightarrow> string" where
  "getenv env key def = (if env key \<noteq> [] then env key else def)"

definition getenvInt :: "(string \<Rightarrow> string) \<Rightarrow> string \<Rightarrow> int \<Rightarrow> int" where
  "getenvInt env key def =
     (if env key \<noteq> [] then (case parse_int64 (env key) of Some n \<Rightarrow> n | None \<Rightarrow> def) else def)"

definition getenvBool :: "(string \<Rightarrow> string) \<Rightarrow> string \<Rightarrow> bool \<Rightarrow> bool" where
  "getenvBool env key def =
     (if env key \<noteq> [] then (case ParseBool (env key) of Some b \<Rightarrow> b | None \<Rightarrow> def) else def)"

definition securityBool :: "(string \<Rightarrow> string) \<Rightarrow> string \<Rightarrow> bool \<Rightarrow> config \<Rightarrow> bool \<times> config" where
  "securityBool env key safe c =
     (let v = trim (env key) in
      if v = [] then (False, c)
      else (case ParseBool v of
          None \<Rightarrow> (safe, c\<lparr>cf_MalformedBoolVars := cf_MalformedBoolVars c @ [key]\<rparr>)
        | Some b \<Rightarrow> (b, c)))"

definition splitCSV :: "string \<Rightarrow> string list" where
  "splitCSV s = (if trim s = [] then [] else filter (\<lambda>p. p \<noteq> []) (map trim (split_commas s)))"

fun firstNonEmpty :: "string list \<Rightarrow> string" where
  "firstNonEmpty [] = []"
| "firstNonEmpty (v # vs) = (if v \<noteq> [] then v else firstNonEmpty vs)"

definition weakPasswords :: "string list" where
  "weakPasswords = [[], ''password'', ''admin'', ''admin123'', ''changeme'', ''secret'', ''123456'', ''12345678'', ''password123'',
     ''letmein'', ''qwerty'', ''uplink'', ''morpheus'', ''YOUR_STRONG_PASSWORD'', ''<gui_admin_password>'', ''<strong_password>'',
     ''YOUR_STRONG_PASSWORD_HERE'']"

definition ValidateAdminPassword :: "string \<Rightarrow> string \<Rightarrow> string option" where
  "ValidateAdminPassword adminPass cookieContent =
     (let p = trim adminPass; low = to_lower p; weak = Some ''ADMIN_PASSWORD is a known-weak or template value'' in
      if length p < 12 then Some ''ADMIN_PASSWORD must be at least 12 characters''
      else if low \<in> set weakPasswords then weak
      else if p \<in> set weakPasswords then weak
      else if list_ex (\<lambda>w. w \<noteq> [] \<and> (low = w \<or> remove_all w low = [])) weakPasswords then weak
      else if cookieContent \<noteq> [] \<and> (case cut_colon cookieContent of None \<Rightarrow> False | Some (user, pass) \<Rightarrow> pass = p)
      then Some ''ADMIN_PASSWORD must not equal COOKIE_CONTENT password''
      else if cookieContent \<noteq> [] \<and> cookieContent = p then Some ''ADMIN_PASSWORD must not equal COOKIE_CONTENT''
      else None)"

text \<open>What the code reads of a parsed URL.\<close>

record parsed_url =
  pu_Scheme :: string
  pu_User :: bool
  pu_Hostname :: string

definition feedLoopbackHosts :: "string list" where "feedLoopbackHosts = [''127.0.0.1'', ''::1'', ''localhost'']"

definition validateFeedURL :: "(string \<Rightarrow> parsed_url option) \<Rightarrow> string \<Rightarrow> string \<Rightarrow> string option" where
  "validateFeedURL parse name raw =
     (let bad = Some (name @ '' must be an https URL without credentials (http only for 127.0.0.1, ::1 or localhost)'') in
      case parse (trim raw) of
        None \<Rightarrow> bad
      | Some u \<Rightarrow>
          if pu_User u then bad
          else (let h = to_lower (pu_Hostname u); scheme = to_lower (pu_Scheme u) in
            if h = [] then bad
            else if scheme = ''https'' then None
            else if scheme = ''http'' \<and> h \<in> set feedLoopbackHosts then None
            else bad))"

definition from_environment :: "(string \<Rightarrow> string) \<Rightarrow> config" where
  "from_environment env =
     \<lparr>cf_Listen = getenv env ''UPLINK_LISTEN'' '':8080'',
      cf_RouterURL = trim_slashes (getenv env ''ROUTER_URL'' ''http://proxy-router:8082''),
      cf_RouterUser = [], cf_RouterPass = [],
      cf_AdminPassword = env ''ADMIN_PASSWORD'',
      cf_APIKeySeed = env ''API_KEY_SEED'',
      cf_DataDir = getenv env ''DATA_DIR'' ''./data'',
      cf_ActiveModelsURL = getenv env ''ACTIVE_MODELS_URL'' ''https://active.mor.org/gateway_models.json'',
      cf_GatewayBidsURL = getenv env ''GATEWAY_BIDS_URL'' ''https://active.mor.org/gateway_bids.json'',
      cf_SessionDurationSec = 0, cf_SessionFailover = False, cf_ProviderCooldownSec = 0,
      cf_DirectPaymentIgnored = getenvBool env ''SESSION_DIRECT_PAYMENT'' False,
      cf_CloseSessionsOnExit = getenvBool env ''CLOSE_SESSIONS_ON_EXIT'' True,
      cf_DiamondAddress = getenv env ''DIAMOND_CONTRACT_ADDRESS'' ''0x6aBE1d282f72B474E54527D93b979A4f64d3030a'',
      cf_EthNodeChainID = getenvInt env ''ETH_NODE_CHAIN_ID'' 8453,
      cf_Housekeeping = False,
      cf_UsagePruneDays = getenvInt env ''USAGE_PRUNE_DAYS'' 30,
      cf_ReconcileGateSec = getenvInt env ''UPLINK_RECONCILE_GATE_SECONDS'' 60,
      cf_ReconcileRetrySec = getenvInt env ''UPLINK_RECONCILE_RETRY_SECONDS'' 30,
      cf_EthRPCURL = firstNonEmpty [env ''ETH_RPC_URL'', env ''ETH_NODE_ADDRESS''],
      cf_WebPublicURL = trim_slashes (env ''WEB_PUBLIC_URL''),
      cf_MasterKeyAdmin = False, cf_MalformedBoolVars = [],
      cf_DevHTTP = getenvBool env ''UPLINK_DEV_HTTP'' False,
      cf_TrustedProxyCIDRs = splitCSV (env ''TRUSTED_PROXY_CIDR''),
      cf_Reset2FA = getenvBool env ''UPLINK_RESET_2FA'' False,
      cf_AuditRetentionDays = 0, cf_ProviderExclude = [], cf_SessionDurationMax = 0, cf_ForwardIdleSec = 0,
      cf_SessionIdleGraceSec = 0, cf_SessionRelease = False, cf_LogLevel = [], cf_IgnoredEnv = [], cf_EnvOnlySet = [],
      cf_Cap = \<lparr>cc_MaxStMorPerSession = [], cc_StakeLimitWei = None, cc_StakeLimitInvalid = False, cc_SettingNotes = []\<rparr>\<rparr>"

definition router_auth :: "(string \<Rightarrow> string) \<Rightarrow> string" where
  "router_auth env = trim (getenv env ''ROUTER_AUTH'' (env ''COOKIE_CONTENT''))"

text \<open>The settings of the environment, the security switch and the router's credentials.\<close>

definition settle :: "(string \<Rightarrow> string) \<Rightarrow> config \<Rightarrow> config" where
  "settle env c0 =
     (let c1 = applySettingDefaults c0;
          c2 = c1\<lparr>cf_IgnoredEnv := ignoredSettingEnv env,
                  cf_EnvOnlySet := map sd_Env (filter (\<lambda>d. sd_Scope d = ScopeEnvOnly \<and> trim (env (sd_Env d)) \<noteq> []) Settings)\<rparr>
      in case securityBool env ''MASTER_KEY_ADMIN'' False c2 of
           (b, c3) \<Rightarrow>
             (let c4 = c3\<lparr>cf_MasterKeyAdmin := b\<rparr> in
              case cut_colon (router_auth env) of
                None \<Rightarrow> c4
              | Some (user, pass) \<Rightarrow> c4\<lparr>cf_RouterUser := user, cf_RouterPass := pass\<rparr>))"

definition missing_vars :: "config \<Rightarrow> string list" where
  "missing_vars c =
     (if cf_AdminPassword c = [] then [''ADMIN_PASSWORD''] else []) @
     (if cf_APIKeySeed c = [] then [''API_KEY_SEED''] else []) @
     (if cf_RouterUser c = [] \<or> cf_RouterPass c = [] then [''ROUTER_AUTH or COOKIE_CONTENT (user:password)''] else [])"

definition dev_origin :: "string \<Rightarrow> bool" where
  "dev_origin web =
     (let u = to_lower web in
      u = ''http://localhost'' \<or> u = ''http://127.0.0.1'' \<or> has_prefix u ''http://localhost:'' \<or> has_prefix u ''http://127.0.0.1:'')"

definition FromEnv :: "(string \<Rightarrow> parsed_url option) \<Rightarrow> (string \<Rightarrow> string) \<Rightarrow> string + config" where
  "FromEnv parse env =
     (let c = settle env (from_environment env) in
      if missing_vars c \<noteq> [] then Inl (''missing required environment variables: '' @ join_with '', '' (missing_vars c))
      else case ValidateAdminPassword (cf_AdminPassword c) (router_auth env) of
        Some e \<Rightarrow> Inl e
      | None \<Rightarrow> (case ValidateAdminPassword (cf_AdminPassword c) (env ''COOKIE_CONTENT'') of
        Some e \<Rightarrow> Inl e
      | None \<Rightarrow>
          if cf_DevHTTP c \<and> \<not> dev_origin (cf_WebPublicURL c)
          then Inl ''UPLINK_DEV_HTTP=true requires WEB_PUBLIC_URL http://localhost or http://127.0.0.1''
          else (case validateFeedURL parse ''ACTIVE_MODELS_URL'' (cf_ActiveModelsURL c) of
            Some e \<Rightarrow> Inl e
          | None \<Rightarrow> (case validateFeedURL parse ''GATEWAY_BIDS_URL'' (cf_GatewayBidsURL c) of
            Some e \<Rightarrow> Inl e
          | None \<Rightarrow> Inr c))))"

end
