(* ===== verification/Config_Props.thy ===== *)
theory Config_Props
  imports Config "HOL-Library.Multiset"
begin

section \<open>What the registry and the environment guarantee\<close>

subsection \<open>Rows\<close>

lemmas row_defs = int_row_def bool_row_def row_def

lemma set_Settings: "(\<forall>d\<in>set Settings. P d) = list_all P Settings" by (simp add: list_all_iff)

lemma names_distinct: "distinct (map sd_Name Settings)"
  unfolding Settings_def row_defs by simp

lemma rows_apart:
  "list_all (\<lambda>d'. list_all (\<lambda>d. sd_Name d = sd_Name d' \<or> Effective d (set_field d' v c) = Effective d c) Settings) Settings"
  unfolding Settings_def row_defs Effective_def set_field_def set_mor_def by simp

subsection \<open>Lists of addresses\<close>

text \<open>An entry as the parsed list keeps it.\<close>

definition addr :: "string \<Rightarrow> bool" where "addr s \<longleftrightarrow> reProviderAddr s \<and> to_lower s = s"

definition width :: "string list \<Rightarrow> nat" where "width ps = sum_list (map (\<lambda>p. Suc (length p)) ps)"

lemma width_simps [simp]: "width [] = 0" "width (p # ps) = Suc (length p) + width ps" "width (ps @ qs) = width ps + width qs"
  by (simp_all add: width_def)

lemma width_sort [simp]: "width (sort ps) = width ps"
  by (simp only: width_def sum_mset_sum_list [symmetric] mset_map mset_sort)

lemma length_join: "ps \<noteq> [] \<Longrightarrow> Suc (length (join_with [c] ps)) = width ps"
  by (induction ps rule: induct_list012) auto

lemma split_not_Nil [simp]: "split_commas s \<noteq> []"
  by (induction s) (auto split: list.splits)

lemma width_split: "width (split_commas s) = Suc (length s)"
  by (induction s) (auto split: list.splits)

lemma split_plain: "CHR '','' \<notin> set p \<Longrightarrow> split_commas p = [p]"
  by (induction p) auto

lemma split_cons: "CHR '','' \<notin> set p \<Longrightarrow> split_commas (p @ CHR '','' # s) = p # split_commas s"
  by (induction p) (auto split: list.splits)

lemma split_join: "ps \<noteq> [] \<Longrightarrow> list_all (\<lambda>p. CHR '','' \<notin> set p) ps \<Longrightarrow> split_commas (join_with '','' ps) = ps"
  by (induction ps rule: induct_list012) (auto simp: split_plain split_cons)

lemma hex_digit_plain: "hex_digit c \<Longrightarrow> \<not> is_space c \<and> c \<notin> {CHR '','', CHR ''='', CHR '';''}"
  by (auto simp: hex_digit_def hex_val_def is_space_def is_digit_def Let_def split: if_splits)

lemma reProviderAddr_shape:
  assumes "reProviderAddr s" shows "\<exists>h. s = ''0x'' @ h \<and> length h = 40 \<and> list_all hex_digit h"
proof -
  have "s = take 2 s @ drop 2 s" by simp
  moreover have "take 2 s = ''0x''" using assms by (simp add: reProviderAddr_def has_prefix_def numeral_2_eq_2)
  ultimately show ?thesis using assms by (auto simp: reProviderAddr_def)
qed

lemma addr_plain:
  assumes "addr s"
  shows "s \<noteq> []" "\<not> is_space (hd s)" "\<not> is_space (last s)" "CHR '','' \<notin> set s" "CHR ''='' \<notin> set s" "CHR '';'' \<notin> set s" "length s = 42"
proof -
  obtain h where h: "s = ''0x'' @ h" "length h = 40" "list_all hex_digit h"
    using assms reProviderAddr_shape by (auto simp: addr_def)
  from h show "s \<noteq> []" "length s = 42" by simp_all
  from h show "CHR '','' \<notin> set s" "CHR ''='' \<notin> set s" "CHR '';'' \<notin> set s"
    using hex_digit_plain by (auto simp: list_all_iff)
  from h show "\<not> is_space (hd s)" by (simp add: is_space_def Let_def)
  from h have "h \<noteq> []" by auto
  then have "last s = last h" "hex_digit (last h)" using h by (auto simp: list_all_iff)
  with hex_digit_plain show "\<not> is_space (last s)" by simp
qed

lemma addr_trim: "addr s \<Longrightarrow> trim s = s"
  using trim_pasted [of s "[]" "[]"] addr_plain by simp

lemma exclude_entries_addr: "list_all addr seen \<Longrightarrow> list_all addr (exclude_entries ps seen)"
  by (induction ps seen rule: exclude_entries.induct) (auto simp: Let_def addr_def)

lemma exclude_entries_distinct: "distinct seen \<Longrightarrow> distinct (exclude_entries ps seen)"
  by (induction ps seen rule: exclude_entries.induct) (auto simp: Let_def)

lemma length_trim: "length (trim s) \<le> length s"
  by (simp add: trim_def) (metis length_dropWhile_le le_trans length_rev)

lemma exclude_entries_width: "width (exclude_entries ps seen) \<le> width seen + width ps"
proof (induction ps seen rule: exclude_entries.induct)
  case (2 p ps seen)
  let ?a = "to_lower (trim p)"
  consider "?a = []" | "?a \<noteq> []" "\<not> reProviderAddr ?a" | "?a \<noteq> []" "reProviderAddr ?a" by blast
  then show ?case
  proof cases
    case 1
    with "2.IH"(1) [OF refl] show ?thesis by simp
  next
    case 2
    with "2.IH"(2) [OF refl] show ?thesis by simp
  next
    case 3
    with "2.IH"(3) [OF refl] length_trim [of p] show ?thesis by (simp split: if_splits)
  qed
qed simp

lemma exclude_entries_again:
  "list_all addr ps \<Longrightarrow> distinct (seen @ ps) \<Longrightarrow> exclude_entries ps seen = seen @ ps"
proof (induction ps arbitrary: seen)
  case (Cons p ps)
  then show ?case by (auto simp: addr_trim addr_def addr_plain)
qed simp

lemma bad_entry_addr: "list_all addr ps \<Longrightarrow> bad_entry i ps = None"
  by (induction ps arbitrary: i) (auto simp: addr_trim addr_def)

lemma parsed_addr: "list_all addr (ParseProviderExclude v)" "distinct (ParseProviderExclude v)" "sorted (ParseProviderExclude v)"
  using exclude_entries_addr [of "[]" "split_commas v"] exclude_entries_distinct [of "[]" "split_commas v"]
  by (simp_all add: ParseProviderExclude_def list_all_iff)

lemma join_mem: "c \<in> set (join_with sep ps) \<Longrightarrow> c \<in> set sep \<or> (\<exists>p\<in>set ps. c \<in> set p)"
  by (induction sep ps rule: join_with.induct) auto

lemma canon_parse: "ParseProviderExclude (CanonProviderExclude v) = ParseProviderExclude v"
proof (cases "ParseProviderExclude v = []")
  case True
  then have "CanonProviderExclude v = []" by (simp add: CanonProviderExclude_def FormatProviderExclude_def)
  then have "ParseProviderExclude (CanonProviderExclude v) = []" by (simp add: ParseProviderExclude_def)
  with True show ?thesis by simp
next
  case False
  let ?L = "ParseProviderExclude v"
  have "split_commas (CanonProviderExclude v) = ?L"
    unfolding CanonProviderExclude_def FormatProviderExclude_def
    by (rule split_join) (use False parsed_addr(1) [of v] addr_plain in \<open>auto simp: list_all_iff\<close>)
  then have "ParseProviderExclude (CanonProviderExclude v) = sort (exclude_entries ?L [])"
    by (simp only: ParseProviderExclude_def [of "CanonProviderExclude v"])
  also have "\<dots> = ?L" using parsed_addr [of v] by (simp add: exclude_entries_again sorted_sort_id)
  finally show ?thesis .
qed

lemma canon_trim: "trim (CanonProviderExclude v) = CanonProviderExclude v"
proof (cases "ParseProviderExclude v = []")
  case True
  then show ?thesis by (simp add: CanonProviderExclude_def FormatProviderExclude_def)
next
  case False
  let ?L = "ParseProviderExclude v"
  have ends: "ps \<noteq> [] \<Longrightarrow> list_all addr ps \<Longrightarrow>
      join_with s ps \<noteq> [] \<and> hd (join_with s ps) = hd (hd ps) \<and> last (join_with s ps) = last (last ps)" for s ps
    by (induction ps rule: induct_list012) (auto simp: addr_plain)
  have "addr (hd ?L)" "addr (last ?L)" using False parsed_addr(1) [of v] by (auto simp: list_all_iff)
  then show ?thesis
    using ends [OF False parsed_addr(1), of "'',''"] addr_plain trim_pasted [of "CanonProviderExclude v" "[]" "[]"]
    by (simp add: CanonProviderExclude_def FormatProviderExclude_def)
qed

lemma canon_short: "length v \<le> n \<Longrightarrow> length (CanonProviderExclude v) \<le> n"
proof (cases "ParseProviderExclude v = []")
  case True
  then show ?thesis by (simp add: CanonProviderExclude_def FormatProviderExclude_def)
next
  case False
  assume "length v \<le> n"
  moreover have "width (ParseProviderExclude v) \<le> Suc (length v)"
    using exclude_entries_width [of "split_commas v" "[]"] by (simp add: ParseProviderExclude_def width_split)
  moreover have "Suc (length (CanonProviderExclude v)) = width (ParseProviderExclude v)"
    unfolding CanonProviderExclude_def FormatProviderExclude_def by (rule length_join [OF False])
  ultimately show ?thesis by simp
qed

lemma canon_valid: "ValidateProviderExclude (CanonProviderExclude v) = None"
proof -
  let ?L = "ParseProviderExclude v"
  have no: "c \<notin> set (CanonProviderExclude v)" if "c = CHR ''='' \<or> c = CHR '';''" for c
    using that join_mem [of c "'',''" ?L] parsed_addr(1) [of v] addr_plain
    by (auto simp: CanonProviderExclude_def FormatProviderExclude_def list_all_iff)
  have "bad_entry 0 (split_commas (CanonProviderExclude v)) = None"
  proof (cases "?L = []")
    case True
    then show ?thesis by (simp add: CanonProviderExclude_def FormatProviderExclude_def)
  next
    case False
    have "split_commas (CanonProviderExclude v) = ?L"
      unfolding CanonProviderExclude_def FormatProviderExclude_def
      by (rule split_join) (use False parsed_addr(1) [of v] addr_plain in \<open>auto simp: list_all_iff\<close>)
    then show ?thesis using bad_entry_addr [OF parsed_addr(1)] by simp
  qed
  with no show ?thesis by (simp add: ValidateProviderExclude_def)
qed


subsection \<open>Canonical values\<close>

text \<open>A row whose canonical values are accepted as they are and come back from the field they set.\<close>

definition row_ok :: "setting_def \<Rightarrow> bool" where
  "row_ok d \<longleftrightarrow> (\<forall>v w c. Validate d v = Inr w \<longrightarrow> Validate d w = Inr w \<and> (Settable d \<longrightarrow> Effective d (set_field d w c) = w))"

lemma trim_show_int [simp]: "trim (show_int n) = show_int n"
proof -
  have nat: "show_nat k \<noteq> [] \<and> is_digit (hd (show_nat k)) \<and> is_digit (last (show_nat k))" for k
    using show_nat_digits [of k] by (auto simp: all_digits_def list_all_iff)
  show ?thesis
  proof (cases "n < 0")
    case True
    have "trim ([] @ (CHR ''-'' # show_nat (nat (- n))) @ []) = CHR ''-'' # show_nat (nat (- n))"
      by (rule trim_pasted) (use nat [of "nat (- n)"] digit_not_sign in \<open>auto simp: is_space_def Let_def\<close>)
    with True show ?thesis by (simp add: show_int_def)
  next
    case False
    with nat [of "nat n"] trim_digits [of "show_nat (nat n)"] show ?thesis by (simp add: show_int_def)
  qed
qed

lemma int64_again: "parse_int64 s = Some n \<Longrightarrow> parse_int64 (show_int n) = Some n"
  by (auto simp: parse_int64_def split: option.splits if_splits)

lemma int_row_ok:
  assumes "\<And>n c. get (put n c) = n"
  shows "row_ok (int_row name env lo hi def scope get put)"
  unfolding row_ok_def
proof (intro allI impI)
  fix v w c assume "Validate (int_row name env lo hi def scope get put) v = Inr w"
  then obtain n where n: "parse_int64 (trim v) = Some n" "lo \<le> n" "n \<le> hi" "w = show_int n"
    by (auto simp: Validate_def row_defs Let_def split: option.splits if_splits)
  then show "Validate (int_row name env lo hi def scope get put) w = Inr w \<and>
      (Settable (int_row name env lo hi def scope get put) \<longrightarrow>
       Effective (int_row name env lo hi def scope get put) (set_field (int_row name env lo hi def scope get put) w c) = w)"
    using int64_again [OF n(1)] assms by (simp add: Validate_def row_defs Let_def Effective_def set_field_def atoi_def)
qed

lemma trim_btoa [simp]: "trim (btoa b) = btoa b"
  by (cases b) (simp_all add: btoa_def trim_def is_space_def)

lemma parse_btoa [simp]: "ParseBool (btoa b) = Some b" "atob (btoa b) = b"
  by (simp_all add: ParseBool_def btoa_def atob_def)

lemma bool_kind_ok:
  assumes "sd_Kind d = KindBool" and "Settable d \<Longrightarrow> (\<And>b c. Effective d (set_field d (btoa b) c) = btoa b)"
  shows "row_ok d"
  using assms by (auto simp: row_ok_def Validate_def split: option.splits)

lemma enum_kind_ok:
  assumes "sd_Kind d = KindEnum" and "list_all (\<lambda>o1. Validate d o1 = Inr o1) (sd_Options d)"
    and "Settable d \<Longrightarrow> (\<And>v c. Effective d (set_field d v c) = v)"
  shows "row_ok d"
  unfolding row_ok_def
proof (intro allI impI)
  fix v w c assume v: "Validate d v = Inr w"
  then have "w \<in> set (sd_Options d)" using assms(1) by (auto simp: Validate_def Let_def split: if_splits)
  with assms(2) have "Validate d w = Inr w" by (simp add: list_all_iff)
  with assms(3) show "Validate d w = Inr w \<and> (Settable d \<longrightarrow> Effective d (set_field d w c) = w)" by simp
qed

text \<open>A string row without a canonical form keeps the trimmed text; its check does not look at the white space.\<close>

lemma string_kind_ok:
  assumes "sd_Kind d = KindString" and "sd_canon d = None" and "Settable d \<Longrightarrow> (\<And>v c. Effective d (set_field d v c) = v)"
  shows "row_ok d"
  using assms by (auto simp: row_ok_def Validate_def Let_def split: option.splits if_splits)

lemma exclude_row_ok:
  assumes "sd_Kind d = KindString" and "sd_check d = Some ValidateProviderExclude" and "sd_canon d = Some CanonProviderExclude"
    and "\<And>v c. Effective d (set_field d v c) = CanonProviderExclude v"
  shows "row_ok d"
  using assms by (auto simp: row_ok_def Validate_def Let_def canon_trim canon_valid canon_parse
      CanonProviderExclude_def [of "CanonProviderExclude _"] split: option.splits if_splits)
    (auto simp: CanonProviderExclude_def canon_short [unfolded CanonProviderExclude_def, THEN leD])

lemma bool_row_ok: "(\<And>x c. get (put x c) = x) \<Longrightarrow> row_ok (bool_row n e b get put)"
  "(\<And>x c. get (put x c) = x) \<Longrightarrow> row_ok ((bool_row n e b get put)\<lparr>sd_Group := g\<rparr>)"
  by (rule bool_kind_ok; simp add: row_defs Effective_def set_field_def)+

lemma fixed_row_ok: "sc = ScopeEnvOnly \<or> sc = ScopeRouter \<Longrightarrow> row_ok ((row n e KindBool b sc)\<lparr>sd_get := g\<rparr>)"
  "sc = ScopeEnvOnly \<or> sc = ScopeRouter \<Longrightarrow> row_ok (row n e KindBool b sc)"
  "row_ok ((row n e KindString b ScopeEnvOnly)\<lparr>sd_get := g\<rparr>)"
  by (rule bool_kind_ok string_kind_ok; auto simp: row_def Settable_def)+

lemma router_level_ok:
  assumes "n \<noteq> ''logLevel''"
  shows "row_ok ((row n e KindEnum b ScopeRouter)\<lparr>sd_Options := routerLogLevels\<rparr>)"
proof (rule enum_kind_ok)
  have "list_all (\<lambda>l. to_lower (trim l) = l \<and> l \<in> set routerLogLevels) routerLogLevels" by code_simp
  with assms show "list_all (\<lambda>o1. Validate ((row n e KindEnum b ScopeRouter)\<lparr>sd_Options := routerLogLevels\<rparr>) o1 = Inr o1)
      (sd_Options ((row n e KindEnum b ScopeRouter)\<lparr>sd_Options := routerLogLevels\<rparr>))"
    by (simp add: row_def Validate_def Let_def list_all_iff)
qed (simp_all add: row_def Settable_def)

lemma log_level_ok:
  "row_ok ((row ''logLevel'' ''UPLINK_LOG_LEVEL'' KindEnum ''info'' ScopeLive)\<lparr>sd_Options := logLevels,
        sd_get := Some cf_LogLevel, sd_set := Some (\<lambda>v c. c\<lparr>cf_LogLevel := v\<rparr>)\<rparr>)" (is "row_ok ?d")
proof (rule enum_kind_ok)
  have "list_all (\<lambda>l. ParseLogLevel (to_lower (trim l)) = l \<and> l \<in> set logLevels) logLevels" by code_simp
  then show "list_all (\<lambda>o1. Validate ?d o1 = Inr o1) (sd_Options ?d)"
    by (simp add: row_def Validate_def Let_def list_all_iff)
qed (simp_all add: row_def Effective_def set_field_def)

lemma cap_row_ok:
  "row_ok ((row ''maxStMorPerSession'' [] KindString ''25'' ScopeRestart)\<lparr>sd_check := Some check_mor, sd_keepInvalid := True,
        sd_get := Some (\<lambda>c. cc_MaxStMorPerSession (cf_Cap c)), sd_set := Some set_mor\<rparr>)"
  by (rule string_kind_ok) (simp_all add: row_def Effective_def set_field_def set_mor_def setMaxStMorPerSession_def)

lemma provider_row_ok:
  "row_ok ((row ''providerExclude'' ''UPLINK_PROVIDER_EXCLUDE'' KindString [] ScopeRestart)\<lparr>
        sd_check := Some ValidateProviderExclude, sd_canon := Some CanonProviderExclude,
        sd_get := Some (\<lambda>c. FormatProviderExclude (cf_ProviderExclude c)),
        sd_set := Some (\<lambda>v c. c\<lparr>cf_ProviderExclude := ParseProviderExclude v\<rparr>)\<rparr>)"
  by (rule exclude_row_ok) (simp_all add: row_def Effective_def set_field_def CanonProviderExclude_def)

lemma rows_ok: "list_all row_ok Settings"
  unfolding Settings_def list.pred_inject
  by (intro conjI TrueI) (rule list.pred_inject int_row_ok bool_row_ok fixed_row_ok router_level_ok log_level_ok cap_row_ok provider_row_ok; simp)+

lemma setting_names_are:
  "map sd_Name Settings = [''sessionDurationDefault'', ''sessionDurationMax'', ''sessionIdleGrace'', ''forwardIdle'', ''logLevel'',
     ''sessionFailover'', ''providerCooldown'', ''providerExclude'', ''sessionRelease'', ''maxStMorPerSession'', ''auditRetentionDays'',
     ''housekeeping'', ''activeModelsUrl'', ''gatewayBidsUrl'', ''webPublicUrl'', ''masterKeyAdmin'', ''proxyStoreChatContext'',
     ''proxyForwardChatContext'', ''routerLogLevelApp'', ''routerLogLevelTcp'', ''routerLogLevelEthRpc'']"
  unfolding Settings_def row_defs by simp

lemma secret_alt:
  "IsSecretKey k \<longleftrightarrow> to_lower k \<in> set (map to_lower SecretEnv) \<or>
     to_lower (strip_chars [CHR ''_'', CHR ''-'', CHR '' ''] k) \<in> set (map (\<lambda>e. to_lower (strip_chars [CHR ''_''] e)) SecretEnv) \<union> set secretNames"
  by (auto simp: IsSecretKey_def equal_fold_def list_ex_iff Let_def)

lemma secrets_lower:
  "map to_lower SecretEnv = [''wallet_private_key'', ''eth_node_address'', ''eth_rpc_url'', ''cookie_content'', ''router_auth'',
     ''admin_password'', ''api_key_seed'', ''master_key'']"
  "map (\<lambda>e. to_lower (strip_chars [CHR ''_''] e)) SecretEnv = [''walletprivatekey'', ''ethnodeaddress'', ''ethrpcurl'', ''cookiecontent'', ''routerauth'',
     ''adminpassword'', ''apikeyseed'', ''masterkey'']"
  by code_simp+

lemma names_lower:
  "map to_lower (map sd_Name Settings) = [''sessiondurationdefault'', ''sessiondurationmax'', ''sessionidlegrace'', ''forwardidle'', ''loglevel'',
     ''sessionfailover'', ''providercooldown'', ''providerexclude'', ''sessionrelease'', ''maxstmorpersession'', ''auditretentiondays'',
     ''housekeeping'', ''activemodelsurl'', ''gatewaybidsurl'', ''webpublicurl'', ''masterkeyadmin'', ''proxystorechatcontext'',
     ''proxyforwardchatcontext'', ''routerloglevelapp'', ''routerlogleveltcp'', ''routerloglevelethrpc'']"
  "list_all (\<lambda>n. strip_chars [CHR ''_'', CHR ''-'', CHR '' ''] n = n) (map sd_Name Settings)"
  unfolding setting_names_are by code_simp+

lemma no_secret_row: "list_all (\<lambda>d. \<not> IsSecretKey (sd_Name d)) Settings"
proof -
  have "to_lower n \<notin> set (map to_lower SecretEnv) \<union> set (map (\<lambda>e. to_lower (strip_chars [CHR ''_''] e)) SecretEnv) \<union> set secretNames"
    if "n \<in> set (map sd_Name Settings)" for n
  proof -
    have "to_lower n \<in> set (map to_lower (map sd_Name Settings))" using that by (simp only: set_map) blast
    then show ?thesis unfolding names_lower secrets_lower secretNames_def by auto
  qed
  moreover have "strip_chars [CHR ''_'', CHR ''-'', CHR '' ''] n = n" if "n \<in> set (map sd_Name Settings)" for n
    using that names_lower(2) unfolding list_all_iff by blast
  ultimately show ?thesis by (auto simp: list_all_iff secret_alt)
qed

lemma numbers_read:
  "parse_int64 (trim ''600'') = Some 600" "parse_int64 (trim ''1800'') = Some 1800" "parse_int64 (trim ''300'') = Some 300"
  "parse_int64 (trim ''180'') = Some 180" "parse_int64 (trim ''90'') = Some 90"
  "show_int 600 = ''600''" "show_int 1800 = ''1800''" "show_int 300 = ''300''" "show_int 180 = ''180''" "show_int 90 = ''90''"
  by code_simp+

lemma words_read:
  "ParseBool (trim ''true'') = Some True" "ParseBool (trim ''false'') = Some False"
  "to_lower (trim ''warn'') = ''warn''" "ParseLogLevel (to_lower (trim ''info'')) = ''info''"
  "trim ''25'' = ''25''" "check_mor ''25'' = None" "ValidateProviderExclude [] = None" "CanonProviderExclude [] = []"
  "trim ''https://active.mor.org/gateway_models.json'' = ''https://active.mor.org/gateway_models.json''"
  "trim ''https://active.mor.org/gateway_bids.json'' = ''https://active.mor.org/gateway_bids.json''"
  by code_simp+

definition default_ok :: "setting_def \<Rightarrow> bool" where "default_ok d \<longleftrightarrow> Validate d (sd_Default d) = Inr (sd_Default d)"

lemma int_default: "parse_int64 (trim s) = Some k \<Longrightarrow> show_int k = s \<Longrightarrow> lo \<le> k \<Longrightarrow> k \<le> hi \<Longrightarrow> default_ok (int_row n e lo hi s sc g p)"
  by (simp add: default_ok_def Validate_def row_defs Let_def)

lemma bool_default:
  "ParseBool (trim s) = Some b \<Longrightarrow> btoa b = s \<Longrightarrow> sd_Kind d = KindBool \<Longrightarrow> sd_Default d = s \<Longrightarrow> default_ok d"
  by (simp add: default_ok_def Validate_def)

lemma enum_default:
  "(if n = ''logLevel'' then ParseLogLevel (to_lower (trim s)) else to_lower (trim s)) = s \<Longrightarrow> s \<in> set (sd_Options d) \<Longrightarrow>
   sd_Kind d = KindEnum \<Longrightarrow> sd_Default d = s \<Longrightarrow> sd_Name d = n \<Longrightarrow> default_ok d"
  by (simp add: default_ok_def Validate_def Let_def)

lemma string_default:
  "trim s = s \<Longrightarrow> length s \<le> 4096 \<Longrightarrow> (case sd_check d of None \<Rightarrow> True | Some check \<Rightarrow> check s = None) \<Longrightarrow>
   (case sd_canon d of None \<Rightarrow> True | Some canon \<Rightarrow> canon s = s) \<Longrightarrow> sd_Kind d = KindString \<Longrightarrow> sd_Default d = s \<Longrightarrow> default_ok d"
  by (simp add: default_ok_def Validate_def Let_def split: option.splits)

lemma defaults_valid: "list_all default_ok Settings"
  unfolding Settings_def list.pred_inject
  apply (intro conjI TrueI)
                      apply (rule int_default, rule numbers_read, rule numbers_read; simp)+
                   apply (rule enum_default [where n = "''logLevel''" and s = "''info''"]; simp add: words_read row_def logLevels_def)
                  apply (rule bool_default [where s = "''true''" and b = True]; simp add: words_read btoa_def row_defs)
                 apply (rule int_default, rule numbers_read, rule numbers_read; simp add: MaxProviderCooldownSec_def)
                apply (rule string_default [where s = "[]"]; simp add: words_read row_def)
               apply (rule bool_default [where s = "''true''" and b = True]; simp add: words_read btoa_def row_defs)
              apply (rule string_default [where s = "''25''"]; simp add: words_read row_def)
             apply (rule int_default, rule numbers_read, rule numbers_read; simp)
            apply (rule bool_default [where s = "''true''" and b = True]; simp add: words_read btoa_def row_defs)
           apply (rule string_default; simp add: words_read row_def)
           apply (rule string_default; simp add: words_read row_def)
           apply (rule string_default; simp add: words_read row_def)
        apply (rule bool_default [where s = "''false''" and b = False]; simp add: words_read btoa_def row_defs)
        apply (rule bool_default [where s = "''false''" and b = False]; simp add: words_read btoa_def row_defs)
        apply (rule bool_default [where s = "''false''" and b = False]; simp add: words_read btoa_def row_defs)
     apply (rule enum_default [where s = "''warn''"]; simp add: words_read row_def routerLogLevels_def)
     apply (rule enum_default [where s = "''warn''"]; simp add: words_read row_def routerLogLevels_def)
     apply (rule enum_default [where s = "''warn''"]; simp add: words_read row_def routerLogLevels_def)
  apply (rule list.pred_inject)
  done

text \<open>
  C36: canonical values are stable. For every row and every text, the value the check accepts it as is accepted
  again as it is, and a console row's field reads back exactly that text once it is set. Every default is such a
  value, and no row names a secret.
\<close>

theorem settings_canonical:
  "list_all (\<lambda>d. (case Validate d v of
       Inl e \<Rightarrow> True
     | Inr w \<Rightarrow> Validate d w = Inr w \<and> (if Settable d then Effective d (set_field d w c) = w else True)) \<and>
     Validate d (sd_Default d) = Inr (sd_Default d) \<and> \<not> IsSecretKey (sd_Name d)) Settings"
proof -
  from rows_ok defaults_valid no_secret_row show ?thesis
    unfolding list_all_iff row_ok_def default_ok_def by (auto split: sum.splits)
qed

subsection \<open>Loops over the rows\<close>

lemma reads_back:
  "list_all (\<lambda>d. Settable d \<longrightarrow> Effective d (set_field d v c) = Effective d (set_field d v c')) Settings"
  "list_all (\<lambda>d. sd_keepInvalid d \<longrightarrow> Effective d (set_field d v c) = v) Settings"
  unfolding Settings_def row_defs Effective_def set_field_def set_mor_def Settable_def setMaxStMorPerSession_def by simp_all

lemma all_rows: "list_all P Settings \<Longrightarrow> d \<in> set Settings \<Longrightarrow> P d" by (simp add: list_all_iff)

text \<open>A loop that sets some of the rows: each row it sets reads as set, the others as before.\<close>

definition upd :: "(setting_def \<Rightarrow> string option) \<Rightarrow> setting_def \<Rightarrow> config \<Rightarrow> config" where
  "upd f d c = (case f d of None \<Rightarrow> c | Some v \<Rightarrow> set_field d v c)"

lemma effective_upd:
  assumes "e \<in> set Settings" and "d \<in> set Settings" and "sd_Name d \<noteq> sd_Name e"
  shows "Effective e (upd f d c) = Effective e c"
  using rows_apart assms by (fastforce simp: upd_def list_all_iff split: option.splits)

lemma effective_fold:
  assumes "set ds \<subseteq> set Settings" and "distinct (map sd_Name ds)" and "e \<in> set Settings" and "Settable e"
  shows "Effective e (fold (upd f) ds c) = (if e \<in> set ds then Effective e (upd f e c) else Effective e c)"
  using assms
proof (induction ds arbitrary: c)
  case (Cons d ds)
  show ?case
  proof (cases "e = d")
    case True
    have "e \<notin> set ds" using Cons.prems(2) True by auto
    with Cons True show ?thesis by simp
  next
    case False
    have "sd_Name d \<noteq> sd_Name e"
      using False Cons.prems(1,3) names_distinct by (auto simp: distinct_map inj_on_def)
    then have "Effective e (upd f d c) = Effective e c" using Cons.prems(1,3) effective_upd by simp
    moreover from this have "Effective e (upd f e (upd f d c)) = Effective e (upd f e c)"
      using all_rows [OF reads_back(1) Cons.prems(3)] Cons.prems(4) by (simp add: upd_def split: option.split)
    ultimately show ?thesis using Cons False by simp
  qed
qed simp

lemma effective_all: "e \<in> set Settings \<Longrightarrow> Settable e \<Longrightarrow> Effective e (fold (upd f) Settings c) = Effective e (upd f e c)"
  using effective_fold [of Settings e f c] names_distinct by simp

subsection \<open>Defaults and saved values\<close>

lemma defaults_as_upd: "applySettingDefaults = fold (upd (\<lambda>d. if Settable d \<and> sd_set d \<noteq> None then Some (sd_Default d) else None)) Settings"
proof
  fix c
  have "(\<lambda>d c. if Settable d \<and> sd_set d \<noteq> None then set_field d (sd_Default d) c else c) =
      upd (\<lambda>d. if Settable d \<and> sd_set d \<noteq> None then Some (sd_Default d) else None)"
    by (intro ext) (auto simp: upd_def)
  then show "applySettingDefaults c = fold (upd (\<lambda>d. if Settable d \<and> sd_set d \<noteq> None then Some (sd_Default d) else None)) Settings c"
    by (simp only: applySettingDefaults_def)
qed

lemma settable_set: "list_all (\<lambda>d. Settable d \<longrightarrow> sd_set d \<noteq> None) Settings"
  unfolding Settings_def row_defs Settable_def by simp

lemma effective_defaults:
  assumes "d \<in> set Settings" and "Settable d"
  shows "Effective d (applySettingDefaults c) = sd_Default d"
proof -
  have "row_ok d" "default_ok d" "sd_set d \<noteq> None"
    using assms rows_ok defaults_valid settable_set by (auto simp: list_all_iff)
  with assms(2) have "Effective d (set_field d (sd_Default d) c) = sd_Default d" by (auto simp: row_ok_def default_ok_def)
  with assms \<open>sd_set d \<noteq> None\<close> show ?thesis by (simp add: defaults_as_upd effective_all upd_def)
qed

text \<open>What a saved value sets at boot.\<close>

definition saved_value :: "string gomap \<Rightarrow> setting_def \<Rightarrow> string option" where
  "saved_value vals d =
     (if sd_Scope d \<noteq> ScopeRestart then None
      else (case mget vals (sd_Name d) of
          None \<Rightarrow> None
        | Some raw \<Rightarrow> (case Validate d raw of Inr v \<Rightarrow> Some v | Inl e \<Rightarrow> if sd_keepInvalid d then Some (trim raw) else None)))"

lemma apply_row_upd: "snd (apply_row vals d (ns, c)) = upd (saved_value vals) d c"
  by (auto simp: apply_row_def upd_def saved_value_def split: option.split sum.split)

lemma apply_rows_upd: "snd (fold (apply_row vals) ds (ns, c)) = fold (upd (saved_value vals)) ds c"
proof (induction ds arbitrary: ns c)
  case (Cons d ds)
  obtain ns' c' where "apply_row vals d (ns, c) = (ns', c')" by (cases "apply_row vals d (ns, c)")
  with Cons apply_row_upd [of vals d ns c] show ?case by simp
qed simp

lemma notes_apart: "list_all (\<lambda>d. Effective d (add_notes ns c) = Effective d c) Settings"
  unfolding Settings_def row_defs Effective_def add_notes_def by simp

lemma effective_persisted:
  assumes "d \<in> set Settings" and "Settable d"
  shows "Effective d (snd (ApplyPersisted vals c)) = (case saved_value vals d of None \<Rightarrow> Effective d c | Some v \<Rightarrow> v)"
proof -
  obtain ns c1 where f: "fold (apply_row vals) Settings ([], c) = (ns, c1)" by (cases "fold (apply_row vals) Settings ([], c)")
  then have "Effective d (snd (ApplyPersisted vals c)) = Effective d (upd (saved_value vals) d c)"
    using apply_rows_upd [of vals Settings "[]" c] all_rows [OF notes_apart assms(1)] effective_all [OF assms]
    by (simp add: ApplyPersisted_def)
  moreover have "Effective d (set_field d v c) = v" if "saved_value vals d = Some v" for v
    using that assms(2) all_rows [OF rows_ok assms(1)] all_rows [OF reads_back(2) assms(1)]
    by (auto simp: saved_value_def row_ok_def split: option.splits sum.splits if_splits)
  ultimately show ?thesis by (simp add: upd_def split: option.split)
qed

subsection \<open>The environment\<close>

lemma settle_apart:
  "list_all (\<lambda>d. Settable d \<longrightarrow> Effective d (c\<lparr>cf_IgnoredEnv := a, cf_EnvOnlySet := b\<rparr>) = Effective d c) Settings"
  "list_all (\<lambda>d. Settable d \<longrightarrow> Effective d (c\<lparr>cf_MalformedBoolVars := a\<rparr>) = Effective d c) Settings"
  "list_all (\<lambda>d. Settable d \<longrightarrow> Effective d (c\<lparr>cf_MasterKeyAdmin := x\<rparr>) = Effective d c) Settings"
  "list_all (\<lambda>d. Settable d \<longrightarrow> Effective d (c\<lparr>cf_RouterUser := user, cf_RouterPass := pass\<rparr>) = Effective d c) Settings"
  unfolding Settings_def row_defs Effective_def Settable_def by simp_all

lemma settle_defaults:
  assumes "d \<in> set Settings" and "Settable d"
  shows "Effective d (settle env c) = sd_Default d"
  using all_rows [OF settle_apart(1) assms(1)] all_rows [OF settle_apart(2) assms(1)] all_rows [OF settle_apart(3) assms(1)]
    all_rows [OF settle_apart(4) assms(1)] effective_defaults [OF assms] assms(2)
  by (simp add: settle_def securityBool_def Let_def split: option.split)

text \<open>The fields the console does not manage are left alone by the loop over the rows.\<close>

definition unmanaged :: "config \<Rightarrow> string \<times> string \<times> string \<times> string \<times> string \<times> bool \<times> bool \<times> string" where
  "unmanaged c = (cf_AdminPassword c, cf_APIKeySeed c, cf_ActiveModelsURL c, cf_GatewayBidsURL c, cf_WebPublicURL c,
     cf_DevHTTP c, cf_MasterKeyAdmin c, cf_RouterURL c)"

lemma set_unmanaged: "list_all (\<lambda>d. unmanaged (set_field d v c) = unmanaged c) Settings"
  unfolding Settings_def row_defs set_field_def unmanaged_def set_mor_def by simp

lemma fold_unmanaged: "set ds \<subseteq> set Settings \<Longrightarrow> unmanaged (fold (upd f) ds c) = unmanaged c"
proof (induction ds arbitrary: c)
  case (Cons d ds)
  then have "d \<in> set Settings" by simp
  from all_rows [OF set_unmanaged this] have "unmanaged (upd f d c) = unmanaged c" by (simp add: upd_def split: option.split)
  with Cons show ?case by simp
qed simp

lemma defaults_unmanaged: "unmanaged (applySettingDefaults c) = unmanaged c"
  by (simp add: defaults_as_upd fold_unmanaged)

lemma settle_fields:
  "cf_AdminPassword (settle env c) = cf_AdminPassword c" "cf_APIKeySeed (settle env c) = cf_APIKeySeed c"
  "cf_ActiveModelsURL (settle env c) = cf_ActiveModelsURL c" "cf_GatewayBidsURL (settle env c) = cf_GatewayBidsURL c"
  "cf_WebPublicURL (settle env c) = cf_WebPublicURL c" "cf_DevHTTP (settle env c) = cf_DevHTTP c"
  "cf_MasterKeyAdmin (settle env c) = (ParseBool (trim (env ''MASTER_KEY_ADMIN'')) = Some True)"
  using defaults_unmanaged [of c]
  by (simp_all add: settle_def securityBool_def Let_def unmanaged_def ParseBool_def split: option.split)

lemma feed_url_ok:
  "validateFeedURL parse name raw = None \<longleftrightarrow>
     (\<exists>u. parse (trim raw) = Some u \<and> \<not> pu_User u \<and> pu_Hostname u \<noteq> [] \<and>
       (to_lower (pu_Scheme u) = ''https'' \<or> to_lower (pu_Scheme u) = ''http'' \<and> to_lower (pu_Hostname u) \<in> set feedLoopbackHosts))"
  by (auto simp: validateFeedURL_def Let_def to_lower_def split: option.split)

lemma password_ok:
  assumes "ValidateAdminPassword p cookie = None"
  shows "12 \<le> length (trim p)" "to_lower (trim p) \<notin> set weakPasswords" "trim p \<notin> set weakPasswords" "cookie \<noteq> trim p"
    "(\<forall>user. cut_colon cookie \<noteq> Some (user, trim p))"
  using assms by (auto simp: ValidateAdminPassword_def Let_def cut_colon_def split: if_splits)

text \<open>What a started process may rely on.\<close>

definition feed_safe :: "(string \<Rightarrow> parsed_url option) \<Rightarrow> string \<Rightarrow> bool" where
  "feed_safe parse raw = (case parse (trim raw) of
     None \<Rightarrow> False
   | Some u \<Rightarrow> \<not> pu_User u \<and> pu_Hostname u \<noteq> [] \<and>
       (to_lower (pu_Scheme u) = ''https'' \<or> to_lower (pu_Scheme u) = ''http'' \<and> to_lower (pu_Hostname u) \<in> set feedLoopbackHosts))"

definition boot_safe :: "(string \<Rightarrow> parsed_url option) \<Rightarrow> (string \<Rightarrow> string) \<Rightarrow> config \<Rightarrow> bool" where
  "boot_safe parse env c \<longleftrightarrow>
     12 \<le> length (trim (cf_AdminPassword c)) \<and> trim (cf_AdminPassword c) \<notin> set weakPasswords \<and>
     to_lower (trim (cf_AdminPassword c)) \<notin> set weakPasswords \<and>
     router_auth env \<noteq> trim (cf_AdminPassword c) \<and> cf_RouterPass c \<noteq> trim (cf_AdminPassword c) \<and>
     cf_APIKeySeed c \<noteq> [] \<and> cf_RouterUser c \<noteq> [] \<and> cf_RouterPass c \<noteq> [] \<and>
     feed_safe parse (cf_ActiveModelsURL c) \<and> feed_safe parse (cf_GatewayBidsURL c) \<and>
     (\<not> cf_DevHTTP c \<or> dev_origin (cf_WebPublicURL c)) \<and>
     cf_MasterKeyAdmin c = (ParseBool (trim (env ''MASTER_KEY_ADMIN'')) = Some True) \<and>
     list_all (\<lambda>d. Settable d \<longrightarrow> Effective d c = sd_Default d) Settings"

lemma router_fields:
  assumes "cf_RouterUser (settle env (from_environment env)) \<noteq> []"
  shows "cut_colon (router_auth env) =
    Some (cf_RouterUser (settle env (from_environment env)), cf_RouterPass (settle env (from_environment env)))"
proof -
  have user: "list_all (\<lambda>d. cf_RouterUser (set_field d v c) = cf_RouterUser c) Settings" for v c
    unfolding Settings_def row_defs set_field_def set_mor_def by simp
  have "set ds \<subseteq> set Settings \<Longrightarrow> cf_RouterUser (fold (upd f) ds c) = cf_RouterUser c" for f ds c
  proof (induction ds arbitrary: c)
    case (Cons d ds)
    then have "cf_RouterUser (upd f d c) = cf_RouterUser c"
      using all_rows [OF user, of d] by (simp add: upd_def split: option.split)
    with Cons show ?case by simp
  qed simp
  then have "cf_RouterUser (applySettingDefaults (from_environment env)) = []"
    by (simp add: defaults_as_upd from_environment_def)
  with assms show ?thesis by (auto simp: settle_def securityBool_def Let_def split: option.splits if_splits)
qed

lemma FromEnv_safe:
  "case FromEnv parse env of Inl e \<Rightarrow> True | Inr c \<Rightarrow> boot_safe parse env c"
proof (cases "FromEnv parse env")
  case (Inr c)
  let ?c = "settle env (from_environment env)"
  from Inr have c: "c = ?c" and m: "missing_vars ?c = []"
    and p: "ValidateAdminPassword (cf_AdminPassword ?c) (router_auth env) = None"
    and feeds: "validateFeedURL parse ''ACTIVE_MODELS_URL'' (cf_ActiveModelsURL ?c) = None"
      "validateFeedURL parse ''GATEWAY_BIDS_URL'' (cf_GatewayBidsURL ?c) = None"
    and dev: "\<not> (cf_DevHTTP ?c \<and> \<not> dev_origin (cf_WebPublicURL ?c))"
    by (auto simp: FromEnv_def Let_def split: if_splits option.splits)
  from m have set: "cf_APIKeySeed ?c \<noteq> []" "cf_RouterUser ?c \<noteq> []" "cf_RouterPass ?c \<noteq> []"
    by (auto simp: missing_vars_def split: if_splits)
  have "cf_RouterPass ?c \<noteq> trim (cf_AdminPassword ?c)"
    using password_ok(5) [OF p] router_fields [OF set(2)] by auto
  moreover have "feed_safe parse (cf_ActiveModelsURL ?c)" "feed_safe parse (cf_GatewayBidsURL ?c)"
    using feeds unfolding feed_url_ok feed_safe_def by auto
  moreover have "list_all (\<lambda>d. Settable d \<longrightarrow> Effective d ?c = sd_Default d) Settings"
    by (simp add: list_all_iff settle_defaults)
  ultimately have "boot_safe parse env ?c"
    unfolding boot_safe_def using password_ok [OF p] set dev settle_fields(7) by blast
  with Inr c show ?thesis by simp
qed simp


end
