(* ===== verification/Settings_Api.thy ===== *)
theory Settings_Api
  imports Config Store Admin_Api
begin

section \<open>The settings of the console (\<open>internal/api/settings.go\<close>, \<open>settings_file.go\<close>)\<close>

text \<open>
  The saved settings of the store, the values the server runs with, and the console's routes over them: view, set,
  reset, export and import. \<open>settingsMu\<close> makes each change one critical section; between two of them other
  requests run, none of which touches the settings. Bodies are parsed (\<open>Json\<close>); the audit gets kind and message.
\<close>

subsection \<open>Effective values\<close>

record live_def =
  ld_name :: string
  ld_min :: int
  ld_max :: int
  ld_def :: int
  ld_level :: bool

definition liveSettingDefs :: "live_def list" where
  "liveSettingDefs = map (\<lambda>d. \<lparr>ld_name = sd_Name d, ld_min = sd_Min d, ld_max = sd_Max d, ld_def = atoi (sd_Default d),
       ld_level = (sd_Kind d = KindEnum)\<rparr>) (filter (\<lambda>d. sd_Scope d = ScopeLive) Settings)"

definition settingByName :: "string \<Rightarrow> live_def option" where
  "settingByName name = find (\<lambda>d. ld_name d = name) liveSettingDefs"

record runtime =
  rs_ints :: "int gomap"
  rs_level :: string
  rs_source :: "string gomap"

definition persistedInt :: "settings \<Rightarrow> string \<Rightarrow> int option" where
  "persistedInt st name = (case legacyInt name of None \<Rightarrow> None | Some l \<Rightarrow> legacy_get l st)"

definition setPersistedInt :: "string \<Rightarrow> int option \<Rightarrow> settings \<Rightarrow> settings" where
  "setPersistedInt name v st = (case legacyInt name of None \<Rightarrow> st | Some l \<Rightarrow> legacy_put l v st)"

definition cfgInt :: "config \<Rightarrow> string \<Rightarrow> int \<Rightarrow> int" where
  "cfgInt cfg name def =
     (let v = (if name = ''sessionDurationDefault'' then cf_SessionDurationSec cfg
               else if name = ''sessionDurationMax'' then cf_SessionDurationMax cfg
               else if name = ''sessionIdleGrace'' then cf_SessionIdleGraceSec cfg
               else if name = ''forwardIdle'' then cf_ForwardIdleSec cfg
               else 0)
      in if v \<le> 0 then def else v)"

datatype log_level = LevelDebug | LevelInfo | LevelWarn | LevelError

definition levelOf :: "string \<Rightarrow> log_level" where
  "levelOf name = (if name = ''debug'' then LevelDebug else if name = ''warn'' then LevelWarn
     else if name = ''error'' then LevelError else LevelInfo)"

text \<open>The value of one integer setting, and where it comes from; the note of a value that is not used.\<close>

definition live_int :: "config \<Rightarrow> settings \<Rightarrow> live_def \<Rightarrow> int \<times> string \<times> string list" where
  "live_int cfg st d =
     (case persistedInt st (ld_name d) of
        Some p \<Rightarrow>
          if p \<ge> ld_min d \<and> p \<le> ld_max d then (p, ''persisted'', [])
          else (cfgInt cfg (ld_name d) (ld_def d), ''default'', [ld_name d @ '' persisted value out of range; ignored''])
      | None \<Rightarrow> (cfgInt cfg (ld_name d) (ld_def d), ''default'', []))"

definition resolve_one :: "config \<Rightarrow> settings \<Rightarrow> live_def \<Rightarrow> runtime \<times> string list \<Rightarrow> runtime \<times> string list" where
  "resolve_one cfg st d rn =
     (case rn of (rs, ns) \<Rightarrow>
      if ld_level d then
        (let l = ParseLogLevel (sg_LogLevel st) in
         if l \<noteq> [] then (rs\<lparr>rs_level := l, rs_source := mput (ld_name d) ''persisted'' (rs_source rs)\<rparr>, ns)
         else (rs\<lparr>rs_level := ''info'', rs_source := mput (ld_name d) ''default'' (rs_source rs)\<rparr>,
               if sg_LogLevel st \<noteq> [] then ns @ [ld_name d @ '' persisted value invalid; ignored''] else ns))
      else (case live_int cfg st d of (v, src, extra) \<Rightarrow>
         (rs\<lparr>rs_ints := mput (ld_name d) v (rs_ints rs), rs_source := mput (ld_name d) src (rs_source rs)\<rparr>, ns @ extra)))"

definition rs_int :: "runtime \<Rightarrow> string \<Rightarrow> int" where
  "rs_int rs name = (case mget (rs_ints rs) name of None \<Rightarrow> 0 | Some v \<Rightarrow> v)"

definition resolveSettings :: "config \<Rightarrow> settings \<Rightarrow> runtime \<times> string list" where
  "resolveSettings cfg st =
     (case fold (resolve_one cfg st) liveSettingDefs (\<lparr>rs_ints = [], rs_level = [], rs_source = []\<rparr>, []) of
        (rs, ns) \<Rightarrow>
          (let mx = rs_int rs ''sessionDurationMax'' in
           if rs_int rs ''sessionDurationDefault'' > mx
           then (rs\<lparr>rs_ints := mput ''sessionDurationDefault'' mx (rs_ints rs)\<rparr>,
                 ns @ [''sessionDurationDefault above sessionDurationMax; clamped to '' @ show_int mx])
           else (rs, ns)))"

subsection \<open>The server's part\<close>

text \<open>What the pool and the logger were told last (\<open>SetDuration\<close>, \<open>SetDurationMax\<close>, \<open>LogLevel.Set\<close>).\<close>

record sset =
  cn_store :: store
  cn_rt :: runtime
  cn_Duration :: int
  cn_DurationMax :: int
  cn_Level :: log_level
  cn_audit :: "(string \<times> string) list"

type_synonym 'a set_act = "(sset, 'a) state"

definition applySettings :: "sset \<Rightarrow> sset" where
  "applySettings s = s\<lparr>cn_Duration := rs_int (cn_rt s) ''sessionDurationDefault'',
     cn_DurationMax := rs_int (cn_rt s) ''sessionDurationMax'', cn_Level := levelOf (rs_level (cn_rt s))\<rparr>"

definition SessionIdleGrace :: "sset \<Rightarrow> int" where "SessionIdleGrace s = rs_int (cn_rt s) ''sessionIdleGrace''"
definition forwardIdle_now :: "sset \<Rightarrow> int" where "forwardIdle_now s = rs_int (cn_rt s) ''forwardIdle''"

definition get_set :: "sset set_act" where "get_set = State (\<lambda>s. (s, s))"
definition mod_set :: "(sset \<Rightarrow> sset) \<Rightarrow> unit set_act" where "mod_set f = State (\<lambda>s. ((), f s))"

definition on_store :: "'a store_act \<Rightarrow> 'a set_act" where
  "on_store f = State (\<lambda>s. case run_state f (cn_store s) of (a, x) \<Rightarrow> (a, s\<lparr>cn_store := x\<rparr>))"

definition set_audit :: "string \<Rightarrow> string \<Rightarrow> unit set_act" where
  "set_audit kind msg = mod_set (\<lambda>s. s\<lparr>cn_audit := cn_audit s @ [(kind, msg)]\<rparr>)"

definition saved_settings :: "sset \<Rightarrow> settings" where "saved_settings s = st_Settings (so_st (cn_store s))"

definition arrow :: string where "arrow = [CHR 0xE2, CHR 0x86, CHR 0x92]"   \<comment> \<open>U+2192\<close>

subsection \<open>The view\<close>

datatype sval = SInt int | SBool bool | SStr string | SNull

definition typedSetting :: "setting_def \<Rightarrow> string \<Rightarrow> sval" where
  "typedSetting d v = (case sd_Kind d of KindInt \<Rightarrow> SInt (atoi v) | KindBool \<Rightarrow> SBool (atob v) | _ \<Rightarrow> SStr v)"

definition restartValue :: "setting_def \<Rightarrow> settings \<Rightarrow> string \<times> string" where
  "restartValue d st =
     (case Value st (sd_Name d) of
        None \<Rightarrow> (sd_Default d, ''default'')
      | Some raw \<Rightarrow> (case Validate d raw of
            Inr v \<Rightarrow> (v, ''persisted'')
          | Inl e \<Rightarrow> if KeepsInvalid d then (trim raw, ''persisted'') else (sd_Default d, ''default'')))"

text \<open>Name, kind, limits, options, scope and group are those of the row; \<open>pinned\<close> is always false.\<close>

record setting_view =
  sv_Row :: setting_def
  sv_Value :: sval
  sv_Default :: sval
  sv_Source :: string
  sv_Restart :: string
  sv_Effective :: "sval option"
  sv_PendingRestart :: bool
  sv_Invalid :: bool

definition view_row :: "config \<Rightarrow> settings \<Rightarrow> runtime \<Rightarrow> setting_def \<Rightarrow> setting_view" where
  "view_row cfg st rs d =
     (let v = \<lparr>sv_Row = d, sv_Value = SNull, sv_Default = typedSetting d (sd_Default d), sv_Source = [], sv_Restart = [],
               sv_Effective = None, sv_PendingRestart = False, sv_Invalid = False\<rparr>
      in case sd_Scope d of
           ScopeLive \<Rightarrow> v\<lparr>sv_Source := (case mget (rs_source rs) (sd_Name d) of None \<Rightarrow> [] | Some x \<Rightarrow> x),
               sv_Value := (if sd_Kind d = KindEnum then SStr (rs_level rs) else SInt (rs_int rs (sd_Name d)))\<rparr>
         | ScopeRestart \<Rightarrow>
             (case restartValue d st of (val, src) \<Rightarrow>
               (let eff = Effective d cfg in
                v\<lparr>sv_Value := typedSetting d val, sv_Source := src, sv_Restart := ''uplink'',
                  sv_Effective := Some (typedSetting d eff), sv_PendingRestart := (val \<noteq> eff),
                  sv_Invalid := (KeepsInvalid d \<and> (case Validate d val of Inl e \<Rightarrow> True | Inr w \<Rightarrow> False))\<rparr>))
         | ScopeEnvOnly \<Rightarrow> v\<lparr>sv_Value := typedSetting d (Effective d cfg), sv_Restart := ''uplink'',
               sv_Source := (if sd_Env d \<in> set (cf_EnvOnlySet cfg) then ''env'' else ''default'')\<rparr>
         | ScopeRouter \<Rightarrow> v\<lparr>sv_Source := ''router'', sv_Restart := ''router''\<rparr>)"

definition settingsView :: "config \<Rightarrow> sset \<Rightarrow> setting_view list" where
  "settingsView cfg s = map (view_row cfg (saved_settings s) (cn_rt s)) Settings"

subsection \<open>Answers\<close>

datatype console_answer =
    CRefused nat string
  | CView "setting_view list"
  | CExport "(string \<times> sval) list"

text \<open>\<open>scalarString\<close>: the text of a number, bool or string.\<close>

fun scalarString :: "json \<Rightarrow> string option" where
  "scalarString (JStr v) = Some v"
| "scalarString (JNum t) = Some t"
| "scalarString (JBool b) = Some (btoa b)"
| "scalarString JNull = None"
| "scalarString (JArr _) = None"
| "scalarString (JObj _) = None"

definition registryLookup :: "string \<Rightarrow> string + setting_def" where
  "registryLookup name =
     (if IsSecretKey name then Inl ''secrets are set in .env only''
      else case SettingByName name of
        None \<Rightarrow> Inl ''unknown setting''
      | Some d \<Rightarrow>
          if Settable d then Inr d
          else if sd_Scope d = ScopeRouter then Inl (sd_Name d @ '' is a router setting: set it in the router'' @ [CHR 0x27] @ ''s .env'')
          else Inl (sd_Name d @ '' is set in .env only''))"

subsection \<open>Setting one value\<close>

text \<open>\<open>json.Unmarshal\<close> of the raw value into a string and into an \<open>int\<close>.\<close>

fun raw_string :: "json \<Rightarrow> string option" where
  "raw_string (JStr v) = Some v"
| "raw_string JNull = Some []"
| "raw_string _ = None"

fun raw_int :: "json \<Rightarrow> int option" where
  "raw_int (JNum t) = parse_int64 t"
| "raw_int JNull = Some 0"
| "raw_int _ = None"

definition range_error :: "live_def \<Rightarrow> console_answer" where
  "range_error d = CRefused 400 (ld_name d @ '' must be a whole number '' @ show_int (ld_min d) @ dots @ show_int (ld_max d))"

text \<open>The end of a live change: pool and logger, audit line, view.\<close>

definition changed_live :: "config \<Rightarrow> live_def \<Rightarrow> string \<Rightarrow> string \<Rightarrow> console_answer set_act" where
  "changed_live cfg d oldStr newStr = do {
     _ \<leftarrow> mod_set applySettings;
     _ \<leftarrow> set_audit ''setting_change'' (ld_name d @ '' '' @ oldStr @ arrow @ newStr);
     s \<leftarrow> get_set;
     ret (CView (settingsView cfg s)) }"

definition save_failed :: console_answer where "save_failed = CRefused 500 ''save failed''"

definition set_level :: "store_env \<Rightarrow> config \<Rightarrow> live_def \<Rightarrow> string option \<Rightarrow> console_answer set_act" where
  "set_level K cfg d lv = do {
     err \<leftarrow> on_store (UpdateSettings K (\<lambda>st. (Inr (st\<lparr>sg_LogLevel := (case lv of None \<Rightarrow> [] | Some l \<Rightarrow> l)\<rparr>) :: unit + settings)));
     (case err of
        Some e \<Rightarrow> ret save_failed
      | None \<Rightarrow> do {
          s \<leftarrow> get_set;
          _ \<leftarrow> mod_set (\<lambda>s. s\<lparr>cn_rt := (case lv of
                 None \<Rightarrow> (cn_rt s)\<lparr>rs_level := ''info'', rs_source := mput (ld_name d) ''default'' (rs_source (cn_rt s))\<rparr>
               | Some l \<Rightarrow> (cn_rt s)\<lparr>rs_level := l, rs_source := mput (ld_name d) ''persisted'' (rs_source (cn_rt s))\<rparr>)\<rparr>);
          changed_live cfg d (rs_level (cn_rt s)) (case lv of None \<Rightarrow> ''info'' | Some l \<Rightarrow> l) }) }"

definition set_int :: "store_env \<Rightarrow> config \<Rightarrow> live_def \<Rightarrow> int option \<Rightarrow> console_answer set_act" where
  "set_int K cfg d np = do {
     s \<leftarrow> get_set;
     (let n = (case np of None \<Rightarrow> cfgInt cfg (ld_name d) (ld_def d) | Some m \<Rightarrow> m) in
      if ld_name d = ''sessionDurationDefault'' \<and> n > rs_int (cn_rt s) ''sessionDurationMax'' \<or>
         ld_name d = ''sessionDurationMax'' \<and> n < rs_int (cn_rt s) ''sessionDurationDefault''
      then ret (CRefused 400 ''sessionDurationDefault must not exceed sessionDurationMax'')
      else do {
        err \<leftarrow> on_store (UpdateSettings K (\<lambda>st. (Inr (setPersistedInt (ld_name d) np st) :: unit + settings)));
        (case err of
           Some e \<Rightarrow> ret save_failed
         | None \<Rightarrow> do {
             _ \<leftarrow> mod_set (\<lambda>s. s\<lparr>cn_rt := (cn_rt s)\<lparr>rs_ints := mput (ld_name d) n (rs_ints (cn_rt s)),
                    rs_source := mput (ld_name d) (if np = None then ''default'' else ''persisted'') (rs_source (cn_rt s))\<rparr>\<rparr>);
             changed_live cfg d (show_int (rs_int (cn_rt s) (ld_name d))) (show_int n) }) }) }"

definition set_live :: "store_env \<Rightarrow> config \<Rightarrow> live_def \<Rightarrow> json option \<Rightarrow> bool \<Rightarrow> console_answer set_act" where
  "set_live K cfg d v reset =
     (if \<not> reset \<and> v = None then ret (CRefused 400 ''value required'')
      else if ld_level d then
        (if reset then set_level K cfg d None
         else case Option.bind v raw_string of
           None \<Rightarrow> ret (CRefused 400 ''logLevel must be debug, info, warn or error'')
         | Some lv \<Rightarrow>
             if ParseLogLevel lv = [] then ret (CRefused 400 ''logLevel must be debug, info, warn or error'')
             else set_level K cfg d (Some (ParseLogLevel lv)))
      else
        (if reset then set_int K cfg d None
         else case Option.bind v raw_int of
           None \<Rightarrow> ret (range_error d)
         | Some n \<Rightarrow> if n < ld_min d \<or> n > ld_max d then ret (range_error d) else set_int K cfg d (Some n)))"

definition settingChangeText :: "setting_def \<Rightarrow> string \<Rightarrow> string \<Rightarrow> string" where
  "settingChangeText d oldStr newStr =
     (if sd_Kind d = KindString then sd_Name d @ '' changed (restart)''
      else sd_Name d @ '' '' @ oldStr @ arrow @ newStr @ '' (restart)'')"

text \<open>The locked part of \<open>handleRegistrySet\<close>.\<close>

definition save_registry :: "store_env \<Rightarrow> config \<Rightarrow> setting_def \<Rightarrow> string option \<Rightarrow> console_answer set_act" where
  "save_registry K cfg d val = do {
     s \<leftarrow> get_set;
     err \<leftarrow> on_store (UpdateSettings K (\<lambda>st. case SetValue (sd_Name d) val st of None \<Rightarrow> Inl () | Some st' \<Rightarrow> Inr st'));
     (case err of
        Some e \<Rightarrow> ret save_failed
      | None \<Rightarrow> do {
          s' \<leftarrow> get_set;
          _ \<leftarrow> set_audit ''setting_change''
                 (settingChangeText d (fst (restartValue d (saved_settings s))) (fst (restartValue d (saved_settings s'))));
          s'' \<leftarrow> get_set;
          ret (CView (settingsView cfg s'')) }) }"

subsection \<open>Export and import\<close>

definition export_values :: "settings \<Rightarrow> (string \<times> sval) list" where
  "export_values st = concat (map (\<lambda>d.
     (case mget (All st) (sd_Name d) of
        None \<Rightarrow> []
      | Some raw \<Rightarrow>
          if \<not> Settable d then []
          else (case Validate d raw of Inl e \<Rightarrow> [] | Inr v \<Rightarrow> [(sd_Name d, typedSetting d v)]))) Settings)"

definition reSafeName :: "string \<Rightarrow> bool" where
  "reSafeName s = (case s of [] \<Rightarrow> False
     | c # cs \<Rightarrow> (let letter = (\<lambda>x. is_alpha_lower (lower_char x)) in
         letter c \<and> length cs \<le> 63 \<and> list_all (\<lambda>x. letter x \<or> is_digit x \<or> x = CHR ''_'') cs))"

text \<open>The loop over the sorted names: every value is checked before anything is written.\<close>

fun check_values :: "json gomap \<Rightarrow> string list \<Rightarrow> string gomap \<Rightarrow> string + string gomap" where
  "check_values file [] vals = Inr vals"
| "check_values file (k # ks) vals =
     (case registryLookup k of
        Inl msg \<Rightarrow> Inl (if msg = ''unknown setting'' \<and> reSafeName k then msg @ '': '' @ k else msg)
      | Inr d \<Rightarrow>
          (case Option.bind (mget file k) scalarString of
             None \<Rightarrow> Inl (sd_Name d @ '': invalid value'')
           | Some t \<Rightarrow> (case Validate d t of Inl e \<Rightarrow> Inl e | Inr v \<Rightarrow> check_values file ks (mput (sd_Name d) v vals))))"

text \<open>The candidate; the map's order does not matter, here it is that of the names.\<close>

fun build_settings :: "string gomap \<Rightarrow> string list \<Rightarrow> settings \<Rightarrow> string + settings" where
  "build_settings vals [] cand = Inr cand"
| "build_settings vals (k # ks) cand =
     (case SetValue k (mget vals k) cand of
        None \<Rightarrow> Inl (k @ '': invalid value'')
      | Some c \<Rightarrow> build_settings vals ks c)"

definition import_check :: "config \<Rightarrow> json gomap \<Rightarrow> string + settings \<times> runtime" where
  "import_check cfg file =
     (let names = sort (mkeys file) in
      case check_values file names [] of
        Inl e \<Rightarrow> Inl e
      | Inr vals \<Rightarrow>
          (case build_settings vals names no_settings of
             Inl e \<Rightarrow> Inl e
           | Inr cand \<Rightarrow>
               (let rs = fst (resolveSettings cfg cand) in
                case mget vals ''sessionDurationDefault'' of
                  None \<Rightarrow> Inr (cand, rs)
                | Some def \<Rightarrow>
                    if atoi def > rs_int rs ''sessionDurationMax'' then Inl ''sessionDurationDefault must not exceed sessionDurationMax''
                    else Inr (cand, rs))))"

text \<open>The locked part of the import.\<close>

definition save_import :: "store_env \<Rightarrow> config \<Rightarrow> string list \<Rightarrow> settings \<Rightarrow> runtime \<Rightarrow> console_answer set_act" where
  "save_import K cfg names cand rs = do {
     err \<leftarrow> on_store (UpdateSettings K (\<lambda>st. (Inr cand :: unit + settings)));
     (case err of
        Some e \<Rightarrow> ret save_failed
      | None \<Rightarrow> do {
          _ \<leftarrow> mod_set (\<lambda>s. applySettings (s\<lparr>cn_rt := rs\<rparr>));
          _ \<leftarrow> set_audit ''settings_import'' (show_int (int (length names)) @ '' settings: '' @ join_with '','' names);
          s \<leftarrow> get_set;
          ret (CView (settingsView cfg s)) }) }"

subsection \<open>Bodies\<close>

text \<open>\<open>DisallowUnknownFields\<close>, and nothing but white space after the value.\<close>

definition strict_object :: "nat \<Rightarrow> string list \<Rightarrow> string \<Rightarrow> (string \<times> json) list option" where
  "strict_object limit known body =
     (if length body > limit then None
      else case Option.bind (json_parse body) as_object of
        None \<Rightarrow> None
      | Some kvs \<Rightarrow> if list_all (\<lambda>(k, v). list_ex (equal_fold k) known) kvs then Some kvs else None)"

fun bool_members :: "json list \<Rightarrow> bool option \<Rightarrow> bool option" where
  "bool_members [] b = b"
| "bool_members (JNull # vs) b = bool_members vs b"
| "bool_members (JBool x # vs) b = (case b of None \<Rightarrow> None | Some _ \<Rightarrow> bool_members vs (Some x))"
| "bool_members (_ # vs) b = None"

definition last_member :: "string \<Rightarrow> (string \<times> json) list \<Rightarrow> json option" where
  "last_member name kvs = (case members name kvs of [] \<Rightarrow> None | v # vs \<Rightarrow> Some (last (v # vs)))"

definition set_request :: "string \<Rightarrow> (string \<times> json option \<times> bool) option" where
  "set_request body =
     (case strict_object 1024 [''name'', ''value'', ''reset''] body of
        None \<Rightarrow> None
      | Some kvs \<Rightarrow>
          (case (str_field ''name'' kvs, bool_members (members ''reset'' kvs) (Some False)) of
             ((True, name), Some reset) \<Rightarrow> Some (name, last_member ''value'' kvs, reset)
           | _ \<Rightarrow> None))"

definition settingsFileMax :: nat where "settingsFileMax = 65536"
definition settingsFileFormat :: string where "settingsFileFormat = ''uplink-settings''"
definition settingsFileVersion :: int where "settingsFileVersion = 1"

text \<open>A map field: objects add to it, \<open>null\<close> empties it (\<open>None\<close> is the nil map), anything else is an error.\<close>

fun map_members :: "json list \<Rightarrow> json gomap option \<Rightarrow> json gomap option option" where
  "map_members [] m = Some m"
| "map_members (JNull # vs) m = map_members vs None"
| "map_members (JObj kvs # vs) m = map_members vs (Some (fold (\<lambda>(k, v). mput k v) kvs (case m of None \<Rightarrow> [] | Some x \<Rightarrow> x)))"
| "map_members (_ # vs) m = None"

definition file_request :: "string \<Rightarrow> (string \<times> int \<times> json gomap option) option" where
  "file_request body =
     (case strict_object settingsFileMax [''format'', ''version'', ''settings''] body of
        None \<Rightarrow> None
      | Some kvs \<Rightarrow>
          (case (str_field ''format'' kvs, int_field ''version'' kvs 0, map_members (members ''settings'' kvs) None) of
             ((True, fmt), (True, ver), Some m) \<Rightarrow> Some (fmt, ver, m)
           | _ \<Rightarrow> None))"

subsection \<open>The routes\<close>

record 'w console =
  cs_adm :: "'w adm"
  cs_set :: sset

text \<open>Before a section on the settings, other requests may have changed them.\<close>

record 'w console_env =
  ce_adm :: "'w adm_env"
  ce_web :: origin
  ce_store :: store_env
  ce_cfg :: config
  ce_others :: "sset \<Rightarrow> sset"

type_synonym ('w, 'a) con_act = "('w console, 'a) state"

definition on_adm :: "('w, 'a) adm_act \<Rightarrow> ('w, 'a) con_act" where
  "on_adm f = State (\<lambda>s. case run_state f (cs_adm s) of (a, x) \<Rightarrow> (a, s\<lparr>cs_adm := x\<rparr>))"

definition on_set :: "'w console_env \<Rightarrow> 'a set_act \<Rightarrow> ('w, 'a) con_act" where
  "on_set C f = State (\<lambda>s. case run_state f (ce_others C (cs_set s)) of (a, x) \<Rightarrow> (a, s\<lparr>cs_set := x\<rparr>))"

definition sameOriginFetch :: "origin \<Rightarrow> request \<Rightarrow> bool" where
  "sameOriginFetch web r =
     (if rq_FetchSite r \<notin> set [[], ''same-origin'', ''none''] then False
      else if rq_Origin r \<noteq> NoOrigin \<and> (web = NoOrigin \<or> \<not> originsMatch (rq_Origin r) web) then False
      else True)"

definition requireConsoleSession ::
  "'w console_env \<Rightarrow> request \<Rightarrow> (admitted \<Rightarrow> ('w, console_answer) con_act) \<Rightarrow> ('w, console_answer) con_act" where
  "requireConsoleSession C r nxt =
     (if rq_Authorization r \<noteq> [] then do {
        _ \<leftarrow> (if has_prefix (authHeader r) ''Bearer '' \<and> drop 7 (authHeader r) = cg_MasterKey (av_cfg (ce_adm C))
              then on_adm (auditEvent (ce_adm C) ''admin_key_use'' (rq_IP r) ''blocked'' ''settings_refused'') else ret ());
        ret (CRefused 403 ''settings need an admin session'') }
      else do {
        c \<leftarrow> on_adm (cookieSession (ce_adm C) r);
        (case c of
           None \<Rightarrow> ret (CRefused 401 ''unauthorized'')
         | Some (raw, se) \<Rightarrow>
             if \<not> checkCSRF (ce_web C) r \<or> \<not> sameOriginFetch (ce_web C) r then ret (CRefused 403 ''forbidden'')
             else do {
               auth \<leftarrow> on_adm (get_auth (ce_adm C));
               if On auth \<and> \<not> au_Enrolled auth then ret (CRefused 403 ''2fa enrollment required'')
               else nxt (BySession raw se) }) })"

definition requireStepUp :: "'w console_env \<Rightarrow> admitted \<Rightarrow> ('w, console_answer) con_act \<Rightarrow> ('w, console_answer) con_act" where
  "requireStepUp C who nxt =
     (case who of
        ByBearer \<Rightarrow> ret (CRefused 403 ''settings need an admin session'')
      | BySession raw se \<Rightarrow> do {
          t \<leftarrow> on_adm (the_time (ce_adm C));
          if \<not> Fresh t StepUpMaxAge se then ret (CRefused 401 ''step_up_required'') else nxt })"

definition handleSettingsGet :: "'w console_env \<Rightarrow> request \<Rightarrow> ('w, console_answer) con_act" where
  "handleSettingsGet C r = requireConsoleSession C r (\<lambda>who. on_set C (do {
     s \<leftarrow> get_set;
     ret (CView (settingsView (ce_cfg C) s)) }))"

definition handleRegistrySet ::
  "'w console_env \<Rightarrow> admitted \<Rightarrow> string \<Rightarrow> json option \<Rightarrow> bool \<Rightarrow> ('w, console_answer) con_act" where
  "handleRegistrySet C who name raw reset =
     (case registryLookup name of
        Inl msg \<Rightarrow> ret (CRefused 400 msg)
      | Inr d \<Rightarrow> requireStepUp C who
          (if reset then on_set C (save_registry (ce_store C) (ce_cfg C) d None)
           else (case Option.bind raw scalarString of
               None \<Rightarrow> ret (CRefused 400 ''invalid value'')
             | Some t \<Rightarrow> (case Validate d t of
                 Inl e \<Rightarrow> ret (CRefused 400 e)
               | Inr v \<Rightarrow> on_set C (save_registry (ce_store C) (ce_cfg C) d (Some v))))))"

definition handleSettingsSet :: "'w console_env \<Rightarrow> request \<Rightarrow> string \<Rightarrow> ('w, console_answer) con_act" where
  "handleSettingsSet C r body = requireConsoleSession C r (\<lambda>who.
     (case set_request body of
        None \<Rightarrow> ret (CRefused 400 ''invalid body'')
      | Some (name, v, reset) \<Rightarrow>
          (case settingByName name of
             None \<Rightarrow> handleRegistrySet C who name v reset
           | Some d \<Rightarrow> on_set C (set_live (ce_store C) (ce_cfg C) d v reset))))"

definition handleSettingsExport :: "'w console_env \<Rightarrow> request \<Rightarrow> ('w, console_answer) con_act" where
  "handleSettingsExport C r = requireConsoleSession C r (\<lambda>who. requireStepUp C who (on_set C (do {
     s \<leftarrow> get_set;
     (let vals = export_values (saved_settings s) in do {
        _ \<leftarrow> set_audit ''settings_export'' (show_int (int (length vals)) @ '' settings'');
        ret (CExport vals) }) })))"

definition handleSettingsImport :: "'w console_env \<Rightarrow> request \<Rightarrow> string \<Rightarrow> ('w, console_answer) con_act" where
  "handleSettingsImport C r body = requireConsoleSession C r (\<lambda>who. requireStepUp C who
     (case file_request body of
        None \<Rightarrow> ret (CRefused 400 ''invalid settings file'')
      | Some (fmt, ver, m) \<Rightarrow>
          (case m of
             None \<Rightarrow> ret (CRefused 400 ''not an uplink-settings v1 file'')
           | Some file \<Rightarrow>
               if fmt \<noteq> settingsFileFormat \<or> ver \<noteq> settingsFileVersion then ret (CRefused 400 ''not an uplink-settings v1 file'')
               else (case import_check (ce_cfg C) file of
                   Inl e \<Rightarrow> ret (CRefused 400 e)
                 | Inr (cand, rs) \<Rightarrow> on_set C (save_import (ce_store C) (ce_cfg C) (sort (mkeys file)) cand rs)))))"

subsection \<open>At boot (\<open>cmd/uplink\<close>, \<open>api.NewServer\<close>)\<close>

definition bootDefaultSessionSec :: "config \<Rightarrow> settings \<Rightarrow> int" where
  "bootDefaultSessionSec cfg saved =
     (let hi = (case sg_SessionDurationMax saved of None \<Rightarrow> cf_SessionDurationMax cfg | Some m \<Rightarrow> m);
          d = (case sg_SessionDurationDefault saved of None \<Rightarrow> cf_SessionDurationSec cfg | Some x \<Rightarrow> x)
      in max (if d > hi then hi else d) 600)"

text \<open>The cap settled; a converted hourly cap is saved under its new name.\<close>

definition resolveStakeCap :: "store_env \<Rightarrow> config \<Rightarrow> settings \<Rightarrow> config store_act" where
  "resolveStakeCap K cfg saved =
     (case ResolveStakeCap (All saved) (bootDefaultSessionSec cfg saved) (cf_Cap cfg) of
        (None, cap) \<Rightarrow> ret (cfg\<lparr>cf_Cap := cap\<rparr>)
      | (Some v, cap) \<Rightarrow> do {
          _ \<leftarrow> UpdateSettings K (\<lambda>x. case SetValue ''maxStMorPerSession'' (Some v) x of
                 None \<Rightarrow> Inl ()
               | Some y \<Rightarrow> (case SetValue ''maxStMorPerHour'' None y of None \<Rightarrow> Inl () | Some z \<Rightarrow> Inr z));
          ret (cfg\<lparr>cf_Cap := cap\<rparr>) })"

definition boot_settings :: "store_env \<Rightarrow> config \<Rightarrow> store \<Rightarrow> config \<times> sset" where
  "boot_settings K c0 s0 =
     (case run_state (do {
          saved \<leftarrow> GetSettings;
          resolveStakeCap K (snd (ApplyPersisted (All saved) c0)) saved }) s0 of
        (cfg, s1) \<Rightarrow>
          (case resolveSettings cfg (st_Settings (so_st s1)) of (rs, ns) \<Rightarrow>
             (cfg, applySettings \<lparr>cn_store = s1, cn_rt = rs, cn_Duration = 0, cn_DurationMax = 0, cn_Level = LevelInfo,
               cn_audit = map (\<lambda>n. (''setting_ignored'', n)) (ns @ cc_SettingNotes (cf_Cap cfg))\<rparr>)))"

end
