(* ===== verification/Settings_Props.thy ===== *)
theory Settings_Props
  imports Config_Props Settings_Api Admin_Props
begin

section \<open>What the settings guarantee\<close>

subsection \<open>The live rows\<close>

definition dDefault :: live_def where
  "dDefault = \<lparr>ld_name = ''sessionDurationDefault'', ld_min = 600, ld_max = 86400, ld_def = 600, ld_level = False\<rparr>"
definition dMax :: live_def where
  "dMax = \<lparr>ld_name = ''sessionDurationMax'', ld_min = 600, ld_max = 86400, ld_def = 1800, ld_level = False\<rparr>"
definition dGrace :: live_def where
  "dGrace = \<lparr>ld_name = ''sessionIdleGrace'', ld_min = 60, ld_max = 3600, ld_def = 300, ld_level = False\<rparr>"
definition dForward :: live_def where
  "dForward = \<lparr>ld_name = ''forwardIdle'', ld_min = 30, ld_max = 600, ld_def = 180, ld_level = False\<rparr>"
definition dLevel :: live_def where
  "dLevel = \<lparr>ld_name = ''logLevel'', ld_min = 0, ld_max = 0, ld_def = 0, ld_level = True\<rparr>"

lemma row_sel [simp]:
  "ld_name dDefault = ''sessionDurationDefault''" "ld_name dMax = ''sessionDurationMax''" "ld_name dGrace = ''sessionIdleGrace''"
  "ld_name dForward = ''forwardIdle''" "ld_name dLevel = ''logLevel''"
  "\<not> ld_level dDefault" "\<not> ld_level dMax" "\<not> ld_level dGrace" "\<not> ld_level dForward" "ld_level dLevel"
  "ld_min dDefault = 600" "ld_min dMax = 600" "ld_min dGrace = 60" "ld_min dForward = 30"
  "ld_max dDefault = 86400" "ld_max dMax = 86400" "ld_max dGrace = 3600" "ld_max dForward = 600"
  "ld_def dDefault = 600" "ld_def dMax = 1800" "ld_def dGrace = 300" "ld_def dForward = 180"
  by (simp_all add: dDefault_def dMax_def dGrace_def dForward_def dLevel_def)

lemma live_defs: "liveSettingDefs = [dDefault, dMax, dGrace, dForward, dLevel]"
proof -
  have "atoi ''600'' = 600" "atoi ''1800'' = 1800" "atoi ''300'' = 300" "atoi ''180'' = 180" "atoi ''info'' = 0"
    by code_simp+
  then show ?thesis
    unfolding liveSettingDefs_def Settings_def row_defs dDefault_def dMax_def dGrace_def dForward_def dLevel_def by simp
qed

text \<open>The integer rows.\<close>

definition int_defs :: "live_def list" where "int_defs = [dDefault, dMax, dGrace, dForward]"

lemma on_int_defs: "list_all P int_defs \<longleftrightarrow> P dDefault \<and> P dMax \<and> P dGrace \<and> P dForward"
  by (simp add: int_defs_def)

lemma settingByName_row:
  assumes "settingByName name = Some d" shows "ld_name d = name" "d \<in> set int_defs \<or> d = dLevel"
  using assms by (auto simp: settingByName_def live_defs int_defs_def find_Some_iff split: if_splits)

text \<open>The value a saved state gives a row, before the clamp; its source; the level.\<close>

definition eff :: "config \<Rightarrow> settings \<Rightarrow> live_def \<Rightarrow> int" where "eff cfg st d = fst (live_int cfg st d)"
definition eff_source :: "config \<Rightarrow> settings \<Rightarrow> live_def \<Rightarrow> string" where "eff_source cfg st d = fst (snd (live_int cfg st d))"

definition eff_level :: "settings \<Rightarrow> string" where
  "eff_level st = (if ParseLogLevel (sg_LogLevel st) \<noteq> [] then ParseLogLevel (sg_LogLevel st) else ''info'')"

definition eff_level_source :: "settings \<Rightarrow> string" where
  "eff_level_source st = (if ParseLogLevel (sg_LogLevel st) \<noteq> [] then ''persisted'' else ''default'')"

lemma resolved:
  "rs_int (fst (resolveSettings cfg st)) ''sessionDurationDefault'' = min (eff cfg st dDefault) (eff cfg st dMax)"
  "rs_int (fst (resolveSettings cfg st)) ''sessionDurationMax'' = eff cfg st dMax"
  "rs_int (fst (resolveSettings cfg st)) ''sessionIdleGrace'' = eff cfg st dGrace"
  "rs_int (fst (resolveSettings cfg st)) ''forwardIdle'' = eff cfg st dForward"
  "list_all (\<lambda>d. mget (rs_source (fst (resolveSettings cfg st))) (ld_name d) = Some (eff_source cfg st d)) int_defs"
  "rs_level (fst (resolveSettings cfg st)) = eff_level st"
  "mget (rs_source (fst (resolveSettings cfg st))) ''logLevel'' = Some (eff_level_source st)"
  unfolding resolveSettings_def live_defs on_int_defs
  by (simp_all add: resolve_one_def eff_def eff_source_def eff_level_def eff_level_source_def rs_int_def Let_def case_prod_beta)

subsection \<open>Histories\<close>

text \<open>What happens to the settings: the locked parts of the routes, and operations of the store that leave them alone.\<close>

datatype set_event =
    SetLive string "json option" bool
  | SetRow string "string option"
  | ImportFile "json gomap"
  | OtherStore store

definition set_event :: "store_env \<Rightarrow> config \<Rightarrow> set_event \<Rightarrow> sset \<Rightarrow> sset" where
  "set_event K cfg e s =
     (case e of
        SetLive name v reset \<Rightarrow> (case settingByName name of
            None \<Rightarrow> s
          | Some d \<Rightarrow> snd (run_state (set_live K cfg d v reset) s))
      | SetRow name val \<Rightarrow>
          (if settingByName name \<noteq> None then s
           else case registryLookup name of
             Inl msg \<Rightarrow> s
           | Inr d \<Rightarrow> (case val of
               None \<Rightarrow> snd (run_state (save_registry K cfg d None) s)
             | Some t \<Rightarrow> (case Validate d t of Inl e \<Rightarrow> s | Inr v \<Rightarrow> snd (run_state (save_registry K cfg d (Some v)) s))))
      | ImportFile file \<Rightarrow> (case import_check cfg file of
            Inl e \<Rightarrow> s
          | Inr (cand, rs) \<Rightarrow> snd (run_state (save_import K cfg (sort (mkeys file)) cand rs) s))
      | OtherStore x \<Rightarrow> s\<lparr>cn_store := x\<lparr>so_st := (so_st x)\<lparr>st_Settings := saved_settings s\<rparr>\<rparr>\<rparr>)"

definition in_range :: "runtime \<Rightarrow> bool" where
  "in_range rt \<longleftrightarrow> list_all (\<lambda>d. ld_min d \<le> rs_int rt (ld_name d) \<and> rs_int rt (ld_name d) \<le> ld_max d) int_defs \<and>
     rs_int rt ''sessionDurationDefault'' \<le> rs_int rt ''sessionDurationMax'' \<and> rs_level rt \<in> set logLevels"

definition told :: "sset \<Rightarrow> bool" where
  "told s \<longleftrightarrow> cn_Duration s = rs_int (cn_rt s) ''sessionDurationDefault'' \<and>
     cn_DurationMax s = rs_int (cn_rt s) ''sessionDurationMax'' \<and> cn_Level s = levelOf (rs_level (cn_rt s))"

definition same_runtime :: "runtime \<Rightarrow> runtime \<Rightarrow> bool" where
  "same_runtime a b \<longleftrightarrow>
     list_all (\<lambda>d. rs_int a (ld_name d) = rs_int b (ld_name d) \<and> mget (rs_source a) (ld_name d) = mget (rs_source b) (ld_name d)) int_defs \<and>
     rs_level a = rs_level b \<and> mget (rs_source a) ''logLevel'' = mget (rs_source b) ''logLevel''"

text \<open>The values in use are those of the saved state, none of them clamped.\<close>

definition ordered :: "config \<Rightarrow> settings \<Rightarrow> bool" where "ordered cfg st \<longleftrightarrow> eff cfg st dDefault \<le> eff cfg st dMax"

definition agrees :: "config \<Rightarrow> settings \<Rightarrow> runtime \<Rightarrow> bool" where
  "agrees cfg st rt \<longleftrightarrow>
     list_all (\<lambda>d. rs_int rt (ld_name d) = eff cfg st d \<and> mget (rs_source rt) (ld_name d) = Some (eff_source cfg st d)) int_defs \<and>
     rs_level rt = eff_level st \<and> mget (rs_source rt) ''logLevel'' = Some (eff_level_source st) \<and> ordered cfg st"

lemma resolved_agrees: "ordered cfg st \<Longrightarrow> agrees cfg st (fst (resolveSettings cfg st))"
  using resolved [where cfg = cfg and st = st] by (simp add: agrees_def ordered_def on_int_defs min_def)

lemma agrees_survives: "agrees cfg st rt \<Longrightarrow> same_runtime (fst (resolveSettings cfg st)) rt"
  using resolved [where cfg = cfg and st = st] by (simp add: agrees_def ordered_def same_runtime_def on_int_defs min_def)

text \<open>The configuration has the defaults in the live fields.\<close>

definition cfg_live :: "config \<Rightarrow> bool" where
  "cfg_live cfg \<longleftrightarrow> list_all (\<lambda>d. cfgInt cfg (ld_name d) (ld_def d) = ld_def d) int_defs"

lemma eff_range: "cfg_live cfg \<Longrightarrow> list_all (\<lambda>d. ld_min d \<le> eff cfg st d \<and> eff cfg st d \<le> ld_max d) int_defs"
  unfolding cfg_live_def on_int_defs by (auto simp: eff_def live_int_def split: option.split)

lemma level_ok: "eff_level st \<in> set logLevels" "ParseLogLevel l = [] \<or> ParseLogLevel l \<in> set logLevels"
  by (simp_all add: eff_level_def ParseLogLevel_def logLevels_def Let_def)

lemma resolved_in_range:
  assumes "cfg_live cfg" shows "in_range (fst (resolveSettings cfg st))"
proof -
  have "min (eff cfg st dDefault) (eff cfg st dMax) \<le> eff cfg st dMax" by simp
  with eff_range [OF assms, of st] level_ok(1) [of st] show ?thesis unfolding in_range_def on_int_defs resolved(6)
    by (simp add: resolved min_le_iff_disj)
qed

lemma get_put_legacy: "legacy_get k (legacy_put l v st) = (if k = l then v else legacy_get k st)"
  by (cases k; cases l) simp_all

lemma legacyInt_inj: "legacyInt m = Some l \<Longrightarrow> legacyInt n = Some l \<Longrightarrow> m = n"
  unfolding legacyInt_def by (simp split: if_splits)

lemma persisted_set: "persistedInt (setPersistedInt n v st) m = (if m = n \<and> legacyInt n \<noteq> None then v else persistedInt st m)"
  by (simp add: persistedInt_def setPersistedInt_def get_put_legacy split: option.split) (metis legacyInt_inj)

lemma int_defs_legacy: "d \<in> set int_defs \<Longrightarrow> legacyInt (ld_name d) \<noteq> None"
  by (auto simp: int_defs_def legacyInt_def)

lemma live_int_cong: "persistedInt st' (ld_name d) = persistedInt st (ld_name d) \<Longrightarrow> live_int cfg st' d = live_int cfg st d"
  by (simp add: live_int_def)

lemma level_other: "sg_LogLevel (setPersistedInt n v st) = sg_LogLevel st"
  by (cases "legacyInt n"; simp add: setPersistedInt_def; case_tac a; simp)

subsection \<open>A change is saved or nothing changes\<close>

definition quiet :: "sset \<Rightarrow> sset \<Rightarrow> bool" where
  "quiet s s' \<longleftrightarrow> saved_settings s' = saved_settings s \<and> cn_rt s' = cn_rt s \<and> cn_Duration s' = cn_Duration s \<and>
     cn_DurationMax s' = cn_DurationMax s \<and> cn_Level s' = cn_Level s"

lemma run_save: "so_st (snd (run_state (save K) x)) = so_st x"
  by (simp add: save_def get_st_def on_io_def State_Monad.bind_def split: prod.split)

lemma run_UpdateSettings:
  assumes "run_state (on_store (UpdateSettings K fn)) s = (err, s')"
  shows "(case err of
      None \<Rightarrow> (\<exists>st. fn (saved_settings s) = Inr st \<and> saved_settings s' = st) \<and> s' = s\<lparr>cn_store := cn_store s'\<rparr>
    | Some e \<Rightarrow> quiet s s')"
proof -
  obtain x' where x': "run_state (UpdateSettings K fn) (cn_store s) = (err, x')" "s' = s\<lparr>cn_store := x'\<rparr>"
    using assms by (auto simp: on_store_def split: prod.splits)
  show ?thesis
  proof (cases "fn (saved_settings s)")
    case (Inl e)
    then have "err = Some (Some e)" "x' = cn_store s"
      using x'(1) by (auto simp: UpdateSettings_def update_part_def get_st_def State_Monad.bind_def saved_settings_def)
    with x'(2) show ?thesis by (simp add: quiet_def)
  next
    case (Inr st)
    obtain okk y where y: "run_state (save K) ((cn_store s)\<lparr>so_st := (so_st (cn_store s))\<lparr>st_Settings := st\<rparr>\<rparr>) = (okk, y)"
      by (cases "run_state (save K) ((cn_store s)\<lparr>so_st := (so_st (cn_store s))\<lparr>st_Settings := st\<rparr>\<rparr>)")
    then have sy: "so_st y = (so_st (cn_store s))\<lparr>st_Settings := st\<rparr>" using run_save [of K] by (metis snd_conv store.select_convs(1) store.surjective store.update_convs(1))
    show ?thesis
    proof (cases okk)
      case True
      then have "err = None" "x' = y"
        using x'(1) y Inr by (auto simp: UpdateSettings_def update_part_def get_st_def put_st_def State_Monad.bind_def saved_settings_def)
      with x'(2) sy Inr show ?thesis by (simp add: saved_settings_def)
    next
      case False
      then have "err = Some None" "x' = y\<lparr>so_st := (so_st y)\<lparr>st_Settings := saved_settings s\<rparr>\<rparr>"
        using x'(1) y Inr by (auto simp: UpdateSettings_def update_part_def get_st_def put_st_def State_Monad.bind_def saved_settings_def)
      with x'(2) show ?thesis by (simp add: quiet_def saved_settings_def)
    qed
  qed
qed

subsection \<open>What a locked section does\<close>

lemma quiet_refl [simp]: "quiet s s" by (simp add: quiet_def)

lemma run_mod: "run_state (mod_set f \<bind> g) s = run_state (g ()) (f s)"
  by (simp add: mod_set_def State_Monad.bind_def)

lemma run_get: "run_state (get_set \<bind> g) s = run_state (g s) s"
  by (simp add: get_set_def State_Monad.bind_def)

lemma run_audit: "run_state (set_audit k m \<bind> g) s = run_state (g ()) (s\<lparr>cn_audit := cn_audit s @ [(k, m)]\<rparr>)"
  by (simp add: set_audit_def run_mod)

lemmas run_set = run_mod run_get run_audit run_state_return

lemma applied:
  "cn_rt (applySettings s) = cn_rt s" "saved_settings (applySettings s) = saved_settings s" "told (applySettings s)"
  "saved_settings (s\<lparr>cn_audit := l\<rparr>) = saved_settings s" "told (s\<lparr>cn_audit := l\<rparr>) = told s"
  "saved_settings (s\<lparr>cn_rt := rt\<rparr>) = saved_settings s"
  and told_store: "told (s\<lparr>cn_store := x\<rparr>) = told s"
  by (simp_all add: applySettings_def saved_settings_def told_def)

text \<open>An update: refused or failed without effect, or saved and followed by \<open>g\<close>.\<close>

lemma run_update_cases:
  assumes "run_state (on_store (UpdateSettings K fn) \<bind> (\<lambda>err. case err of Some e \<Rightarrow> ret save_failed | None \<Rightarrow> g)) s = (a, s')"
  shows "quiet s s' \<or> (\<exists>st s1. fn (saved_settings s) = Inr st \<and> saved_settings s1 = st \<and> cn_rt s1 = cn_rt s \<and> told s1 = told s \<and> run_state g s1 = (a, s'))"
proof -
  obtain err s1 where u: "run_state (on_store (UpdateSettings K fn)) s = (err, s1)"
    and g: "run_state (case err of Some e \<Rightarrow> ret save_failed | None \<Rightarrow> g) s1 = (a, s')"
    using assms by (rule run_bindE)
  show ?thesis
  proof (cases err)
    case None
    with run_UpdateSettings [OF u] have "fn (saved_settings s) = Inr (saved_settings s1)" "s1 = s\<lparr>cn_store := cn_store s1\<rparr>" by auto
    moreover from this(2) have "cn_rt s1 = cn_rt s" "told s1 = told s"
      by (metis sset.select_convs(2) sset.surjective sset.update_convs(1), metis told_store)
    ultimately show ?thesis using g None by auto
  next
    case (Some e)
    with run_UpdateSettings [OF u] g show ?thesis by simp
  qed
qed

lemma changed_live_ends:
  assumes "run_state (changed_live cfg d x y) s = (a, s')"
  shows "saved_settings s' = saved_settings s \<and> cn_rt s' = cn_rt s \<and> told s'"
  using assms by (auto simp: changed_live_def run_set applied)

lemma set_int_ends:
  assumes "run_state (set_int K cfg d np) s = (a, s')" and "n = (case np of None \<Rightarrow> cfgInt cfg (ld_name d) (ld_def d) | Some m \<Rightarrow> m)"
  shows "quiet s s' \<or>
    \<not> (ld_name d = ''sessionDurationDefault'' \<and> n > rs_int (cn_rt s) ''sessionDurationMax'') \<and>
    \<not> (ld_name d = ''sessionDurationMax'' \<and> n < rs_int (cn_rt s) ''sessionDurationDefault'') \<and>
    saved_settings s' = setPersistedInt (ld_name d) np (saved_settings s) \<and>
    cn_rt s' = (cn_rt s)\<lparr>rs_ints := mput (ld_name d) n (rs_ints (cn_rt s)),
      rs_source := mput (ld_name d) (if np = None then ''default'' else ''persisted'') (rs_source (cn_rt s))\<rparr> \<and> told s'"
proof (cases "ld_name d = ''sessionDurationDefault'' \<and> n > rs_int (cn_rt s) ''sessionDurationMax'' \<or>
    ld_name d = ''sessionDurationMax'' \<and> n < rs_int (cn_rt s) ''sessionDurationDefault''")
  case True
  then show ?thesis using assms by (auto simp: set_int_def run_set Let_def)
next
  case False
  from assms(1) [unfolded set_int_def run_get Let_def assms(2) [symmetric] if_not_P [OF False]]
  show ?thesis
  proof (rule run_update_cases [THEN disjE])
    assume "\<exists>st s1. Inr (setPersistedInt (ld_name d) np (saved_settings s)) = Inr st \<and> saved_settings s1 = st \<and> cn_rt s1 = cn_rt s \<and> told s1 = told s \<and>
      run_state (mod_set (\<lambda>s. s\<lparr>cn_rt := (cn_rt s)\<lparr>rs_ints := mput (ld_name d) n (rs_ints (cn_rt s)),
          rs_source := mput (ld_name d) (if np = None then ''default'' else ''persisted'') (rs_source (cn_rt s))\<rparr>\<rparr>) \<bind>
        (\<lambda>_. changed_live cfg d (show_int (rs_int (cn_rt s) (ld_name d))) (show_int n))) s1 = (a, s')"
    then obtain s1 where s1: "saved_settings s1 = setPersistedInt (ld_name d) np (saved_settings s)" "cn_rt s1 = cn_rt s"
      and r: "run_state (changed_live cfg d (show_int (rs_int (cn_rt s) (ld_name d))) (show_int n))
        (s1\<lparr>cn_rt := (cn_rt s1)\<lparr>rs_ints := mput (ld_name d) n (rs_ints (cn_rt s1)),
          rs_source := mput (ld_name d) (if np = None then ''default'' else ''persisted'') (rs_source (cn_rt s1))\<rparr>\<rparr>) = (a, s')"
      by (auto simp: run_mod)
    from changed_live_ends [OF r] s1 False show ?thesis by (simp add: applied)
  qed simp
qed

lemma set_level_ends:
  assumes "run_state (set_level K cfg d lv) s = (a, s')"
  shows "quiet s s' \<or> (saved_settings s' = (saved_settings s)\<lparr>sg_LogLevel := (case lv of None \<Rightarrow> [] | Some l \<Rightarrow> l)\<rparr> \<and>
    cn_rt s' = (cn_rt s)\<lparr>rs_level := (case lv of None \<Rightarrow> ''info'' | Some l \<Rightarrow> l),
      rs_source := mput (ld_name d) (if lv = None then ''default'' else ''persisted'') (rs_source (cn_rt s))\<rparr> \<and> told s')"
  using assms unfolding set_level_def
proof (rule run_update_cases [THEN disjE], goal_cases)
  case 2
  then obtain s1 where s1: "saved_settings s1 = (saved_settings s)\<lparr>sg_LogLevel := (case lv of None \<Rightarrow> [] | Some l \<Rightarrow> l)\<rparr>" "cn_rt s1 = cn_rt s"
    and r: "run_state (changed_live cfg d (rs_level (cn_rt s1)) (case lv of None \<Rightarrow> ''info'' | Some l \<Rightarrow> l))
      (s1\<lparr>cn_rt := (case lv of
         None \<Rightarrow> (cn_rt s1)\<lparr>rs_level := ''info'', rs_source := mput (ld_name d) ''default'' (rs_source (cn_rt s1))\<rparr>
       | Some l \<Rightarrow> (cn_rt s1)\<lparr>rs_level := l, rs_source := mput (ld_name d) ''persisted'' (rs_source (cn_rt s1))\<rparr>)\<rparr>) = (a, s')"
    by (auto simp: run_set)
  from changed_live_ends [OF r] s1 show ?case by (cases lv) (simp_all add: applied)
qed simp

lemma save_registry_ends:
  assumes "run_state (save_registry K cfg d val) s = (a, s')"
  shows "quiet s s' \<or> (SetValue (sd_Name d) val (saved_settings s) = Some (saved_settings s') \<and> cn_rt s' = cn_rt s \<and> told s' = told s)"
  using assms unfolding save_registry_def run_get
proof (rule run_update_cases [THEN disjE], goal_cases)
  case 2
  then show ?case by (auto simp: run_set applied split: option.splits)
qed simp

lemma save_import_ends:
  assumes "run_state (save_import K cfg ns cand rs) s = (a, s')"
  shows "quiet s s' \<or> (saved_settings s' = cand \<and> cn_rt s' = rs \<and> told s')"
  using assms unfolding save_import_def
proof (rule run_update_cases [THEN disjE], goal_cases)
  case 2
  then show ?case by (auto simp: run_set applied)
qed simp

subsection \<open>Every event keeps the settings sound\<close>

text \<open>\<open>b\<close>: the values in use are also those of the saved state.\<close>

definition sound :: "config \<Rightarrow> bool \<Rightarrow> sset \<Rightarrow> bool" where
  "sound cfg b s \<longleftrightarrow> in_range (cn_rt s) \<and> told s \<and> (b \<longrightarrow> agrees cfg (saved_settings s) (cn_rt s))"

lemma quiet_told: "quiet s s' \<Longrightarrow> told s' = told s" by (simp add: quiet_def told_def)

lemma sound_quiet: "quiet s s' \<Longrightarrow> sound cfg b s \<Longrightarrow> sound cfg b s'"
  using quiet_told [of s s'] by (simp add: sound_def) (simp add: quiet_def)

lemma rs_int_put: "rs_int (rt\<lparr>rs_ints := mput n v (rs_ints rt), rs_source := src\<rparr>) m = (if m = n then v else rs_int rt m)"
  by (simp add: rs_int_def)

text \<open>The value and source a saved integer gives its own row.\<close>

lemma eff_put:
  assumes "d \<in> set int_defs" and "cfg_live cfg" and "case np of None \<Rightarrow> True | Some m \<Rightarrow> ld_min d \<le> m \<and> m \<le> ld_max d"
  shows "live_int cfg (setPersistedInt (ld_name d) np st) d =
    ((case np of None \<Rightarrow> cfgInt cfg (ld_name d) (ld_def d) | Some m \<Rightarrow> m), (if np = None then ''default'' else ''persisted''), [])"
proof -
  have "persistedInt (setPersistedInt (ld_name d) np st) (ld_name d) = np"
    using int_defs_legacy [OF assms(1)] by (simp add: persisted_set)
  with assms(3) show ?thesis by (cases np) (simp_all add: live_int_def)
qed

lemma eff_elsewhere: "n \<noteq> ld_name d \<Longrightarrow> live_int cfg (setPersistedInt n np st) d = live_int cfg st d"
  by (rule live_int_cong) (simp add: persisted_set)

lemma sound_int:
  assumes d: "d \<in> set int_defs" and live: "cfg_live cfg" and np: "case np of None \<Rightarrow> True | Some m \<Rightarrow> ld_min d \<le> m \<and> m \<le> ld_max d"
    and s: "sound cfg b s" and r: "run_state (set_int K cfg d np) s = (a, s')"
  shows "sound cfg b s'"
proof -
  let ?n = "case np of None \<Rightarrow> cfgInt cfg (ld_name d) (ld_def d) | Some m \<Rightarrow> m"
  have which: "d = dDefault \<or> d = dMax \<or> d = dGrace \<or> d = dForward" using d by (simp add: int_defs_def)
  have "cfgInt cfg (ld_name d) (ld_def d) = ld_def d" "ld_min d \<le> ld_def d" "ld_def d \<le> ld_max d"
    using live which unfolding cfg_live_def on_int_defs by auto
  then have n: "ld_min d \<le> ?n" "?n \<le> ld_max d" using np by (cases np; simp)+
  from set_int_ends [OF r refl]
  consider "quiet s s'"
    | (saved) "\<not> (ld_name d = ''sessionDurationDefault'' \<and> ?n > rs_int (cn_rt s) ''sessionDurationMax'')"
      "\<not> (ld_name d = ''sessionDurationMax'' \<and> ?n < rs_int (cn_rt s) ''sessionDurationDefault'')"
      "saved_settings s' = setPersistedInt (ld_name d) np (saved_settings s)"
      "cn_rt s' = (cn_rt s)\<lparr>rs_ints := mput (ld_name d) ?n (rs_ints (cn_rt s)),
        rs_source := mput (ld_name d) (if np = None then ''default'' else ''persisted'') (rs_source (cn_rt s))\<rparr>" "told s'"
    by blast
  then show ?thesis
  proof cases
    case 1
    with s show ?thesis by (rule sound_quiet [rotated])
  next
    case saved
    have "in_range (cn_rt s')"
      using n s saved(1,2) which unfolding saved(4) sound_def in_range_def on_int_defs rs_int_put by (elim disjE) simp_all
    moreover have "agrees cfg (saved_settings s') (cn_rt s')" if "agrees cfg (saved_settings s) (cn_rt s)"
      using that which saved(1,2) eff_put [OF d live np, of "saved_settings s"]
      unfolding saved(3,4) agrees_def on_int_defs rs_int_put ordered_def eff_def eff_source_def
      by (elim disjE) (simp_all add: eff_elsewhere eff_level_def eff_level_source_def level_other)
    ultimately show ?thesis using s saved(5) by (simp add: sound_def)
  qed
qed

lemma level_again: "ParseLogLevel l \<noteq> [] \<Longrightarrow> ParseLogLevel (ParseLogLevel l) = ParseLogLevel l"
proof -
  have "ParseLogLevel ''debug'' = ''debug''" "ParseLogLevel ''info'' = ''info''" "ParseLogLevel ''warn'' = ''warn''"
    "ParseLogLevel ''error'' = ''error''" by code_simp+
  then show "ParseLogLevel l \<noteq> [] \<Longrightarrow> ParseLogLevel (ParseLogLevel l) = ParseLogLevel l"
    using level_ok(2) [of l] by (auto simp: logLevels_def)
qed

lemma legacy_get_other [simp]:
  "legacy_get l (st\<lparr>sg_LogLevel := x\<rparr>) = legacy_get l st" "legacy_get l (st\<lparr>sg_Values := y\<rparr>) = legacy_get l st"
  "legacy_get l no_settings = None"
  by (cases l; simp add: no_settings_def)+

lemma level_put: "live_int cfg (st\<lparr>sg_LogLevel := l\<rparr>) d = live_int cfg st d"
  by (rule live_int_cong) (simp add: persistedInt_def split: option.split)

lemma sound_level:
  assumes lv: "case lv of None \<Rightarrow> True | Some l \<Rightarrow> l \<noteq> [] \<and> ParseLogLevel l = l"
    and s: "sound cfg b s" and r: "run_state (set_level K cfg dLevel lv) s = (a, s')"
  shows "sound cfg b s'"
proof -
  from set_level_ends [OF r]
  consider "quiet s s'"
    | (saved) "saved_settings s' = (saved_settings s)\<lparr>sg_LogLevel := (case lv of None \<Rightarrow> [] | Some l \<Rightarrow> l)\<rparr>"
      "cn_rt s' = (cn_rt s)\<lparr>rs_level := (case lv of None \<Rightarrow> ''info'' | Some l \<Rightarrow> l),
        rs_source := mput ''logLevel'' (if lv = None then ''default'' else ''persisted'') (rs_source (cn_rt s))\<rparr>" "told s'"
    by auto
  then show ?thesis
  proof cases
    case 1
    with s show ?thesis by (rule sound_quiet [rotated])
  next
    case saved
    have "ParseLogLevel [] = []" by code_simp
    have ints: "rs_int (cn_rt s') m = rs_int (cn_rt s) m" for m by (simp add: saved(2) rs_int_def)
    have "rs_level (cn_rt s') \<in> set logLevels"
      using lv level_ok(2) [of "the lv"] by (cases lv) (auto simp: saved(2) logLevels_def)
    then have "in_range (cn_rt s')" using s unfolding sound_def in_range_def on_int_defs ints by simp
    moreover have "agrees cfg (saved_settings s') (cn_rt s')" if "agrees cfg (saved_settings s) (cn_rt s)"
      using that lv \<open>ParseLogLevel [] = []\<close>
      unfolding agrees_def on_int_defs ordered_def eff_def eff_source_def ints saved(1) level_put
      by (cases lv) (simp_all add: saved(2) eff_level_def eff_level_source_def)
    ultimately show ?thesis using s saved(3) by (simp add: sound_def)
  qed
qed

lemma sound_live:
  assumes "settingByName name = Some d" and "cfg_live cfg" and "sound cfg b s"
  shows "sound cfg b (snd (run_state (set_live K cfg d v reset) s))"
proof -
  have int: "sound cfg b (snd (run_state (set_int K cfg d np) s))"
    if "\<not> ld_level d" "case np of None \<Rightarrow> True | Some m \<Rightarrow> ld_min d \<le> m \<and> m \<le> ld_max d" for np
    using sound_int [OF _ assms(2) that(2) assms(3)] settingByName_row [OF assms(1)] that(1)
    by (cases "run_state (set_int K cfg d np) s") auto
  have level: "sound cfg b (snd (run_state (set_level K cfg d lv) s))"
    if "ld_level d" "case lv of None \<Rightarrow> True | Some l \<Rightarrow> l \<noteq> [] \<and> ParseLogLevel l = l" for lv
  proof -
    have "d = dLevel" using settingByName_row [OF assms(1)] that(1) by (auto simp: int_defs_def)
    then show ?thesis using sound_level [OF that(2) assms(3)] by (cases "run_state (set_level K cfg d lv) s") auto
  qed
  show ?thesis
    using assms(3) int level level_again by (auto simp: set_live_def not_less split: option.split)
qed

text \<open>A row of the registry that is not live is a plain value of the saved settings.\<close>

lemma live_names: "settingByName n = None \<longleftrightarrow> n \<notin> {''sessionDurationDefault'', ''sessionDurationMax'', ''sessionIdleGrace'', ''forwardIdle'', ''logLevel''}"
  by (auto simp: settingByName_def live_defs)

lemma SetValue_persisted:
  assumes "SetValue k v c = Some c1"
  shows "persistedInt c1 n = (if k = n \<and> legacyInt k \<noteq> None then Option.bind v parse_int64 else persistedInt c n)"
proof (cases "legacyInt k")
  case None
  then consider x where "c1 = c\<lparr>sg_LogLevel := x\<rparr>" | y where "c1 = c\<lparr>sg_Values := y\<rparr>"
    using assms by (auto simp: SetValue_def split: if_splits option.splits)
  then show ?thesis using None by cases (simp_all add: persistedInt_def split: option.split)
next
  case (Some l)
  then have c1: "c1 = legacy_put l (Option.bind v parse_int64) c" using assms by (auto simp: SetValue_def split: option.splits)
  show ?thesis
  proof (cases "legacyInt n")
    case None
    with Some show ?thesis by (auto simp: persistedInt_def)
  next
    case (Some m)
    have "m = l \<longleftrightarrow> k = n" using Some \<open>legacyInt k = Some l\<close> legacyInt_inj by auto
    with Some \<open>legacyInt k = Some l\<close> show ?thesis by (simp add: persistedInt_def c1 get_put_legacy)
  qed
qed

lemma plain_value:
  assumes "settingByName n = None" and "SetValue n v st = Some st'"
  shows "persistedInt st' m = persistedInt st m" "sg_LogLevel st' = sg_LogLevel st"
proof -
  have n: "legacyInt n = None" "n \<noteq> ''logLevel''" using assms(1) by (simp_all add: live_names legacyInt_def)
  with SetValue_persisted [OF assms(2), of m] show "persistedInt st' m = persistedInt st m" by simp
  from n assms(2) show "sg_LogLevel st' = sg_LogLevel st" by (auto simp: SetValue_def split: option.splits)
qed

lemma lookup_row: "registryLookup n = Inr d \<Longrightarrow> sd_Name d = n \<and> d \<in> set Settings \<and> Settable d"
  by (auto simp: registryLookup_def SettingByName_def find_Some_iff split: if_splits option.splits)

lemma sound_row:
  assumes "settingByName name = None" and "registryLookup name = Inr d" and "sound cfg b s"
  shows "sound cfg b (snd (run_state (save_registry K cfg d val) s))"
proof -
  obtain a s' where r: "run_state (save_registry K cfg d val) s = (a, s')" by (cases "run_state (save_registry K cfg d val) s")
  from save_registry_ends [OF r] show ?thesis
  proof
    assume "quiet s s'"
    with assms(3) r show ?thesis by (simp add: sound_quiet)
  next
    assume v: "SetValue (sd_Name d) val (saved_settings s) = Some (saved_settings s') \<and> cn_rt s' = cn_rt s \<and> told s' = told s"
    from v lookup_row [OF assms(2)] have "SetValue name val (saved_settings s) = Some (saved_settings s')" by simp
    note same = plain_value [OF assms(1) this]
    have "live_int cfg (saved_settings s') e = live_int cfg (saved_settings s) e" for e by (rule live_int_cong) (rule same(1))
    then have "agrees cfg (saved_settings s') rt = agrees cfg (saved_settings s) rt" for rt
      by (simp add: agrees_def ordered_def eff_def eff_source_def eff_level_def eff_level_source_def same(2))
    with v assms(3) r show ?thesis by (simp add: sound_def)
  qed
qed

text \<open>An imported candidate: a saved default length is that of the file.\<close>

lemma built:
  assumes "build_settings vals ks c = Inr cand" and "persistedInt cand n = Some p"
  shows "persistedInt c n = Some p \<or> (\<exists>t. mget vals n = Some t \<and> parse_int64 t = Some p)"
  using assms
proof (induction ks arbitrary: c)
  case (Cons k ks)
  then obtain c1 where c1: "SetValue k (mget vals k) c = Some c1" and rest: "build_settings vals ks c1 = Inr cand"
    by (auto split: option.splits)
  have "persistedInt c1 n = persistedInt c n \<or> k = n \<and> persistedInt c1 n = Option.bind (mget vals n) parse_int64"
    using SetValue_persisted [OF c1, of n] by (simp split: if_splits)
  with Cons.IH [OF rest Cons.prems(2)] show ?case by (auto split: option.splits simp: bind_eq_Some_conv)
qed simp

lemma import_ordered:
  assumes "import_check cfg file = Inr (cand, rs)" and "cfg_live cfg"
  shows "rs = fst (resolveSettings cfg cand) \<and> ordered cfg cand"
proof -
  let ?names = "sort (mkeys file)"
  from assms(1) obtain vals where b: "build_settings vals ?names no_settings = Inr cand" and rs: "rs = fst (resolveSettings cfg cand)"
    and le: "case mget vals ''sessionDurationDefault'' of None \<Rightarrow> True | Some t \<Rightarrow> atoi t \<le> rs_int rs ''sessionDurationMax''"
    by (auto simp: import_check_def Let_def split: sum.splits option.splits if_splits)
  have dflt: "cfgInt cfg ''sessionDurationDefault'' 600 = 600" using assms(2) by (simp add: cfg_live_def on_int_defs)
  have mx: "600 \<le> eff cfg cand dMax" using eff_range [OF assms(2), of cand] by (simp add: on_int_defs)
  have "persistedInt no_settings n = None" for n by (simp add: persistedInt_def split: option.split)
  with built [OF b, of "''sessionDurationDefault''"] have "p \<le> eff cfg cand dMax" if "persistedInt cand ''sessionDurationDefault'' = Some p" for p
    using that le rs resolved(2) [of cfg cand] by (auto simp: atoi_def)
  then have "ordered cfg cand"
    using mx dflt by (auto simp: ordered_def eff_def [of _ _ dDefault] live_int_def split: option.split)
  with rs show ?thesis by simp
qed

lemma sound_import:
  assumes "import_check cfg file = Inr (cand, rs)" and "cfg_live cfg" and "sound cfg b s"
  shows "sound cfg b (snd (run_state (save_import K cfg ns cand rs) s))"
proof -
  obtain a s' where r: "run_state (save_import K cfg ns cand rs) s = (a, s')" by (cases "run_state (save_import K cfg ns cand rs) s")
  from import_ordered [OF assms(1,2)] have rs: "rs = fst (resolveSettings cfg cand)" "ordered cfg cand" by auto
  from save_import_ends [OF r] show ?thesis
  proof
    assume "quiet s s'"
    with assms(3) r show ?thesis by (simp add: sound_quiet)
  next
    assume "saved_settings s' = cand \<and> cn_rt s' = rs \<and> told s'"
    with r resolved_in_range [OF assms(2), of cand] resolved_agrees [OF rs(2)] rs(1) show ?thesis by (simp add: sound_def)
  qed
qed

lemma sound_event: "cfg_live cfg \<Longrightarrow> sound cfg b s \<Longrightarrow> sound cfg b (set_event K cfg e s)"
proof (cases e)
  case (OtherStore x)
  assume "sound cfg b s"
  then show ?thesis by (rule sound_quiet [rotated]) (simp add: OtherStore set_event_def quiet_def saved_settings_def)
qed (auto simp: set_event_def sound_live sound_row sound_import split: option.split sum.split)

lemma sound_events: "cfg_live cfg \<Longrightarrow> sound cfg b s \<Longrightarrow> sound cfg b (fold (set_event K cfg) evs s)"
  by (induction evs arbitrary: s) (simp_all add: sound_event)

subsection \<open>From the start of the process\<close>

lemma cap_apart: "list_all (\<lambda>d. sd_Name d = ''maxStMorPerSession'' \<or> Effective d (c\<lparr>cf_Cap := x\<rparr>) = Effective d c) Settings"
  unfolding Settings_def row_defs Effective_def by simp

definition booted :: "store_env \<Rightarrow> config \<Rightarrow> store \<Rightarrow> config" where "booted K c0 s0 = fst (boot_settings K c0 s0)"

text \<open>The configuration after the boot: the saved values on top of \<open>c0\<close>, and the cap settled.\<close>

lemma boot_config:
  "\<exists>v cap. ResolveStakeCap (All (st_Settings (so_st s0)))
      (bootDefaultSessionSec (snd (ApplyPersisted (All (st_Settings (so_st s0))) c0)) (st_Settings (so_st s0)))
      (cf_Cap (snd (ApplyPersisted (All (st_Settings (so_st s0))) c0))) = (v, cap) \<and>
    booted K c0 s0 = (snd (ApplyPersisted (All (st_Settings (so_st s0))) c0))\<lparr>cf_Cap := cap\<rparr>"
  by (auto simp: booted_def boot_settings_def resolveStakeCap_def GetSettings_def get_st_def State_Monad.bind_def
      split: prod.split option.split)

lemma boot_state:
  "snd (boot_settings K c0 s0) = applySettings (snd (boot_settings K c0 s0)) \<and>
   cn_rt (snd (boot_settings K c0 s0)) = fst (resolveSettings (booted K c0 s0) (saved_settings (snd (boot_settings K c0 s0))))"
  by (simp add: booted_def boot_settings_def applySettings_def saved_settings_def split: prod.split)

lemma boot_effective:
  assumes "boot_safe parse env c0" and "d \<in> set Settings" and "Settable d"
  shows "Effective d (snd (ApplyPersisted vals c0)) = (case saved_value vals d of None \<Rightarrow> sd_Default d | Some v \<Rightarrow> v)"
  using assms(1) effective_persisted [OF assms(2,3), of vals c0] assms(2,3)
  by (simp add: boot_safe_def list_all_iff split: option.split)

lemma live_fields:
  assumes "list_all (\<lambda>d. sd_Scope d = ScopeLive \<longrightarrow> Effective d c = sd_Default d) Settings"
  shows "cf_SessionDurationSec c = 600" "cf_SessionDurationMax c = 1800" "cf_SessionIdleGraceSec c = 300" "cf_ForwardIdleSec c = 180"
proof -
  have "show_int (cf_SessionDurationSec c) = ''600''" "show_int (cf_SessionDurationMax c) = ''1800''"
    "show_int (cf_SessionIdleGraceSec c) = ''300''" "show_int (cf_ForwardIdleSec c) = ''180''"
    using assms unfolding Settings_def row_defs Effective_def by simp_all
  moreover have "parse_decimal ''600'' = Some 600" "parse_decimal ''1800'' = Some 1800" "parse_decimal ''300'' = Some 300"
    "parse_decimal ''180'' = Some 180" by code_simp+
  ultimately show "cf_SessionDurationSec c = 600" "cf_SessionDurationMax c = 1800" "cf_SessionIdleGraceSec c = 300" "cf_ForwardIdleSec c = 180"
    by (metis parse_show option.inject)+
qed

lemma live_rows_default: "list_all (\<lambda>d. sd_Scope d = ScopeLive \<longrightarrow> Effective d c = sd_Default d) Settings \<Longrightarrow> cfg_live c"
  unfolding cfg_live_def on_int_defs by (simp add: cfgInt_def live_fields)

lemma boot_live:
  assumes "boot_safe parse env c0" shows "cfg_live (booted K c0 s0)"
proof (rule live_rows_default, unfold list_all_iff, intro ballI impI)
  fix d assume d: "d \<in> set Settings" "sd_Scope d = ScopeLive"
  then have "sd_Name d \<noteq> ''maxStMorPerSession''"
    unfolding Settings_def row_defs by auto
  moreover obtain cap where "booted K c0 s0 = (snd (ApplyPersisted (All (st_Settings (so_st s0))) c0))\<lparr>cf_Cap := cap\<rparr>"
    using boot_config [of s0 c0 K] by blast
  moreover have "saved_value vals d = None" for vals using d(2) by (simp add: saved_value_def)
  ultimately show "Effective d (booted K c0 s0) = sd_Default d"
    using boot_effective [OF assms d(1)] d(2) all_rows [OF cap_apart d(1)] by (simp add: Settable_def)
qed

lemma boot_sound:
  assumes "boot_safe parse env c0"
  shows "sound (booted K c0 s0) (ordered (booted K c0 s0) (saved_settings (snd (boot_settings K c0 s0)))) (snd (boot_settings K c0 s0))"
proof -
  let ?s = "snd (boot_settings K c0 s0)"
  have "told ?s" using boot_state [of K c0 s0] applied(3) [of ?s] by simp
  then show ?thesis
    using boot_state [of K c0 s0] resolved_in_range [OF boot_live [OF assms]] resolved_agrees by (simp add: sound_def)
qed

text \<open>
  C37: the live settings stay sound and survive a restart. From the boot of a configured process, after any
  sequence of settings changes, resets and imports (each saved or failing to save) and any other work of the
  store, the live values are within the limits of their rows, the default session length does not exceed the
  longest one, and the pool and the logger were told exactly these values. If the saved default length did not
  exceed the saved maximum at boot, the next start resolves the saved settings to the very values in use, with
  the same sources.
\<close>

theorem settings_live:
  "case FromEnv parse env of Inl e \<Rightarrow> True
   | Inr c0 \<Rightarrow> (let cfg = booted K c0 s0; s1 = snd (boot_settings K c0 s0); s = fold (set_event K cfg) evs s1 in
       in_range (cn_rt s) \<and> told s \<and>
       (if ordered cfg (saved_settings s1) then same_runtime (fst (resolveSettings cfg (saved_settings s))) (cn_rt s) else True))"
proof (cases "FromEnv parse env")
  case (Inr c0)
  have safe: "boot_safe parse env c0" using FromEnv_safe [of parse env] Inr by simp
  from sound_events [OF boot_live [OF safe] boot_sound [OF safe], of K s0 K evs] show ?thesis
    using Inr agrees_survives by (simp add: sound_def Let_def)
qed simp

lemma fold_mput: "mget (fold (\<lambda>(k, v). mput k v) kvs m) n = (case map_of (rev kvs) n of None \<Rightarrow> mget m n | Some v \<Rightarrow> Some v)"
proof (induction kvs arbitrary: m)
  case (Cons kv kvs)
  then show ?case by (cases kv) (auto simp: map_add_def split: option.split)
qed simp

lemma fold_put_if:
  "mget (fold (\<lambda>n m. case f n of Some v \<Rightarrow> mput n v m | None \<Rightarrow> m) ns m) n =
     (if n \<in> set ns \<and> f n \<noteq> None then f n else mget m n)"
  by (induction ns arbitrary: m) (auto split: option.split)

lemma mget_All: "mget (All a) n = (case mget (sg_Values a) n of Some v \<Rightarrow> Some v | None \<Rightarrow> if n \<in> set setting_names then Value a n else None)"
proof -
  have "map_of (rev m) n = map_of m n" if "distinct (map fst m)" for m :: "string gomap"
    using that by (metis distinct_rev map_of_eq_Some_iff option.exhaust rev_map set_rev)
  from this [OF distinct_mitems] have "map_of (rev (mitems (sg_Values a))) n = mget (sg_Values a) n" by simp
  then show ?thesis by (simp add: All_def fold_mput fold_put_if split: option.split)
qed

lemma restart_value:
  assumes "sd_Scope d = ScopeRestart" and "d \<in> set Settings"
  shows "fst (restartValue d st) = (case saved_value (All st) d of None \<Rightarrow> sd_Default d | Some v \<Rightarrow> v)"
proof -
  have "sd_Name d \<notin> set setting_names \<and> legacyInt (sd_Name d) = None \<and> sd_Name d \<noteq> ''logLevel''"
    using assms unfolding Settings_def row_defs setting_names_def legacyInt_def by auto
  then have "mget (All st) (sd_Name d) = Value st (sd_Name d)"
    by (simp add: mget_All Value_def split: option.split)
  with assms(1) show ?thesis
    by (simp add: restartValue_def saved_value_def KeepsInvalid_def split: option.split sum.split)
qed

text \<open>
  C38: the console shows what the next start runs with. For every row that takes effect on a restart, the value
  the console shows for it is the one a start from the saved settings puts into effect, whatever was saved, valid
  or not. For the cap this holds once a cap is saved.
\<close>

theorem next_start_shown:
  "case FromEnv parse env of Inl e \<Rightarrow> True
   | Inr c0 \<Rightarrow> list_all (\<lambda>d.
       if sd_Name d = ''maxStMorPerSession'' \<and> mget (All (st_Settings (so_st s0))) ''maxStMorPerSession'' = None then True
       else if sd_Scope d = ScopeRestart then Effective d (booted K c0 s0) = fst (restartValue d (st_Settings (so_st s0)))
       else True) Settings"
proof (cases "FromEnv parse env")
  case (Inr c0)
  have safe: "boot_safe parse env c0" using FromEnv_safe [of parse env] Inr by simp
  let ?st = "st_Settings (so_st s0)" and ?c = "snd (ApplyPersisted (All (st_Settings (so_st s0))) c0)"
  obtain v cap where cap: "ResolveStakeCap (All ?st) (bootDefaultSessionSec ?c ?st) (cf_Cap ?c) = (v, cap)"
    "booted K c0 s0 = ?c\<lparr>cf_Cap := cap\<rparr>" using boot_config [of s0 c0 K] by blast
  have "Effective d (booted K c0 s0) = fst (restartValue d ?st)"
    if d: "d \<in> set Settings" "sd_Scope d = ScopeRestart" "sd_Name d \<noteq> ''maxStMorPerSession'' \<or> mget (All ?st) ''maxStMorPerSession'' \<noteq> None" for d
  proof -
    have "Effective d (booted K c0 s0) = Effective d ?c"
      using d(3) cap all_rows [OF cap_apart d(1)] by (auto simp: ResolveStakeCap_def)
    with boot_effective [OF safe d(1)] restart_value [OF d(2,1)] d(2) show ?thesis by (simp add: Settable_def)
  qed
  with Inr show ?thesis by (auto simp: list_all_iff)
qed simp

definition longer_default :: "store \<Rightarrow> store" where
  "longer_default s = s\<lparr>so_st := (so_st s)\<lparr>st_Settings := no_settings\<lparr>sg_SessionDurationDefault := Some 1200\<rparr>\<rparr>\<rparr>"

lemma longer_saved:
  "All (st_Settings (so_st (longer_default s))) = mput ''sessionDurationDefault'' ''1200'' []"
  "Value (st_Settings (so_st (longer_default s))) ''maxStMorPerSession'' = None"
proof -
  have "show_int 1200 = ''1200''" by code_simp
  then show "All (st_Settings (so_st (longer_default s))) = mput ''sessionDurationDefault'' ''1200'' []"
    by (simp add: All_def Value_def setting_names_def longer_default_def no_settings_def legacyInt_def mitems_def)
  show "Value (st_Settings (so_st (longer_default s))) ''maxStMorPerSession'' = None"
    by (simp add: Value_def longer_default_def no_settings_def legacyInt_def)
qed

lemma longer_boot:
  assumes "boot_safe parse env c0"
  shows "cc_MaxStMorPerSession (cf_Cap (booted K c0 (longer_default s0))) = ''50''"
    "saved_settings (snd (boot_settings K c0 (longer_default s0))) = st_Settings (so_st (longer_default s0))"
proof -
  let ?st = "st_Settings (so_st (longer_default s0))"
  let ?c = "snd (ApplyPersisted (All ?st) c0)"
  have "list_all (\<lambda>d. sd_Scope d = ScopeLive \<longrightarrow> Effective d ?c = sd_Default d) Settings"
    using boot_effective [OF assms] by (auto simp: list_all_iff Settable_def saved_value_def)
  from live_fields(2) [OF this] have sec: "bootDefaultSessionSec ?c ?st = 1200"
    by (simp add: bootDefaultSessionSec_def longer_default_def no_settings_def)
  have fifty: "DefaultMaxStMorPerSession 1200 = ''50''" by code_simp
  have r: "ResolveStakeCap (All ?st) (bootDefaultSessionSec ?c ?st) (cf_Cap ?c) = (None, setMaxStMorPerSession ''50'' (cf_Cap ?c))"
    unfolding sec ResolveStakeCap_def by (simp add: longer_saved(1) fifty)
  then show "cc_MaxStMorPerSession (cf_Cap (booted K c0 (longer_default s0))) = ''50''"
    using boot_config [of "longer_default s0" c0 K] by (auto simp: setMaxStMorPerSession_def)
  from r show "saved_settings (snd (boot_settings K c0 (longer_default s0))) = ?st"
    by (simp add: boot_settings_def resolveStakeCap_def GetSettings_def get_st_def State_Monad.bind_def applied saved_settings_def
        applySettings_def split: prod.split)
qed

definition cap_row :: setting_def where
  "cap_row = (row ''maxStMorPerSession'' [] KindString ''25'' ScopeRestart)\<lparr>sd_check := Some check_mor, sd_keepInvalid := True,
        sd_get := Some (\<lambda>c. cc_MaxStMorPerSession (cf_Cap c)), sd_set := Some set_mor\<rparr>"

lemma cap_row_in: "cap_row \<in> set Settings" unfolding Settings_def cap_row_def by simp

text \<open>
  C39: without a saved cap the console is wrong about it. With a saved default session length of 1200 seconds and
  no saved cap, the process runs with a cap of 50; the console shows 25 as the value of the next start, and a
  pending restart, after every start.
\<close>

theorem default_cap_misshown:
  "case FromEnv parse env of Inl e \<Rightarrow> True
   | Inr c0 \<Rightarrow> (let cfg = booted K c0 (longer_default s0); s = snd (boot_settings K c0 (longer_default s0)) in
       list_ex (\<lambda>v. sd_Name (sv_Row v) = ''maxStMorPerSession'' \<and> sv_Effective v = Some (SStr ''50'') \<and>
         sv_Value v = SStr ''25'' \<and> sv_PendingRestart v) (settingsView cfg s))"
proof (cases "FromEnv parse env")
  case (Inr c0)
  have safe: "boot_safe parse env c0" using FromEnv_safe [of parse env] Inr by simp
  let ?cfg = "booted K c0 (longer_default s0)" and ?s = "snd (boot_settings K c0 (longer_default s0))"
  have e: "Effective cap_row ?cfg = ''50''" using longer_boot(1) [OF safe] by (simp add: cap_row_def row_def Effective_def)
  have n: "sd_Name cap_row = ''maxStMorPerSession''" "sd_Scope cap_row = ScopeRestart" "sd_Kind cap_row = KindString" "sd_Default cap_row = ''25''"
    by (simp_all add: cap_row_def row_def)
  have "restartValue cap_row (saved_settings ?s) = (''25'', ''default'')"
    using longer_saved(2) n unfolding longer_boot(2) [OF safe] by (simp add: restartValue_def)
  then have v: "sv_Row (view_row ?cfg (saved_settings ?s) (cn_rt ?s) cap_row) = cap_row \<and>
      sv_Effective (view_row ?cfg (saved_settings ?s) (cn_rt ?s) cap_row) = Some (SStr ''50'') \<and>
      sv_Value (view_row ?cfg (saved_settings ?s) (cn_rt ?s) cap_row) = SStr ''25'' \<and>
      sv_PendingRestart (view_row ?cfg (saved_settings ?s) (cn_rt ?s) cap_row)"
    by (simp add: view_row_def n e typedSetting_def)
  have "view_row ?cfg (saved_settings ?s) (cn_rt ?s) cap_row \<in> set (settingsView ?cfg ?s)"
    using cap_row_in by (simp add: settingsView_def)
  then have "\<exists>v\<in>set (settingsView ?cfg ?s). sd_Name (sv_Row v) = ''maxStMorPerSession'' \<and> sv_Effective v = Some (SStr ''50'') \<and>
      sv_Value v = SStr ''25'' \<and> sv_PendingRestart v"
    by (rule bexI [rotated]) (use v n(1) in simp)
  then show ?thesis using Inr by (simp add: list_ex_iff Let_def)
qed simp

end
