(* ===== verification/Settings_Gate.thy ===== *)
theory Settings_Gate
  imports Settings_Api Admin_Props
begin

section \<open>Who may change the settings\<close>

text \<open>
  The gate of the settings routes and the step-up behind it, for every behaviour of the other requests on the
  admin state (\<open>others_only\<close>) and on the settings.
\<close>

datatype console_route = RouteGet | RouteSet string | RouteExport | RouteImport string

definition run_route :: "'w console_env \<Rightarrow> request \<Rightarrow> console_route \<Rightarrow> ('w, console_answer) con_act" where
  "run_route C r k = (case k of
     RouteGet \<Rightarrow> handleSettingsGet C r
   | RouteSet body \<Rightarrow> handleSettingsSet C r body
   | RouteExport \<Rightarrow> handleSettingsExport C r
   | RouteImport body \<Rightarrow> handleSettingsImport C r body)"

text \<open>Everything but the view and a change of a live setting needs a fresh step-up.\<close>

definition needs_step_up :: "console_route \<Rightarrow> bool" where
  "needs_step_up k = (case k of
     RouteGet \<Rightarrow> False
   | RouteSet body \<Rightarrow> (case set_request body of None \<Rightarrow> False | Some (name, v, reset) \<Rightarrow> settingByName name = None)
   | _ \<Rightarrow> True)"

definition console_pass ::
  "'w console_env \<Rightarrow> (auth_state \<Rightarrow> bool) \<Rightarrow> (admin_session gomap \<Rightarrow> bool) \<Rightarrow> request \<Rightarrow> string \<Rightarrow> admin_session \<Rightarrow> bool" where
  "console_pass C A M r raw se \<longleftrightarrow> rq_Authorization r = [] \<and> live_cookie (ce_adm C) M r raw se \<and>
     checkCSRF (ce_web C) r \<and> sameOriginFetch (ce_web C) r \<and> (\<exists>a. A a \<and> (On a \<longrightarrow> au_Enrolled a))"

text \<open>Every reading of the clock during the request satisfies \<open>T\<close>.\<close>

definition clock_in :: "'w adm_env \<Rightarrow> (time \<Rightarrow> bool) \<Rightarrow> bool" where
  "clock_in V T \<longleftrightarrow> (\<forall>s. T (av_now V (ad_world (av_others V s))))"

subsection \<open>Lifting\<close>

lemma triple_on_adm:
  "triple P f Q \<Longrightarrow> triple (\<lambda>s. P (cs_adm s) \<and> cs_set s = x) (on_adm f) (\<lambda>a s. Q a (cs_adm s) \<and> cs_set s = x)"
  by (auto simp: triple_def on_adm_def split: prod.splits)

lemma the_time_in: "clock_in V T \<Longrightarrow> triple (\<lambda>_. True) (the_time V) (\<lambda>t _. T t)"
  by (simp add: triple_def the_time_def adm_do_def clock_in_def Let_def)

text \<open>What a route may end with: a refusal that left the settings alone, or somebody who passed.\<close>

definition allowed :: "sset \<Rightarrow> bool \<Rightarrow> console_answer \<Rightarrow> 'w console \<Rightarrow> bool" where
  "allowed x ok ans s \<longleftrightarrow> (\<exists>st m. ans = CRefused st m \<and> cs_set s = x) \<or> ok"

lemma allowed_refused: "triple (\<lambda>s. P s \<and> cs_set s = x) (ret (CRefused st m)) (allowed x ok)"
  by (simp add: triple_def allowed_def)

lemma allowed_ok: "ok \<Longrightarrow> triple P f (allowed x ok)"
  by (simp add: triple_def allowed_def split: prod.split)

lemma allowed_mono: "triple P f (allowed x ok) \<Longrightarrow> (ok \<Longrightarrow> ok') \<Longrightarrow> triple P f (allowed x ok')"
  by (erule triple_weaken) (auto simp: allowed_def)

lemma step_up:
  assumes T: "clock_in (ce_adm C) T" and "ok \<longleftrightarrow> (\<exists>t. T t \<and> Fresh t StepUpMaxAge se)"
  shows "triple (\<lambda>s. P (cs_adm s) \<and> cs_set s = x) (requireStepUp C (BySession raw se) nxt) (allowed x ok)"
proof -
  have "triple (\<lambda>s. P (cs_adm s) \<and> cs_set s = x) (on_adm (the_time (ce_adm C))) (\<lambda>t s. T t \<and> cs_set s = x)"
    by (rule triple_weaken [OF triple_on_adm [OF the_time_in [OF T]]]) simp_all
  moreover have "triple (\<lambda>s. T t \<and> cs_set s = x) (if \<not> Fresh t StepUpMaxAge se then ret (CRefused 401 ''step_up_required'') else nxt) (allowed x ok)" for t
    by (rule triple_pure, rule triple_if, rule allowed_refused [where P = "\<lambda>_. True", simplified], rule allowed_ok) (use assms(2) in auto)
  ultimately show ?thesis unfolding requireStepUp_def admitted.case by (rule triple_bind)
qed

lemma console_gate:
  assumes A: "others_only (ce_adm C) ad_auth R" and S: "others_only (ce_adm C) ad_sess M"
    and nxt: "\<And>raw se P. triple (\<lambda>s. P (cs_adm s) \<and> cs_set s = x) (nxt (BySession raw se)) (allowed x (ok se))"
  shows "triple (\<lambda>s. R aa (ad_auth (cs_adm s)) \<and> M mm (ad_sess (cs_adm s)) \<and> cs_set s = x) (requireConsoleSession C r nxt)
    (allowed x (\<exists>raw se. console_pass C (R aa) (M mm) r raw se \<and> ok se))"
proof -
  let ?V = "ce_adm C" and ?ok = "\<exists>raw se. console_pass C (R aa) (M mm) r raw se \<and> ok se"
  have cookie: "triple (\<lambda>s. (M mm (ad_sess (cs_adm s)) \<and> R aa (ad_auth (cs_adm s))) \<and> cs_set s = x) (on_adm (cookieSession ?V r))
      (\<lambda>c s. ((\<forall>raw se. c = Some (raw, se) \<longrightarrow> live_cookie ?V (M mm) r raw se) \<and> R aa (ad_auth (cs_adm s))) \<and> cs_set s = x)"
    by (rule triple_on_adm [OF triple_conj [OF cookieSession_live [OF S] triple_keeps [OF calm_auth(8) [OF A]]]])
  have auth: "triple (\<lambda>s. R aa (ad_auth (cs_adm s)) \<and> cs_set s = x) (on_adm (get_auth ?V)) (\<lambda>a s. R aa a \<and> cs_set s = x)"
    by (rule triple_weaken [OF triple_on_adm [OF get_auth_sees [OF A, of aa]]]) auto
  have denied: "triple (\<lambda>s. P s \<and> cs_set s = x) (do {
      _ \<leftarrow> (if b then on_adm (auditEvent ?V ''admin_key_use'' (rq_IP r) ''blocked'' ''settings_refused'') else ret ());
      ret (CRefused 403 ''settings need an admin session'') }) (allowed x ?ok)" for b P
    by (auto simp: triple_def allowed_def on_adm_def State_Monad.bind_def split: prod.splits)
  have checked: "triple (\<lambda>s. live_cookie ?V (M mm) r raw se \<and> R aa (ad_auth (cs_adm s)) \<and> cs_set s = x)
      (if \<not> checkCSRF (ce_web C) r \<or> \<not> sameOriginFetch (ce_web C) r then ret (CRefused 403 ''forbidden'')
       else do {
         auth \<leftarrow> on_adm (get_auth ?V);
         if On auth \<and> \<not> au_Enrolled auth then ret (CRefused 403 ''2fa enrollment required'') else nxt (BySession raw se) })
      (allowed x ?ok)" if "rq_Authorization r = []" for raw se
  proof (rule triple_pure, rule triple_if)
    show "triple (\<lambda>s. R aa (ad_auth (cs_adm s)) \<and> cs_set s = x) (ret (CRefused 403 ''forbidden'')) (allowed x ?ok)"
      by (rule allowed_refused)
  next
    assume live: "live_cookie ?V (M mm) r raw se" and ok: "\<not> (\<not> checkCSRF (ce_web C) r \<or> \<not> sameOriginFetch (ce_web C) r)"
    show "triple (\<lambda>s. R aa (ad_auth (cs_adm s)) \<and> cs_set s = x) (do {
         auth \<leftarrow> on_adm (get_auth ?V);
         if On auth \<and> \<not> au_Enrolled auth then ret (CRefused 403 ''2fa enrollment required'') else nxt (BySession raw se) }) (allowed x ?ok)"
    proof (rule triple_bind [OF auth], rule triple_pure, rule triple_if)
      fix a
      show "triple (\<lambda>s. cs_set s = x) (ret (CRefused 403 ''2fa enrollment required'')) (allowed x ?ok)"
        by (rule allowed_refused [where P = "\<lambda>_. True", simplified])
      assume "R aa a" and "\<not> (On a \<and> \<not> au_Enrolled a)"
      then have "console_pass C (R aa) (M mm) r raw se" using live ok that by (auto simp: console_pass_def)
      then show "triple (\<lambda>s. cs_set s = x) (nxt (BySession raw se)) (allowed x ?ok)"
        using allowed_mono [OF nxt [where P = "\<lambda>_. True" and raw = raw and se = se, simplified], where ok' = ?ok] by blast
    qed
  qed
  show ?thesis
    unfolding requireConsoleSession_def
  proof (rule triple_if)
    show "triple (\<lambda>s. R aa (ad_auth (cs_adm s)) \<and> M mm (ad_sess (cs_adm s)) \<and> cs_set s = x) (do {
      _ \<leftarrow> (if has_prefix (authHeader r) ''Bearer '' \<and> drop 7 (authHeader r) = cg_MasterKey (av_cfg ?V)
           then on_adm (auditEvent ?V ''admin_key_use'' (rq_IP r) ''blocked'' ''settings_refused'') else ret ());
      ret (CRefused 403 ''settings need an admin session'') }) (allowed x ?ok)"
      by (rule triple_weaken [OF denied [where P = "\<lambda>_. True"]]) simp_all
  next
    assume none: "\<not> rq_Authorization r \<noteq> []"
    show "triple (\<lambda>s. R aa (ad_auth (cs_adm s)) \<and> M mm (ad_sess (cs_adm s)) \<and> cs_set s = x) (do {
        c \<leftarrow> on_adm (cookieSession ?V r);
        (case c of
           None \<Rightarrow> ret (CRefused 401 ''unauthorized'')
         | Some (raw, se) \<Rightarrow>
             if \<not> checkCSRF (ce_web C) r \<or> \<not> sameOriginFetch (ce_web C) r then ret (CRefused 403 ''forbidden'')
             else do {
               auth \<leftarrow> on_adm (get_auth ?V);
               if On auth \<and> \<not> au_Enrolled auth then ret (CRefused 403 ''2fa enrollment required'')
               else nxt (BySession raw se) }) }) (allowed x ?ok)"
    proof (rule triple_weaken [OF triple_bind [OF cookie]])
      fix c
      show "triple (\<lambda>s. ((\<forall>raw se. c = Some (raw, se) \<longrightarrow> live_cookie ?V (M mm) r raw se) \<and> R aa (ad_auth (cs_adm s))) \<and> cs_set s = x)
        (case c of
           None \<Rightarrow> ret (CRefused 401 ''unauthorized'')
         | Some (raw, se) \<Rightarrow>
             if \<not> checkCSRF (ce_web C) r \<or> \<not> sameOriginFetch (ce_web C) r then ret (CRefused 403 ''forbidden'')
             else do {
               auth \<leftarrow> on_adm (get_auth ?V);
               if On auth \<and> \<not> au_Enrolled auth then ret (CRefused 403 ''2fa enrollment required'')
               else nxt (BySession raw se) }) (allowed x ?ok)"
      proof (intro triple_option triple_prod allowed_refused)
        fix p raw se assume "c = Some p" and "p = (raw, se)"
        then show "triple (\<lambda>s. ((\<forall>raw se. c = Some (raw, se) \<longrightarrow> live_cookie ?V (M mm) r raw se) \<and> R aa (ad_auth (cs_adm s))) \<and> cs_set s = x)
          (if \<not> checkCSRF (ce_web C) r \<or> \<not> sameOriginFetch (ce_web C) r then ret (CRefused 403 ''forbidden'')
             else do {
               auth \<leftarrow> on_adm (get_auth ?V);
               if On auth \<and> \<not> au_Enrolled auth then ret (CRefused 403 ''2fa enrollment required'')
               else nxt (BySession raw se) }) (allowed x ?ok)"
          by (intro triple_weaken [OF checked]) (use none in auto)
      qed
    qed auto
  qed
qed

subsection \<open>A concrete console\<close>

definition toy_token :: string where "toy_token = concat (replicate 32 ''61'')"

definition toy_session :: admin_session where
  "toy_session = \<lparr>as_Hash = toy_token, as_CreatedAt = 200 * second, as_LastSeen = 200 * second, as_IP = ''ip'', as_StepUpAt = zero_time\<rparr>"

definition toy_console :: "unit console_env" where
  "toy_console = \<lparr>ce_adm = toy_env, ce_web = Origin ''https'' ''h'', ce_store = undefined, ce_cfg = undefined, ce_others = id\<rparr>"

definition toy_signed :: "sset \<Rightarrow> unit console" where
  "toy_signed x = \<lparr>cs_adm = (toy_adm toy_auth)\<lparr>ad_sess := [(toy_token, toy_session)]\<rparr>, cs_set = x\<rparr>"

definition toy_get :: request where "toy_get = (toy_request [] [])\<lparr>rq_Method := GET, rq_Cookie := toy_token\<rparr>"

lemma toy_cookie:
  "run_state (cookieSession toy_env toy_get) (cs_adm (toy_signed x)) =
     (Some (toy_token, toy_session\<lparr>as_LastSeen := 300 * second\<rparr>),
      (toy_adm toy_auth)\<lparr>ad_sess := [(toy_token, toy_session\<lparr>as_LastSeen := 300 * second\<rparr>)]\<rparr>)"
proof -
  have "run_state (cookieSession toy_env toy_get) ((toy_adm toy_auth)\<lparr>ad_sess := [(toy_token, toy_session)]\<rparr>) =
     (Some (toy_token, toy_session\<lparr>as_LastSeen := 300 * second\<rparr>),
      (toy_adm toy_auth)\<lparr>ad_sess := [(toy_token, toy_session\<lparr>as_LastSeen := 300 * second\<rparr>)]\<rparr>)" by code_simp
  then show ?thesis by (simp add: toy_signed_def)
qed

lemma console_runs:
  assumes "rq_Authorization r = []" and "run_state (cookieSession (ce_adm C) r) (cs_adm s) = (Some (raw, se), a1)"
    and "checkCSRF (ce_web C) r" and "sameOriginFetch (ce_web C) r" and "run_state (get_auth (ce_adm C)) a1 = (auth, a2)"
    and "\<not> (On auth \<and> \<not> au_Enrolled auth)"
  shows "run_state (requireConsoleSession C r nxt) s = run_state (nxt (BySession raw se)) (s\<lparr>cs_adm := a2\<rparr>)"
  using assms by (auto simp: requireConsoleSession_def on_adm_def State_Monad.bind_def)

lemma toy_alone_step: "av_others toy_env s = s" "ad_auth (s\<lparr>ad_sess := m\<rparr>) = ad_auth s"
  by (simp_all add: toy_env_def)

lemma toy_export:
  "\<exists>vals s'. run_state (run_route toy_console toy_get RouteExport) (toy_signed x) = (CExport vals, s')"
proof -
  let ?se = "toy_session\<lparr>as_LastSeen := 300 * second\<rparr>" and ?a = "(toy_adm toy_auth)\<lparr>ad_sess := [(toy_token, toy_session\<lparr>as_LastSeen := 300 * second\<rparr>)]\<rparr>"
  have auth: "run_state (get_auth toy_env) ?a = (toy_auth, ?a)"
    by (simp add: get_auth_def adm_do_def Let_def toy_env_def)
  have ok: "rq_Authorization toy_get = []" "checkCSRF (Origin ''https'' ''h'') toy_get" "sameOriginFetch (Origin ''https'' ''h'') toy_get"
    "au_Enrolled toy_auth" "Fresh (300 * second) StepUpMaxAge ?se" by code_simp+
  have "run_state (run_route toy_console toy_get RouteExport) (toy_signed x) =
      run_state (requireStepUp toy_console (BySession toy_token ?se) (on_set toy_console (do {
        s \<leftarrow> get_set;
        (let vals = export_values (saved_settings s) in do {
          _ \<leftarrow> set_audit ''settings_export'' (show_int (int (length vals)) @ '' settings'');
          ret (CExport vals) }) }))) ((toy_signed x)\<lparr>cs_adm := ?a\<rparr>)"
    unfolding run_route_def console_route.case handleSettingsExport_def
    by (rule console_runs [where auth = toy_auth]) (use auth in \<open>simp_all add: toy_console_def ok toy_cookie\<close>)
  then show ?thesis
    using ok(5)
    by (simp add: requireStepUp_def on_adm_def the_time_def adm_do_def toy_console_def toy_env_def on_set_def get_set_def set_audit_def
        mod_set_def Let_def State_Monad.bind_def)
qed



end
