(* ===== verification/Spec2Isabelle.thy ===== *)
theory Spec2Isabelle
  imports Lease_Steps Sweep_Props Acquire_Props Boot_Props Admin_Props Catalog_Props Key_Api Mor_Limit Sse_Props Node_Proxy Inference_Props Audit_Props Settings_Props Settings_Gate
begin

text \<open>
  A verification development of Morpheus-Uplink (\<open>src/\<close>, Go): a gateway that keeps a pool of
  staked on-chain sessions and serves API requests through them.
\<close>

end
